(* ===== verification/Kcn_Prelude.thy ===== *)
theory Kcn_Prelude
  imports "HOL-Library.Word" "HOL-Library.Monad_Syntax"
begin

unbundle bit_operations_syntax

text \<open>
  Shared vocabulary of the development: the C types at their widths, the two ways a C function
  can fail, and the list lemmas the components use.

  \<^item> \<^bold>\<open>Undefined behaviour and failed assertions\<close> are the value \<^const>\<open>None\<close>: a definition
    of type \<open>... \<Rightarrow> 'a option\<close> returns \<^const>\<open>None\<close> exactly where the C code has no defined
    continuation (an \<open>assert\<close> that fails, a load or a store outside an object, a null pointer that
    is followed) or where a loop does not return.  Sequencing is the option monad's \<open>do\<close>.
  \<^item> \<^bold>\<open>Errors the code reports\<close> are values: a function that returns \<open>false\<close>, \<open>NULL\<close> or \<open>-1\<close> with
    \<open>errno\<close> set returns \<^term>\<open>Inl e\<close> with the errno value \<open>e\<close>, its success is \<^term>\<open>Inr v\<close>.
\<close>

section \<open>C types\<close>

type_synonym byte = "8 word"
type_synonym uint16 = "16 word"
type_synonym uint32 = "32 word"
type_synonym uint64 = "64 word"

text \<open>
  A C enumeration variable holds any value of its underlying integer type, and the decoders of this
  program store bytes of the network in such variables without checking them; so an enumeration is
  a 32-bit word and its enumerators are constants.  A \<open>size_t\<close> that counts bytes of an allocated
  object is a natural number; subtraction of two of them wraps as in C (\<open>usub\<close> below).  A
  \<open>time_t\<close> is a 64-bit word compared as signed.
\<close>

type_synonym c_enum = "32 word"
type_synonym time_t = "64 word"
type_synonym errno = nat
type_synonym 'a result = "errno + 'a"

definition usub :: "nat \<Rightarrow> nat \<Rightarrow> nat" where
  "usub a b = (if b \<le> a then a - b else 2 ^ 64 + a - b)"

lemma usub_le [simp]: "b \<le> a \<Longrightarrow> usub a b = a - b"
  by (simp add: usub_def)

section \<open>errno values (Linux)\<close>

abbreviation (input) ENOENT :: errno where "ENOENT \<equiv> 2"
abbreviation (input) EINTR :: errno where "EINTR \<equiv> 4"
abbreviation (input) EIO :: errno where "EIO \<equiv> 5"
abbreviation (input) ENXIO :: errno where "ENXIO \<equiv> 6"
abbreviation (input) E2BIG :: errno where "E2BIG \<equiv> 7"
abbreviation (input) EAGAIN :: errno where "EAGAIN \<equiv> 11"
abbreviation (input) ENOMEM :: errno where "ENOMEM \<equiv> 12"
abbreviation (input) EINVAL :: errno where "EINVAL \<equiv> 22"
abbreviation (input) ERANGE :: errno where "ERANGE \<equiv> 34"
abbreviation (input) EDEADLK :: errno where "EDEADLK \<equiv> 35"
abbreviation (input) EPROTONOSUPPORT :: errno where "EPROTONOSUPPORT \<equiv> 93"
abbreviation (input) EOPNOTSUPP :: errno where "EOPNOTSUPP \<equiv> 95"
abbreviation (input) ENETDOWN :: errno where "ENETDOWN \<equiv> 100"
abbreviation (input) ESHUTDOWN :: errno where "ESHUTDOWN \<equiv> 108"
abbreviation (input) ETOOMANYREFS :: errno where "ETOOMANYREFS \<equiv> 109"
abbreviation (input) ESRCH :: errno where "ESRCH \<equiv> 3"

text \<open>The results a library call will have, one after the other; an exhausted list is success.\<close>

fun next_errno :: "errno list \<Rightarrow> errno \<times> errno list" where
  "next_errno [] = (0, [])"
| "next_errno (e # es) = (e, es)"

section \<open>Assertions\<close>

definition c_assert :: "bool \<Rightarrow> unit option" where
  "c_assert b = (if b then Some () else None)"

lemma c_assert_simps [simp]:
  "b \<Longrightarrow> c_assert b = Some ()"
  "\<not> b \<Longrightarrow> c_assert b = None"
  "(c_assert b = Some ()) = b"
  "(c_assert b = None) = (\<not> b)"
  by (simp_all add: c_assert_def)

lemma c_assert_bind_eq_Some [simp]:
  "(c_assert b \<bind> f = Some r) = (b \<and> f () = Some r)"
  by (cases b) simp_all

section \<open>Lists\<close>

text \<open>Overwriting a stretch of a list: the effect of a \<open>memcpy\<close> that stays within the object.\<close>

definition list_write :: "nat \<Rightarrow> 'a list \<Rightarrow> 'a list \<Rightarrow> 'a list" where
  "list_write i ys xs = take i xs @ ys @ drop (i + length ys) xs"

lemma length_list_write [simp]:
  "i + length ys \<le> length xs \<Longrightarrow> length (list_write i ys xs) = length xs"
  by (simp add: list_write_def)

lemma list_write_append [simp]:
  "length xs = i \<Longrightarrow> list_write i ys (xs @ zs) = xs @ ys @ drop (length ys) zs"
  by (simp add: list_write_def)

lemma list_write_append2 [simp]:
  "length xs + length xs' = i \<Longrightarrow>
     list_write i ys (xs @ xs' @ zs) = xs @ xs' @ ys @ drop (length ys) zs"
  using list_write_append [of "xs @ xs'" i ys zs] by simp

lemma list_write_append3 [simp]:
  "length xs + length xs' + length xs'' = i \<Longrightarrow>
     list_write i ys (xs @ xs' @ xs'' @ zs) = xs @ xs' @ xs'' @ ys @ drop (length ys) zs"
  using list_write_append [of "xs @ xs' @ xs''" i ys zs] by simp

lemma nth_append_here [simp]: "length xs = i \<Longrightarrow> (xs @ y # ys) ! i = y"
  by (simp add: nth_append)

lemma nth_append_here2 [simp]: "length xs + length xs' = i \<Longrightarrow> (xs @ xs' @ y # ys) ! i = y"
  using nth_append_here [of "xs @ xs'" i] by simp

lemma list_update_here [simp]: "length xs = i \<Longrightarrow> (xs @ y # ys)[i := v] = xs @ v # ys"
  by (simp add: list_update_append)

lemma list_update_here2 [simp]:
  "length xs + length xs' = i \<Longrightarrow> (xs @ xs' @ y # ys)[i := v] = xs @ xs' @ v # ys"
  using list_update_here [of "xs @ xs'" i] by simp

lemma length_ge_1E:
  assumes "Suc 0 \<le> length xs" obtains x ys where "xs = x # ys"
  using assms by (cases xs) auto

lemma length_ge_2E:
  assumes "2 \<le> length xs" obtains a b ys where "xs = a # b # ys"
proof -
  from assms obtain a zs where 1: "xs = a # zs" by (cases xs) auto
  with assms obtain b ys where "zs = b # ys" by (cases zs) auto
  with 1 that show ?thesis by blast
qed

lemma length_ge_4E:
  assumes "4 \<le> length xs" obtains a b c d ys where "xs = a # b # c # d # ys"
proof -
  from assms have "2 \<le> length xs" by simp
  then obtain a b ys where 1: "xs = a # b # ys" by (rule length_ge_2E)
  with assms have "2 \<le> length ys" by simp
  then obtain c d zs where "ys = c # d # zs" by (rule length_ge_2E)
  with 1 that show ?thesis by blast
qed

lemma length_ge_8E:
  assumes "8 \<le> length xs"
  obtains a b c d e f g h ys where "xs = a # b # c # d # e # f # g # h # ys"
proof -
  from assms have "4 \<le> length xs" by simp
  then obtain a b c d ys where 1: "xs = a # b # c # d # ys" by (rule length_ge_4E)
  with assms have "4 \<le> length ys" by simp
  then obtain e f g h zs where "ys = e # f # g # h # zs" by (rule length_ge_4E)
  with 1 that show ?thesis by blast
qed

section \<open>Options and sums\<close>

lemma Inl_or_Inr: "(\<exists>e. r = Inl e) \<or> (\<exists>v. r = Inr v)"
  by (cases r) simp_all

end
