(* ===== verification/Kcn_Buf.thy ===== *)
theory Kcn_Buf
  imports Kcn_Prelude
begin

text \<open>
  \<^verbatim>\<open>lib/kcn_buf.c\<close>: byte buffers with a start, a current and an end position, the big-endian
  accessors the message codec and the database use, the queue of buffers a connection still has to
  send, and the two functions that move bytes between a buffer and a file descriptor.

  The model keeps the structures of the source.  A \<open>struct kcn_buf\<close> points to a
  \<open>struct kcn_buf_data\<close> or is null; positions are offsets into \<open>kbd_buf\<close>, and a pointer into the
  buffer (\<open>kcn_buf_head\<close>, \<open>kcn_buf_current\<close>, \<open>kcn_buf_tail\<close>) is such an offset.  Loads and stores
  are checked against the allocated bytes.  The lemmas then work on a second view of a well-formed
  buffer, \<open>zbuf pre h t post\<close>: the bytes before the start, those between start and current position
  (heading data), those between current position and end (trailing data), and the free space.
\<close>

section \<open>Structures\<close>

record kcn_buf_data =
  kbd_size :: nat
  kbd_sp :: nat
  kbd_ep :: nat
  kbd_buf :: "byte list"

record kcn_buf =
  kb_kbd :: "kcn_buf_data option"
  kb_cp :: nat

text \<open>The macros \<open>kb_size\<close>, \<open>kb_sp\<close> and \<open>kb_ep\<close> follow the data pointer.\<close>

definition kb_size :: "kcn_buf \<Rightarrow> nat option" where
  "kb_size kb = map_option kbd_size (kb_kbd kb)"

definition kb_sp :: "kcn_buf \<Rightarrow> nat option" where
  "kb_sp kb = map_option kbd_sp (kb_kbd kb)"

definition kb_ep :: "kcn_buf \<Rightarrow> nat option" where
  "kb_ep kb = map_option kbd_ep (kb_kbd kb)"

definition kb_set_sp :: "kcn_buf \<Rightarrow> nat \<Rightarrow> kcn_buf option" where
  "kb_set_sp kb n = map_option (\<lambda>d. kb\<lparr>kb_kbd := Some (d\<lparr>kbd_sp := n\<rparr>)\<rparr>) (kb_kbd kb)"

definition kb_set_ep :: "kcn_buf \<Rightarrow> nat \<Rightarrow> kcn_buf option" where
  "kb_set_ep kb n = map_option (\<lambda>d. kb\<lparr>kb_kbd := Some (d\<lparr>kbd_ep := n\<rparr>)\<rparr>) (kb_kbd kb)"

text \<open>
  Checked accesses to the bytes: a load of one byte, and a store of some (\<open>memcpy\<close>, \<open>memset\<close>,
  \<open>memmove\<close> and what \<open>read\<close> leaves behind).
\<close>

definition kb_load :: "kcn_buf \<Rightarrow> nat \<Rightarrow> nat \<Rightarrow> byte list option" where
  "kb_load kb i n = do {
     d \<leftarrow> kb_kbd kb;
     c_assert (i + n \<le> length (kbd_buf d));
     Some (take n (drop i (kbd_buf d)))
   }"

definition kb_store :: "kcn_buf \<Rightarrow> nat \<Rightarrow> byte list \<Rightarrow> kcn_buf option" where
  "kb_store kb i bs = do {
     d \<leftarrow> kb_kbd kb;
     c_assert (i + length bs \<le> length (kbd_buf d));
     Some (kb\<lparr>kb_kbd := Some (d\<lparr>kbd_buf := list_write i bs (kbd_buf d)\<rparr>)\<rparr>)
   }"

section \<open>Creation\<close>

definition kcn_buf_start :: "kcn_buf \<Rightarrow> kcn_buf option" where
  "kcn_buf_start kb = do { sp \<leftarrow> kb_sp kb; Some (kb\<lparr>kb_cp := sp\<rparr>) }"

definition kcn_buf_end :: "kcn_buf \<Rightarrow> kcn_buf option" where
  "kcn_buf_end kb = do { ep \<leftarrow> kb_ep kb; Some (kb\<lparr>kb_cp := ep\<rparr>) }"

definition kcn_buf_init :: "kcn_buf_data option \<Rightarrow> kcn_buf option" where
  "kcn_buf_init kbd =
     (if kbd \<noteq> None then kcn_buf_start \<lparr>kb_kbd = kbd, kb_cp = 0\<rparr>
      else Some \<lparr>kb_kbd = kbd, kb_cp = 0\<rparr>)"

text \<open>
  The allocator is a parameter: \<open>malloc n\<close> is \<^const>\<open>None\<close> when it returns \<open>NULL\<close> and otherwise
  the (arbitrary) contents of the new block.
\<close>

type_synonym allocator = "nat \<Rightarrow> byte list option"

definition kcn_buf_data_new :: "allocator \<Rightarrow> nat \<Rightarrow> kcn_buf_data option" where
  "kcn_buf_data_new malloc n =
     (case malloc n of
        None \<Rightarrow> None
      | Some mem \<Rightarrow> Some \<lparr>kbd_size = n, kbd_sp = 0, kbd_ep = 0, kbd_buf = mem\<rparr>)"

section \<open>Positions\<close>

definition kcn_buf_len :: "kcn_buf \<Rightarrow> nat option" where
  "kcn_buf_len kb = do { ep \<leftarrow> kb_ep kb; sp \<leftarrow> kb_sp kb; Some (usub ep sp) }"

definition kcn_buf_reset :: "kcn_buf \<Rightarrow> nat \<Rightarrow> kcn_buf option" where
  "kcn_buf_reset kb headingspace = do {
     kb \<leftarrow> kb_set_ep kb headingspace;
     kb \<leftarrow> kb_set_sp kb headingspace;
     Some (kb\<lparr>kb_cp := headingspace\<rparr>)
   }"

definition kcn_buf_headingspace :: "kcn_buf \<Rightarrow> nat option" where
  "kcn_buf_headingspace kb = kb_sp kb"

definition kcn_buf_trailingspace :: "kcn_buf \<Rightarrow> nat option" where
  "kcn_buf_trailingspace kb = do {
     sz \<leftarrow> kb_size kb; ep \<leftarrow> kb_ep kb;
     c_assert (sz \<ge> ep);
     Some (usub sz ep)
   }"

definition kcn_buf_headingdata :: "kcn_buf \<Rightarrow> nat option" where
  "kcn_buf_headingdata kb = do {
     sp \<leftarrow> kb_sp kb;
     c_assert (kb_cp kb \<ge> sp);
     Some (usub (kb_cp kb) sp)
   }"

definition kcn_buf_trailingdata :: "kcn_buf \<Rightarrow> nat option" where
  "kcn_buf_trailingdata kb = do {
     ep \<leftarrow> kb_ep kb;
     c_assert (ep \<ge> kb_cp kb);
     Some (usub ep (kb_cp kb))
   }"

definition kcn_buf_forward :: "kcn_buf \<Rightarrow> nat \<Rightarrow> kcn_buf option" where
  "kcn_buf_forward kb len = do {
     t \<leftarrow> kcn_buf_trailingdata kb;
     c_assert (t \<ge> len);
     Some (kb\<lparr>kb_cp := kb_cp kb + len\<rparr>)
   }"

definition kcn_buf_backward :: "kcn_buf \<Rightarrow> nat \<Rightarrow> kcn_buf option" where
  "kcn_buf_backward kb len = do {
     h \<leftarrow> kcn_buf_headingdata kb;
     c_assert (h \<ge> len);
     Some (kb\<lparr>kb_cp := usub (kb_cp kb) len\<rparr>)
   }"

definition kcn_buf_trim_head :: "kcn_buf \<Rightarrow> nat \<Rightarrow> kcn_buf option" where
  "kcn_buf_trim_head kb len = do {
     l \<leftarrow> kcn_buf_len kb;
     c_assert (l \<ge> len);
     sp \<leftarrow> kb_sp kb;
     kb \<leftarrow> kb_set_sp kb (sp + len);
     (if sp + len > kb_cp kb then kcn_buf_start kb else Some kb)
   }"

definition kcn_buf_head :: "kcn_buf \<Rightarrow> nat option" where
  "kcn_buf_head kb = kb_sp kb"

definition kcn_buf_current :: "kcn_buf \<Rightarrow> nat option" where
  "kcn_buf_current kb = do { _ \<leftarrow> kb_kbd kb; Some (kb_cp kb) }"

definition kcn_buf_tail :: "kcn_buf \<Rightarrow> nat option" where
  "kcn_buf_tail kb = kb_ep kb"

definition kcn_buf_realign :: "kcn_buf \<Rightarrow> kcn_buf option" where
  "kcn_buf_realign kb = do {
     len \<leftarrow> kcn_buf_len kb;
     src \<leftarrow> kcn_buf_head kb;
     bs \<leftarrow> kb_load kb src len;
     kb \<leftarrow> kb_store kb 0 bs;
     sp \<leftarrow> kb_sp kb;
     kb \<leftarrow> Some (kb\<lparr>kb_cp := usub (kb_cp kb) sp\<rparr>);
     kb \<leftarrow> kb_set_sp kb 0;
     kb_set_ep kb len
   }"

definition kcn_buf_prepend :: "kcn_buf \<Rightarrow> nat \<Rightarrow> kcn_buf option" where
  "kcn_buf_prepend kb len = do {
     hs \<leftarrow> kcn_buf_headingspace kb;
     c_assert (hs \<ge> len);
     sp \<leftarrow> kb_sp kb;
     kb \<leftarrow> kb_set_sp kb (usub sp len);
     sp \<leftarrow> kb_sp kb;
     Some (kb\<lparr>kb_cp := sp\<rparr>)
   }"

text \<open>
  The end moves by an addition of \<open>size_t\<close>, which wraps.  The size of the block is below \<open>2 ^ 64\<close>, as that of
  every block; a larger list of bytes does not stand for a block, and there the addition is exact.
\<close>

definition size_add :: "nat \<Rightarrow> nat \<Rightarrow> nat \<Rightarrow> nat" where
  "size_add sz a b = (if sz < 2 ^ 64 then (a + b) mod 2 ^ 64 else a + b)"

lemma size_add_le [simp]: "a + b \<le> sz \<Longrightarrow> size_add sz a b = a + b"
  by (simp add: size_add_def)

definition kcn_buf_append :: "kcn_buf \<Rightarrow> nat \<Rightarrow> kcn_buf option" where
  "kcn_buf_append kb len = do {
     trailingdata \<leftarrow> kcn_buf_trailingdata kb;
     (if trailingdata \<ge> len then Some kb
      else do {
        ep \<leftarrow> kb_ep kb;
        sz \<leftarrow> kb_size kb;
        kb \<leftarrow> kb_set_ep kb (size_add sz ep (len - trailingdata));
        ep \<leftarrow> kb_ep kb;
        c_assert (ep \<le> sz);
        Some kb
      })
   }"

section \<open>Big-endian accessors\<close>

text \<open>The two expressions \<open>kb->kb_buf[kb->kb_cp++]\<close> and \<open>kb->kb_buf[kb->kb_cp++] = v\<close>.\<close>

definition kb_getc :: "kcn_buf \<Rightarrow> (byte \<times> kcn_buf) option" where
  "kb_getc kb = do {
     bs \<leftarrow> kb_load kb (kb_cp kb) 1;
     Some (hd bs, kb\<lparr>kb_cp := kb_cp kb + 1\<rparr>)
   }"

definition kb_putc :: "kcn_buf \<Rightarrow> byte \<Rightarrow> kcn_buf option" where
  "kb_putc kb v = do {
     kb \<leftarrow> kb_store kb (kb_cp kb) [v];
     Some (kb\<lparr>kb_cp := kb_cp kb + 1\<rparr>)
   }"

definition kcn_buf_get8 :: "kcn_buf \<Rightarrow> (byte \<times> kcn_buf) option" where
  "kcn_buf_get8 kb = do {
     t \<leftarrow> kcn_buf_trailingdata kb;
     c_assert (t \<ge> 1);
     kb_getc kb
   }"

definition kcn_buf_get16 :: "kcn_buf \<Rightarrow> (uint16 \<times> kcn_buf) option" where
  "kcn_buf_get16 kb = do {
     t \<leftarrow> kcn_buf_trailingdata kb;
     c_assert (t \<ge> 2);
     (b, kb) \<leftarrow> kb_getc kb; v \<leftarrow> Some (push_bit 8 (ucast b :: uint16));
     (b, kb) \<leftarrow> kb_getc kb; v \<leftarrow> Some (v OR ucast b);
     Some (v, kb)
   }"

definition kcn_buf_get32 :: "kcn_buf \<Rightarrow> (uint32 \<times> kcn_buf) option" where
  "kcn_buf_get32 kb = do {
     t \<leftarrow> kcn_buf_trailingdata kb;
     c_assert (t \<ge> 4);
     (b, kb) \<leftarrow> kb_getc kb; v \<leftarrow> Some (push_bit 24 (ucast b :: uint32));
     (b, kb) \<leftarrow> kb_getc kb; v \<leftarrow> Some (v OR push_bit 16 (ucast b));
     (b, kb) \<leftarrow> kb_getc kb; v \<leftarrow> Some (v OR push_bit 8 (ucast b));
     (b, kb) \<leftarrow> kb_getc kb; v \<leftarrow> Some (v OR ucast b);
     Some (v, kb)
   }"

definition kcn_buf_get64 :: "kcn_buf \<Rightarrow> (uint64 \<times> kcn_buf) option" where
  "kcn_buf_get64 kb = do {
     t \<leftarrow> kcn_buf_trailingdata kb;
     c_assert (t \<ge> 8);
     (b, kb) \<leftarrow> kb_getc kb; v \<leftarrow> Some (push_bit 56 (ucast b :: uint64));
     (b, kb) \<leftarrow> kb_getc kb; v \<leftarrow> Some (v OR push_bit 48 (ucast b));
     (b, kb) \<leftarrow> kb_getc kb; v \<leftarrow> Some (v OR push_bit 40 (ucast b));
     (b, kb) \<leftarrow> kb_getc kb; v \<leftarrow> Some (v OR push_bit 32 (ucast b));
     (b, kb) \<leftarrow> kb_getc kb; v \<leftarrow> Some (v OR push_bit 24 (ucast b));
     (b, kb) \<leftarrow> kb_getc kb; v \<leftarrow> Some (v OR push_bit 16 (ucast b));
     (b, kb) \<leftarrow> kb_getc kb; v \<leftarrow> Some (v OR push_bit 8 (ucast b));
     (b, kb) \<leftarrow> kb_getc kb; v \<leftarrow> Some (v OR ucast b);
     Some (v, kb)
   }"

definition kcn_buf_put8 :: "kcn_buf \<Rightarrow> byte \<Rightarrow> kcn_buf option" where
  "kcn_buf_put8 kb v = do {
     kb \<leftarrow> kcn_buf_append kb 1;
     kb_putc kb v
   }"

definition kcn_buf_put16 :: "kcn_buf \<Rightarrow> uint16 \<Rightarrow> kcn_buf option" where
  "kcn_buf_put16 kb v = do {
     kb \<leftarrow> kcn_buf_append kb 2;
     kb \<leftarrow> kb_putc kb (ucast (drop_bit 8 v AND 0xff));
     kb_putc kb (ucast (v AND 0xff))
   }"

definition kcn_buf_put32 :: "kcn_buf \<Rightarrow> uint32 \<Rightarrow> kcn_buf option" where
  "kcn_buf_put32 kb v = do {
     kb \<leftarrow> kcn_buf_append kb 4;
     kb \<leftarrow> kb_putc kb (ucast (drop_bit 24 v AND 0xff));
     kb \<leftarrow> kb_putc kb (ucast (drop_bit 16 v AND 0xff));
     kb \<leftarrow> kb_putc kb (ucast (drop_bit 8 v AND 0xff));
     kb_putc kb (ucast (v AND 0xff))
   }"

definition kcn_buf_put64 :: "kcn_buf \<Rightarrow> uint64 \<Rightarrow> kcn_buf option" where
  "kcn_buf_put64 kb v = do {
     kb \<leftarrow> kcn_buf_append kb 8;
     kb \<leftarrow> kb_putc kb (ucast (drop_bit 56 v AND 0xff));
     kb \<leftarrow> kb_putc kb (ucast (drop_bit 48 v AND 0xff));
     kb \<leftarrow> kb_putc kb (ucast (drop_bit 40 v AND 0xff));
     kb \<leftarrow> kb_putc kb (ucast (drop_bit 32 v AND 0xff));
     kb \<leftarrow> kb_putc kb (ucast (drop_bit 24 v AND 0xff));
     kb \<leftarrow> kb_putc kb (ucast (drop_bit 16 v AND 0xff));
     kb \<leftarrow> kb_putc kb (ucast (drop_bit 8 v AND 0xff));
     kb_putc kb (ucast (v AND 0xff))
   }"

definition kcn_buf_put :: "kcn_buf \<Rightarrow> byte list \<Rightarrow> kcn_buf option" where
  "kcn_buf_put kb p = do {
     kb \<leftarrow> kcn_buf_append kb (length p);
     cur \<leftarrow> kcn_buf_current kb;
     kb \<leftarrow> kb_store kb cur p;
     kcn_buf_forward kb (length p)
   }"

definition kcn_buf_putnull :: "kcn_buf \<Rightarrow> nat \<Rightarrow> kcn_buf option" where
  "kcn_buf_putnull kb len = do {
     kb \<leftarrow> kcn_buf_append kb len;
     cur \<leftarrow> kcn_buf_current kb;
     kb \<leftarrow> kb_store kb cur (replicate len 0);
     kcn_buf_forward kb len
   }"

section \<open>Well-formed buffers as four stretches of bytes\<close>

definition zbuf :: "byte list \<Rightarrow> byte list \<Rightarrow> byte list \<Rightarrow> byte list \<Rightarrow> kcn_buf" where
  "zbuf pre h t post =
     \<lparr>kb_kbd = Some
        \<lparr>kbd_size = length pre + length h + length t + length post,
         kbd_sp = length pre,
         kbd_ep = length pre + length h + length t,
         kbd_buf = pre @ h @ t @ post\<rparr>,
      kb_cp = length pre + length h\<rparr>"

definition kb_wf :: "kcn_buf \<Rightarrow> bool" where
  "kb_wf kb =
     (case kb_kbd kb of
        None \<Rightarrow> False
      | Some d \<Rightarrow> kbd_sp d \<le> kb_cp kb \<and> kb_cp kb \<le> kbd_ep d \<and> kbd_ep d \<le> kbd_size d \<and>
                  length (kbd_buf d) = kbd_size d)"

lemma kb_wf_zbuf [simp]: "kb_wf (zbuf pre h t post)"
  by (simp add: kb_wf_def zbuf_def)

lemma kb_wf_zbufE:
  assumes "kb_wf kb"
  obtains pre h t post where "kb = zbuf pre h t post"
proof -
  from assms obtain d where d: "kb_kbd kb = Some d"
    and le: "kbd_sp d \<le> kb_cp kb" "kb_cp kb \<le> kbd_ep d" "kbd_ep d \<le> kbd_size d"
      "length (kbd_buf d) = kbd_size d"
    by (auto simp: kb_wf_def split: option.splits)
  let ?b = "kbd_buf d"
  let ?pre = "take (kbd_sp d) ?b" and ?h = "take (kb_cp kb - kbd_sp d) (drop (kbd_sp d) ?b)"
  let ?t = "take (kbd_ep d - kb_cp kb) (drop (kb_cp kb) ?b)" and ?post = "drop (kbd_ep d) ?b"
  have "?t @ ?post = drop (kb_cp kb) ?b"
    using le append_take_drop_id [of "kbd_ep d - kb_cp kb" "drop (kb_cp kb) ?b"] by simp
  moreover have "?h @ drop (kb_cp kb) ?b = drop (kbd_sp d) ?b"
    using le append_take_drop_id [of "kb_cp kb - kbd_sp d" "drop (kbd_sp d) ?b"] by simp
  ultimately have "?pre @ ?h @ ?t @ ?post = ?b" by simp
  moreover have "length ?pre = kbd_sp d" "length ?h = kb_cp kb - kbd_sp d"
    "length ?t = kbd_ep d - kb_cp kb" "length ?post = kbd_size d - kbd_ep d"
    using le by simp_all
  ultimately have "kb = zbuf ?pre ?h ?t ?post"
    using d le by (simp add: zbuf_def)
  then show thesis by (rule that)
qed

text \<open>The bytes a well-formed buffer holds, by stretch; on other buffers these are arbitrary.\<close>

definition kb_heading :: "kcn_buf \<Rightarrow> byte list" where
  "kb_heading kb = (case kb_kbd kb of None \<Rightarrow> []
     | Some d \<Rightarrow> take (kb_cp kb - kbd_sp d) (drop (kbd_sp d) (kbd_buf d)))"

definition kb_trailing :: "kcn_buf \<Rightarrow> byte list" where
  "kb_trailing kb = (case kb_kbd kb of None \<Rightarrow> []
     | Some d \<Rightarrow> take (kbd_ep d - kb_cp kb) (drop (kb_cp kb) (kbd_buf d)))"

definition kb_data :: "kcn_buf \<Rightarrow> byte list" where
  "kb_data kb = (case kb_kbd kb of None \<Rightarrow> []
     | Some d \<Rightarrow> take (kbd_ep d - kbd_sp d) (drop (kbd_sp d) (kbd_buf d)))"

definition kb_cap :: "kcn_buf \<Rightarrow> nat" where
  "kb_cap kb = (case kb_kbd kb of None \<Rightarrow> 0 | Some d \<Rightarrow> kbd_size d)"

lemma zbuf_views [simp]:
  "kb_heading (zbuf pre h t post) = h"
  "kb_trailing (zbuf pre h t post) = t"
  "kb_data (zbuf pre h t post) = h @ t"
  "kb_cap (zbuf pre h t post) = length pre + length h + length t + length post"
  by (simp_all add: kb_heading_def kb_trailing_def kb_data_def kb_cap_def zbuf_def)

lemma kb_wf_data: "kb_wf kb \<Longrightarrow> kb_data kb = kb_heading kb @ kb_trailing kb"
  by (auto elim: kb_wf_zbufE)

text \<open>Every operation on the stretches.  Together these equations execute buffer code symbolically.\<close>

named_theorems zbuf_simps

lemma zbuf_fields:
  "kb_sp (zbuf pre h t post) = Some (length pre)"
  "kb_ep (zbuf pre h t post) = Some (length pre + length h + length t)"
  "kb_size (zbuf pre h t post) = Some (length pre + length h + length t + length post)"
  "kb_cp (zbuf pre h t post) = length pre + length h"
  "kb_kbd (zbuf pre h t post) \<noteq> None"
  by (simp_all add: zbuf_def kb_sp_def kb_ep_def kb_size_def)

lemma zbuf_len [zbuf_simps]:
  "kcn_buf_len (zbuf pre h t post) = Some (length h + length t)"
  "kcn_buf_headingdata (zbuf pre h t post) = Some (length h)"
  "kcn_buf_trailingdata (zbuf pre h t post) = Some (length t)"
  "kcn_buf_headingspace (zbuf pre h t post) = Some (length pre)"
  "kcn_buf_trailingspace (zbuf pre h t post) = Some (length post)"
  "kcn_buf_head (zbuf pre h t post) = Some (length pre)"
  "kcn_buf_current (zbuf pre h t post) = Some (length pre + length h)"
  "kcn_buf_tail (zbuf pre h t post) = Some (length pre + length h + length t)"
  by (simp_all add: kcn_buf_len_def kcn_buf_headingdata_def kcn_buf_trailingdata_def
      kcn_buf_headingspace_def kcn_buf_trailingspace_def kcn_buf_head_def kcn_buf_current_def
      kcn_buf_tail_def zbuf_fields) (simp add: zbuf_def)

lemma zbuf_start [zbuf_simps]:
  "kcn_buf_start (zbuf pre h t post) = Some (zbuf pre [] (h @ t) post)"
  "kcn_buf_end (zbuf pre h t post) = Some (zbuf pre (h @ t) [] post)"
  by (simp_all add: kcn_buf_start_def kcn_buf_end_def zbuf_def kb_sp_def kb_ep_def)

lemma zbuf_reset [zbuf_simps]:
  "n \<le> length pre + length h + length t + length post \<Longrightarrow>
   kcn_buf_reset (zbuf pre h t post) n =
     Some (zbuf (take n (pre @ h @ t @ post)) [] [] (drop n (pre @ h @ t @ post)))"
  by (simp add: kcn_buf_reset_def kb_set_ep_def kb_set_sp_def zbuf_def del: take_append drop_append)

lemma zbuf_reset_0 [zbuf_simps]:
  "kcn_buf_reset (zbuf pre h t post) 0 = Some (zbuf [] [] [] (pre @ h @ t @ post))"
  by (simp add: zbuf_reset)

lemma zbuf_forward [zbuf_simps]:
  "kcn_buf_forward (zbuf pre h t post) n =
     (if n \<le> length t then Some (zbuf pre (h @ take n t) (drop n t) post) else None)"
  by (simp add: kcn_buf_forward_def zbuf_len) (simp add: zbuf_def)

lemma zbuf_backward [zbuf_simps]:
  "kcn_buf_backward (zbuf pre h t post) n =
     (if n \<le> length h
      then Some (zbuf pre (take (length h - n) h) (drop (length h - n) h @ t) post) else None)"
  by (simp add: kcn_buf_backward_def zbuf_len) (simp add: zbuf_def)

lemma zbuf_set_sp:
  "n \<le> length h \<Longrightarrow>
   kb_set_sp (zbuf pre h t post) (length pre + n) = Some (zbuf (pre @ take n h) (drop n h) t post)"
  by (simp add: kb_set_sp_def zbuf_def)

lemma zbuf_trim_head [zbuf_simps]:
  "kcn_buf_trim_head (zbuf pre h t post) n =
     (if n \<le> length h + length t
      then Some (zbuf (pre @ take n (h @ t)) (drop n h) (drop (n - length h) t) post) else None)"
proof (cases "n \<le> length h")
  case True
  then show ?thesis
    by (simp add: kcn_buf_trim_head_def zbuf_len zbuf_fields zbuf_set_sp)
next
  case False
  have "kb_set_sp (zbuf pre h t post) (length pre + n) =
        Some (zbuf pre h t post \<lparr>kb_kbd := Some (the (kb_kbd (zbuf pre h t post))\<lparr>kbd_sp := length pre + n\<rparr>)\<rparr>)"
    by (simp add: kb_set_sp_def zbuf_def)
  with False show ?thesis
    by (simp add: kcn_buf_trim_head_def zbuf_len zbuf_fields)
      (simp add: kcn_buf_start_def kb_sp_def zbuf_def)
qed

lemma zbuf_trim_heading [zbuf_simps]:
  "kcn_buf_trim_head (zbuf pre h t post) (length h) = Some (zbuf (pre @ h) [] t post)"
  by (simp add: zbuf_trim_head)

lemma zbuf_load:
  "kb_load (zbuf pre h t post) (length pre) n =
     (if n \<le> length h + length t + length post then Some (take n (h @ t @ post)) else None)"
  "kb_load (zbuf pre h t post) (length pre + length h) n =
     (if n \<le> length t + length post then Some (take n (t @ post)) else None)"
  by (simp_all add: kb_load_def zbuf_def del: take_append)

lemma zbuf_realign [zbuf_simps]:
  "kcn_buf_realign (zbuf pre h t post) =
     Some (zbuf [] h t (drop (length h + length t) (pre @ h @ t @ post)))"
proof -
  have "kb_load (zbuf pre h t post) (length pre) (length h + length t) = Some (h @ t)"
    by (simp add: zbuf_load)
  moreover have "kb_store (zbuf pre h t post) 0 (h @ t) =
      Some (zbuf pre h t post \<lparr>kb_kbd := Some (the (kb_kbd (zbuf pre h t post))
        \<lparr>kbd_buf := (h @ t) @ drop (length h + length t) (pre @ h @ t @ post)\<rparr>)\<rparr>)"
    by (simp add: kb_store_def zbuf_def list_write_def del: drop_append)
  ultimately show ?thesis
    by (simp add: kcn_buf_realign_def zbuf_len del: drop_append)
      (simp add: zbuf_def kb_sp_def kb_set_sp_def kb_set_ep_def)
qed

lemma zbuf_prepend [zbuf_simps]:
  "kcn_buf_prepend (zbuf pre h t post) n =
     (if n \<le> length pre
      then Some (zbuf (take (length pre - n) pre) [] (drop (length pre - n) pre @ h @ t) post)
      else None)"
  by (simp add: kcn_buf_prepend_def zbuf_len zbuf_fields) (simp add: kb_set_sp_def kb_sp_def zbuf_def)

lemma zbuf_append [zbuf_simps]:
  "n \<le> length t + length post \<Longrightarrow> kcn_buf_append (zbuf pre h t post) n =
     Some (zbuf pre h (t @ take (n - length t) post) (drop (n - length t) post))"
  by (auto simp add: kcn_buf_append_def zbuf_len zbuf_fields)
    (auto simp: kb_set_ep_def kb_ep_def kb_size_def zbuf_def)

text \<open>What does not fit fails the assertion, or passes it with an end that has wrapped; then the store that follows faults.\<close>

definition kb_room :: "kcn_buf \<Rightarrow> nat option" where
  "kb_room kb = map_option (\<lambda>d. length (kbd_buf d) - kb_cp kb) (kb_kbd kb)"

lemma room_zbuf [simp]: "kb_room (zbuf pre h t post) = Some (length t + length post)"
  by (simp add: kb_room_def zbuf_def)

lemma append_room:
  assumes "kcn_buf_append kb n = Some kb'" shows "kb_room kb' = kb_room kb \<and> kb_cp kb' = kb_cp kb"
  using assms
  by (auto simp: kcn_buf_append_def bind_eq_Some_conv kb_set_ep_def kb_room_def split: if_splits)

lemma store_room:
  assumes "kb_store kb (kb_cp kb) bs = Some kb'" shows "\<exists>n. kb_room kb = Some n \<and> length bs \<le> n"
  using assms by (auto simp: kb_store_def bind_eq_Some_conv kb_room_def)

lemma putc_room:
  assumes "kb_putc kb v = Some kb'" shows "\<exists>n. kb_room kb = Some (Suc n) \<and> kb_room kb' = Some n"
  using assms
  by (auto simp: kb_putc_def kb_store_def bind_eq_Some_conv kb_room_def Suc_diff_Suc)

lemma zbuf_getc [zbuf_simps]:
  "kb_getc (zbuf pre h (b # t) post) = Some (b, zbuf pre (h @ [b]) t post)"
  by (simp add: kb_getc_def zbuf_fields zbuf_load) (simp add: zbuf_def)

lemma zbuf_store:
  "length bs \<le> length t \<Longrightarrow>
   kb_store (zbuf pre h t post) (length pre + length h) bs =
     Some (zbuf pre h (bs @ drop (length bs) t) post)"
  "length bs \<le> length post \<Longrightarrow>
   kb_store (zbuf pre h t post) (length pre + length h + length t) bs =
     Some (zbuf pre h t (bs @ drop (length bs) post))"
  by (simp_all add: kb_store_def zbuf_def)

lemma zbuf_putc [zbuf_simps]:
  "kb_putc (zbuf pre h (b # t) post) v = Some (zbuf pre (h @ [v]) t post)"
  using zbuf_store(1) [of "[v]" "b # t" pre h post]
  by (simp add: kb_putc_def zbuf_fields) (simp add: zbuf_def)

section \<open>Big-endian integers\<close>

text \<open>The byte sequence that stands for an integer on the wire and in the database files.\<close>

definition be16 :: "uint16 \<Rightarrow> byte list" where
  "be16 v = [ucast (drop_bit 8 v), ucast v]"

definition be32 :: "uint32 \<Rightarrow> byte list" where
  "be32 v = [ucast (drop_bit 24 v), ucast (drop_bit 16 v), ucast (drop_bit 8 v), ucast v]"

definition be64 :: "uint64 \<Rightarrow> byte list" where
  "be64 v = [ucast (drop_bit 56 v), ucast (drop_bit 48 v), ucast (drop_bit 40 v), ucast (drop_bit 32 v),
             ucast (drop_bit 24 v), ucast (drop_bit 16 v), ucast (drop_bit 8 v), ucast v]"

text \<open>Reading such a sequence back, most significant byte first.\<close>

definition of_be16 :: "byte list \<Rightarrow> uint16" where
  "of_be16 bs = push_bit 8 (ucast (bs ! 0)) OR ucast (bs ! 1)"

definition of_be32 :: "byte list \<Rightarrow> uint32" where
  "of_be32 bs = push_bit 24 (ucast (bs ! 0)) OR push_bit 16 (ucast (bs ! 1)) OR
     push_bit 8 (ucast (bs ! 2)) OR ucast (bs ! 3)"

definition of_be64 :: "byte list \<Rightarrow> uint64" where
  "of_be64 bs = push_bit 56 (ucast (bs ! 0)) OR push_bit 48 (ucast (bs ! 1)) OR
     push_bit 40 (ucast (bs ! 2)) OR push_bit 32 (ucast (bs ! 3)) OR
     push_bit 24 (ucast (bs ! 4)) OR push_bit 16 (ucast (bs ! 5)) OR
     push_bit 8 (ucast (bs ! 6)) OR ucast (bs ! 7)"

lemma length_be [simp]:
  "length (be16 v) = 2" "length (be32 w) = 4" "length (be64 x) = 8"
  by (simp_all add: be16_def be32_def be64_def)

lemma byte_bit_ge [simp]: "8 \<le> n \<Longrightarrow> \<not> bit (b :: byte) n"
  by (auto dest: bit_imp_le_length)

text \<open>Bit \<open>8 * q + r\<close> of the integer is bit \<open>r\<close> of the \<open>q\<close>-th byte from the end.\<close>

lemma bit_of_be16:
  "r < 8 \<Longrightarrow> q < 2 \<Longrightarrow> bit (of_be16 bs) (8 * q + r) = bit (bs ! (1 - q)) r"
  by (auto simp: of_be16_def bit_simps less_2_cases_iff)

lemma bit_of_be32:
  assumes "r < 8" "q < 4"
  shows "bit (of_be32 bs) (8 * q + r) = bit (bs ! (3 - q)) r"
proof -
  have "q = 0 \<or> q = 1 \<or> q = 2 \<or> q = 3" using assms(2) by arith
  with assms(1) show ?thesis
    by (elim disjE) (simp_all add: of_be32_def bit_simps)
qed

lemma bit_of_be64:
  assumes "r < 8" "q < 8"
  shows "bit (of_be64 bs) (8 * q + r) = bit (bs ! (7 - q)) r"
proof -
  have "q = 0 \<or> q = 1 \<or> q = 2 \<or> q = 3 \<or> q = 4 \<or> q = 5 \<or> q = 6 \<or> q = 7" using assms(2) by arith
  with assms(1) show ?thesis
    by (elim disjE) (simp_all add: of_be64_def bit_simps)
qed

lemma nth_be16: "k < 2 \<Longrightarrow> be16 v ! k = ucast (drop_bit (8 * (1 - k)) v)"
  by (auto simp: be16_def less_2_cases_iff)

lemma nth_be32:
  assumes "k < 4" shows "be32 v ! k = ucast (drop_bit (8 * (3 - k)) v)"
proof -
  have "k = 0 \<or> k = 1 \<or> k = 2 \<or> k = 3" using assms by arith
  then show ?thesis by (elim disjE) (simp_all add: be32_def)
qed

lemma nth_be64:
  assumes "k < 8" shows "be64 v ! k = ucast (drop_bit (8 * (7 - k)) v)"
proof -
  have "k = 0 \<or> k = 1 \<or> k = 2 \<or> k = 3 \<or> k = 4 \<or> k = 5 \<or> k = 6 \<or> k = 7" using assms by arith
  then show ?thesis by (elim disjE) (simp_all add: be64_def)
qed

lemma byte_split:
  assumes "n < 8 * k"
  obtains q r :: nat where "n = 8 * q + r" "r < 8" "q < k"
proof (rule that [of "n div 8" "n mod 8"])
  show "n div 8 < k" using assms by (simp add: div_less_iff_less_mult mult.commute)
qed simp_all

lemma of_be16_be16 [simp]: "of_be16 (be16 v) = v"
proof (rule bit_word_eqI)
  fix n :: nat assume "n < LENGTH(16)"
  then have "n < 8 * 2" by simp
  then show "bit (of_be16 (be16 v)) n = bit v n"
    by (rule byte_split) (simp add: bit_of_be16 nth_be16 bit_simps)
qed

lemma of_be32_be32 [simp]: "of_be32 (be32 v) = v"
proof (rule bit_word_eqI)
  fix n :: nat assume "n < LENGTH(32)"
  then have "n < 8 * 4" by simp
  then show "bit (of_be32 (be32 v)) n = bit v n"
    by (rule byte_split) (simp add: bit_of_be32 nth_be32 bit_simps)
qed

lemma of_be64_be64 [simp]: "of_be64 (be64 v) = v"
proof (rule bit_word_eqI)
  fix n :: nat assume "n < LENGTH(64)"
  then have "n < 8 * 8" by simp
  then show "bit (of_be64 (be64 v)) n = bit v n"
    by (rule byte_split) (simp add: bit_of_be64 nth_be64 bit_simps)
qed

lemma be16_of_be16 [simp]:
  assumes "length bs = 2" shows "be16 (of_be16 bs) = bs"
proof (rule nth_equalityI)
  fix k assume "k < length (be16 (of_be16 bs))"
  then have k: "k < 2" by simp
  show "be16 (of_be16 bs) ! k = bs ! k"
  proof (rule bit_word_eqI)
    fix r :: nat assume "r < LENGTH(8)"
    with k bit_of_be16 [of r "1 - k" bs] show "bit (be16 (of_be16 bs) ! k) r = bit (bs ! k) r"
      by (simp add: nth_be16 bit_simps)
  qed
qed (simp add: assms)

lemma be64_of_be64 [simp]:
  assumes "length bs = 8" shows "be64 (of_be64 bs) = bs"
proof (rule nth_equalityI)
  fix k assume "k < length (be64 (of_be64 bs))"
  then have k: "k < 8" by simp
  show "be64 (of_be64 bs) ! k = bs ! k"
  proof (rule bit_word_eqI)
    fix r :: nat assume "r < LENGTH(8)"
    with k bit_of_be64 [of r "7 - k" bs] show "bit (be64 (of_be64 bs) ! k) r = bit (bs ! k) r"
      by (simp add: nth_be64 bit_simps)
  qed
qed (simp add: assms)

lemma be16_inject [simp]: "be16 v = be16 w \<longleftrightarrow> v = w"
  by (metis of_be16_be16)

lemma be64_inject [simp]: "be64 v = be64 w \<longleftrightarrow> v = w"
  by (metis of_be64_be64)

lemma bit_ff: "bit (0xff :: 'a::len word) n \<longleftrightarrow> n < 8 \<and> n < LENGTH('a)"
proof -
  have "(0xff :: 'a word) = mask 8" by (simp add: mask_eq_exp_minus_1)
  then show ?thesis by (simp only: bit_mask_iff) auto
qed

lemma ucast_and_ff:
  "ucast ((v :: uint16) AND 0xff) = (ucast v :: byte)"
  "ucast ((w :: uint32) AND 0xff) = (ucast w :: byte)"
  "ucast ((x :: uint64) AND 0xff) = (ucast x :: byte)"
  by (rule bit_word_eqI, simp only: bit_ucast_iff bit_and_iff bit_ff, auto)+

section \<open>Reading and writing integers\<close>

text \<open>A put of \<open>n\<close> bytes needs that much trailing data and free space together.\<close>

lemma zbuf_put [zbuf_simps]:
  "kcn_buf_put (zbuf pre h t post) bs =
     (if length bs \<le> length t + length post
      then Some (zbuf pre (h @ bs) (drop (length bs) t) (drop (length bs - length t) post)) else None)"
proof (cases "length bs \<le> length t + length post")
  case True
  let ?t = "t @ take (length bs - length t) post"
  let ?post = "drop (length bs - length t) post"
  from True have "length bs \<le> length ?t" by simp
  from zbuf_store(1) [OF this, of pre h ?post] True show ?thesis
    by (simp add: kcn_buf_put_def zbuf_append zbuf_len zbuf_forward)
next
  case False
  have "kcn_buf_put (zbuf pre h t post) bs \<noteq> Some kb" for kb
    using False
    by (auto simp: kcn_buf_put_def bind_eq_Some_conv kcn_buf_current_def dest!: append_room store_room)
  with False show ?thesis by auto
qed

lemma zbuf_putnull [zbuf_simps]:
  "kcn_buf_putnull (zbuf pre h t post) n = kcn_buf_put (zbuf pre h t post) (replicate n 0)"
  by (simp add: kcn_buf_putnull_def kcn_buf_put_def)

lemma zbuf_putc_Cons:
  "t \<noteq> [] \<Longrightarrow> kb_putc (zbuf pre h t post) v = Some (zbuf pre (h @ [v]) (tl t) post)"
  by (cases t) (simp_all add: zbuf_putc)

lemma zbuf_put8 [zbuf_simps]:
  "kcn_buf_put8 (zbuf pre h t post) v = kcn_buf_put (zbuf pre h t post) [v]"
proof (cases "1 \<le> length t + length post")
  case True
  then show ?thesis by (cases t; cases post) (simp_all add: kcn_buf_put8_def zbuf_append zbuf_put zbuf_putc)
next
  case False
  have "kcn_buf_put8 (zbuf pre h t post) v \<noteq> Some kb" for kb
    using False by (auto simp: kcn_buf_put8_def bind_eq_Some_conv dest!: append_room putc_room)
  with False show ?thesis by (auto simp: zbuf_put)
qed

lemma zbuf_put16 [zbuf_simps]:
  "kcn_buf_put16 (zbuf pre h t post) v = kcn_buf_put (zbuf pre h t post) (be16 v)"
proof (cases "2 \<le> length t + length post")
  case True
  let ?t = "t @ take (2 - length t) post"
  from True have "2 \<le> length ?t" by simp
  then obtain a b t' where t': "?t = a # b # t'" by (rule length_ge_2E)
  have "drop 2 t = t'" using arg_cong [OF t', of "drop 2"] by (simp split: if_splits)
  with True t' show ?thesis
    by (simp add: kcn_buf_put16_def zbuf_append zbuf_put zbuf_putc ucast_and_ff)
      (simp add: be16_def)
next
  case False
  have "kcn_buf_put16 (zbuf pre h t post) v \<noteq> Some kb" for kb
    using False by (auto simp: kcn_buf_put16_def bind_eq_Some_conv dest!: append_room putc_room)
  with False show ?thesis by (auto simp: zbuf_put)
qed

lemma zbuf_put32 [zbuf_simps]:
  "kcn_buf_put32 (zbuf pre h t post) v = kcn_buf_put (zbuf pre h t post) (be32 v)"
proof (cases "4 \<le> length t + length post")
  case True
  let ?t = "t @ take (4 - length t) post"
  from True have "4 \<le> length ?t" by simp
  then obtain a b c d t' where t': "?t = a # b # c # d # t'" by (rule length_ge_4E)
  have "drop 4 t = t'" using arg_cong [OF t', of "drop 4"] by (simp split: if_splits)
  with True t' show ?thesis
    by (simp add: kcn_buf_put32_def zbuf_append zbuf_put zbuf_putc ucast_and_ff)
      (simp add: be32_def)
next
  case False
  have "kcn_buf_put32 (zbuf pre h t post) v \<noteq> Some kb" for kb
    using False by (auto simp: kcn_buf_put32_def bind_eq_Some_conv dest!: append_room putc_room)
  with False show ?thesis by (auto simp: zbuf_put)
qed

lemma zbuf_put64 [zbuf_simps]:
  "kcn_buf_put64 (zbuf pre h t post) v = kcn_buf_put (zbuf pre h t post) (be64 v)"
proof (cases "8 \<le> length t + length post")
  case True
  let ?t = "t @ take (8 - length t) post"
  from True have "8 \<le> length ?t" by simp
  then obtain a b c d e f g i t' where t': "?t = a # b # c # d # e # f # g # i # t'"
    by (rule length_ge_8E)
  have "drop 8 t = t'" using arg_cong [OF t', of "drop 8"] by (simp split: if_splits)
  with True t' show ?thesis
    by (simp add: kcn_buf_put64_def zbuf_append zbuf_put zbuf_putc ucast_and_ff)
      (simp add: be64_def)
next
  case False
  have "kcn_buf_put64 (zbuf pre h t post) v \<noteq> Some kb" for kb
    using False by (auto simp: kcn_buf_put64_def bind_eq_Some_conv dest!: append_room putc_room)
  with False show ?thesis by (auto simp: zbuf_put)
qed

text \<open>A get takes its bytes off the trailing data, and fails its assertion when they are missing.\<close>

lemma zbuf_get8 [zbuf_simps]:
  "kcn_buf_get8 (zbuf pre h t post) =
     (if 1 \<le> length t then Some (hd t, zbuf pre (h @ take 1 t) (drop 1 t) post) else None)"
  by (cases t) (simp_all add: kcn_buf_get8_def zbuf_len zbuf_getc)

lemma zbuf_get16 [zbuf_simps]:
  "kcn_buf_get16 (zbuf pre h t post) =
     (if 2 \<le> length t
      then Some (of_be16 (take 2 t), zbuf pre (h @ take 2 t) (drop 2 t) post) else None)"
proof (cases "2 \<le> length t")
  case True
  then obtain a b t' where "t = a # b # t'" by (rule length_ge_2E)
  then show ?thesis by (simp add: kcn_buf_get16_def zbuf_len zbuf_getc of_be16_def or.assoc)
next
  case False
  then show ?thesis by (simp add: kcn_buf_get16_def zbuf_len)
qed

lemma zbuf_get32 [zbuf_simps]:
  "kcn_buf_get32 (zbuf pre h t post) =
     (if 4 \<le> length t
      then Some (of_be32 (take 4 t), zbuf pre (h @ take 4 t) (drop 4 t) post) else None)"
proof (cases "4 \<le> length t")
  case True
  then obtain a b c d t' where "t = a # b # c # d # t'" by (rule length_ge_4E)
  then show ?thesis by (simp add: kcn_buf_get32_def zbuf_len zbuf_getc of_be32_def or.assoc)
next
  case False
  then show ?thesis by (simp add: kcn_buf_get32_def zbuf_len)
qed

lemma zbuf_get64 [zbuf_simps]:
  "kcn_buf_get64 (zbuf pre h t post) =
     (if 8 \<le> length t
      then Some (of_be64 (take 8 t), zbuf pre (h @ take 8 t) (drop 8 t) post) else None)"
proof (cases "8 \<le> length t")
  case True
  then obtain a b c d e f g i t' where "t = a # b # c # d # e # f # g # i # t'"
    by (rule length_ge_8E)
  then show ?thesis by (simp add: kcn_buf_get64_def zbuf_len zbuf_getc of_be64_def or.assoc)
next
  case False
  then show ?thesis by (simp add: kcn_buf_get64_def zbuf_len)
qed

end
