(* ===== verification/Kcn_Buf_IO.thy ===== *)
theory Kcn_Buf_IO
  imports Kcn_Buf
begin

text \<open>
  \<^verbatim>\<open>lib/kcn_buf.c\<close>, continued: the queue of buffers (\<open>kcn_buf_enqueue\<close>, \<open>kcn_buf_fetch\<close>,
  \<open>kcn_buf_drop\<close>, \<open>kcn_buf_purge\<close>), the transfer between a buffer and a file descriptor
  (\<open>kcn_buf_read\<close>, \<open>kcn_buf_write\<close>) and the hexadecimal dump.

  The system calls are parameters: \<open>rd fd n\<close> is the outcome of \<open>read(fd, p, n)\<close> and the descriptor's
  next state, \<open>wr fd bs\<close> that of \<open>write\<close>.  What the code relies on of them is stated by the locales
  \<open>io_reader\<close> and \<open>io_writer\<close>; the regular files and the stream sockets of the other theories
  interpret them.
\<close>

section \<open>Queue\<close>

text \<open>
  The linked list is a HOL list.  A buffer that \<open>kcn_buf_fetch\<close> returns points into the queue's
  first element, so what is done to it is done to that element: \<open>kb_sync\<close> writes it back.
\<close>

type_synonym kcn_buf_queue = "kcn_buf_data list"

definition kcn_buf_queue_init :: kcn_buf_queue where
  "kcn_buf_queue_init = []"

definition kb_sync :: "kcn_buf \<Rightarrow> kcn_buf_queue \<Rightarrow> kcn_buf_queue" where
  "kb_sync kb kbq =
     (case (kb_kbd kb, kbq) of (Some kbd, _ # kbds) \<Rightarrow> kbd # kbds | _ \<Rightarrow> kbq)"

definition kcn_buf_data_dup :: "allocator \<Rightarrow> kcn_buf \<Rightarrow> kcn_buf_data option option" where
  "kcn_buf_data_dup malloc kb = do {
     c_assert (kb_kbd kb \<noteq> None);
     len \<leftarrow> kcn_buf_len kb;
     (case kcn_buf_data_new malloc len of
        None \<Rightarrow> Some None
      | Some kbd \<Rightarrow> do {
          src \<leftarrow> kcn_buf_head kb;
          bs \<leftarrow> kb_load kb src len;
          c_assert (len \<le> length (kbd_buf kbd));
          Some (Some (kbd\<lparr>kbd_buf := list_write 0 bs (kbd_buf kbd), kbd_ep := len\<rparr>))
        })
   }"

definition kcn_buf_enqueue ::
  "allocator \<Rightarrow> kcn_buf \<Rightarrow> kcn_buf_queue \<Rightarrow> (bool \<times> kcn_buf_queue) option" where
  "kcn_buf_enqueue malloc kb kbq = do {
     c_assert (kb_kbd kb \<noteq> None);
     r \<leftarrow> kcn_buf_data_dup malloc kb;
     (case r of
        None \<Rightarrow> Some (False, kbq)
      | Some kbd \<Rightarrow> Some (True, kbq @ [kbd]))
   }"

definition kcn_buf_fetch :: "kcn_buf \<Rightarrow> kcn_buf_queue \<Rightarrow> (bool \<times> kcn_buf) option" where
  "kcn_buf_fetch kb kbq =
     (case kbq of
        [] \<Rightarrow> Some (False, kb)
      | kbd # _ \<Rightarrow> do {
          kb \<leftarrow> kcn_buf_start (kb\<lparr>kb_kbd := Some kbd\<rparr>);
          Some (True, kb)
        })"

definition kcn_buf_drop :: "kcn_buf \<Rightarrow> kcn_buf_queue \<Rightarrow> (kcn_buf \<times> kcn_buf_queue) option" where
  "kcn_buf_drop kb kbq = do {
     c_assert (kb_kbd kb \<noteq> None);
     c_assert (kbq \<noteq> [] \<and> kb_kbd kb = Some (hd kbq));
     kb \<leftarrow> kcn_buf_init None;
     Some (kb, tl kbq)
   }"

partial_function (option) kcn_buf_purge :: "kcn_buf \<Rightarrow> kcn_buf_queue \<Rightarrow> kcn_buf_queue option" where
  "kcn_buf_purge kb kbq =
     (case kcn_buf_fetch kb kbq of
        None \<Rightarrow> None
      | Some (fetched, kb) \<Rightarrow>
          (if fetched
           then (case kcn_buf_drop kb kbq of
                   None \<Rightarrow> None
                 | Some (kb, kbq) \<Rightarrow> kcn_buf_purge kb kbq)
           else Some kbq))"

section \<open>Transfer\<close>

datatype read_ret = ReadOk "byte list" | ReadErr errno
datatype write_ret = WriteOk nat | WriteErr errno

type_synonym 'fd read_call = "'fd \<Rightarrow> nat \<Rightarrow> read_ret \<times> 'fd"
type_synonym 'fd write_call = "'fd \<Rightarrow> byte list \<Rightarrow> write_ret \<times> 'fd"

text \<open>The returned length, \<open>-1\<close> on failure, and \<open>errno\<close>, which a success leaves alone.\<close>

fun read_len :: "read_ret \<Rightarrow> int" where
  "read_len (ReadOk bs) = int (length bs)"
| "read_len (ReadErr e) = -1"

fun read_errno :: "read_ret \<Rightarrow> errno" where
  "read_errno (ReadOk bs) = 0"
| "read_errno (ReadErr e) = e"

fun read_bytes :: "read_ret \<Rightarrow> byte list" where
  "read_bytes (ReadOk bs) = bs"
| "read_bytes (ReadErr e) = []"

fun write_len :: "write_ret \<Rightarrow> int" where
  "write_len (WriteOk n) = int n"
| "write_len (WriteErr e) = -1"

fun write_errno :: "write_ret \<Rightarrow> errno" where
  "write_errno (WriteOk n) = 0"
| "write_errno (WriteErr e) = e"

definition kcn_buf_error :: "int \<Rightarrow> errno \<Rightarrow> errno" where
  "kcn_buf_error len error = (if len = 0 then ESHUTDOWN else if len \<noteq> -1 then 0 else error)"

text \<open>The \<open>for (;;)\<close> loops repeat an interrupted call.\<close>

partial_function (option) kcn_buf_read_loop ::
  "'fd read_call \<Rightarrow> 'fd \<Rightarrow> nat \<Rightarrow> (errno \<times> byte list \<times> 'fd) option" where
  "kcn_buf_read_loop rd fd n =
     (case rd fd n of
        (r, fd) \<Rightarrow>
          (if kcn_buf_error (read_len r) (read_errno r) = EINTR
           then kcn_buf_read_loop rd fd n
           else Some (kcn_buf_error (read_len r) (read_errno r), read_bytes r, fd)))"

definition kcn_buf_read :: "'fd read_call \<Rightarrow> 'fd \<Rightarrow> kcn_buf \<Rightarrow> (errno \<times> 'fd \<times> kcn_buf) option" where
  "kcn_buf_read rd fd kb = do {
     ts \<leftarrow> kcn_buf_trailingspace kb;
     kb \<leftarrow> (if ts = 0 then do {
              kb \<leftarrow> kcn_buf_realign kb;
              ts \<leftarrow> kcn_buf_trailingspace kb;
              c_assert (ts > 0);
              Some kb
            } else Some kb);
     p \<leftarrow> kcn_buf_tail kb;
     ts \<leftarrow> kcn_buf_trailingspace kb;
     (error, bs, fd) \<leftarrow> kcn_buf_read_loop rd fd ts;
     kb \<leftarrow> kb_store kb p bs;
     (if error = 0 then do {
        t \<leftarrow> kcn_buf_trailingdata kb;
        kb \<leftarrow> kcn_buf_append kb (t + length bs);
        Some (error, fd, kb)
      } else Some (error, fd, kb))
   }"

partial_function (option) kcn_buf_write_loop ::
  "'fd write_call \<Rightarrow> 'fd \<Rightarrow> byte list \<Rightarrow> (errno \<times> int \<times> 'fd) option" where
  "kcn_buf_write_loop wr fd bs =
     (case wr fd bs of
        (r, fd) \<Rightarrow>
          (if kcn_buf_error (write_len r) (write_errno r) = EINTR
           then kcn_buf_write_loop wr fd bs
           else Some (kcn_buf_error (write_len r) (write_errno r), write_len r, fd)))"

definition kcn_buf_write :: "'fd write_call \<Rightarrow> 'fd \<Rightarrow> kcn_buf \<Rightarrow> (errno \<times> 'fd \<times> kcn_buf) option" where
  "kcn_buf_write wr fd kb = do {
     src \<leftarrow> kcn_buf_head kb;
     l \<leftarrow> kcn_buf_len kb;
     bs \<leftarrow> kb_load kb src l;
     (error, len, fd) \<leftarrow> kcn_buf_write_loop wr fd bs;
     (if error = 0 then do {
        kb \<leftarrow> kcn_buf_trim_head kb (nat len);
        Some (error, fd, kb)
      } else Some (error, fd, kb))
   }"

section \<open>Dump\<close>

text \<open>
  The text of one line is collected in an array of \<open>KCN_BUF_DUMP_LINESIZ\<close> characters; a store
  behind its end is \<^const>\<open>None\<close>.  The final \<open>*--cp = 0\<close> cuts the last character off.
\<close>

abbreviation (input) KCN_BUF_DUMP_MAXOCTETS :: nat where "KCN_BUF_DUMP_MAXOCTETS \<equiv> 16"
abbreviation (input) KCN_BUF_DUMP_LINESIZ :: nat where "KCN_BUF_DUMP_LINESIZ \<equiv> 49"

definition dump_putc :: "string \<Rightarrow> char \<Rightarrow> string option" where
  "dump_putc s c = do { c_assert (length s < KCN_BUF_DUMP_LINESIZ); Some (s @ [c]) }"

definition dump_ntoa :: "byte \<Rightarrow> char" where
  "dump_ntoa v = ''0123456789abcdef'' ! unat (v AND 0xf)"

fun kcn_buf_dump_octets :: "kcn_buf \<Rightarrow> nat \<Rightarrow> nat \<Rightarrow> string \<Rightarrow> (string \<times> kcn_buf) option" where
  "kcn_buf_dump_octets kb i 0 s = Some (s, kb)"
| "kcn_buf_dump_octets kb i (Suc n) s = do {
     (v, kb) \<leftarrow> kcn_buf_get8 kb;
     s \<leftarrow> dump_putc s (dump_ntoa (drop_bit 4 v));
     s \<leftarrow> dump_putc s (dump_ntoa v);
     s \<leftarrow> dump_putc s CHR '' '';
     s \<leftarrow> (if i + 1 = KCN_BUF_DUMP_MAXOCTETS div 2 then dump_putc s CHR '' '' else Some s);
     kcn_buf_dump_octets kb (i + 1) n s
   }"

definition kcn_buf_dump_line :: "kcn_buf \<Rightarrow> nat \<Rightarrow> (string list \<times> kcn_buf) option" where
  "kcn_buf_dump_line kb maxoctets =
     (if maxoctets = 0 then Some ([], kb)
      else do {
        (s, kb) \<leftarrow> kcn_buf_dump_octets kb 0 maxoctets '''';
        c_assert (s \<noteq> []);
        Some ([butlast s], kb)
      })"

fun kcn_buf_dump_lines :: "kcn_buf \<Rightarrow> nat \<Rightarrow> (string list \<times> kcn_buf) option" where
  "kcn_buf_dump_lines kb 0 = Some ([], kb)"
| "kcn_buf_dump_lines kb (Suc n) = do {
     (l, kb) \<leftarrow> kcn_buf_dump_line kb KCN_BUF_DUMP_MAXOCTETS;
     (ls, kb) \<leftarrow> kcn_buf_dump_lines kb n;
     Some (l @ ls, kb)
   }"

definition kcn_buf_dump :: "bool \<Rightarrow> kcn_buf \<Rightarrow> nat \<Rightarrow> string list option" where
  "kcn_buf_dump islogging kb0 len =
     (if \<not> islogging then Some []
      else do {
        kb \<leftarrow> kcn_buf_start kb0;
        (ls, kb) \<leftarrow> kcn_buf_dump_lines kb (len div KCN_BUF_DUMP_MAXOCTETS);
        (l, kb) \<leftarrow> kcn_buf_dump_line kb (len mod KCN_BUF_DUMP_MAXOCTETS);
        Some (ls @ l)
      })"

section \<open>What a transfer promises\<close>

text \<open>
  \<open>rd_post fd n error bs fd'\<close> is the descriptor's contract for a completed request of \<open>n\<close> bytes: the
  result code of \<open>kcn_buf_error\<close>, the bytes delivered, and the next state.  A call delivers at most
  what was asked for, a failing call has an error number, and an interrupted call (\<open>EINTR\<close>) may be
  repeated without changing what the repeated call promises; \<open>rd_fuel\<close> bounds the interruptions.
\<close>

locale io_reader =
  fixes rd :: "'fd read_call"
    and rd_post :: "'fd \<Rightarrow> nat \<Rightarrow> errno \<Rightarrow> byte list \<Rightarrow> 'fd \<Rightarrow> bool"
    and rd_fuel :: "'fd \<Rightarrow> nat"
  assumes rd_ok: "rd fd n = (ReadOk bs, fd') \<Longrightarrow>
      length bs \<le> n \<and> rd_post fd n (if bs = [] then ESHUTDOWN else 0) bs fd'"
    and rd_err: "rd fd n = (ReadErr e, fd') \<Longrightarrow> e \<noteq> 0 \<and> (e \<noteq> EINTR \<longrightarrow> rd_post fd n e [] fd')"
    and rd_eintr: "rd fd n = (ReadErr EINTR, fd') \<Longrightarrow>
      rd_fuel fd' < rd_fuel fd \<and> (rd_post fd' n error bs fd'' \<longrightarrow> rd_post fd n error bs fd'')"
begin

lemma read_loop:
  "\<exists>error bs fd'. kcn_buf_read_loop rd fd n = Some (error, bs, fd') \<and> error \<noteq> EINTR \<and>
     length bs \<le> n \<and> (error = 0 \<longleftrightarrow> bs \<noteq> []) \<and> rd_post fd n error bs fd'"
proof (induction "rd_fuel fd" arbitrary: fd rule: less_induct)
  case less
  obtain r fd1 where r: "rd fd n = (r, fd1)" by (cases "rd fd n")
  show ?case
  proof (cases r)
    case (ReadOk bs)
    with r rd_ok [of fd n bs fd1] show ?thesis
      by (subst kcn_buf_read_loop.simps) (auto simp: kcn_buf_error_def split: if_splits)
  next
    case (ReadErr e)
    with r rd_err have e: "e \<noteq> 0" "e \<noteq> EINTR \<longrightarrow> rd_post fd n e [] fd1" by auto
    show ?thesis
    proof (cases "e = EINTR")
      case False
      with r e ReadErr show ?thesis
        by (subst kcn_buf_read_loop.simps) (auto simp: kcn_buf_error_def)
    next
      case True
      with r ReadErr rd_eintr have "rd_fuel fd1 < rd_fuel fd" by blast
      from less [OF this] obtain error bs fd' where
        l: "kcn_buf_read_loop rd fd1 n = Some (error, bs, fd')" "error \<noteq> EINTR"
        "length bs \<le> n" "error = 0 \<longleftrightarrow> bs \<noteq> []" "rd_post fd1 n error bs fd'" by blast
      from l(5) r ReadErr True rd_eintr have "rd_post fd n error bs fd'" by blast
      with l show ?thesis
        using r ReadErr True by (subst kcn_buf_read_loop.simps) (auto simp: kcn_buf_error_def)
    qed
  qed
qed

text \<open>
  The bytes land behind the trailing data.  The space asked for is the free space at the end, or,
  when there is none, what moving the data to the front sets free.
\<close>

lemma read_zbuf:
  assumes "pre \<noteq> [] \<or> post \<noteq> []"
  shows "\<exists>error fd' bs pre' post'.
    kcn_buf_read rd fd (zbuf pre h t post) = Some (error, fd', zbuf pre' h (t @ bs) post') \<and>
    error \<noteq> EINTR \<and> (error = 0 \<longleftrightarrow> bs \<noteq> []) \<and>
    rd_post fd (if post = [] then length pre else length post) error bs fd' \<and>
    length pre' + length bs + length post' = length pre + length post \<and>
    (post \<noteq> [] \<longrightarrow> pre' = pre)"
proof -
  define pre1 where "pre1 = (if post = [] then [] else pre)"
  define post1 where
    "post1 = (if post = [] then drop (length h + length t) (pre @ h @ t) else post)"
  have len: "length pre1 + length post1 = length pre + length post"
    by (auto simp: post1_def pre1_def)
  with assms have "0 < length post1" by (cases "post = []") (auto simp: post1_def pre1_def)
  then have ne: "post1 \<noteq> []" by simp
  have req: "(if post = [] then length pre else length post) = length post1"
    by (simp add: post1_def del: drop_append)
  from read_loop [of fd "length post1"] obtain error bs fd' where
    l: "kcn_buf_read_loop rd fd (length post1) = Some (error, bs, fd')" "error \<noteq> EINTR"
      "length bs \<le> length post1" "error = 0 \<longleftrightarrow> bs \<noteq> []" "rd_post fd (length post1) error bs fd'"
    by blast
  define post2 where "post2 = bs @ drop (length bs) post1"
  have st: "kb_store (zbuf pre1 h t post1) (length pre1 + length h + length t) bs =
      Some (zbuf pre1 h t post2)"
    using l(3) by (simp add: zbuf_store post2_def)
  have "kcn_buf_read rd fd (zbuf pre h t post) =
      (if error = 0 then Some (error, fd', zbuf pre1 h (t @ bs) (drop (length bs) post1))
       else Some (error, fd', zbuf pre1 h t post2))"
  proof (cases "post = []")
    case True
    then have "0 < length post1" using ne by simp
    with True l(1) st show ?thesis
      by (simp add: kcn_buf_read_def zbuf_simps pre1_def post1_def post2_def)
  next
    case False
    with l(1) st show ?thesis
      by (simp add: kcn_buf_read_def zbuf_simps pre1_def post1_def post2_def)
  qed
  with l(4) have "kcn_buf_read rd fd (zbuf pre h t post) =
      Some (error, fd', zbuf pre1 h (t @ bs) (drop (length bs) post1))"
    by (cases "error = 0") (simp_all add: post2_def)
  with l len show ?thesis
    unfolding req
    by (intro exI [of _ error] exI [of _ fd'] exI [of _ bs] exI [of _ pre1]
        exI [of _ "drop (length bs) post1"]) (simp add: pre1_def)
qed

text \<open>
  The assertion inside \<open>kcn_buf_read\<close> is that there is room for at least one more byte: it holds
  exactly if the buffer is not full of unconsumed data.
\<close>

lemma read_full: "kcn_buf_read rd fd (zbuf [] h t []) = None"
  by (simp add: kcn_buf_read_def zbuf_simps)

lemma read_wf:
  assumes "kb_wf kb" "length (kb_data kb) < kb_cap kb"
  shows "\<exists>error fd' bs kb' n. kcn_buf_read rd fd kb = Some (error, fd', kb') \<and>
    kb_wf kb' \<and> error \<noteq> EINTR \<and> (error = 0 \<longleftrightarrow> bs \<noteq> []) \<and> rd_post fd n error bs fd' \<and>
    kb_heading kb' = kb_heading kb \<and> kb_trailing kb' = kb_trailing kb @ bs \<and>
    kb_cap kb' = kb_cap kb \<and> length (kb_data kb') \<le> kb_cap kb'"
proof -
  from assms(1) obtain pre h t post where kb: "kb = zbuf pre h t post" by (rule kb_wf_zbufE)
  with assms(2) have "pre \<noteq> [] \<or> post \<noteq> []" by auto
  from read_zbuf [OF this, of fd h t] obtain error fd' bs pre' post' n where
    "kcn_buf_read rd fd kb = Some (error, fd', zbuf pre' h (t @ bs) post')"
    "error \<noteq> EINTR" "error = 0 \<longleftrightarrow> bs \<noteq> []" "rd_post fd n error bs fd'"
    "length pre' + length bs + length post' = length pre + length post"
    using kb by blast
  then show ?thesis
    using kb by (intro exI [of _ error] exI [of _ fd'] exI [of _ bs]
        exI [of _ "zbuf pre' h (t @ bs) post'"] exI [of _ n]) simp
qed

end

locale io_writer =
  fixes wr :: "'fd write_call"
    and wr_post :: "'fd \<Rightarrow> byte list \<Rightarrow> errno \<Rightarrow> nat \<Rightarrow> 'fd \<Rightarrow> bool"
    and wr_fuel :: "'fd \<Rightarrow> nat"
  assumes wr_ok: "wr fd bs = (WriteOk n, fd') \<Longrightarrow>
      n \<le> length bs \<and> wr_post fd bs (if n = 0 then ESHUTDOWN else 0) n fd'"
    and wr_err: "wr fd bs = (WriteErr e, fd') \<Longrightarrow> e \<noteq> 0 \<and> (e \<noteq> EINTR \<longrightarrow> wr_post fd bs e 0 fd')"
    and wr_eintr: "wr fd bs = (WriteErr EINTR, fd') \<Longrightarrow>
      wr_fuel fd' < wr_fuel fd \<and> (wr_post fd' bs error n fd'' \<longrightarrow> wr_post fd bs error n fd'')"
begin

lemma write_loop:
  "\<exists>error len fd'. kcn_buf_write_loop wr fd bs = Some (error, len, fd') \<and> error \<noteq> EINTR \<and>
     nat len \<le> length bs \<and> (error = 0 \<longleftrightarrow> 0 < len) \<and> wr_post fd bs error (nat len) fd'"
proof (induction "wr_fuel fd" arbitrary: fd rule: less_induct)
  case less
  obtain r fd1 where r: "wr fd bs = (r, fd1)" by (cases "wr fd bs")
  show ?case
  proof (cases r)
    case (WriteOk n)
    with r wr_ok [of fd bs n fd1] show ?thesis
      by (subst kcn_buf_write_loop.simps) (auto simp: kcn_buf_error_def split: if_splits)
  next
    case (WriteErr e)
    with r wr_err have e: "e \<noteq> 0" "e \<noteq> EINTR \<longrightarrow> wr_post fd bs e 0 fd1" by auto
    show ?thesis
    proof (cases "e = EINTR")
      case False
      with r e WriteErr show ?thesis
        by (subst kcn_buf_write_loop.simps) (auto simp: kcn_buf_error_def)
    next
      case True
      with r WriteErr wr_eintr have "wr_fuel fd1 < wr_fuel fd" by blast
      from less [OF this] obtain error len fd' where
        l: "kcn_buf_write_loop wr fd1 bs = Some (error, len, fd')" "error \<noteq> EINTR"
        "nat len \<le> length bs" "error = 0 \<longleftrightarrow> 0 < len" "wr_post fd1 bs error (nat len) fd'"
        by blast
      from l(5) r WriteErr True wr_eintr have "wr_post fd bs error (nat len) fd'" by blast
      with l show ?thesis
        using r WriteErr True by (subst kcn_buf_write_loop.simps) (auto simp: kcn_buf_error_def)
    qed
  qed
qed

text \<open>A write takes exactly what the descriptor accepted off the front of the data.\<close>

lemma write_zbuf:
  "\<exists>error fd' n. kcn_buf_write wr fd (zbuf pre h t post) =
      Some (error, fd', zbuf (pre @ take n (h @ t)) (drop n h) (drop (n - length h) t) post) \<and>
    n \<le> length h + length t \<and> error \<noteq> EINTR \<and> (error = 0 \<longleftrightarrow> 0 < n) \<and>
    wr_post fd (h @ t) error n fd'"
proof -
  from write_loop [of fd "h @ t"] obtain error len fd' where
    l: "kcn_buf_write_loop wr fd (h @ t) = Some (error, len, fd')" "error \<noteq> EINTR"
      "nat len \<le> length (h @ t)" "error = 0 \<longleftrightarrow> 0 < len" "wr_post fd (h @ t) error (nat len) fd'"
    by blast
  define n where "n = nat len"
  have ld: "kb_load (zbuf pre h t post) (length pre) (length h + length t) = Some (h @ t)"
    by (simp add: zbuf_load)
  have "kcn_buf_write wr fd (zbuf pre h t post) =
    Some (error, fd', zbuf (pre @ take n (h @ t)) (drop n h) (drop (n - length h) t) post)"
    using l ld by (auto simp: kcn_buf_write_def zbuf_simps n_def)
  with l show ?thesis by (auto simp: n_def)
qed

end

section \<open>What the queue promises\<close>

definition alloc_ok :: "allocator \<Rightarrow> bool" where
  "alloc_ok malloc = (\<forall>n mem. malloc n = Some mem \<longrightarrow> length mem = n)"

text \<open>An allocator for concrete executions.\<close>

definition zero_malloc :: allocator where
  "zero_malloc n = Some (replicate n 0)"

text \<open>An allocator that never fails.\<close>

definition alloc_total :: "allocator \<Rightarrow> bool" where
  "alloc_total malloc \<longleftrightarrow> (\<forall>n. \<exists>mem. malloc n = Some mem \<and> length mem = n)"

lemma alloc_total_ok: "alloc_total malloc \<Longrightarrow> alloc_ok malloc"
  unfolding alloc_total_def alloc_ok_def by (metis option.inject)

lemma alloc_total_zero [simp]: "alloc_total zero_malloc"
  by (simp add: alloc_total_def zero_malloc_def)

lemma alloc_okD: "alloc_ok malloc \<Longrightarrow> malloc n = Some mem \<Longrightarrow> length mem = n"
  by (simp add: alloc_ok_def)

definition kbd_wf :: "kcn_buf_data \<Rightarrow> bool" where
  "kbd_wf d \<longleftrightarrow> kbd_sp d \<le> kbd_ep d \<and> kbd_ep d \<le> kbd_size d \<and> length (kbd_buf d) = kbd_size d"

definition kbd_bytes :: "kcn_buf_data \<Rightarrow> byte list" where
  "kbd_bytes d = take (kbd_ep d - kbd_sp d) (drop (kbd_sp d) (kbd_buf d))"

lemma kbd_wf_start: "kbd_wf d \<longleftrightarrow> kb_wf \<lparr>kb_kbd = Some d, kb_cp = kbd_sp d\<rparr>"
  by (simp add: kbd_wf_def kb_wf_def)

lemma kb_data_kbd: "kb_kbd kb = Some d \<Longrightarrow> kb_data kb = kbd_bytes d"
  by (simp add: kb_data_def kbd_bytes_def)

lemma kb_wf_kbd: "kb_wf kb \<Longrightarrow> kb_kbd kb = Some d \<Longrightarrow> kbd_wf d"
  by (auto simp: kb_wf_def kbd_wf_def)

lemma buf_data_new:
  assumes "alloc_ok malloc" "kcn_buf_data_new malloc n = Some d"
  shows "kbd_wf d" "kbd_bytes d = []" "kbd_size d = n" "kbd_sp d = 0" "kbd_ep d = 0"
  using assms by (auto simp: kcn_buf_data_new_def kbd_wf_def kbd_bytes_def alloc_okD split: option.splits)

lemma enqueue_ok:
  assumes "alloc_ok malloc" "kb_wf kb"
  shows "if malloc (length (kb_data kb)) = None then kcn_buf_enqueue malloc kb kbq = Some (False, kbq)
    else \<exists>d. kcn_buf_enqueue malloc kb kbq = Some (True, kbq @ [d]) \<and> kbd_wf d \<and>
      kbd_bytes d = kb_data kb \<and> kbd_size d = length (kb_data kb)"
proof -
  from assms(2) obtain pre h t post where kb: "kb = zbuf pre h t post" by (rule kb_wf_zbufE)
  show ?thesis
  proof (cases "malloc (length (h @ t))")
    case None
    with kb show ?thesis
      by (simp add: kcn_buf_enqueue_def kcn_buf_data_dup_def zbuf_fields zbuf_simps kcn_buf_data_new_def)
  next
    case (Some mem)
    with assms(1) have "length mem = length h + length t" by (auto dest: alloc_okD)
    with Some kb show ?thesis
      by (simp add: kcn_buf_enqueue_def kcn_buf_data_dup_def zbuf_fields zbuf_simps zbuf_load
          kcn_buf_data_new_def kbd_wf_def kbd_bytes_def list_write_def)
  qed
qed

lemma fetch_Nil [simp]: "kcn_buf_fetch kb [] = Some (False, kb)"
  by (simp add: kcn_buf_fetch_def)

lemma fetch_Cons: "kcn_buf_fetch kb (d # q) = Some (True, \<lparr>kb_kbd = Some d, kb_cp = kbd_sp d\<rparr>)"
  by (simp add: kcn_buf_fetch_def kcn_buf_start_def kb_sp_def)

lemma fetch_zbuf:
  assumes "kbd_wf d"
  obtains pre post where "kcn_buf_fetch kb (d # q) = Some (True, zbuf pre [] (kbd_bytes d) post)"
    "kb_kbd (zbuf pre [] (kbd_bytes d) post) = Some d"
proof -
  from assms have "kb_wf \<lparr>kb_kbd = Some d, kb_cp = kbd_sp d\<rparr>" by (simp add: kbd_wf_start)
  then obtain pre h t post where z: "\<lparr>kb_kbd = Some d, kb_cp = kbd_sp d\<rparr> = zbuf pre h t post"
    by (rule kb_wf_zbufE)
  have "kb_heading \<lparr>kb_kbd = Some d, kb_cp = kbd_sp d\<rparr> = []" by (simp add: kb_heading_def)
  with z have h: "h = []" by simp
  have "kb_data \<lparr>kb_kbd = Some d, kb_cp = kbd_sp d\<rparr> = kbd_bytes d" by (simp add: kb_data_kbd)
  with z h have "t = kbd_bytes d" by simp
  with z h fetch_Cons [of kb d q] that [of pre post] show thesis
    by (metis kcn_buf.select_convs(1))
qed

lemma drop_Cons [simp]:
  "kb_kbd kb = Some d \<Longrightarrow> kcn_buf_drop kb (d # q) = Some (\<lparr>kb_kbd = None, kb_cp = 0\<rparr>, q)"
  by (simp add: kcn_buf_drop_def kcn_buf_init_def)

lemma purge_empties: "kcn_buf_purge kb q = Some []"
  by (induction q arbitrary: kb) (subst kcn_buf_purge.simps, simp add: fetch_Cons)+

section \<open>The dump stays within its line buffer\<close>

lemma dump_octets_ok:
  assumes "n \<le> length t" "i + n \<le> 16" "length s = 3 * i + (if 8 \<le> i then 1 else 0)"
  shows "\<exists>s'. kcn_buf_dump_octets (zbuf pre h t post) i n s =
      Some (s', zbuf pre (h @ take n t) (drop n t) post) \<and>
    length s' = 3 * (i + n) + (if 8 \<le> i + n then 1 else 0)"
  using assms
proof (induction n arbitrary: h t i s)
  case 0
  then show ?case by simp
next
  case (Suc n)
  then obtain b t' where t: "t = b # t'" by (cases t) auto
  let ?s = "s @ [dump_ntoa (drop_bit 4 b), dump_ntoa b, CHR '' ''] @ (if i = 7 then '' '' else [])"
  have "length ?s = 3 * (i + 1) + (if 8 \<le> i + 1 then 1 else 0)" using Suc.prems by auto
  with Suc.IH [of t' "i + 1" ?s "h @ [b]"] Suc.prems t show ?case
    by (auto simp: zbuf_simps dump_putc_def)
qed

lemma dump_line_ok:
  assumes "n \<le> length t" "n \<le> 16"
  shows "\<exists>ls. kcn_buf_dump_line (zbuf pre h t post) n =
      Some (ls, zbuf pre (h @ take n t) (drop n t) post) \<and> (\<forall>l \<in> set ls. length l \<le> 48)"
proof (cases "n = 0")
  case False
  from dump_octets_ok [of n t 0 "[]" pre h post] assms obtain s' where
    "kcn_buf_dump_octets (zbuf pre h t post) 0 n [] = Some (s', zbuf pre (h @ take n t) (drop n t) post)"
    "length s' = 3 * n + (if 8 \<le> n then 1 else 0)" by auto
  with False assms show ?thesis by (auto simp: kcn_buf_dump_line_def)
qed (simp add: kcn_buf_dump_line_def)

lemma dump_lines_ok:
  assumes "16 * n \<le> length t"
  shows "\<exists>ls. kcn_buf_dump_lines (zbuf pre h t post) n =
      Some (ls, zbuf pre (h @ take (16 * n) t) (drop (16 * n) t) post) \<and> (\<forall>l \<in> set ls. length l \<le> 48)"
  using assms
proof (induction n arbitrary: h t)
  case (Suc n)
  from dump_line_ok [of 16 t pre h post] Suc.prems obtain l where
    "kcn_buf_dump_line (zbuf pre h t post) 16 = Some (l, zbuf pre (h @ take 16 t) (drop 16 t) post)"
    "\<forall>l' \<in> set l. length l' \<le> 48" by auto
  moreover from Suc.prems have le: "16 * n \<le> length (drop 16 t)" by simp
  from Suc.IH [OF le, of "h @ take 16 t"] obtain ls where
    "kcn_buf_dump_lines (zbuf pre (h @ take 16 t) (drop 16 t) post) n =
      Some (ls, zbuf pre (h @ take 16 t @ take (16 * n) (drop 16 t)) (drop (16 * n) (drop 16 t)) post)"
    "\<forall>l \<in> set ls. length l \<le> 48" by auto
  ultimately show ?case
    by (auto simp: take_add [symmetric] add.commute)
qed simp

lemma dump_ok:
  assumes "kb_wf kb" "n \<le> length (kb_data kb)"
  shows "\<exists>ls. kcn_buf_dump logging kb n = Some ls \<and> (\<forall>l \<in> set ls. length l \<le> 48)"
proof -
  from assms(1) obtain pre h t post where kb: "kb = zbuf pre h t post" by (rule kb_wf_zbufE)
  let ?k = "16 * (n div 16)"
  define D where "D = h @ t"
  from assms(2) kb have n: "n \<le> length D" by (simp add: D_def)
  have k: "?k + n mod 16 = n" by simp
  with n have le: "?k \<le> length D" "n mod 16 \<le> length (drop ?k D)"
    unfolding length_drop by linarith+
  from dump_lines_ok [OF le(1), of pre "[]" post] obtain ls where
    ls: "kcn_buf_dump_lines (zbuf pre [] D post) (n div 16) =
      Some (ls, zbuf pre (take ?k D) (drop ?k D) post)" "\<forall>l \<in> set ls. length l \<le> 48"
    by auto
  from dump_line_ok [OF le(2), of pre "take ?k D" post] obtain l where
    "kcn_buf_dump_line (zbuf pre (take ?k D) (drop ?k D) post) (n mod 16) =
      Some (l, zbuf pre (take ?k D @ take (n mod 16) (drop ?k D))
        (drop (n mod 16) (drop ?k D)) post)" "\<forall>l' \<in> set l. length l' \<le> 48" by auto
  moreover have "kcn_buf_start kb = Some (zbuf pre [] D post)"
    by (simp add: kb zbuf_simps D_def)
  ultimately show ?thesis
    using ls by (auto simp: kcn_buf_dump_def)
qed

lemma dump_zbuf:
  "n \<le> length h + length t \<Longrightarrow> \<exists>ls. kcn_buf_dump logging (zbuf pre h t post) n = Some ls"
  using dump_ok [of "zbuf pre h t post" n logging] by auto

end
