(* ===== verification/Kcndb_File.thy ===== *)
theory Kcndb_File
  imports Kcn_Buf_IO
begin

text \<open>
  \<^verbatim>\<open>kcndbd/kcndb_file.c\<close>: a file with its buffer, on top of regular files as POSIX describes them.

  A descriptor \<open>ofd\<close> is the file's contents, the file offset and the outcomes the next system calls
  will have: a call transfers everything it can, or only a part (at least one byte), or fails; when the
  list is used up calls are complete.  \<open>read\<close> and \<open>write\<close> move the offset, \<open>write\<close> overwrites and
  extends.
\<close>

section \<open>Regular files\<close>

datatype sys_outcome = Full | Part nat | Fail errno

record ofd =
  fd_data :: "byte list"
  fd_off :: nat
  fd_sys :: "sys_outcome list"

definition sys_errno :: "errno \<Rightarrow> errno" where
  "sys_errno e = (if e = 0 then EIO else e)"

fun sys_next :: "sys_outcome list \<Rightarrow> sys_outcome \<times> sys_outcome list" where
  "sys_next [] = (Full, [])"
| "sys_next (r # s) = (r, s)"

definition file_write :: "nat \<Rightarrow> byte list \<Rightarrow> byte list \<Rightarrow> byte list" where
  "file_write off bs data =
     (if bs = [] then data else
     take off (data @ replicate (off - length data) 0) @ bs @ drop (off + length bs) data)"

definition posix_read :: "ofd read_call" where
  "posix_read fd n =
     (case sys_next (fd_sys fd) of
        (Fail e, s) \<Rightarrow> (ReadErr (sys_errno e), fd\<lparr>fd_sys := s\<rparr>)
      | (Full, s) \<Rightarrow>
          let bs = take n (drop (fd_off fd) (fd_data fd)) in
          (ReadOk bs, fd\<lparr>fd_off := fd_off fd + length bs, fd_sys := s\<rparr>)
      | (Part k, s) \<Rightarrow>
          let bs = take (min n (Suc k)) (drop (fd_off fd) (fd_data fd)) in
          (ReadOk bs, fd\<lparr>fd_off := fd_off fd + length bs, fd_sys := s\<rparr>))"

definition posix_write :: "ofd write_call" where
  "posix_write fd bs =
     (case sys_next (fd_sys fd) of
        (Fail e, s) \<Rightarrow> (WriteErr (sys_errno e), fd\<lparr>fd_sys := s\<rparr>)
      | (Full, s) \<Rightarrow>
          (WriteOk (length bs),
           fd\<lparr>fd_data := file_write (fd_off fd) bs (fd_data fd),
              fd_off := fd_off fd + length bs, fd_sys := s\<rparr>)
      | (Part k, s) \<Rightarrow>
          let bs = take (Suc k) bs in
          (WriteOk (length bs),
           fd\<lparr>fd_data := file_write (fd_off fd) bs (fd_data fd),
              fd_off := fd_off fd + length bs, fd_sys := s\<rparr>))"

datatype whence = SEEK_SET | SEEK_CUR | SEEK_END

definition posix_lseek :: "ofd \<Rightarrow> int \<Rightarrow> whence \<Rightarrow> nat result \<times> ofd" where
  "posix_lseek fd off w =
     (let pos = (case w of SEEK_SET \<Rightarrow> off | SEEK_CUR \<Rightarrow> int (fd_off fd) + off
                         | SEEK_END \<Rightarrow> int (length (fd_data fd)) + off) in
      if pos < 0 then (Inl EINVAL, fd) else (Inr (nat pos), fd\<lparr>fd_off := nat pos\<rparr>))"

definition posix_fstat_size :: "ofd \<Rightarrow> nat result \<times> ofd" where
  "posix_fstat_size fd =
     (case sys_next (fd_sys fd) of
        (Fail e, s) \<Rightarrow> (Inl (sys_errno e), fd\<lparr>fd_sys := s\<rparr>)
      | (_, s) \<Rightarrow> (Inr (length (fd_data fd)), fd\<lparr>fd_sys := s\<rparr>))"

section \<open>kcndb_file.c\<close>

text \<open>
  A sequence of calls each of which may return an error leaves at the first error:
  \<open>rbind m f\<close> is \<open>m; if (failed) return false; f\<close>.
\<close>

definition rbind ::
  "('a result \<times> 's) option \<Rightarrow> ('a \<Rightarrow> 's \<Rightarrow> ('b result \<times> 's) option) \<Rightarrow> ('b result \<times> 's) option" where
  "rbind m f =
     (case m of
        None \<Rightarrow> None
      | Some (Inl e, s) \<Rightarrow> Some (Inl e, s)
      | Some (Inr v, s) \<Rightarrow> f v s)"

lemma rbind_simps [simp]:
  "rbind None f = None"
  "rbind (Some (Inl e, s)) f = Some (Inl e, s)"
  "rbind (Some (Inr v, s)) f = f v s"
  by (simp_all add: rbind_def)

abbreviation (input) KCNDB_FILE_BUFSIZ :: nat where "KCNDB_FILE_BUFSIZ \<equiv> 4096"

text \<open>\<open>kf_kbd\<close> of the source is the data of \<open>kf_kb\<close> and is not kept twice.\<close>

record kcndb_file =
  kf_fd :: ofd
  kf_size :: nat
  kf_kb :: kcn_buf

text \<open>
  \<open>kcndb_file_new\<close> and \<open>kcndb_file_open\<close>: \<open>kf_new\<close> says whether the structure itself can be
  allocated, \<open>opened\<close> is the outcome of \<open>open(path, O_RDWR | O_CREAT, ...)\<close>.
\<close>

definition kcndb_file_new :: "bool \<Rightarrow> allocator \<Rightarrow> ofd \<Rightarrow> kcndb_file result option" where
  "kcndb_file_new kf_new malloc fd =
     (if \<not> kf_new then Some (Inl ENOMEM)
      else (case kcn_buf_data_new malloc KCNDB_FILE_BUFSIZ of
              None \<Rightarrow> Some (Inl ENOMEM)
            | Some kbd \<Rightarrow> do {
                kb \<leftarrow> kcn_buf_init (Some kbd);
                Some (Inr \<lparr>kf_fd = fd, kf_size = 0, kf_kb = kb\<rparr>)
              }))"

definition kcndb_file_open ::
  "bool \<Rightarrow> allocator \<Rightarrow> (string \<Rightarrow> ofd result) \<Rightarrow> string \<Rightarrow> kcndb_file result option" where
  "kcndb_file_open kf_new malloc open' path = do {
     kf \<leftarrow> kcndb_file_new kf_new malloc \<lparr>fd_data = [], fd_off = 0, fd_sys = []\<rparr>;
     (case kf of
        Inl e \<Rightarrow> Some (Inl e)
      | Inr kf \<Rightarrow>
          (case open' path of
             Inl e \<Rightarrow> Some (Inl e)
           | Inr fd \<Rightarrow> Some (Inr (kf\<lparr>kf_fd := fd\<rparr>))))
   }"

definition kcndb_file_size_get :: "kcndb_file \<Rightarrow> nat result \<times> kcndb_file" where
  "kcndb_file_size_get kf = (case posix_fstat_size (kf_fd kf) of (r, fd) \<Rightarrow> (r, kf\<lparr>kf_fd := fd\<rparr>))"

definition kcndb_file_buf :: "kcndb_file \<Rightarrow> kcn_buf" where
  "kcndb_file_buf kf = kf_kb kf"

partial_function (option) kcndb_file_ensure ::
  "kcndb_file \<Rightarrow> nat \<Rightarrow> (unit result \<times> kcndb_file) option" where
  "kcndb_file_ensure kf len =
     (case kcn_buf_len (kcndb_file_buf kf) of
        None \<Rightarrow> None
      | Some l \<Rightarrow>
          (if l < len
           then (case kcn_buf_read posix_read (kf_fd kf) (kcndb_file_buf kf) of
                   None \<Rightarrow> None
                 | Some (error, fd, kb) \<Rightarrow>
                     (if error \<noteq> 0 then Some (Inl error, kf\<lparr>kf_fd := fd, kf_kb := kb\<rparr>)
                      else kcndb_file_ensure (kf\<lparr>kf_fd := fd, kf_kb := kb\<rparr>) len))
           else Some (Inr (), kf)))"

definition kcndb_file_seek :: "kcndb_file \<Rightarrow> int \<Rightarrow> whence \<Rightarrow> (unit result \<times> kcndb_file) option" where
  "kcndb_file_seek kf off w =
     (case posix_lseek (kf_fd kf) off w of
        (Inl e, fd) \<Rightarrow> Some (Inl e, kf\<lparr>kf_fd := fd\<rparr>)
      | (Inr _, fd) \<Rightarrow> Some (Inr (), kf\<lparr>kf_fd := fd\<rparr>))"

definition kcndb_file_seek_head :: "kcndb_file \<Rightarrow> int \<Rightarrow> (unit result \<times> kcndb_file) option" where
  "kcndb_file_seek_head kf off = kcndb_file_seek kf off SEEK_SET"

partial_function (option) kcndb_file_write :: "kcndb_file \<Rightarrow> (unit result \<times> kcndb_file) option" where
  "kcndb_file_write kf =
     (case kcn_buf_len (kcndb_file_buf kf) of
        None \<Rightarrow> None
      | Some l \<Rightarrow>
          (if l > 0
           then (case kcn_buf_write posix_write (kf_fd kf) (kcndb_file_buf kf) of
                   None \<Rightarrow> None
                 | Some (error, fd, kb) \<Rightarrow>
                     (if error \<noteq> 0 then Some (Inl error, kf\<lparr>kf_fd := fd, kf_kb := kb\<rparr>)
                      else kcndb_file_write (kf\<lparr>kf_fd := fd, kf_kb := kb\<rparr>)))
           else (case kcn_buf_reset (kcndb_file_buf kf) 0 of
                   None \<Rightarrow> None
                 | Some kb \<Rightarrow> Some (Inr (), kf\<lparr>kf_kb := kb\<rparr>))))"

definition kcndb_file_append :: "kcndb_file \<Rightarrow> (unit result \<times> kcndb_file) option" where
  "kcndb_file_append kf =
     rbind (kcndb_file_seek kf 0 SEEK_END) (\<lambda>_ kf. do {
       len \<leftarrow> kcn_buf_len (kf_kb kf);
       (rc, kf) \<leftarrow> kcndb_file_write kf;
       (case rc of
          Inl e \<Rightarrow> Some (Inl e, kf)
        | Inr _ \<Rightarrow> Some (Inr (), kf\<lparr>kf_size := kf_size kf + len\<rparr>))
     })"

section \<open>Regular files keep the transfer contracts\<close>

text \<open>
  A descriptor is calm if its pending outcomes are at most interruptions and partial transfers,
  and complete if there is no partial transfer among them either.
\<close>

definition fd_calm :: "ofd \<Rightarrow> bool" where
  "fd_calm fd \<longleftrightarrow> (\<forall>e. Fail e \<in> set (fd_sys fd) \<longrightarrow> e = EINTR)"

definition fd_complete :: "ofd \<Rightarrow> bool" where
  "fd_complete fd \<longleftrightarrow> fd_calm fd \<and> (\<forall>k. Part k \<notin> set (fd_sys fd))"

definition fd_avail :: "ofd \<Rightarrow> byte list" where
  "fd_avail fd = drop (fd_off fd) (fd_data fd)"

definition posix_rd_post :: "ofd \<Rightarrow> nat \<Rightarrow> errno \<Rightarrow> byte list \<Rightarrow> ofd \<Rightarrow> bool" where
  "posix_rd_post fd n error bs fd' \<longleftrightarrow>
     fd_data fd' = fd_data fd \<and> fd_off fd' = fd_off fd + length bs \<and>
     fd_avail fd = bs @ fd_avail fd' \<and>
     (fd_calm fd \<longrightarrow> fd_calm fd' \<and> (0 < n \<and> bs = [] \<longrightarrow> error = ESHUTDOWN \<and> fd_avail fd = [])) \<and>
     (fd_complete fd \<longrightarrow> fd_complete fd' \<and> length bs = min n (length (fd_avail fd)))"

definition posix_wr_post :: "ofd \<Rightarrow> byte list \<Rightarrow> errno \<Rightarrow> nat \<Rightarrow> ofd \<Rightarrow> bool" where
  "posix_wr_post fd bs error n fd' \<longleftrightarrow>
     fd_data fd' = file_write (fd_off fd) (take n bs) (fd_data fd) \<and> fd_off fd' = fd_off fd + n \<and>
     (fd_calm fd \<longrightarrow> fd_calm fd' \<and> (bs \<noteq> [] \<longrightarrow> 0 < n)) \<and> (fd_complete fd \<longrightarrow> fd_complete fd')"

lemma fd_calm_sys [simp]: "fd_sys fd = [] \<Longrightarrow> fd_calm fd" "fd_sys fd = [] \<Longrightarrow> fd_complete fd"
  by (simp_all add: fd_calm_def fd_complete_def)

lemma fd_calm_cong: "fd_sys fd = fd_sys fd' \<Longrightarrow> fd_calm fd = fd_calm fd'"
  "fd_sys fd = fd_sys fd' \<Longrightarrow> fd_complete fd = fd_complete fd'"
  by (simp_all add: fd_calm_def fd_complete_def)

lemma fd_calm_subset:
  "set s \<subseteq> set (fd_sys fd) \<Longrightarrow> fd_calm fd \<Longrightarrow> fd_sys fd' = s \<Longrightarrow> fd_calm fd'"
  "set s \<subseteq> set (fd_sys fd) \<Longrightarrow> fd_complete fd \<Longrightarrow> fd_sys fd' = s \<Longrightarrow> fd_complete fd'"
  by (auto simp: fd_calm_def fd_complete_def)

lemma posix_read_OkE:
  assumes "posix_read fd n = (ReadOk bs, fd')"
  obtains m s where "bs = take m (fd_avail fd)" "m \<le> n" "0 < n \<longrightarrow> 0 < m" "set s \<subseteq> set (fd_sys fd)"
    "fd' = fd\<lparr>fd_off := fd_off fd + length bs, fd_sys := s\<rparr>" "fd_complete fd \<longrightarrow> m = n"
proof (cases "fd_sys fd")
  case Nil
  with assms that [of n "[]"] show thesis by (auto simp: posix_read_def fd_avail_def Let_def)
next
  case (Cons r s)
  show thesis
  proof (cases r)
    case Full
    with Cons assms that [of n s] show thesis
      by (auto simp: posix_read_def fd_avail_def Let_def subset_insertI)
  next
    case (Part k)
    with Cons have "\<not> fd_complete fd" by (auto simp: fd_complete_def)
    with Cons Part assms that [of "min n (Suc k)" s] show thesis
      by (auto simp: posix_read_def fd_avail_def Let_def subset_insertI)
  next
    case (Fail e)
    with Cons assms show thesis by (simp add: posix_read_def)
  qed
qed

lemma posix_write_OkE:
  assumes "posix_write fd bs = (WriteOk n, fd')"
  obtains s where "n \<le> length bs" "bs \<noteq> [] \<longrightarrow> 0 < n" "set s \<subseteq> set (fd_sys fd)"
    "fd' = fd\<lparr>fd_data := file_write (fd_off fd) (take n bs) (fd_data fd),
              fd_off := fd_off fd + n, fd_sys := s\<rparr>"
proof (cases "fd_sys fd")
  case Nil
  with assms that [of "[]"] show thesis by (auto simp: posix_write_def)
next
  case (Cons r s)
  show thesis
  proof (cases r)
    case Full
    with Cons assms that [of s] show thesis by (auto simp: posix_write_def subset_insertI)
  next
    case (Part k)
    have "take (min (length bs) (Suc k)) bs = take (Suc k) bs" by (simp add: min_def)
    with Cons Part assms that [of s] show thesis
      by (auto simp: posix_write_def Let_def subset_insertI)
  next
    case (Fail e)
    with Cons assms show thesis by (simp add: posix_write_def)
  qed
qed

interpretation file_reader: io_reader posix_read posix_rd_post "\<lambda>fd. length (fd_sys fd)"
proof
  fix fd n bs fd' assume r: "posix_read fd n = (ReadOk bs, fd')"
  then obtain m s where m: "bs = take m (fd_avail fd)" "m \<le> n" "0 < n \<longrightarrow> 0 < m"
    "set s \<subseteq> set (fd_sys fd)" "fd' = fd\<lparr>fd_off := fd_off fd + length bs, fd_sys := s\<rparr>"
    "fd_complete fd \<longrightarrow> m = n" by (rule posix_read_OkE)
  then have "length bs \<le> n" by simp
  have len: "length bs = min m (length (fd_avail fd))" by (simp add: m(1) min.commute)
  note \<open>length bs \<le> n\<close>
  moreover have "fd_avail fd = bs @ fd_avail fd'"
  proof -
    have "fd_avail fd' = drop (length bs) (fd_avail fd)" by (simp add: m(5) fd_avail_def add.commute)
    then show ?thesis using m(1) by (simp add: min_def)
  qed
  moreover have "fd_calm fd \<longrightarrow> fd_calm fd'" "fd_complete fd \<longrightarrow> fd_complete fd'"
    using fd_calm_subset [OF m(4), of fd'] m(5) by simp_all
  moreover have "0 < n \<and> bs = [] \<longrightarrow> (if bs = [] then ESHUTDOWN else 0) = ESHUTDOWN \<and> fd_avail fd = []"
    using m(1,3) by auto
  moreover have "fd_complete fd \<longrightarrow> length bs = min n (length (fd_avail fd))"
    using len m(6) by simp
  moreover have "fd_data fd' = fd_data fd" "fd_off fd' = fd_off fd + length bs"
    by (simp_all add: m(5))
  ultimately show "length bs \<le> n \<and> posix_rd_post fd n (if bs = [] then ESHUTDOWN else 0) bs fd'"
    unfolding posix_rd_post_def by blast
next
  fix fd n e fd' assume r: "posix_read fd n = (ReadErr e, fd')"
  then obtain e' s where s: "fd_sys fd = Fail e' # s" "e = sys_errno e'" "fd' = fd\<lparr>fd_sys := s\<rparr>"
    by (cases "fd_sys fd"; cases "hd (fd_sys fd)") (auto simp: posix_read_def Let_def)
  then show "e \<noteq> 0 \<and> (e \<noteq> EINTR \<longrightarrow> posix_rd_post fd n e [] fd')"
    by (auto simp: sys_errno_def posix_rd_post_def fd_calm_def fd_complete_def fd_avail_def split: if_splits)
next
  fix fd n error bs and fd' fd'' :: ofd assume r: "posix_read fd n = (ReadErr EINTR, fd')"
  then obtain s where s: "fd_sys fd = Fail EINTR # s" "fd' = fd\<lparr>fd_sys := s\<rparr>"
    by (cases "fd_sys fd"; cases "hd (fd_sys fd)")
      (auto simp: posix_read_def Let_def sys_errno_def split: if_splits)
  then have "fd_calm fd \<longrightarrow> fd_calm fd'" "fd_complete fd \<longrightarrow> fd_complete fd'"
    using fd_calm_subset [of s fd fd'] by auto
  moreover from s have same: "fd_avail fd' = fd_avail fd" "fd_off fd' = fd_off fd" "fd_data fd' = fd_data fd"
    and "length (fd_sys fd') < length (fd_sys fd)"
    by (simp_all add: fd_avail_def)
  ultimately show "length (fd_sys fd') < length (fd_sys fd) \<and>
      (posix_rd_post fd' n error bs fd'' \<longrightarrow> posix_rd_post fd n error bs fd'')"
    unfolding posix_rd_post_def same by blast
qed

interpretation file_writer: io_writer posix_write posix_wr_post "\<lambda>fd. length (fd_sys fd)"
proof
  fix fd n bs fd' assume r: "posix_write fd bs = (WriteOk n, fd')"
  then obtain s where m: "n \<le> length bs" "bs \<noteq> [] \<longrightarrow> 0 < n" "set s \<subseteq> set (fd_sys fd)"
    "fd' = fd\<lparr>fd_data := file_write (fd_off fd) (take n bs) (fd_data fd),
              fd_off := fd_off fd + n, fd_sys := s\<rparr>" by (rule posix_write_OkE)
  moreover have "fd_calm fd \<longrightarrow> fd_calm fd'" "fd_complete fd \<longrightarrow> fd_complete fd'"
    using fd_calm_subset [OF m(3), of fd'] m(4) by simp_all
  ultimately show "n \<le> length bs \<and> posix_wr_post fd bs (if n = 0 then ESHUTDOWN else 0) n fd'"
    by (simp add: posix_wr_post_def)
next
  fix fd e bs fd' assume r: "posix_write fd bs = (WriteErr e, fd')"
  then obtain e' s where s: "fd_sys fd = Fail e' # s" "e = sys_errno e'" "fd' = fd\<lparr>fd_sys := s\<rparr>"
    by (cases "fd_sys fd"; cases "hd (fd_sys fd)") (auto simp: posix_write_def Let_def)
  then show "e \<noteq> 0 \<and> (e \<noteq> EINTR \<longrightarrow> posix_wr_post fd bs e 0 fd')"
    by (auto simp: sys_errno_def posix_wr_post_def fd_calm_def fd_complete_def file_write_def
        split: if_splits)
next
  fix fd n error bs and fd' fd'' :: ofd assume r: "posix_write fd bs = (WriteErr EINTR, fd')"
  then obtain s where s: "fd_sys fd = Fail EINTR # s" "fd' = fd\<lparr>fd_sys := s\<rparr>"
    by (cases "fd_sys fd"; cases "hd (fd_sys fd)")
      (auto simp: posix_write_def Let_def sys_errno_def split: if_splits)
  then have "fd_calm fd \<longrightarrow> fd_calm fd'" "fd_complete fd \<longrightarrow> fd_complete fd'"
    using fd_calm_subset [of s fd fd'] by auto
  with s show "length (fd_sys fd') < length (fd_sys fd) \<and>
      (posix_wr_post fd' bs error n fd'' \<longrightarrow> posix_wr_post fd bs error n fd'')"
    by (auto simp: posix_wr_post_def)
qed

section \<open>What the file operations do\<close>

lemma file_write_Nil [simp]: "file_write off [] data = data"
  by (simp add: file_write_def)

lemma length_file_write:
  "length (file_write off bs data) =
     (if bs = [] then length data else max (length data) (off + length bs))"
  by (auto simp: file_write_def)

lemma file_write_end: "file_write (length data) bs data = data @ bs"
  by (simp add: file_write_def)

lemma file_write_inside:
  "off + length bs \<le> length data \<Longrightarrow> file_write off bs data = list_write off bs data"
  by (auto simp: file_write_def list_write_def)

text \<open>Two adjacent writes are one.\<close>

lemma file_write_file_write:
  "file_write (off + length xs) ys (file_write off xs data) = file_write off (xs @ ys) data"
proof (cases "xs = [] \<or> ys = []")
  case False
  have "length (take off (data @ replicate (off - length data) 0)) = off" by simp
  with False show ?thesis by (simp add: file_write_def add_ac)
qed auto

lemma file_write_split:
  "n \<le> length bs \<Longrightarrow>
   file_write (off + n) (drop n bs) (file_write off (take n bs) data) = file_write off bs data"
  using file_write_file_write [of off "take n bs" "drop n bs" data] by simp

lemma seek_head_ok [simp]:
  "0 \<le> off \<Longrightarrow> kcndb_file_seek_head kf off =
     Some (Inr (), kf\<lparr>kf_fd := kf_fd kf\<lparr>fd_off := nat off\<rparr>\<rparr>)"
  by (simp add: kcndb_file_seek_head_def kcndb_file_seek_def posix_lseek_def Let_def)

lemma seek_head_neg [simp]:
  "off < 0 \<Longrightarrow> kcndb_file_seek_head kf off = Some (Inl EINVAL, kf)"
  by (simp add: kcndb_file_seek_head_def kcndb_file_seek_def posix_lseek_def Let_def)

text \<open>
  \<open>kcndb_file_ensure\<close> on a request that fits in the buffer always returns.  It fetches a stretch of
  the file behind the trailing data; without failing system calls it succeeds exactly if the file
  has enough bytes left, and reports \<open>ESHUTDOWN\<close> after it has fetched what there is otherwise.
\<close>

lemma ensure_met [simp]:
  "len \<le> length h + length t \<Longrightarrow>
   kcndb_file_ensure \<lparr>kf_fd = fd, kf_size = sz, kf_kb = zbuf pre h t post\<rparr> len =
     Some (Inr (), \<lparr>kf_fd = fd, kf_size = sz, kf_kb = zbuf pre h t post\<rparr>)"
  by (subst kcndb_file_ensure.simps) (simp add: kcndb_file_buf_def zbuf_simps)

definition ensured :: "nat \<Rightarrow> byte list \<Rightarrow> byte list \<Rightarrow> ofd \<times> byte list \<times> byte list \<Rightarrow>
    unit result \<Rightarrow> byte list \<Rightarrow> ofd \<times> byte list \<times> byte list \<Rightarrow> bool" where
  "ensured len h t = (\<lambda>(fd, pre, post) r bs (fd', pre', post').
     length pre' + length bs + length post' = length pre + length post \<and>
     fd_avail fd = bs @ fd_avail fd' \<and> fd_data fd' = fd_data fd \<and>
     fd_off fd' = fd_off fd + length bs \<and>
     (r = Inr () \<longrightarrow> len \<le> length h + length t + length bs) \<and>
     (len \<le> length h + length t + length post \<longrightarrow> pre' = pre) \<and>
     (fd_complete fd \<longrightarrow> fd_complete fd') \<and>
     (fd_calm fd \<longrightarrow> fd_calm fd' \<and>
        (if len \<le> length h + length t + length (fd_avail fd) then r = Inr ()
         else r = Inl ESHUTDOWN \<and> fd_avail fd' = [])))"

lemma ensured_done: "len \<le> length h + length t \<Longrightarrow> ensured len h t (fd, pre, post) (Inr ()) [] (fd, pre, post)"
  by (simp add: ensured_def)

lemma ensured_failed:
  assumes "\<not> len \<le> length h + length t" "posix_rd_post fd n error [] fd'" "0 < n" "error \<noteq> 0"
    "length pre' + length post' = length pre + length post" "post \<noteq> [] \<longrightarrow> pre' = pre"
  shows "ensured len h t (fd, pre, post) (Inl error) [] (fd', pre', post')"
  using assms by (auto simp: ensured_def posix_rd_post_def)

text \<open>A read that fetched \<open>bs\<close> before a run of the loop on the buffer it left.\<close>

lemma ensured_step:
  assumes "\<not> len \<le> length h + length t" "posix_rd_post fd n error bs fd1"
    "length pre1 + length bs + length post1 = length pre + length post" "post \<noteq> [] \<longrightarrow> pre1 = pre"
    "ensured len h (t @ bs) (fd1, pre1, post1) r bs' (fd', pre', post')"
  shows "ensured len h t (fd, pre, post) r (bs @ bs') (fd', pre', post')"
proof -
  note p = assms(2) [unfolded posix_rd_post_def]
  note e = assms(5) [unfolded ensured_def prod.case]
  from p have av: "length (fd_avail fd) = length bs + length (fd_avail fd1)" by simp
  have l: "length h + length (t @ bs) = length h + length t + length bs" by simp
  have keep: "pre' = pre" if "len \<le> length h + length t + length post"
  proof -
    from that assms(1,4) have "pre1 = pre" by auto
    moreover from this that assms(3) have "len \<le> length h + length (t @ bs) + length post1" by simp
    ultimately show ?thesis using e by blast
  qed
  have calm: "fd_calm fd' \<and> (if len \<le> length h + length t + length (fd_avail fd) then r = Inr ()
      else r = Inl ESHUTDOWN \<and> fd_avail fd' = [])" if "fd_calm fd"
  proof -
    from that p have "fd_calm fd1" by blast
    with e have "fd_calm fd' \<and>
        (if len \<le> length h + length (t @ bs) + length (fd_avail fd1) then r = Inr ()
         else r = Inl ESHUTDOWN \<and> fd_avail fd' = [])" by blast
    then show ?thesis unfolding av l by (simp add: add.assoc)
  qed
  from e have e1: "length pre' + length bs' + length post' = length pre1 + length post1"
    "fd_avail fd1 = bs' @ fd_avail fd'" "fd_data fd' = fd_data fd1" "fd_off fd' = fd_off fd1 + length bs'"
    "r = Inr () \<longrightarrow> len \<le> length h + length (t @ bs) + length bs'" "fd_complete fd1 \<longrightarrow> fd_complete fd'"
    by blast+
  from p have p1: "fd_avail fd = bs @ fd_avail fd1" "fd_data fd1 = fd_data fd" "fd_off fd1 = fd_off fd + length bs"
    "fd_complete fd \<longrightarrow> fd_complete fd1" by blast+
  have "length pre' + length (bs @ bs') + length post' = length pre + length post"
    using e1(1) assms(3) by simp
  moreover have "r = Inr () \<longrightarrow> len \<le> length h + length t + length (bs @ bs')"
    using e1(5) by (simp add: add.assoc)
  moreover have "fd_avail fd = (bs @ bs') @ fd_avail fd'" "fd_data fd' = fd_data fd"
    "fd_off fd' = fd_off fd + length (bs @ bs')"
    by (simp_all only: e1(2-4) p1(1-3) append_assoc length_append add.assoc)
  moreover have "fd_complete fd \<longrightarrow> fd_complete fd'" using e1(6) p1(4) by blast
  ultimately show ?thesis unfolding ensured_def prod.case using keep calm by blast
qed

lemma ensure_ensures:
  assumes "len \<le> length pre + length h + length t + length post"
  shows "\<exists>r bs fd' pre' post'.
    kcndb_file_ensure \<lparr>kf_fd = fd, kf_size = sz, kf_kb = zbuf pre h t post\<rparr> len =
      Some (r, \<lparr>kf_fd = fd', kf_size = sz, kf_kb = zbuf pre' h (t @ bs) post'\<rparr>) \<and>
    ensured len h t (fd, pre, post) r bs (fd', pre', post')"
  using assms
proof (induction "len - (length h + length t)" arbitrary: fd pre t post rule: less_induct)
  case less
  show ?case
  proof (cases "len \<le> length h + length t")
    case True
    then show ?thesis using ensured_done [OF True, of fd pre post] by (metis append_Nil2 ensure_met)
  next
    case False
    with less.prems have "0 < length pre + length post" by linarith
    then have "pre \<noteq> [] \<or> post \<noteq> []" by auto
    from file_reader.read_zbuf [OF this, of fd h t] obtain error fd1 bs pre1 post1 n where
      rd: "kcn_buf_read posix_read fd (zbuf pre h t post) = Some (error, fd1, zbuf pre1 h (t @ bs) post1)"
        "error = 0 \<longleftrightarrow> bs \<noteq> []" "posix_rd_post fd n error bs fd1"
        "length pre1 + length bs + length post1 = length pre + length post" "post \<noteq> [] \<longrightarrow> pre1 = pre"
      and n: "n = (if post = [] then length pre else length post)" by blast
    from n \<open>0 < length pre + length post\<close> have "0 < n" by auto
    have step: "kcndb_file_ensure \<lparr>kf_fd = fd, kf_size = sz, kf_kb = zbuf pre h t post\<rparr> len =
        (if error \<noteq> 0
         then Some (Inl error, \<lparr>kf_fd = fd1, kf_size = sz, kf_kb = zbuf pre1 h (t @ bs) post1\<rparr>)
         else kcndb_file_ensure \<lparr>kf_fd = fd1, kf_size = sz, kf_kb = zbuf pre1 h (t @ bs) post1\<rparr> len)"
      using False by (subst kcndb_file_ensure.simps) (simp add: kcndb_file_buf_def zbuf_simps rd(1))
    show ?thesis
    proof (cases "error = 0")
      case err: False
      with rd(2) have "bs = []" by simp
      with ensured_failed [OF False _ \<open>0 < n\<close> err, of fd fd1 pre1 post1 pre post] rd(3-5) step err
      show ?thesis by (metis append_Nil2 add.right_neutral list.size(3))
    next
      case True
      with rd(2) have "0 < length bs" by simp
      with False have dec: "len - (length h + length (t @ bs)) < len - (length h + length t)"
        unfolding length_append by linarith
      from less.prems rd(4) have le: "len \<le> length pre1 + length h + length (t @ bs) + length post1" by simp
      from less.hyps [OF dec le, of fd1] obtain r bs' fd' pre' post' where ih:
        "kcndb_file_ensure \<lparr>kf_fd = fd1, kf_size = sz, kf_kb = zbuf pre1 h (t @ bs) post1\<rparr> len =
          Some (r, \<lparr>kf_fd = fd', kf_size = sz, kf_kb = zbuf pre' h ((t @ bs) @ bs') post'\<rparr>)"
        "ensured len h (t @ bs) (fd1, pre1, post1) r bs' (fd', pre', post')" by blast
      from ensured_step [OF False rd(3-5) ih(2)] step True ih(1) show ?thesis by (metis append_assoc)
    qed
  qed
qed

lemmas ensure_ok = ensure_ensures [unfolded ensured_def prod.case]

text \<open>After a reset and without partial transfers, one read fills the buffer as far as the file goes.\<close>

lemma ensure_fresh:
  assumes "fd_complete fd" "0 < len" "len \<le> length post" "len \<le> length (fd_avail fd)"
  shows "\<exists>fd' post'.
    kcndb_file_ensure \<lparr>kf_fd = fd, kf_size = sz, kf_kb = zbuf [] [] [] post\<rparr> len =
      Some (Inr (), \<lparr>kf_fd = fd', kf_size = sz,
                     kf_kb = zbuf [] [] (take (length post) (fd_avail fd)) post'\<rparr>) \<and>
    min (length post) (length (fd_avail fd)) + length post' = length post \<and>
    fd_data fd' = fd_data fd \<and> fd_complete fd'"
proof -
  from assms have "[] \<noteq> [] \<or> post \<noteq> []" by auto
  from file_reader.read_zbuf [OF this, of fd "[]" "[]"] obtain error fd1 bs pre1 post1 where
    r0: "kcn_buf_read posix_read fd (zbuf [] [] [] post) = Some (error, fd1, zbuf pre1 [] ([] @ bs) post1)"
      "error = 0 \<longleftrightarrow> bs \<noteq> []"
      "posix_rd_post fd (if post = [] then length ([] :: byte list) else length post) error bs fd1"
      "length pre1 + length bs + length post1 = length ([] :: byte list) + length post"
      "post \<noteq> [] \<longrightarrow> pre1 = []" by blast
  from assms have "post \<noteq> []" by auto
  with r0 have
    rd: "kcn_buf_read posix_read fd (zbuf [] [] [] post) = Some (error, fd1, zbuf pre1 [] bs post1)"
      "error = 0 \<longleftrightarrow> bs \<noteq> []" "posix_rd_post fd (length post) error bs fd1"
      "length pre1 + length bs + length post1 = length post" "pre1 = []" by simp_all
  note p = rd(3) [unfolded posix_rd_post_def]
  from p assms(1) have lb: "length bs = min (length post) (length (fd_avail fd))" by blast
  have bs: "take (length post) (fd_avail fd) = bs"
  proof -
    have "take (length post) (fd_avail fd) = take (length bs) (fd_avail fd)"
      by (cases "length post \<le> length (fd_avail fd)") (simp_all add: lb)
    also have "\<dots> = bs" using p by simp
    finally show ?thesis .
  qed
  from lb assms have e: "error = 0" "len \<le> length bs" using rd(2) by auto
  from p assms(1) have fd1: "fd_data fd1 = fd_data fd" "fd_complete fd1" by blast+
  have "kcndb_file_ensure \<lparr>kf_fd = fd, kf_size = sz, kf_kb = zbuf [] [] [] post\<rparr> len =
      Some (Inr (), \<lparr>kf_fd = fd1, kf_size = sz, kf_kb = zbuf [] [] bs post1\<rparr>)"
    using assms(2) rd(1,5) e by (subst kcndb_file_ensure.simps) (simp add: kcndb_file_buf_def zbuf_simps)
  moreover from rd(4,5) have "length bs + length post1 = length post" by simp
  ultimately show ?thesis using fd1 unfolding bs lb [symmetric] by blast
qed

text \<open>
  \<open>kcndb_file_write\<close> always returns; without failing system calls it puts the buffer's data at the
  offset, all of it, and leaves the buffer empty.
\<close>

definition written :: "byte list \<Rightarrow> byte list \<Rightarrow> byte list \<Rightarrow> byte list \<Rightarrow> ofd \<Rightarrow>
    unit result \<Rightarrow> nat \<Rightarrow> ofd \<Rightarrow> byte list \<Rightarrow> byte list \<Rightarrow> byte list \<Rightarrow> byte list \<Rightarrow> bool" where
  "written pre h t post fd r n fd' pre' h' t' post' \<longleftrightarrow>
    length pre' + length h' + length t' + length post' =
      length pre + length h + length t + length post \<and>
    n \<le> length h + length t \<and>
    fd_data fd' = file_write (fd_off fd) (take n (h @ t)) (fd_data fd) \<and>
    fd_off fd' = fd_off fd + n \<and>
    (fd_complete fd \<longrightarrow> fd_complete fd') \<and> (fd_calm fd \<longrightarrow> fd_calm fd') \<and> (fd_calm fd \<longrightarrow> r = Inr ()) \<and>
    (if r = Inr () then n = length h + length t \<and> pre' = [] \<and> h' = [] \<and> t' = []
     else h' @ t' = drop n (h @ t))"

lemma written_failed:
  "posix_wr_post fd (h @ t) error 0 fd1 \<Longrightarrow> h @ t \<noteq> [] \<Longrightarrow>
   written pre h t post fd (Inl error) 0 fd1 pre h t post"
  by (auto simp: written_def posix_wr_post_def)

text \<open>A write that took \<open>n\<close> bytes before a run of the loop on the rest.\<close>

lemma written_step:
  assumes "posix_wr_post fd (h @ t) error n fd1" "n \<le> length h + length t"
    "written (pre @ take n (h @ t)) (drop n h) (drop (n - length h) t) post fd1 r m fd' pre' h' t' post'"
  shows "written pre h t post fd r (n + m) fd' pre' h' t' post'"
proof -
  note p = assms(1) [unfolded posix_wr_post_def]
  define h1 t1 where "h1 = drop n h" and "t1 = drop (n - length h) t"
  have cat: "h1 @ t1 = drop n (h @ t)" by (simp add: h1_def t1_def)
  from arg_cong [OF this, of length] have ln: "length h1 + length t1 = length h + length t - n" by simp
  have lp: "length (pre @ take n (h @ t)) = length pre + n" using assms(2) by simp
  note w = assms(3) [folded h1_def t1_def, unfolded written_def cat lp]
  from p w have len: "length pre' + length h' + length t' + length post' =
      length pre + length h + length t + length post" "n + m \<le> length h + length t"
    and off: "fd_off fd' = fd_off fd + (n + m)" using ln assms(2) by linarith+
  have "take n (h @ t) @ take m (drop n (h @ t)) = take (n + m) (h @ t)" by (simp only: take_add)
  with file_write_file_write [of "fd_off fd" "take n (h @ t)" "take m (drop n (h @ t))" "fd_data fd"] p w assms(2)
  have data: "fd_data fd' = file_write (fd_off fd) (take (n + m) (h @ t)) (fd_data fd)"
    by (simp del: take_append drop_append)
  from w ln assms(2) have rest: "if r = Inr () then n + m = length h + length t \<and> pre' = [] \<and> h' = [] \<and> t' = []
      else h' @ t' = drop (n + m) (h @ t)"
    by (simp add: add.commute [of n m] drop_drop [symmetric] del: drop_append drop_drop split: if_splits)
  from p w have "fd_complete fd \<longrightarrow> fd_complete fd'" "fd_calm fd \<longrightarrow> fd_calm fd'" "fd_calm fd \<longrightarrow> r = Inr ()"
    by blast+
  with len off data rest show ?thesis unfolding written_def by blast
qed

lemma write_writes:
  "\<exists>r fd' n pre' h' t' post'.
    kcndb_file_write \<lparr>kf_fd = fd, kf_size = sz, kf_kb = zbuf pre h t post\<rparr> =
      Some (r, \<lparr>kf_fd = fd', kf_size = sz, kf_kb = zbuf pre' h' t' post'\<rparr>) \<and>
    written pre h t post fd r n fd' pre' h' t' post'"
proof (induction "length h + length t" arbitrary: fd pre h t rule: less_induct)
  case less
  let ?kf = "\<lparr>kf_fd = fd, kf_size = sz, kf_kb = zbuf pre h t post\<rparr>"
  show ?case
  proof (cases "h = [] \<and> t = []")
    case True
    then have "kcndb_file_write ?kf =
        Some (Inr (), \<lparr>kf_fd = fd, kf_size = sz, kf_kb = zbuf [] [] [] (pre @ post)\<rparr>)"
      by (subst kcndb_file_write.simps) (simp add: kcndb_file_buf_def zbuf_simps)
    moreover from True have "written pre h t post fd (Inr ()) 0 fd [] [] [] (pre @ post)"
      by (simp add: written_def)
    ultimately show ?thesis by blast
  next
    case False
    then have pos: "0 < length h + length t" and ne: "h @ t \<noteq> []" by auto
    from file_writer.write_zbuf [of fd pre h t post] obtain error fd1 n where wr:
      "kcn_buf_write posix_write fd (zbuf pre h t post) =
        Some (error, fd1, zbuf (pre @ take n (h @ t)) (drop n h) (drop (n - length h) t) post)"
      "n \<le> length h + length t" "error = 0 \<longleftrightarrow> 0 < n" "posix_wr_post fd (h @ t) error n fd1" by blast
    have step: "kcndb_file_write ?kf =
        (if error \<noteq> 0
         then Some (Inl error, \<lparr>kf_fd = fd1, kf_size = sz,
                kf_kb = zbuf (pre @ take n (h @ t)) (drop n h) (drop (n - length h) t) post\<rparr>)
         else kcndb_file_write \<lparr>kf_fd = fd1, kf_size = sz,
                kf_kb = zbuf (pre @ take n (h @ t)) (drop n h) (drop (n - length h) t) post\<rparr>)"
      using pos wr(1)
      by (subst kcndb_file_write.simps) (simp add: kcndb_file_buf_def zbuf_simps del: take_append)
    show ?thesis
    proof (cases "error = 0")
      case err: False
      with wr(3) have "n = 0" by simp
      with written_failed [of fd h t error fd1 pre post] ne wr(4) step err
      have "kcndb_file_write ?kf = Some (Inl error, \<lparr>kf_fd = fd1, kf_size = sz, kf_kb = zbuf pre h t post\<rparr>) \<and>
          written pre h t post fd (Inl error) 0 fd1 pre h t post" by simp
      then show ?thesis by blast
    next
      case True
      with wr(3) have "0 < n" by simp
      with pos have "length (drop n h) + length (drop (n - length h) t) < length h + length t"
        unfolding length_drop by linarith
      from less [OF this, of fd1 "pre @ take n (h @ t)"] step True written_step [OF wr(4,2)] show ?thesis
        by (simp del: take_append) blast
    qed
  qed
qed

lemmas write_ok = write_writes [unfolded written_def]

lemma write_calm:
  assumes "fd_calm fd"
  shows "\<exists>fd' post'.
    kcndb_file_write \<lparr>kf_fd = fd, kf_size = sz, kf_kb = zbuf pre h t post\<rparr> =
      Some (Inr (), \<lparr>kf_fd = fd', kf_size = sz, kf_kb = zbuf [] [] [] post'\<rparr>) \<and>
    length post' = length pre + length h + length t + length post \<and>
    fd_data fd' = file_write (fd_off fd) (h @ t) (fd_data fd) \<and> fd_calm fd' \<and>
    (fd_complete fd \<longrightarrow> fd_complete fd')"
  using write_ok [of fd sz pre h t post] assms by fastforce

lemma append_calm:
  assumes "fd_calm fd"
  shows "\<exists>fd' post'.
    kcndb_file_append \<lparr>kf_fd = fd, kf_size = sz, kf_kb = zbuf pre h t post\<rparr> =
      Some (Inr (), \<lparr>kf_fd = fd', kf_size = sz + (length h + length t), kf_kb = zbuf [] [] [] post'\<rparr>) \<and>
    length post' = length pre + length h + length t + length post \<and>
    fd_data fd' = fd_data fd @ h @ t \<and> fd_calm fd' \<and> (fd_complete fd \<longrightarrow> fd_complete fd')"
proof -
  let ?fd = "fd\<lparr>fd_off := length (fd_data fd)\<rparr>"
  have c: "fd_calm ?fd = fd_calm fd" "fd_complete ?fd = fd_complete fd"
    by (simp_all add: fd_calm_def fd_complete_def)
  with assms write_calm [of ?fd sz pre h t post] obtain fd' post' where
    "kcndb_file_write \<lparr>kf_fd = ?fd, kf_size = sz, kf_kb = zbuf pre h t post\<rparr> =
      Some (Inr (), \<lparr>kf_fd = fd', kf_size = sz, kf_kb = zbuf [] [] [] post'\<rparr>)"
    "length post' = length pre + length h + length t + length post"
    "fd_data fd' = fd_data fd @ h @ t" "fd_calm fd'" "fd_complete fd \<longrightarrow> fd_complete fd'"
    by (auto simp: file_write_end)
  then show ?thesis
    by (auto simp: kcndb_file_append_def kcndb_file_seek_def posix_lseek_def Let_def zbuf_simps)
qed

end
