(* ===== verification/Kcn_Str.thy ===== *)
theory Kcn_Str
  imports Kcn_Buf_IO "HOL-Library.Char_ord"
begin

text \<open>
  \<^verbatim>\<open>lib/kcn_str.c\<close> and the functions of the C library it and its clients use: character classes in
  the C locale, string comparison, \<open>strtoll\<close>.  A C string is the list of its characters up to, and
  without, the terminating NUL.
\<close>

section \<open>The C library\<close>

definition char_code :: "char \<Rightarrow> nat" where
  "char_code c = of_char c"

definition c_isdigit :: "char \<Rightarrow> bool" where
  "c_isdigit c = (48 \<le> char_code c \<and> char_code c \<le> 57)"

definition c_isupper :: "char \<Rightarrow> bool" where
  "c_isupper c = (65 \<le> char_code c \<and> char_code c \<le> 90)"

definition c_islower :: "char \<Rightarrow> bool" where
  "c_islower c = (97 \<le> char_code c \<and> char_code c \<le> 122)"

definition c_isalnum :: "char \<Rightarrow> bool" where
  "c_isalnum c = (c_isdigit c \<or> c_isupper c \<or> c_islower c)"

definition c_isblank :: "char \<Rightarrow> bool" where
  "c_isblank c = (char_code c = 32 \<or> char_code c = 9)"

definition c_isspace :: "char \<Rightarrow> bool" where
  "c_isspace c = (char_code c = 32 \<or> 9 \<le> char_code c \<and> char_code c \<le> 13)"

definition c_isprint :: "char \<Rightarrow> bool" where
  "c_isprint c = (32 \<le> char_code c \<and> char_code c \<le> 126)"

definition c_tolower :: "char \<Rightarrow> char" where
  "c_tolower c = (if c_isupper c then char_of (char_code c + 32) else c)"

definition strcasecmp_eq :: "string \<Rightarrow> string \<Rightarrow> bool" where
  "strcasecmp_eq s t = (map c_tolower s = map c_tolower t)"

text \<open>\<open>strncasecmp(s, t, n) == 0\<close>: the terminating NULs take part in the comparison.\<close>

fun strncasecmp_eq :: "string \<Rightarrow> string \<Rightarrow> nat \<Rightarrow> bool" where
  "strncasecmp_eq s t 0 = True"
| "strncasecmp_eq [] [] (Suc n) = True"
| "strncasecmp_eq [] (c # t) (Suc n) = False"
| "strncasecmp_eq (c # s) [] (Suc n) = False"
| "strncasecmp_eq (c # s) (d # t) (Suc n) = (c_tolower c = c_tolower d \<and> strncasecmp_eq s t n)"

text \<open>
  \<open>strncmp\<close> on two byte arrays, as the database uses it: equal NULs end the comparison early.
\<close>

fun strncmp_bytes_eq :: "byte list \<Rightarrow> byte list \<Rightarrow> nat \<Rightarrow> bool" where
  "strncmp_bytes_eq s t 0 = True"
| "strncmp_bytes_eq (a # s) (b # t) (Suc n) = (a = b \<and> (a = 0 \<or> strncmp_bytes_eq s t n))"
| "strncmp_bytes_eq _ _ (Suc n) = False"

text \<open>
  \<open>strtoll(s, &ep, 10)\<close>: white space, a sign, digits.  The result is the clamped value, the rest of
  the string at \<open>ep\<close> (the whole string when there is no digit), and whether \<open>errno\<close> is \<open>ERANGE\<close>.
\<close>

fun scan_digits :: "int \<Rightarrow> string \<Rightarrow> int \<times> string" where
  "scan_digits acc [] = (acc, [])"
| "scan_digits acc (c # s) =
     (if c_isdigit c then scan_digits (10 * acc + int (char_code c - 48)) s else (acc, c # s))"

fun scan_sign :: "string \<Rightarrow> bool \<times> string" where
  "scan_sign (c # s) = (if c = CHR ''-'' then (True, s) else if c = CHR ''+'' then (False, s) else (False, c # s))"
| "scan_sign [] = (False, [])"

abbreviation (input) LLONG_MAX :: int where "LLONG_MAX \<equiv> 2 ^ 63 - 1"
abbreviation (input) LLONG_MIN :: int where "LLONG_MIN \<equiv> - (2 ^ 63)"
abbreviation (input) ULLONG_MAX :: uint64 where "ULLONG_MAX \<equiv> - 1"

definition c_strtoll :: "string \<Rightarrow> int \<times> string \<times> bool" where
  "c_strtoll s =
     (let (neg, t) = scan_sign (dropWhile c_isspace s) in
      if t = [] \<or> \<not> c_isdigit (hd t) then (0, s, False)
      else let (n, rest) = scan_digits 0 t; v = (if neg then - n else n) in
           if v > LLONG_MAX then (LLONG_MAX, rest, True)
           else if v < LLONG_MIN then (LLONG_MIN, rest, True)
           else (v, rest, False))"

section \<open>kcn_str.c\<close>

text \<open>The result is either the errno value of a failure or what is stored in \<open>*p\<close>.\<close>

definition kcn_strtoull :: "string \<Rightarrow> uint64 \<Rightarrow> uint64 \<Rightarrow> uint64 result" where
  "kcn_strtoull s lo hi =
     (case c_strtoll s of
        (v, rest, erange) \<Rightarrow>
          let llval = (word_of_int v :: uint64) in
          if s = [] \<or> rest \<noteq> [] then Inl EINVAL
          else if erange \<and> (llval = ULLONG_MAX \<or> llval = 0) then Inl ERANGE
          else if llval < lo \<or> llval > hi then Inl ERANGE
          else Inr llval)"

text \<open>
  \<open>kcn_str_dup\<close> copies \<open>len\<close> bytes, which the source must have, and a terminating NUL.  The outer
  option is undefined behaviour, the inner one a null result.
\<close>

definition kcn_str_dup :: "allocator \<Rightarrow> byte list \<Rightarrow> nat \<Rightarrow> byte list option option" where
  "kcn_str_dup malloc s0 len =
     (case malloc (len + 1) of
        None \<Rightarrow> Some None
      | Some mem \<Rightarrow> do {
          c_assert (len \<le> length s0);
          c_assert (len + 1 \<le> length mem);
          Some (Some (list_write len [0] (list_write 0 (take len s0) mem)))
        })"

fun djb2 :: "uint32 \<Rightarrow> byte list \<Rightarrow> uint32" where
  "djb2 h [] = h"
| "djb2 h (b # bs) = djb2 (push_bit 5 h + h + ucast b) bs"

definition kcn_str_hash :: "byte list \<Rightarrow> nat \<Rightarrow> nat" where
  "kcn_str_hash s hsize = (let h = djb2 5381 s in unat (h + drop_bit 5 h) mod hsize)"

section \<open>Lemmas\<close>

lemma strcasecmp_eq_refl [simp]: "strcasecmp_eq s s"
  by (simp add: strcasecmp_eq_def)

lemma strcasecmp_eq_sym: "strcasecmp_eq s t = strcasecmp_eq t s"
  by (auto simp: strcasecmp_eq_def)

lemma strcasecmp_eq_trans: "strcasecmp_eq s t \<Longrightarrow> strcasecmp_eq t u \<Longrightarrow> strcasecmp_eq s u"
  by (simp add: strcasecmp_eq_def)

text \<open>With a bound that covers the first string and its NUL the comparison is a full one.\<close>

lemma strncasecmp_full: "length s < n \<Longrightarrow> strncasecmp_eq s t n = strcasecmp_eq s t"
  by (induction s t n rule: strncasecmp_eq.induct) (auto simp: strcasecmp_eq_def)

lemma strncmp_bytes_refl [simp]: "n \<le> length s \<Longrightarrow> strncmp_bytes_eq (s @ t) s n"
proof (induction s arbitrary: n)
  case (Cons a s)
  then show ?case by (cases n) auto
qed simp

text \<open>On arrays without NUL bytes, \<open>strncmp\<close> is equality.\<close>

lemma strncmp_bytes_eq_iff:
  "n \<le> length s \<Longrightarrow> n \<le> length t \<Longrightarrow> 0 \<notin> set (take n t) \<Longrightarrow>
   strncmp_bytes_eq s t n = (take n s = take n t)"
  by (induction s t n rule: strncmp_bytes_eq.induct) auto

lemma kcn_str_hash_less: "0 < hsize \<Longrightarrow> kcn_str_hash s hsize < hsize"
  by (simp add: kcn_str_hash_def Let_def)

lemma str_dup_ok:
  assumes "alloc_ok malloc" "len \<le> length s0"
  shows "kcn_str_dup malloc s0 len =
    Some (if malloc (len + 1) = None then None else Some (take len s0 @ [0]))"
proof (cases "malloc (len + 1)")
  case (Some mem)
  with assms(1) have "length mem = len + 1" by (auto dest: alloc_okD)
  with Some assms(2) show ?thesis by (simp add: kcn_str_dup_def list_write_def)
qed (simp add: kcn_str_dup_def)

subsection \<open>Decimal notation\<close>

text \<open>The reference printer.\<close>

fun decimal :: "nat \<Rightarrow> string" where
  "decimal n = (if n < 10 then [char_of (48 + n)] else decimal (n div 10) @ [char_of (48 + n mod 10)])"

declare decimal.simps [simp del]

lemma char_code_digit: "d < 10 \<Longrightarrow> char_code (char_of (48 + d :: nat)) = 48 + d"
  by (simp add: char_code_def)

lemma isdigit_digit: "d < 10 \<Longrightarrow> c_isdigit (char_of (48 + d :: nat))"
  by (simp add: c_isdigit_def char_code_digit)

lemma scan_digits_append:
  assumes "\<forall>c \<in> set s. c_isdigit c"
  shows "scan_digits acc (s @ t) = scan_digits (fst (scan_digits acc s)) t \<and> snd (scan_digits acc s) = []"
  using assms by (induction s arbitrary: acc) auto

lemma decimal_digits: "\<forall>c \<in> set (decimal n). c_isdigit c"
proof (induction n rule: decimal.induct)
  case (1 n)
  then show ?case by (subst decimal.simps) (auto simp: isdigit_digit)
qed

lemma scan_digits_decimal: "scan_digits 0 (decimal n) = (int n, [])"
proof (induction n rule: decimal.induct)
  case (1 n)
  show ?case
  proof (cases "n < 10")
    case True
    then show ?thesis by (simp add: decimal.simps [of n] isdigit_digit char_code_digit)
  next
    case False
    with 1 have "scan_digits 0 (decimal (n div 10)) = (int (n div 10), [])" by simp
    with scan_digits_append [OF decimal_digits, of 0 "n div 10" "[char_of (48 + n mod 10)]"] False
    show ?thesis
      by (simp add: decimal.simps [of n] isdigit_digit char_code_digit) (simp add: zdiv_int zmod_int)
  qed
qed

lemma decimal_not_Nil [simp]: "decimal n \<noteq> []"
  by (subst decimal.simps) simp

lemma digit_not_space: "c_isdigit c \<Longrightarrow> \<not> c_isspace c \<and> c \<noteq> CHR ''-'' \<and> c \<noteq> CHR ''+''"
  by (auto simp: c_isdigit_def c_isspace_def char_code_def)

lemma strtoll_decimal:
  "c_strtoll (decimal n) =
     (if int n > LLONG_MAX then (LLONG_MAX, [], True) else (int n, [], False))"
proof -
  from decimal_not_Nil obtain c s where cs: "decimal n = c # s" by (cases "decimal n") auto
  with decimal_digits [of n] have "c_isdigit c" by simp
  with cs have "scan_sign (dropWhile c_isspace (decimal n)) = (False, decimal n)"
    by (simp add: digit_not_space)
  with cs \<open>c_isdigit c\<close> scan_digits_decimal [of n] show ?thesis
    by (simp add: c_strtoll_def)
qed

text \<open>A value the function accepts is in the range the caller gave.\<close>

lemma strtoull_range:
  "kcn_strtoull s lo hi = Inr v \<Longrightarrow> lo \<le> v \<and> v \<le> hi"
  by (auto simp: kcn_strtoull_def Let_def not_less split: prod.splits if_splits)

lemma strtoull_decimal_small:
  assumes "n < 2 ^ 63" "lo \<le> of_nat n" "of_nat n \<le> hi"
  shows "kcn_strtoull (decimal n) lo hi = Inr (of_nat n)"
  using assms by (simp add: kcn_strtoull_def strtoll_decimal not_less Let_def)

lemma strtoull_decimal_large:
  assumes "2 ^ 63 \<le> n"
  shows "kcn_strtoull (decimal n) 0 ULLONG_MAX = Inr (2 ^ 63 - 1)"
  using assms by (simp add: kcn_strtoull_def strtoll_decimal not_less Let_def)

end
