(* ===== verification/Kcn_Eq.thy ===== *)
theory Kcn_Eq
  imports Kcn_Str
begin

text \<open>
  \<^verbatim>\<open>lib/kcn_eq.c\<close>: the condition of a query (a measurement type, a comparison operator, a value
  and a time range), its text forms, and the test whether a time lies in its range.
\<close>

section \<open>Types and operators\<close>

abbreviation (input) KCN_EQ_TYPE_NONE :: c_enum where "KCN_EQ_TYPE_NONE \<equiv> 0"
abbreviation (input) KCN_EQ_TYPE_STORAGE :: c_enum where "KCN_EQ_TYPE_STORAGE \<equiv> 1"
abbreviation (input) KCN_EQ_TYPE_CPULOAD :: c_enum where "KCN_EQ_TYPE_CPULOAD \<equiv> 2"
abbreviation (input) KCN_EQ_TYPE_TRAFFIC :: c_enum where "KCN_EQ_TYPE_TRAFFIC \<equiv> 3"
abbreviation (input) KCN_EQ_TYPE_RTT :: c_enum where "KCN_EQ_TYPE_RTT \<equiv> 4"
abbreviation (input) KCN_EQ_TYPE_HOPCOUNT :: c_enum where "KCN_EQ_TYPE_HOPCOUNT \<equiv> 5"
abbreviation (input) KCN_EQ_TYPE_ASPATHLEN :: c_enum where "KCN_EQ_TYPE_ASPATHLEN \<equiv> 6"
abbreviation (input) KCN_EQ_TYPE_WLANASSOC :: c_enum where "KCN_EQ_TYPE_WLANASSOC \<equiv> 7"
abbreviation (input) KCN_EQ_TYPE_MAX :: c_enum where "KCN_EQ_TYPE_MAX \<equiv> 8"

abbreviation (input) KCN_EQ_OP_NONE :: c_enum where "KCN_EQ_OP_NONE \<equiv> 0"
abbreviation (input) KCN_EQ_OP_LT :: c_enum where "KCN_EQ_OP_LT \<equiv> 1"
abbreviation (input) KCN_EQ_OP_LE :: c_enum where "KCN_EQ_OP_LE \<equiv> 2"
abbreviation (input) KCN_EQ_OP_EQ :: c_enum where "KCN_EQ_OP_EQ \<equiv> 3"
abbreviation (input) KCN_EQ_OP_GT :: c_enum where "KCN_EQ_OP_GT \<equiv> 4"
abbreviation (input) KCN_EQ_OP_GE :: c_enum where "KCN_EQ_OP_GE \<equiv> 5"

abbreviation (input) KCN_TIME_NOW :: time_t where "KCN_TIME_NOW \<equiv> - 1"

record kcn_eq =
  ke_type :: c_enum
  ke_op :: c_enum
  ke_val :: uint64
  ke_start :: time_t
  ke_end :: time_t

definition kcn_eq_type_names :: "string list" where
  "kcn_eq_type_names =
     [''none'', ''storage'', ''cpu'', ''traffic'', ''rtt'', ''hopcount'', ''aspathlen'', ''wlanassoc'']"

definition kcn_eq_type_ntoa :: "c_enum \<Rightarrow> string result" where
  "kcn_eq_type_ntoa type =
     (if type \<le> KCN_EQ_TYPE_NONE \<or> type \<ge> KCN_EQ_TYPE_MAX then Inl ENOENT
      else Inr (kcn_eq_type_names ! unat type))"

text \<open>\<open>ISMATCH(a)\<close> compares up to and including the NUL of the literal \<open>a\<close>.\<close>

definition eq_ismatch :: "string \<Rightarrow> string \<Rightarrow> bool" where
  "eq_ismatch s a = strncasecmp_eq a s (length a + 1)"

definition kcn_eq_type_aton :: "string \<Rightarrow> c_enum result" where
  "kcn_eq_type_aton s =
     (if eq_ismatch s ''hdd'' \<or> eq_ismatch s ''storage'' then Inr KCN_EQ_TYPE_STORAGE
      else if eq_ismatch s ''cpu'' \<or> eq_ismatch s ''load'' then Inr KCN_EQ_TYPE_CPULOAD
      else if eq_ismatch s ''traffic'' then Inr KCN_EQ_TYPE_TRAFFIC
      else if eq_ismatch s ''rtt'' then Inr KCN_EQ_TYPE_RTT
      else if eq_ismatch s ''hopcount'' \<or> eq_ismatch s ''ttl'' then Inr KCN_EQ_TYPE_HOPCOUNT
      else if eq_ismatch s ''aspathlen'' then Inr KCN_EQ_TYPE_ASPATHLEN
      else if eq_ismatch s ''wlanassoc'' then Inr KCN_EQ_TYPE_WLANASSOC
      else Inl ENOENT)"

definition kcn_eq_operator_aton :: "string \<Rightarrow> c_enum result" where
  "kcn_eq_operator_aton w =
     (if strcasecmp_eq ''<'' w \<or> strcasecmp_eq ''lt'' w then Inr KCN_EQ_OP_LT
      else if strcasecmp_eq ''<='' w \<or> strcasecmp_eq ''le'' w then Inr KCN_EQ_OP_LE
      else if strcasecmp_eq ''='' w \<or> strcasecmp_eq ''=='' w \<or> strcasecmp_eq ''eq'' w
      then Inr KCN_EQ_OP_EQ
      else if strcasecmp_eq ''>'' w \<or> strcasecmp_eq ''gt'' w then Inr KCN_EQ_OP_GT
      else if strcasecmp_eq ''>='' w \<or> strcasecmp_eq ''ge'' w then Inr KCN_EQ_OP_GE
      else Inl ENOENT)"

definition kcn_eq_val_aton :: "string \<Rightarrow> uint64 result" where
  "kcn_eq_val_aton w = kcn_strtoull w 0 ULLONG_MAX"

definition kcn_eq_time_match :: "time_t \<Rightarrow> kcn_eq \<Rightarrow> bool" where
  "kcn_eq_time_match t ke =
     (if ke_end ke \<noteq> KCN_TIME_NOW \<and> sint t > sint (ke_end ke) then False
      else if sint t < sint (ke_start ke) then False
      else True)"

section \<open>Lemmas\<close>

lemma eq_ismatch_iff: "eq_ismatch s a = strcasecmp_eq a s"
  by (simp add: eq_ismatch_def strncasecmp_full)

lemma type_ntoa_cases:
  assumes "kcn_eq_type_ntoa type = Inr s"
  obtains "type = 1" "s = ''storage''" | "type = 2" "s = ''cpu''" | "type = 3" "s = ''traffic''"
    | "type = 4" "s = ''rtt''" | "type = 5" "s = ''hopcount''" | "type = 6" "s = ''aspathlen''"
    | "type = 7" "s = ''wlanassoc''"
proof -
  from assms have r: "0 < type" "type < 8" and s: "s = kcn_eq_type_names ! unat type"
    by (auto simp: kcn_eq_type_ntoa_def word_gt_0 not_le split: if_splits)
  from r have "0 < unat type" "unat type < 8" by (simp_all add: word_less_nat_alt)
  then have n: "unat type \<in> {1, 2, 3, 4, 5, 6, 7}" by auto
  have t: "type = of_nat k" if "unat type = k" for k using that by auto
  from n show thesis
  proof (elim insertE emptyE)
    assume u: "unat type = 1"
    with t [OF u] s show thesis by (intro that(1)) (simp_all add: kcn_eq_type_names_def)
  next
    assume u: "unat type = 2"
    with t [OF u] s show thesis by (intro that(2)) (simp_all add: kcn_eq_type_names_def)
  next
    assume u: "unat type = 3"
    with t [OF u] s show thesis by (intro that(3)) (simp_all add: kcn_eq_type_names_def)
  next
    assume u: "unat type = 4"
    with t [OF u] s show thesis by (intro that(4)) (simp_all add: kcn_eq_type_names_def)
  next
    assume u: "unat type = 5"
    with t [OF u] s show thesis by (intro that(5)) (simp_all add: kcn_eq_type_names_def)
  next
    assume u: "unat type = 6"
    with t [OF u] s show thesis by (intro that(6)) (simp_all add: kcn_eq_type_names_def)
  next
    assume u: "unat type = 7"
    with t [OF u] s show thesis by (intro that(7)) (simp_all add: kcn_eq_type_names_def)
  qed
qed

text \<open>Every name the printer yields is parsed back to its type.\<close>

lemma type_aton_ntoa: "kcn_eq_type_ntoa type = Inr s \<Longrightarrow> kcn_eq_type_aton s = Inr type"
  by (erule type_ntoa_cases)
    (simp_all add: kcn_eq_type_aton_def eq_ismatch_iff strcasecmp_eq_def c_tolower_def
      c_isupper_def char_code_def)

lemma type_aton_range: "kcn_eq_type_aton s = Inr type \<Longrightarrow> 1 \<le> type \<and> type \<le> 7"
  by (auto simp: kcn_eq_type_aton_def split: if_splits)

lemma operator_aton_range: "kcn_eq_operator_aton w = Inr opr \<Longrightarrow> 1 \<le> opr \<and> opr \<le> 5"
  by (auto simp: kcn_eq_operator_aton_def split: if_splits)

lemma time_match_iff:
  "kcn_eq_time_match t ke \<longleftrightarrow>
     sint (ke_start ke) \<le> sint t \<and> (ke_end ke = KCN_TIME_NOW \<or> sint t \<le> sint (ke_end ke))"
  by (auto simp: kcn_eq_time_match_def)

end
