(* ===== verification/Kcndb_Db.thy ===== *)
theory Kcndb_Db
  imports Kcndb_File Kcn_Eq
begin

text \<open>
  \<^verbatim>\<open>kcndbd/kcndb_db.c\<close>: the database of the daemon.  There is a table of fixed-size records and a
  locator file per measurement type; the locator file is a table of 256 hash buckets followed by
  the locators, chained per bucket.

  Every handle (\<open>struct kcndb_db\<close>) has its own descriptors and buffers; the sizes of the files and
  the lock that guards them are in the static array \<open>kcndb_db_base\<close>, which all handles share.  An
  operation on one table is a function of that table's element of the array and the table
  (\<open>db_st\<close>); the operations of the interface look both up and write both back.
\<close>

section \<open>Structures\<close>

text \<open>
  A \<open>pthread_rwlock_t\<close>: its holders and the error numbers the next lock calls return (0, and an
  exhausted list, are success).  A call that has to wait is \<^const>\<open>None\<close>: nothing in a sequential
  execution releases the lock.
\<close>

record rwlock =
  rw_readers :: nat
  rw_writer :: bool
  rw_errs :: "errno list"

definition pthread_rwlock_rdlock :: "rwlock \<Rightarrow> (errno \<times> rwlock) option" where
  "pthread_rwlock_rdlock l =
     (case next_errno (rw_errs l) of
        (e, es) \<Rightarrow>
          (if e \<noteq> 0 then Some (e, l\<lparr>rw_errs := es\<rparr>)
           else if rw_writer l then None
           else Some (0, l\<lparr>rw_readers := rw_readers l + 1, rw_errs := es\<rparr>)))"

definition pthread_rwlock_wrlock :: "rwlock \<Rightarrow> (errno \<times> rwlock) option" where
  "pthread_rwlock_wrlock l =
     (case next_errno (rw_errs l) of
        (e, es) \<Rightarrow>
          (if e \<noteq> 0 then Some (e, l\<lparr>rw_errs := es\<rparr>)
           else if rw_writer l \<or> rw_readers l > 0 then None
           else Some (0, l\<lparr>rw_writer := True, rw_errs := es\<rparr>)))"

definition pthread_rwlock_unlock :: "rwlock \<Rightarrow> rwlock option" where
  "pthread_rwlock_unlock l =
     (if rw_writer l then Some (l\<lparr>rw_writer := False\<rparr>)
      else if rw_readers l > 0 then Some (l\<lparr>rw_readers := rw_readers l - 1\<rparr>)
      else None)"

record kcndb_db_record =
  kdr_time :: time_t
  kdr_val :: uint64
  kdr_locidx :: uint64
  kdr_loc :: "byte list"
  kdr_loclen :: nat

record kcndb_db_table =
  kdt_type :: c_enum
  kdt_loc :: kcndb_file
  kdt_table :: kcndb_file

record kcndb_db_base =
  kdb_locsize :: nat
  kdb_tablesize :: nat
  kdb_lock :: rwlock

text \<open>\<open>kd_tables\<close> of a complete handle, and the static array of the same length.\<close>

type_synonym kcndb_db = "kcndb_db_table list"
type_synonym db_st = "kcndb_db_base \<times> kcndb_db_table"

definition KCNDB_DB_BASE_INITIALIZER :: kcndb_db_base where
  "KCNDB_DB_BASE_INITIALIZER =
     \<lparr>kdb_locsize = 0, kdb_tablesize = 0,
      kdb_lock = \<lparr>rw_readers = 0, rw_writer = False, rw_errs = []\<rparr>\<rparr>"

definition kcndb_db_base :: "kcndb_db_base list" where
  "kcndb_db_base = replicate 7 KCNDB_DB_BASE_INITIALIZER"

definition TYPE2INDEX :: "c_enum \<Rightarrow> nat" where
  "TYPE2INDEX t = unat (t - 1)"

section \<open>Access to files, buffers and locks\<close>

definition on_loc ::
  "(kcndb_file \<Rightarrow> ('a result \<times> kcndb_file) option) \<Rightarrow> db_st \<Rightarrow> ('a result \<times> db_st) option" where
  "on_loc f st =
     (case f (kdt_loc (snd st)) of
        None \<Rightarrow> None
      | Some (r, kf) \<Rightarrow> Some (r, (fst st, (snd st)\<lparr>kdt_loc := kf\<rparr>)))"

definition on_table ::
  "(kcndb_file \<Rightarrow> ('a result \<times> kcndb_file) option) \<Rightarrow> db_st \<Rightarrow> ('a result \<times> db_st) option" where
  "on_table f st =
     (case f (kdt_table (snd st)) of
        None \<Rightarrow> None
      | Some (r, kf) \<Rightarrow> Some (r, (fst st, (snd st)\<lparr>kdt_table := kf\<rparr>)))"

definition kf_do :: "(kcn_buf \<Rightarrow> kcn_buf option) \<Rightarrow> kcndb_file \<Rightarrow> (unit result \<times> kcndb_file) option" where
  "kf_do f kf = do { kb \<leftarrow> f (kcndb_file_buf kf); Some (Inr (), kf\<lparr>kf_kb := kb\<rparr>) }"

definition kf_get :: "(kcn_buf \<Rightarrow> ('a \<times> kcn_buf) option) \<Rightarrow> kcndb_file \<Rightarrow> ('a result \<times> kcndb_file) option" where
  "kf_get f kf = do { (v, kb) \<leftarrow> f (kcndb_file_buf kf); Some (Inr v, kf\<lparr>kf_kb := kb\<rparr>) }"

lemma rbind_mono [partial_function_mono]:
  assumes "mono_option B" "\<And>v s. mono_option (\<lambda>f. C v s f)"
  shows "mono_option (\<lambda>f. rbind (B f) (\<lambda>v s. C v s f))"
proof -
  have "rbind m g = m \<bind> (\<lambda>x. case_sum (\<lambda>e. Some (Inl e, snd x)) (\<lambda>v. g v (snd x)) (fst x))"
    for m :: "('c result \<times> 'd) option" and g :: "'c \<Rightarrow> 'd \<Rightarrow> ('e result \<times> 'd) option"
    by (auto simp: rbind_def split: option.split sum.split)
  moreover have "mono_option (\<lambda>f. case_sum (\<lambda>e. Some (Inl e, snd x)) (\<lambda>v. C v (snd x) f) (fst x))" for x
    using assms(2) by (cases "fst x") (auto simp: monotone_def option.leq_refl)
  ultimately show ?thesis
    using assms(1) by (simp add: bind_mono)
qed

definition kcndb_db_loc_size :: "db_st \<Rightarrow> nat" where
  "kcndb_db_loc_size st = kdb_locsize (fst st)"

definition kcndb_db_loc_size_increment :: "nat \<Rightarrow> db_st \<Rightarrow> db_st" where
  "kcndb_db_loc_size_increment n st = ((fst st)\<lparr>kdb_locsize := kdb_locsize (fst st) + n\<rparr>, snd st)"

definition kcndb_db_table_size :: "db_st \<Rightarrow> nat" where
  "kcndb_db_table_size st = kdb_tablesize (fst st)"

definition kcndb_db_table_size_increment :: "nat \<Rightarrow> db_st \<Rightarrow> db_st" where
  "kcndb_db_table_size_increment n st =
     ((fst st)\<lparr>kdb_tablesize := kdb_tablesize (fst st) + n\<rparr>, snd st)"

definition kcndb_db_rdlock :: "db_st \<Rightarrow> (unit result \<times> db_st) option" where
  "kcndb_db_rdlock st = do {
     (error, l) \<leftarrow> pthread_rwlock_rdlock (kdb_lock (fst st));
     Some (if error \<noteq> 0 then Inl error else Inr (), ((fst st)\<lparr>kdb_lock := l\<rparr>, snd st))
   }"

definition kcndb_db_wrlock :: "db_st \<Rightarrow> (unit result \<times> db_st) option" where
  "kcndb_db_wrlock st = do {
     (error, l) \<leftarrow> pthread_rwlock_wrlock (kdb_lock (fst st));
     Some (if error \<noteq> 0 then Inl error else Inr (), ((fst st)\<lparr>kdb_lock := l\<rparr>, snd st))
   }"

definition kcndb_db_unlock :: "db_st \<Rightarrow> db_st option" where
  "kcndb_db_unlock st = do {
     l \<leftarrow> pthread_rwlock_unlock (kdb_lock (fst st));
     Some ((fst st)\<lparr>kdb_lock := l\<rparr>, snd st)
   }"

section \<open>Locators\<close>

abbreviation (input) KCNDB_DB_LOC_HASHSIZ :: nat where "KCNDB_DB_LOC_HASHSIZ \<equiv> 256"
abbreviation (input) KCNDB_DB_LOC_INDEXSIZ :: nat where "KCNDB_DB_LOC_INDEXSIZ \<equiv> 8"
abbreviation (input) KCNDB_DB_LOC_INDEXTABLESIZ :: nat where "KCNDB_DB_LOC_INDEXTABLESIZ \<equiv> 2048"

definition kcndb_db_loc_init :: "db_st \<Rightarrow> (unit result \<times> db_st) option" where
  "kcndb_db_loc_init st =
     (if kcndb_db_loc_size st > 0 then Some (Inr (), st)
      else
        rbind (on_loc (kf_do (\<lambda>kb. kcn_buf_putnull kb KCNDB_DB_LOC_INDEXTABLESIZ)) st) (\<lambda>_ st.
        rbind (on_loc kcndb_file_append st) (\<lambda>_ st.
        Some (Inr (), kcndb_db_loc_size_increment KCNDB_DB_LOC_INDEXTABLESIZ st))))"

text \<open>
  The comparison \<open>loclen == len && strncmp(kcn_buf_current(kb), loc, loclen) == 0\<close>.  \<open>strncmp\<close> may
  look at everything that is allocated behind the current position.
\<close>

definition kb_rest :: "kcn_buf \<Rightarrow> byte list option" where
  "kb_rest kb = do { d \<leftarrow> kb_kbd kb; Some (drop (kb_cp kb) (kbd_buf d)) }"

definition loc_equal :: "kcndb_file \<Rightarrow> byte list \<Rightarrow> nat \<Rightarrow> nat \<Rightarrow> bool option" where
  "loc_equal kf loc loclen len =
     (if loclen = len then do {
        s \<leftarrow> kb_rest (kcndb_file_buf kf);
        Some (strncmp_bytes_eq s loc loclen)
      } else Some False)"

text \<open>
  The \<open>while\<close> loop of \<open>kcndb_db_loc_add\<close>.  Its result is \<open>idx\<close>: not 0 exactly if the loop was left
  by \<open>goto out\<close>.  An index is passed to \<open>lseek\<close> as an \<open>off_t\<close>, which is signed.
\<close>

partial_function (option) kcndb_db_loc_walk ::
  "byte list \<Rightarrow> nat \<Rightarrow> kcndb_file \<Rightarrow> (uint64 result \<times> kcndb_file) option" where
  "kcndb_db_loc_walk loc loclen kf =
     rbind (kf_get kcn_buf_get64 kf) (\<lambda>idx kf.
       if idx = 0 then Some (Inr 0, kf)
       else
         rbind (kcndb_file_seek_head kf (sint idx)) (\<lambda>_ kf.
         rbind (kf_do (\<lambda>kb. kcn_buf_reset kb 0) kf) (\<lambda>_ kf.
         rbind (kcndb_file_ensure kf 2) (\<lambda>_ kf.
         rbind (kf_get kcn_buf_get16 kf) (\<lambda>len kf.
         rbind (kcndb_file_ensure kf (unat len + 8)) (\<lambda>_ kf. do {
           eq \<leftarrow> loc_equal kf loc loclen (unat len);
           (if eq then Some (Inr idx, kf)
            else rbind (kf_do (\<lambda>kb. kcn_buf_forward kb (unat len)) kf) (\<lambda>_ kf.
                   kcndb_db_loc_walk loc loclen kf))
         }))))))"

text \<open>
  After the loop \<open>idx\<close> is 0, so \<open>oidx\<close> is the heading data of the buffer less the size of an index,
  whatever chain the loop went through.
\<close>

definition kcndb_db_loc_add :: "byte list \<Rightarrow> nat \<Rightarrow> db_st \<Rightarrow> (uint64 result \<times> db_st) option" where
  "kcndb_db_loc_add loc loclen st = do {
     c_assert (loclen \<le> length loc);
     h \<leftarrow> Some (kcn_str_hash (take loclen loc) KCNDB_DB_LOC_HASHSIZ);
     rbind (on_loc (kf_do (\<lambda>kb. kcn_buf_reset kb 0)) st) (\<lambda>_ st.
     rbind (on_loc (\<lambda>kf. kcndb_file_seek_head kf 0) st) (\<lambda>_ st.
     rbind (on_loc (\<lambda>kf. kcndb_file_ensure kf KCNDB_DB_LOC_INDEXSIZ) st) (\<lambda>_ st.
     rbind (on_loc (kf_do (\<lambda>kb. kcn_buf_forward kb (KCNDB_DB_LOC_INDEXSIZ * h))) st) (\<lambda>_ st.
     rbind (on_loc (kcndb_db_loc_walk loc loclen) st) (\<lambda>idx st.
     if idx \<noteq> 0 then Some (Inr idx, st)
     else do {
       hd \<leftarrow> kcn_buf_headingdata (kf_kb (kdt_loc (snd st)));
       oidx \<leftarrow> Some (idx + of_nat hd - 8);
       idx \<leftarrow> Some (of_nat (kcndb_db_loc_size st));
       rbind (on_loc (kf_do (\<lambda>kb. kcn_buf_reset kb 0)) st) (\<lambda>_ st.
       rbind (on_loc (kf_do (\<lambda>kb. kcn_buf_put16 kb (of_nat loclen))) st) (\<lambda>_ st.
       rbind (on_loc (kf_do (\<lambda>kb. kcn_buf_put kb (take loclen loc))) st) (\<lambda>_ st.
       rbind (on_loc (kf_do (\<lambda>kb. kcn_buf_put64 kb 0)) st) (\<lambda>_ st. do {
       len \<leftarrow> kcn_buf_len (kf_kb (kdt_loc (snd st)));
       rbind (on_loc kcndb_file_append st) (\<lambda>_ st. do {
       st \<leftarrow> Some (kcndb_db_loc_size_increment len st);
       rbind (on_loc (kf_do (\<lambda>kb. kcn_buf_put64 kb idx)) st) (\<lambda>_ st.
       rbind (on_loc (\<lambda>kf. kcndb_file_seek_head kf (sint oidx)) st) (\<lambda>_ st.
       rbind (on_loc kcndb_file_write st) (\<lambda>_ st.
       Some (Inr idx, st))))})}))))})))))
   }"

text \<open>The result is the pointer to the locator, as the bytes behind it in the buffer, and the length.\<close>

definition kcndb_db_loc_lookup ::
  "uint64 \<Rightarrow> db_st \<Rightarrow> ((byte list \<times> nat) result \<times> db_st) option" where
  "kcndb_db_loc_lookup idx st =
     (if of_nat (kcndb_db_loc_size st) < idx then Some (Inl ENXIO, st)
      else
        rbind (on_loc (kf_do (\<lambda>kb. kcn_buf_reset kb 0)) st) (\<lambda>_ st.
        rbind (on_loc (\<lambda>kf. kcndb_file_seek_head kf (sint idx)) st) (\<lambda>_ st.
        rbind (on_loc (\<lambda>kf. kcndb_file_ensure kf 2) st) (\<lambda>_ st.
        rbind (on_loc (kf_get kcn_buf_get16) st) (\<lambda>loclen st.
        rbind (on_loc (\<lambda>kf. kcndb_file_ensure kf (unat loclen)) st) (\<lambda>_ st. do {
          loc \<leftarrow> kb_rest (kf_kb (kdt_loc (snd st)));
          Some (Inr (loc, unat loclen), st)
        }))))))"

section \<open>Records\<close>

abbreviation (input) KCNDB_DB_RECORDSIZ :: nat where "KCNDB_DB_RECORDSIZ \<equiv> 24"

definition kcndb_db_record_read ::
  "kcndb_db_record \<Rightarrow> db_st \<Rightarrow> (kcndb_db_record result \<times> db_st) option" where
  "kcndb_db_record_read kdr st =
     rbind (on_table (\<lambda>kf. kcndb_file_ensure kf KCNDB_DB_RECORDSIZ) st) (\<lambda>_ st.
     rbind (on_table (kf_get kcn_buf_get64) st) (\<lambda>time st.
     rbind (on_table (kf_get kcn_buf_get64) st) (\<lambda>val st.
     rbind (on_table (kf_get kcn_buf_get64) st) (\<lambda>locidx st.
     rbind (on_table (kf_do (\<lambda>kb. do { h \<leftarrow> kcn_buf_headingdata kb; kcn_buf_trim_head kb h })) st) (\<lambda>_ st.
     Some (Inr (kdr\<lparr>kdr_time := time, kdr_val := val, kdr_locidx := locidx\<rparr>), st))))))"

definition kcndb_db_record_read_last ::
  "kcndb_db_record \<Rightarrow> db_st \<Rightarrow> (kcndb_db_record result \<times> db_st) option" where
  "kcndb_db_record_read_last kdr st =
     (if kcndb_db_table_size st < KCNDB_DB_RECORDSIZ
      then Some (Inr (kdr\<lparr>kdr_time := 0, kdr_val := 0, kdr_locidx := 0\<rparr>), st)
      else
        rbind (on_table (\<lambda>kf. kcndb_file_seek_head kf
                 (int (kcndb_db_table_size st - KCNDB_DB_RECORDSIZ))) st) (\<lambda>_ st.
        kcndb_db_record_read kdr st))"

definition kdr_uninit :: kcndb_db_record where
  "kdr_uninit = \<lparr>kdr_time = 0, kdr_val = 0, kdr_locidx = 0, kdr_loc = [], kdr_loclen = 0\<rparr>"

text \<open>The part of \<open>kcndb_db_record_add\<close> between the lock and the label \<open>out\<close>.\<close>

definition kcndb_db_record_add_locked ::
  "kcndb_db_record \<Rightarrow> db_st \<Rightarrow> (kcndb_db_record result \<times> db_st) option" where
  "kcndb_db_record_add_locked kdr st =
     rbind (kcndb_db_record_read_last kdr_uninit st) (\<lambda>kdr0 st.
     if sint (kdr_time kdr0) > sint (kdr_time kdr) then Some (Inl ERANGE, st)
     else
       rbind (kcndb_db_loc_add (kdr_loc kdr) (kdr_loclen kdr) st) (\<lambda>locidx st. do {
       kdr \<leftarrow> Some (kdr\<lparr>kdr_locidx := locidx\<rparr>);
       rbind (on_table (kf_do (\<lambda>kb. kcn_buf_put64 kb (kdr_time kdr))) st) (\<lambda>_ st.
       rbind (on_table (kf_do (\<lambda>kb. kcn_buf_put64 kb (kdr_val kdr))) st) (\<lambda>_ st.
       rbind (on_table (kf_do (\<lambda>kb. kcn_buf_put64 kb (kdr_locidx kdr))) st) (\<lambda>_ st.
       rbind (on_table kcndb_file_append st) (\<lambda>_ st.
       Some (Inr kdr, kcndb_db_table_size_increment KCNDB_DB_RECORDSIZ st)))))}))"

text \<open>
  \<open>with_table\<close> is \<open>kcndb_db_table_lookup\<close>, which does not check the type, together with the access
  to the element of the static array: an index outside the arrays is \<^const>\<open>None\<close>.
\<close>

definition with_table ::
  "c_enum \<Rightarrow> (db_st \<Rightarrow> ('r \<times> db_st) option) \<Rightarrow> kcndb_db_base list \<times> kcndb_db \<Rightarrow>
   ('r \<times> kcndb_db_base list \<times> kcndb_db) option" where
  "with_table type f s =
     (case s of (bases, kd) \<Rightarrow>
        let i = TYPE2INDEX type in do {
          c_assert (i < length kd \<and> i < length bases);
          (r, st) \<leftarrow> f (bases ! i, kd ! i);
          Some (r, bases[i := fst st], kd[i := snd st])
        })"

definition kcndb_db_record_add ::
  "c_enum \<Rightarrow> kcndb_db_record \<Rightarrow> kcndb_db_base list \<times> kcndb_db \<Rightarrow>
   (kcndb_db_record result \<times> kcndb_db_base list \<times> kcndb_db) option" where
  "kcndb_db_record_add type kdr =
     with_table type (\<lambda>st.
       rbind (kcndb_db_wrlock st) (\<lambda>_ st. do {
         (r, st) \<leftarrow> kcndb_db_record_add_locked kdr st;
         st \<leftarrow> kcndb_db_unlock st;
         Some (r, st)
       }))"

section \<open>Search\<close>

text \<open>The \<open>switch\<close> on the operator; its default case fails an assertion.\<close>

definition kcndb_db_op_match :: "kcn_eq \<Rightarrow> uint64 \<Rightarrow> bool option" where
  "kcndb_db_op_match ke v =
     (if ke_op ke = KCN_EQ_OP_LT then Some (\<not> v \<ge> ke_val ke)
      else if ke_op ke = KCN_EQ_OP_LE then Some (\<not> v > ke_val ke)
      else if ke_op ke = KCN_EQ_OP_EQ then Some (\<not> v \<noteq> ke_val ke)
      else if ke_op ke = KCN_EQ_OP_GT then Some (\<not> v \<le> ke_val ke)
      else if ke_op ke = KCN_EQ_OP_GE then Some (\<not> v < ke_val ke)
      else None)"

text \<open>The callback with its argument as a state: it may fail with an errno value.\<close>

type_synonym 'a search_cb = "kcndb_db_record \<Rightarrow> nat \<Rightarrow> 'a \<Rightarrow> (unit result \<times> 'a) option"

partial_function (option) kcndb_db_search_loop ::
  "'a search_cb \<Rightarrow> kcn_eq \<Rightarrow> nat \<Rightarrow> nat \<Rightarrow> db_st \<Rightarrow> 'a \<Rightarrow> (nat result \<times> db_st \<times> 'a) option" where
  "kcndb_db_search_loop cb ke maxnlocs n st arg =
     (if \<not> n < maxnlocs then Some (Inr n, st, arg)
      else
        case kcndb_db_record_read kdr_uninit st of
          None \<Rightarrow> None
        | Some (Inl e, st) \<Rightarrow>
            (if e = ESHUTDOWN then Some (Inr n, st, arg) else Some (Inl e, st, arg))
        | Some (Inr kdr, st) \<Rightarrow>
            (if \<not> kcn_eq_time_match (kdr_time kdr) ke
             then kcndb_db_search_loop cb ke maxnlocs n st arg
             else
               case kcndb_db_op_match ke (kdr_val kdr) of
                 None \<Rightarrow> None
               | Some matched \<Rightarrow>
                   if \<not> matched then kcndb_db_search_loop cb ke maxnlocs n st arg
                   else (case kcndb_db_loc_lookup (kdr_locidx kdr) st of
                      None \<Rightarrow> None
                    | Some (Inl e, st) \<Rightarrow> Some (Inl e, st, arg)
                    | Some (Inr (loc, loclen), st) \<Rightarrow>
                        (case cb (kdr\<lparr>kdr_loc := loc, kdr_loclen := loclen\<rparr>) 0 arg of
                           None \<Rightarrow> None
                         | Some (Inl e, arg) \<Rightarrow> Some (Inl e, st, arg)
                         | Some (Inr _, arg) \<Rightarrow>
                             kcndb_db_search_loop cb ke maxnlocs (n + 1) st arg))))"

text \<open>The part of \<open>kcndb_db_search\<close> after the lock; the failing exits release it.\<close>

definition kcndb_db_search_locked ::
  "'a search_cb \<Rightarrow> kcn_eq \<Rightarrow> nat \<Rightarrow> db_st \<Rightarrow> 'a \<Rightarrow> (unit result \<times> db_st \<times> 'a) option" where
  "kcndb_db_search_locked cb ke maxnlocs st arg =
     (case on_table (\<lambda>kf. kcndb_file_seek_head kf 0) st of
        None \<Rightarrow> None
      | Some (Inl e, st) \<Rightarrow> do { st \<leftarrow> kcndb_db_unlock st; Some (Inl e, st, arg) }
      | Some (Inr _, st) \<Rightarrow> do {
          (_, st) \<leftarrow> on_table (kf_do (\<lambda>kb. kcn_buf_reset kb 0)) st;
          (r, st, arg) \<leftarrow> kcndb_db_search_loop cb ke maxnlocs 0 st arg;
          (case r of
             Inl e \<Rightarrow> do { st \<leftarrow> kcndb_db_unlock st; Some (Inl e, st, arg) }
           | Inr n \<Rightarrow>
               (if n = 0 then do { st \<leftarrow> kcndb_db_unlock st; Some (Inl ESRCH, st, arg) }
                else Some (Inr (), st, arg)))
        })"

definition kcndb_db_search ::
  "'a search_cb \<Rightarrow> kcn_eq \<Rightarrow> nat \<Rightarrow> kcndb_db_base list \<times> kcndb_db \<Rightarrow> 'a \<Rightarrow>
   ((unit result \<times> 'a) \<times> kcndb_db_base list \<times> kcndb_db) option" where
  "kcndb_db_search cb ke maxnlocs s arg =
     with_table (ke_type ke) (\<lambda>st. do {
       (r, st) \<leftarrow> kcndb_db_rdlock st;
       (case r of
          Inl e \<Rightarrow> Some ((Inl e, arg), st)
        | Inr _ \<Rightarrow> do {
            (r, st, arg) \<leftarrow> kcndb_db_search_locked cb ke maxnlocs st arg;
            Some ((r, arg), st)
          })
     }) s"

section \<open>Opening\<close>

text \<open>
  What opening asks of its environment: whether the structures can be allocated, the allocator of
  the buffers, and \<open>open(2)\<close>.
\<close>

record kcndb_env =
  env_new :: bool
  env_malloc :: allocator
  env_open :: "string \<Rightarrow> ofd result"

abbreviation (input) MAXPATHLEN :: nat where "MAXPATHLEN \<equiv> 4096"
abbreviation (input) KCNDB_DB_PATH_LOC_SUFFIX :: string where "KCNDB_DB_PATH_LOC_SUFFIX \<equiv> ''-loc''"

definition snprintf_path :: "string \<Rightarrow> string" where
  "snprintf_path s = take (MAXPATHLEN - 1) s"

definition kcndb_db_table_new :: "c_enum \<Rightarrow> kcndb_file \<Rightarrow> kcndb_file \<Rightarrow> kcndb_db_table" where
  "kcndb_db_table_new type loc table = \<lparr>kdt_type = type, kdt_loc = loc, kdt_table = table\<rparr>"

definition kcndb_db_init :: "db_st \<Rightarrow> (unit result \<times> db_st) option" where
  "kcndb_db_init st =
     rbind
       (if kdb_locsize (fst st) = 0
        then rbind (on_loc (\<lambda>kf. Some (kcndb_file_size_get kf)) st) (\<lambda>n st.
               Some (Inr (), ((fst st)\<lparr>kdb_locsize := n\<rparr>, snd st)))
        else Some (Inr (), st)) (\<lambda>_ st.
     rbind
       (if kdb_tablesize (fst st) = 0
        then rbind (on_table (\<lambda>kf. Some (kcndb_file_size_get kf)) st) (\<lambda>n st.
               Some (Inr (), ((fst st)\<lparr>kdb_tablesize := n\<rparr>, snd st)))
        else Some (Inr (), st)) (\<lambda>_ st.
     kcndb_db_loc_init st))"

text \<open>A table structure is shown once both files are open; on failure the open one is closed again.\<close>

definition kcndb_db_table_open ::
  "kcndb_env \<Rightarrow> string \<Rightarrow> c_enum \<Rightarrow> kcndb_db_base list \<Rightarrow>
   (kcndb_db_table result \<times> kcndb_db_base list) option" where
  "kcndb_db_table_open env path type bases =
     (case kcn_eq_type_ntoa type of
        Inl e \<Rightarrow> Some (Inl e, bases)
      | Inr name \<Rightarrow>
          if \<not> env_new env then Some (Inl ENOMEM, bases)
          else
            rbind (map_option (\<lambda>r. (r, bases)) (kcndb_file_open (env_new env) (env_malloc env) (env_open env)
                     (snprintf_path (path @ ''/'' @ name @ KCNDB_DB_PATH_LOC_SUFFIX)))) (\<lambda>loc bases.
            rbind (map_option (\<lambda>r. (r, bases)) (kcndb_file_open (env_new env) (env_malloc env) (env_open env)
                     (snprintf_path (path @ ''/'' @ name)))) (\<lambda>table bases.
            let i = TYPE2INDEX type in do {
              c_assert (i < length bases);
              (r, st) \<leftarrow> kcndb_db_wrlock (bases ! i, kcndb_db_table_new type loc table);
              (case r of
                 Inl e \<Rightarrow> Some (Inl e, bases[i := fst st])
               | Inr _ \<Rightarrow> do {
                   (rc, st) \<leftarrow> kcndb_db_init st;
                   st \<leftarrow> kcndb_db_unlock st;
                   (case rc of
                      Inl e \<Rightarrow> Some (Inl e, bases[i := fst st])
                    | Inr _ \<Rightarrow> Some (Inr (snd st), bases[i := fst st]))
                 })
            })))"

text \<open>\<open>n\<close> types are left to open, from \<open>type\<close> on.  \<open>kcndb_db_destroy\<close> closes what was opened.\<close>

fun kcndb_db_new_tables ::
  "kcndb_env \<Rightarrow> string \<Rightarrow> nat \<Rightarrow> c_enum \<Rightarrow> kcndb_db_base list \<Rightarrow>
   (kcndb_db result \<times> kcndb_db_base list) option" where
  "kcndb_db_new_tables env path 0 type bases = Some (Inr [], bases)"
| "kcndb_db_new_tables env path (Suc n) type bases =
     rbind (kcndb_db_table_open env path type bases) (\<lambda>kdt bases.
     rbind (kcndb_db_new_tables env path n (type + 1) bases) (\<lambda>kdts bases.
     Some (Inr (kdt # kdts), bases)))"

definition kcndb_db_new ::
  "kcndb_env \<Rightarrow> string \<Rightarrow> kcndb_db_base list \<Rightarrow> (kcndb_db result \<times> kcndb_db_base list) option" where
  "kcndb_db_new env path bases =
     (if \<not> env_new env then Some (Inl ENOMEM, bases)
      else kcndb_db_new_tables env path 7 1 bases)"

end
