(* ===== verification/Kcndb_Db_Search.thy ===== *)
theory Kcndb_Db_Search
  imports Kcndb_Db
begin

text \<open>
  What \<open>kcndb_db_search\<close> returns: the abstract contents of the two files of a table (records, and
  locators at their indices), the reference that filters the records, and the refinement of the
  reference by the loop over the buffered file.  The callback's contract is the locale
  \<open>record_sink\<close>; the server interprets it.
\<close>

section \<open>The contents of the files\<close>

definition file_calm :: "kcndb_file \<Rightarrow> byte list \<Rightarrow> bool" where
  "file_calm kf D \<longleftrightarrow> kb_wf (kf_kb kf) \<and> kb_cap (kf_kb kf) = KCNDB_FILE_BUFSIZ \<and>
     fd_calm (kf_fd kf) \<and> fd_data (kf_fd kf) = D"

definition file_holds :: "kcndb_file \<Rightarrow> byte list \<Rightarrow> bool" where
  "file_holds kf D \<longleftrightarrow> file_calm kf D \<and> fd_complete (kf_fd kf)"

definition record_of :: "kcndb_db_record \<Rightarrow> byte list \<Rightarrow> kcndb_db_record" where
  "record_of kdr bs = kdr\<lparr>kdr_time := of_be64 (take 8 bs), kdr_val := of_be64 (take 8 (drop 8 bs)),
     kdr_locidx := of_be64 (take 8 (drop 16 bs))\<rparr>"

definition record_bytes :: "kcndb_db_record \<Rightarrow> byte list" where
  "record_bytes r = be64 (kdr_time r) @ be64 (kdr_val r) @ be64 (kdr_locidx r)"

fun parse_records :: "byte list \<Rightarrow> kcndb_db_record list" where
  "parse_records bs =
     (if length bs < 24 then [] else record_of kdr_uninit bs # parse_records (drop 24 bs))"

declare parse_records.simps [simp del]

definition loc_of :: "byte list \<Rightarrow> nat \<Rightarrow> byte list" where
  "loc_of L i = take (unat (of_be16 (take 2 (drop i L)))) (drop (i + 2) L)"

text \<open>A locator at an index, with its length before it and room for the link behind it.\<close>

definition node_at :: "byte list \<Rightarrow> nat \<Rightarrow> byte list \<Rightarrow> bool" where
  "node_at L i loc \<longleftrightarrow> i + 2 + length loc + 8 \<le> length L \<and> length loc \<le> 4075 \<and>
     take (2 + length loc) (drop i L) = be16 (of_nat (length loc)) @ loc"

definition record_valid :: "byte list \<Rightarrow> kcndb_db_record \<Rightarrow> bool" where
  "record_valid L r \<longleftrightarrow> 2048 \<le> unat (kdr_locidx r) \<and> node_at L (unat (kdr_locidx r)) (loc_of L (unat (kdr_locidx r)))"

definition with_loc :: "byte list \<Rightarrow> kcndb_db_record \<Rightarrow> kcndb_db_record" where
  "with_loc L r = r\<lparr>kdr_loc := loc_of L (unat (kdr_locidx r)),
     kdr_loclen := length (loc_of L (unat (kdr_locidx r)))\<rparr>"

section \<open>The reference\<close>

definition op_holds :: "c_enum \<Rightarrow> uint64 \<Rightarrow> uint64 \<Rightarrow> bool" where
  "op_holds opr a b \<longleftrightarrow>
     opr = 1 \<and> a < b \<or> opr = 2 \<and> a \<le> b \<or> opr = 3 \<and> a = b \<or> opr = 4 \<and> a > b \<or> opr = 5 \<and> a \<ge> b"

definition matching :: "kcn_eq \<Rightarrow> kcndb_db_record \<Rightarrow> bool" where
  "matching ke r \<longleftrightarrow>
     sint (ke_start ke) \<le> sint (kdr_time r) \<and>
     (ke_end ke = KCN_TIME_NOW \<or> sint (kdr_time r) \<le> sint (ke_end ke)) \<and>
     op_holds (ke_op ke) (kdr_val r) (ke_val ke)"

definition selection :: "kcn_eq \<Rightarrow> nat \<Rightarrow> byte list \<Rightarrow> kcndb_db_record list" where
  "selection ke n bs = take n (filter (matching ke) (parse_records bs))"

fun deliver ::
  "(kcndb_db_record \<Rightarrow> 'a \<Rightarrow> unit result \<times> 'a) \<Rightarrow> kcndb_db_record list \<Rightarrow> 'a \<Rightarrow> unit result \<times> 'a" where
  "deliver f [] arg = (Inr (), arg)"
| "deliver f (r # rs) arg =
     (case f r arg of (Inl e, arg) \<Rightarrow> (Inl e, arg) | (Inr _, arg) \<Rightarrow> deliver f rs arg)"

section \<open>Words and files\<close>

lemma sint_small: "unat (w :: uint64) < 2 ^ 63 \<Longrightarrow> sint w = int (unat w)"
proof -
  assume a: "unat w < 2 ^ 63"
  then have "int (unat w) < int (2 ^ 63)" by (simp only: of_nat_less_iff)
  then have "- (2 ^ 63) \<le> int (unat w)" "int (unat w) < 2 ^ 63"
    by (simp_all only: of_nat_power of_nat_numeral)
  then have "signed_take_bit 63 (int (unat w)) = int (unat w)" by (rule signed_take_bit_int_eq_self)
  moreover have "sint w = signed_take_bit 63 (int (unat w))" by (simp add: sint_uint)
  ultimately show "sint w = int (unat w)" by simp
qed

lemma unat_small16: "n \<le> 4075 \<Longrightarrow> unat (of_nat n :: uint16) = n"
  by (simp add: unat_of_nat)

lemma unat_small64: "n < 2 ^ 63 \<Longrightarrow> unat (of_nat n :: uint64) = n"
  by (simp add: unat_of_nat)

lemma file_calmE:
  assumes "file_calm kf D"
  obtains fd sz pre h t post where "kf = \<lparr>kf_fd = fd, kf_size = sz, kf_kb = zbuf pre h t post\<rparr>"
    "length pre + length h + length t + length post = 4096" "fd_calm fd" "fd_data fd = D"
proof -
  from assms have "kb_wf (kf_kb kf)" by (simp add: file_calm_def)
  then obtain pre h t post where "kf_kb kf = zbuf pre h t post" by (rule kb_wf_zbufE)
  with assms that [of "kf_fd kf" "kf_size kf" pre h t post] show thesis
    by (cases kf) (simp add: file_calm_def)
qed

lemma file_calm_zbuf [simp]:
  "file_calm \<lparr>kf_fd = fd, kf_size = sz, kf_kb = zbuf pre h t post\<rparr> D \<longleftrightarrow>
     length pre + length h + length t + length post = 4096 \<and> fd_calm fd \<and> fd_data fd = D"
  by (auto simp: file_calm_def)

lemma kb_rest_zbuf [zbuf_simps]: "kb_rest (zbuf pre h t post) = Some (t @ post)"
  by (simp add: kb_rest_def zbuf_def)

lemma fd_calm_off [simp]:
  "fd_calm (fd\<lparr>fd_off := i\<rparr>) = fd_calm fd" "fd_complete (fd\<lparr>fd_off := i\<rparr>) = fd_complete fd"
  "fd_avail (fd\<lparr>fd_off := i\<rparr>) = drop i (fd_data fd)"
  by (simp_all add: fd_calm_def fd_complete_def fd_avail_def)

lemma fd_complete_calm: "fd_complete fd \<Longrightarrow> fd_calm fd"
  by (simp add: fd_complete_def)

lemma on_loc_simps [simp]:
  "on_loc f (kdb, kdt) =
     (case f (kdt_loc kdt) of None \<Rightarrow> None | Some (r, kf) \<Rightarrow> Some (r, (kdb, kdt\<lparr>kdt_loc := kf\<rparr>)))"
  by (simp add: on_loc_def split: option.split)

lemma on_table_simps [simp]:
  "on_table f (kdb, kdt) =
     (case f (kdt_table kdt) of None \<Rightarrow> None | Some (r, kf) \<Rightarrow> Some (r, (kdb, kdt\<lparr>kdt_table := kf\<rparr>)))"
  by (simp add: on_table_def split: option.split)

lemma kf_do_zbuf [simp]:
  "kf_do f \<lparr>kf_fd = fd, kf_size = sz, kf_kb = kb\<rparr> =
     map_option (\<lambda>kb. (Inr (), \<lparr>kf_fd = fd, kf_size = sz, kf_kb = kb\<rparr>)) (f kb)"
  by (cases "f kb") (simp_all add: kf_do_def kcndb_file_buf_def)

lemma kf_get_zbuf [simp]:
  "kf_get f \<lparr>kf_fd = fd, kf_size = sz, kf_kb = kb\<rparr> =
     map_option (\<lambda>(v, kb). (Inr v, \<lparr>kf_fd = fd, kf_size = sz, kf_kb = kb\<rparr>)) (f kb)"
  by (cases "f kb") (auto simp: kf_get_def kcndb_file_buf_def)

section \<open>Reading a locator\<close>

lemma node_at_split:
  assumes "node_at L i loc"
  obtains rest where "drop i L = be16 (of_nat (length loc)) @ loc @ rest" "8 \<le> length rest"
proof -
  have "drop i L = take (2 + length loc) (drop i L) @ drop (2 + length loc) (drop i L)"
    by (rule append_take_drop_id [symmetric])
  moreover from assms have "8 \<le> length (drop (2 + length loc) (drop i L))"
    unfolding node_at_def length_drop by linarith
  ultimately show thesis
    using assms that [of "drop (2 + length loc) (drop i L)"] unfolding node_at_def by simp
qed

lemma node_at_loc_of:
  assumes "node_at L i loc" shows "loc_of L i = loc"
proof -
  from assms obtain rest where d: "drop i L = be16 (of_nat (length loc)) @ loc @ rest"
    by (rule node_at_split)
  have "drop (i + 2) L = drop 2 (drop i L)" by (simp only: drop_drop add.commute)
  also have "\<dots> = loc @ rest" by (simp add: d)
  finally have "drop (i + 2) L = loc @ rest" .
  moreover from d have "take 2 (drop i L) = be16 (of_nat (length loc))" by simp
  ultimately show ?thesis using assms by (simp add: loc_of_def node_at_def unat_small16)
qed

text \<open>After a seek to a node the whole node is in the buffer, from its first byte on.\<close>

lemma ensure_node:
  assumes "fd_complete fd" "length post = 4096" "node_at (fd_data fd) i loc"
  shows "\<exists>fd' post' rest. kcndb_file_ensure
      \<lparr>kf_fd = fd\<lparr>fd_off := i\<rparr>, kf_size = sz, kf_kb = zbuf [] [] [] post\<rparr> 2 =
      Some (Inr (), \<lparr>kf_fd = fd', kf_size = sz,
        kf_kb = zbuf [] [] (be16 (of_nat (length loc)) @ loc @ rest) post'\<rparr>) \<and>
      8 \<le> length rest \<and> 2 + length loc + length rest + length post' = 4096 \<and>
      take 8 rest = take 8 (drop (i + 2 + length loc) (fd_data fd)) \<and>
      fd_data fd' = fd_data fd \<and> fd_complete fd'"
proof -
  let ?fd = "fd\<lparr>fd_off := i\<rparr>"
  from assms(3) obtain rest where d: "drop i (fd_data fd) = be16 (of_nat (length loc)) @ loc @ rest"
    and r: "8 \<le> length rest" by (rule node_at_split)
  from arg_cong [OF d, of length] have ld: "length (drop i (fd_data fd)) = 2 + length loc + length rest"
    by simp
  from assms(3) have l: "length loc \<le> 4075" by (simp add: node_at_def)
  from ensure_fresh [of ?fd 2 post sz] assms d obtain fd' post' where e:
    "kcndb_file_ensure \<lparr>kf_fd = ?fd, kf_size = sz, kf_kb = zbuf [] [] [] post\<rparr> 2 =
      Some (Inr (), \<lparr>kf_fd = fd', kf_size = sz,
        kf_kb = zbuf [] [] (take 4096 (drop i (fd_data fd))) post'\<rparr>)"
    "min 4096 (length (drop i (fd_data fd))) + length post' = 4096"
    "fd_data fd' = fd_data fd" "fd_complete fd'" by auto
  let ?rest = "take (4094 - length loc) rest"
  have "take 4096 (drop i (fd_data fd)) = be16 (of_nat (length loc)) @ loc @ ?rest"
    using l by (simp add: d)
  moreover have "2 + length loc + length ?rest + length post' = 4096" using e(2) l ld by auto
  moreover have "8 \<le> length ?rest" using r l by simp
  moreover have "take 8 ?rest = take 8 (drop (i + 2 + length loc) (fd_data fd))"
  proof -
    have "drop (i + 2 + length loc) (fd_data fd) = drop (2 + length loc) (drop i (fd_data fd))"
      by (simp add: add_ac)
    also have "\<dots> = rest" by (simp add: d)
    finally show ?thesis using l by simp
  qed
  ultimately show ?thesis using e by (intro exI [of _ fd'] exI [of _ post'] exI [of _ ?rest]) simp
qed

lemma loc_lookup_node:
  assumes "file_holds (kdt_loc kdt) L" "node_at L (unat idx) loc"
    "kdb_locsize kdb = length L" "length L < 2 ^ 63"
  shows "\<exists>kf rest. kcndb_db_loc_lookup idx (kdb, kdt) =
      Some (Inr (loc @ rest, length loc), (kdb, kdt\<lparr>kdt_loc := kf\<rparr>)) \<and> file_holds kf L"
proof -
  from assms(1) have "file_calm (kdt_loc kdt) L" by (simp add: file_holds_def)
  then obtain fd sz pre h t post where kf:
    "kdt_loc kdt = \<lparr>kf_fd = fd, kf_size = sz, kf_kb = zbuf pre h t post\<rparr>"
    "length pre + length h + length t + length post = 4096" "fd_data fd = L" by (rule file_calmE)
  from assms(1) kf have c: "fd_complete fd" by (simp add: file_holds_def)
  from assms(2) have b: "unat idx < length L" "length loc \<le> 4075" by (simp_all add: node_at_def)
  with assms have "\<not> of_nat (kdb_locsize kdb) < idx" "sint idx = int (unat idx)"
    by (simp_all add: word_less_nat_alt unat_small64 sint_small)
  moreover from ensure_node [of fd "pre @ h @ t @ post" "unat idx" loc sz] c kf assms(2)
  obtain fd' post' rest where e: "kcndb_file_ensure
      \<lparr>kf_fd = fd\<lparr>fd_off := unat idx\<rparr>, kf_size = sz, kf_kb = zbuf [] [] [] (pre @ h @ t @ post)\<rparr> 2 =
      Some (Inr (), \<lparr>kf_fd = fd', kf_size = sz,
        kf_kb = zbuf [] [] (be16 (of_nat (length loc)) @ loc @ rest) post'\<rparr>)"
    "2 + length loc + length rest + length post' = 4096" "fd_data fd' = fd_data fd" "fd_complete fd'"
    by auto
  ultimately show ?thesis
    using kf b
    by (auto simp: kcndb_db_loc_lookup_def kcndb_db_loc_size_def zbuf_simps unat_small16
        file_holds_def fd_complete_calm intro!: exI [of _ "rest @ post'"])
qed

section \<open>Reading records\<close>

text \<open>A file that is being read: what is left is the buffered data and what follows the offset.\<close>

definition reading :: "kcndb_file \<Rightarrow> byte list \<Rightarrow> byte list \<Rightarrow> bool" where
  "reading kf D R \<longleftrightarrow> file_calm kf D \<and> kb_heading (kf_kb kf) = [] \<and>
     kb_trailing (kf_kb kf) @ fd_avail (kf_fd kf) = R"

lemma readingE:
  assumes "reading kf D R"
  obtains fd sz pre t post where "kf = \<lparr>kf_fd = fd, kf_size = sz, kf_kb = zbuf pre [] t post\<rparr>"
    "length pre + length t + length post = 4096" "fd_calm fd" "fd_data fd = D" "t @ fd_avail fd = R"
proof -
  from assms have "file_calm kf D" by (simp add: reading_def)
  then obtain fd sz pre h t post where kf: "kf = \<lparr>kf_fd = fd, kf_size = sz, kf_kb = zbuf pre h t post\<rparr>"
    "length pre + length h + length t + length post = 4096" "fd_calm fd" "fd_data fd = D"
    by (rule file_calmE)
  with assms that [of fd sz pre t post] show thesis by (simp add: reading_def)
qed

lemma reading_zbuf [simp]:
  "reading \<lparr>kf_fd = fd, kf_size = sz, kf_kb = zbuf pre [] t post\<rparr> D R \<longleftrightarrow>
     length pre + length t + length post = 4096 \<and> fd_calm fd \<and> fd_data fd = D \<and> t @ fd_avail fd = R"
  by (auto simp: reading_def)

lemma get_record:
  assumes "24 \<le> length t"
  shows "\<exists>a b c d. take 8 t = a \<and> take 8 (drop 8 t) = b \<and> take 8 (drop 16 t) = c \<and> drop 24 t = d \<and>
    length a = 8 \<and> length b = 8 \<and> length c = 8 \<and> t = a @ b @ c @ d"
proof -
  have "t = take 8 t @ take 8 (drop 8 t) @ take 8 (drop 8 (drop 8 t)) @ drop 8 (drop 8 (drop 8 t))"
    by (simp only: append_take_drop_id)
  with assms show ?thesis by simp
qed

lemma record_read_ok:
  assumes "reading (kdt_table kdt) D R"
  shows "\<exists>kf. (if length R < 24
      then kcndb_db_record_read kdr (kdb, kdt) = Some (Inl ESHUTDOWN, (kdb, kdt\<lparr>kdt_table := kf\<rparr>)) \<and>
           reading kf D R
      else kcndb_db_record_read kdr (kdb, kdt) = Some (Inr (record_of kdr R), (kdb, kdt\<lparr>kdt_table := kf\<rparr>)) \<and>
           reading kf D (drop 24 R))"
proof -
  from assms obtain fd sz pre t post where kf:
    "kdt_table kdt = \<lparr>kf_fd = fd, kf_size = sz, kf_kb = zbuf pre [] t post\<rparr>"
    "length pre + length t + length post = 4096" "fd_calm fd" "fd_data fd = D" "t @ fd_avail fd = R"
    by (rule readingE)
  from kf(5) have lR: "length R = length t + length (fd_avail fd)" by (metis length_append)
  from ensure_ok [of 24 pre "[]" t post fd sz] kf(2) obtain r bs fd' pre' post' where e:
    "kcndb_file_ensure \<lparr>kf_fd = fd, kf_size = sz, kf_kb = zbuf pre [] t post\<rparr> 24 =
      Some (r, \<lparr>kf_fd = fd', kf_size = sz, kf_kb = zbuf pre' [] (t @ bs) post'\<rparr>)"
    "length pre' + length bs + length post' = length pre + length post"
    "fd_avail fd = bs @ fd_avail fd'" "fd_data fd' = fd_data fd"
    "r = Inr () \<longrightarrow> 24 \<le> length t + length bs"
    "fd_calm fd'" "if 24 \<le> length R then r = Inr () else r = Inl ESHUTDOWN"
    using kf(3) lR by (force split: if_splits)
  from e(3) kf(5) have R: "(t @ bs) @ fd_avail fd' = R" by simp
  have len: "length pre' + length (t @ bs) + length post' = 4096" using e(2) kf(2) by simp
  show ?thesis
  proof (cases "length R < 24")
    case True
    with e kf len R show ?thesis
      by (intro exI [of _ "\<lparr>kf_fd = fd', kf_size = sz, kf_kb = zbuf pre' [] (t @ bs) post'\<rparr>"])
        (simp add: kcndb_db_record_read_def)
  next
    case False
    with e have "24 \<le> length (t @ bs)" by simp
    from get_record [OF this] obtain a b c d where t: "t @ bs = a @ b @ c @ d" "length a = 8"
      "length b = 8" "length c = 8" by blast
    with R have R': "R = a @ b @ c @ d @ fd_avail fd'" by simp
    from len [unfolded t] have len': "length pre' + (length d + length post') = 4072"
      by (simp add: t)
    let ?kf = "\<lparr>kf_fd = fd', kf_size = sz, kf_kb = zbuf (pre' @ a @ b @ c) [] d post'\<rparr>"
    have "kcndb_db_record_read kdr (kdb, kdt) = Some (Inr (record_of kdr R), (kdb, kdt\<lparr>kdt_table := ?kf\<rparr>))"
      using False e(1,7) kf(1) t
      by (simp add: kcndb_db_record_read_def zbuf_simps record_of_def R')
    with False e(4,6) kf(4) t len' show ?thesis
      by (intro exI [of _ ?kf]) (simp add: R')
  qed
qed

section \<open>The loop\<close>

lemma op_match: "1 \<le> ke_op ke \<Longrightarrow> ke_op ke \<le> 5 \<Longrightarrow>
   kcndb_db_op_match ke v = Some (op_holds (ke_op ke) v (ke_val ke))"
proof -
  assume "1 \<le> ke_op ke" "ke_op ke \<le> 5"
  then have "unat (ke_op ke) \<in> {1, 2, 3, 4, 5}" by (auto simp: word_le_nat_alt)
  moreover have "ke_op ke = of_nat k" if "unat (ke_op ke) = k" for k using that by auto
  ultimately have "ke_op ke = 1 \<or> ke_op ke = 2 \<or> ke_op ke = 3 \<or> ke_op ke = 4 \<or> ke_op ke = 5"
    by fastforce
  then show ?thesis
    by (elim disjE) (simp_all add: kcndb_db_op_match_def op_holds_def not_le not_less)
qed

text \<open>An operator outside the enumeration fails the assertion at the first record in the time range.\<close>

lemma op_match_invalid: "ke_op ke \<notin> {1, 2, 3, 4, 5} \<Longrightarrow> kcndb_db_op_match ke v = None"
  by (simp add: kcndb_db_op_match_def)

lemma matching_iff:
  "1 \<le> ke_op ke \<Longrightarrow> ke_op ke \<le> 5 \<Longrightarrow>
   matching ke r \<longleftrightarrow> kcn_eq_time_match (kdr_time r) ke \<and> kcndb_db_op_match ke (kdr_val r) = Some True"
  by (auto simp: matching_def time_match_iff op_match)

text \<open>
  The invariant of a table: \<open>D\<close> is a sequence of whole records whose locators are in \<open>L\<close>, the
  shared sizes are those of the files, and no system call on the table fails (on the locator file,
  none is partial either).
\<close>

definition table_ok :: "kcndb_db_base \<Rightarrow> kcndb_db_table \<Rightarrow> byte list \<Rightarrow> byte list \<Rightarrow> bool" where
  "table_ok kdb kdt D L \<longleftrightarrow>
     file_calm (kdt_table kdt) D \<and> file_holds (kdt_loc kdt) L \<and>
     kdb_tablesize kdb = length D \<and> kdb_locsize kdb = length L \<and>
     length D < 2 ^ 63 \<and> length L < 2 ^ 63 \<and> 2048 \<le> length L \<and> 24 dvd length D \<and>
     (\<forall>r \<in> set (parse_records D). record_valid L r)"

definition lock_free :: "rwlock \<Rightarrow> bool" where
  "lock_free l \<longleftrightarrow> \<not> rw_writer l \<and> rw_errs l = []"

definition lock_reader :: "rwlock \<Rightarrow> rwlock" where
  "lock_reader l = l\<lparr>rw_readers := rw_readers l + 1\<rparr>"

text \<open>How the selection of the records of \<open>R\<close> starts.\<close>

lemma selection_none: "length R < 24 \<Longrightarrow> selection ke n R = []"
  by (subst selection_def, subst parse_records.simps) simp

lemma selection_full [simp]: "selection ke 0 R = []"
  by (simp add: selection_def)

lemma parse_records_whole: "\<not> length R < 24 \<Longrightarrow>
   parse_records R = record_of kdr_uninit R # parse_records (drop 24 R)"
  by (subst parse_records.simps) simp

lemma selection_skip: "\<not> length R < 24 \<Longrightarrow> \<not> matching ke (record_of kdr_uninit R) \<Longrightarrow>
   selection ke n R = selection ke n (drop 24 R)"
  by (simp add: selection_def parse_records_whole)

lemma selection_hit: "\<not> length R < 24 \<Longrightarrow> matching ke (record_of kdr_uninit R) \<Longrightarrow> n < maxn \<Longrightarrow>
   selection ke (maxn - n) R = record_of kdr_uninit R # selection ke (maxn - (n + 1)) (drop 24 R)"
  by (simp add: selection_def parse_records_whole take_Cons' Suc_diff_Suc)

text \<open>
  The contract of the callback: on records whose locator it may read, \<open>kdr_loclen\<close> bytes of it and
  no more, it behaves as \<open>f\<close> and keeps its state in \<open>ok\<close>.
\<close>

locale record_sink =
  fixes cb :: "'a search_cb"
    and f :: "kcndb_db_record \<Rightarrow> 'a \<Rightarrow> unit result \<times> 'a"
    and ok :: "'a \<Rightarrow> bool"
  assumes cb_ok: "ok arg \<Longrightarrow> length loc \<le> 4075 \<Longrightarrow>
      cb (kdr\<lparr>kdr_loc := loc @ rest, kdr_loclen := length loc\<rparr>) 0 arg =
        Some (f (kdr\<lparr>kdr_loc := loc, kdr_loclen := length loc\<rparr>) arg)"
    and ok_step: "ok arg \<Longrightarrow> length loc \<le> 4075 \<Longrightarrow>
      ok (snd (f (kdr\<lparr>kdr_loc := loc, kdr_loclen := length loc\<rparr>) arg))"
begin

text \<open>One round on a record that matches: its locator is loaded and the callback is called on it.\<close>

lemma search_hit:
  assumes "kcndb_db_record_read kdr_uninit (kdb, kdt) = Some (Inr kdr, (kdb, kdt\<lparr>kdt_table := kf\<rparr>))"
    "file_holds (kdt_loc kdt) L" "kdb_locsize kdb = length L" "length L < 2 ^ 63"
    "1 \<le> ke_op ke" "ke_op ke \<le> 5" "matching ke kdr" "record_valid L kdr" "ok arg" "n < maxn"
  shows "\<exists>kl. file_holds kl L \<and> ok (snd (f (with_loc L kdr) arg)) \<and>
    kcndb_db_search_loop cb ke maxn n (kdb, kdt) arg =
      (case f (with_loc L kdr) arg of
         (Inl e, arg) \<Rightarrow> Some (Inl e, (kdb, kdt\<lparr>kdt_table := kf, kdt_loc := kl\<rparr>), arg)
       | (Inr _, arg) \<Rightarrow> kcndb_db_search_loop cb ke maxn (n + 1) (kdb, kdt\<lparr>kdt_table := kf, kdt_loc := kl\<rparr>) arg)"
proof -
  let ?l = "loc_of L (unat (kdr_locidx kdr))"
  from assms(8) have nd: "node_at L (unat (kdr_locidx kdr)) ?l" by (simp add: record_valid_def)
  then have ll: "length ?l \<le> 4075" by (simp add: node_at_def)
  from loc_lookup_node [of "kdt\<lparr>kdt_table := kf\<rparr>" L "kdr_locidx kdr" ?l kdb] nd assms(2-4) obtain kl rest where
    lk: "kcndb_db_loc_lookup (kdr_locidx kdr) (kdb, kdt\<lparr>kdt_table := kf\<rparr>) =
      Some (Inr (?l @ rest, length ?l), (kdb, kdt\<lparr>kdt_table := kf, kdt_loc := kl\<rparr>))" "file_holds kl L" by auto
  from cb_ok [OF assms(9) ll, where kdr = kdr and rest = rest]
  have cb: "cb (kdr\<lparr>kdr_loc := ?l @ rest, kdr_loclen := length ?l\<rparr>) 0 arg = Some (f (with_loc L kdr) arg)"
    by (simp add: with_loc_def)
  from ok_step [OF assms(9) ll, where kdr = kdr] have "ok (snd (f (with_loc L kdr) arg))" by (simp add: with_loc_def)
  moreover note m = matching_iff [OF assms(5,6), of kdr] op_match [OF assms(5,6), of "kdr_val kdr"]
  have "kcndb_db_search_loop cb ke maxn n (kdb, kdt) arg =
      (case f (with_loc L kdr) arg of
         (Inl e, arg) \<Rightarrow> Some (Inl e, (kdb, kdt\<lparr>kdt_table := kf, kdt_loc := kl\<rparr>), arg)
       | (Inr _, arg) \<Rightarrow> kcndb_db_search_loop cb ke maxn (n + 1) (kdb, kdt\<lparr>kdt_table := kf, kdt_loc := kl\<rparr>) arg)"
    using assms(1,7,10) m lk(1) cb by (subst kcndb_db_search_loop.simps) (auto split: sum.split prod.split)
  ultimately show ?thesis using lk(2) by blast
qed

text \<open>The loop delivers the matching records in the order of the file, at most \<open>maxnlocs\<close> of them.\<close>

lemma search_loop:
  assumes "reading (kdt_table kdt) D R" "file_holds (kdt_loc kdt) L"
    "kdb_locsize kdb = length L" "length L < 2 ^ 63" "1 \<le> ke_op ke" "ke_op ke \<le> 5"
    "\<forall>r \<in> set (parse_records R). matching ke r \<longrightarrow> record_valid L r" "ok arg" "n \<le> maxn"
  shows "\<exists>loc table. kcndb_db_search_loop cb ke maxn n (kdb, kdt) arg =
      Some (map_sum id (\<lambda>_. n + length (selection ke (maxn - n) R))
              (fst (deliver f (map (with_loc L) (selection ke (maxn - n) R)) arg)),
            (kdb, kdt\<lparr>kdt_loc := loc, kdt_table := table\<rparr>),
            snd (deliver f (map (with_loc L) (selection ke (maxn - n) R)) arg)) \<and>
    file_holds loc L \<and> file_calm table D \<and> kb_heading (kf_kb table) = [] \<and>
    ok (snd (deliver f (map (with_loc L) (selection ke (maxn - n) R)) arg)) \<and>
    (\<not> isl (fst (deliver f (map (with_loc L) (selection ke (maxn - n) R)) arg)) \<and>
       length (selection ke (maxn - n) R) < maxn - n \<longrightarrow>
     reading table D (drop (24 * (length R div 24)) R))"
  using assms
proof (induction "length R" arbitrary: R kdt n arg rule: less_induct)
  case less
  have dkf: "file_calm kf D \<and> kb_heading (kf_kb kf) = []" if "reading kf D R'" for kf R'
    using that by (simp add: reading_def)
  from record_read_ok [OF less.prems(1), of kdr_uninit kdb] obtain kf where rr:
    "if length R < 24
     then kcndb_db_record_read kdr_uninit (kdb, kdt) =
            Some (Inl ESHUTDOWN, (kdb, kdt\<lparr>kdt_table := kf\<rparr>)) \<and> reading kf D R
     else kcndb_db_record_read kdr_uninit (kdb, kdt) =
            Some (Inr (record_of kdr_uninit R), (kdb, kdt\<lparr>kdt_table := kf\<rparr>)) \<and>
          reading kf D (drop 24 R)" by blast
  consider "\<not> n < maxn" | "n < maxn" "length R < 24" | "n < maxn" "\<not> length R < 24" by blast
  then show ?case
  proof cases
    case 1
    with less.prems dkf show ?thesis
      by (subst kcndb_db_search_loop.simps)
        (rule exI [of _ "kdt_loc kdt"], rule exI [of _ "kdt_table kdt"], auto)
  next
    case 2
    with selection_none [OF 2(2), of ke] rr less.prems dkf show ?thesis
      by (subst kcndb_db_search_loop.simps)
        (rule exI [of _ "kdt_loc kdt"], rule exI [of _ kf], auto)
  next
    case 3
    let ?r = "record_of kdr_uninit R"
    from rr 3 have rd: "kcndb_db_record_read kdr_uninit (kdb, kdt) =
        Some (Inr ?r, (kdb, kdt\<lparr>kdt_table := kf\<rparr>))"
      and kf: "reading kf D (drop 24 R)" by simp_all
    note pr = parse_records_whole [OF 3(2)]
    from 3 have dec: "length (drop 24 R) < length R" by simp
    have dr: "drop (24 * ((length R - 24) div 24) + 24) R = drop (24 * (length R div 24)) R"
      using 3 by (simp add: le_div_geq add.commute)
    show ?thesis
    proof (cases "matching ke ?r")
      case False
      note m = matching_iff [OF less.prems(5,6), of ?r] op_match [OF less.prems(5,6), of "kdr_val ?r"]
      have "kcndb_db_search_loop cb ke maxn n (kdb, kdt) arg =
          kcndb_db_search_loop cb ke maxn n (kdb, kdt\<lparr>kdt_table := kf\<rparr>) arg"
        using 3 rd False m by (subst kcndb_db_search_loop.simps) auto
      with less.hyps [OF dec, of "kdt\<lparr>kdt_table := kf\<rparr>" arg n] kf less.prems show ?thesis
        by (simp add: selection_skip [OF 3(2) False] pr dr)
    next
      case True
      note sel = selection_hit [OF 3(2) True 3(1)]
      from less.prems(7) pr True have "record_valid L ?r" by simp
      from search_hit [OF rd less.prems(2-6) True this less.prems(8) 3(1)] obtain kl r' arg' where
        hit: "file_holds kl L" "f (with_loc L ?r) arg = (r', arg')" "ok arg'"
          "kcndb_db_search_loop cb ke maxn n (kdb, kdt) arg = (case r' of
             Inl e \<Rightarrow> Some (Inl e, (kdb, kdt\<lparr>kdt_table := kf, kdt_loc := kl\<rparr>), arg')
           | Inr _ \<Rightarrow> kcndb_db_search_loop cb ke maxn (n + 1) (kdb, kdt\<lparr>kdt_table := kf, kdt_loc := kl\<rparr>) arg')"
        by (cases "f (with_loc L ?r) arg") auto
      show ?thesis
      proof (cases r')
        case (Inl e)
        with hit sel kf dkf show ?thesis by - (rule exI [of _ kl], rule exI [of _ kf], auto)
      next
        case (Inr u)
        from less.hyps [OF dec, of "kdt\<lparr>kdt_table := kf, kdt_loc := kl\<rparr>" arg' "n + 1"] kf hit(1,3) less.prems 3(1) pr
        obtain loc table where ih:
          "kcndb_db_search_loop cb ke maxn (n + 1) (kdb, kdt\<lparr>kdt_table := kf, kdt_loc := kl\<rparr>) arg' =
            Some (map_sum id (\<lambda>_. n + 1 + length (selection ke (maxn - (n + 1)) (drop 24 R)))
              (fst (deliver f (map (with_loc L) (selection ke (maxn - (n + 1)) (drop 24 R))) arg')),
              (kdb, kdt\<lparr>kdt_loc := loc, kdt_table := table\<rparr>),
              snd (deliver f (map (with_loc L) (selection ke (maxn - (n + 1)) (drop 24 R))) arg'))"
          "file_holds loc L" "file_calm table D" "kb_heading (kf_kb table) = []"
          "ok (snd (deliver f (map (with_loc L) (selection ke (maxn - (n + 1)) (drop 24 R))) arg'))"
          "\<not> isl (fst (deliver f (map (with_loc L) (selection ke (maxn - (n + 1)) (drop 24 R))) arg')) \<and>
            length (selection ke (maxn - (n + 1)) (drop 24 R)) < maxn - (n + 1) \<longrightarrow>
            reading table D (drop (24 * (length (drop 24 R) div 24)) (drop 24 R))"
          by auto
        with Inr hit sel dr show ?thesis
          by - (rule exI [of _ loc], rule exI [of _ table], simp, linarith)
      qed
    qed
  qed
qed

text \<open>
  \<open>kcndb_db_search\<close> delivers the first \<open>maxn\<close> matching records.  It fails with the callback's error,
  or with \<open>ESRCH\<close> when there is no match; only these exits release the read lock.
\<close>

lemma search_ok:
  fixes ke :: kcn_eq
  defines "i \<equiv> TYPE2INDEX (ke_type ke)"
  assumes i: "i < length bases" "i < length kd"
    and t: "table_ok (bases ! i) (kd ! i) D L" and l: "lock_free (kdb_lock (bases ! i))"
    and o: "1 \<le> ke_op ke" "ke_op ke \<le> 5" and ok: "ok arg"
  shows "\<exists>kdt. kcndb_db_search cb ke maxn (bases, kd) arg =
      Some (case deliver f (map (with_loc L) (selection ke maxn D)) arg of
              (Inl e, arg') \<Rightarrow> ((Inl e, arg'), bases, kd[i := kdt])
            | (Inr _, arg') \<Rightarrow>
                if selection ke maxn D = [] then ((Inl ESRCH, arg'), bases, kd[i := kdt])
                else ((Inr (), arg'),
                      bases[i := (bases ! i)\<lparr>kdb_lock := lock_reader (kdb_lock (bases ! i))\<rparr>], kd[i := kdt])) \<and>
    table_ok (bases ! i) kdt D L \<and>
    ok (snd (deliver f (map (with_loc L) (selection ke maxn D)) arg)) \<and>
    (\<not> isl (fst (deliver f (map (with_loc L) (selection ke maxn D)) arg)) \<and>
       length (selection ke maxn D) < maxn \<longrightarrow> kb_data (kf_kb (kdt_table kdt)) = [])"
proof -
  let ?kdb = "bases ! i" and ?kdt = "kd ! i"
  let ?kdb' = "?kdb\<lparr>kdb_lock := lock_reader (kdb_lock ?kdb)\<rparr>"
  note tk = t [unfolded table_ok_def]
  from tk have "file_calm (kdt_table ?kdt) D" by blast
  then obtain fd sz pre h tr post where kf:
    "kdt_table ?kdt = \<lparr>kf_fd = fd, kf_size = sz, kf_kb = zbuf pre h tr post\<rparr>"
    "length pre + length h + length tr + length post = 4096" "fd_calm fd" "fd_data fd = D"
    by (rule file_calmE)
  let ?kf = "\<lparr>kf_fd = fd\<lparr>fd_off := 0\<rparr>, kf_size = sz, kf_kb = zbuf [] [] [] (pre @ h @ tr @ post)\<rparr>"
  have rd: "reading ?kf D D" using kf by simp
  have "\<exists>loc table. kcndb_db_search_loop cb ke maxn 0 (?kdb', ?kdt\<lparr>kdt_table := ?kf\<rparr>) arg =
      Some (map_sum id (\<lambda>_. 0 + length (selection ke (maxn - 0) D))
              (fst (deliver f (map (with_loc L) (selection ke (maxn - 0) D)) arg)),
            (?kdb', ?kdt\<lparr>kdt_table := ?kf, kdt_loc := loc, kdt_table := table\<rparr>),
            snd (deliver f (map (with_loc L) (selection ke (maxn - 0) D)) arg)) \<and>
    file_holds loc L \<and> file_calm table D \<and> kb_heading (kf_kb table) = [] \<and>
    ok (snd (deliver f (map (with_loc L) (selection ke (maxn - 0) D)) arg)) \<and>
    (\<not> isl (fst (deliver f (map (with_loc L) (selection ke (maxn - 0) D)) arg)) \<and>
       length (selection ke (maxn - 0) D) < maxn - 0 \<longrightarrow>
     reading table D (drop (24 * (length D div 24)) D))"
    using tk rd o ok by (intro search_loop) simp_all
  then obtain loc table where lp:
    "kcndb_db_search_loop cb ke maxn 0 (?kdb', ?kdt\<lparr>kdt_table := ?kf\<rparr>) arg =
      Some (map_sum id (\<lambda>_. length (selection ke maxn D))
              (fst (deliver f (map (with_loc L) (selection ke maxn D)) arg)),
            (?kdb', ?kdt\<lparr>kdt_loc := loc, kdt_table := table\<rparr>),
            snd (deliver f (map (with_loc L) (selection ke maxn D)) arg))"
    "file_holds loc L" "file_calm table D" "kb_heading (kf_kb table) = []"
    "ok (snd (deliver f (map (with_loc L) (selection ke maxn D)) arg))"
    "\<not> isl (fst (deliver f (map (with_loc L) (selection ke maxn D)) arg)) \<and>
       length (selection ke maxn D) < maxn \<longrightarrow> reading table D (drop (24 * (length D div 24)) D)"
    by auto
  let ?kdt' = "?kdt\<lparr>kdt_loc := loc, kdt_table := table\<rparr>"
  have tk': "table_ok ?kdb ?kdt' D L" using tk lp by (simp add: table_ok_def)
  from tk have "24 * (length D div 24) = length D" by auto
  with lp have e: "\<not> isl (fst (deliver f (map (with_loc L) (selection ke maxn D)) arg)) \<and>
       length (selection ke maxn D) < maxn \<longrightarrow> kb_data (kf_kb table) = []"
    by (auto simp: reading_def file_calm_def kb_wf_data)
  have rl: "kcndb_db_rdlock (?kdb, ?kdt) = Some (Inr (), (?kdb', ?kdt))"
    using l by (simp add: kcndb_db_rdlock_def pthread_rwlock_rdlock_def lock_free_def lock_reader_def)
  have ul: "kcndb_db_unlock (?kdb', k) = Some (?kdb, k)" for k
    using l by (simp add: kcndb_db_unlock_def pthread_rwlock_unlock_def lock_free_def lock_reader_def)
  have "kcndb_db_search_locked cb ke maxn (?kdb', ?kdt) arg =
      Some (case deliver f (map (with_loc L) (selection ke maxn D)) arg of
              (Inl e, arg') \<Rightarrow> (Inl e, (?kdb, ?kdt'), arg')
            | (Inr _, arg') \<Rightarrow> if selection ke maxn D = [] then (Inl ESRCH, (?kdb, ?kdt'), arg')
                else (Inr (), (?kdb', ?kdt'), arg'))"
    using lp(1) by (auto simp: kcndb_db_search_locked_def kf zbuf_simps ul split: prod.split sum.split)
  with rl i have "kcndb_db_search cb ke maxn (bases, kd) arg =
      Some (case deliver f (map (with_loc L) (selection ke maxn D)) arg of
              (Inl e, arg') \<Rightarrow> ((Inl e, arg'), bases, kd[i := ?kdt'])
            | (Inr _, arg') \<Rightarrow>
                if selection ke maxn D = [] then ((Inl ESRCH, arg'), bases, kd[i := ?kdt'])
                else ((Inr (), arg'), bases[i := ?kdb'], kd[i := ?kdt']))"
    by (auto simp: kcndb_db_search_def with_table_def Let_def i_def [symmetric] split: prod.split sum.split)
  with tk' lp(5) e show ?thesis by (intro exI [of _ ?kdt']) simp
qed

end

end
