(* ===== verification/Kcndb_Db_Add.thy ===== *)
theory Kcndb_Db_Add
  imports Kcndb_Db_Search
begin

text \<open>
  What \<open>kcndb_db_record_add\<close> does to the two files of a table: the walk along a hash chain, the new
  locator, the new record, the order of the records by time, and the lock.
\<close>

section \<open>Hash chains\<close>

definition link_at :: "byte list \<Rightarrow> nat \<Rightarrow> uint64" where
  "link_at L i = of_be64 (take 8 (drop i L))"

text \<open>
  \<open>chain_hit L loc link idx\<close>: the chain that starts with \<open>link\<close> has \<open>loc\<close> at \<open>idx\<close>.
  \<open>chain_miss L loc n link m\<close>: it ends without \<open>loc\<close>, and the number of bytes the buffer has in front
  of the link is \<open>n\<close> at its start and \<open>m\<close> at its end.
\<close>

inductive chain_hit :: "byte list \<Rightarrow> byte list \<Rightarrow> uint64 \<Rightarrow> uint64 \<Rightarrow> bool"
  for L :: "byte list" and loc :: "byte list" where
  hit_here: "i \<noteq> 0 \<Longrightarrow> node_at L (unat i) loc \<Longrightarrow> chain_hit L loc i i"
| hit_next: "i \<noteq> 0 \<Longrightarrow> node_at L (unat i) loc' \<Longrightarrow> loc' \<noteq> loc \<Longrightarrow>
    chain_hit L loc (link_at L (unat i + 2 + length loc')) idx \<Longrightarrow> chain_hit L loc i idx"

inductive chain_miss :: "byte list \<Rightarrow> byte list \<Rightarrow> nat \<Rightarrow> uint64 \<Rightarrow> nat \<Rightarrow> bool"
  for L :: "byte list" and loc :: "byte list" where
  miss_end: "chain_miss L loc n 0 n"
| miss_next: "i \<noteq> 0 \<Longrightarrow> node_at L (unat i) loc' \<Longrightarrow> loc' \<noteq> loc \<Longrightarrow>
    chain_miss L loc (2 + length loc') (link_at L (unat i + 2 + length loc')) m \<Longrightarrow>
    chain_miss L loc n i m"

inductive_cases chain_miss_zeroE: "chain_miss L loc n 0 m"
inductive_simps chain_hit_zero: "chain_hit L loc 0 idx"

text \<open>The state of the walk: the next eight bytes are the link.\<close>

definition at_link :: "kcndb_file \<Rightarrow> byte list \<Rightarrow> nat \<Rightarrow> uint64 \<Rightarrow> bool" where
  "at_link kf L n link \<longleftrightarrow> file_holds kf L \<and> length (kb_heading (kf_kb kf)) = n \<and>
     8 \<le> length (kb_trailing (kf_kb kf)) \<and> of_be64 (take 8 (kb_trailing (kf_kb kf))) = link"

lemma at_linkE:
  assumes "at_link kf L n link"
  obtains fd sz pre h t post where "kf = \<lparr>kf_fd = fd, kf_size = sz, kf_kb = zbuf pre h t post\<rparr>"
    "length pre + length h + length t + length post = 4096" "fd_complete fd" "fd_data fd = L"
    "length h = n" "8 \<le> length t" "of_be64 (take 8 t) = link"
proof -
  from assms have "file_calm kf L" by (simp add: at_link_def file_holds_def)
  then obtain fd sz pre h t post where "kf = \<lparr>kf_fd = fd, kf_size = sz, kf_kb = zbuf pre h t post\<rparr>"
    "length pre + length h + length t + length post = 4096" "fd_data fd = L" by (rule file_calmE)
  with assms that show thesis by (simp add: at_link_def file_holds_def)
qed

lemma walk_end:
  assumes "at_link kf L n 0"
  shows "\<exists>kf'. kcndb_db_loc_walk loc loclen kf = Some (Inr 0, kf') \<and> file_holds kf' L \<and>
    kcn_buf_headingdata (kf_kb kf') = Some (n + 8)"
proof -
  from assms obtain fd sz pre h t post where kf:
    "kf = \<lparr>kf_fd = fd, kf_size = sz, kf_kb = zbuf pre h t post\<rparr>"
    "length pre + length h + length t + length post = 4096" "fd_complete fd" "fd_data fd = L"
    "length h = n" "8 \<le> length t" "of_be64 (take 8 t) = 0" by (rule at_linkE)
  let ?kf = "\<lparr>kf_fd = fd, kf_size = sz, kf_kb = zbuf pre (h @ take 8 t) (drop 8 t) post\<rparr>"
  from kf show ?thesis
    by (subst kcndb_db_loc_walk.simps)
      (auto simp: zbuf_simps file_holds_def fd_complete_calm intro!: exI [of _ ?kf])
qed

text \<open>One round of the loop: it stops at the node if it is the locator, and goes on at its link.\<close>

lemma walk_node:
  assumes "at_link kf L n i" "i \<noteq> 0" "node_at L (unat i) loc'" "length L < 2 ^ 63" "0 \<notin> set loc"
  shows "\<exists>kf'. if loc' = loc then kcndb_db_loc_walk loc (length loc) kf = Some (Inr i, kf') \<and> file_holds kf' L
    else kcndb_db_loc_walk loc (length loc) kf = kcndb_db_loc_walk loc (length loc) kf' \<and>
      at_link kf' L (2 + length loc') (link_at L (unat i + 2 + length loc'))"
proof -
  from assms(1) obtain fd sz pre h t post where kf:
    "kf = \<lparr>kf_fd = fd, kf_size = sz, kf_kb = zbuf pre h t post\<rparr>"
    "length pre + length h + length t + length post = 4096" "fd_complete fd" "fd_data fd = L"
    "length h = n" "8 \<le> length t" "of_be64 (take 8 t) = i" by (rule at_linkE)
  from assms(3) have b: "unat i < length L" "length loc' \<le> 4075" by (simp_all add: node_at_def)
  with assms(4) have si: "sint i = int (unat i)" by (simp add: sint_small)
  let ?post = "pre @ h @ take 8 t @ drop 8 t @ post"
  from kf assms(3) have "length ?post = 4096" "node_at (fd_data fd) (unat i) loc'" by simp_all
  from ensure_node [OF kf(3) this, of sz] obtain fd' post' rest where e: "kcndb_file_ensure
      \<lparr>kf_fd = fd\<lparr>fd_off := unat i\<rparr>, kf_size = sz, kf_kb = zbuf [] [] [] ?post\<rparr> 2 =
      Some (Inr (), \<lparr>kf_fd = fd', kf_size = sz,
        kf_kb = zbuf [] [] (be16 (of_nat (length loc')) @ loc' @ rest) post'\<rparr>)"
    "8 \<le> length rest" "2 + length loc' + length rest + length post' = 4096"
    "take 8 rest = take 8 (drop (unat i + 2 + length loc') L)"
    "fd_data fd' = fd_data fd" "fd_complete fd'" using kf(4) by blast
  let ?b = "be16 (of_nat (length loc'))"
  let ?stop = "\<lparr>kf_fd = fd', kf_size = sz, kf_kb = zbuf [] ?b (loc' @ rest) post'\<rparr>"
  let ?next = "\<lparr>kf_fd = fd', kf_size = sz, kf_kb = zbuf [] (?b @ loc') rest post'\<rparr>"
  have eq: "loc_equal ?stop loc (length loc) (length loc') = Some (loc' = loc)"
  proof (cases "length loc = length loc'")
    case True
    with assms(5) strncmp_bytes_eq_iff [of "length loc" "loc' @ rest @ post'" loc] show ?thesis
      by (auto simp: loc_equal_def kcndb_file_buf_def zbuf_simps)
  next
    case False
    then show ?thesis by (auto simp: loc_equal_def)
  qed
  have "kcndb_db_loc_walk loc (length loc) kf =
      (if loc' = loc then Some (Inr i, ?stop) else kcndb_db_loc_walk loc (length loc) ?next)"
    using kf assms(2) si e(1,2) b eq
    by (subst kcndb_db_loc_walk.simps) (simp add: zbuf_simps unat_small16)
  moreover have "file_holds ?stop L" "at_link ?next L (2 + length loc') (link_at L (unat i + 2 + length loc'))"
    using e kf(4) by (simp_all add: file_holds_def at_link_def fd_complete_calm link_at_def)
  ultimately show ?thesis by (cases "loc' = loc") auto
qed

lemma walk_hit:
  assumes "chain_hit L loc link idx" "length L < 2 ^ 63" "0 \<notin> set loc" "at_link kf L n link"
  shows "\<exists>kf'. kcndb_db_loc_walk loc (length loc) kf = Some (Inr idx, kf') \<and> file_holds kf' L"
  using assms
proof (induction arbitrary: kf n)
  case (hit_here i)
  from walk_node [OF hit_here.prems(3) hit_here.hyps hit_here.prems(1,2)] show ?case by simp
next
  case (hit_next i loc' idx)
  from walk_node [OF hit_next.prems(3) hit_next.hyps(1,2) hit_next.prems(1,2)] hit_next.hyps(3)
  obtain kf' where "kcndb_db_loc_walk loc (length loc) kf = kcndb_db_loc_walk loc (length loc) kf'"
    "at_link kf' L (2 + length loc') (link_at L (unat i + 2 + length loc'))" by auto
  with hit_next.IH [OF hit_next.prems(1,2)] show ?case by simp
qed

lemma walk_miss:
  assumes "chain_miss L loc n link m" "length L < 2 ^ 63" "0 \<notin> set loc" "at_link kf L n link"
  shows "\<exists>kf'. kcndb_db_loc_walk loc (length loc) kf = Some (Inr 0, kf') \<and> file_holds kf' L \<and>
    kcn_buf_headingdata (kf_kb kf') = Some (m + 8)"
  using assms
proof (induction arbitrary: kf)
  case (miss_end n)
  from walk_end [OF miss_end.prems(3)] show ?case .
next
  case (miss_next i loc' m n)
  from walk_node [OF miss_next.prems(3) miss_next.hyps(1,2) miss_next.prems(1,2)] miss_next.hyps(3)
  obtain kf' where "kcndb_db_loc_walk loc (length loc) kf = kcndb_db_loc_walk loc (length loc) kf'"
    "at_link kf' L (2 + length loc') (link_at L (unat i + 2 + length loc'))" by auto
  with miss_next.IH [OF miss_next.prems(1,2)] show ?case by simp
qed

lemma chain_hit_idx: "chain_hit L loc link idx \<Longrightarrow> idx \<noteq> 0 \<and> node_at L (unat idx) loc"
  by (induction rule: chain_hit.induct) simp_all

text \<open>The end of a chain is where it began, or behind one of its nodes: never beyond the buffer.\<close>

lemma chain_miss_bound: "chain_miss L loc n link m \<Longrightarrow> m = n \<or> m \<le> 4077"
  by (induction rule: chain_miss.induct) (auto simp: node_at_def)

section \<open>Adding a locator\<close>

definition bucket :: "byte list \<Rightarrow> nat" where
  "bucket loc = 8 * kcn_str_hash loc 256"

definition node_bytes :: "byte list \<Rightarrow> byte list" where
  "node_bytes loc = be16 (of_nat (length loc)) @ loc @ be64 0"

lemma length_node_bytes [simp]: "length (node_bytes loc) = 10 + length loc"
  by (simp add: node_bytes_def)

lemma bucket_bound: "bucket loc + 8 \<le> 2048"
  using kcn_str_hash_less [of 256 loc] by (simp add: bucket_def)

text \<open>The first part of \<open>kcndb_db_loc_add\<close> leaves the walk at the link of the locator's bucket.\<close>

lemma loc_add_start:
  assumes "file_holds kf L" "2048 \<le> length L"
  shows "\<exists>fd sz pre h t post.
    kf = \<lparr>kf_fd = fd, kf_size = sz, kf_kb = zbuf pre h t post\<rparr> \<and>
    (\<exists>fd' post' buf. kcndb_file_ensure
        \<lparr>kf_fd = fd\<lparr>fd_off := 0\<rparr>, kf_size = sz, kf_kb = zbuf [] [] [] (pre @ h @ t @ post)\<rparr> 8 =
        Some (Inr (), \<lparr>kf_fd = fd', kf_size = sz, kf_kb = zbuf [] [] buf post'\<rparr>) \<and>
      bucket loc \<le> length buf \<and>
      at_link \<lparr>kf_fd = fd', kf_size = sz,
        kf_kb = zbuf [] (take (bucket loc) buf) (drop (bucket loc) buf) post'\<rparr>
        L (bucket loc) (link_at L (bucket loc)))"
proof -
  from assms(1) have "file_calm kf L" by (simp add: file_holds_def)
  then obtain fd sz pre h t post where kf: "kf = \<lparr>kf_fd = fd, kf_size = sz, kf_kb = zbuf pre h t post\<rparr>"
    "length pre + length h + length t + length post = 4096" "fd_data fd = L" by (rule file_calmE)
  from assms(1) kf have c: "fd_complete fd" by (simp add: file_holds_def)
  let ?buf = "take 4096 L" and ?b = "bucket loc"
  define P where "P = pre @ h @ t @ post"
  have P: "length P = 4096" using kf(2) by (simp add: P_def)
  from ensure_fresh [of "fd\<lparr>fd_off := 0\<rparr>" 8 P sz] P kf c assms(2) obtain fd' post' where e:
    "kcndb_file_ensure \<lparr>kf_fd = fd\<lparr>fd_off := 0\<rparr>, kf_size = sz, kf_kb = zbuf [] [] [] P\<rparr> 8 =
      Some (Inr (), \<lparr>kf_fd = fd', kf_size = sz, kf_kb = zbuf [] [] ?buf post'\<rparr>)"
    "min 4096 (length L) + length post' = 4096" "fd_data fd' = L" "fd_complete fd'" by auto
  from bucket_bound [of loc] assms(2) have b: "?b + 8 \<le> length ?buf" by simp
  have "take 8 (drop ?b ?buf) = take 8 (drop ?b L)"
    using bucket_bound [of loc] by (simp add: drop_take min_def)
  then have "at_link \<lparr>kf_fd = fd', kf_size = sz, kf_kb = zbuf [] (take ?b ?buf) (drop ?b ?buf) post'\<rparr>
      L ?b (link_at L ?b)"
    using e b by (auto simp: at_link_def file_holds_def fd_complete_calm link_at_def)
  moreover have "?b \<le> length ?buf" using b by simp
  ultimately show ?thesis using kf(1) e(1) unfolding P_def by blast
qed

lemma loc_add_hit:
  assumes "file_holds (kdt_loc kdt) L" "2048 \<le> length L" "length L < 2 ^ 63" "0 \<notin> set loc"
    "chain_hit L loc (link_at L (bucket loc)) idx"
  shows "\<exists>kf. kcndb_db_loc_add loc (length loc) (kdb, kdt) = Some (Inr idx, (kdb, kdt\<lparr>kdt_loc := kf\<rparr>)) \<and>
    file_holds kf L"
proof -
  from loc_add_start [OF assms(1,2), of loc] obtain fd sz pre h t post fd' post' buf where st:
    "kdt_loc kdt = \<lparr>kf_fd = fd, kf_size = sz, kf_kb = zbuf pre h t post\<rparr>"
    "kcndb_file_ensure \<lparr>kf_fd = fd\<lparr>fd_off := 0\<rparr>, kf_size = sz, kf_kb = zbuf [] [] [] (pre @ h @ t @ post)\<rparr> 8 =
        Some (Inr (), \<lparr>kf_fd = fd', kf_size = sz, kf_kb = zbuf [] [] buf post'\<rparr>)"
    "bucket loc \<le> length buf"
    "at_link \<lparr>kf_fd = fd', kf_size = sz, kf_kb = zbuf [] (take (bucket loc) buf) (drop (bucket loc) buf) post'\<rparr>
      L (bucket loc) (link_at L (bucket loc))" by blast
  from walk_hit [OF assms(5,3,4) st(4)] obtain kf' where
    "kcndb_db_loc_walk loc (length loc)
      \<lparr>kf_fd = fd', kf_size = sz, kf_kb = zbuf [] (take (bucket loc) buf) (drop (bucket loc) buf) post'\<rparr> =
      Some (Inr idx, kf')" "file_holds kf' L" by blast
  with st chain_hit_idx [OF assms(5)] show ?thesis
    by (auto simp: kcndb_db_loc_add_def zbuf_simps bucket_def intro!: exI [of _ kf'])
qed

text \<open>
  A locator that is not in its chain is appended to the file, and the index of the new node is then
  written at offset \<open>m\<close>: the bucket itself when the chain was empty, but the offset the last link
  has \<^emph>\<open>within its node\<close> when it was not.
\<close>

lemma loc_add_miss:
  assumes "file_holds (kdt_loc kdt) L" "2048 \<le> length L" "length L < 2 ^ 63" "0 \<notin> set loc"
    "length loc \<le> 4075" "kdb_locsize kdb = length L"
    "chain_miss L loc (bucket loc) (link_at L (bucket loc)) m"
  shows "\<exists>kf. kcndb_db_loc_add loc (length loc) (kdb, kdt) =
      Some (Inr (of_nat (length L)),
        (kdb\<lparr>kdb_locsize := length L + (10 + length loc)\<rparr>, kdt\<lparr>kdt_loc := kf\<rparr>)) \<and>
    file_holds kf (file_write m (be64 (of_nat (length L))) (L @ node_bytes loc))"
proof -
  from loc_add_start [OF assms(1,2), of loc] obtain fd sz pre h t post fd' post' buf where st:
    "kdt_loc kdt = \<lparr>kf_fd = fd, kf_size = sz, kf_kb = zbuf pre h t post\<rparr>"
    "kcndb_file_ensure \<lparr>kf_fd = fd\<lparr>fd_off := 0\<rparr>, kf_size = sz, kf_kb = zbuf [] [] [] (pre @ h @ t @ post)\<rparr> 8 =
        Some (Inr (), \<lparr>kf_fd = fd', kf_size = sz, kf_kb = zbuf [] [] buf post'\<rparr>)"
    "bucket loc \<le> length buf"
    "at_link \<lparr>kf_fd = fd', kf_size = sz, kf_kb = zbuf [] (take (bucket loc) buf) (drop (bucket loc) buf) post'\<rparr>
      L (bucket loc) (link_at L (bucket loc))" by blast
  from walk_miss [OF assms(7,3,4) st(4)] obtain kf1 where w:
    "kcndb_db_loc_walk loc (length loc)
      \<lparr>kf_fd = fd', kf_size = sz, kf_kb = zbuf [] (take (bucket loc) buf) (drop (bucket loc) buf) post'\<rparr> =
      Some (Inr 0, kf1)" "file_holds kf1 L" "kcn_buf_headingdata (kf_kb kf1) = Some (m + 8)" by blast
  from w(2) have "file_calm kf1 L" by (simp add: file_holds_def)
  then obtain fd1 sz1 pre1 h1 t1 post1 where kf1:
    "kf1 = \<lparr>kf_fd = fd1, kf_size = sz1, kf_kb = zbuf pre1 h1 t1 post1\<rparr>"
    "length pre1 + length h1 + length t1 + length post1 = 4096" "fd_calm fd1" "fd_data fd1 = L"
    by (rule file_calmE)
  from w(2) kf1 have c1: "fd_complete fd1" by (simp add: file_holds_def)
  from chain_miss_bound [OF assms(7)] bucket_bound [of loc] have m: "m \<le> 4077" by auto
  have sm: "sint (of_nat m :: uint64) = int m"
    using m by (simp add: sint_small unat_of_nat)
  have mw: "of_nat (m + 8) - 8 = (of_nat m :: uint64)" by simp
  define Q where "Q = pre1 @ h1 @ t1 @ post1"
  define Q2 where "Q2 = drop 2 Q"
  define Q3 where "Q3 = drop (length loc) Q2"
  define P where "P = drop 8 Q3"
  have Q: "length Q = 4096" using kf1(2) by (simp add: Q_def)
  then have P: "length Q2 = 4094" "length Q3 = 4094 - length loc" "10 + length loc + length P = 4096"
    using assms(5) by (simp_all add: P_def Q2_def Q3_def)
  obtain fd2 post2 where a:
    "kcndb_file_append \<lparr>kf_fd = fd1, kf_size = sz1, kf_kb = zbuf [] (node_bytes loc) [] P\<rparr> =
      Some (Inr (), \<lparr>kf_fd = fd2, kf_size = sz1 + (10 + length loc), kf_kb = zbuf [] [] [] post2\<rparr>)"
    "length post2 = 4096" "fd_data fd2 = L @ node_bytes loc" "fd_complete fd2" "fd_calm fd2"
    using append_calm [OF kf1(3), of sz1 "[]" "node_bytes loc" "[]" P] kf1(4) c1 P by auto
  let ?idx = "of_nat (length L) :: uint64"
  obtain fd3 post3 where b:
    "kcndb_file_write \<lparr>kf_fd = fd2\<lparr>fd_off := m\<rparr>, kf_size = sz1 + (10 + length loc),
        kf_kb = zbuf [] (be64 ?idx) [] (drop 8 post2)\<rparr> =
      Some (Inr (), \<lparr>kf_fd = fd3, kf_size = sz1 + (10 + length loc), kf_kb = zbuf [] [] [] post3\<rparr>)"
    "length post3 = 4096" "fd_data fd3 = file_write m (be64 ?idx) (L @ node_bytes loc)"
    "fd_complete fd3"
    using write_calm [of "fd2\<lparr>fd_off := m\<rparr>" "sz1 + (10 + length loc)" "[]" "be64 ?idx" "[]" "drop 8 post2"] a
    by auto
  let ?kf = "\<lparr>kf_fd = fd3, kf_size = sz1 + (10 + length loc), kf_kb = zbuf [] [] [] post3\<rparr>"
  have r: "kcn_buf_reset (zbuf pre h t post) 0 = Some (zbuf [] [] [] (pre @ h @ t @ post))"
    "kcn_buf_forward (zbuf [] [] buf post') (bucket loc) =
      Some (zbuf [] (take (bucket loc) buf) (drop (bucket loc) buf) post')"
    using st(3) by (simp_all add: zbuf_simps)
  have q: "kcn_buf_reset (zbuf pre1 h1 t1 post1) 0 = Some (zbuf [] [] [] Q)"
    "kcn_buf_put16 (zbuf [] [] [] Q) (of_nat (length loc)) =
      Some (zbuf [] (be16 (of_nat (length loc))) [] Q2)"
    "kcn_buf_put (zbuf [] (be16 (of_nat (length loc))) [] Q2) loc =
      Some (zbuf [] (be16 (of_nat (length loc)) @ loc) [] Q3)"
    "kcn_buf_put64 (zbuf [] (be16 (of_nat (length loc)) @ loc) [] Q3) 0 =
      Some (zbuf [] (node_bytes loc) [] P)"
    "kcn_buf_len (zbuf [] (node_bytes loc) [] P) = Some (10 + length loc)"
    "kcn_buf_put64 (zbuf [] [] [] post2) ?idx = Some (zbuf [] (be64 ?idx) [] (drop 8 post2))"
    using Q P assms(5) a(2)
    by (simp_all add: zbuf_simps node_bytes_def Q_def [symmetric] P_def [symmetric]
        Q2_def [symmetric] Q3_def [symmetric])
  have hd: "kcn_buf_headingdata (zbuf pre1 h1 t1 post1) = Some (m + 8)" using w(3) kf1(1) by simp
  have "kcndb_db_loc_add loc (length loc) (kdb, kdt) =
      Some (Inr ?idx, (kdb\<lparr>kdb_locsize := length L + (10 + length loc)\<rparr>, kdt\<lparr>kdt_loc := ?kf\<rparr>))"
    using assms(6) m
    by (simp add: kcndb_db_loc_add_def bucket_def [symmetric] kf1(1) kcndb_db_loc_size_def st(1,2)
        kcndb_db_loc_size_increment_def r q w(1) [unfolded kf1(1)] hd a(1) b(1) sm)
  moreover have "file_holds ?kf (file_write m (be64 ?idx) (L @ node_bytes loc))"
    using b by (simp add: file_holds_def fd_complete_calm)
  ultimately show ?thesis by blast
qed

section \<open>The contents of the files after an addition\<close>

definition loc_added :: "byte list \<Rightarrow> byte list \<Rightarrow> byte list" where
  "loc_added L loc = file_write (bucket loc) (be64 (of_nat (length L))) (L @ node_bytes loc)"

lemma loc_added_eq:
  assumes "2048 \<le> length L"
  shows "loc_added L loc = take (bucket loc) L @ be64 (of_nat (length L)) @ drop (bucket loc + 8) L @ node_bytes loc"
  using bucket_bound [of loc] assms
  by (simp add: loc_added_def file_write_inside list_write_def)

lemma length_loc_added: "2048 \<le> length L \<Longrightarrow> length (loc_added L loc) = length L + (10 + length loc)"
  using bucket_bound [of loc] by (simp add: loc_added_eq)

lemma drop_loc_added:
  assumes "2048 \<le> length L" "bucket loc + 8 \<le> i"
  shows "drop i (loc_added L loc) = drop i (L @ node_bytes loc)"
  using bucket_bound [of loc] assms by (simp add: loc_added_eq)

text \<open>Nodes stay where they are, and the new one is at the old end of the file.\<close>

lemma node_at_loc_added:
  assumes "2048 \<le> length L" "2048 \<le> i" "node_at L i loc'"
  shows "node_at (loc_added L loc) i loc'"
proof -
  from assms(3) have "i + 2 + length loc' \<le> length L" by (simp add: node_at_def)
  then have "take (2 + length loc') (drop i (L @ node_bytes loc)) = take (2 + length loc') (drop i L)"
    by simp
  with assms bucket_bound [of loc] show ?thesis
    by (simp add: node_at_def drop_loc_added length_loc_added)
qed

lemma node_at_new:
  assumes "2048 \<le> length L" "length loc \<le> 4075"
  shows "node_at (loc_added L loc) (length L) loc"
proof -
  have "drop (length L) (loc_added L loc) = node_bytes loc"
    using assms bucket_bound [of loc] by (simp add: drop_loc_added)
  with assms show ?thesis by (simp add: node_at_def length_loc_added) (simp add: node_bytes_def)
qed

lemma link_at_loc_added:
  "2048 \<le> length L \<Longrightarrow> link_at (loc_added L loc) (bucket loc) = of_nat (length L)"
  using bucket_bound [of loc] by (simp add: link_at_def loc_added_eq)

lemma record_valid_loc_added:
  assumes "2048 \<le> length L" "record_valid L r"
  shows "record_valid (loc_added L loc) r" "with_loc (loc_added L loc) r = with_loc L r"
proof -
  let ?i = "unat (kdr_locidx r)"
  from assms have "2048 \<le> ?i" "node_at L ?i (loc_of L ?i)" by (simp_all add: record_valid_def)
  with assms(1) have n: "node_at (loc_added L loc) ?i (loc_of L ?i)" by (simp add: node_at_loc_added)
  from node_at_loc_of [OF n] have "loc_of (loc_added L loc) ?i = loc_of L ?i" .
  with n \<open>2048 \<le> ?i\<close> show "record_valid (loc_added L loc) r" "with_loc (loc_added L loc) r = with_loc L r"
    by (simp_all add: record_valid_def with_loc_def)
qed

lemma length_record_bytes [simp]: "length (record_bytes r) = 24"
  by (simp add: record_bytes_def)

lemma record_of_bytes: "record_of kdr (record_bytes r @ bs) =
   kdr\<lparr>kdr_time := kdr_time r, kdr_val := kdr_val r, kdr_locidx := kdr_locidx r\<rparr>"
  by (simp add: record_of_def record_bytes_def)

lemma record_of_append: "24 \<le> length bs \<Longrightarrow> record_of kdr (bs @ bs') = record_of kdr bs"
  by (simp add: record_of_def)

text \<open>The new record is the last one.\<close>

lemma parse_records_append:
  "24 dvd length D \<Longrightarrow> parse_records (D @ record_bytes r) = parse_records D @
     [kdr_uninit\<lparr>kdr_time := kdr_time r, kdr_val := kdr_val r, kdr_locidx := kdr_locidx r\<rparr>]"
proof (induction D rule: parse_records.induct)
  case (1 D)
  show ?case
  proof (cases "length D < 24")
    case True
    with 1 have "D = []" using nat_dvd_not_less by fastforce
    then show ?thesis
      using record_of_bytes [of kdr_uninit r "[]"] by (simp add: parse_records.simps)
  next
    case False
    with 1 have "24 dvd length (drop 24 D)" by (simp add: dvd_diff_nat)
    with False 1 show ?thesis
      by (simp add: parse_records.simps [of D] parse_records.simps [of "D @ record_bytes r"] record_of_append)
  qed
qed

definition last_record :: "byte list \<Rightarrow> kcndb_db_record" where
  "last_record D = (if D = [] then kdr_uninit else record_of kdr_uninit (drop (length D - 24) D))"

lemma last_record_parse:
  "24 dvd length D \<Longrightarrow> D \<noteq> [] \<Longrightarrow> parse_records D \<noteq> [] \<and> last_record D = last (parse_records D)"
proof (induction D rule: parse_records.induct)
  case (1 D)
  then have ge: "24 \<le> length D" by (auto dest: dvd_imp_le)
  then have p: "parse_records D = record_of kdr_uninit D # parse_records (drop 24 D)"
    by (subst parse_records.simps) simp
  show ?case
  proof (cases "length D = 24")
    case True
    then have "parse_records (drop 24 D) = []" by (subst parse_records.simps) simp
    with p True 1 show ?thesis by (auto simp: last_record_def)
  next
    case False
    with 1 ge have "24 dvd length (drop 24 D)" "drop 24 D \<noteq> []" by (auto simp: dvd_diff_nat)
    with 1 ge p show ?thesis by (auto simp: last_record_def dest: dvd_imp_le)
  qed
qed

section \<open>Adding a record\<close>

lemma read_last_ok:
  assumes "file_calm (kdt_table kdt) D" "24 dvd length D" "kdb_tablesize kdb = length D"
    "kb_data (kf_kb (kdt_table kdt)) = []"
    "kcn_buf_trailingspace (kf_kb (kdt_table kdt)) = Some n" "24 \<le> n"
  shows "\<exists>fd sz pre post. kcndb_db_record_read_last kdr_uninit (kdb, kdt) =
      Some (Inr (last_record D), (kdb, kdt\<lparr>kdt_table := \<lparr>kf_fd = fd, kf_size = sz, kf_kb = zbuf pre [] [] post\<rparr>\<rparr>)) \<and>
    length pre + length post = 4096 \<and> fd_calm fd \<and> fd_data fd = D \<and>
    length post = (if D = [] then n else n - 24)"
proof -
  from assms(1) obtain fd sz pre h t post where kf:
    "kdt_table kdt = \<lparr>kf_fd = fd, kf_size = sz, kf_kb = zbuf pre h t post\<rparr>"
    "length pre + length h + length t + length post = 4096" "fd_calm fd" "fd_data fd = D"
    by (rule file_calmE)
  from kf assms(4,5) have e: "h = []" "t = []" "length post = n" by (simp_all add: zbuf_len)
  show ?thesis
  proof (cases "D = []")
    case True
    with kf e assms(3) have "kcndb_db_record_read_last kdr_uninit (kdb, kdt) =
      Some (Inr (last_record D), (kdb, kdt\<lparr>kdt_table := \<lparr>kf_fd = fd, kf_size = sz, kf_kb = zbuf pre [] [] post\<rparr>\<rparr>))"
      by (simp add: kcndb_db_record_read_last_def kcndb_db_table_size_def last_record_def kdr_uninit_def)
    with True kf e show ?thesis by auto
  next
    case False
    with assms(2) have ge: "24 \<le> length D" by (auto dest: dvd_imp_le)
    let ?fd = "fd\<lparr>fd_off := length D - 24\<rparr>"
    have av: "fd_avail ?fd = drop (length D - 24) D" "length (fd_avail ?fd) = 24" using kf ge by simp_all
    from ensure_ok [of 24 pre "[]" "[]" post ?fd sz] e assms(6) obtain r bs fd' pre' post' where en:
      "kcndb_file_ensure \<lparr>kf_fd = ?fd, kf_size = sz, kf_kb = zbuf pre [] [] post\<rparr> 24 =
        Some (r, \<lparr>kf_fd = fd', kf_size = sz, kf_kb = zbuf pre' [] bs post'\<rparr>)"
      "length pre' + length bs + length post' = length pre + length post"
      "fd_avail ?fd = bs @ fd_avail fd'" "fd_data fd' = fd_data ?fd"
      "r = Inr () \<longrightarrow> 24 \<le> length bs" "pre' = pre" "fd_calm fd'" "r = Inr ()"
      using kf(3) av(2) by auto
    from arg_cong [OF en(3), of length] av(2) have "length bs + length (fd_avail fd') = 24" by simp
    moreover from en(5,8) have "24 \<le> length bs" by simp
    ultimately have "length bs = 24" "length (fd_avail fd') = 0" by linarith+
    then have bs: "length bs = 24" "fd_avail fd' = []" by simp_all
    with en(3) av(1) have bsD: "bs = drop (length D - 24) D" by simp
    from get_record [of bs] bs obtain a b c where t: "bs = a @ b @ c" "length a = 8" "length b = 8"
      "length c = 8" by fastforce
    have "\<not> kcndb_db_table_size (kdb, kdt) < 24" using ge assms(3) by (simp add: kcndb_db_table_size_def)
    moreover have "kcndb_db_table_size (kdb, kdt) = length D"
      using assms(3) by (simp add: kcndb_db_table_size_def)
    moreover have "nat (int (length D) - 24) = length D - 24" by linarith
    ultimately have "kcndb_db_record_read_last kdr_uninit (kdb, kdt) =
        Some (Inr (last_record D), (kdb, kdt\<lparr>kdt_table :=
          \<lparr>kf_fd = fd', kf_size = sz, kf_kb = zbuf (pre @ a @ b @ c) [] [] post'\<rparr>\<rparr>))"
      using en(1,6,8) kf(1) e t False
      by (simp add: kcndb_db_record_read_last_def kcndb_db_record_read_def zbuf_simps last_record_def
          bsD [symmetric] record_of_def)
    moreover have "length post' = n - 24" using en(2,6) bs e by simp
    ultimately show ?thesis using en(4,7) kf(2,4) e False t assms(6)
      by (intro exI [of _ fd'] exI [of _ sz], rule_tac exI [of _ "pre @ a @ b @ c"],
          rule_tac exI [of _ post']) simp
  qed
qed

text \<open>
  Between the locks, with the effect of \<open>kcndb_db_loc_add\<close> given: the last record is read first, and
  a record that is older than it is refused.  The three words of the new one go behind what is free
  in the buffer after that read.
\<close>

lemma add_locked_late:
  assumes "file_calm (kdt_table kdt) D" "24 dvd length D" "kdb_tablesize kdb = length D"
    "kb_data (kf_kb (kdt_table kdt)) = []"
    "kcn_buf_trailingspace (kf_kb (kdt_table kdt)) = Some n" "24 \<le> n"
    "sint (kdr_time r) < sint (kdr_time (last_record D))"
  shows "\<exists>kf. kcndb_db_record_add_locked r (kdb, kdt) = Some (Inl ERANGE, (kdb, kdt\<lparr>kdt_table := kf\<rparr>)) \<and>
    file_calm kf D"
proof -
  from read_last_ok [OF assms(1-6)] obtain fd sz pre post where
    "kcndb_db_record_read_last kdr_uninit (kdb, kdt) =
      Some (Inr (last_record D), (kdb, kdt\<lparr>kdt_table := \<lparr>kf_fd = fd, kf_size = sz, kf_kb = zbuf pre [] [] post\<rparr>\<rparr>))"
    "length pre + length post = 4096" "fd_calm fd" "fd_data fd = D" by blast
  with assms(7) show ?thesis
    by (auto simp: kcndb_db_record_add_locked_def intro!: exI [of _ "\<lparr>kf_fd = fd, kf_size = sz, kf_kb = zbuf pre [] [] post\<rparr>"])
qed

lemma add_locked:
  assumes "file_calm (kdt_table kdt) D" "24 dvd length D" "kdb_tablesize kdb = length D"
    "kb_data (kf_kb (kdt_table kdt)) = []"
    "kcn_buf_trailingspace (kf_kb (kdt_table kdt)) = Some n" "24 \<le> n"
    "\<not> sint (kdr_time r) < sint (kdr_time (last_record D))"
    "\<And>kf. \<exists>kl. kcndb_db_loc_add (kdr_loc r) (kdr_loclen r) (kdb, kdt\<lparr>kdt_table := kf\<rparr>) =
        Some (Inr idx, (kdb', kdt\<lparr>kdt_table := kf, kdt_loc := kl\<rparr>)) \<and> file_holds kl L'"
  shows "(if (if D = [] then n else n - 24) < 24
      then kcndb_db_record_add_locked r (kdb, kdt) = None
      else \<exists>kl kt. kcndb_db_record_add_locked r (kdb, kdt) =
          Some (Inr (r\<lparr>kdr_locidx := idx\<rparr>),
            (kdb'\<lparr>kdb_tablesize := kdb_tablesize kdb' + 24\<rparr>, kdt\<lparr>kdt_loc := kl, kdt_table := kt\<rparr>)) \<and>
        file_holds kl L' \<and> file_calm kt (D @ record_bytes (r\<lparr>kdr_locidx := idx\<rparr>)) \<and>
        kb_data (kf_kb kt) = [] \<and> kcn_buf_trailingspace (kf_kb kt) = Some 4096)"
proof -
  from read_last_ok [OF assms(1-6)] obtain fd sz pre post where rl:
    "kcndb_db_record_read_last kdr_uninit (kdb, kdt) =
      Some (Inr (last_record D), (kdb, kdt\<lparr>kdt_table := \<lparr>kf_fd = fd, kf_size = sz, kf_kb = zbuf pre [] [] post\<rparr>\<rparr>))"
    "length pre + length post = 4096" "fd_calm fd" "fd_data fd = D"
    "length post = (if D = [] then n else n - 24)" by blast
  obtain kl where la:
    "kcndb_db_loc_add (kdr_loc r) (kdr_loclen r)
        (kdb, kdt\<lparr>kdt_table := \<lparr>kf_fd = fd, kf_size = sz, kf_kb = zbuf pre [] [] post\<rparr>\<rparr>) =
      Some (Inr idx, (kdb', kdt\<lparr>kdt_table := \<lparr>kf_fd = fd, kf_size = sz, kf_kb = zbuf pre [] [] post\<rparr>, kdt_loc := kl\<rparr>))"
    "file_holds kl L'" using assms(8) by blast
  note add = kcndb_db_record_add_locked_def rl(1) la(1)
  show ?thesis
  proof (cases "length post < 24")
    case True
    then have "kcndb_db_record_add_locked r (kdb, kdt) = None"
      using assms(7)
      by (simp add: add zbuf_simps)
    with True rl(5) show ?thesis by simp
  next
    case False
    then have room: "8 \<le> length post - 16" "8 \<le> length post - 8" by linarith+
    let ?b = "record_bytes (r\<lparr>kdr_locidx := idx\<rparr>)"
    from append_calm [OF rl(3), of sz pre ?b "[]" "drop 24 post"] obtain fd' post' where ap:
      "kcndb_file_append \<lparr>kf_fd = fd, kf_size = sz, kf_kb = zbuf pre ?b [] (drop 24 post)\<rparr> =
        Some (Inr (), \<lparr>kf_fd = fd', kf_size = sz + 24, kf_kb = zbuf [] [] [] post'\<rparr>)"
      "length post' = 4096" "fd_data fd' = D @ ?b" "fd_calm fd'" using False rl(2,4) by auto
    let ?kt = "\<lparr>kf_fd = fd', kf_size = sz + 24, kf_kb = zbuf [] [] [] post'\<rparr>"
    have "kcndb_db_record_add_locked r (kdb, kdt) = Some (Inr (r\<lparr>kdr_locidx := idx\<rparr>),
        (kdb'\<lparr>kdb_tablesize := kdb_tablesize kdb' + 24\<rparr>, kdt\<lparr>kdt_loc := kl, kdt_table := ?kt\<rparr>))"
      using assms(7) False ap(1) room
      by (simp add: add zbuf_simps kcndb_db_table_size_increment_def record_bytes_def)
    moreover have "file_calm ?kt (D @ ?b)" "kb_data (kf_kb ?kt) = []"
      "kcn_buf_trailingspace (kf_kb ?kt) = Some 4096" using ap by (simp_all add: zbuf_len)
    ultimately show ?thesis
      using la(2) unfolding rl(5) [symmetric] if_not_P [OF False] by blast
  qed
qed

text \<open>With the locks.  A reader that never unlocks keeps every later addition waiting.\<close>

lemma record_add_blocked:
  assumes "rw_errs (kdb_lock (bases ! TYPE2INDEX type)) = []"
    "rw_writer (kdb_lock (bases ! TYPE2INDEX type)) \<or> 0 < rw_readers (kdb_lock (bases ! TYPE2INDEX type))"
  shows "kcndb_db_record_add type r (bases, kd) = None"
  using assms
  by (auto simp: kcndb_db_record_add_def with_table_def Let_def kcndb_db_wrlock_def
      pthread_rwlock_wrlock_def)

lemma record_add_unlocked:
  assumes "TYPE2INDEX type < length kd" "TYPE2INDEX type < length bases"
    "lock_free (kdb_lock (bases ! TYPE2INDEX type))" "rw_readers (kdb_lock (bases ! TYPE2INDEX type)) = 0"
  shows "kcndb_db_record_add type r (bases, kd) =
    (let i = TYPE2INDEX type; l = kdb_lock (bases ! i) in
     case kcndb_db_record_add_locked r ((bases ! i)\<lparr>kdb_lock := l\<lparr>rw_writer := True\<rparr>\<rparr>, kd ! i) of
       None \<Rightarrow> None
     | Some (res, (kdb, kdt)) \<Rightarrow>
         (case pthread_rwlock_unlock (kdb_lock kdb) of
            None \<Rightarrow> None
          | Some l \<Rightarrow> Some (res, bases[i := kdb\<lparr>kdb_lock := l\<rparr>], kd[i := kdt])))"
proof -
  let ?l = "kdb_lock (bases ! TYPE2INDEX type)"
  from assms(3) have "?l\<lparr>rw_writer := True, rw_errs := []\<rparr> = ?l\<lparr>rw_writer := True\<rparr>"
    by (cases ?l) (simp add: lock_free_def)
  then have "kcndb_db_wrlock (bases ! TYPE2INDEX type, kd ! TYPE2INDEX type) =
      Some (Inr (), ((bases ! TYPE2INDEX type)\<lparr>kdb_lock := ?l\<lparr>rw_writer := True\<rparr>\<rparr>, kd ! TYPE2INDEX type))"
    using assms(3,4) by (simp add: kcndb_db_wrlock_def pthread_rwlock_wrlock_def lock_free_def)
  with assms(1,2) show ?thesis
    by (auto simp: kcndb_db_record_add_def with_table_def Let_def kcndb_db_unlock_def split: option.split)
qed

text \<open>
  What becomes of the locator file: the locator is found in its chain, or it is added to an empty
  one.
\<close>

definition loc_effect :: "byte list \<Rightarrow> byte list \<Rightarrow> uint64 \<Rightarrow> byte list \<Rightarrow> bool" where
  "loc_effect L loc idx L' \<longleftrightarrow>
     chain_hit L loc (link_at L (bucket loc)) idx \<and> 2048 \<le> unat idx \<and> L' = L \<or>
     link_at L (bucket loc) = 0 \<and> idx = of_nat (length L) \<and> L' = loc_added L loc"

lemma loc_add_effect:
  assumes "file_holds (kdt_loc kdt) L" "2048 \<le> length L" "length L < 2 ^ 63" "0 \<notin> set loc"
    "length loc \<le> 4075" "kdb_locsize kdb = length L" "loc_effect L loc idx L'"
  shows "\<exists>kl. kcndb_db_loc_add loc (length loc) (kdb, kdt) =
      Some (Inr idx, (kdb\<lparr>kdb_locsize := length L'\<rparr>, kdt\<lparr>kdt_loc := kl\<rparr>)) \<and> file_holds kl L'"
  using assms(7) unfolding loc_effect_def
proof (elim disjE conjE)
  assume hit: "chain_hit L loc (link_at L (bucket loc)) idx" and L': "L' = L"
  have "kdb\<lparr>kdb_locsize := length L'\<rparr> = kdb" using assms(6) L' by (cases kdb) simp
  with loc_add_hit [OF assms(1-4) hit, of kdb] L' show ?thesis by metis
next
  assume "link_at L (bucket loc) = 0" and L': "idx = of_nat (length L)" "L' = loc_added L loc"
  then have "chain_miss L loc (bucket loc) (link_at L (bucket loc)) (bucket loc)"
    by (simp add: miss_end)
  from loc_add_miss [OF assms(1-6) this] L' assms(2) show ?thesis
    by (simp add: loc_added_def [symmetric] length_loc_added)
qed

lemma loc_effect_valid:
  assumes "loc_effect L loc idx L'" "2048 \<le> length L" "length L < 2 ^ 63" "length loc \<le> 4075"
  shows "2048 \<le> unat idx" "node_at L' (unat idx) loc" "2048 \<le> length L'"
    "length L' \<le> length L + (10 + length loc)"
    "record_valid L r \<Longrightarrow> record_valid L' r" "record_valid L r \<Longrightarrow> with_loc L' r = with_loc L r"
  using assms
  by (auto simp: loc_effect_def unat_small64 node_at_new length_loc_added record_valid_loc_added
      dest: chain_hit_idx)

lemma table_ok_lock [simp]: "table_ok (kdb\<lparr>kdb_lock := l\<rparr>) kdt D L = table_ok kdb kdt D L"
  by (simp add: table_ok_def)

text \<open>
  An addition that is in time appends one record to the table, whose locator the locator file holds
  at the index of the record, keeps the invariant of the table, and gives the lock back.
\<close>

lemma record_add_ok:
  fixes r :: kcndb_db_record and type :: c_enum
  defines "i \<equiv> TYPE2INDEX type"
  assumes i: "i < length bases" "i < length kd"
    and t: "table_ok (bases ! i) (kd ! i) D L"
    and l: "lock_free (kdb_lock (bases ! i))" "rw_readers (kdb_lock (bases ! i)) = 0"
    and b: "kb_data (kf_kb (kdt_table (kd ! i))) = []"
      "kcn_buf_trailingspace (kf_kb (kdt_table (kd ! i))) = Some n" "48 \<le> n"
    and r: "sint (kdr_time (last_record D)) \<le> sint (kdr_time r)" "kdr_loclen r = length (kdr_loc r)"
      "length (kdr_loc r) \<le> 4075" "0 \<notin> set (kdr_loc r)"
    and s: "length D + 24 < 2 ^ 63" "length L + 4085 < 2 ^ 63"
    and e: "loc_effect L (kdr_loc r) idx L'"
  shows "\<exists>kdb kdt. kcndb_db_record_add type r (bases, kd) =
      Some (Inr (r\<lparr>kdr_locidx := idx\<rparr>), bases[i := kdb], kd[i := kdt]) \<and>
    table_ok kdb kdt (D @ record_bytes (r\<lparr>kdr_locidx := idx\<rparr>)) L' \<and>
    kdb_lock kdb = kdb_lock (bases ! i) \<and> kb_data (kf_kb (kdt_table kdt)) = [] \<and>
    kcn_buf_trailingspace (kf_kb (kdt_table kdt)) = Some 4096"
proof -
  let ?l = "kdb_lock (bases ! i)"
  let ?kdb = "(bases ! i)\<lparr>kdb_lock := ?l\<lparr>rw_writer := True\<rparr>\<rparr>" and ?kdt = "kd ! i"
  let ?r = "r\<lparr>kdr_locidx := idx\<rparr>"
  from t have tk: "table_ok ?kdb ?kdt D L" by simp
  note tk' = tk [unfolded table_ok_def]
  from tk' have L: "2048 \<le> length L" "length L < 2 ^ 63" by blast+
  let ?kdb' = "?kdb\<lparr>kdb_locsize := length L'\<rparr>"
  have la: "\<exists>kl. kcndb_db_loc_add (kdr_loc r) (kdr_loclen r) (?kdb, ?kdt\<lparr>kdt_table := kf\<rparr>) =
      Some (Inr idx, (?kdb', ?kdt\<lparr>kdt_table := kf, kdt_loc := kl\<rparr>)) \<and> file_holds kl L'" for kf
    using loc_add_effect [of "?kdt\<lparr>kdt_table := kf\<rparr>" L "kdr_loc r" ?kdb idx L'] tk' r e by simp
  have "\<exists>kl kt. kcndb_db_record_add_locked r (?kdb, ?kdt) =
      Some (Inr ?r, (?kdb'\<lparr>kdb_tablesize := kdb_tablesize ?kdb' + 24\<rparr>, ?kdt\<lparr>kdt_loc := kl, kdt_table := kt\<rparr>)) \<and>
    file_holds kl L' \<and> file_calm kt (D @ record_bytes ?r) \<and>
    kb_data (kf_kb kt) = [] \<and> kcn_buf_trailingspace (kf_kb kt) = Some 4096"
    using add_locked [of ?kdt D ?kdb n r idx ?kdb' L'] tk' b r(1) la by (auto split: if_splits)
  then obtain kl kt where ad: "kcndb_db_record_add_locked r (?kdb, ?kdt) =
      Some (Inr ?r, (?kdb'\<lparr>kdb_tablesize := kdb_tablesize ?kdb' + 24\<rparr>, ?kdt\<lparr>kdt_loc := kl, kdt_table := kt\<rparr>))"
    and kf: "file_holds kl L'" "file_calm kt (D @ record_bytes ?r)" "kb_data (kf_kb kt) = []"
      "kcn_buf_trailingspace (kf_kb kt) = Some 4096" by blast
  let ?K = "?kdb'\<lparr>kdb_tablesize := kdb_tablesize ?kdb' + 24\<rparr>"
  from l have ul: "pthread_rwlock_unlock (kdb_lock ?K) = Some ?l"
    by (cases ?l) (simp add: pthread_rwlock_unlock_def lock_free_def)
  have "kcndb_db_record_add type r (bases, kd) =
      Some (Inr ?r, bases[i := ?K\<lparr>kdb_lock := ?l\<rparr>], kd[i := ?kdt\<lparr>kdt_loc := kl, kdt_table := kt\<rparr>])"
    using record_add_unlocked [of type kd bases r] i l ad ul by (simp add: i_def Let_def)
  moreover have "table_ok (?K\<lparr>kdb_lock := ?l\<rparr>) (?kdt\<lparr>kdt_loc := kl, kdt_table := kt\<rparr>)
      (D @ record_bytes ?r) L'"
  proof -
    note v = loc_effect_valid [OF e L r(3)]
    from v(4) r(3) s(2) have "length L' < 2 ^ 63" by linarith
    moreover have "record_valid L' q" if "q \<in> set (parse_records (D @ record_bytes ?r))" for q
    proof -
      from that tk' parse_records_append [of D ?r] have "record_valid L q \<or>
          q = kdr_uninit\<lparr>kdr_time := kdr_time r, kdr_val := kdr_val r, kdr_locidx := idx\<rparr>" by auto
      with v(1,2,5) node_at_loc_of [OF v(2)] show ?thesis by (auto simp: record_valid_def)
    qed
    ultimately show ?thesis using tk' kf s v(3) by (auto simp: table_ok_def)
  qed
  ultimately show ?thesis
    using kf by (intro exI [of _ "?K\<lparr>kdb_lock := ?l\<rparr>"]
        exI [of _ "?kdt\<lparr>kdt_loc := kl, kdt_table := kt\<rparr>"]) simp
qed

text \<open>The buffer of the table is where an earlier search left it: too near to its end for a record.\<close>

lemma record_add_fault:
  fixes r :: kcndb_db_record and type :: c_enum
  defines "i \<equiv> TYPE2INDEX type"
  assumes i: "i < length bases" "i < length kd"
    and t: "table_ok (bases ! i) (kd ! i) D L" "D \<noteq> []"
    and l: "lock_free (kdb_lock (bases ! i))" "rw_readers (kdb_lock (bases ! i)) = 0"
    and b: "kb_data (kf_kb (kdt_table (kd ! i))) = []"
      "kcn_buf_trailingspace (kf_kb (kdt_table (kd ! i))) = Some n" "24 \<le> n" "n < 48"
    and r: "sint (kdr_time (last_record D)) \<le> sint (kdr_time r)" "kdr_loclen r = length (kdr_loc r)"
      "length (kdr_loc r) \<le> 4075" "0 \<notin> set (kdr_loc r)"
    and e: "loc_effect L (kdr_loc r) idx L'"
  shows "kcndb_db_record_add type r (bases, kd) = None"
proof -
  let ?l = "kdb_lock (bases ! i)"
  let ?kdb = "(bases ! i)\<lparr>kdb_lock := ?l\<lparr>rw_writer := True\<rparr>\<rparr>" and ?kdt = "kd ! i"
  from t have tk: "table_ok ?kdb ?kdt D L" by simp
  note tk' = tk [unfolded table_ok_def]
  let ?kdb' = "?kdb\<lparr>kdb_locsize := length L'\<rparr>"
  have la: "\<exists>kl. kcndb_db_loc_add (kdr_loc r) (kdr_loclen r) (?kdb, ?kdt\<lparr>kdt_table := kf\<rparr>) =
      Some (Inr idx, (?kdb', ?kdt\<lparr>kdt_table := kf, kdt_loc := kl\<rparr>)) \<and> file_holds kl L'" for kf
    using loc_add_effect [of "?kdt\<lparr>kdt_table := kf\<rparr>" L "kdr_loc r" ?kdb idx L'] tk' r e by simp
  have "kcndb_db_record_add_locked r (?kdb, ?kdt) = None"
    using add_locked [of ?kdt D ?kdb n r idx ?kdb' L'] tk' b r(1) la t(2) by (auto split: if_splits)
  then show ?thesis using record_add_unlocked [of type kd bases r] i l by (simp add: i_def Let_def)
qed

text \<open>A record older than the last one is refused, and both files stay as they are.\<close>

lemma record_add_late:
  fixes r :: kcndb_db_record and type :: c_enum
  defines "i \<equiv> TYPE2INDEX type"
  assumes i: "i < length bases" "i < length kd"
    and t: "table_ok (bases ! i) (kd ! i) D L"
    and l: "lock_free (kdb_lock (bases ! i))" "rw_readers (kdb_lock (bases ! i)) = 0"
    and b: "kb_data (kf_kb (kdt_table (kd ! i))) = []"
      "kcn_buf_trailingspace (kf_kb (kdt_table (kd ! i))) = Some n" "24 \<le> n"
    and r: "sint (kdr_time r) < sint (kdr_time (last_record D))"
  shows "\<exists>kdt. kcndb_db_record_add type r (bases, kd) = Some (Inl ERANGE, bases, kd[i := kdt]) \<and>
    table_ok (bases ! i) kdt D L"
proof -
  let ?l = "kdb_lock (bases ! i)"
  let ?kdb = "(bases ! i)\<lparr>kdb_lock := ?l\<lparr>rw_writer := True\<rparr>\<rparr>" and ?kdt = "kd ! i"
  from t have tk: "table_ok ?kdb ?kdt D L" by simp
  note tk' = tk [unfolded table_ok_def]
  obtain kf where ad: "kcndb_db_record_add_locked r (?kdb, ?kdt) = Some (Inl ERANGE, (?kdb, ?kdt\<lparr>kdt_table := kf\<rparr>))"
    and kf: "file_calm kf D" using add_locked_late [of ?kdt D ?kdb n r] tk' b r by auto
  from l have ul: "pthread_rwlock_unlock (?l\<lparr>rw_writer := True\<rparr>) = Some ?l"
    by (cases ?l) (simp add: pthread_rwlock_unlock_def lock_free_def)
  have "bases[i := (bases ! i)\<lparr>kdb_lock := ?l\<rparr>] = bases" by simp
  with record_add_unlocked [of type kd bases r] i l ad ul
  have "kcndb_db_record_add type r (bases, kd) = Some (Inl ERANGE, bases, kd[i := ?kdt\<lparr>kdt_table := kf\<rparr>])"
    by (simp add: i_def Let_def)
  with tk' kf show ?thesis by (intro exI [of _ "?kdt\<lparr>kdt_table := kf\<rparr>"]) (auto simp: table_ok_def)
qed

end
