(* ===== verification/Kcndb_Db_Open.thy ===== *)
theory Kcndb_Db_Open
  imports Kcndb_Db_Add
begin

text \<open>
  Opening a database: a table that is opened on empty files has an empty table and a locator file
  of 256 empty buckets, one that is opened again has what the files hold; \<open>kcndb_db_new\<close> on an empty
  directory establishes the invariant of every table.
\<close>

section \<open>The environment\<close>

definition new_table :: "kcndb_db_base \<Rightarrow> bool" where
  "new_table kdb \<longleftrightarrow> kdb_locsize kdb = 0 \<and> kdb_tablesize kdb = 0 \<and>
     lock_free (kdb_lock kdb) \<and> rw_readers (kdb_lock kdb) = 0"

lemma file_open_ok:
  assumes "alloc_total malloc" "op path = Inr fd"
  shows "\<exists>post. kcndb_file_open True malloc op path =
      Some (Inr \<lparr>kf_fd = fd, kf_size = 0, kf_kb = zbuf [] [] [] post\<rparr>) \<and> length post = 4096"
proof -
  from assms(1) obtain post where m: "malloc 4096 = Some post" "length post = 4096"
    by (auto simp: alloc_total_def)
  then have "kcn_buf_init (Some \<lparr>kbd_size = 4096, kbd_sp = 0, kbd_ep = 0, kbd_buf = post\<rparr>) =
      Some (zbuf [] [] [] post)"
    by (simp add: kcn_buf_init_def kcn_buf_start_def kb_sp_def zbuf_def)
  with m(1) assms(2) have "kcndb_file_open True malloc op path =
      Some (Inr \<lparr>kf_fd = fd, kf_size = 0, kf_kb = zbuf [] [] [] post\<rparr>)"
    by (simp add: kcndb_file_open_def kcndb_file_new_def kcn_buf_data_new_def)
  with m(2) show ?thesis by blast
qed

section \<open>The locator file\<close>

lemma loc_init_keep: "0 < kdb_locsize kdb \<Longrightarrow> kcndb_db_loc_init (kdb, kdt) = Some (Inr (), (kdb, kdt))"
  by (simp add: kcndb_db_loc_init_def kcndb_db_loc_size_def)

lemma loc_init_new:
  assumes "kdt_loc kdt = \<lparr>kf_fd = fd, kf_size = sz, kf_kb = zbuf [] [] [] post\<rparr>" "length post = 4096"
    "fd_complete fd" "fd_data fd = []" "kdb_locsize kdb = 0"
  shows "\<exists>kf. kcndb_db_loc_init (kdb, kdt) =
      Some (Inr (), (kdb\<lparr>kdb_locsize := 2048\<rparr>, kdt\<lparr>kdt_loc := kf\<rparr>)) \<and>
    file_holds kf (replicate 2048 0)"
proof -
  from assms(3) have "fd_calm fd" by (rule fd_complete_calm)
  from append_calm [OF this, of sz "[]" "replicate 2048 0" "[]" "drop 2048 post"] assms
  obtain fd' post' where "kcndb_file_append
      \<lparr>kf_fd = fd, kf_size = sz, kf_kb = zbuf [] (replicate 2048 0) [] (drop 2048 post)\<rparr> =
      Some (Inr (), \<lparr>kf_fd = fd', kf_size = sz + 2048, kf_kb = zbuf [] [] [] post'\<rparr>)"
    "length post' = 4096" "fd_data fd' = replicate 2048 0" "fd_complete fd'" by auto
  with assms show ?thesis
    by (auto simp: kcndb_db_loc_init_def kcndb_db_loc_size_def kcndb_db_loc_size_increment_def
        zbuf_simps file_holds_def fd_complete_calm)
qed

lemma link_at_empty: "i + 8 \<le> 2048 \<Longrightarrow> link_at (replicate 2048 0) i = 0"
  by (simp add: link_at_def of_be64_def)

section \<open>Opening a table\<close>

lemma size_get_ok: "fd_sys (kf_fd kf) = [] \<Longrightarrow> kcndb_file_size_get kf = (Inr (length (fd_data (kf_fd kf))), kf)"
  by (cases kf) (simp add: kcndb_file_size_get_def posix_fstat_size_def)

lemma db_init_sizes:
  assumes "fd_sys (kf_fd (kdt_loc kdt)) = []" "fd_sys (kf_fd (kdt_table kdt)) = []"
    "kdb_locsize kdb \<in> {0, length (fd_data (kf_fd (kdt_loc kdt)))}"
    "kdb_tablesize kdb \<in> {0, length (fd_data (kf_fd (kdt_table kdt)))}"
  shows "kcndb_db_init (kdb, kdt) =
    kcndb_db_loc_init (kdb\<lparr>kdb_locsize := length (fd_data (kf_fd (kdt_loc kdt))),
      kdb_tablesize := length (fd_data (kf_fd (kdt_table kdt)))\<rparr>, kdt)"
  using assms by (cases kdb; cases kdt) (auto simp: kcndb_db_init_def size_get_ok)

lemma wrlock_unlock:
  assumes "lock_free (kdb_lock kdb)" "rw_readers (kdb_lock kdb) = 0"
  shows "kcndb_db_wrlock (kdb, kdt) =
      Some (Inr (), (kdb\<lparr>kdb_lock := (kdb_lock kdb)\<lparr>rw_writer := True\<rparr>\<rparr>, kdt))"
    "pthread_rwlock_unlock ((kdb_lock kdb)\<lparr>rw_writer := True\<rparr>) = Some (kdb_lock kdb)"
proof -
  from assms have "(kdb_lock kdb)\<lparr>rw_writer := True, rw_errs := []\<rparr> = (kdb_lock kdb)\<lparr>rw_writer := True\<rparr>"
    "(kdb_lock kdb)\<lparr>rw_writer := False\<rparr> = kdb_lock kdb"
    by (cases "kdb_lock kdb"; simp add: lock_free_def)+
  with assms show "kcndb_db_wrlock (kdb, kdt) =
      Some (Inr (), (kdb\<lparr>kdb_lock := (kdb_lock kdb)\<lparr>rw_writer := True\<rparr>\<rparr>, kdt))"
    "pthread_rwlock_unlock ((kdb_lock kdb)\<lparr>rw_writer := True\<rparr>) = Some (kdb_lock kdb)"
    by (simp_all add: kcndb_db_wrlock_def pthread_rwlock_wrlock_def pthread_rwlock_unlock_def lock_free_def)
qed

text \<open>
  The first handle on a table, or one more: the shared sizes are still 0, or those of the files.
  An empty locator file gets its hash table.
\<close>

lemma table_open_ok:
  assumes env: "env_new env" "alloc_total (env_malloc env)"
    and ty: "kcn_eq_type_ntoa type = Inr name" "TYPE2INDEX type < length bases"
    and op: "env_open env (snprintf_path (path @ ''/'' @ name @ ''-loc'')) = Inr fdl"
      "env_open env (snprintf_path (path @ ''/'' @ name)) = Inr fdt"
    and fd: "fd_sys fdl = []" "fd_sys fdt = []"
    and base: "kdb_locsize (bases ! TYPE2INDEX type) \<in> {0, length (fd_data fdl)}"
      "kdb_tablesize (bases ! TYPE2INDEX type) \<in> {0, length (fd_data fdt)}"
      "lock_free (kdb_lock (bases ! TYPE2INDEX type))" "rw_readers (kdb_lock (bases ! TYPE2INDEX type)) = 0"
    and L: "L = (if fd_data fdl = [] then replicate 2048 0 else fd_data fdl)"
      "2048 \<le> length L" "length L < 2 ^ 63"
    and D: "24 dvd length (fd_data fdt)" "length (fd_data fdt) < 2 ^ 63"
      "\<forall>r \<in> set (parse_records (fd_data fdt)). record_valid L r"
  shows "\<exists>kdb kdt. kcndb_db_table_open env path type bases =
      Some (Inr kdt, bases[TYPE2INDEX type := kdb]) \<and>
    table_ok kdb kdt (fd_data fdt) L \<and> kdb_lock kdb = kdb_lock (bases ! TYPE2INDEX type) \<and>
    kb_data (kf_kb (kdt_table kdt)) = [] \<and> kcn_buf_trailingspace (kf_kb (kdt_table kdt)) = Some 4096"
proof -
  let ?i = "TYPE2INDEX type"
  let ?l = "kdb_lock (bases ! ?i)"
  obtain pl pt where fo:
    "kcndb_file_open True (env_malloc env) (env_open env) (snprintf_path (path @ ''/'' @ name @ ''-loc'')) =
      Some (Inr \<lparr>kf_fd = fdl, kf_size = 0, kf_kb = zbuf [] [] [] pl\<rparr>)" "length pl = 4096"
    "kcndb_file_open True (env_malloc env) (env_open env) (snprintf_path (path @ ''/'' @ name)) =
      Some (Inr \<lparr>kf_fd = fdt, kf_size = 0, kf_kb = zbuf [] [] [] pt\<rparr>)" "length pt = 4096"
    using file_open_ok [OF env(2), of "env_open env", OF op(1)] file_open_ok [OF env(2), of "env_open env", OF op(2)]
    by blast
  let ?kdt = "kcndb_db_table_new type \<lparr>kf_fd = fdl, kf_size = 0, kf_kb = zbuf [] [] [] pl\<rparr>
      \<lparr>kf_fd = fdt, kf_size = 0, kf_kb = zbuf [] [] [] pt\<rparr>"
  let ?kdb = "(bases ! ?i)\<lparr>kdb_lock := ?l\<lparr>rw_writer := True\<rparr>,
      kdb_locsize := length (fd_data fdl), kdb_tablesize := length (fd_data fdt)\<rparr>"
  have init: "kcndb_db_init ((bases ! ?i)\<lparr>kdb_lock := ?l\<lparr>rw_writer := True\<rparr>\<rparr>, ?kdt) = kcndb_db_loc_init (?kdb, ?kdt)"
    using base(1,2) fd by (subst db_init_sizes) (simp_all add: kcndb_db_table_new_def)
  obtain kf where li: "kcndb_db_loc_init (?kdb, ?kdt) =
      Some (Inr (), (?kdb\<lparr>kdb_locsize := length L\<rparr>, ?kdt\<lparr>kdt_loc := kf\<rparr>))" "file_holds kf L"
  proof (cases "fd_data fdl = []")
    case True
    with loc_init_new [of ?kdt fdl 0 pl ?kdb] fo fd that L(1) show thesis
      by (auto simp: kcndb_db_table_new_def)
  next
    case False
    with loc_init_keep [of ?kdb ?kdt] fo fd that [of "kdt_loc ?kdt"] L(1) show thesis
      by (simp add: kcndb_db_table_new_def file_holds_def)
  qed
  let ?K = "?kdb\<lparr>kdb_locsize := length L, kdb_lock := ?l\<rparr>" and ?T = "?kdt\<lparr>kdt_loc := kf\<rparr>"
  have "kcndb_db_table_open env path type bases = Some (Inr ?T, bases[?i := ?K])"
    using env(1) ty fo init li(1) wrlock_unlock [OF base(3,4)]
    by (simp add: kcndb_db_table_open_def Let_def kcndb_db_unlock_def)
  moreover have "table_ok ?K ?T (fd_data fdt) L"
    using li(2) L D fo fd by (simp add: table_ok_def kcndb_db_table_new_def)
  ultimately show ?thesis
    using fo by (intro exI [of _ ?K] exI [of _ ?T]) (simp add: kcndb_db_table_new_def zbuf_len)
qed

section \<open>A new database\<close>

definition fresh_table :: "kcndb_db_base \<Rightarrow> kcndb_db_table \<Rightarrow> bool" where
  "fresh_table kdb kdt \<longleftrightarrow> table_ok kdb kdt [] (replicate 2048 0) \<and>
     lock_free (kdb_lock kdb) \<and> rw_readers (kdb_lock kdb) = 0 \<and>
     kb_data (kf_kb (kdt_table kdt)) = [] \<and> kcn_buf_trailingspace (kf_kb (kdt_table kdt)) = Some 4096"

definition empty_dir :: "kcndb_env \<Rightarrow> bool" where
  "empty_dir env \<longleftrightarrow> env_new env \<and> alloc_total (env_malloc env) \<and>
     (\<forall>p. env_open env p = Inr \<lparr>fd_data = [], fd_off = 0, fd_sys = []\<rparr>)"

lemma type_index:
  assumes "n < 7"
  shows "TYPE2INDEX (of_nat (n + 1)) = n" "\<exists>name. kcn_eq_type_ntoa (of_nat (n + 1)) = Inr name"
proof -
  have u: "unat (of_nat (n + 1) :: c_enum) = n + 1" using assms by (subst unat_of_nat) simp
  have "(of_nat (n + 1) :: c_enum) - 1 = of_nat n" by simp
  with assms show "TYPE2INDEX (of_nat (n + 1)) = n"
    by (simp only: TYPE2INDEX_def) (simp add: unat_of_nat)
  have "\<not> of_nat (n + 1) \<le> (0 :: c_enum)" "\<not> (8 :: c_enum) \<le> of_nat (n + 1)"
    using assms u by (simp_all only: word_le_nat_alt) simp_all
  then show "\<exists>name. kcn_eq_type_ntoa (of_nat (n + 1)) = Inr name" by (simp add: kcn_eq_type_ntoa_def)
qed

lemma new_tables_empty:
  assumes "empty_dir env" "m + n = 7" "length bases = 7"
    "\<forall>i < 7. m \<le> i \<longrightarrow> new_table (bases ! i)"
  shows "\<exists>kd bases'. kcndb_db_new_tables env path n (of_nat (m + 1)) bases = Some (Inr kd, bases') \<and>
    length kd = n \<and> length bases' = 7 \<and> (\<forall>i < n. fresh_table (bases' ! (m + i)) (kd ! i)) \<and>
    (\<forall>i < m. bases' ! i = bases ! i)"
  using assms
proof (induction n arbitrary: m bases)
  case 0
  then show ?case by simp
next
  case (Suc n)
  then have m: "m < 7" by simp
  note env = Suc.prems(1) [unfolded empty_dir_def]
  from type_index [OF m] obtain name where ix: "TYPE2INDEX (of_nat (m + 1)) = m"
    and name: "kcn_eq_type_ntoa (of_nat (m + 1)) = Inr name" by blast
  from Suc.prems(4) m have "new_table (bases ! m)" by simp
  with table_open_ok [of env "of_nat (m + 1)" name bases path, OF _ _ name] env ix m Suc.prems(3)
  obtain kdb kdt where op: "kcndb_db_table_open env path (of_nat (m + 1)) bases =
      Some (Inr kdt, bases[m := kdb])" and fr: "fresh_table kdb kdt"
    by (fastforce simp: new_table_def fresh_table_def parse_records.simps)
  from Suc.IH [of "Suc m" "bases[m := kdb]"] Suc.prems obtain kd bases' where ih:
    "kcndb_db_new_tables env path n (of_nat (Suc m + 1)) (bases[m := kdb]) = Some (Inr kd, bases')"
    "length kd = n" "length bases' = 7" "\<forall>i < n. fresh_table (bases' ! (Suc m + i)) (kd ! i)"
    "\<forall>i < Suc m. bases' ! i = bases[m := kdb] ! i" by auto
  have "of_nat (m + 1) + 1 = (of_nat (Suc m + 1) :: c_enum)" by simp
  with op ih(1) have "kcndb_db_new_tables env path (Suc n) (of_nat (m + 1)) bases =
      Some (Inr (kdt # kd), bases')" by simp
  moreover have "\<forall>i < Suc n. fresh_table (bases' ! (m + i)) ((kdt # kd) ! i)"
    using ih(4,5) fr m Suc.prems(3) by (auto simp: nth_Cons' gr0_conv_Suc)
  moreover have "\<forall>i < m. bases' ! i = bases ! i" using ih(5) by simp
  ultimately show ?case using ih(2,3) by auto
qed

lemma db_new_empty:
  assumes "empty_dir env"
  shows "\<exists>kd bases. kcndb_db_new env path kcndb_db_base = Some (Inr kd, bases) \<and>
    length kd = 7 \<and> length bases = 7 \<and> (\<forall>i < 7. fresh_table (bases ! i) (kd ! i))"
proof -
  have "\<forall>i < 7. 0 \<le> i \<longrightarrow> new_table (kcndb_db_base ! i)"
    by (simp add: kcndb_db_base_def KCNDB_DB_BASE_INITIALIZER_def new_table_def lock_free_def)
  with new_tables_empty [OF assms, of 0 7 kcndb_db_base path] assms show ?thesis
    by (simp add: kcndb_db_new_def kcndb_db_base_def empty_dir_def)
qed

end
