(* ===== verification/Kcn_Net.thy ===== *)
theory Kcn_Net
  imports Kcn_Buf_IO
begin

text \<open>
  \<^verbatim>\<open>lib/kcn_net.c\<close>: a connection, driven by the events of libevent.  A connection reads into one
  buffer and hands it to the callback it was made with; what is to be sent is queued and written
  when the socket is writable.

  The socket is a non-blocking stream socket: the bytes that have arrived and not been read, whether
  the peer has closed, the bytes written so far, and the outcomes of the next calls.  Of libevent
  the model has whether the read and the write event are pending, and the results of the next
  \<open>event_add\<close> calls.  This is the code as it is compiled on Linux.
\<close>

section \<open>Stream sockets\<close>

datatype sock_outcome = SockFull | SockPart nat | SockFail errno

record sock =
  sk_rx :: "byte list"
  sk_eof :: bool
  sk_tx :: "byte list"
  sk_sys :: "sock_outcome list"

fun sock_next :: "sock_outcome list \<Rightarrow> sock_outcome \<times> sock_outcome list" where
  "sock_next [] = (SockFull, [])"
| "sock_next (r # s) = (r, s)"

definition sock_deliver :: "sock \<Rightarrow> nat \<Rightarrow> sock_outcome list \<Rightarrow> read_ret \<times> sock" where
  "sock_deliver sk n s =
     (if sk_rx sk = [] \<and> \<not> sk_eof sk then (ReadErr EAGAIN, sk\<lparr>sk_sys := s\<rparr>)
      else (ReadOk (take n (sk_rx sk)), sk\<lparr>sk_rx := drop n (sk_rx sk), sk_sys := s\<rparr>))"

definition sock_read :: "sock read_call" where
  "sock_read sk n =
     (case sock_next (sk_sys sk) of
        (SockFail e, s) \<Rightarrow> (ReadErr (if e = 0 then EIO else e), sk\<lparr>sk_sys := s\<rparr>)
      | (SockFull, s) \<Rightarrow> sock_deliver sk n s
      | (SockPart k, s) \<Rightarrow> sock_deliver sk (min n (Suc k)) s)"

definition sock_write :: "sock write_call" where
  "sock_write sk bs =
     (case sock_next (sk_sys sk) of
        (SockFail e, s) \<Rightarrow> (WriteErr (if e = 0 then EIO else e), sk\<lparr>sk_sys := s\<rparr>)
      | (SockFull, s) \<Rightarrow> (WriteOk (length bs), sk\<lparr>sk_tx := sk_tx sk @ bs, sk_sys := s\<rparr>)
      | (SockPart k, s) \<Rightarrow>
          (WriteOk (length (take (Suc k) bs)), sk\<lparr>sk_tx := sk_tx sk @ take (Suc k) bs, sk_sys := s\<rparr>))"

text \<open>
  A socket works when no call to come fails for good: a call may be interrupted, find no bytes or no room, or
  transfer a part.  The calls that are made use the outcomes up from the front.
\<close>

fun outcome_works :: "sock_outcome \<Rightarrow> bool" where
  "outcome_works (SockFail e) \<longleftrightarrow> e = EAGAIN \<or> e = EINTR"
| "outcome_works r \<longleftrightarrow> True"

definition steady :: "sock \<Rightarrow> bool" where
  "steady sk \<longleftrightarrow> list_all outcome_works (sk_sys sk)"

definition sys_used :: "sock \<Rightarrow> sock \<Rightarrow> bool" where
  "sys_used sk sk' \<longleftrightarrow> (\<exists>n. sk_sys sk' = drop n (sk_sys sk))"

lemma sys_used_same [simp]: "sk_sys sk' = sk_sys sk \<Longrightarrow> sys_used sk sk'"
  unfolding sys_used_def by (metis drop0)

lemma sys_used_trans: "sys_used sk sk1 \<Longrightarrow> sys_used sk1 sk2 \<Longrightarrow> sys_used sk sk2"
  unfolding sys_used_def by (metis drop_drop)

lemma sys_used_steady: "sys_used sk sk' \<Longrightarrow> steady sk \<Longrightarrow> steady sk'"
  unfolding sys_used_def steady_def list_all_iff by (metis in_set_dropD)

lemma sys_used_length: "sys_used sk sk' \<Longrightarrow> length (sk_sys sk') \<le> length (sk_sys sk)"
  by (auto simp: sys_used_def)

lemma steady_calm [simp]: "sk_sys sk = [] \<Longrightarrow> steady sk"
  by (simp add: steady_def)

text \<open>
  Reading and writing lose, add and reorder no byte; a socket that works makes progress: a read with bytes there and a write
  transfer something, or use up an outcome and can be tried again.
\<close>

definition sock_rd_post :: "sock \<Rightarrow> nat \<Rightarrow> errno \<Rightarrow> byte list \<Rightarrow> sock \<Rightarrow> bool" where
  "sock_rd_post sk n error bs sk' \<longleftrightarrow>
     sk_rx sk = bs @ sk_rx sk' \<and> sk_eof sk' = sk_eof sk \<and> sk_tx sk' = sk_tx sk \<and> sys_used sk sk' \<and>
     (steady sk \<and> 0 < n \<and> sk_rx sk \<noteq> [] \<and> error \<noteq> 0 \<longrightarrow> error = EAGAIN \<and> length (sk_sys sk') < length (sk_sys sk))"

definition sock_wr_post :: "sock \<Rightarrow> byte list \<Rightarrow> errno \<Rightarrow> nat \<Rightarrow> sock \<Rightarrow> bool" where
  "sock_wr_post sk bs error n sk' \<longleftrightarrow>
     sk_tx sk' = sk_tx sk @ take n bs \<and> sk_rx sk' = sk_rx sk \<and> sk_eof sk' = sk_eof sk \<and> sys_used sk sk' \<and>
     (steady sk \<and> bs \<noteq> [] \<and> error \<noteq> 0 \<longrightarrow> error = EAGAIN \<and> length (sk_sys sk') < length (sk_sys sk))"

lemma sock_nextE:
  assumes "sock_next (sk_sys sk) = (r, s)"
  shows "\<exists>m. s = drop m (sk_sys sk)" "steady sk \<Longrightarrow> outcome_works r" "r \<noteq> SockFull \<Longrightarrow> length s < length (sk_sys sk)"
proof -
  from assms have "s = drop 1 (sk_sys sk)" by (cases "sk_sys sk") auto
  then show "\<exists>m. s = drop m (sk_sys sk)" by blast
qed (use assms in \<open>cases "sk_sys sk"; auto simp: steady_def\<close>)+

lemma sock_read_cases:
  assumes "sock_read sk n = (r, sk')"
  obtains (ok) m s where "r = ReadOk (take m (sk_rx sk))" "m \<le> n" "0 < n \<Longrightarrow> 0 < m"
      "sk' = sk\<lparr>sk_rx := drop m (sk_rx sk), sk_sys := s\<rparr>" "\<exists>j. s = drop j (sk_sys sk)"
  | (err) e s where "r = ReadErr e" "e \<noteq> 0" "sk' = sk\<lparr>sk_sys := s\<rparr>" "\<exists>j. s = drop j (sk_sys sk)"
      "e = EINTR \<or> sk_rx sk \<noteq> [] \<Longrightarrow> length s < length (sk_sys sk)"
      "steady sk \<Longrightarrow> e = EAGAIN \<or> e = EINTR"
proof -
  obtain o1 s where n: "sock_next (sk_sys sk) = (o1, s)" by (cases "sock_next (sk_sys sk)")
  note e = sock_nextE [OF n]
  have deliver: thesis if d: "sock_deliver sk m s = (r, sk')" "m \<le> n" "0 < n \<Longrightarrow> 0 < m" for m
  proof (cases "sk_rx sk = [] \<and> \<not> sk_eof sk")
    case True
    with d(1) show ?thesis by (intro err [of EAGAIN s]) (auto simp: sock_deliver_def e(1))
  next
    case False
    with d show ?thesis by (intro ok [of m s]) (auto simp: sock_deliver_def e(1))
  qed
  show thesis
  proof (cases o1)
    case SockFull
    with n assms deliver [of n] show ?thesis by (auto simp: sock_read_def)
  next
    case (SockPart k)
    with n assms deliver [of "min n (Suc k)"] show ?thesis by (auto simp: sock_read_def)
  next
    case (SockFail e')
    with n assms e show ?thesis by (intro err [of "if e' = 0 then EIO else e'" s]) (auto simp: sock_read_def)
  qed
qed

interpretation sock_reader: io_reader sock_read sock_rd_post "\<lambda>sk. length (sk_sys sk)"
proof
  fix fd n bs fd' assume "sock_read fd n = (ReadOk bs, fd')"
  then show "length bs \<le> n \<and> sock_rd_post fd n (if bs = [] then ESHUTDOWN else 0) bs fd'"
    by (rule sock_read_cases) (auto simp: sock_rd_post_def sys_used_def)
next
  fix fd n e fd' assume "sock_read fd n = (ReadErr e, fd')"
  then show "e \<noteq> 0 \<and> (e \<noteq> EINTR \<longrightarrow> sock_rd_post fd n e [] fd')"
    by (rule sock_read_cases) (auto simp: sock_rd_post_def sys_used_def)
next
  fix fd n error bs and fd' fd'' :: sock assume "sock_read fd n = (ReadErr EINTR, fd')"
  then have r: "sys_used fd fd'" "length (sk_sys fd') < length (sk_sys fd)" "sk_rx fd' = sk_rx fd" "sk_eof fd' = sk_eof fd" "sk_tx fd' = sk_tx fd"
    by (rule sock_read_cases; auto simp: sys_used_def)+
  have "sock_rd_post fd n error bs fd''" if p: "sock_rd_post fd' n error bs fd''"
    using p r sys_used_trans [OF r(1)] sys_used_steady [OF r(1)] unfolding sock_rd_post_def by auto
  with r(2) show "length (sk_sys fd') < length (sk_sys fd) \<and>
      (sock_rd_post fd' n error bs fd'' \<longrightarrow> sock_rd_post fd n error bs fd'')" by blast
qed

lemma sock_write_cases:
  assumes "sock_write sk bs = (r, sk')"
  obtains (ok) m s where "r = WriteOk m" "m \<le> length bs" "bs \<noteq> [] \<Longrightarrow> 0 < m"
      "sk' = sk\<lparr>sk_tx := sk_tx sk @ take m bs, sk_sys := s\<rparr>" "\<exists>j. s = drop j (sk_sys sk)"
  | (err) e s where "r = WriteErr e" "e \<noteq> 0" "sk' = sk\<lparr>sk_sys := s\<rparr>" "\<exists>j. s = drop j (sk_sys sk)"
      "length s < length (sk_sys sk)" "steady sk \<Longrightarrow> e = EAGAIN \<or> e = EINTR"
proof -
  obtain o1 s where n: "sock_next (sk_sys sk) = (o1, s)" by (cases "sock_next (sk_sys sk)")
  note e = sock_nextE [OF n]
  show thesis
  proof (cases o1)
    case SockFull
    with n assms e show ?thesis by (intro ok [of "length bs" s]) (auto simp: sock_write_def)
  next
    case (SockPart k)
    have "take (min (length bs) (Suc k)) bs = take (Suc k) bs" by (simp add: min_def)
    with SockPart n assms e show ?thesis by (intro ok [of "length (take (Suc k) bs)" s]) (auto simp: sock_write_def)
  next
    case (SockFail e')
    with n assms e show ?thesis by (intro err [of "if e' = 0 then EIO else e'" s]) (auto simp: sock_write_def)
  qed
qed

interpretation sock_writer: io_writer sock_write sock_wr_post "\<lambda>sk. length (sk_sys sk)"
proof
  fix fd n bs fd' assume "sock_write fd bs = (WriteOk n, fd')"
  then show "n \<le> length bs \<and> sock_wr_post fd bs (if n = 0 then ESHUTDOWN else 0) n fd'"
    by (rule sock_write_cases) (auto simp: sock_wr_post_def sys_used_def)
next
  fix fd e bs fd' assume "sock_write fd bs = (WriteErr e, fd')"
  then show "e \<noteq> 0 \<and> (e \<noteq> EINTR \<longrightarrow> sock_wr_post fd bs e 0 fd')"
    by (rule sock_write_cases) (auto simp: sock_wr_post_def sys_used_def)
next
  fix fd n error bs and fd' fd'' :: sock assume "sock_write fd bs = (WriteErr EINTR, fd')"
  then have r: "sys_used fd fd'" "length (sk_sys fd') < length (sk_sys fd)" "sk_rx fd' = sk_rx fd" "sk_eof fd' = sk_eof fd" "sk_tx fd' = sk_tx fd"
    by (rule sock_write_cases; auto simp: sys_used_def)+
  have "sock_wr_post fd bs error n fd''" if p: "sock_wr_post fd' bs error n fd''"
    using p r sys_used_trans [OF r(1)] sys_used_steady [OF r(1)] unfolding sock_wr_post_def by auto
  with r(2) show "length (sk_sys fd') < length (sk_sys fd) \<and>
      (sock_wr_post fd' bs error n fd'' \<longrightarrow> sock_wr_post fd bs error n fd'')" by blast
qed

section \<open>The connection\<close>

datatype kcn_net_state =
  KCN_NET_STATE_INIT | KCN_NET_STATE_PENDING | KCN_NET_STATE_ESTABLISHED | KCN_NET_STATE_DISCONNECTED

datatype ev_flag = EV_TIMEOUT | EV_READ | EV_WRITE

text \<open>
  \<open>kn_fd\<close> is \<^const>\<open>None\<close> once the descriptor is closed.  \<open>kn_ibufdata\<close> is the data of \<open>kn_ibuf\<close>, and
  the callback and its argument are arguments of the operations that use them.
\<close>

record kcn_net =
  kn_state :: kcn_net_state
  kn_name :: string
  kn_fd :: "sock option"
  kn_evread :: bool
  kn_evwrite :: bool
  kn_everrs :: "errno list"
  kn_ibuf :: kcn_buf
  kn_obufdata :: kcn_buf_data
  kn_obufq :: kcn_buf_queue

type_synonym 'd net_readcb = "kcn_net \<Rightarrow> 'd \<Rightarrow> (errno \<times> kcn_net \<times> 'd) option"

definition kcn_net_state_ntoa :: "kcn_net_state \<Rightarrow> string" where
  "kcn_net_state_ntoa state =
     (case state of KCN_NET_STATE_INIT \<Rightarrow> ''Init'' | KCN_NET_STATE_PENDING \<Rightarrow> ''Pending''
      | KCN_NET_STATE_ESTABLISHED \<Rightarrow> ''Established'' | KCN_NET_STATE_DISCONNECTED \<Rightarrow> ''Disconnected'')"

section \<open>Events\<close>

definition kcn_net_event_add :: "kcn_net \<Rightarrow> errno \<times> kcn_net" where
  "kcn_net_event_add kn =
     (case next_errno (kn_everrs kn) of (e, es) \<Rightarrow> (e, kn\<lparr>kn_everrs := es\<rparr>))"

definition kcn_net_event_enable_read :: "kcn_net \<Rightarrow> unit result \<times> kcn_net" where
  "kcn_net_event_enable_read kn =
     (if kn_evread kn then (Inr (), kn)
      else case kcn_net_event_add kn of
             (e, kn) \<Rightarrow> if e \<noteq> 0 then (Inl e, kn) else (Inr (), kn\<lparr>kn_evread := True\<rparr>))"

definition kcn_net_write_enable :: "kcn_net \<Rightarrow> unit result \<times> kcn_net" where
  "kcn_net_write_enable kn =
     (if kn_evwrite kn then (Inr (), kn)
      else case kcn_net_event_add kn of
             (e, kn) \<Rightarrow> if e \<noteq> 0 then (Inl e, kn) else (Inr (), kn\<lparr>kn_evwrite := True\<rparr>))"

text \<open>
  \<open>kcn_net_read_enable\<close> and \<open>kcn_net_state_change\<close> call each other; the change to \<open>Pending\<close> that the
  first one makes does nothing but store the state.
\<close>

definition kcn_net_read_enable :: "kcn_net \<Rightarrow> (unit result \<times> kcn_net) option" where
  "kcn_net_read_enable kn = do {
     c_assert (kn_state kn \<noteq> KCN_NET_STATE_DISCONNECTED);
     (if kn_state kn \<noteq> KCN_NET_STATE_ESTABLISHED
      then Some (Inr (), kn\<lparr>kn_state := KCN_NET_STATE_PENDING\<rparr>)
      else Some (kcn_net_event_enable_read kn))
   }"

definition kcn_net_state_change :: "kcn_net \<Rightarrow> kcn_net_state \<Rightarrow> kcn_net option" where
  "kcn_net_state_change kn nstate =
     (if kn_state kn = nstate then Some kn
      else let ostate = kn_state kn; kn = kn\<lparr>kn_state := nstate\<rparr> in
        if ostate = KCN_NET_STATE_PENDING \<and> nstate = KCN_NET_STATE_ESTABLISHED
        then map_option snd (kcn_net_read_enable kn)
        else Some kn)"

definition kcn_net_disconnect :: "kcn_net \<Rightarrow> kcn_net option" where
  "kcn_net_disconnect kn =
     (if kn_state kn = KCN_NET_STATE_DISCONNECTED then Some kn
      else kcn_net_state_change (kn\<lparr>kn_evread := False, kn_evwrite := False, kn_fd := None\<rparr>)
             KCN_NET_STATE_DISCONNECTED)"

definition kcn_net_timeout :: "kcn_net \<Rightarrow> kcn_net option" where
  "kcn_net_timeout kn = kcn_net_disconnect kn"

definition kcn_net_event_check :: "kcn_net \<Rightarrow> ev_flag set \<Rightarrow> ev_flag \<Rightarrow> (bool \<times> kcn_net) option" where
  "kcn_net_event_check kn events event =
     (if event \<notin> events
      then if EV_TIMEOUT \<in> events then map_option (Pair False) (kcn_net_timeout kn)
           else Some (False, kn)
      else map_option (Pair True) (kcn_net_state_change kn KCN_NET_STATE_ESTABLISHED))"

section \<open>Creation and destruction\<close>

abbreviation (input) KCN_SOCKNAMELEN :: nat where "KCN_SOCKNAMELEN \<equiv> 52"

definition kcn_net_purge_buf :: kcn_buf where
  "kcn_net_purge_buf = \<lparr>kb_kbd = None, kb_cp = 0\<rparr>"

definition kcn_net_destroy :: "kcn_net \<Rightarrow> kcn_net option" where
  "kcn_net_destroy kn = do {
     kn \<leftarrow> kcn_net_disconnect kn;
     q \<leftarrow> kcn_buf_purge kcn_net_purge_buf (kn_obufq kn);
     Some (kn\<lparr>kn_obufq := q\<rparr>)
   }"

text \<open>
  \<open>kn_new\<close> says whether the structure can be allocated, \<open>base_set\<close> whether both calls of
  \<open>event_base_set\<close> succeed.  The result is \<^const>\<open>None\<close> for a null pointer.
\<close>

definition kcn_net_new ::
  "bool \<Rightarrow> allocator \<Rightarrow> bool \<Rightarrow> errno list \<Rightarrow> sock \<Rightarrow> nat \<Rightarrow> string \<Rightarrow> kcn_net option option" where
  "kcn_net_new kn_new malloc base_set everrs fd size' name =
     (if \<not> kn_new then Some None
      else case (kcn_buf_data_new malloc size', kcn_buf_data_new malloc size') of
        (Some ibufdata, Some obufdata) \<Rightarrow> do {
          ibuf \<leftarrow> kcn_buf_init (Some ibufdata);
          kn \<leftarrow> Some \<lparr>kn_state = KCN_NET_STATE_INIT, kn_name = take (KCN_SOCKNAMELEN - 1) name,
                     kn_fd = Some fd, kn_evread = False, kn_evwrite = False, kn_everrs = everrs,
                     kn_ibuf = ibuf, kn_obufdata = obufdata, kn_obufq = kcn_buf_queue_init\<rparr>;
          (if \<not> base_set then Some None
           else case kcn_net_write_enable kn of
             (Inl _, kn) \<Rightarrow> Some None
           | (Inr _, kn) \<Rightarrow> Some (Some kn))
        }
      | _ \<Rightarrow> Some None)"

section \<open>Sending\<close>

text \<open>
  The buffer for the next message shares its data with the connection; \<open>kn_obuf_sync\<close> stores what
  was done to it.
\<close>

definition kcn_net_obuf :: "kcn_net \<Rightarrow> kcn_buf option" where
  "kcn_net_obuf kn = kcn_buf_init (Some (kn_obufdata kn))"

definition kn_obuf_sync :: "kcn_buf \<Rightarrow> kcn_net \<Rightarrow> kcn_net" where
  "kn_obuf_sync kb kn = (case kb_kbd kb of None \<Rightarrow> kn | Some d \<Rightarrow> kn\<lparr>kn_obufdata := d\<rparr>)"

definition kcn_net_write :: "allocator \<Rightarrow> kcn_net \<Rightarrow> kcn_buf \<Rightarrow> (unit result \<times> kcn_net) option" where
  "kcn_net_write malloc kn kb =
     (if kn_state kn = KCN_NET_STATE_DISCONNECTED then Some (Inl ENETDOWN, kn)
      else do {
        (enqueued, q) \<leftarrow> kcn_buf_enqueue malloc kb (kn_obufq kn);
        (if \<not> enqueued then Some (Inl ENOMEM, kn\<lparr>kn_obufq := q\<rparr>)
         else Some (kcn_net_write_enable (kn\<lparr>kn_obufq := q\<rparr>)))
      })"

text \<open>The loop of \<open>kcn_net_write_cb\<close>: the element it writes is in the queue, so its trim is, too.\<close>

partial_function (option) kcn_net_write_loop :: "kcn_buf \<Rightarrow> sock \<Rightarrow> kcn_net \<Rightarrow> kcn_net option" where
  "kcn_net_write_loop kb sk kn =
     (case kcn_buf_fetch kb (kn_obufq kn) of
        None \<Rightarrow> None
      | Some (fetched, kb) \<Rightarrow>
          (if \<not> fetched then Some (kn\<lparr>kn_fd := Some sk\<rparr>)
           else case kcn_buf_write sock_write sk kb of
             None \<Rightarrow> None
           | Some (error, sk, kb) \<Rightarrow>
               (let kn = kn\<lparr>kn_obufq := kb_sync kb (kn_obufq kn), kn_fd := Some sk\<rparr> in
                if error = EAGAIN then Some (snd (kcn_net_write_enable kn))
                else if error \<noteq> 0 then kcn_net_disconnect kn
                else case kcn_buf_trailingdata kb of
                  None \<Rightarrow> None
                | Some t \<Rightarrow>
                    (if t = 0
                     then case kcn_buf_drop kb (kn_obufq kn) of
                            None \<Rightarrow> None
                          | Some (kb, q) \<Rightarrow> kcn_net_write_loop kb sk (kn\<lparr>kn_obufq := q\<rparr>)
                     else kcn_net_write_loop kb sk kn))))"

definition kcn_net_write_cb :: "ev_flag set \<Rightarrow> kcn_net \<Rightarrow> kcn_net option" where
  "kcn_net_write_cb events kn = do {
     c_assert (kn_fd kn \<noteq> None);
     (if kn_state kn = KCN_NET_STATE_PENDING \<and> EV_WRITE \<notin> events \<and> EV_TIMEOUT \<in> events
      then kcn_net_state_change kn KCN_NET_STATE_ESTABLISHED
      else do {
        (go, kn) \<leftarrow> kcn_net_event_check kn events EV_WRITE;
        (if \<not> go then Some kn
         else do {
           sk \<leftarrow> kn_fd kn;
           kcn_net_write_loop kcn_net_purge_buf sk kn
         })
      })
   }"

section \<open>Receiving\<close>

definition kcn_net_read_cb ::
  "'d net_readcb \<Rightarrow> ev_flag set \<Rightarrow> kcn_net \<Rightarrow> 'd \<Rightarrow> (kcn_net \<times> 'd) option" where
  "kcn_net_read_cb readcb events kn d = do {
     c_assert (kn_fd kn \<noteq> None);
     (go, kn) \<leftarrow> kcn_net_event_check kn events EV_READ;
     (if \<not> go then Some (kn, d)
      else do {
        sk \<leftarrow> kn_fd kn;
        (error, sk, ibuf) \<leftarrow> kcn_buf_read sock_read sk (kn_ibuf kn);
        kn \<leftarrow> Some (kn\<lparr>kn_fd := Some sk, kn_ibuf := ibuf\<rparr>);
        (error, kn, d) \<leftarrow> (if error \<noteq> 0 then Some (error, kn, d) else readcb kn d);
        (if error = EAGAIN then do {
           (_, kn) \<leftarrow> kcn_net_read_enable kn;
           Some (kn, d)
         } else if error \<noteq> 0 then do {
           kn \<leftarrow> kcn_net_disconnect kn;
           Some (kn, d)
         } else Some (kn, d))
      })
   }"

end
