(* ===== verification/Kcn_Net_Props.thy ===== *)
theory Kcn_Net_Props
  imports Kcn_Net
begin

text \<open>
  What a connection promises: the invariant of its state, buffers and pending events; that no
  callback of it fails an assertion; that the bytes written to the socket and those still queued
  are together the bytes that were enqueued; and, for any sequence of events, that the invariant
  holds in every reachable state.  What the read callback has to keep for that is the locale
  \<open>net_reader\<close>.
\<close>

section \<open>The invariant\<close>

definition obytes :: "kcn_net \<Rightarrow> byte list" where
  "obytes kn = concat (map kbd_bytes (kn_obufq kn))"

definition net_ok :: "nat \<Rightarrow> kcn_net \<Rightarrow> bool" where
  "net_ok cap kn \<longleftrightarrow>
     (kn_state kn = KCN_NET_STATE_DISCONNECTED \<longleftrightarrow> kn_fd kn = None) \<and>
     (kn_fd kn = None \<longrightarrow> \<not> kn_evread kn \<and> \<not> kn_evwrite kn) \<and>
     (kn_evread kn \<longrightarrow> kn_state kn = KCN_NET_STATE_ESTABLISHED) \<and>
     kb_wf (kn_ibuf kn) \<and> kb_cap (kn_ibuf kn) = cap \<and>
     kbd_wf (kn_obufdata kn) \<and> kbd_size (kn_obufdata kn) = cap \<and>
     (\<forall>d \<in> set (kn_obufq kn). kbd_wf d \<and> kbd_bytes d \<noteq> [])"

text \<open>All data is unread and there is room for the next read, unless the connection does not wait for one.\<close>

definition ibuf_room :: "nat \<Rightarrow> kcn_net \<Rightarrow> bool" where
  "ibuf_room cap kn \<longleftrightarrow> kb_heading (kn_ibuf kn) = [] \<and> length (kb_data (kn_ibuf kn)) < cap"

definition net_inv :: "nat \<Rightarrow> kcn_net \<Rightarrow> bool" where
  "net_inv cap kn \<longleftrightarrow> net_ok cap kn \<and>
     (kn_evread kn \<or> kn_state kn = KCN_NET_STATE_INIT \<or> kn_state kn = KCN_NET_STATE_PENDING \<longrightarrow>
      ibuf_room cap kn)"

lemma net_ok_fields [simp]:
  "net_ok cap (kn\<lparr>kn_everrs := es\<rparr>) = net_ok cap kn"
  "ibuf_room cap (kn\<lparr>kn_everrs := es\<rparr>) = ibuf_room cap kn"
  "ibuf_room cap (kn\<lparr>kn_evread := b\<rparr>) = ibuf_room cap kn"
  "ibuf_room cap (kn\<lparr>kn_evwrite := b\<rparr>) = ibuf_room cap kn"
  "ibuf_room cap (kn\<lparr>kn_state := s\<rparr>) = ibuf_room cap kn"
  "ibuf_room cap (kn\<lparr>kn_fd := f\<rparr>) = ibuf_room cap kn"
  "ibuf_room cap (kn\<lparr>kn_obufq := q\<rparr>) = ibuf_room cap kn"
  "obytes (kn\<lparr>kn_everrs := es\<rparr>) = obytes kn"
  "obytes (kn\<lparr>kn_evread := b\<rparr>) = obytes kn"
  "obytes (kn\<lparr>kn_evwrite := b\<rparr>) = obytes kn"
  "obytes (kn\<lparr>kn_state := s\<rparr>) = obytes kn"
  "obytes (kn\<lparr>kn_fd := f\<rparr>) = obytes kn"
  by (simp_all add: net_ok_def ibuf_room_def obytes_def)

section \<open>Events and states\<close>

lemma write_enable_ok:
  assumes "net_ok cap kn" "kn_fd kn \<noteq> None"
  shows "\<exists>r kn'. kcn_net_write_enable kn = (r, kn') \<and> net_ok cap kn' \<and> kn_fd kn' = kn_fd kn \<and>
    kn_state kn' = kn_state kn \<and> kn_obufq kn' = kn_obufq kn \<and> kn_ibuf kn' = kn_ibuf kn \<and>
    kn_evread kn' = kn_evread kn \<and> kn_obufdata kn' = kn_obufdata kn \<and>
    (r = Inr () \<longrightarrow> kn_evwrite kn') \<and> (kn_everrs kn = [] \<longrightarrow> r = Inr () \<and> kn_everrs kn' = [])"
proof (cases "kn_everrs kn")
  case Nil
  with assms show ?thesis
    by (auto simp: kcn_net_write_enable_def kcn_net_event_add_def net_ok_def)
next
  case (Cons e es)
  with assms show ?thesis
    by (auto simp: kcn_net_write_enable_def kcn_net_event_add_def net_ok_def)
qed

lemma read_enable_ok:
  assumes "net_ok cap kn" "kn_fd kn \<noteq> None" "ibuf_room cap kn"
  shows "\<exists>r kn'. kcn_net_read_enable kn = Some (r, kn') \<and> net_inv cap kn' \<and> kn_fd kn' = kn_fd kn \<and>
    kn_obufq kn' = kn_obufq kn \<and> kn_ibuf kn' = kn_ibuf kn \<and> kn_evwrite kn' = kn_evwrite kn \<and>
    kn_obufdata kn' = kn_obufdata kn \<and>
    (kn_state kn = KCN_NET_STATE_ESTABLISHED \<longrightarrow> kn_state kn' = KCN_NET_STATE_ESTABLISHED \<and>
       (kn_everrs kn = [] \<longrightarrow> kn_evread kn')) \<and> (kn_everrs kn = [] \<longrightarrow> kn_everrs kn' = [])"
proof (cases "kn_everrs kn")
  case Nil
  with assms show ?thesis
    by (auto simp: kcn_net_read_enable_def kcn_net_event_enable_read_def kcn_net_event_add_def
        net_ok_def net_inv_def)
next
  case (Cons e es)
  with assms show ?thesis
    by (auto simp: kcn_net_read_enable_def kcn_net_event_enable_read_def kcn_net_event_add_def
        net_ok_def net_inv_def)
qed

lemma disconnect_ok:
  assumes "net_ok cap kn"
  shows "\<exists>kn'. kcn_net_disconnect kn = Some kn' \<and> net_inv cap kn' \<and> kn_fd kn' = None \<and>
    kn_state kn' = KCN_NET_STATE_DISCONNECTED \<and> kn_obufq kn' = kn_obufq kn"
  using assms
  by (auto simp: kcn_net_disconnect_def kcn_net_state_change_def net_ok_def net_inv_def)

lemma established_ok:
  assumes "net_inv cap kn" "kn_fd kn \<noteq> None"
  shows "\<exists>kn'. kcn_net_state_change kn KCN_NET_STATE_ESTABLISHED = Some kn' \<and> net_inv cap kn' \<and>
    kn_state kn' = KCN_NET_STATE_ESTABLISHED \<and> kn_fd kn' = kn_fd kn \<and> kn_obufq kn' = kn_obufq kn \<and>
    kn_ibuf kn' = kn_ibuf kn \<and> kn_evwrite kn' = kn_evwrite kn \<and>
    (kn_state kn = KCN_NET_STATE_PENDING \<and> kn_everrs kn = [] \<longrightarrow> kn_evread kn') \<and>
    (kn_state kn \<noteq> KCN_NET_STATE_PENDING \<longrightarrow> kn_evread kn' = kn_evread kn) \<and>
    (kn_everrs kn = [] \<longrightarrow> kn_everrs kn' = [])"
proof (cases "kn_state kn = KCN_NET_STATE_PENDING")
  case True
  let ?kn = "kn\<lparr>kn_state := KCN_NET_STATE_ESTABLISHED\<rparr>"
  from True assms have "net_ok cap ?kn" "ibuf_room cap ?kn" by (auto simp: net_ok_def net_inv_def)
  from read_enable_ok [OF this(1) _ this(2)] assms(2) True show ?thesis
    by (auto simp: kcn_net_state_change_def Let_def)
next
  case False
  with assms show ?thesis
    by (auto simp: kcn_net_state_change_def Let_def net_ok_def net_inv_def)
qed

section \<open>Sending\<close>

lemma net_write_ok:
  assumes "net_ok cap kn" "kn_fd kn \<noteq> None" "kb_wf kb" "kb_data kb \<noteq> []" "alloc_ok malloc"
  shows "\<exists>r kn'. kcn_net_write malloc kn kb = Some (r, kn') \<and> net_ok cap kn' \<and> kn_fd kn' = kn_fd kn \<and>
    kn_state kn' = kn_state kn \<and> kn_ibuf kn' = kn_ibuf kn \<and> kn_evread kn' = kn_evread kn \<and>
    kn_obufdata kn' = kn_obufdata kn \<and>
    (if malloc (length (kb_data kb)) = None then r = Inl ENOMEM \<and> obytes kn' = obytes kn
     else obytes kn' = obytes kn @ kb_data kb \<and>
       (kn_everrs kn = [] \<longrightarrow> r = Inr () \<and> kn_everrs kn' = [] \<and> kn_evwrite kn'))"
proof -
  from assms have st: "kn_state kn \<noteq> KCN_NET_STATE_DISCONNECTED" by (auto simp: net_ok_def)
  show ?thesis
  proof (cases "malloc (length (kb_data kb)) = None")
    case True
    with enqueue_ok [OF assms(5,3), of "kn_obufq kn"] assms st show ?thesis
      by (simp add: kcn_net_write_def)
  next
    case False
    with enqueue_ok [OF assms(5,3), of "kn_obufq kn"] obtain d where d:
      "kcn_buf_enqueue malloc kb (kn_obufq kn) = Some (True, kn_obufq kn @ [d])" "kbd_wf d"
      "kbd_bytes d = kb_data kb" by auto
    let ?kn = "kn\<lparr>kn_obufq := kn_obufq kn @ [d]\<rparr>"
    from d assms have "net_ok cap ?kn" by (auto simp: net_ok_def)
    from write_enable_ok [OF this] assms(2) obtain r kn' where
      "kcn_net_write_enable ?kn = (r, kn')" "net_ok cap kn'" "kn_fd kn' = kn_fd kn"
      "kn_state kn' = kn_state kn" "kn_obufq kn' = kn_obufq kn @ [d]" "kn_ibuf kn' = kn_ibuf kn"
      "kn_evread kn' = kn_evread kn" "kn_obufdata kn' = kn_obufdata kn"
      "r = Inr () \<longrightarrow> kn_evwrite kn'" "kn_everrs kn = [] \<longrightarrow> r = Inr () \<and> kn_everrs kn' = []" by auto
    with d False st show ?thesis by (auto simp: kcn_net_write_def obytes_def)
  qed
qed

text \<open>One round of the write loop on the first element of the queue.\<close>

lemma write_first:
  assumes "kbd_wf d" "kbd_bytes d \<noteq> []"
  obtains kb1 error sk' kb2 d' n where
    "kcn_buf_fetch kb (d # q) = Some (True, kb1)"
    "kcn_buf_write sock_write sk kb1 = Some (error, sk', kb2)" "kb_sync kb2 (d # q) = d' # q"
    "kb_kbd kb2 = Some d'" "kbd_wf d'" "kbd_bytes d' = drop n (kbd_bytes d)"
    "kcn_buf_trailingdata kb2 = Some (length (kbd_bytes d'))" "n \<le> length (kbd_bytes d)"
    "error = 0 \<longleftrightarrow> 0 < n" "sk_tx sk' = sk_tx sk @ take n (kbd_bytes d)" "sk_rx sk' = sk_rx sk"
    "sk_eof sk' = sk_eof sk" "sys_used sk sk'"
    "steady sk \<Longrightarrow> error \<noteq> 0 \<Longrightarrow> error = EAGAIN \<and> length (sk_sys sk') < length (sk_sys sk)"
proof -
  from fetch_zbuf [OF assms(1)] obtain pre post where
    f: "kcn_buf_fetch kb (d # q) = Some (True, zbuf pre [] (kbd_bytes d) post)" by blast
  from sock_writer.write_zbuf [of sk pre "[]" "kbd_bytes d" post] obtain error sk' n where
    w: "kcn_buf_write sock_write sk (zbuf pre [] (kbd_bytes d) post) =
      Some (error, sk', zbuf (pre @ take n (kbd_bytes d)) [] (drop n (kbd_bytes d)) post)"
    "n \<le> length (kbd_bytes d)" "error = 0 \<longleftrightarrow> 0 < n" "sock_wr_post sk (kbd_bytes d) error n sk'" by auto
  let ?kb = "zbuf (pre @ take n (kbd_bytes d)) [] (drop n (kbd_bytes d)) post"
  obtain d' where d': "kb_kbd ?kb = Some d'" using zbuf_fields(5) by blast
  have "kbd_wf d'" "kbd_bytes d' = drop n (kbd_bytes d)"
    using kb_wf_kbd [OF kb_wf_zbuf d'] kb_data_kbd [OF d'] by simp_all
  moreover have "kb_sync ?kb (d # q) = d' # q" using d' by (simp add: kb_sync_def)
  ultimately show thesis
    using that [OF f w(1) _ d'] w d' assms(2) by (simp add: zbuf_len sock_wr_post_def)
qed

text \<open>
  The loop ends with the queue written out, or with the connection closed, or with the socket full;
  in that case the write event is pending again (unless libevent refuses it).  A socket that works
  takes the whole queue, or uses up an outcome and is tried again.
\<close>

lemma write_loop_ok:
  assumes "net_ok cap kn" "kn_fd kn = Some sk" "\<not> kn_evread kn \<or> ibuf_room cap kn"
  shows "\<exists>kn'. kcn_net_write_loop kb sk kn = Some kn' \<and> net_ok cap kn' \<and>
    (kn_state kn' = KCN_NET_STATE_DISCONNECTED \<or>
     (\<exists>sk'. kn_fd kn' = Some sk' \<and> sk_tx sk' @ obytes kn' = sk_tx sk @ obytes kn \<and>
        sk_rx sk' = sk_rx sk \<and> sk_eof sk' = sk_eof sk \<and> kn_state kn' = kn_state kn \<and>
        kn_ibuf kn' = kn_ibuf kn \<and> kn_evread kn' = kn_evread kn \<and>
        (kn_everrs kn = [] \<longrightarrow> kn_obufq kn' = [] \<or> kn_evwrite kn'))) \<and>
    (steady sk \<and> kn_everrs kn = [] \<longrightarrow> (\<exists>sk'. kn_fd kn' = Some sk' \<and> sys_used sk sk' \<and>
       (kn_obufq kn' = [] \<and> kn_evwrite kn' = kn_evwrite kn \<or> kn_evwrite kn' \<and> length (sk_sys sk') < length (sk_sys sk))))"
  using assms
proof (induction "length (obytes kn)" arbitrary: kb sk kn rule: less_induct)
  case less
  show ?case
  proof (cases "kn_obufq kn")
    case Nil
    with less.prems(2) have "kcn_net_write_loop kb sk kn = Some kn"
      by (subst kcn_net_write_loop.simps) (cases kn, simp)
    with Nil less.prems show ?thesis by auto
  next
    case (Cons d q)
    with less.prems(1) have dwf: "kbd_wf d" "kbd_bytes d \<noteq> []" and
      q: "\<forall>d \<in> set q. kbd_wf d \<and> kbd_bytes d \<noteq> []" by (auto simp: net_ok_def)
    from write_first [OF dwf, of kb q sk] obtain kb1 error sk1 kb2 d' n where w:
      "kcn_buf_fetch kb (d # q) = Some (True, kb1)"
      "kcn_buf_write sock_write sk kb1 = Some (error, sk1, kb2)" "kb_sync kb2 (d # q) = d' # q"
      "kb_kbd kb2 = Some d'" "kbd_wf d'" "kbd_bytes d' = drop n (kbd_bytes d)"
      "kcn_buf_trailingdata kb2 = Some (length (kbd_bytes d'))" "n \<le> length (kbd_bytes d)"
      "error = 0 \<longleftrightarrow> 0 < n" "sk_tx sk1 = sk_tx sk @ take n (kbd_bytes d)" "sk_rx sk1 = sk_rx sk"
      "sk_eof sk1 = sk_eof sk" "sys_used sk sk1"
      "steady sk \<longrightarrow> error \<noteq> 0 \<longrightarrow> error = EAGAIN \<and> length (sk_sys sk1) < length (sk_sys sk)" by metis
    have later: "steady sk \<longrightarrow> steady sk1" "sys_used sk1 sk2 \<longrightarrow> sys_used sk sk2"
      "length (sk_sys sk2) < length (sk_sys sk1) \<longrightarrow> length (sk_sys sk2) < length (sk_sys sk)" for sk2
      using sys_used_steady [OF w(13)] sys_used_trans [OF w(13)] sys_used_length [OF w(13)] by auto
    let ?kn = "kn\<lparr>kn_obufq := d' # q, kn_fd := Some sk1\<rparr>"
    have cons: "sk_tx sk1 @ kbd_bytes d' @ concat (map kbd_bytes q) = sk_tx sk @ obytes kn"
      using w(6,10) Cons by (simp add: obytes_def)
    show ?thesis
    proof (cases "error = 0")
      case False
      with w(9) have "n = 0" by simp
      with w(5,6) dwf q less.prems have ok: "net_ok cap ?kn" by (auto simp: net_ok_def)
      have sys: "steady sk \<longrightarrow> error = EAGAIN \<and> length (sk_sys sk1) < length (sk_sys sk)" using w(14) False by blast
      show ?thesis
      proof (cases "error = EAGAIN")
        case True
        then have "kcn_net_write_loop kb sk kn = Some (snd (kcn_net_write_enable ?kn))"
          using w(1-3) Cons by (subst kcn_net_write_loop.simps) (simp add: Let_def)
        with write_enable_ok [OF ok] less.prems cons w(11-13) sys show ?thesis by (auto simp: obytes_def)
      next
        case False
        with \<open>error \<noteq> 0\<close> have "kcn_net_write_loop kb sk kn = kcn_net_disconnect ?kn"
          using w(1-3) Cons by (subst kcn_net_write_loop.simps) (simp add: Let_def)
        with disconnect_ok [OF ok] sys False show ?thesis by (auto simp: net_inv_def)
      qed
    next
      case True
      with w(9) have n: "0 < n" by simp
      show ?thesis
      proof (cases "kbd_bytes d' = []")
        case False
        with w(5) q less.prems have "net_ok cap ?kn" by (auto simp: net_ok_def)
        moreover have "length (obytes ?kn) < length (obytes kn)"
          using w(6,8) n dwf Cons by (simp add: obytes_def)
        moreover have "kcn_net_write_loop kb sk kn = kcn_net_write_loop kb2 sk1 ?kn"
          using True False w(1-3,7) Cons by (subst kcn_net_write_loop.simps) (simp add: Let_def)
        ultimately show ?thesis
          using less.hyps [of ?kn sk1 kb2] less.prems cons w(11,12) later by (simp add: obytes_def ibuf_room_def) blast
      next
        case empty: True
        let ?kn' = "kn\<lparr>kn_fd := Some sk1, kn_obufq := q\<rparr>"
        from q less.prems have "net_ok cap ?kn'" by (auto simp: net_ok_def)
        moreover have "length (obytes ?kn') < length (obytes kn)"
          using dwf Cons by (simp add: obytes_def)
        moreover have "kcn_net_write_loop kb sk kn = kcn_net_write_loop \<lparr>kb_kbd = None, kb_cp = 0\<rparr> sk1 ?kn'"
          using True empty w(1-4,7) Cons by (subst kcn_net_write_loop.simps) (simp add: Let_def)
        ultimately show ?thesis
          using less.hyps [of ?kn' sk1 "\<lparr>kb_kbd = None, kb_cp = 0\<rparr>"] less.prems cons empty w(11,12) later
          by (simp add: obytes_def ibuf_room_def) blast
      qed
    qed
  qed
qed

lemma write_cb_ok:
  assumes "net_inv cap kn" "kn_evwrite kn"
  shows "\<exists>kn'. kcn_net_write_cb events (kn\<lparr>kn_evwrite := False\<rparr>) = Some kn' \<and> net_inv cap kn' \<and>
    (kn_state kn' = KCN_NET_STATE_DISCONNECTED \<or>
     (\<exists>sk sk'. kn_fd kn = Some sk \<and> kn_fd kn' = Some sk' \<and>
        sk_tx sk' @ obytes kn' = sk_tx sk @ obytes kn \<and> sk_rx sk' = sk_rx sk \<and>
        (EV_WRITE \<in> events \<and> kn_everrs kn = [] \<longrightarrow> kn_obufq kn' = [] \<or> kn_evwrite kn')))"
proof -
  let ?kn = "kn\<lparr>kn_evwrite := False\<rparr>"
  from assms have "kn_fd kn \<noteq> None" by (auto simp: net_inv_def net_ok_def)
  then obtain sk where sk: "kn_fd kn = Some sk" by blast
  from assms have inv: "net_inv cap ?kn" by (auto simp: net_inv_def net_ok_def)
  from established_ok [OF this] sk obtain kn1 where est:
    "kcn_net_state_change ?kn KCN_NET_STATE_ESTABLISHED = Some kn1" "net_inv cap kn1"
    "kn_state kn1 = KCN_NET_STATE_ESTABLISHED" "kn_fd kn1 = Some sk" "kn_obufq kn1 = kn_obufq kn"
    "kn_everrs kn = [] \<longrightarrow> kn_everrs kn1 = []" by auto
  from est(5) have ob: "obytes kn1 = obytes kn" by (simp add: obytes_def)
  show ?thesis
  proof (cases "kn_state kn = KCN_NET_STATE_PENDING \<and> EV_WRITE \<notin> events \<and> EV_TIMEOUT \<in> events")
    case True
    with est sk ob show ?thesis by (simp add: kcn_net_write_cb_def)
  next
    case False
    note notpend = this
    show ?thesis
    proof (cases "EV_WRITE \<in> events")
      case True
      from est have "net_ok cap kn1" "\<not> kn_evread kn1 \<or> ibuf_room cap kn1" by (auto simp: net_inv_def)
      from write_loop_ok [OF this(1) est(4) this(2), of kcn_net_purge_buf] obtain kn2 where w:
        "kcn_net_write_loop kcn_net_purge_buf sk kn1 = Some kn2" "net_ok cap kn2"
        "kn_state kn2 = KCN_NET_STATE_DISCONNECTED \<or>
         (\<exists>sk'. kn_fd kn2 = Some sk' \<and> sk_tx sk' @ obytes kn2 = sk_tx sk @ obytes kn1 \<and>
            sk_rx sk' = sk_rx sk \<and> sk_eof sk' = sk_eof sk \<and> kn_state kn2 = kn_state kn1 \<and>
            kn_ibuf kn2 = kn_ibuf kn1 \<and> kn_evread kn2 = kn_evread kn1 \<and>
            (kn_everrs kn1 = [] \<longrightarrow> kn_obufq kn2 = [] \<or> kn_evwrite kn2))" by blast
      have "kcn_net_write_cb events ?kn = Some kn2"
        using True sk est(1,4) w(1) by (simp add: kcn_net_write_cb_def kcn_net_event_check_def)
      moreover have "net_inv cap kn2"
        using w(3)
      proof
        assume "kn_state kn2 = KCN_NET_STATE_DISCONNECTED"
        with w(2) show ?thesis by (simp add: net_inv_def net_ok_def)
      next
        assume "\<exists>sk'. kn_fd kn2 = Some sk' \<and> sk_tx sk' @ obytes kn2 = sk_tx sk @ obytes kn1 \<and>
            sk_rx sk' = sk_rx sk \<and> sk_eof sk' = sk_eof sk \<and> kn_state kn2 = kn_state kn1 \<and>
            kn_ibuf kn2 = kn_ibuf kn1 \<and> kn_evread kn2 = kn_evread kn1 \<and>
            (kn_everrs kn1 = [] \<longrightarrow> kn_obufq kn2 = [] \<or> kn_evwrite kn2)"
        then have "kn_state kn2 = kn_state kn1" "kn_ibuf kn2 = kn_ibuf kn1" "kn_evread kn2 = kn_evread kn1"
          by blast+
        with w(2) est(2,3) show ?thesis by (simp add: net_inv_def ibuf_room_def)
      qed
      ultimately show ?thesis using w(3) est(4,6) ob sk by auto
    next
      case False
      show ?thesis
      proof (cases "EV_TIMEOUT \<in> events")
        case True
        from inv disconnect_ok [of cap ?kn] obtain kn' where
          "kcn_net_disconnect ?kn = Some kn'" "net_inv cap kn'"
          "kn_state kn' = KCN_NET_STATE_DISCONNECTED" by (auto simp: net_inv_def)
        with True False notpend sk show ?thesis
          by (simp add: kcn_net_write_cb_def kcn_net_event_check_def kcn_net_timeout_def)
      next
        case notimeout: False
        with False inv sk show ?thesis
          by (simp add: kcn_net_write_cb_def kcn_net_event_check_def)
      qed
    qed
  qed
qed

section \<open>Receiving\<close>

lemma read_finish:
  assumes "(if e = EAGAIN then map_option (\<lambda>(_, kn). (kn, d)) (kcn_net_read_enable kn)
      else if e \<noteq> 0 then map_option (\<lambda>kn. (kn, d)) (kcn_net_disconnect kn)
      else Some (kn, d)) = Some (kn', d')"
    "net_ok cap kn" "kn_fd kn \<noteq> None" "kn_state kn = KCN_NET_STATE_ESTABLISHED" "\<not> kn_evread kn"
    "e = EAGAIN \<longrightarrow> ibuf_room cap kn"
  shows "net_inv cap kn' \<and> d' = d"
proof (cases "e = EAGAIN")
  case True
  with assms obtain r kn1 where "kcn_net_read_enable kn = Some (r, kn1)" "net_inv cap kn1"
    using read_enable_ok [OF assms(2,3)] by blast
  with True assms(1) show ?thesis by simp
next
  case False
  from disconnect_ok [OF assms(2)] obtain kn1 where "kcn_net_disconnect kn = Some kn1" "net_inv cap kn1"
    by blast
  moreover have "net_inv cap kn" using assms by (simp add: net_inv_def)
  ultimately show ?thesis using False assms(1) by (auto split: if_splits)
qed

text \<open>
  What the read callback keeps.  It is called on an established connection with data in the buffer;
  it may fault, but when it returns it has left the connection open, has not enabled the read
  event, and returns \<open>EAGAIN\<close>, which asks for more data, only when there is room for it.
\<close>

locale net_reader =
  fixes readcb :: "'d net_readcb" and cap :: nat and dinv :: "'d \<Rightarrow> bool"
  assumes cb_ok: "net_ok cap kn \<Longrightarrow> kn_fd kn \<noteq> None \<Longrightarrow> kn_state kn = KCN_NET_STATE_ESTABLISHED \<Longrightarrow>
      \<not> kn_evread kn \<Longrightarrow> kb_heading (kn_ibuf kn) = [] \<Longrightarrow> kb_data (kn_ibuf kn) \<noteq> [] \<Longrightarrow> dinv d \<Longrightarrow> readcb kn d = Some (e, kn', d') \<Longrightarrow>
      net_ok cap kn' \<and> kn_fd kn' = kn_fd kn \<and> kn_state kn' = kn_state kn \<and> \<not> kn_evread kn' \<and>
      dinv d' \<and> (e = EAGAIN \<longrightarrow> ibuf_room cap kn')"
begin

lemma read_cb_ok:
  assumes "net_inv cap kn" "kn_evread kn" "dinv d"
    "kcn_net_read_cb readcb events (kn\<lparr>kn_evread := False\<rparr>) d = Some (kn', d')"
  shows "net_inv cap kn' \<and> dinv d'"
proof -
  let ?kn = "kn\<lparr>kn_evread := False\<rparr>"
  from assms(1,2) have "kn_fd kn \<noteq> None" and room: "ibuf_room cap kn"
    and st: "kn_state kn = KCN_NET_STATE_ESTABLISHED" by (auto simp: net_inv_def net_ok_def)
  then obtain sk where sk: "kn_fd kn = Some sk" by blast
  from assms(1) st have ok: "net_ok cap ?kn" by (auto simp: net_inv_def net_ok_def)
  from disconnect_ok [OF this] obtain knd where dis: "kcn_net_disconnect ?kn = Some knd" "net_inv cap knd"
    by blast
  show ?thesis
  proof (cases "EV_READ \<in> events")
    case False
    with assms(3,4) sk dis st ok show ?thesis
      by (auto simp: kcn_net_read_cb_def kcn_net_event_check_def kcn_net_timeout_def net_inv_def
          split: if_splits)
  next
    case True
    from assms(1) have "kb_wf (kn_ibuf kn)" by (simp add: net_inv_def net_ok_def)
    then obtain pre h t post where "kn_ibuf kn = zbuf pre h t post" by (rule kb_wf_zbufE)
    moreover from assms(1) room have "kb_heading (kn_ibuf kn) = []" "kb_cap (kn_ibuf kn) = cap"
      by (simp_all add: net_inv_def net_ok_def ibuf_room_def)
    ultimately have ib: "kn_ibuf kn = zbuf pre [] t post" "length pre + length t + length post = cap"
      by simp_all
    then have "kb_data (kn_ibuf kn) = t" by simp
    with room have "length t < cap" by (simp add: ibuf_room_def)
    with ib(2) have "0 < length pre + length post" by linarith
    then have "pre \<noteq> [] \<or> post \<noteq> []" by auto
    from sock_reader.read_zbuf [OF this, of sk "[]" t] obtain error sk1 bs pre1 post1 where rd:
      "kcn_buf_read sock_read sk (zbuf pre [] t post) = Some (error, sk1, zbuf pre1 [] (t @ bs) post1)"
      "error = 0 \<longleftrightarrow> bs \<noteq> []" "length pre1 + length bs + length post1 = length pre + length post" by blast
    let ?kn1 = "?kn\<lparr>kn_fd := Some sk1, kn_ibuf := zbuf pre1 [] (t @ bs) post1\<rparr>"
    have ok1: "net_ok cap ?kn1" using ok ib rd(3) sk by (simp add: net_ok_def)
    have cb: "kcn_net_read_cb readcb events ?kn d =
        (case (if error \<noteq> 0 then Some (error, ?kn1, d) else readcb ?kn1 d) of
           None \<Rightarrow> None
         | Some (error, kn, d) \<Rightarrow>
             if error = EAGAIN then map_option (\<lambda>(_, kn). (kn, d)) (kcn_net_read_enable kn)
             else if error \<noteq> 0 then map_option (\<lambda>kn. (kn, d)) (kcn_net_disconnect kn)
             else Some (kn, d))"
      using True sk st ib rd(1)
      by (auto simp: kcn_net_read_cb_def kcn_net_event_check_def kcn_net_state_change_def map_option_case
          split: option.split)
    show ?thesis
    proof (cases "error = 0")
      case False
      with rd(2,3) room ib have r1: "ibuf_room cap ?kn1" by (simp add: ibuf_room_def)
      from cb False assms(4) have "(if error = EAGAIN then map_option (\<lambda>(_, kn). (kn, d)) (kcn_net_read_enable ?kn1)
          else if error \<noteq> 0 then map_option (\<lambda>kn. (kn, d)) (kcn_net_disconnect ?kn1)
          else Some (?kn1, d)) = Some (kn', d')" by (simp only: if_True option.case prod.case not_False_eq_True)
      from read_finish [OF this ok1] r1 st assms(3) show ?thesis by simp
    next
      case e: True
      with rd(2) have ne: "kb_data (kn_ibuf ?kn1) \<noteq> []" by simp
      from e cb assms(4) obtain e' kn2 d2 where r: "readcb ?kn1 d = Some (e', kn2, d2)"
        by (auto split: option.splits)
      from cb_ok [OF ok1 _ _ _ _ ne assms(3) r] st have k: "net_ok cap kn2" "kn_fd kn2 = Some sk1"
        "kn_state kn2 = KCN_NET_STATE_ESTABLISHED" "\<not> kn_evread kn2" "dinv d2"
        "e' = EAGAIN \<longrightarrow> ibuf_room cap kn2" by auto
      from cb e r assms(4) have "(if e' = EAGAIN then map_option (\<lambda>(_, kn). (kn, d2)) (kcn_net_read_enable kn2)
          else if e' \<noteq> 0 then map_option (\<lambda>kn. (kn, d2)) (kcn_net_disconnect kn2)
          else Some (kn2, d2)) = Some (kn', d')" by (cases "e' = EAGAIN"; cases "e' = 0") simp_all
      from read_finish [OF this k(1)] k show ?thesis by simp
    qed
  qed
qed

end

section \<open>Runs\<close>

text \<open>
  A run of the event loop: a pending event fires (and is then no longer pending) with what libevent
  reports, the peer sends or closes, and the system calls to come have some outcome.
\<close>

inductive net_step :: "'d net_readcb \<Rightarrow> kcn_net \<times> 'd \<Rightarrow> kcn_net \<times> 'd \<Rightarrow> bool"
  for readcb :: "'d net_readcb" where
  ev_read: "kn_evread kn \<Longrightarrow> events \<subseteq> {EV_READ, EV_TIMEOUT} \<Longrightarrow>
    kcn_net_read_cb readcb events (kn\<lparr>kn_evread := False\<rparr>) d = Some (kn', d') \<Longrightarrow>
    net_step readcb (kn, d) (kn', d')"
| ev_write: "kn_evwrite kn \<Longrightarrow> events \<subseteq> {EV_WRITE, EV_TIMEOUT} \<Longrightarrow>
    kcn_net_write_cb events (kn\<lparr>kn_evwrite := False\<rparr>) = Some kn' \<Longrightarrow>
    net_step readcb (kn, d) (kn', d)"
| peer: "kn_fd kn = Some sk \<Longrightarrow> net_step readcb (kn, d)
    (kn\<lparr>kn_fd := Some (sk\<lparr>sk_rx := sk_rx sk @ bs, sk_eof := eof, sk_sys := s\<rparr>)\<rparr>, d)"

inductive net_reachable :: "'d net_readcb \<Rightarrow> kcn_net \<times> 'd \<Rightarrow> kcn_net \<times> 'd \<Rightarrow> bool"
  for readcb :: "'d net_readcb" and s0 :: "kcn_net \<times> 'd" where
  start: "net_reachable readcb s0 s0"
| step: "net_reachable readcb s0 s \<Longrightarrow> net_step readcb s s' \<Longrightarrow> net_reachable readcb s0 s'"

inductive_cases net_stepE: "net_step readcb (kn, d) s"

context net_reader
begin

lemma step_inv:
  assumes "net_step readcb s s'" "net_inv cap (fst s) \<and> dinv (snd s)"
  shows "net_inv cap (fst s') \<and> dinv (snd s')"
  using assms
proof (induction rule: net_step.induct)
  case (ev_read kn events d kn' d')
  then show ?case using read_cb_ok [of kn d events kn' d'] by simp
next
  case (ev_write kn events kn' d)
  then show ?case using write_cb_ok [of cap kn events] by auto
next
  case (peer kn sk d bs eof s)
  then show ?case by (auto simp: net_inv_def net_ok_def ibuf_room_def)
qed

lemma reachable_inv:
  assumes "net_reachable readcb s0 s" "net_inv cap (fst s0)" "dinv (snd s0)"
  shows "net_inv cap (fst s) \<and> dinv (snd s)"
  using assms by (induction rule: net_reachable.induct) (use step_inv in blast)+

end

section \<open>Creation\<close>

lemma net_new_ok:
  assumes "alloc_ok malloc" "kcn_net_new kn_new malloc base_set everrs sk cap name = Some (Some kn)"
    "0 < cap"
  shows "net_inv cap kn \<and> kn_fd kn = Some sk \<and> kn_state kn = KCN_NET_STATE_INIT \<and> kn_obufq kn = [] \<and>
    kn_evwrite kn \<and> \<not> kn_evread kn \<and> (everrs = [] \<longrightarrow> kn_everrs kn = [])"
proof -
  from assms(2) obtain id od where new: "kn_new" "kcn_buf_data_new malloc cap = Some id"
    "kcn_buf_data_new malloc cap = Some od"
    by (auto simp: kcn_net_new_def split: if_splits option.splits)
  note di = buf_data_new [OF assms(1) new(2)] and do = buf_data_new [OF assms(1) new(3)]
  have ib: "kcn_buf_init (Some id) = Some \<lparr>kb_kbd = Some id, kb_cp = 0\<rparr>"
    using di by (simp add: kcn_buf_init_def kcn_buf_start_def kb_sp_def)
  have wf: "kb_wf \<lparr>kb_kbd = Some id, kb_cp = 0\<rparr>" "kb_cap \<lparr>kb_kbd = Some id, kb_cp = 0\<rparr> = cap"
    "kb_heading \<lparr>kb_kbd = Some id, kb_cp = 0\<rparr> = []" "kb_data \<lparr>kb_kbd = Some id, kb_cp = 0\<rparr> = []"
    using di by (simp_all add: kb_wf_def kbd_wf_def kb_cap_def kb_heading_def kb_data_def)
  let ?kn = "\<lparr>kn_state = KCN_NET_STATE_INIT, kn_name = take (KCN_SOCKNAMELEN - 1) name,
      kn_fd = Some sk, kn_evread = False, kn_evwrite = False, kn_everrs = everrs,
      kn_ibuf = \<lparr>kb_kbd = Some id, kb_cp = 0\<rparr>, kn_obufdata = od, kn_obufq = kcn_buf_queue_init\<rparr>"
  have ok: "net_ok cap ?kn" using wf do by (simp add: net_ok_def kcn_buf_queue_init_def)
  from assms(2) new ib have en: "kcn_net_write_enable ?kn = (Inr (), kn)"
    by (auto simp: kcn_net_new_def split: if_splits prod.splits sum.splits)
  from write_enable_ok [OF ok] en wf assms(3) show ?thesis
    by (auto simp: net_inv_def ibuf_room_def kcn_buf_queue_init_def)
qed

end
