(* ===== verification/Kcn_Msg.thy ===== *)
theory Kcn_Msg
  imports Kcn_Eq
begin

text \<open>
  \<^verbatim>\<open>lib/kcn_msg.c\<close>: the wire format.  A message is a four byte header (version, type, length of the
  body) and a body: a query, a response or an added record.  Encoders build the body behind
  \<open>KCN_MSG_HDRSIZ\<close> free bytes and put the header in front of it; the header decoder checks that the
  whole message has arrived and the body decoders take it off the buffer.

  A pointer into the buffer that a decoder stores (\<open>kmr_loc\<close>, \<open>kma_loc\<close>) is modelled by the bytes
  it points to: nothing writes to the buffer before they are used.
\<close>

section \<open>Messages\<close>

abbreviation (input) KCN_MSG_VERSION :: byte where "KCN_MSG_VERSION \<equiv> 1"
abbreviation (input) KCN_MSG_HDRSIZ :: nat where "KCN_MSG_HDRSIZ \<equiv> 4"
abbreviation (input) KCN_MSG_MAXSIZ :: nat where "KCN_MSG_MAXSIZ \<equiv> 4096"
abbreviation (input) KCN_MSG_MAXBODYSIZ :: nat where "KCN_MSG_MAXBODYSIZ \<equiv> 4092"
abbreviation (input) KCN_MSG_QUERY_SIZ :: nat where "KCN_MSG_QUERY_SIZ \<equiv> 28"
abbreviation (input) KCN_MSG_RESPONSE_MINSIZ :: nat where "KCN_MSG_RESPONSE_MINSIZ \<equiv> 2"
abbreviation (input) KCN_MSG_ADD_MINSIZ :: nat where "KCN_MSG_ADD_MINSIZ \<equiv> 17"
abbreviation (input) KCN_MSG_MAXLOCSIZ :: nat where "KCN_MSG_MAXLOCSIZ \<equiv> 4075"

abbreviation (input) KCN_MSG_TYPE_RESERVED :: c_enum where "KCN_MSG_TYPE_RESERVED \<equiv> 0"
abbreviation (input) KCN_MSG_TYPE_QUERY :: c_enum where "KCN_MSG_TYPE_QUERY \<equiv> 1"
abbreviation (input) KCN_MSG_TYPE_RESPONSE :: c_enum where "KCN_MSG_TYPE_RESPONSE \<equiv> 2"
abbreviation (input) KCN_MSG_TYPE_ADD :: c_enum where "KCN_MSG_TYPE_ADD \<equiv> 3"
abbreviation (input) KCN_MSG_TYPE_DEL :: c_enum where "KCN_MSG_TYPE_DEL \<equiv> 4"

abbreviation (input) KCN_LOC_TYPE_DOMAINNAME :: c_enum where "KCN_LOC_TYPE_DOMAINNAME \<equiv> 0"
abbreviation (input) KCN_LOC_TYPE_URI :: c_enum where "KCN_LOC_TYPE_URI \<equiv> 1"

record kcn_msg_header =
  kmh_version :: byte
  kmh_type :: c_enum
  kmh_len :: nat

record kcn_msg_query =
  kmq_loctype :: c_enum
  kmq_maxcount :: byte
  kmq_eq :: kcn_eq

record kcn_msg_response =
  kmr_error :: byte
  kmr_score :: byte
  kmr_loc :: "byte list option"
  kmr_loclen :: nat

record kcn_msg_add =
  kma_type :: c_enum
  kma_time :: uint64
  kma_val :: uint64
  kma_loc :: "byte list"
  kma_loclen :: nat

section \<open>Headers\<close>

definition kcn_msg_pkt_init :: "kcn_buf \<Rightarrow> kcn_buf option" where
  "kcn_msg_pkt_init kb = kcn_buf_reset kb KCN_MSG_HDRSIZ"

text \<open>The dump is modelled with debug logging on, which is when it can fail an assertion.\<close>

definition kcn_msg_header_encode :: "kcn_buf \<Rightarrow> c_enum \<Rightarrow> kcn_buf option" where
  "kcn_msg_header_encode kb type = do {
     kb \<leftarrow> kcn_buf_prepend kb KCN_MSG_HDRSIZ;
     kb \<leftarrow> kcn_buf_put8 kb KCN_MSG_VERSION;
     kb \<leftarrow> kcn_buf_put8 kb (ucast type);
     l \<leftarrow> kcn_buf_len kb;
     kb \<leftarrow> kcn_buf_put16 kb (of_nat (usub l KCN_MSG_HDRSIZ));
     l \<leftarrow> kcn_buf_len kb;
     _ \<leftarrow> kcn_buf_dump True kb l;
     Some kb
   }"

definition kcn_msg_header_decode :: "kcn_buf \<Rightarrow> (kcn_msg_header result \<times> kcn_buf) option" where
  "kcn_msg_header_decode kb = do {
     t \<leftarrow> kcn_buf_trailingdata kb;
     (if t < KCN_MSG_HDRSIZ then Some (Inl EAGAIN, kb)
      else do {
        (version, kb) \<leftarrow> kcn_buf_get8 kb;
        (type, kb) \<leftarrow> kcn_buf_get8 kb;
        (len, kb) \<leftarrow> kcn_buf_get16 kb;
        t \<leftarrow> kcn_buf_trailingdata kb;
        _ \<leftarrow> kcn_buf_dump True kb (KCN_MSG_HDRSIZ + min (unat len) t);
        (if version \<noteq> KCN_MSG_VERSION then Some (Inl EOPNOTSUPP, kb)
         else if unat len > KCN_MSG_MAXBODYSIZ then Some (Inl E2BIG, kb)
         else if t < unat len then do {
           kb \<leftarrow> kcn_buf_start kb;
           Some (Inl EAGAIN, kb)
         } else do {
           h \<leftarrow> kcn_buf_headingdata kb;
           kb \<leftarrow> kcn_buf_trim_head kb h;
           Some (Inr \<lparr>kmh_version = version, kmh_type = ucast type, kmh_len = unat len\<rparr>, kb)
         })
      })
   }"

section \<open>Queries\<close>

definition kcn_msg_query_encode :: "kcn_buf \<Rightarrow> kcn_msg_query \<Rightarrow> kcn_buf option" where
  "kcn_msg_query_encode kb kmq = do {
     ke \<leftarrow> Some (kmq_eq kmq);
     kb \<leftarrow> kcn_msg_pkt_init kb;
     kb \<leftarrow> kcn_buf_put8 kb (ucast (kmq_loctype kmq));
     kb \<leftarrow> kcn_buf_put8 kb (kmq_maxcount kmq);
     kb \<leftarrow> kcn_buf_put8 kb (ucast (ke_type ke));
     kb \<leftarrow> kcn_buf_put8 kb (ucast (ke_op ke));
     kb \<leftarrow> kcn_buf_put64 kb (ke_val ke);
     kb \<leftarrow> kcn_buf_put64 kb (ke_start ke);
     kb \<leftarrow> kcn_buf_put64 kb (ke_end ke);
     kcn_msg_header_encode kb KCN_MSG_TYPE_QUERY
   }"

definition kcn_msg_query_decode ::
  "kcn_buf \<Rightarrow> kcn_msg_header \<Rightarrow> (kcn_msg_query result \<times> kcn_buf) option" where
  "kcn_msg_query_decode kb kmh =
     (if kmh_len kmh \<noteq> KCN_MSG_QUERY_SIZ then Some (Inl EINVAL, kb)
      else do {
        t \<leftarrow> kcn_buf_trailingdata kb;
        c_assert (t \<ge> KCN_MSG_QUERY_SIZ);
        (loctype, kb) \<leftarrow> kcn_buf_get8 kb;
        (maxcount, kb) \<leftarrow> kcn_buf_get8 kb;
        (type, kb) \<leftarrow> kcn_buf_get8 kb;
        (opr, kb) \<leftarrow> kcn_buf_get8 kb;
        (val, kb) \<leftarrow> kcn_buf_get64 kb;
        (start, kb) \<leftarrow> kcn_buf_get64 kb;
        (end', kb) \<leftarrow> kcn_buf_get64 kb;
        h \<leftarrow> kcn_buf_headingdata kb;
        kb \<leftarrow> kcn_buf_trim_head kb h;
        (let kmq = \<lparr>kmq_loctype = ucast loctype, kmq_maxcount = maxcount,
                   kmq_eq = \<lparr>ke_type = ucast type, ke_op = ucast opr, ke_val = val,
                            ke_start = start, ke_end = end'\<rparr>\<rparr> in
         if kmq_loctype kmq = KCN_LOC_TYPE_DOMAINNAME \<or> kmq_loctype kmq = KCN_LOC_TYPE_URI
         then Some (Inr kmq, kb)
         else Some (Inl EINVAL, kb))
      })"

section \<open>Responses\<close>

definition kcn_msg_response_init :: kcn_msg_response where
  "kcn_msg_response_init = \<lparr>kmr_error = 0, kmr_score = 0, kmr_loc = None, kmr_loclen = 0\<rparr>"

definition kcn_msg_response_encode :: "kcn_buf \<Rightarrow> kcn_msg_response \<Rightarrow> kcn_buf option" where
  "kcn_msg_response_encode kb kmr = do {
     kb \<leftarrow> kcn_msg_pkt_init kb;
     kb \<leftarrow> kcn_buf_put8 kb (kmr_error kmr);
     kb \<leftarrow> kcn_buf_put8 kb (kmr_score kmr);
     kb \<leftarrow> (case kmr_loc kmr of
             None \<Rightarrow> Some kb
           | Some loc \<Rightarrow> do {
               c_assert (kmr_loclen kmr \<le> length loc);
               kcn_buf_put kb (take (kmr_loclen kmr) loc)
             });
     kcn_msg_header_encode kb KCN_MSG_TYPE_RESPONSE
   }"

definition kcn_msg_response_decode ::
  "kcn_buf \<Rightarrow> kcn_msg_header \<Rightarrow> (kcn_msg_response result \<times> kcn_buf) option" where
  "kcn_msg_response_decode kb kmh =
     (if kmh_len kmh < KCN_MSG_RESPONSE_MINSIZ then Some (Inl EINVAL, kb)
      else do {
        t \<leftarrow> kcn_buf_trailingdata kb;
        c_assert (t \<ge> KCN_MSG_RESPONSE_MINSIZ);
        (error, kb) \<leftarrow> kcn_buf_get8 kb;
        (score, kb) \<leftarrow> kcn_buf_get8 kb;
        loclen \<leftarrow> Some (usub (kmh_len kmh) KCN_MSG_RESPONSE_MINSIZ);
        loc \<leftarrow> (if loclen > 0 then do {
                 cur \<leftarrow> kcn_buf_current kb;
                 bs \<leftarrow> kb_load kb cur loclen;
                 Some (Some bs)
               } else Some None);
        kb \<leftarrow> kcn_buf_forward kb loclen;
        h \<leftarrow> kcn_buf_headingdata kb;
        kb \<leftarrow> kcn_buf_trim_head kb h;
        Some (Inr \<lparr>kmr_error = error, kmr_score = score, kmr_loc = loc, kmr_loclen = loclen\<rparr>, kb)
      })"

section \<open>Added records\<close>

definition kcn_msg_add_encode :: "kcn_buf \<Rightarrow> kcn_msg_add \<Rightarrow> kcn_buf option" where
  "kcn_msg_add_encode kb kma = do {
     kb \<leftarrow> kcn_msg_pkt_init kb;
     kb \<leftarrow> kcn_buf_put8 kb (ucast (kma_type kma));
     kb \<leftarrow> kcn_buf_put64 kb (kma_time kma);
     kb \<leftarrow> kcn_buf_put64 kb (kma_val kma);
     c_assert (kma_loclen kma \<le> length (kma_loc kma));
     kb \<leftarrow> kcn_buf_put kb (take (kma_loclen kma) (kma_loc kma));
     kcn_msg_header_encode kb KCN_MSG_TYPE_ADD
   }"

definition kcn_msg_add_decode ::
  "kcn_buf \<Rightarrow> kcn_msg_header \<Rightarrow> (kcn_msg_add result \<times> kcn_buf) option" where
  "kcn_msg_add_decode kb kmh =
     (if kmh_len kmh < KCN_MSG_ADD_MINSIZ then Some (Inl EINVAL, kb)
      else do {
        t \<leftarrow> kcn_buf_trailingdata kb;
        c_assert (t \<ge> KCN_MSG_ADD_MINSIZ);
        (type, kb) \<leftarrow> kcn_buf_get8 kb;
        (time, kb) \<leftarrow> kcn_buf_get64 kb;
        (val, kb) \<leftarrow> kcn_buf_get64 kb;
        cur \<leftarrow> kcn_buf_current kb;
        loclen \<leftarrow> Some (usub (kmh_len kmh) KCN_MSG_ADD_MINSIZ);
        loc \<leftarrow> kb_load kb cur loclen;
        kb \<leftarrow> kcn_buf_trim_head kb (kmh_len kmh);
        Some (Inr \<lparr>kma_type = ucast type, kma_time = time, kma_val = val,
                   kma_loc = loc, kma_loclen = loclen\<rparr>, kb)
      })"

section \<open>The wire format\<close>

definition header_bytes :: "byte \<Rightarrow> byte list \<Rightarrow> byte list" where
  "header_bytes type body = [KCN_MSG_VERSION, type] @ be16 (of_nat (length body))"

definition query_body :: "kcn_msg_query \<Rightarrow> byte list" where
  "query_body q =
     [ucast (kmq_loctype q), kmq_maxcount q, ucast (ke_type (kmq_eq q)), ucast (ke_op (kmq_eq q))] @
     be64 (ke_val (kmq_eq q)) @ be64 (ke_start (kmq_eq q)) @ be64 (ke_end (kmq_eq q))"

definition response_body :: "kcn_msg_response \<Rightarrow> byte list" where
  "response_body r = [kmr_error r, kmr_score r] @
     (case kmr_loc r of None \<Rightarrow> [] | Some loc \<Rightarrow> take (kmr_loclen r) loc)"

definition add_body :: "kcn_msg_add \<Rightarrow> byte list" where
  "add_body a = [ucast (kma_type a)] @ be64 (kma_time a) @ be64 (kma_val a) @
     take (kma_loclen a) (kma_loc a)"

lemma length_header_bytes [simp]: "length (header_bytes type body) = 4"
  by (simp add: header_bytes_def)

lemma length_query_body [simp]: "length (query_body q) = 28"
  by (simp add: query_body_def)

lemma length_response_body:
  "length (response_body r) =
     2 + (case kmr_loc r of None \<Rightarrow> 0 | Some loc \<Rightarrow> min (kmr_loclen r) (length loc))"
  by (simp add: response_body_def min.commute split: option.splits)

lemma length_add_body: "length (add_body a) = 17 + min (kma_loclen a) (length (kma_loc a))"
  by (simp add: add_body_def min.commute)

section \<open>Encoding\<close>

text \<open>The state between \<open>kcn_msg_pkt_init\<close> and the header: four free bytes, then the body so far.\<close>

lemma pkt_init_zbuf:
  assumes "kb_wf kb" "4 \<le> kb_cap kb"
  obtains pre post where "kcn_msg_pkt_init kb = Some (zbuf pre [] [] post)"
    "length pre = 4" "kb_cap kb = 4 + length post"
proof -
  from assms(1) obtain pre h t post where kb: "kb = zbuf pre h t post" by (rule kb_wf_zbufE)
  let ?all = "pre @ h @ t @ post"
  have "kcn_msg_pkt_init kb = Some (zbuf (take 4 ?all) [] [] (drop 4 ?all))"
    using assms kb by (simp add: kcn_msg_pkt_init_def zbuf_reset del: take_append drop_append)
  then show thesis
    using assms kb
    by (intro that [of "take 4 ?all" "drop 4 ?all"]) (simp_all del: take_append drop_append)
qed

lemma put_body_zbuf:
  "length bs \<le> length post \<Longrightarrow>
   kcn_buf_put (zbuf pre h [] post) bs = Some (zbuf pre (h @ bs) [] (drop (length bs) post))"
  by (simp add: zbuf_put)

lemma header_encode_zbuf:
  assumes "length pre = 4"
  shows "kcn_msg_header_encode (zbuf pre body [] post) type =
    Some (zbuf [] (header_bytes (ucast type) body) body post)"
proof -
  obtain ls where "kcn_buf_dump True (zbuf [] (header_bytes (ucast type) body) body post)
      (Suc (Suc (Suc (Suc (length body))))) = Some ls"
    using dump_zbuf [of "Suc (Suc (Suc (Suc (length body))))" "header_bytes (ucast type) body" body True "[]" post] by auto
  moreover obtain a b c d where "pre = [a, b, c, d]"
    using assms by (auto simp: length_Suc_conv eval_nat_numeral)
  ultimately show ?thesis
    by (simp add: kcn_msg_header_encode_def zbuf_simps header_bytes_def add.commute)
qed

lemma query_encode_ok:
  assumes "kb_wf kb" "32 \<le> kb_cap kb"
  shows "\<exists>post. kcn_msg_query_encode kb q =
      Some (zbuf [] (header_bytes 1 (query_body q)) (query_body q) post) \<and>
    kb_cap kb = 32 + length post"
proof -
  from assms obtain pre post where p: "kcn_msg_pkt_init kb = Some (zbuf pre [] [] post)"
    "length pre = 4" "kb_cap kb = 4 + length post"
    by (auto elim: pkt_init_zbuf [of kb])
  with assms(2) show ?thesis
    by (auto simp: kcn_msg_query_encode_def zbuf_simps put_body_zbuf header_encode_zbuf
        query_body_def intro!: exI [of _ "drop 28 post"])
qed

lemma response_encode_ok:
  assumes "kb_wf kb" "4 + length (response_body r) \<le> kb_cap kb"
    "\<forall>loc. kmr_loc r = Some loc \<longrightarrow> kmr_loclen r \<le> length loc"
  shows "\<exists>post. kcn_msg_response_encode kb r =
      Some (zbuf [] (header_bytes 2 (response_body r)) (response_body r) post) \<and>
    kb_cap kb = 4 + length (response_body r) + length post"
proof -
  from assms(1,2) obtain pre post where p: "kcn_msg_pkt_init kb = Some (zbuf pre [] [] post)"
    "length pre = 4" "kb_cap kb = 4 + length post"
    by (auto elim: pkt_init_zbuf [of kb])
  with assms(2,3) show ?thesis
    by (cases "kmr_loc r") (auto simp: kcn_msg_response_encode_def zbuf_simps put_body_zbuf
        header_encode_zbuf response_body_def intro!: exI [of _ "drop (length (response_body r)) post"])
qed

lemma add_encode_ok:
  assumes "kb_wf kb" "4 + length (add_body a) \<le> kb_cap kb" "kma_loclen a \<le> length (kma_loc a)"
  shows "\<exists>post. kcn_msg_add_encode kb a =
      Some (zbuf [] (header_bytes 3 (add_body a)) (add_body a) post) \<and>
    kb_cap kb = 4 + length (add_body a) + length post"
proof -
  from assms(1,2) obtain pre post where p: "kcn_msg_pkt_init kb = Some (zbuf pre [] [] post)"
    "length pre = 4" "kb_cap kb = 4 + length post"
    by (auto elim: pkt_init_zbuf [of kb])
  with assms(2,3) show ?thesis
    by (auto simp: kcn_msg_add_encode_def zbuf_simps put_body_zbuf header_encode_zbuf add_body_def
        intro!: exI [of _ "drop (kma_loclen a + 17) post"])
qed

section \<open>Decoding\<close>

lemma header_decode_zbuf:
  "kcn_msg_header_decode (zbuf pre [] t post) =
     (if length t < 4 then Some (Inl EAGAIN, zbuf pre [] t post)
      else let len = unat (of_be16 (take 2 (drop 2 t))) in
        if t ! 0 \<noteq> KCN_MSG_VERSION then Some (Inl EOPNOTSUPP, zbuf pre (take 4 t) (drop 4 t) post)
        else if len > KCN_MSG_MAXBODYSIZ then Some (Inl E2BIG, zbuf pre (take 4 t) (drop 4 t) post)
        else if length t - 4 < len then Some (Inl EAGAIN, zbuf pre [] t post)
        else Some (Inr \<lparr>kmh_version = t ! 0, kmh_type = ucast (t ! 1), kmh_len = len\<rparr>,
                   zbuf (pre @ take 4 t) [] (drop 4 t) post))"
proof (cases "length t < 4")
  case True
  then show ?thesis by (simp add: kcn_msg_header_decode_def zbuf_simps)
next
  case False
  then have "4 \<le> length t" by simp
  then obtain a b c d t' where t: "t = a # b # c # d # t'" by (rule length_ge_4E)
  define len where "len = unat (of_be16 [c, d])"
  obtain ls where "kcn_buf_dump True (zbuf pre [a, b, c, d] t' post) (4 + min len (length t')) = Some ls"
    using dump_zbuf [of "4 + min len (length t')" "[a, b, c, d]" t' True pre post] by auto
  then show ?thesis
    by (simp add: t kcn_msg_header_decode_def zbuf_simps Let_def eval_nat_numeral flip: len_def)
qed

lemma unat_lt_256: "unat (b :: byte) < 256"
  using unsigned_less [of b] by simp

lemma ucast_enum_byte [simp]: "ucast (ucast (b :: byte) :: c_enum) = b"
  by (simp add: ucast_up_ucast_id is_up)

lemma ucast_byte_enum: "(e :: c_enum) < 256 \<Longrightarrow> ucast (ucast e :: byte) = e"
  by (simp add: word_unat_eq_iff unsigned_ucast_eq word_less_nat_alt take_bit_eq_mod unat_mod_distrib)

text \<open>
  A body decoder on a buffer that holds the body: it takes exactly the body off the front, and what
  it returns re-encodes to those bytes.
\<close>

lemma query_decode_zbuf:
  assumes "kmh_len kmh = 28" "28 \<le> length t"
  shows "\<exists>r. kcn_msg_query_decode (zbuf pre [] t post) kmh =
      Some (r, zbuf (pre @ take 28 t) [] (drop 28 t) post) \<and>
    (r = Inl EINVAL \<and> 1 < t ! 0 \<or>
     (\<exists>q. r = Inr q \<and> t ! 0 \<le> 1 \<and> query_body q = take 28 t))"
proof -
  from assms(2) have "4 \<le> length t" by simp
  then obtain a b c d u where t: "t = a # b # c # d # u" by (rule length_ge_4E)
  with assms(2) have u: "24 \<le> length u" by simp
  have tk: "take 24 u = take 8 u @ take 8 (drop 8 u) @ take 8 (drop 16 u)"
    using take_add [of 8 16 u] take_add [of 8 8 "drop 8 u"] by simp
  have a: "ucast a = (0 :: c_enum) \<or> ucast a = (1 :: c_enum) \<longleftrightarrow> a \<le> 1"
  proof -
    have "ucast a = (0 :: c_enum) \<longleftrightarrow> a = 0" "ucast a = (1 :: c_enum) \<longleftrightarrow> a = 1"
      by (metis ucast_enum_byte ucast_0, metis ucast_enum_byte ucast_1)
    then show ?thesis by (auto simp: word_le_nat_alt word_unat_eq_iff le_Suc_eq)
  qed
  show ?thesis
    using assms u a
    by (cases "a \<le> 1"; simp add: kcn_msg_query_decode_def zbuf_simps t tk query_body_def Let_def
        drop_Cons' not_le; linarith)
qed

text \<open>The body of an encoded query is decoded to the query.\<close>

lemma query_decode_body:
  assumes "kmh_len kmh = 28" "kmq_loctype q \<le> 1" "ke_type (kmq_eq q) < 256" "ke_op (kmq_eq q) < 256"
  shows "kcn_msg_query_decode (zbuf pre [] (query_body q @ rest) post) kmh =
    Some (Inr q, zbuf (pre @ query_body q) [] rest post)"
proof -
  have lt: "kmq_loctype q = 0 \<or> kmq_loctype q = 1"
    using assms(2) by (auto simp: word_le_nat_alt word_unat_eq_iff le_Suc_eq)
  obtain loctype maxcount eq where q: "q = \<lparr>kmq_loctype = loctype, kmq_maxcount = maxcount, kmq_eq = eq\<rparr>"
    by (cases q)
  obtain type opr val start end' where eq: "eq = \<lparr>ke_type = type, ke_op = opr, ke_val = val,
      ke_start = start, ke_end = end'\<rparr>" by (cases eq)
  have "ucast (ucast type :: byte) = type" "ucast (ucast opr :: byte) = opr"
    using assms(3,4) by (simp_all add: q eq ucast_byte_enum)
  with assms(1) lt show ?thesis
    by (auto simp: kcn_msg_query_decode_def zbuf_simps query_body_def Let_def q eq)
qed

lemma response_decode_zbuf:
  assumes "2 \<le> kmh_len kmh" "kmh_len kmh \<le> length t"
  shows "kcn_msg_response_decode (zbuf pre [] t post) kmh =
    Some (Inr \<lparr>kmr_error = t ! 0, kmr_score = t ! 1,
         kmr_loc = (if kmh_len kmh = 2 then None else Some (take (kmh_len kmh - 2) (drop 2 t))),
         kmr_loclen = kmh_len kmh - 2\<rparr>,
       zbuf (pre @ take (kmh_len kmh) t) [] (drop (kmh_len kmh) t) post)"
proof -
  from assms have "2 \<le> length t" by simp
  then obtain a b u where t: "t = a # b # u" by (rule length_ge_2E)
  obtain n where n: "kmh_len kmh = 2 + n" using assms(1) le_Suc_ex by blast
  with assms(2) t have "n \<le> length u" by simp
  with n t show ?thesis
    using zbuf_load(2) [of pre "[a, b]" u post n]
    by (simp add: kcn_msg_response_decode_def zbuf_simps)
qed

lemma add_decode_zbuf:
  assumes "17 \<le> kmh_len kmh" "kmh_len kmh \<le> length t"
  shows "\<exists>a. kcn_msg_add_decode (zbuf pre [] t post) kmh =
      Some (Inr a, zbuf (pre @ take (kmh_len kmh) t) [] (drop (kmh_len kmh) t) post) \<and>
    kma_loclen a = kmh_len kmh - 17 \<and> kma_loc a = take (kmh_len kmh - 17) (drop 17 t) \<and>
    kma_type a < 256 \<and> add_body a = take (kmh_len kmh) t"
proof -
  obtain b u where t: "t = b # u" using assms by (cases t) auto
  obtain n where n: "kmh_len kmh = 17 + n" using assms(1) le_Suc_ex by blast
  with assms(2) t have u16: "16 + n \<le> length u" by simp
  define x y z w where "x = take 8 u" and "y = take 8 (drop 8 u)"
    and "z = take n (drop 16 u)" and "w = drop (16 + n) u"
  have "drop 16 u = z @ w"
    using append_take_drop_id [of n "drop 16 u"] by (simp add: z_def w_def add.commute)
  moreover have "drop 8 u = y @ drop 16 u"
    using append_take_drop_id [of 8 "drop 8 u"] by (simp add: y_def)
  ultimately have u: "u = x @ y @ z @ w"
    using append_take_drop_id [of 8 u] by (simp add: x_def)
  have l: "length x = 8" "length y = 8" "length z = n"
    using u16 by (simp_all add: x_def y_def z_def)
  have "ucast b < (256 :: c_enum)"
    using unat_lt_256 [of b] by (simp add: word_less_nat_alt unsigned_ucast_eq take_bit_eq_mod)
  then show ?thesis
    using n t u l zbuf_load(2) [of pre "b # x @ y" "z @ w" post n]
    by (simp add: kcn_msg_add_decode_def zbuf_simps add_body_def take_Cons' drop_Cons')
qed

lemma add_decode_body:
  assumes "kmh_len kmh = length (add_body a)" "kma_type a < 256" "kma_loclen a = length (kma_loc a)"
  shows "kcn_msg_add_decode (zbuf pre [] (add_body a @ rest) post) kmh =
    Some (Inr a, zbuf (pre @ add_body a) [] rest post)"
proof -
  obtain type tm val loc loclen where a: "a = \<lparr>kma_type = type, kma_time = tm, kma_val = val,
      kma_loc = loc, kma_loclen = loclen\<rparr>" by (cases a)
  from assms a have l: "loclen = length loc" "kmh_len kmh = 17 + length loc"
    "ucast (ucast type :: byte) = type"
    by (simp_all add: length_add_body ucast_byte_enum)
  then show ?thesis
    using zbuf_load(2) [of pre "ucast type # be64 tm @ be64 val" "loc @ rest" post "length loc"]
    by (simp add: kcn_msg_add_decode_def zbuf_simps add_body_def a take_Cons')
qed

text \<open>A whole message at the current position.\<close>

lemma header_decode_msg:
  assumes "length body \<le> 4092"
  shows "kcn_msg_header_decode (zbuf pre [] (header_bytes type body @ body @ rest) post) =
    Some (Inr \<lparr>kmh_version = 1, kmh_type = ucast type, kmh_len = length body\<rparr>,
          zbuf (pre @ header_bytes type body) [] (body @ rest) post)"
proof -
  have "unat (of_nat (length body) :: uint16) = length body" using assms by (simp add: unat_of_nat)
  with assms show ?thesis
    by (subst header_decode_zbuf) (simp add: header_bytes_def Let_def be16_def flip: be16_def)
qed

end
