(* ===== verification/Kcn_Wire.thy ===== *)
theory Kcn_Wire
  imports Kcn_Net_Props Kcn_Msg
begin

text \<open>
  Messages on connections, shared by the daemon and its clients: whole messages as byte lists, the
  connection as a callback finds it, the buffer a message is built in, and what the decoder of
  headers leaves.
\<close>

section \<open>Whole messages\<close>

definition query_msg :: "kcn_msg_query \<Rightarrow> byte list" where
  "query_msg q = header_bytes 1 (query_body q) @ query_body q"

definition add_msg :: "kcn_msg_add \<Rightarrow> byte list" where
  "add_msg a = header_bytes 3 (add_body a) @ add_body a"

definition response_msg :: "kcn_msg_response \<Rightarrow> byte list" where
  "response_msg r = header_bytes 2 (response_body r) @ response_body r"

definition loc_response :: "nat \<Rightarrow> byte list \<Rightarrow> kcn_msg_response" where
  "loc_response score loc = \<lparr>kmr_error = 0, kmr_score = of_nat score, kmr_loc = Some loc, kmr_loclen = length loc\<rparr>"

definition end_response :: "errno \<Rightarrow> kcn_msg_response" where
  "end_response e = \<lparr>kmr_error = of_nat e, kmr_score = 0, kmr_loc = None, kmr_loclen = 0\<rparr>"

section \<open>Connections in a callback\<close>

text \<open>The connection as the callbacks of a message see it.\<close>

definition serving :: "kcn_net \<Rightarrow> bool" where
  "serving kn \<longleftrightarrow> net_ok KCN_MSG_MAXSIZ kn \<and> kn_fd kn \<noteq> None \<and>
     kn_state kn = KCN_NET_STATE_ESTABLISHED \<and> \<not> kn_evread kn"

lemma obuf_ok:
  assumes "net_ok cap kn"
  obtains kb where "kcn_net_obuf kn = Some kb" "kb_wf kb" "kb_cap kb = cap"
proof -
  let ?kb = "\<lparr>kb_kbd = Some (kn_obufdata kn), kb_cp = kbd_sp (kn_obufdata kn)\<rparr>"
  from assms have "kbd_wf (kn_obufdata kn)" "kbd_size (kn_obufdata kn) = cap" by (auto simp: net_ok_def)
  then have "kb_wf ?kb" "kb_cap ?kb = cap" by (simp_all add: kbd_wf_start kb_cap_def)
  moreover have "kcn_net_obuf kn = Some ?kb"
    by (simp add: kcn_net_obuf_def kcn_buf_init_def kcn_buf_start_def kb_sp_def)
  ultimately show thesis using that by blast
qed

lemma obuf_sync_ok:
  assumes "net_ok cap kn" "kb_wf kb" "kb_cap kb = cap"
  shows "net_ok cap (kn_obuf_sync kb kn)" "kn_fd (kn_obuf_sync kb kn) = kn_fd kn"
    "kn_state (kn_obuf_sync kb kn) = kn_state kn" "kn_evread (kn_obuf_sync kb kn) = kn_evread kn"
    "kn_ibuf (kn_obuf_sync kb kn) = kn_ibuf kn" "obytes (kn_obuf_sync kb kn) = obytes kn"
    "kn_everrs (kn_obuf_sync kb kn) = kn_everrs kn"
proof -
  obtain d where d: "kb_kbd kb = Some d" using assms(2) by (auto simp: kb_wf_def split: option.splits)
  with assms have "kbd_wf d" "kbd_size d = cap" by (auto dest: kb_wf_kbd simp: kb_cap_def)
  with d assms(1) show "net_ok cap (kn_obuf_sync kb kn)" "kn_fd (kn_obuf_sync kb kn) = kn_fd kn"
    "kn_state (kn_obuf_sync kb kn) = kn_state kn" "kn_evread (kn_obuf_sync kb kn) = kn_evread kn"
    "kn_ibuf (kn_obuf_sync kb kn) = kn_ibuf kn" "obytes (kn_obuf_sync kb kn) = obytes kn"
    "kn_everrs (kn_obuf_sync kb kn) = kn_everrs kn"
    by (simp_all add: kn_obuf_sync_def net_ok_def obytes_def)
qed

text \<open>The encoder, read backwards: what it can return at all is a message in a well-formed buffer.\<close>

lemma response_encode_SomeE:
  assumes "kb_wf kb" "4 \<le> kb_cap kb" "kcn_msg_response_encode kb r = Some kb'"
  shows "kb_wf kb' \<and> kb_cap kb' = kb_cap kb \<and> kb_data kb' = response_msg r"
proof -
  from pkt_init_zbuf [OF assms(1,2)] obtain pre post where p:
    "kcn_msg_pkt_init kb = Some (zbuf pre [] [] post)" "length pre = 4" "kb_cap kb = 4 + length post" by blast
  have "(\<forall>loc. kmr_loc r = Some loc \<longrightarrow> kmr_loclen r \<le> length loc) \<and>
      4 + length (response_body r) \<le> kb_cap kb"
    using assms(3) p
    by (auto simp: kcn_msg_response_encode_def zbuf_simps length_response_body
        split: if_splits option.splits)
  with response_encode_ok [OF assms(1)] obtain post where
    "kcn_msg_response_encode kb r = Some (zbuf [] (header_bytes 2 (response_body r)) (response_body r) post)"
    "kb_cap kb = 4 + length (response_body r) + length post" by blast
  with assms(3) show ?thesis by (auto simp: response_msg_def)
qed

section \<open>Headers\<close>

lemma header_decode_shape:
  assumes "kcn_msg_header_decode (zbuf pre [] t post) = Some (r, kb)" "length pre + length t + length post = 4096"
  shows "kb_wf kb \<and> kb_cap kb = 4096 \<and>
    (r = Inl EAGAIN \<longrightarrow> kb = zbuf pre [] t post \<and> length t < 4096) \<and>
    (\<forall>kmh. r = Inr kmh \<longrightarrow> 4 \<le> length t \<and> kb = zbuf (pre @ take 4 t) [] (drop 4 t) post \<and>
       kmh_len kmh \<le> length (drop 4 t))"
  using assms
  by (auto simp: header_decode_zbuf Let_def split: if_splits)

section \<open>A connection that has received something\<close>

definition received :: "byte list \<Rightarrow> kcn_net" where
  "received t = \<lparr>kn_state = KCN_NET_STATE_ESTABLISHED, kn_name = [],
     kn_fd = Some \<lparr>sk_rx = [], sk_eof = False, sk_tx = [], sk_sys = []\<rparr>,
     kn_evread = False, kn_evwrite = False, kn_everrs = [],
     kn_ibuf = zbuf [] [] t (replicate (4096 - length t) 0),
     kn_obufdata = \<lparr>kbd_size = 4096, kbd_sp = 0, kbd_ep = 0, kbd_buf = replicate 4096 0\<rparr>, kn_obufq = []\<rparr>"

lemma received_simps [simp]:
  "kn_ibuf (received t) = zbuf [] [] t (replicate (4096 - length t) 0)" "obytes (received t) = []"
  "kn_state (received t) = KCN_NET_STATE_ESTABLISHED" "kn_obufq (received t) = []"
  by (simp_all add: received_def obytes_def)

end
