(* ===== verification/Kcndb_Server.thy ===== *)
theory Kcndb_Server
  imports Kcndb_Db_Open Kcn_Wire
begin

text \<open>
  \<^verbatim>\<open>kcndbd/kcndb_server.c\<close>: the daemon's side of a connection.  Received bytes are split into
  messages; a query is answered with a response per matching record and a final one that carries
  the error number, an added record goes to the database and is not answered.

  The state the callbacks share is the connection and the thread's database with the static array
  of sizes and locks.  \<open>malloc\<close> and \<open>now\<close> (the result of \<open>time(2)\<close>) are parameters.
\<close>

section \<open>The callbacks\<close>

type_synonym kcndb_thread = "kcndb_db_base list \<times> kcndb_db"

text \<open>\<open>kdr\<close> is \<^const>\<open>None\<close> for the magic pointer of the final response.\<close>

definition kcndb_server_response_send ::
  "allocator \<Rightarrow> kcndb_db_record option \<Rightarrow> nat \<Rightarrow> kcn_net \<Rightarrow> (unit result \<times> kcn_net) option" where
  "kcndb_server_response_send malloc kdr score kn = do {
     okb \<leftarrow> kcn_net_obuf kn;
     kmr \<leftarrow> Some (case kdr of
         Some kdr \<Rightarrow> \<lparr>kmr_error = 0, kmr_score = of_nat score,
                      kmr_loc = Some (kdr_loc kdr), kmr_loclen = kdr_loclen kdr\<rparr>
       | None \<Rightarrow> \<lparr>kmr_error = of_nat score, kmr_score = 0, kmr_loc = None, kmr_loclen = 0\<rparr>);
     okb \<leftarrow> kcn_msg_response_encode okb kmr;
     kn \<leftarrow> Some (kn_obuf_sync okb kn);
     kcn_net_write malloc kn okb
   }"

definition response_cb :: "allocator \<Rightarrow> kcn_net search_cb" where
  "response_cb malloc kdr score kn = kcndb_server_response_send malloc (Some kdr) score kn"

definition kcndb_server_query_process ::
  "allocator \<Rightarrow> kcn_msg_header \<Rightarrow> kcn_net \<Rightarrow> kcndb_thread \<Rightarrow> (unit result \<times> kcn_net \<times> kcndb_thread) option" where
  "kcndb_server_query_process malloc kmh kn kt = do {
     (kmq, ikb) \<leftarrow> kcn_msg_query_decode (kn_ibuf kn) kmh;
     kn \<leftarrow> Some (kn\<lparr>kn_ibuf := ikb\<rparr>);
     (errno, kn, kt) \<leftarrow>
       (case kmq of
          Inl e \<Rightarrow> Some (e, kn, kt)
        | Inr kmq \<Rightarrow> do {
            ((r, kn), kt) \<leftarrow> kcndb_db_search (response_cb malloc) (kmq_eq kmq) (unat (kmq_maxcount kmq)) kt kn;
            Some (case r of Inl e \<Rightarrow> e | Inr _ \<Rightarrow> 0, kn, kt)
          });
     (_, kn) \<leftarrow> kcndb_server_response_send malloc None errno kn;
     Some (Inr (), kn, kt)
   }"

definition kcndb_server_add_process ::
  "time_t result \<Rightarrow> kcn_msg_header \<Rightarrow> kcn_net \<Rightarrow> kcndb_thread \<Rightarrow> (unit result \<times> kcn_net \<times> kcndb_thread) option" where
  "kcndb_server_add_process now kmh kn kt = do {
     (kma, kb) \<leftarrow> kcn_msg_add_decode (kn_ibuf kn) kmh;
     kn \<leftarrow> Some (kn\<lparr>kn_ibuf := kb\<rparr>);
     (case kma of
        Inl e \<Rightarrow> Some (Inl e, kn, kt)
      | Inr kma \<Rightarrow>
          (case (if kma_time kma \<noteq> KCN_TIME_NOW then Inr (kma_time kma) else now) of
             Inl e \<Rightarrow> Some (Inl e, kn, kt)
           | Inr time \<Rightarrow> do {
               (r, kt) \<leftarrow> kcndb_db_record_add (kma_type kma)
                 \<lparr>kdr_time = time, kdr_val = kma_val kma, kdr_locidx = 0,
                  kdr_loc = kma_loc kma, kdr_loclen = kma_loclen kma\<rparr> kt;
               Some (map_sum id (\<lambda>_. ()) r, kn, kt)
             }))
   }"

text \<open>The read callback of the connection.\<close>

partial_function (option) kcndb_server_recv ::
  "allocator \<Rightarrow> time_t result \<Rightarrow> kcn_net \<Rightarrow> kcndb_thread \<Rightarrow> (errno \<times> kcn_net \<times> kcndb_thread) option" where
  "kcndb_server_recv malloc now kn kt =
     (case kcn_buf_trailingdata (kn_ibuf kn) of
        None \<Rightarrow> None
      | Some t \<Rightarrow>
          (if \<not> t > 0 then Some (EAGAIN, kn, kt)
           else case kcn_msg_header_decode (kn_ibuf kn) of
             None \<Rightarrow> None
           | Some (Inl e, kb) \<Rightarrow> Some (e, kn\<lparr>kn_ibuf := kb\<rparr>, kt)
           | Some (Inr kmh, kb) \<Rightarrow>
               (case (if kmh_type kmh = KCN_MSG_TYPE_QUERY
                      then kcndb_server_query_process malloc kmh (kn\<lparr>kn_ibuf := kb\<rparr>) kt
                      else if kmh_type kmh = KCN_MSG_TYPE_ADD
                      then kcndb_server_add_process now kmh (kn\<lparr>kn_ibuf := kb\<rparr>) kt
                      else Some (Inl EOPNOTSUPP, kn\<lparr>kn_ibuf := kb\<rparr>, kt)) of
                  None \<Rightarrow> None
                | Some (Inl e, kn, kt) \<Rightarrow>
                    (if e = EAGAIN
                     then (case kcn_buf_start (kn_ibuf kn) of
                             None \<Rightarrow> None
                           | Some kb \<Rightarrow> Some (e, kn\<lparr>kn_ibuf := kb\<rparr>, kt))
                     else Some (e, kn, kt))
                | Some (Inr _, kn, kt) \<Rightarrow> kcndb_server_recv malloc now kn kt)))"

section \<open>Responses\<close>

text \<open>A response that is sent goes to the end of the queue, unless there is no memory for it.\<close>

lemma response_send_partial:
  assumes "serving kn" "alloc_ok malloc" "kcndb_server_response_send malloc kdr score kn = Some (r, kn')"
  shows "serving kn' \<and> kn_fd kn' = kn_fd kn \<and> kn_ibuf kn' = kn_ibuf kn"
proof -
  from assms(1) have ok: "net_ok 4096 kn" by (simp add: serving_def)
  from obuf_ok [OF ok] obtain okb where o: "kcn_net_obuf kn = Some okb" "kb_wf okb" "kb_cap okb = 4096" .
  from assms(3) o obtain kmr kb where e: "kcn_msg_response_encode okb kmr = Some kb"
    and w: "kcn_net_write malloc (kn_obuf_sync kb kn) kb = Some (r, kn')"
    by (auto simp: kcndb_server_response_send_def bind_eq_Some_conv)
  from response_encode_SomeE [OF o(2) _ e] o(3) have kb: "kb_wf kb" "kb_cap kb = 4096"
    "kb_data kb \<noteq> []" by (auto simp: response_msg_def header_bytes_def)
  note sync = obuf_sync_ok [OF ok kb(1,2)]
  from net_write_ok [OF sync(1) _ kb(1,3) assms(2)] sync assms(1) w show ?thesis
    by (auto simp: serving_def)
qed

lemma response_send_ok:
  assumes "serving kn" "alloc_ok malloc" "malloc (length (response_msg r)) \<noteq> None" "kn_everrs kn = []"
    "4 + length (response_body r) \<le> 4096" "\<forall>loc. kmr_loc r = Some loc \<longrightarrow> kmr_loclen r \<le> length loc"
    "r = (case kdr of
         Some kdr \<Rightarrow> \<lparr>kmr_error = 0, kmr_score = of_nat score,
                      kmr_loc = Some (kdr_loc kdr), kmr_loclen = kdr_loclen kdr\<rparr>
       | None \<Rightarrow> \<lparr>kmr_error = of_nat score, kmr_score = 0, kmr_loc = None, kmr_loclen = 0\<rparr>)"
  shows "\<exists>kn'. kcndb_server_response_send malloc kdr score kn = Some (Inr (), kn') \<and> serving kn' \<and>
    kn_everrs kn' = [] \<and> kn_ibuf kn' = kn_ibuf kn \<and> kn_fd kn' = kn_fd kn \<and> kn_evwrite kn' \<and>
    obytes kn' = obytes kn @ response_msg r"
proof -
  from assms(1) have ok: "net_ok 4096 kn" by (simp add: serving_def)
  from obuf_ok [OF ok] obtain okb where o: "kcn_net_obuf kn = Some okb" "kb_wf okb" "kb_cap okb = 4096" .
  from response_encode_ok [OF o(2) _ assms(6)] assms(5) o(3) obtain kb where
    e: "kcn_msg_response_encode okb r = Some kb" by auto
  from response_encode_SomeE [OF o(2) _ e] o(3) have kb: "kb_wf kb" "kb_cap kb = 4096"
    "kb_data kb = response_msg r" by auto
  then have ne: "kb_data kb \<noteq> []" by (simp add: response_msg_def header_bytes_def)
  note sync = obuf_sync_ok [OF ok kb(1,2)]
  from net_write_ok [OF sync(1) _ kb(1) ne assms(2)] sync assms(1,3,4) kb(3) obtain kn' where
    w: "kcn_net_write malloc (kn_obuf_sync kb kn) kb = Some (Inr (), kn')" "net_ok 4096 kn'"
    "kn_fd kn' = kn_fd kn" "kn_state kn' = kn_state kn" "kn_ibuf kn' = kn_ibuf kn"
    "kn_evread kn' = kn_evread kn" "obytes kn' = obytes kn @ response_msg r" "kn_everrs kn' = []"
    "kn_evwrite kn'"
    by (auto simp: serving_def)
  with o e assms(1) show ?thesis
    by (auto simp: kcndb_server_response_send_def assms(7) [symmetric] serving_def)
qed

section \<open>Searching for a connection\<close>

text \<open>Whatever the database does, a search changes the callback's state by calls of the callback only.\<close>

lemma search_loop_state:
  assumes "kcndb_db_search_loop cb ke maxn n st arg = Some y" "P arg"
    "\<And>kdr s a r a'. P a \<Longrightarrow> cb kdr s a = Some (r, a') \<Longrightarrow> P a'"
  shows "P (snd (snd y))"
proof -
  have "cb = cb \<longrightarrow> P arg \<longrightarrow> P (snd (snd y))"
  proof (rule kcndb_db_search_loop.raw_induct
      [where P = "\<lambda>c ke m n st a y. c = cb \<longrightarrow> P a \<longrightarrow> P (snd (snd y))", OF _ assms(1)], intro impI)
    fix f c ke m n st a and y :: "nat result \<times> db_st \<times> 'a"
    assume IH: "\<And>c ke m n st a y. f c ke m n st a = Some y \<Longrightarrow> c = cb \<longrightarrow> P a \<longrightarrow> P (snd (snd y))"
      and c: "c = cb" and a: "P a"
      and eq: "(if \<not> n < m then Some (Inr n, st, a)
        else
          case kcndb_db_record_read kdr_uninit st of
            None \<Rightarrow> None
          | Some (Inl e, st) \<Rightarrow>
              (if e = ESHUTDOWN then Some (Inr n, st, a) else Some (Inl e, st, a))
          | Some (Inr kdr, st) \<Rightarrow>
              (if \<not> kcn_eq_time_match (kdr_time kdr) ke then f c ke m n st a
               else
                 case kcndb_db_op_match ke (kdr_val kdr) of
                   None \<Rightarrow> None
                 | Some matched \<Rightarrow>
                     if \<not> matched then f c ke m n st a
                     else (case kcndb_db_loc_lookup (kdr_locidx kdr) st of
                        None \<Rightarrow> None
                      | Some (Inl e, st) \<Rightarrow> Some (Inl e, st, a)
                      | Some (Inr (loc, loclen), st) \<Rightarrow>
                          (case c (kdr\<lparr>kdr_loc := loc, kdr_loclen := loclen\<rparr>) 0 a of
                             None \<Rightarrow> None
                           | Some (Inl e, a) \<Rightarrow> Some (Inl e, st, a)
                           | Some (Inr _, a) \<Rightarrow> f c ke m (n + 1) st a)))) = Some y"
    from eq show "P (snd (snd y))"
      using IH [OF _ ] a assms(3) c
      by (auto split: if_splits option.splits sum.splits prod.splits)
  qed
  with assms(2) show ?thesis by blast
qed

lemma search_locked_state:
  assumes "kcndb_db_search_locked cb ke maxn st arg = Some (r, st', arg')" "P arg"
    "\<And>kdr s a r a'. P a \<Longrightarrow> cb kdr s a = Some (r, a') \<Longrightarrow> P a'"
  shows "P arg'"
proof -
  obtain r0 st0 where o: "on_table (\<lambda>kf. kcndb_file_seek_head kf 0) st = Some (r0, st0)"
    using assms(1) by (cases "on_table (\<lambda>kf. kcndb_file_seek_head kf 0) st")
      (auto simp: kcndb_db_search_locked_def)
  show ?thesis
  proof (cases r0)
    case (Inl e)
    with assms(1,2) o show ?thesis by (auto simp: kcndb_db_search_locked_def bind_eq_Some_conv)
  next
    case (Inr u)
    from assms(1) [unfolded kcndb_db_search_locked_def o Inr option.case prod.case sum.case]
    obtain u1 st1 n st2 arg2 where
      l: "kcndb_db_search_loop cb ke maxn 0 st1 arg = Some (n, st2, arg2)"
      and f: "(case n of Inl e \<Rightarrow> do { st \<leftarrow> kcndb_db_unlock st2; Some (Inl e, st, arg2) }
         | Inr n \<Rightarrow> (if n = 0 then do { st \<leftarrow> kcndb_db_unlock st2; Some (Inl ESRCH, st, arg2) }
                else Some (Inr (), st2, arg2))) = Some (r, st', arg')"
      by (auto simp: bind_eq_Some_conv)
    from f have "arg' = arg2" by (auto simp: bind_eq_Some_conv split: sum.splits if_splits)
    with search_loop_state [where P = P, OF l assms(2,3)] show ?thesis by simp
  qed
qed

lemma search_state:
  assumes "kcndb_db_search cb ke maxn s arg = Some ((r, arg'), s')" "P arg"
    "\<And>kdr s a r a'. P a \<Longrightarrow> cb kdr s a = Some (r, a') \<Longrightarrow> P a'"
  shows "P arg'"
proof -
  have locked: "P arg1" if "kcndb_db_search_locked cb ke maxn st arg = Some (r1, st1, arg1)" for st r1 st1 arg1
    using search_locked_state [where P = P, OF that assms(2,3)] .
  obtain bases kd where s: "s = (bases, kd)" by (cases s)
  let ?i = "TYPE2INDEX (ke_type ke)"
  from assms(1) s obtain r0 st0 where l: "kcndb_db_rdlock (bases ! ?i, kd ! ?i) = Some (r0, st0)"
    by (auto simp: kcndb_db_search_def with_table_def Let_def bind_eq_Some_conv)
  show ?thesis
  proof (cases r0)
    case (Inl e)
    with assms(1,2) s l show ?thesis
      by (auto simp: kcndb_db_search_def with_table_def Let_def bind_eq_Some_conv)
  next
    case (Inr u)
    with assms(1) s l obtain st1 where "kcndb_db_search_locked cb ke maxn st0 arg = Some (r, st1, arg')"
      by (auto simp: kcndb_db_search_def with_table_def Let_def bind_eq_Some_conv)
    then show ?thesis by (rule locked)
  qed
qed

lemma query_process_partial:
  assumes "serving (kn\<lparr>kn_ibuf := ikb\<rparr>)" "alloc_ok malloc"
    "kcn_msg_query_decode (kn_ibuf kn) kmh = Some (q, ikb)"
    "kcndb_server_query_process malloc kmh kn kt = Some (r, kn', kt')"
  shows "r = Inr () \<and> serving kn' \<and> kn_fd kn' = kn_fd kn \<and> kn_ibuf kn' = ikb"
proof -
  let ?P = "\<lambda>a. serving a \<and> kn_fd a = kn_fd kn \<and> kn_ibuf a = ikb"
  have step: "?P a'" if "?P a" "kcndb_server_response_send malloc kdr s a = Some (r, a')" for kdr s a r a'
    using that response_send_partial [OF _ assms(2) that(2)] by auto
  from assms(1) have P0: "?P (kn\<lparr>kn_ibuf := ikb\<rparr>)" by simp
  show ?thesis
  proof (cases q)
    case (Inl e)
    with assms(3,4) obtain r2 where "kcndb_server_response_send malloc None e (kn\<lparr>kn_ibuf := ikb\<rparr>) = Some (r2, kn')"
      "r = Inr ()" by (auto simp: kcndb_server_query_process_def bind_eq_Some_conv)
    with step [OF P0] show ?thesis by blast
  next
    case (Inr kmq)
    with assms(3,4) obtain r1 kn1 kt1 e r2 where
      s: "kcndb_db_search (response_cb malloc) (kmq_eq kmq) (unat (kmq_maxcount kmq)) kt (kn\<lparr>kn_ibuf := ikb\<rparr>) =
        Some ((r1, kn1), kt1)"
      and r: "kcndb_server_response_send malloc None e kn1 = Some (r2, kn')" "r = Inr ()"
      by (auto simp: kcndb_server_query_process_def bind_eq_Some_conv)
    have "?P kn1"
      by (rule search_state [where P = ?P, OF s P0]) (unfold response_cb_def, rule step)
    with step [OF this r(1)] r(2) show ?thesis by blast
  qed
qed

lemma add_process_partial:
  assumes "kcn_msg_add_decode (kn_ibuf kn) kmh = Some (q, ikb)"
    "kcndb_server_add_process now kmh kn kt = Some (r, kn', kt')"
  shows "kn' = kn\<lparr>kn_ibuf := ikb\<rparr>"
  using assms
  by (auto simp: kcndb_server_add_process_def bind_eq_Some_conv split: sum.splits if_splits)

section \<open>The receive loop\<close>

text \<open>A body decoder leaves the unread rest of the buffer, or all of it when the length is wrong.\<close>

lemma body_decode_shape:
  assumes "kmh_len kmh \<le> length t"
  shows "\<exists>q kb. kcn_msg_query_decode (zbuf pre [] t post) kmh = Some (q, kb) \<and> kb_wf kb \<and>
      kb_cap kb = length pre + length t + length post \<and> kb_heading kb = [] \<and> length (kb_data kb) \<le> length t"
    "\<exists>q kb. kcn_msg_add_decode (zbuf pre [] t post) kmh = Some (q, kb) \<and> kb_wf kb \<and>
      kb_cap kb = length pre + length t + length post \<and> kb_heading kb = [] \<and> length (kb_data kb) \<le> length t"
proof -
  show "\<exists>q kb. kcn_msg_query_decode (zbuf pre [] t post) kmh = Some (q, kb) \<and> kb_wf kb \<and>
      kb_cap kb = length pre + length t + length post \<and> kb_heading kb = [] \<and> length (kb_data kb) \<le> length t"
  proof (cases "kmh_len kmh = 28")
    case True
    with assms query_decode_zbuf [OF True, of t pre post] obtain r where
      "kcn_msg_query_decode (zbuf pre [] t post) kmh = Some (r, zbuf (pre @ take 28 t) [] (drop 28 t) post)" by auto
    with True assms show ?thesis by simp
  qed (simp add: kcn_msg_query_decode_def)
  show "\<exists>q kb. kcn_msg_add_decode (zbuf pre [] t post) kmh = Some (q, kb) \<and> kb_wf kb \<and>
      kb_cap kb = length pre + length t + length post \<and> kb_heading kb = [] \<and> length (kb_data kb) \<le> length t"
  proof (cases "17 \<le> kmh_len kmh")
    case True
    from add_decode_zbuf [OF True assms, of pre post] obtain a where
      "kcn_msg_add_decode (zbuf pre [] t post) kmh =
        Some (Inr a, zbuf (pre @ take (kmh_len kmh) t) [] (drop (kmh_len kmh) t) post)" by blast
    with assms show ?thesis by simp
  qed (simp add: kcn_msg_add_decode_def)
qed

text \<open>
  Whatever has been received: if the loop returns, the connection is intact, and it asks for more
  data only when all that is buffered is the beginning of a message that fits.
\<close>

text \<open>The dispatch on the type of a message consumes at least the header and keeps the session's invariant.\<close>

lemma dispatch_partial:
  assumes "serving kn" "alloc_ok malloc" "length pre + length t + length post = 4096" "4 \<le> length t"
    "kmh_len kmh \<le> length (drop 4 t)" "kn_ibuf kn = zbuf (pre @ take 4 t) [] (drop 4 t) post"
    "(if kmh_type kmh = KCN_MSG_TYPE_QUERY then kcndb_server_query_process malloc kmh kn kt
      else if kmh_type kmh = KCN_MSG_TYPE_ADD then kcndb_server_add_process now kmh kn kt
      else Some (Inl EOPNOTSUPP, kn, kt)) = Some (r, kn', kt')"
  shows "serving kn' \<and> kn_fd kn' = kn_fd kn \<and> kb_heading (kn_ibuf kn') = [] \<and>
    length (kb_data (kn_ibuf kn')) < length t"
proof -
  have keep: "serving (kn\<lparr>kn_ibuf := kb\<rparr>)" if "kb_wf kb" "kb_cap kb = 4096" for kb
    using assms(1) that by (simp add: serving_def net_ok_def)
  note shape = body_decode_shape [OF assms(5), of "pre @ take 4 t" post, folded assms(6)]
  show ?thesis
  proof (cases "kmh_type kmh = KCN_MSG_TYPE_QUERY")
    case True
    from shape(1) assms(3,4) obtain q ikb where
      q: "kcn_msg_query_decode (kn_ibuf kn) kmh = Some (q, ikb)" "kb_wf ikb" "kb_cap ikb = 4096"
        "kb_heading ikb = []" "length (kb_data ikb) \<le> length (drop 4 t)" by auto
    from True assms(7) have "kcndb_server_query_process malloc kmh kn kt = Some (r, kn', kt')" by simp
    from query_process_partial [OF keep [OF q(2,3)] assms(2) q(1) this] q(4,5) assms(4) show ?thesis by auto
  next
    case nq: False
    show ?thesis
    proof (cases "kmh_type kmh = KCN_MSG_TYPE_ADD")
      case True
      from shape(2) assms(3,4) obtain q ikb where
        q: "kcn_msg_add_decode (kn_ibuf kn) kmh = Some (q, ikb)" "kb_wf ikb" "kb_cap ikb = 4096"
          "kb_heading ikb = []" "length (kb_data ikb) \<le> length (drop 4 t)" by auto
      from True nq assms(7) have "kcndb_server_add_process now kmh kn kt = Some (r, kn', kt')" by simp
      from add_process_partial [OF q(1) this] keep [OF q(2,3)] q(4,5) assms(4) show ?thesis by auto
    next
      case False
      with nq assms show ?thesis by auto
    qed
  qed
qed

lemma recv_partial:
  assumes "serving kn" "alloc_ok malloc" "kb_heading (kn_ibuf kn) = []"
    "kcndb_server_recv malloc now kn kt = Some (e, kn', kt')"
  shows "serving kn' \<and> kn_fd kn' = kn_fd kn \<and> (e = EAGAIN \<longrightarrow> ibuf_room 4096 kn')"
  using assms
proof (induction "length (kb_data (kn_ibuf kn))" arbitrary: kn kt rule: less_induct)
  case less
  from less.prems(1) have "kb_wf (kn_ibuf kn)" "kb_cap (kn_ibuf kn) = 4096"
    by (simp_all add: serving_def net_ok_def)
  then obtain pre t post where ib: "kn_ibuf kn = zbuf pre [] t post" "length pre + length t + length post = 4096"
    using less.prems(3) by (auto elim!: kb_wf_zbufE)
  have keep: "serving (kn\<lparr>kn_ibuf := kb\<rparr>)" if "kb_wf kb" "kb_cap kb = 4096" for kb
    using less.prems(1) that by (simp add: serving_def net_ok_def)
  note rec = less.prems(4) [unfolded kcndb_server_recv.simps [of malloc now kn kt]]
  consider "t = []" | r kb where "t \<noteq> []" "kcn_msg_header_decode (zbuf pre [] t post) = Some (r, kb)"
    using rec ib by (cases "t = []") (auto simp: zbuf_len split: option.splits)
  then show ?case
  proof cases
    case 1
    with rec ib less.prems(1) show ?thesis by (auto simp: zbuf_len ibuf_room_def)
  next
    case 2
    note hs = header_decode_shape [OF 2(2) ib(2)]
    show ?thesis
    proof (cases r)
      case (Inl e1)
      with rec ib 2 have "e = e1" "kn' = kn\<lparr>kn_ibuf := kb\<rparr>" by (auto simp: zbuf_len)
      with hs keep [of kb] Inl show ?thesis by (auto simp: ibuf_room_def)
    next
      case (Inr kmh)
      with hs have kb: "4 \<le> length t" "kb = zbuf (pre @ take 4 t) [] (drop 4 t) post"
        "kmh_len kmh \<le> length (drop 4 t)" "serving (kn\<lparr>kn_ibuf := kb\<rparr>)" using keep by auto
      from rec ib 2 Inr obtain r1 kn1 kt1 where b:
        "(if kmh_type kmh = KCN_MSG_TYPE_QUERY then kcndb_server_query_process malloc kmh (kn\<lparr>kn_ibuf := kb\<rparr>) kt
          else if kmh_type kmh = KCN_MSG_TYPE_ADD then kcndb_server_add_process now kmh (kn\<lparr>kn_ibuf := kb\<rparr>) kt
          else Some (Inl EOPNOTSUPP, kn\<lparr>kn_ibuf := kb\<rparr>, kt)) = Some (r1, kn1, kt1)"
        by (auto simp: zbuf_len split: option.splits)
      from dispatch_partial [OF kb(4) less.prems(2) ib(2) kb(1,3) _ b] kb(2)
      have body: "serving kn1" "kn_fd kn1 = kn_fd kn" "kb_heading (kn_ibuf kn1) = []"
        "length (kb_data (kn_ibuf kn1)) < length t" by simp_all
      then have "kb_wf (kn_ibuf kn1)" by (simp add: serving_def net_ok_def)
      with body(3) obtain pre1 t1 post1 where ib1: "kn_ibuf kn1 = zbuf pre1 [] t1 post1"
        by (auto elim!: kb_wf_zbufE)
      have self: "kn1\<lparr>kn_ibuf := zbuf pre1 [] t1 post1\<rparr> = kn1" using ib1 by (cases kn1) simp
      show ?thesis
      proof (cases r1)
        case (Inl e1)
        with rec ib 2 Inr b ib1 self have "e = e1 \<and> kn' = kn1" by (auto simp: zbuf_len zbuf_start split: if_splits)
        with body ib ib1 show ?thesis by (auto simp: ibuf_room_def)
      next
        case u: (Inr u)
        with rec ib 2 Inr b have "kcndb_server_recv malloc now kn1 kt1 = Some (e, kn', kt')" by (simp add: zbuf_len)
        with less.hyps [of kn1 kt1] body less.prems(2) ib show ?thesis by simp
      qed
    qed
  qed
qed

interpretation server_reader:
  net_reader "kcndb_server_recv malloc now" KCN_MSG_MAXSIZ "\<lambda>_. alloc_ok malloc"
  for malloc :: allocator and now :: "time_t result"
proof
  fix kn d e kn' d'
  assume "net_ok 4096 kn" "kn_fd kn \<noteq> None" "kn_state kn = KCN_NET_STATE_ESTABLISHED" "\<not> kn_evread kn"
    "kb_heading (kn_ibuf kn) = []" "alloc_ok malloc" "kcndb_server_recv malloc now kn d = Some (e, kn', d')"
  with recv_partial [of kn malloc now d e kn' d']
  show "net_ok 4096 kn' \<and> kn_fd kn' = kn_fd kn \<and> kn_state kn' = kn_state kn \<and> \<not> kn_evread kn' \<and>
      alloc_ok malloc \<and> (e = EAGAIN \<longrightarrow> ibuf_room 4096 kn')"
    by (simp add: serving_def)
qed

section \<open>Answers\<close>

definition sending :: "allocator \<Rightarrow> kcn_net \<Rightarrow> bool" where
  "sending malloc kn \<longleftrightarrow> serving kn \<and> alloc_total malloc \<and> kn_everrs kn = []"

text \<open>The callback reads \<open>kdr_loclen\<close> bytes of the locator, as the search assumes.\<close>

lemma response_cb_ok:
  assumes "sending malloc kn" "length loc \<le> 4075"
  shows "\<exists>kn'. response_cb malloc (kdr\<lparr>kdr_loc := loc @ rest, kdr_loclen := length loc\<rparr>) 0 kn = Some (Inr (), kn') \<and>
    sending malloc kn' \<and> kn_ibuf kn' = kn_ibuf kn \<and> kn_fd kn' = kn_fd kn \<and>
    obytes kn' = obytes kn @ response_msg (loc_response 0 loc)"
proof -
  let ?r = "\<lparr>kmr_error = 0, kmr_score = of_nat 0, kmr_loc = Some (loc @ rest), kmr_loclen = length loc\<rparr>"
  from assms have s: "serving kn" "alloc_ok malloc" "kn_everrs kn = []" "alloc_total malloc"
    by (simp_all add: sending_def alloc_total_ok)
  have m: "malloc n \<noteq> None" for n using s(4) by (auto simp: alloc_total_def)
  have b: "response_body ?r = response_body (loc_response 0 loc)"
    by (simp add: response_body_def loc_response_def)
  then have "4 + length (response_body ?r) \<le> 4096"
    using assms(2) by (simp add: length_response_body loc_response_def)
  from response_send_ok [OF s(1,2) m s(3) this, where kdr = "Some (kdr\<lparr>kdr_loc := loc @ rest, kdr_loclen := length loc\<rparr>)"
      and score = 0] b s(4)
  show ?thesis by (auto simp: response_cb_def sending_def response_msg_def)
qed

definition response_sink :: "allocator \<Rightarrow> kcndb_db_record \<Rightarrow> kcn_net \<Rightarrow> unit result \<times> kcn_net" where
  "response_sink malloc kdr kn = the (response_cb malloc kdr 0 kn)"

lemma response_cb_clip:
  "response_cb malloc (kdr\<lparr>kdr_loc := loc @ rest, kdr_loclen := length loc\<rparr>) s kn =
   response_cb malloc (kdr\<lparr>kdr_loc := loc, kdr_loclen := length loc\<rparr>) s kn"
proof -
  have "kcn_msg_response_encode kb \<lparr>kmr_error = 0, kmr_score = sc, kmr_loc = Some (loc @ rest), kmr_loclen = length loc\<rparr> =
    kcn_msg_response_encode kb \<lparr>kmr_error = 0, kmr_score = sc, kmr_loc = Some loc, kmr_loclen = length loc\<rparr>" for kb sc
    by (simp add: kcn_msg_response_encode_def)
  then show ?thesis by (simp add: response_cb_def kcndb_server_response_send_def)
qed

interpretation server_sink: record_sink "response_cb malloc" "response_sink malloc" "sending malloc"
  for malloc :: allocator
proof
  fix arg kdr and loc rest :: "byte list" assume a: "sending malloc arg" "length loc \<le> 4075"
  from response_cb_ok [OF a, where kdr = kdr and rest = "[]"] show "response_cb malloc (kdr\<lparr>kdr_loc := loc @ rest, kdr_loclen := length loc\<rparr>) 0 arg =
      Some (response_sink malloc (kdr\<lparr>kdr_loc := loc, kdr_loclen := length loc\<rparr>) arg)"
    by (auto simp: response_cb_clip response_sink_def)
  from response_cb_ok [OF a, where kdr = kdr and rest = "[]"]
  show "sending malloc (snd (response_sink malloc (kdr\<lparr>kdr_loc := loc, kdr_loclen := length loc\<rparr>) arg))"
    by (auto simp: response_sink_def)
qed

lemma deliver_responses:
  assumes "sending malloc kn" "\<forall>r \<in> set rs. kdr_loclen r = length (kdr_loc r) \<and> length (kdr_loc r) \<le> 4075"
  shows "\<exists>kn'. deliver (response_sink malloc) rs kn = (Inr (), kn') \<and> sending malloc kn' \<and>
    kn_ibuf kn' = kn_ibuf kn \<and> kn_fd kn' = kn_fd kn \<and>
    obytes kn' = obytes kn @ concat (map (\<lambda>r. response_msg (loc_response 0 (kdr_loc r))) rs)"
  using assms
proof (induction rs arbitrary: kn)
  case Nil
  then show ?case by simp
next
  case (Cons r rs)
  then have l: "length (kdr_loc r) \<le> 4075" "kdr_loclen r = length (kdr_loc r)" by simp_all
  then have r: "r\<lparr>kdr_loc := kdr_loc r, kdr_loclen := length (kdr_loc r)\<rparr> = r" by simp
  from response_cb_ok [OF Cons.prems(1) l(1), where kdr = r and rest = "[]"] r obtain kn1 where
    c: "response_cb malloc r 0 kn = Some (Inr (), kn1)" "sending malloc kn1" "kn_ibuf kn1 = kn_ibuf kn"
    "kn_fd kn1 = kn_fd kn" "obytes kn1 = obytes kn @ response_msg (loc_response 0 (kdr_loc r))" by auto
  from Cons.IH [OF c(2)] Cons.prems(2) c show ?case by (auto simp: response_sink_def)
qed

text \<open>
  A query that asks for a type and an operator of the enumerations is answered with a response for
  each of the first \<open>maxcount\<close> matching records of the table, in their order, and a final one that
  says 0 or \<open>ESRCH\<close>.
\<close>

lemma query_answer:
  fixes q :: kcn_msg_query
  defines "i \<equiv> TYPE2INDEX (ke_type (kmq_eq q))" and "sel \<equiv> selection (kmq_eq q) (unat (kmq_maxcount q))"
  assumes kn: "sending malloc kn" and dec: "kcn_msg_query_decode (kn_ibuf kn) kmh = Some (Inr q, ikb)"
    "kb_wf ikb" "kb_cap ikb = 4096"
    and i: "i < length bases" "i < length kd" and t: "table_ok (bases ! i) (kd ! i) D L"
    and l: "lock_free (kdb_lock (bases ! i))" and o: "1 \<le> ke_op (kmq_eq q)" "ke_op (kmq_eq q) \<le> 5"
  shows "\<exists>kn' kdt. kcndb_server_query_process malloc kmh kn (bases, kd) = Some (Inr (), kn',
      (if sel D = [] then bases
       else bases[i := (bases ! i)\<lparr>kdb_lock := lock_reader (kdb_lock (bases ! i))\<rparr>], kd[i := kdt])) \<and>
    table_ok (bases ! i) kdt D L \<and> sending malloc kn' \<and> kn_ibuf kn' = ikb \<and> kn_fd kn' = kn_fd kn \<and> kn_evwrite kn' \<and>
    obytes kn' = obytes kn @ concat (map (\<lambda>r. response_msg (loc_response 0 (loc_of L (unat (kdr_locidx r))))) (sel D)) @
      response_msg (end_response (if sel D = [] then ESRCH else 0))"
proof -
  let ?kn = "kn\<lparr>kn_ibuf := ikb\<rparr>"
  from kn dec have s1: "sending malloc ?kn" by (simp add: sending_def serving_def net_ok_def)
  have ob1: "obytes ?kn = obytes kn" by (simp add: obytes_def)
  have rv: "record_valid L r" if "r \<in> set (sel D)" for r
    using that t by (auto simp: sel_def selection_def table_ok_def dest!: in_set_takeD)
  have len: "\<forall>r \<in> set (map (with_loc L) (sel D)). kdr_loclen r = length (kdr_loc r) \<and> length (kdr_loc r) \<le> 4075"
    using rv by (auto simp: with_loc_def record_valid_def node_at_def)
  from deliver_responses [OF s1 len] obtain kn1 where
    d: "deliver (response_sink malloc) (map (with_loc L) (sel D)) ?kn = (Inr (), kn1)" "sending malloc kn1"
    "kn_ibuf kn1 = ikb" "kn_fd kn1 = kn_fd kn"
    "obytes kn1 = obytes kn @ concat (map (\<lambda>r. response_msg (loc_response 0 (loc_of L (unat (kdr_locidx r))))) (sel D))"
    using ob1 by (auto simp: comp_def with_loc_def)
  let ?e = "if sel D = [] then ESRCH else 0"
  let ?bases = "if sel D = [] then bases
    else bases[i := (bases ! i)\<lparr>kdb_lock := lock_reader (kdb_lock (bases ! i))\<rparr>]"
  from server_sink.search_ok [OF i[unfolded i_def] t[unfolded i_def] l[unfolded i_def] o s1, of "unat (kmq_maxcount q)"]
    d(1) obtain r kdt where
    s: "kcndb_db_search (response_cb malloc) (kmq_eq q) (unat (kmq_maxcount q)) (bases, kd) ?kn =
      Some ((r, kn1), (?bases, kd[i := kdt]))" "(case r of Inl e \<Rightarrow> e | Inr _ \<Rightarrow> 0) = ?e"
    and kdt: "table_ok (bases ! i) kdt D L"
    unfolding i_def by (auto simp: sel_def split: if_splits)
  from d(2) have k1: "serving kn1" "alloc_ok malloc" "kn_everrs kn1 = []" "alloc_total malloc"
    by (simp_all add: sending_def alloc_total_ok)
  have m: "malloc n \<noteq> None" for n using k1(4) by (auto simp: alloc_total_def)
  have le: "4 + length (response_body (end_response ?e)) \<le> 4096"
    by (simp add: length_response_body end_response_def)
  from response_send_ok [OF k1(1,2) m k1(3) le, where kdr = None and score = ?e] obtain kn2 where
    f: "kcndb_server_response_send malloc None ?e kn1 = Some (Inr (), kn2)" "serving kn2" "kn_everrs kn2 = []" "kn_evwrite kn2"
    "kn_ibuf kn2 = kn_ibuf kn1" "kn_fd kn2 = kn_fd kn1"
    "obytes kn2 = obytes kn1 @ response_msg (end_response ?e)"
    by (auto simp: end_response_def)
  have "kcndb_server_query_process malloc kmh kn (bases, kd) = Some (Inr (), kn2, (?bases, kd[i := kdt]))"
    using dec(1) s f(1) by (simp add: kcndb_server_query_process_def)
  with d f k1(4) kdt show ?thesis by (auto simp: sending_def)
qed

end
