(* ===== verification/Kcndb_Session.thy ===== *)
theory Kcndb_Session
  imports Kcndb_Server
begin

text \<open>
  The daemon at the level of messages: what one whole message in the input buffer does to the
  connection and to the database, how a sequence of messages composes, and a table as it is when a
  handle has just been opened on files with given contents.
\<close>

section \<open>Messages\<close>

lemma recv_empty:
  "kn_ibuf kn = zbuf pre h [] post \<Longrightarrow> kcndb_server_recv malloc now kn kt = Some (EAGAIN, kn, kt)"
  by (subst kcndb_server_recv.simps) (simp add: zbuf_simps)

text \<open>One round of the loop, when the message processor reports success.\<close>

lemma recv_msg:
  assumes "kn_ibuf kn = zbuf pre [] (header_bytes type body @ body @ rest) post" "length body \<le> 4092"
    and "(if type = 1 then kcndb_server_query_process malloc \<lparr>kmh_version = 1, kmh_type = 1, kmh_len = length body\<rparr>
            (kn\<lparr>kn_ibuf := zbuf (pre @ header_bytes type body) [] (body @ rest) post\<rparr>) kt
          else kcndb_server_add_process now \<lparr>kmh_version = 1, kmh_type = 3, kmh_len = length body\<rparr>
            (kn\<lparr>kn_ibuf := zbuf (pre @ header_bytes type body) [] (body @ rest) post\<rparr>) kt) =
      Some (Inr (), kn', kt')" "type = 1 \<or> type = 3"
  shows "kcndb_server_recv malloc now kn kt = kcndb_server_recv malloc now kn' kt'"
  using assms
  by (subst kcndb_server_recv.simps) (auto simp: zbuf_simps header_decode_msg)

lemma recv_query:
  fixes q :: kcn_msg_query
  defines "i \<equiv> TYPE2INDEX (ke_type (kmq_eq q))" and "sel \<equiv> selection (kmq_eq q) (unat (kmq_maxcount q))"
  assumes kn: "sending malloc kn" "kn_ibuf kn = zbuf pre [] (query_msg q @ rest) post"
    and q: "kmq_loctype q \<le> 1" "ke_type (kmq_eq q) < 256" "1 \<le> ke_op (kmq_eq q)" "ke_op (kmq_eq q) \<le> 5"
    and i: "i < length bases" "i < length kd" and t: "table_ok (bases ! i) (kd ! i) D L"
    and l: "lock_free (kdb_lock (bases ! i))"
  shows "\<exists>kn' kdt. kcndb_server_recv malloc now kn (bases, kd) =
      kcndb_server_recv malloc now kn'
        (if sel D = [] then bases
         else bases[i := (bases ! i)\<lparr>kdb_lock := lock_reader (kdb_lock (bases ! i))\<rparr>], kd[i := kdt]) \<and>
    table_ok (bases ! i) kdt D L \<and> sending malloc kn' \<and> kn_fd kn' = kn_fd kn \<and> kn_evwrite kn' \<and>
    kn_ibuf kn' = zbuf (pre @ query_msg q) [] rest post \<and>
    obytes kn' = obytes kn @ concat (map (\<lambda>r. response_msg (loc_response 0 (loc_of L (unat (kdr_locidx r))))) (sel D)) @
      response_msg (end_response (if sel D = [] then ESRCH else 0))"
proof -
  let ?kmh = "\<lparr>kmh_version = 1, kmh_type = 1, kmh_len = length (query_body q)\<rparr>"
  let ?pre = "pre @ header_bytes 1 (query_body q)"
  let ?kn = "kn\<lparr>kn_ibuf := zbuf ?pre [] (query_body q @ rest) post\<rparr>"
  from q(4) have "ke_op (kmq_eq q) < 256" by (simp add: word_le_nat_alt word_less_nat_alt)
  with q have d: "kcn_msg_query_decode (kn_ibuf ?kn) ?kmh =
      Some (Inr q, zbuf (?pre @ query_body q) [] rest post)" by (simp add: query_decode_body)
  from kn have c: "length pre + 32 + length rest + length post = 4096" and s: "sending malloc ?kn"
    by (auto simp: sending_def serving_def net_ok_def query_msg_def)
  from query_answer [OF s d _ _ i[unfolded i_def] t[unfolded i_def] l[unfolded i_def] q(3,4)] c
  obtain kn' kdt where a: "kcndb_server_query_process malloc ?kmh ?kn (bases, kd) = Some (Inr (), kn',
      (if sel D = [] then bases
       else bases[i := (bases ! i)\<lparr>kdb_lock := lock_reader (kdb_lock (bases ! i))\<rparr>], kd[i := kdt]))"
    "table_ok (bases ! i) kdt D L" "sending malloc kn'" "kn_fd kn' = kn_fd kn" "kn_evwrite kn'"
    "kn_ibuf kn' = zbuf (pre @ query_msg q) [] rest post"
    "obytes kn' = obytes ?kn @ concat (map (\<lambda>r. response_msg (loc_response 0 (loc_of L (unat (kdr_locidx r))))) (sel D)) @
      response_msg (end_response (if sel D = [] then ESRCH else 0))"
    unfolding i_def sel_def by (auto simp: query_msg_def)
  have "kcndb_server_recv malloc now kn (bases, kd) = kcndb_server_recv malloc now kn'
      (if sel D = [] then bases
       else bases[i := (bases ! i)\<lparr>kdb_lock := lock_reader (kdb_lock (bases ! i))\<rparr>], kd[i := kdt])"
    by (rule recv_msg [where type = 1 and body = "query_body q"]) (use kn(2) a(1) in \<open>simp_all add: query_msg_def\<close>)
  moreover have "obytes ?kn = obytes kn" by (simp add: obytes_def)
  ultimately show ?thesis using a(2-7) by (intro exI [of _ kn'] exI [of _ kdt]) simp
qed

text \<open>
  A message that has not arrived completely is left in the buffer: the receiver asks for more
  data and neither the connection nor the database changes.
\<close>

lemma incomplete_message_waits:
  assumes "kn_ibuf kn = zbuf pre [] t post" "length t < 4 \<or> t ! 0 = 1 \<and> length t < 4 + unat (of_be16 (take 2 (drop 2 t))) \<and>
      unat (of_be16 (take 2 (drop 2 t))) \<le> 4092"
  shows "kcndb_server_recv malloc now kn kt = Some (EAGAIN, kn, kt)"
proof (cases "t = []")
  case True
  with assms(1) show ?thesis by (simp add: recv_empty)
next
  case False
  from assms have "kcn_msg_header_decode (kn_ibuf kn) = Some (Inl EAGAIN, kn_ibuf kn)"
    by (auto simp: header_decode_zbuf Let_def)
  moreover from assms(1) have "kcn_buf_trailingdata (kn_ibuf kn) = Some (length t)" by (simp add: zbuf_len)
  moreover have "kn\<lparr>kn_ibuf := kn_ibuf kn\<rparr> = kn" by simp
  ultimately show ?thesis using False by (subst kcndb_server_recv.simps) simp
qed

text \<open>
  A table that takes a record: the invariant holds, nobody holds the lock, and the buffer of the
  record file has room for the last record and the new one.
\<close>

definition add_ready :: "kcndb_db_base \<Rightarrow> kcndb_db_table \<Rightarrow> byte list \<Rightarrow> byte list \<Rightarrow> bool" where
  "add_ready kdb kdt D L \<longleftrightarrow> table_ok kdb kdt D L \<and> lock_free (kdb_lock kdb) \<and> rw_readers (kdb_lock kdb) = 0 \<and>
     kb_data (kf_kb (kdt_table kdt)) = [] \<and> (\<exists>n \<ge> 48. kcn_buf_trailingspace (kf_kb (kdt_table kdt)) = Some n)"

text \<open>A record that the table accepts, and the record that the daemon makes of an add message.\<close>

definition record_fits :: "byte list \<Rightarrow> byte list \<Rightarrow> kcndb_db_record \<Rightarrow> bool" where
  "record_fits D L r \<longleftrightarrow> sint (kdr_time (last_record D)) \<le> sint (kdr_time r) \<and>
     kdr_loclen r = length (kdr_loc r) \<and> length (kdr_loc r) \<le> 4075 \<and> 0 \<notin> set (kdr_loc r) \<and>
     length D + 24 < 2 ^ 63 \<and> length L + 4085 < 2 ^ 63"

definition add_record :: "time_t \<Rightarrow> kcn_msg_add \<Rightarrow> kcndb_db_record" where
  "add_record t a = \<lparr>kdr_time = t, kdr_val = kma_val a, kdr_locidx = 0, kdr_loc = kma_loc a, kdr_loclen = kma_loclen a\<rparr>"

lemma add_ready_record_add:
  fixes type :: c_enum
  defines "i \<equiv> TYPE2INDEX type"
  assumes "i < length bases" "i < length kd" "add_ready (bases ! i) (kd ! i) D L" "record_fits D L r"
    "loc_effect L (kdr_loc r) idx L'"
  shows "\<exists>kdb kdt. kcndb_db_record_add type r (bases, kd) =
      Some (Inr (r\<lparr>kdr_locidx := idx\<rparr>), bases[i := kdb], kd[i := kdt]) \<and>
    add_ready kdb kdt (D @ record_bytes (r\<lparr>kdr_locidx := idx\<rparr>)) L' \<and> kdb_lock kdb = kdb_lock (bases ! i)"
proof -
  from assms(4) obtain n where n: "kcn_buf_trailingspace (kf_kb (kdt_table (kd ! i))) = Some n" "48 \<le> n"
    by (auto simp: add_ready_def)
  note as = assms(2-6) [unfolded i_def add_ready_def record_fits_def] n [unfolded i_def]
  from record_add_ok [of type bases kd D L n r idx L'] as obtain kdb kdt where
    "kcndb_db_record_add type r (bases, kd) = Some (Inr (r\<lparr>kdr_locidx := idx\<rparr>), bases[i := kdb], kd[i := kdt])"
    "table_ok kdb kdt (D @ record_bytes (r\<lparr>kdr_locidx := idx\<rparr>)) L'" "kdb_lock kdb = kdb_lock (bases ! i)"
    "kb_data (kf_kb (kdt_table kdt)) = []" "kcn_buf_trailingspace (kf_kb (kdt_table kdt)) = Some 4096"
    unfolding i_def by auto
  with assms(4) show ?thesis by (intro exI [of _ kdb] exI [of _ kdt]) (simp add: add_ready_def)
qed

lemma recv_add:
  fixes a :: kcn_msg_add and now :: "time_t result"
  defines "i \<equiv> TYPE2INDEX (kma_type a)" and "t \<equiv> if kma_time a \<noteq> - 1 then Inr (kma_time a) else now"
  assumes ib: "kn_ibuf kn = zbuf pre [] (add_msg a @ rest) post"
    and a: "kma_type a < 256" "kma_loclen a = length (kma_loc a)" "t = Inr tm"
    and i: "i < length bases" "i < length kd" and ok: "add_ready (bases ! i) (kd ! i) D L"
    and r: "record_fits D L (add_record tm a)" "loc_effect L (kma_loc a) idx L'"
  shows "\<exists>kdb kdt. kcndb_server_recv malloc now kn (bases, kd) =
      kcndb_server_recv malloc now (kn\<lparr>kn_ibuf := zbuf (pre @ add_msg a) [] rest post\<rparr>) (bases[i := kdb], kd[i := kdt]) \<and>
    add_ready kdb kdt (D @ record_bytes ((add_record tm a)\<lparr>kdr_locidx := idx\<rparr>)) L'"
proof -
  let ?kmh = "\<lparr>kmh_version = 1, kmh_type = 3, kmh_len = length (add_body a)\<rparr>"
  let ?pre = "pre @ header_bytes 3 (add_body a)"
  let ?kn = "kn\<lparr>kn_ibuf := zbuf ?pre [] (add_body a @ rest) post\<rparr>"
  from a have d: "kcn_msg_add_decode (kn_ibuf ?kn) ?kmh = Some (Inr a, zbuf (?pre @ add_body a) [] rest post)"
    by (simp add: add_decode_body)
  from add_ready_record_add [of "kma_type a" bases kd D L "add_record tm a" idx L'] i ok r
  obtain kdb kdt where k: "kcndb_db_record_add (kma_type a) (add_record tm a) (bases, kd) =
      Some (Inr ((add_record tm a)\<lparr>kdr_locidx := idx\<rparr>), bases[i := kdb], kd[i := kdt])"
    "add_ready kdb kdt (D @ record_bytes ((add_record tm a)\<lparr>kdr_locidx := idx\<rparr>)) L'"
    unfolding i_def by (auto simp: add_record_def)
  have p: "kcndb_server_add_process now ?kmh ?kn (bases, kd) =
      Some (Inr (), kn\<lparr>kn_ibuf := zbuf (pre @ add_msg a) [] rest post\<rparr>, (bases[i := kdb], kd[i := kdt]))"
    using d k(1) a(3) by (auto simp: kcndb_server_add_process_def t_def add_record_def add_msg_def split: if_splits)
  from r(1) a(2) have len: "length (add_body a) \<le> 4092" by (simp add: record_fits_def add_record_def length_add_body)
  have "kcndb_server_recv malloc now kn (bases, kd) =
      kcndb_server_recv malloc now (kn\<lparr>kn_ibuf := zbuf (pre @ add_msg a) [] rest post\<rparr>) (bases[i := kdb], kd[i := kdt])"
    by (rule recv_msg [where type = 3 and body = "add_body a"]) (use ib p len in \<open>simp_all add: add_msg_def\<close>)
  with k(2) show ?thesis by blast
qed

section \<open>A table that has just been opened\<close>

definition opened_file :: "byte list \<Rightarrow> kcndb_file" where
  "opened_file D = \<lparr>kf_fd = \<lparr>fd_data = D, fd_off = 0, fd_sys = []\<rparr>, kf_size = 0,
     kf_kb = zbuf [] [] [] (replicate 4096 0)\<rparr>"

definition opened_table :: "byte list \<Rightarrow> byte list \<Rightarrow> kcndb_db_table" where
  "opened_table D L = \<lparr>kdt_type = 1, kdt_loc = opened_file L, kdt_table = opened_file D\<rparr>"

definition opened_base :: "byte list \<Rightarrow> byte list \<Rightarrow> kcndb_db_base" where
  "opened_base D L = \<lparr>kdb_locsize = length L, kdb_tablesize = length D,
     kdb_lock = \<lparr>rw_readers = 0, rw_writer = False, rw_errs = []\<rparr>\<rparr>"

definition empty_locs :: "byte list" where
  "empty_locs = replicate 2048 0"

lemma opened_ready:
  assumes "length D < 2 ^ 63" "length L < 2 ^ 63" "2048 \<le> length L" "24 dvd length D"
    "\<forall>r \<in> set (parse_records D). record_valid L r"
  shows "add_ready (opened_base D L) (opened_table D L) D L"
  using assms
  by (simp add: add_ready_def table_ok_def opened_base_def opened_table_def opened_file_def file_holds_def
      lock_free_def zbuf_simps)

lemma opened_empty: "add_ready (opened_base [] empty_locs) (opened_table [] empty_locs) [] empty_locs"
  by (rule opened_ready) (simp_all add: empty_locs_def parse_records.simps)

text \<open>A locator in an empty file is new; a file with one record in it.\<close>

lemma effect_empty: "loc_effect empty_locs loc 2048 (loc_added empty_locs loc)"
  using bucket_bound [of loc] by (simp add: loc_effect_def empty_locs_def link_at_empty)

definition one_record :: "kcndb_db_record \<Rightarrow> byte list" where
  "one_record r = record_bytes (r\<lparr>kdr_locidx := 2048\<rparr>)"

lemma parse_one_record: "parse_records (one_record r) =
    [kdr_uninit\<lparr>kdr_time := kdr_time r, kdr_val := kdr_val r, kdr_locidx := 2048\<rparr>]"
  using parse_records_append [of "[]" "r\<lparr>kdr_locidx := 2048\<rparr>"]
  by (simp add: one_record_def parse_records.simps)

lemma length_one_record [simp]: "length (one_record r) = 24"
  by (simp add: one_record_def)

lemma opened_one:
  assumes "length (kdr_loc r) \<le> 4075"
  shows "add_ready (opened_base (one_record r) (loc_added empty_locs (kdr_loc r)))
    (opened_table (one_record r) (loc_added empty_locs (kdr_loc r))) (one_record r) (loc_added empty_locs (kdr_loc r))"
proof -
  let ?L = "loc_added empty_locs (kdr_loc r)"
  have L: "2048 \<le> length empty_locs" "length empty_locs < 2 ^ 63" by (simp_all add: empty_locs_def)
  note v = loc_effect_valid [OF effect_empty L assms]
  from v(2) have "loc_of ?L 2048 = kdr_loc r" using node_at_loc_of [of ?L 2048] by simp
  with v assms show ?thesis
    by (intro opened_ready)
      (simp_all add: parse_one_record record_valid_def length_loc_added empty_locs_def)
qed

section \<open>A concrete connection\<close>

lemma received_sending: "length t \<le> 4096 \<Longrightarrow> sending zero_malloc (received t)"
  by (simp add: sending_def serving_def net_ok_def received_def zero_malloc_def alloc_total_def kbd_wf_def)

end
