(* ===== verification/Kcndb_Db_Spec.thy ===== *)
theory Kcndb_Db_Spec
  imports Kcndb_Session
begin

text \<open>
  What the database promises, and where it does not keep it: the buffered files, the locator file
  with its hash chains, adding and searching records, opening a database.
\<close>

section \<open>Files\<close>

text \<open>
  C38. Ensuring bytes in the buffer always returns, whatever the system calls do, and it moves
  bytes from the file to the end of the buffered data without losing any; when no call fails for
  good, it succeeds exactly if buffer and file together have the bytes, and otherwise reports
  \<open>ESHUTDOWN\<close> at the end of the file.
\<close>

theorem ensure_moves_bytes:
  assumes "kb_wf (kf_kb kf)" "len \<le> kb_cap (kf_kb kf)"
  shows "\<exists>r kf' bs. kcndb_file_ensure kf len = Some (r, kf') \<and>
    kb_wf (kf_kb kf') \<and> kb_cap (kf_kb kf') = kb_cap (kf_kb kf) \<and>
    kb_heading (kf_kb kf') = kb_heading (kf_kb kf) \<and> kb_trailing (kf_kb kf') = kb_trailing (kf_kb kf) @ bs \<and>
    fd_avail (kf_fd kf) = bs @ fd_avail (kf_fd kf') \<and> fd_data (kf_fd kf') = fd_data (kf_fd kf) \<and>
    (r = Inr () \<longrightarrow> len \<le> length (kb_data (kf_kb kf'))) \<and>
    (fd_calm (kf_fd kf) \<longrightarrow>
       r = (if len \<le> length (kb_data (kf_kb kf)) + length (fd_avail (kf_fd kf)) then Inr () else Inl ESHUTDOWN))"
proof -
  obtain fd sz kb where kf: "kf = \<lparr>kf_fd = fd, kf_size = sz, kf_kb = kb\<rparr>" by (cases kf)
  with assms(1) obtain pre h t post where kb: "kb = zbuf pre h t post" by (auto elim: kb_wf_zbufE)
  from ensure_ok [of len pre h t post fd sz] assms(2) kf kb show ?thesis by fastforce
qed

theorem ensure_moves_bytes_witness:
  "\<exists>r kf'. kcndb_file_ensure \<lparr>kf_fd = \<lparr>fd_data = [1, 2, 3], fd_off = 1, fd_sys = [Part 0, Fail EINTR]\<rparr>,
      kf_size = 0, kf_kb = zbuf [] [] [] [0, 0, 0, 0]\<rparr> 2 = Some (r, kf') \<and> r = Inr () \<and>
    2 \<le> length (kb_data (kf_kb kf'))"
proof -
  let ?kf = "\<lparr>kf_fd = \<lparr>fd_data = [1, 2, 3], fd_off = 1, fd_sys = [Part 0, Fail EINTR]\<rparr>,
      kf_size = 0, kf_kb = zbuf [] [] [] [0, 0, 0, 0]\<rparr>"
  from ensure_moves_bytes [of ?kf 2] obtain r kf' where e: "kcndb_file_ensure ?kf 2 = Some (r, kf')"
    "r = Inr () \<longrightarrow> 2 \<le> length (kb_data (kf_kb kf'))" "fd_calm (kf_fd ?kf) \<longrightarrow> r = Inr ()"
    by (auto simp: fd_avail_def)
  then show ?thesis by (auto simp: fd_calm_def)
qed

text \<open>
  Writing the buffer to the file always returns, and no byte is lost or written twice: what is
  written at the file offset is the first part of the data, and on failure the rest of it is
  still in the buffer.
\<close>

lemma write_keeps_rest:
  assumes "kb_wf (kf_kb kf)"
  shows "\<exists>r kf' n. kcndb_file_write kf = Some (r, kf') \<and> kb_wf (kf_kb kf') \<and>
    fd_data (kf_fd kf') = file_write (fd_off (kf_fd kf)) (take n (kb_data (kf_kb kf))) (fd_data (kf_fd kf)) \<and>
    kb_data (kf_kb kf') = drop n (kb_data (kf_kb kf)) \<and>
    fd_off (kf_fd kf') = fd_off (kf_fd kf) + n \<and> n \<le> length (kb_data (kf_kb kf)) \<and>
    (r = Inr () \<longrightarrow> n = length (kb_data (kf_kb kf))) \<and> (fd_calm (kf_fd kf) \<longrightarrow> r = Inr ())"
proof -
  obtain fd sz kb where kf: "kf = \<lparr>kf_fd = fd, kf_size = sz, kf_kb = kb\<rparr>" by (cases kf)
  with assms obtain pre h t post where kb: "kb = zbuf pre h t post" by (auto elim: kb_wf_zbufE)
  from write_ok [of fd sz pre h t post] obtain r fd' n pre' h' t' post' where w:
    "kcndb_file_write kf = Some (r, \<lparr>kf_fd = fd', kf_size = sz, kf_kb = zbuf pre' h' t' post'\<rparr>)"
    "n \<le> length h + length t" "fd_data fd' = file_write (fd_off fd) (take n (h @ t)) (fd_data fd)"
    "fd_off fd' = fd_off fd + n" "fd_calm fd \<longrightarrow> r = Inr ()"
    "if r = Inr () then n = length h + length t \<and> pre' = [] \<and> h' = [] \<and> t' = [] else h' @ t' = drop n (h @ t)"
    unfolding kf kb by blast
  from w(6) have "h' @ t' = drop n (h @ t)" "r = Inr () \<longrightarrow> n = length h + length t" by (auto split: if_splits)
  with w(1-5) show ?thesis
    by (intro exI [of _ r] exI [of _ "\<lparr>kf_fd = fd', kf_size = sz, kf_kb = zbuf pre' h' t' post'\<rparr>"] exI [of _ n])
      (simp add: kf kb)
qed

section \<open>Locators\<close>

lemma link_at_new: "2048 \<le> length L \<Longrightarrow> length loc \<le> 4075 \<Longrightarrow>
    link_at (loc_added L loc) (length L + 2 + length loc) = 0"
  using bucket_bound [of loc] by (simp add: link_at_def drop_loc_added node_bytes_def)

text \<open>
  C28. A locator that is not in the file and whose bucket is empty is appended, one that is in its
  chain is found; either way the index that is returned leads back to the locator.
\<close>

theorem loc_add_lookup:
  assumes "file_holds (kdt_loc kdt) L" "kdb_locsize kdb = length L" "2048 \<le> length L"
    "length L + 4085 < 2 ^ 63" "0 \<notin> set loc" "length loc \<le> 4075"
    "chain_hit L loc (link_at L (bucket loc)) idx \<and> 2048 \<le> unat idx \<and> L' = L \<or>
     link_at L (bucket loc) = 0 \<and> idx = of_nat (length L) \<and> L' = loc_added L loc"
  shows "\<exists>st st' rest. kcndb_db_loc_add loc (length loc) (kdb, kdt) = Some (Inr idx, st) \<and>
    file_holds (kdt_loc (snd st)) L' \<and> kdb_locsize (fst st) = length L' \<and>
    kcndb_db_loc_lookup idx st = Some (Inr (loc @ rest, length loc), st') \<and> file_holds (kdt_loc (snd st')) L'"
proof -
  from assms(4) have L: "length L < 2 ^ 63" by simp
  from assms(7) have e: "loc_effect L loc idx L'" by (simp add: loc_effect_def)
  from loc_add_effect [OF assms(1,3) L assms(5,6,2) e] obtain kl where
    a: "kcndb_db_loc_add loc (length loc) (kdb, kdt) =
      Some (Inr idx, (kdb\<lparr>kdb_locsize := length L'\<rparr>, kdt\<lparr>kdt_loc := kl\<rparr>))" "file_holds kl L'" by blast
  note v = loc_effect_valid [OF e assms(3) L assms(6)]
  from v(4) assms(4,6) have "length L' < 2 ^ 63" by linarith
  from loc_lookup_node [of "kdt\<lparr>kdt_loc := kl\<rparr>" L' idx loc "kdb\<lparr>kdb_locsize := length L'\<rparr>"] a(2) v(2) this
  obtain kf rest where "kcndb_db_loc_lookup idx (kdb\<lparr>kdb_locsize := length L'\<rparr>, kdt\<lparr>kdt_loc := kl\<rparr>) =
      Some (Inr (loc @ rest, length loc), (kdb\<lparr>kdb_locsize := length L'\<rparr>, kdt\<lparr>kdt_loc := kf\<rparr>))"
    "file_holds kf L'" by auto
  with a show ?thesis by fastforce
qed

theorem loc_add_lookup_witness:
  "\<exists>st st' rest. kcndb_db_loc_add [97, 98] 2 (opened_base [] empty_locs, opened_table [] empty_locs) =
      Some (Inr 2048, st) \<and> kcndb_db_loc_lookup 2048 st = Some (Inr ([97, 98] @ rest, 2), st')"
proof -
  let ?kdb = "opened_base [] empty_locs" and ?kdt = "opened_table [] empty_locs"
  from opened_empty have "file_holds (kdt_loc ?kdt) empty_locs" "kdb_locsize ?kdb = length empty_locs"
    by (simp_all add: add_ready_def table_ok_def)
  note l = loc_add_lookup [OF this _ _ _ _ effect_empty [of "[97, 98]", unfolded loc_effect_def]]
  have "length [97, 98 :: byte] = 2" by simp
  with l show ?thesis by (fastforce simp: empty_locs_def simp del: list.size)
qed

text \<open>
  C35. Adding a locator again finds it: when the bucket of a locator is empty, or its chain already holds the locator, the
  first addition links it and the second one returns the same index and leaves the file and its size as they are.  A locator
  whose bucket holds only others is not covered: it is never linked (C21).
\<close>

theorem loc_add_again:
  assumes "file_holds (kdt_loc kdt) L" "kdb_locsize kdb = length L" "2048 \<le> length L"
    "length L + 4085 < 2 ^ 63" "0 \<notin> set loc" "length loc \<le> 4075"
    "chain_hit L loc (link_at L (bucket loc)) idx \<and> 2048 \<le> unat idx \<and> L' = L \<or>
     link_at L (bucket loc) = 0 \<and> idx = of_nat (length L) \<and> L' = loc_added L loc"
  shows "\<exists>st st'. kcndb_db_loc_add loc (length loc) (kdb, kdt) = Some (Inr idx, st) \<and>
    kcndb_db_loc_add loc (length loc) st = Some (Inr idx, st') \<and> fst st' = fst st \<and>
    kdb_locsize (fst st) = length L' \<and> file_holds (kdt_loc (snd st)) L' \<and> file_holds (kdt_loc (snd st')) L'"
proof -
  from assms(4) have L: "length L < 2 ^ 63" by simp
  from assms(7) have e: "loc_effect L loc idx L'" by (simp add: loc_effect_def)
  from loc_add_effect [OF assms(1,3) L assms(5,6,2) e] obtain kl where
    a: "kcndb_db_loc_add loc (length loc) (kdb, kdt) =
      Some (Inr idx, (kdb\<lparr>kdb_locsize := length L'\<rparr>, kdt\<lparr>kdt_loc := kl\<rparr>))" "file_holds kl L'" by blast
  have hit: "chain_hit L' loc (link_at L' (bucket loc)) idx" using assms(7)
  proof (elim disjE conjE)
    assume n: "idx = of_nat (length L)" "L' = loc_added L loc"
    then have u: "unat idx = length L" using L by (simp add: unat_small64)
    with assms(3) have "idx \<noteq> 0" by auto
    with u show ?thesis
      using node_at_new [OF assms(3,6)] link_at_loc_added [OF assms(3), of loc] n by (simp add: hit_here)
  qed simp
  have l: "2048 \<le> length L'" "length L' < 2 ^ 63" using assms(3,4,6,7) by (auto simp: length_loc_added)
  from loc_add_hit [of "kdt\<lparr>kdt_loc := kl\<rparr>" L' loc idx "kdb\<lparr>kdb_locsize := length L'\<rparr>"] a(2) l assms(5) hit
  obtain kf where "kcndb_db_loc_add loc (length loc) (kdb\<lparr>kdb_locsize := length L'\<rparr>, kdt\<lparr>kdt_loc := kl\<rparr>) =
      Some (Inr idx, (kdb\<lparr>kdb_locsize := length L'\<rparr>, kdt\<lparr>kdt_loc := kf\<rparr>))" "file_holds kf L'" by auto
  with a show ?thesis by fastforce
qed

theorem loc_add_again_witness:
  "\<exists>st st'. kcndb_db_loc_add [97] 1 (opened_base [] empty_locs, opened_table [] empty_locs) = Some (Inr 2048, st) \<and>
    kcndb_db_loc_add [97] 1 st = Some (Inr 2048, st') \<and> fst st' = fst st"
proof -
  let ?kdb = "opened_base [] empty_locs" and ?kdt = "opened_table [] empty_locs"
  from opened_empty have "file_holds (kdt_loc ?kdt) empty_locs" "kdb_locsize ?kdb = length empty_locs"
    by (simp_all add: add_ready_def table_ok_def)
  note l = loc_add_again [OF this _ _ _ _ effect_empty [of "[97]", unfolded loc_effect_def]]
  have "length [97 :: byte] = 1" by simp
  with l show ?thesis by (fastforce simp: empty_locs_def simp del: list.size)
qed

lemma drop_file_write_inside:
  "m + length bs \<le> i \<Longrightarrow> i \<le> length X \<Longrightarrow> drop i (file_write m bs X) = drop i X"
  by (simp add: file_write_inside list_write_def)

text \<open>
  C21. A new locator whose bucket is not empty corrupts the locator file: its index is not stored
  in the link of the last locator of the chain, which still ends there, but at the offset
  \<open>2 + length loc'\<close> of the file, where \<open>loc'\<close> is that last locator.  For locators of up to 2038 bytes
  that is inside the hash table, in the entries of unrelated buckets.
\<close>

theorem loc_collision_corrupts:
  assumes "file_holds (kdt_loc kdt) L" "kdb_locsize kdb = length L" "2048 \<le> length L"
    "length L + 4085 < 2 ^ 63" "0 \<notin> set loc" "length loc \<le> 4075"
    and i: "link_at L (bucket loc) = i" "2048 \<le> unat i" "node_at L (unat i) loc'" "loc' \<noteq> loc"
      "link_at L (unat i + 2 + length loc') = 0" "length loc' \<le> 2038"
  defines "L' \<equiv> file_write (2 + length loc') (be64 (of_nat (length L))) (L @ node_bytes loc)"
  shows "\<exists>st. kcndb_db_loc_add loc (length loc) (kdb, kdt) = Some (Inr (of_nat (length L)), st) \<and>
    file_holds (kdt_loc (snd st)) L' \<and>
    link_at L' (2 + length loc') = of_nat (length L) \<and> 2 + length loc' + 8 \<le> 2048 \<and>
    node_at L' (unat i) loc' \<and> link_at L' (unat i + 2 + length loc') = 0"
proof -
  from i(2) have "i \<noteq> 0" by auto
  have "chain_miss L loc (2 + length loc') (link_at L (unat i + 2 + length loc')) (2 + length loc')"
    unfolding i(5) by (rule miss_end)
  from miss_next [OF \<open>i \<noteq> 0\<close> i(3,4) this] i(1)
  have miss: "chain_miss L loc (bucket loc) (link_at L (bucket loc)) (2 + length loc')" by simp
  from assms(4) have "length L < 2 ^ 63" by simp
  from loc_add_miss [OF assms(1,3) this assms(5,6,2) miss] obtain kf where
    a: "kcndb_db_loc_add loc (length loc) (kdb, kdt) = Some (Inr (of_nat (length L)),
      (kdb\<lparr>kdb_locsize := length L + (10 + length loc)\<rparr>, kdt\<lparr>kdt_loc := kf\<rparr>))" "file_holds kf L'"
    unfolding L'_def by blast
  from i(3) have n: "unat i + 2 + length loc' + 8 \<le> length L" by (simp add: node_at_def)
  have d: "drop j L' = drop j (L @ node_bytes loc)" if "2048 \<le> j" "j \<le> length L" for j
    using i(6) that by (simp add: L'_def drop_file_write_inside)
  have "length L' = length L + (10 + length loc)"
    using i(6) assms(3) by (simp add: L'_def length_file_write)
  with i(2,3) n have "node_at L' (unat i) loc'" by (simp add: node_at_def d)
  moreover from i(2,5) n have "link_at L' (unat i + 2 + length loc') = 0" by (simp add: link_at_def d)
  moreover have "link_at L' (2 + length loc') = of_nat (length L)"
    using i(6) assms(3) by (simp add: link_at_def L'_def file_write_inside list_write_def)
  moreover have "2 + length loc' + 8 \<le> 2048" using i(6) by simp
  ultimately show ?thesis using a
    by (intro exI [of _ "(kdb\<lparr>kdb_locsize := length L + (10 + length loc)\<rparr>, kdt\<lparr>kdt_loc := kf\<rparr>)"])
      (simp only: fst_conv snd_conv, simp)
qed

text \<open>The locators \<open>a\<close> and \<open>gk\<close> have the same hash.\<close>

lemma bucket_clash: "bucket [97] = 1456" "bucket [103, 107] = 1456"
  by (simp_all add: bucket_def kcn_str_hash_def Let_def)

theorem loc_collision_corrupts_witness:
  "\<exists>st L'. kcndb_db_loc_add [103, 107] 2 (opened_base [] (loc_added empty_locs [97]), opened_table [] (loc_added empty_locs [97])) =
      Some (Inr 2059, st) \<and> file_holds (kdt_loc (snd st)) L' \<and> link_at L' 3 = 2059 \<and> link_at L' 2051 = 0"
proof -
  let ?L = "loc_added empty_locs [97]"
  have E: "length empty_locs = 2048" by (simp add: empty_locs_def)
  then have len: "length ?L = 2059" by (simp add: length_loc_added)
  have o: "file_holds (kdt_loc (opened_table [] ?L)) ?L" "kdb_locsize (opened_base [] ?L) = length ?L"
    by (simp_all add: opened_table_def opened_file_def opened_base_def file_holds_def)
  have l: "link_at ?L (bucket [103, 107]) = 2048" using link_at_loc_added [of empty_locs "[97]"] E by (simp add: bucket_clash)
  have "node_at ?L (unat (2048 :: uint64)) [97]" using node_at_new [of empty_locs "[97]"] E by simp
  moreover have "link_at ?L (unat (2048 :: uint64) + 2 + length [97 :: byte]) = 0"
    using link_at_new [of empty_locs "[97]"] E by simp
  ultimately obtain st where "kcndb_db_loc_add [103, 107] (length [103, 107 :: byte]) (opened_base [] ?L, opened_table [] ?L) =
      Some (Inr (of_nat (length ?L)), st)"
    "file_holds (kdt_loc (snd st)) (file_write (2 + length [97 :: byte]) (be64 (of_nat (length ?L))) (?L @ node_bytes [103, 107]))"
    "link_at (file_write (2 + length [97 :: byte]) (be64 (of_nat (length ?L))) (?L @ node_bytes [103, 107])) (2 + length [97 :: byte]) = of_nat (length ?L)"
    "link_at (file_write (2 + length [97 :: byte]) (be64 (of_nat (length ?L))) (?L @ node_bytes [103, 107])) (unat (2048 :: uint64) + 2 + length [97 :: byte]) = 0"
    using loc_collision_corrupts [OF o _ _ _ _ l, where loc' = "[97]"] len by auto
  then show ?thesis
    by (intro exI [of _ st] exI [of _ "file_write (2 + length [97 :: byte]) (be64 (of_nat (length ?L))) (?L @ node_bytes [103, 107])"])
      (simp add: len flip: numeral_2_eq_2)
qed

section \<open>Adding records\<close>

text \<open>
  A sequence of additions to one table, and its effect on the contents of the two files: each
  record fits, its locator is known or falls into an empty bucket.
\<close>

fun record_adds ::
  "c_enum \<Rightarrow> kcndb_db_record list \<Rightarrow> kcndb_db_base list \<times> kcndb_db \<Rightarrow> (kcndb_db_base list \<times> kcndb_db) option" where
  "record_adds type [] s = Some s"
| "record_adds type (r # rs) s =
     (case kcndb_db_record_add type r s of
        Some (Inr _, s) \<Rightarrow> record_adds type rs s
      | _ \<Rightarrow> None)"

inductive add_run :: "byte list \<Rightarrow> byte list \<Rightarrow> kcndb_db_record list \<Rightarrow> byte list \<Rightarrow> byte list \<Rightarrow> bool" where
  run_Nil: "add_run D L [] D L"
| run_Cons: "record_fits D L r \<Longrightarrow> loc_effect L (kdr_loc r) idx L' \<Longrightarrow>
    add_run (D @ record_bytes (r\<lparr>kdr_locidx := idx\<rparr>)) L' rs D'' L'' \<Longrightarrow> add_run D L (r # rs) D'' L''"

lemma record_adds_run:
  assumes "add_run D L rs D' L'" "TYPE2INDEX type < length bases" "TYPE2INDEX type < length kd"
    "add_ready (bases ! TYPE2INDEX type) (kd ! TYPE2INDEX type) D L"
  shows "\<exists>kdb kdt. record_adds type rs (bases, kd) =
      Some (bases[TYPE2INDEX type := kdb], kd[TYPE2INDEX type := kdt]) \<and> add_ready kdb kdt D' L'"
  using assms
proof (induction arbitrary: bases kd rule: add_run.induct)
  case (run_Nil D L)
  then show ?case
    by (intro exI [of _ "bases ! TYPE2INDEX type"] exI [of _ "kd ! TYPE2INDEX type"]) simp
next
  case (run_Cons D L r idx L' rs D'' L'')
  let ?i = "TYPE2INDEX type"
  from add_ready_record_add [OF run_Cons.prems(1,2,3) run_Cons.hyps(1,2)] obtain kdb kdt where
    a: "kcndb_db_record_add type r (bases, kd) = Some (Inr (r\<lparr>kdr_locidx := idx\<rparr>), bases[?i := kdb], kd[?i := kdt])"
    "add_ready kdb kdt (D @ record_bytes (r\<lparr>kdr_locidx := idx\<rparr>)) L'" by blast
  from run_Cons.IH [of "bases[?i := kdb]" "kd[?i := kdt]"] run_Cons.prems(1,2) a(2) obtain kdb' kdt' where
    "record_adds type rs (bases[?i := kdb], kd[?i := kdt]) = Some (bases[?i := kdb'], kd[?i := kdt'])" "add_ready kdb' kdt' D'' L''" by auto
  with a(1) show ?case by (intro exI [of _ kdb'] exI [of _ kdt']) simp
qed

text \<open>What a table means: the measurements it holds, each with the bytes of its locator.\<close>

definition contents :: "byte list \<Rightarrow> byte list \<Rightarrow> (time_t \<times> uint64 \<times> byte list) list" where
  "contents D L = map (\<lambda>r. (kdr_time r, kdr_val r, loc_of L (unat (kdr_locidx r)))) (parse_records D)"

definition measurement :: "kcndb_db_record \<Rightarrow> time_t \<times> uint64 \<times> byte list" where
  "measurement r = (kdr_time r, kdr_val r, kdr_loc r)"

lemma contents_add:
  assumes "table_ok kdb kdt D L" "loc_effect L (kdr_loc r) idx L'" "length (kdr_loc r) \<le> 4075"
  shows "contents (D @ record_bytes (r\<lparr>kdr_locidx := idx\<rparr>)) L' = contents D L @ [measurement r]"
proof -
  note t = assms(1) [unfolded table_ok_def]
  from t have L: "2048 \<le> length L" "length L < 2 ^ 63" by blast+
  note v = loc_effect_valid [OF assms(2) L assms(3)]
  have old: "loc_of L' (unat (kdr_locidx q)) = loc_of L (unat (kdr_locidx q))" if "q \<in> set (parse_records D)" for q
  proof -
    from v(6) [of q] t that have "kdr_loc (with_loc L' q) = kdr_loc (with_loc L q)" by simp
    then show ?thesis by (simp add: with_loc_def)
  qed
  from t have "24 dvd length D" by blast
  with old node_at_loc_of [OF v(2)] show ?thesis
    by (simp add: contents_def measurement_def parse_records_append)
qed

lemma contents_run:
  assumes "add_run D L rs D' L'" "TYPE2INDEX type < length bases" "TYPE2INDEX type < length kd"
    "add_ready (bases ! TYPE2INDEX type) (kd ! TYPE2INDEX type) D L"
  shows "contents D' L' = contents D L @ map measurement rs"
  using assms
proof (induction arbitrary: bases kd rule: add_run.induct)
  case (run_Cons D L r idx L' rs D'' L'')
  let ?i = "TYPE2INDEX type"
  from add_ready_record_add [OF run_Cons.prems(1,2,3) run_Cons.hyps(1,2)] obtain kdb kdt where
    "add_ready kdb kdt (D @ record_bytes (r\<lparr>kdr_locidx := idx\<rparr>)) L'" by blast
  with run_Cons.IH [of "bases[?i := kdb]" "kd[?i := kdt]"] run_Cons.prems(1,2)
  have "contents D'' L'' = contents (D @ record_bytes (r\<lparr>kdr_locidx := idx\<rparr>)) L' @ map measurement rs" by simp
  with contents_add [of "bases ! ?i" "kd ! ?i" D L r idx L'] run_Cons.prems(3) run_Cons.hyps(1,2) show ?case
    by (simp add: add_ready_def record_fits_def)
qed simp

text \<open>
  C14. A sequence of additions to a table succeeds and appends exactly the added measurements, in
  their order, to those the table holds; the table then takes further records.
\<close>

theorem record_adds_append:
  assumes "add_run D L rs D' L'" "TYPE2INDEX type < length bases" "TYPE2INDEX type < length kd"
    "add_ready (bases ! TYPE2INDEX type) (kd ! TYPE2INDEX type) D L"
  shows "\<exists>kdb kdt. record_adds type rs (bases, kd) =
      Some (bases[TYPE2INDEX type := kdb], kd[TYPE2INDEX type := kdt]) \<and> add_ready kdb kdt D' L' \<and>
    contents D' L' = contents D L @ map measurement rs"
  using record_adds_run [OF assms] contents_run [OF assms] by blast

theorem record_adds_append_witness:
  "\<exists>kdb kdt D' L'. record_adds 1 [add_record 1000 \<lparr>kma_type = 1, kma_time = 1000, kma_val = 5, kma_loc = [97], kma_loclen = 1\<rparr>]
      ([opened_base [] empty_locs], [opened_table [] empty_locs]) = Some ([kdb], [kdt]) \<and>
    add_ready kdb kdt D' L' \<and> contents D' L' = [(1000, 5, [97])]"
proof -
  define r where "r = add_record 1000 \<lparr>kma_type = 1, kma_time = 1000, kma_val = 5, kma_loc = [97], kma_loclen = 1\<rparr>"
  have i: "TYPE2INDEX 1 = 0" by (simp add: TYPE2INDEX_def)
  have "record_fits [] empty_locs r"
    by (simp add: r_def record_fits_def add_record_def last_record_def kdr_uninit_def empty_locs_def)
  moreover have "loc_effect empty_locs (kdr_loc r) 2048 (loc_added empty_locs [97])"
    using effect_empty [of "[97]"] by (simp add: r_def add_record_def)
  ultimately have "add_run [] empty_locs [r] ([] @ record_bytes (r\<lparr>kdr_locidx := 2048\<rparr>)) (loc_added empty_locs [97])"
    by (rule run_Cons [OF _ _ run_Nil])
  from record_adds_append [OF this, of 1 "[opened_base [] empty_locs]" "[opened_table [] empty_locs]"] opened_empty i
  obtain kdb kdt where "record_adds 1 [r] ([opened_base [] empty_locs], [opened_table [] empty_locs]) = Some ([kdb], [kdt])"
    "add_ready kdb kdt ([] @ record_bytes (r\<lparr>kdr_locidx := 2048\<rparr>)) (loc_added empty_locs [97])"
    "contents ([] @ record_bytes (r\<lparr>kdr_locidx := 2048\<rparr>)) (loc_added empty_locs [97]) = contents [] empty_locs @ [measurement r]"
    by (auto simp del: record_adds.simps)
  moreover have "contents [] empty_locs @ [measurement r] = [(1000, 5, [97])]"
    by (simp add: contents_def parse_records.simps measurement_def r_def add_record_def)
  ultimately show ?thesis unfolding r_def by metis
qed

text \<open>
  C16. The measurements of a table stay in the order of their times, whatever record is added next:
  a record that is older than the last one is refused with \<open>ERANGE\<close> and changes no file.
\<close>

theorem record_add_keeps_order:
  fixes type :: c_enum
  defines "i \<equiv> TYPE2INDEX type"
  assumes "i < length bases" "i < length kd" "add_ready (bases ! i) (kd ! i) D L"
    and "kdr_loclen r = length (kdr_loc r)" "length (kdr_loc r) \<le> 4075" "0 \<notin> set (kdr_loc r)"
      "length D + 24 < 2 ^ 63" "length L + 4085 < 2 ^ 63" "loc_effect L (kdr_loc r) idx L0"
    and "sorted (map (\<lambda>(t, _). sint t) (contents D L))"
  shows "\<exists>res kdb kdt D' L'. kcndb_db_record_add type r (bases, kd) = Some (res, bases[i := kdb], kd[i := kdt]) \<and>
    table_ok kdb kdt D' L' \<and> sorted (map (\<lambda>(t, _). sint t) (contents D' L')) \<and>
    (if sint (kdr_time r) < sint (kdr_time (last_record D)) then res = Inl ERANGE \<and> D' = D \<and> L' = L
     else contents D' L' = contents D L @ [measurement r])"
proof (cases "sint (kdr_time r) < sint (kdr_time (last_record D))")
  case True
  from assms(4) obtain n where n: "kcn_buf_trailingspace (kf_kb (kdt_table (kd ! i))) = Some n" "24 \<le> n"
    by (force simp: add_ready_def)
  note ok = assms(4) [unfolded add_ready_def]
  from record_add_late [of type bases kd D L n r] assms(2,3) ok n True obtain kdt where
    "kcndb_db_record_add type r (bases, kd) = Some (Inl ERANGE, bases, kd[i := kdt])" "table_ok (bases ! i) kdt D L"
    unfolding i_def by auto
  with True assms(11) show ?thesis
    by (intro exI [of _ "Inl ERANGE"] exI [of _ "bases ! i"] exI [of _ kdt] exI [of _ D] exI [of _ L]) simp
next
  case False
  with assms(5-9) have fits: "record_fits D L r" by (simp add: record_fits_def)
  from add_ready_record_add [OF assms(2,3,4)[unfolded i_def] fits assms(10)] obtain kdb kdt where
    a: "kcndb_db_record_add type r (bases, kd) = Some (Inr (r\<lparr>kdr_locidx := idx\<rparr>), bases[i := kdb], kd[i := kdt])"
    "add_ready kdb kdt (D @ record_bytes (r\<lparr>kdr_locidx := idx\<rparr>)) L0" unfolding i_def by blast
  from assms(4) have t: "table_ok (bases ! i) (kd ! i) D L" by (simp add: add_ready_def)
  note c = contents_add [OF t assms(10,6)]
  have "sint t \<le> sint (kdr_time r)" if "(t, x) \<in> set (contents D L)" for t x
  proof -
    from that have ne: "parse_records D \<noteq> []" by (auto simp: contents_def)
    then have "D \<noteq> []" by (auto simp: parse_records.simps)
    with t have l: "last_record D = last (parse_records D)" by (simp add: table_ok_def last_record_parse)
    from ne have "contents D L \<noteq> []" by (simp add: contents_def)
    moreover from ne have "fst (last (contents D L)) = kdr_time (last (parse_records D))"
      by (simp add: contents_def last_map)
    ultimately show ?thesis
      using False assms(11) that l by (cases "contents D L" rule: rev_cases) (auto simp: sorted_append)
  qed
  with assms(11) have "sorted (map (\<lambda>(t, _). sint t) (contents D L @ [measurement r]))"
    by (auto simp: sorted_append measurement_def)
  with a c False show ?thesis
    by (intro exI [of _ "Inr (r\<lparr>kdr_locidx := idx\<rparr>)"] exI [of _ kdb] exI [of _ kdt]
        exI [of _ "D @ record_bytes (r\<lparr>kdr_locidx := idx\<rparr>)"] exI [of _ L0]) (simp add: add_ready_def)
qed

definition sample :: kcndb_db_record where
  "sample = \<lparr>kdr_time = 1000, kdr_val = 5, kdr_locidx = 0, kdr_loc = [97], kdr_loclen = 1\<rparr>"

lemma sample_simps [simp]: "kdr_time sample = 1000" "kdr_val sample = 5" "kdr_loc sample = [97]" "kdr_loclen sample = 1"
  by (simp_all add: sample_def)

text \<open>The database that holds the sample, as one table.\<close>

abbreviation sample_locs :: "byte list" where "sample_locs \<equiv> loc_added empty_locs [97]"
abbreviation sample_bases :: "kcndb_db_base list" where "sample_bases \<equiv> [opened_base (one_record sample) sample_locs]"
abbreviation sample_db :: kcndb_db where "sample_db \<equiv> [opened_table (one_record sample) sample_locs]"

lemma index_1: "TYPE2INDEX 1 = 0"
  by (simp add: TYPE2INDEX_def)

lemma sample_ready: "add_ready (sample_bases ! TYPE2INDEX 1) (sample_db ! TYPE2INDEX 1) (one_record sample) sample_locs"
  using opened_one [of sample] by (simp add: index_1)

lemma sample_last: "last_record (one_record sample) = kdr_uninit\<lparr>kdr_time := 1000, kdr_val := 5, kdr_locidx := 2048\<rparr>"
proof -
  have "one_record sample \<noteq> []" using length_one_record [of sample] by (metis list.size(3) zero_neq_numeral)
  with last_record_parse [of "one_record sample"] show ?thesis by (simp add: parse_one_record)
qed

lemma length_sample_locs: "length sample_locs = 2059"
  by (simp add: length_loc_added empty_locs_def)

text \<open>The sample's locator is found where it was put.\<close>

lemma sample_effect: "loc_effect sample_locs [97] 2048 sample_locs"
proof -
  have E: "2048 \<le> length empty_locs" "length empty_locs = 2048" by (simp_all add: empty_locs_def)
  then have "link_at sample_locs (bucket [97]) = 2048" "node_at sample_locs (unat (2048 :: uint64)) [97]"
    using link_at_loc_added [OF E(1), of "[97]"] node_at_new [OF E(1), of "[97]"] by simp_all
  then show ?thesis by (simp add: loc_effect_def hit_here)
qed

lemma sample_contents: "contents (one_record sample) sample_locs = [(1000, 5, [97])]"
proof -
  have E: "2048 \<le> length empty_locs" "length empty_locs = 2048" by (simp_all add: empty_locs_def)
  from node_at_new [OF E(1), of "[97]"] E(2) have "loc_of sample_locs 2048 = [97]" by (intro node_at_loc_of) simp
  then show ?thesis by (simp add: contents_def parse_one_record)
qed

theorem record_add_keeps_order_witness:
  "\<exists>res kdb kdt D' L'. kcndb_db_record_add 1 (sample\<lparr>kdr_time := 999\<rparr>) (sample_bases, sample_db) =
      Some (res, [kdb], [kdt]) \<and> res = Inl ERANGE \<and> table_ok kdb kdt D' L' \<and> D' = one_record sample"
proof -
  have "0 \<notin> set (kdr_loc (sample\<lparr>kdr_time := 999\<rparr>))" "loc_effect sample_locs (kdr_loc (sample\<lparr>kdr_time := 999\<rparr>)) 2048 sample_locs"
    using sample_effect by simp_all
  from record_add_keeps_order [OF _ _ sample_ready _ _ this(1) _ _ this(2)]
  show ?thesis by (auto simp: index_1 sample_contents length_sample_locs sample_last)
qed

text \<open>
  C22. The buffer of the record file is never reset before a record is added.  When an earlier search
  has left fewer than 48 bytes of it behind the last record it read, an addition of any new record
  reads the last record into these bytes and then fails the assertion that there is room for the
  new one: the daemon aborts.
\<close>

theorem record_add_buffer_fault:
  fixes type :: c_enum
  defines "i \<equiv> TYPE2INDEX type"
  assumes "i < length bases" "i < length kd" "table_ok (bases ! i) (kd ! i) D L" "D \<noteq> []"
    and "lock_free (kdb_lock (bases ! i))" "rw_readers (kdb_lock (bases ! i)) = 0"
    and "kb_data (kf_kb (kdt_table (kd ! i))) = []"
      "kcn_buf_trailingspace (kf_kb (kdt_table (kd ! i))) = Some n" "24 \<le> n" "n < 48"
    and "record_fits D L r" "loc_effect L (kdr_loc r) idx L'"
  shows "kcndb_db_record_add type r (bases, kd) = None"
  using record_add_fault [of type bases kd D L n r idx L'] assms by (auto simp: record_fits_def)

theorem record_add_buffer_fault_witness:
  "kcndb_db_record_add 1 sample (sample_bases,
     [(opened_table (one_record sample) sample_locs)\<lparr>kdt_table := (opened_file (one_record sample))
        \<lparr>kf_kb := zbuf (replicate 4056 0) [] [] (replicate 40 0)\<rparr>\<rparr>]) = None"
proof -
  let ?kdt = "(opened_table (one_record sample) sample_locs)\<lparr>kdt_table := (opened_file (one_record sample))
        \<lparr>kf_kb := zbuf (replicate 4056 0) [] [] (replicate 40 0)\<rparr>\<rparr>"
  have ok: "table_ok (sample_bases ! 0) ?kdt (one_record sample) sample_locs"
    "lock_free (kdb_lock (sample_bases ! 0))" "rw_readers (kdb_lock (sample_bases ! 0)) = 0"
    using sample_ready by (simp_all add: index_1 add_ready_def table_ok_def opened_table_def opened_file_def)
  have f: "record_fits (one_record sample) sample_locs sample"
    by (simp add: record_fits_def sample_last length_sample_locs)
  have "one_record sample \<noteq> []" using length_one_record [of sample] by (metis list.size(3) zero_neq_numeral)
  with record_add_buffer_fault [of 1 sample_bases "[?kdt]" "one_record sample" sample_locs 40 sample 2048 sample_locs] ok f sample_effect
  show ?thesis by (simp add: index_1 zbuf_simps)
qed

section \<open>Searching\<close>

text \<open>A callback that collects the records it is given, with the \<open>kdr_loclen\<close> bytes of their locators.\<close>

definition collect_cb :: "kcndb_db_record list search_cb" where
  "collect_cb kdr score acc = Some (Inr (), acc @ [kdr\<lparr>kdr_loc := take (kdr_loclen kdr) (kdr_loc kdr)\<rparr>])"

interpretation collect_sink: record_sink collect_cb "\<lambda>r acc. (Inr (), acc @ [r])" "\<lambda>_. True"
  by unfold_locales (simp_all add: collect_cb_def)

lemma deliver_collect: "deliver (\<lambda>r acc. (Inr (), acc @ [r])) rs acc = (Inr (), acc @ rs)"
  by (induction rs arbitrary: acc) simp_all

text \<open>
  C15. A search hands its callback the first \<open>maxn\<close> records of the table, in the order of the file, that
  lie in the time range and satisfy the comparison, each with its locator, and nothing else; it
  reports \<open>ESRCH\<close> when there is none.  The files and the invariant of the table are untouched.
\<close>

theorem search_selects:
  fixes ke :: kcn_eq
  defines "i \<equiv> TYPE2INDEX (ke_type ke)"
  assumes "i < length bases" "i < length kd" "table_ok (bases ! i) (kd ! i) D L"
    and "lock_free (kdb_lock (bases ! i))" "1 \<le> ke_op ke" "ke_op ke \<le> 5"
  shows "\<exists>bases' kdt. kcndb_db_search collect_cb ke maxn (bases, kd) [] =
      Some ((if selection ke maxn D = [] then Inl ESRCH else Inr (), map (with_loc L) (selection ke maxn D)),
        bases', kd[i := kdt]) \<and> table_ok (bases' ! i) kdt D L \<and>
    bases' = bases[i := (bases ! i)\<lparr>kdb_lock :=
      (if selection ke maxn D = [] then kdb_lock (bases ! i) else lock_reader (kdb_lock (bases ! i)))\<rparr>]"
proof -
  note a = assms(2-7) [unfolded i_def]
  from collect_sink.search_ok [OF a, where arg = "[]" and maxn = maxn] obtain kdt where
    "kcndb_db_search collect_cb ke maxn (bases, kd) [] = Some (
        if selection ke maxn D = [] then ((Inl ESRCH, map (with_loc L) (selection ke maxn D)), bases, kd[i := kdt])
        else ((Inr (), map (with_loc L) (selection ke maxn D)),
          bases[i := (bases ! i)\<lparr>kdb_lock := lock_reader (kdb_lock (bases ! i))\<rparr>], kd[i := kdt]))"
    "table_ok (bases ! i) kdt D L"
    unfolding i_def by (auto simp: deliver_collect)
  with assms(2) show ?thesis
    by (intro exI [of _ "bases[i := (bases ! i)\<lparr>kdb_lock :=
        (if selection ke maxn D = [] then kdb_lock (bases ! i) else lock_reader (kdb_lock (bases ! i)))\<rparr>]"]
        exI [of _ kdt]) auto
qed

abbreviation sample_eq :: kcn_eq where
  "sample_eq \<equiv> \<lparr>ke_type = 1, ke_op = KCN_EQ_OP_LE, ke_val = 7, ke_start = 500, ke_end = - 1\<rparr>"

lemma sample_selection: "selection sample_eq 10 (one_record sample) =
    [kdr_uninit\<lparr>kdr_time := 1000, kdr_val := 5, kdr_locidx := 2048\<rparr>]"
  by (simp add: selection_def parse_one_record matching_def op_holds_def)

theorem search_selects_witness:
  "\<exists>bases' kd'. kcndb_db_search collect_cb sample_eq 10 (sample_bases, sample_db) [] =
      Some ((Inr (), [sample\<lparr>kdr_locidx := 2048\<rparr>]), bases', kd')"
proof -
  have l: "loc_of sample_locs 2048 = [97]" using sample_contents by (simp add: contents_def parse_one_record)
  have s: "map (with_loc sample_locs) (selection sample_eq 10 (one_record sample)) = [sample\<lparr>kdr_locidx := 2048\<rparr>]"
    unfolding sample_selection using l by (simp add: with_loc_def kdr_uninit_def sample_def)
  from sample_ready have "table_ok (sample_bases ! TYPE2INDEX (ke_type sample_eq)) (sample_db ! TYPE2INDEX (ke_type sample_eq))
      (one_record sample) sample_locs" "lock_free (kdb_lock (sample_bases ! TYPE2INDEX (ke_type sample_eq)))"
    by (simp_all add: add_ready_def)
  from search_selects [OF _ _ this, of 10, unfolded s] show ?thesis
    by (auto simp: index_1 sample_selection word_le_nat_alt)
qed

text \<open>
  C20. A search that finds something returns with the read lock of its table still held.  From then
  on every addition to the table, by any handle, waits for the lock and never returns.
\<close>

theorem search_blocks_add:
  fixes ke :: kcn_eq
  defines "i \<equiv> TYPE2INDEX (ke_type ke)"
  assumes "i < length bases" "i < length kd" "table_ok (bases ! i) (kd ! i) D L"
    and "lock_free (kdb_lock (bases ! i))" "1 \<le> ke_op ke" "ke_op ke \<le> 5" "selection ke maxn D \<noteq> []"
  shows "\<exists>found bases' kd'. kcndb_db_search collect_cb ke maxn (bases, kd) [] = Some ((Inr (), found), bases', kd') \<and>
    (\<forall>r kd2. kcndb_db_record_add (ke_type ke) r (bases', kd2) = None)"
proof -
  let ?bases = "bases[i := (bases ! i)\<lparr>kdb_lock := lock_reader (kdb_lock (bases ! i))\<rparr>]"
  note a = assms(2-7) [unfolded i_def]
  from collect_sink.search_ok [OF a, where arg = "[]" and maxn = maxn] assms(8) obtain kdt where
    "kcndb_db_search collect_cb ke maxn (bases, kd) [] =
      Some ((Inr (), map (with_loc L) (selection ke maxn D)), ?bases, kd[i := kdt])"
    unfolding i_def by (auto simp: deliver_collect)
  moreover have "kcndb_db_record_add (ke_type ke) r (?bases, kd2) = None" for r kd2
    using assms(2,5) by (intro record_add_blocked) (simp_all add: i_def lock_reader_def lock_free_def)
  ultimately show ?thesis by blast
qed

theorem search_blocks_add_witness:
  "\<exists>found bases' kd'. kcndb_db_search collect_cb sample_eq 10 (sample_bases, sample_db) [] =
      Some ((Inr (), found), bases', kd') \<and> kcndb_db_record_add 1 sample (bases', kd') = None"
proof -
  from sample_ready have "table_ok (sample_bases ! TYPE2INDEX (ke_type sample_eq)) (sample_db ! TYPE2INDEX (ke_type sample_eq))
      (one_record sample) sample_locs" "lock_free (kdb_lock (sample_bases ! TYPE2INDEX (ke_type sample_eq)))"
    by (simp_all add: add_ready_def)
  from search_blocks_add [OF _ _ this, of 10] show ?thesis
    by (force simp: index_1 sample_selection word_le_nat_alt)
qed

lemma type_index_range: "TYPE2INDEX type < 7 \<longleftrightarrow> 1 \<le> type \<and> type \<le> 7"
proof (cases "type = 0")
  case False
  then have "TYPE2INDEX type = unat type - 1" by (simp add: TYPE2INDEX_def unat_minus_one)
  moreover from False have "0 < unat type" by (simp add: unat_gt_0)
  ultimately show ?thesis by (auto simp: word_le_nat_alt)
qed (simp add: TYPE2INDEX_def unsigned_minus_1_eq_mask mask_eq_exp_minus_1)

text \<open>
  The type of a condition and of a record is used as an index without a check: any value that is
  not one of the seven measurement types, as a peer can send it, reads outside the array of tables.
\<close>

lemma type_out_of_range_faults:
  assumes "length bases = 7" "length kd = 7" "\<not> (1 \<le> ke_type ke \<and> ke_type ke \<le> 7)"
  shows "kcndb_db_search cb ke maxn (bases, kd) arg = None \<and>
    kcndb_db_record_add (ke_type ke) r (bases, kd) = None"
proof -
  from assms(3) have "7 \<le> TYPE2INDEX (ke_type ke)" by (simp add: type_index_range [symmetric])
  with assms(1,2) show ?thesis
    by (simp add: kcndb_db_search_def kcndb_db_record_add_def with_table_def Let_def)
qed

lemma search_loop_bad_op:
  assumes "reading (kdt_table kdt) D R" "n < maxn" "ke_op ke \<notin> {1, 2, 3, 4, 5}"
    "\<exists>r \<in> set (parse_records R). kcn_eq_time_match (kdr_time r) ke"
  shows "kcndb_db_search_loop cb ke maxn n (kdb, kdt) arg = None"
  using assms(1,4)
proof (induction R arbitrary: kdt rule: parse_records.induct)
  case (1 R)
  then have len: "\<not> length R < 24" by (auto simp: parse_records.simps)
  with record_read_ok [OF 1(2), of kdr_uninit kdb] obtain kf where
    r: "kcndb_db_record_read kdr_uninit (kdb, kdt) = Some (Inr (record_of kdr_uninit R), (kdb, kdt\<lparr>kdt_table := kf\<rparr>))"
    "reading kf D (drop 24 R)" by auto
  show ?case
  proof (cases "kcn_eq_time_match (kdr_time (record_of kdr_uninit R)) ke")
    case True
    with r assms(2) op_match_invalid [OF assms(3)] show ?thesis by (subst kcndb_db_search_loop.simps) simp
  next
    case False
    with 1(3) len have "\<exists>r \<in> set (parse_records (drop 24 R)). kcn_eq_time_match (kdr_time r) ke"
      by (subst (asm) parse_records.simps) auto
    with 1(1) [OF len, of "kdt\<lparr>kdt_table := kf\<rparr>"] r False assms(2) show ?thesis
      by (subst kcndb_db_search_loop.simps) simp
  qed
qed

text \<open>
  The comparison operator is not checked either: a search with an operator that is not one of
  the five fails an assertion at the first record in its time range.
\<close>

lemma operator_out_of_range_faults:
  fixes ke :: kcn_eq
  defines "i \<equiv> TYPE2INDEX (ke_type ke)"
  assumes "i < length bases" "i < length kd" "table_ok (bases ! i) (kd ! i) D L"
    and "lock_free (kdb_lock (bases ! i))" "ke_op ke \<notin> {1, 2, 3, 4, 5}" "0 < maxn"
    and "\<exists>(t, _) \<in> set (contents D L). kcn_eq_time_match t ke"
  shows "kcndb_db_search cb ke maxn (bases, kd) arg = None"
proof -
  let ?kdb = "bases ! i" and ?kdt = "kd ! i"
  let ?kdb' = "?kdb\<lparr>kdb_lock := lock_reader (kdb_lock ?kdb)\<rparr>"
  from assms(4) have "file_calm (kdt_table ?kdt) D" by (simp add: table_ok_def)
  then obtain fd sz pre h tr post where kf:
    "kdt_table ?kdt = \<lparr>kf_fd = fd, kf_size = sz, kf_kb = zbuf pre h tr post\<rparr>"
    "length pre + length h + length tr + length post = 4096" "fd_calm fd" "fd_data fd = D"
    by (rule file_calmE)
  let ?kf = "\<lparr>kf_fd = fd\<lparr>fd_off := 0\<rparr>, kf_size = sz, kf_kb = zbuf [] [] [] (pre @ h @ tr @ post)\<rparr>"
  have rd: "reading (kdt_table (?kdt\<lparr>kdt_table := ?kf\<rparr>)) D D" using kf by (simp add: fd_avail_def)
  from assms(8) have "\<exists>r \<in> set (parse_records D). kcn_eq_time_match (kdr_time r) ke" by (auto simp: contents_def)
  note lp = search_loop_bad_op [OF rd assms(7,6) this, of cb ?kdb' arg]
  have "kcndb_db_rdlock (?kdb, ?kdt) = Some (Inr (), (?kdb', ?kdt))"
    using assms(5) by (simp add: kcndb_db_rdlock_def pthread_rwlock_rdlock_def lock_free_def lock_reader_def)
  moreover have "kcndb_db_search_locked cb ke maxn (?kdb', ?kdt) arg = None"
    using lp by (simp add: kcndb_db_search_locked_def kf zbuf_simps)
  ultimately show ?thesis by (simp add: kcndb_db_search_def with_table_def Let_def i_def)
qed

section \<open>Opening\<close>

text \<open>
  Opening the database in an empty directory gives each of the seven types a table without
  records and a locator file of 256 empty buckets, whose shared sizes are right and which takes
  records.
\<close>

lemma db_new_in_empty_directory:
  assumes "empty_dir env"
  shows "\<exists>kd bases. kcndb_db_new env path kcndb_db_base = Some (Inr kd, bases) \<and> length kd = 7 \<and> length bases = 7 \<and>
    (\<forall>type. 1 \<le> type \<and> type \<le> 7 \<longrightarrow>
       add_ready (bases ! TYPE2INDEX type) (kd ! TYPE2INDEX type) [] (replicate 2048 0))"
proof -
  have ix: "TYPE2INDEX type < 7" if "1 \<le> type \<and> type \<le> 7" for type
    using that by (simp add: type_index_range)
  from db_new_empty [OF assms, of path] obtain kd bases where
    n: "kcndb_db_new env path kcndb_db_base = Some (Inr kd, bases)" "length kd = 7" "length bases = 7"
    "\<forall>i < 7. fresh_table (bases ! i) (kd ! i)" by blast
  have "add_ready (bases ! TYPE2INDEX type) (kd ! TYPE2INDEX type) [] (replicate 2048 0)"
    if "1 \<le> type \<and> type \<le> 7" for type
    using n(4) ix [OF that] by (auto simp: fresh_table_def add_ready_def)
  with n show ?thesis by blast
qed

text \<open>
  A table that is opened on files an earlier run has left holds the measurements of these files:
  the sizes are taken from them, and nothing in them is changed.
\<close>

lemma table_reopen:
  assumes "env_new env" "alloc_total (env_malloc env)"
    and "kcn_eq_type_ntoa type = Inr name" "TYPE2INDEX type < length bases" "new_table (bases ! TYPE2INDEX type)"
    and "env_open env (snprintf_path (path @ ''/'' @ name @ ''-loc'')) = Inr \<lparr>fd_data = L, fd_off = 0, fd_sys = []\<rparr>"
      "env_open env (snprintf_path (path @ ''/'' @ name)) = Inr \<lparr>fd_data = D, fd_off = 0, fd_sys = []\<rparr>"
    and "2048 \<le> length L" "length L < 2 ^ 63" "24 dvd length D" "length D < 2 ^ 63"
      "\<forall>r \<in> set (parse_records D). record_valid L r"
  shows "\<exists>kdb kdt. kcndb_db_table_open env path type bases = Some (Inr kdt, bases[TYPE2INDEX type := kdb]) \<and>
    add_ready kdb kdt D L"
proof -
  from assms(8) have "L \<noteq> []" by auto
  with table_open_ok [OF assms(1-4,6,7)] assms show ?thesis
    by (fastforce simp: new_table_def add_ready_def)
qed

end
