(* ===== verification/Kcndb_Threads.thy ===== *)
theory Kcndb_Threads
  imports Kcndb_Db_Spec
begin

text \<open>
  The threads of the daemon share the tables: every thread has its own handle \<open>struct kcndb_db\<close>, with
  descriptors and buffers of its own, but the files behind the descriptors and the static array of
  sizes and locks are the same for all.  Here any number of handles work on the same files.

  An addition holds the write lock and a search the read lock from its beginning to its end, so an
  operation is one step; operations of different threads follow each other in any order.
\<close>

section \<open>Handles on the same files\<close>

type_synonym measurement = "time_t \<times> uint64 \<times> byte list"
type_synonym table_files = "byte list \<times> byte list"

definition attach_table :: "table_files \<Rightarrow> kcndb_db_table \<Rightarrow> kcndb_db_table" where
  "attach_table f kdt = kdt
     \<lparr>kdt_table := (kdt_table kdt)\<lparr>kf_fd := (kf_fd (kdt_table kdt))\<lparr>fd_data := fst f\<rparr>\<rparr>,
      kdt_loc := (kdt_loc kdt)\<lparr>kf_fd := (kf_fd (kdt_loc kdt))\<lparr>fd_data := snd f\<rparr>\<rparr>\<rparr>"

definition files_of :: "kcndb_db_table \<Rightarrow> table_files" where
  "files_of kdt = (fd_data (kf_fd (kdt_table kdt)), fd_data (kf_fd (kdt_loc kdt)))"

record shared_db =
  sd_bases :: "kcndb_db_base list"
  sd_files :: "table_files list"
  sd_handles :: "kcndb_db list"

text \<open>The thread \<open>j\<close> does an operation of \<^verbatim>\<open>kcndb_db.c\<close> with its handle.\<close>

definition thread_op ::
  "nat \<Rightarrow> (kcndb_db_base list \<times> kcndb_db \<Rightarrow> ('r \<times> kcndb_db_base list \<times> kcndb_db) option) \<Rightarrow>
   shared_db \<Rightarrow> ('r \<times> shared_db) option" where
  "thread_op j f sd = do {
     c_assert (j < length (sd_handles sd));
     (r, bases, kd) \<leftarrow> f (sd_bases sd, map2 attach_table (sd_files sd) (sd_handles sd ! j));
     Some (r, \<lparr>sd_bases = bases, sd_files = map files_of kd, sd_handles = (sd_handles sd)[j := kd]\<rparr>)
   }"

datatype db_op = Op_add c_enum kcndb_db_record | Op_search kcn_eq nat

text \<open>The reply of an operation: an error, or the measurements it delivers (none for an addition).\<close>

definition do_op :: "nat \<Rightarrow> db_op \<Rightarrow> shared_db \<Rightarrow> (measurement list result \<times> shared_db) option" where
  "do_op j op =
     (case op of
        Op_add type r \<Rightarrow> thread_op j (\<lambda>s. do {
          (res, s) \<leftarrow> kcndb_db_record_add type r s;
          Some (map_sum id (\<lambda>_. []) res, s)
        })
      | Op_search ke n \<Rightarrow> thread_op j (\<lambda>s. do {
          ((res, found), s) \<leftarrow> kcndb_db_search collect_cb ke n s [];
          Some (map_sum id (\<lambda>_. map measurement found) res, s)
        }))"

section \<open>The specification\<close>

text \<open>What the tables are to their users: a list of measurements per type.\<close>

definition meas_matching :: "kcn_eq \<Rightarrow> measurement \<Rightarrow> bool" where
  "meas_matching ke m =
     (case m of (t, v, loc) \<Rightarrow>
        sint (ke_start ke) \<le> sint t \<and> (ke_end ke = KCN_TIME_NOW \<or> sint t \<le> sint (ke_end ke)) \<and>
        op_holds (ke_op ke) v (ke_val ke))"

fun op_index :: "db_op \<Rightarrow> nat" where
  "op_index (Op_add type r) = TYPE2INDEX type"
| "op_index (Op_search ke n) = TYPE2INDEX (ke_type ke)"

fun spec_reply :: "measurement list list \<Rightarrow> db_op \<Rightarrow> measurement list result" where
  "spec_reply C (Op_add type r) = Inr []"
| "spec_reply C (Op_search ke n) =
     (let ms = take n (filter (meas_matching ke) (C ! TYPE2INDEX (ke_type ke))) in
      if ms = [] then Inl ESRCH else Inr ms)"

fun spec_next :: "measurement list list \<Rightarrow> db_op \<Rightarrow> measurement list list" where
  "spec_next C (Op_add type r) = C[TYPE2INDEX type := C ! TYPE2INDEX type @ [measurement r]]"
| "spec_next C (Op_search ke n) = C"

fun spec_replies :: "measurement list list \<Rightarrow> db_op list \<Rightarrow> measurement list result list" where
  "spec_replies C [] = []"
| "spec_replies C (op # ops) = spec_reply C op # spec_replies (spec_next C op) ops"

lemma meas_matching_record: "meas_matching ke (kdr_time r, kdr_val r, loc) = matching ke r"
  by (simp add: meas_matching_def matching_def)

lemma selection_contents:
  "map measurement (map (with_loc L) (selection ke n D)) = take n (filter (meas_matching ke) (contents D L))"
  by (simp add: selection_def contents_def measurement_def with_loc_def take_map [symmetric] filter_map comp_def
      meas_matching_record)

lemma length_spec_next [simp]: "length (spec_next C op) = length C"
  by (cases op) simp_all

section \<open>The invariant\<close>

text \<open>
  \<open>C\<close> are the measurements per type, \<open>W\<close> the pairs of a thread and a type for which the thread's
  buffer has room for an addition: those where the thread has not searched.
\<close>

definition writer_ready :: "kcndb_db_table \<Rightarrow> bool" where
  "writer_ready kdt \<longleftrightarrow> kb_data (kf_kb (kdt_table kdt)) = [] \<and>
     (\<exists>n \<ge> 48. kcn_buf_trailingspace (kf_kb (kdt_table kdt)) = Some n)"

definition table_shared :: "nat set \<Rightarrow> kcndb_db_base \<Rightarrow> table_files \<Rightarrow> kcndb_db_table list \<Rightarrow> bool" where
  "table_shared W kdb f kdts \<longleftrightarrow> lock_free (kdb_lock kdb) \<and>
     (\<forall>j < length kdts. table_ok kdb (attach_table f (kdts ! j)) (fst f) (snd f) \<and> (j \<in> W \<longrightarrow> writer_ready (kdts ! j)))"

definition shared_ok :: "(nat \<times> nat) set \<Rightarrow> measurement list list \<Rightarrow> shared_db \<Rightarrow> bool" where
  "shared_ok W C sd \<longleftrightarrow>
     length (sd_bases sd) = length C \<and> length (sd_files sd) = length C \<and>
     (\<forall>kd \<in> set (sd_handles sd). length kd = length C) \<and>
     (\<forall>i < length C. C ! i = contents (fst (sd_files sd ! i)) (snd (sd_files sd ! i)) \<and>
        table_shared {j. (j, i) \<in> W} (sd_bases sd ! i) (sd_files sd ! i) (map (\<lambda>kd. kd ! i) (sd_handles sd)))"

lemma attach_simps [simp]:
  "kf_kb (kdt_table (attach_table f kdt)) = kf_kb (kdt_table kdt)"
  "writer_ready (attach_table f kdt) = writer_ready kdt"
  "attach_table f (attach_table g kdt) = attach_table f kdt"
  "files_of (attach_table f kdt) = f"
  by (simp_all add: attach_table_def writer_ready_def files_of_def)

lemma attach_own: "table_ok kdb kdt D L \<Longrightarrow> attach_table (D, L) kdt = kdt \<and> files_of kdt = (D, L)"
  by (simp add: table_ok_def file_calm_def file_holds_def attach_table_def files_of_def)

text \<open>A handle that fits some contents fits any contents a handle of another thread fits.\<close>

lemma table_ok_attach:
  assumes "table_ok kdb kdt D L" "table_ok kdb' kdt' D' L'"
  shows "table_ok kdb' (attach_table (D', L') kdt) D' L'"
  using assms
  by (auto simp: table_ok_def file_calm_def file_holds_def attach_table_def fd_calm_def fd_complete_def)

lemma map2_attach_nth: "length fs = length kd \<Longrightarrow> i < length kd \<Longrightarrow> map2 attach_table fs kd ! i = attach_table (fs ! i) (kd ! i)"
  by simp

text \<open>One table after an operation of the thread \<open>j\<close>.\<close>

lemma table_shared_update:
  assumes "table_shared W kdb f kdts" "j < length kdts" "table_ok kdb' kdt D L" "lock_free (kdb_lock kdb')"
    "W' \<subseteq> W" "j \<in> W' \<Longrightarrow> writer_ready kdt"
  shows "table_shared W' kdb' (D, L) (kdts[j := kdt])"
  unfolding table_shared_def
proof (intro conjI allI impI)
  fix k assume k: "k < length (kdts[j := kdt])"
  from assms(1) k have t: "table_ok kdb (attach_table f (kdts ! k)) (fst f) (snd f)" "k \<in> W \<longrightarrow> writer_ready (kdts ! k)"
    by (simp_all add: table_shared_def)
  show "table_ok kdb' (attach_table (D, L) (kdts[j := kdt] ! k)) (fst (D, L)) (snd (D, L))"
    using table_ok_attach [OF t(1) assms(3)] assms(3) attach_own [OF assms(3)] assms(2) by (cases "k = j") simp_all
  assume "k \<in> W'"
  then show "writer_ready (kdts[j := kdt] ! k)" using t(2) assms(2,5,6) by (cases "k = j") auto
qed (rule assms(4))

text \<open>The state after an operation on the table \<open>i\<close>.\<close>

lemma shared_ok_update:
  assumes ok: "shared_ok W C sd" and j: "j < length (sd_handles sd)" and i: "i < length C"
    and t: "table_ok kdb' kdt D L" "lock_free (kdb_lock kdb')" "W' \<subseteq> W" "(j, i) \<in> W' \<Longrightarrow> writer_ready kdt"
    and c: "m = contents D L"
  shows "shared_ok W' (C[i := m]) \<lparr>sd_bases = (sd_bases sd)[i := kdb'],
      sd_files = map files_of ((map2 attach_table (sd_files sd) (sd_handles sd ! j))[i := kdt]),
      sd_handles = (sd_handles sd)[j := (map2 attach_table (sd_files sd) (sd_handles sd ! j))[i := kdt]]\<rparr>"
proof -
  let ?kd = "map2 attach_table (sd_files sd) (sd_handles sd ! j)"
  have len: "length (sd_bases sd) = length C" "length (sd_files sd) = length C" "\<forall>kd \<in> set (sd_handles sd). length kd = length C"
    using ok by (simp_all add: shared_ok_def)
  have lj: "length (sd_handles sd ! j) = length C" using len(3) j by simp
  have fs: "map files_of (?kd[i := kdt]) = (sd_files sd)[i := (D, L)]"
    by (rule nth_equalityI) (use len lj i attach_own [OF t(1)] in \<open>auto simp: nth_list_update\<close>)
  have tab: "C[i := m] ! k = contents (fst ((sd_files sd)[i := (D, L)] ! k)) (snd ((sd_files sd)[i := (D, L)] ! k)) \<and>
      table_shared {j. (j, k) \<in> W'} ((sd_bases sd)[i := kdb'] ! k) ((sd_files sd)[i := (D, L)] ! k)
        (map (\<lambda>kd. kd ! k) ((sd_handles sd)[j := ?kd[i := kdt]]))" if k: "k < length C" for k
  proof -
    from ok k have o: "C ! k = contents (fst (sd_files sd ! k)) (snd (sd_files sd ! k))"
      "table_shared {j. (j, k) \<in> W} (sd_bases sd ! k) (sd_files sd ! k) (map (\<lambda>kd. kd ! k) (sd_handles sd))"
      by (simp_all add: shared_ok_def)
    have m: "map (\<lambda>kd. kd ! k) ((sd_handles sd)[j := ?kd[i := kdt]]) =
        (map (\<lambda>kd. kd ! k) (sd_handles sd))[j := if k = i then kdt else attach_table (sd_files sd ! k) (sd_handles sd ! j ! k)]"
      using len lj i k by (simp add: map_update)
    have jl: "j < length (map (\<lambda>kd. kd ! k) (sd_handles sd))" using j by simp
    show ?thesis
    proof (cases "k = i")
      case True
      have "table_shared {j. (j, k) \<in> W'} kdb' (D, L) ((map (\<lambda>kd. kd ! k) (sd_handles sd))[j := kdt])"
        by (rule table_shared_update [OF o(2) jl t(1,2)]) (use t(3,4) True in auto)
      then show ?thesis unfolding m using True c len i by simp
    next
      case False
      let ?t = "attach_table (sd_files sd ! k) (sd_handles sd ! j ! k)"
      from o(2) j have tk: "table_ok (sd_bases sd ! k) ?t (fst (sd_files sd ! k)) (snd (sd_files sd ! k))"
        "lock_free (kdb_lock (sd_bases sd ! k))" "(j, k) \<in> W \<longrightarrow> writer_ready (sd_handles sd ! j ! k)"
        by (simp_all add: table_shared_def)
      have "table_shared {j. (j, k) \<in> W'} (sd_bases sd ! k) (fst (sd_files sd ! k), snd (sd_files sd ! k))
          ((map (\<lambda>kd. kd ! k) (sd_handles sd))[j := ?t])"
        by (rule table_shared_update [OF o(2) jl tk(1,2)]) (use t(3) tk(3) in auto)
      then show ?thesis unfolding m using False o(1) by simp
    qed
  qed
  have "\<forall>kd \<in> set ((sd_handles sd)[j := ?kd[i := kdt]]). length kd = length C"
    using len lj by (auto dest!: subsetD [OF set_update_subset_insert])
  then show ?thesis unfolding shared_ok_def fs using len tab by simp
qed

section \<open>Operations\<close>

text \<open>
  The operations a thread may do: an addition of a record that the table takes, when the thread's buffer
  has room for it, and a search with a valid operator, for one of the types there are.
\<close>

fun op_allowed :: "(nat \<times> nat) set \<Rightarrow> shared_db \<Rightarrow> nat \<Rightarrow> db_op \<Rightarrow> bool" where
  "op_allowed W sd j (Op_add type r) \<longleftrightarrow>
     TYPE2INDEX type < length (sd_bases sd) \<and> (j, TYPE2INDEX type) \<in> W \<and>
     record_fits (fst (sd_files sd ! TYPE2INDEX type)) (snd (sd_files sd ! TYPE2INDEX type)) r \<and>
     (\<exists>idx L'. loc_effect (snd (sd_files sd ! TYPE2INDEX type)) (kdr_loc r) idx L')"
| "op_allowed W sd j (Op_search ke n) \<longleftrightarrow>
     TYPE2INDEX (ke_type ke) < length (sd_bases sd) \<and> 1 \<le> ke_op ke \<and> ke_op ke \<le> 5"

fun still_writers :: "(nat \<times> nat) set \<Rightarrow> nat \<Rightarrow> db_op \<Rightarrow> (nat \<times> nat) set" where
  "still_writers W j (Op_add type r) = W"
| "still_writers W j (Op_search ke n) = W - {(j, TYPE2INDEX (ke_type ke))}"

fun op_blocked :: "shared_db \<Rightarrow> db_op \<Rightarrow> bool" where
  "op_blocked sd (Op_add type r) \<longleftrightarrow> 0 < rw_readers (kdb_lock (sd_bases sd ! TYPE2INDEX type))"
| "op_blocked sd (Op_search ke n) \<longleftrightarrow> False"

lemma shared_okD:
  assumes "shared_ok W C sd" "i < length C" "j < length (sd_handles sd)"
  shows "length (sd_bases sd) = length C" "length (sd_files sd) = length C" "length (sd_handles sd ! j) = length C"
    "table_ok (sd_bases sd ! i) (attach_table (sd_files sd ! i) (sd_handles sd ! j ! i)) (fst (sd_files sd ! i)) (snd (sd_files sd ! i))"
    "lock_free (kdb_lock (sd_bases sd ! i))" "(j, i) \<in> W \<longrightarrow> writer_ready (sd_handles sd ! j ! i)"
    "C ! i = contents (fst (sd_files sd ! i)) (snd (sd_files sd ! i))"
  using assms by (simp_all add: shared_ok_def table_shared_def)

lemma do_add:
  assumes ok: "shared_ok W C sd" and j: "j < length (sd_handles sd)" and a: "op_allowed W sd j (Op_add type r)"
    and b: "rw_readers (kdb_lock (sd_bases sd ! TYPE2INDEX type)) = 0"
  shows "\<exists>sd'. do_op j (Op_add type r) sd = Some (Inr [], sd') \<and> length (sd_handles sd') = length (sd_handles sd) \<and>
    shared_ok W (C[TYPE2INDEX type := C ! TYPE2INDEX type @ [measurement r]]) sd'"
proof -
  let ?i = "TYPE2INDEX type" and ?kd = "map2 attach_table (sd_files sd) (sd_handles sd ! j)"
  obtain D L where f: "sd_files sd ! ?i = (D, L)" by (cases "sd_files sd ! ?i")
  from a f obtain idx L' where r: "record_fits D L r" "loc_effect L (kdr_loc r) idx L'" and w: "(j, ?i) \<in> W"
    and i: "?i < length C" using ok by (auto simp: shared_ok_def)
  note s = shared_okD [OF ok i j]
  have k: "?kd ! ?i = attach_table (D, L) (sd_handles sd ! j ! ?i)" using s i f by simp
  have ready: "add_ready (sd_bases sd ! ?i) (?kd ! ?i) D L"
    using s(4-6) w b by (simp add: add_ready_def k f writer_ready_def)
  from add_ready_record_add [OF _ _ ready r] s i obtain kdb kdt where
    add: "kcndb_db_record_add type r (sd_bases sd, ?kd) =
        Some (Inr (r\<lparr>kdr_locidx := idx\<rparr>), (sd_bases sd)[?i := kdb], ?kd[?i := kdt])"
      "add_ready kdb kdt (D @ record_bytes (r\<lparr>kdr_locidx := idx\<rparr>)) L'" by auto
  from ready have t: "table_ok (sd_bases sd ! ?i) (?kd ! ?i) D L" by (simp add: add_ready_def)
  from r(1) have "length (kdr_loc r) \<le> 4075" by (simp add: record_fits_def)
  from contents_add [OF t r(2) this] s(7) f have
    c: "C ! ?i @ [measurement r] = contents (D @ record_bytes (r\<lparr>kdr_locidx := idx\<rparr>)) L'" by simp
  from add(2) have ar: "table_ok kdb kdt (D @ record_bytes (r\<lparr>kdr_locidx := idx\<rparr>)) L'" "lock_free (kdb_lock kdb)" "writer_ready kdt"
    by (auto simp: add_ready_def writer_ready_def)
  from shared_ok_update [OF ok j i ar(1,2) subset_refl ar(3) c] add(1) j show ?thesis
    by (simp add: do_op_def thread_op_def)
qed

lemma do_search:
  assumes ok: "shared_ok W C sd" and j: "j < length (sd_handles sd)" and a: "op_allowed W sd j (Op_search ke n)"
  shows "\<exists>sd'. do_op j (Op_search ke n) sd = Some (spec_reply C (Op_search ke n), sd') \<and>
    length (sd_handles sd') = length (sd_handles sd) \<and> shared_ok (W - {(j, TYPE2INDEX (ke_type ke))}) C sd'"
proof -
  let ?i = "TYPE2INDEX (ke_type ke)" and ?kd = "map2 attach_table (sd_files sd) (sd_handles sd ! j)"
  obtain D L where f: "sd_files sd ! ?i = (D, L)" by (cases "sd_files sd ! ?i")
  from a ok have i: "?i < length C" and o: "1 \<le> ke_op ke" "ke_op ke \<le> 5" by (auto simp: shared_ok_def)
  note s = shared_okD [OF ok i j]
  have k: "?kd ! ?i = attach_table (D, L) (sd_handles sd ! j ! ?i)" using s i f by simp
  have t: "table_ok (sd_bases sd ! ?i) (?kd ! ?i) D L" using s(4) by (simp add: k f)
  from collect_sink.search_ok [OF _ _ t s(5) o, where arg = "[]" and maxn = n] s i obtain kdt where
    r: "kcndb_db_search collect_cb ke n (sd_bases sd, ?kd) [] = Some (
        if selection ke n D = [] then ((Inl ESRCH, map (with_loc L) (selection ke n D)), sd_bases sd, ?kd[?i := kdt])
        else ((Inr (), map (with_loc L) (selection ke n D)),
          (sd_bases sd)[?i := (sd_bases sd ! ?i)\<lparr>kdb_lock := lock_reader (kdb_lock (sd_bases sd ! ?i))\<rparr>], ?kd[?i := kdt]))"
      "table_ok (sd_bases sd ! ?i) kdt D L"
    by (auto simp: deliver_collect)
  let ?kdb = "if selection ke n D = [] then sd_bases sd ! ?i
      else (sd_bases sd ! ?i)\<lparr>kdb_lock := lock_reader (kdb_lock (sd_bases sd ! ?i))\<rparr>"
  have c: "C ! ?i = contents D L" using s(7) f by simp
  have m: "map measurement (map (with_loc L) (selection ke n D)) = take n (filter (meas_matching ke) (C ! ?i))"
    unfolding c by (rule selection_contents)
  then have e: "(selection ke n D = []) = (take n (filter (meas_matching ke) (C ! ?i)) = [])" by (metis map_is_Nil_conv)
  have t': "table_ok ?kdb kdt D L" "lock_free (kdb_lock ?kdb)" using r(2) s(5) by (simp_all add: lock_free_def lock_reader_def)
  have C: "C[?i := C ! ?i] = C" by simp
  have sub: "W - {(j, ?i)} \<subseteq> W" "(j, ?i) \<in> W - {(j, ?i)} \<Longrightarrow> writer_ready kdt" by auto
  note u = shared_ok_update [OF ok j i t' sub c, unfolded C]
  show ?thesis
  proof (cases "selection ke n D = []")
    case True
    with u r(1) j e m show ?thesis by (simp add: do_op_def thread_op_def Let_def)
  next
    case False
    with u r(1) j e m show ?thesis by (simp add: do_op_def thread_op_def Let_def)
  qed
qed

text \<open>An addition to a table whose read lock is held waits for ever.\<close>

lemma do_blocked:
  assumes ok: "shared_ok W C sd" and a: "op_allowed W sd j op" "op_blocked sd op"
  shows "do_op j op sd = None"
proof (cases op)
  case (Op_add type r)
  with a ok have "rw_errs (kdb_lock (sd_bases sd ! TYPE2INDEX type)) = []"
    "rw_writer (kdb_lock (sd_bases sd ! TYPE2INDEX type)) \<or> 0 < rw_readers (kdb_lock (sd_bases sd ! TYPE2INDEX type))"
    by (auto simp: shared_ok_def table_shared_def lock_free_def)
  from record_add_blocked [OF this] Op_add show ?thesis
    by (auto simp: do_op_def thread_op_def c_assert_def split: option.split)
qed (use a in simp)

lemma do_op_ok:
  assumes "shared_ok W C sd" "j < length (sd_handles sd)" "op_allowed W sd j op" "\<not> op_blocked sd op"
  shows "\<exists>sd'. do_op j op sd = Some (spec_reply C op, sd') \<and> length (sd_handles sd') = length (sd_handles sd) \<and>
    shared_ok (still_writers W j op) (spec_next C op) sd'"
proof (cases op)
  case (Op_add type r)
  with assms do_add [of W C sd j type r] show ?thesis by simp
next
  case (Op_search ke n)
  with assms do_search [of W C sd j ke n] show ?thesis by simp
qed

section \<open>Interleavings\<close>

text \<open>
  A log of operations of any threads in any order, with the thread and the reply of each; an
  operation that waits for ever has no reply and is not in the log.
\<close>

inductive interleaving ::
  "(nat \<times> nat) set \<Rightarrow> shared_db \<Rightarrow> (nat \<times> db_op \<times> measurement list result) list \<Rightarrow> (nat \<times> nat) set \<Rightarrow> shared_db \<Rightarrow> bool" where
  il_done: "interleaving W sd [] W sd"
| il_op: "j < length (sd_handles sd) \<Longrightarrow> op_allowed W sd j op \<Longrightarrow> do_op j op sd = Some (res, sd1) \<Longrightarrow>
    interleaving (still_writers W j op) sd1 log W' sd2 \<Longrightarrow> interleaving W sd ((j, op, res) # log) W' sd2"

lemma interleaving_spec:
  assumes "interleaving W sd log W' sd'" "shared_ok W C sd"
  shows "map (\<lambda>(j, op, res). res) log = spec_replies C (map (\<lambda>(j, op, res). op) log) \<and>
    shared_ok W' (fold (\<lambda>op C. spec_next C op) (map (\<lambda>(j, op, res). op) log) C) sd'"
  using assms
proof (induction arbitrary: C rule: interleaving.induct)
  case (il_op j sd W op res sd1 log W' sd2)
  have "\<not> op_blocked sd op" using do_blocked [OF il_op.prems il_op.hyps(2)] il_op.hyps(3) by auto
  from do_op_ok [OF il_op.prems il_op.hyps(1,2) this] il_op.hyps(3)
  have "res = spec_reply C op" "shared_ok (still_writers W j op) (spec_next C op) sd1" by auto
  with il_op.IH [OF this(2)] show ?case by simp
qed simp

text \<open>
  C8. Threads add to the tables and search them, in any order, with every operation allowed when it is done
  (\<open>op_allowed\<close>): a search has a valid type and operator; an addition is not older than the last record (C16), its
  locator is in the chain of its bucket or the bucket is empty (C21), and its thread has not searched that type
  before (C22).  Then every reply is the one of a single list of measurements per type to which the operations are applied
  one after the other, so a search sees the additions of all threads; and at any time an allowed operation
  returns, unless it is an addition to a table of which a search has kept the read lock (C20).
\<close>

theorem threads_share_tables:
  assumes "shared_ok W C sd" "interleaving W sd log W' sd'"
  shows "map (\<lambda>(j, op, res). res) log = spec_replies C (map (\<lambda>(j, op, res). op) log) \<and>
    shared_ok W' (fold (\<lambda>op C. spec_next C op) (map (\<lambda>(j, op, res). op) log) C) sd' \<and>
    (\<forall>j op. j < length (sd_handles sd') \<longrightarrow> op_allowed W' sd' j op \<longrightarrow> (do_op j op sd' = None \<longleftrightarrow> op_blocked sd' op))"
proof -
  note s = interleaving_spec [OF assms(2,1)]
  note ok = conjunct2 [OF s]
  have "do_op j op sd' = None \<longleftrightarrow> op_blocked sd' op" if "j < length (sd_handles sd')" "op_allowed W' sd' j op" for j op
    using do_op_ok [OF ok that] do_blocked [OF ok that(2)] by (cases "op_blocked sd' op") auto
  with s show ?thesis by blast
qed

text \<open>Two threads on an empty table: the one adds the sample, the other one finds it.\<close>

definition two_threads :: shared_db where
  "two_threads = \<lparr>sd_bases = [opened_base [] empty_locs], sd_files = [([], empty_locs)],
     sd_handles = [[opened_table [] empty_locs], [opened_table [] empty_locs]]\<rparr>"

lemma two_threads_ok: "shared_ok {(0, 0)} [[]] two_threads"
proof -
  have a: "attach_table ([], empty_locs) (opened_table [] empty_locs) = opened_table [] empty_locs"
    by (simp add: attach_table_def opened_table_def opened_file_def)
  from opened_empty have "table_ok (opened_base [] empty_locs) (opened_table [] empty_locs) [] empty_locs"
    "lock_free (kdb_lock (opened_base [] empty_locs))" "writer_ready (opened_table [] empty_locs)"
    by (auto simp: add_ready_def writer_ready_def)
  then show ?thesis
    by (auto simp: shared_ok_def two_threads_def table_shared_def contents_def parse_records.simps a less_Suc_eq)
qed

theorem threads_share_tables_witness:
  "\<exists>W sd. interleaving {(0, 0)} two_threads
      [(0, Op_add 1 sample, Inr []), (1, Op_search sample_eq 10, Inr [(1000, 5, [97])])] W sd \<and>
    shared_ok W [[(1000, 5, [97])]] sd \<and>
    (op_allowed W sd 0 (Op_add 1 sample) \<longrightarrow> (do_op 0 (Op_add 1 sample) sd = None \<longleftrightarrow> op_blocked sd (Op_add 1 sample)))"
proof -
  have n: "length (sd_handles two_threads) = 2" by (simp add: two_threads_def)
  have "record_fits [] empty_locs sample"
    by (simp add: record_fits_def last_record_def kdr_uninit_def empty_locs_def)
  moreover have "\<exists>idx L'. loc_effect empty_locs [97] idx L'" using effect_empty by blast
  ultimately have a: "op_allowed {(0, 0)} two_threads 0 (Op_add 1 sample)"
    by (simp add: two_threads_def index_1)
  have "rw_readers (kdb_lock (sd_bases two_threads ! TYPE2INDEX 1)) = 0"
    by (simp add: two_threads_def index_1 opened_base_def)
  from do_add [OF two_threads_ok _ a this] n obtain sd1 where
    1: "do_op 0 (Op_add 1 sample) two_threads = Some (Inr [], sd1)" "length (sd_handles sd1) = 2"
      "shared_ok {(0, 0)} [[(1000, 5, [97])]] sd1" by (auto simp: index_1 measurement_def)
  then have "length (sd_bases sd1) = 1" by (simp add: shared_ok_def)
  then have b: "op_allowed {(0, 0)} sd1 1 (Op_search sample_eq 10)"
    by (simp add: index_1 word_le_nat_alt)
  have s: "spec_reply [[(1000, 5, [97])]] (Op_search sample_eq 10) = Inr [(1000, 5, [97])]"
    by (simp add: index_1 meas_matching_def op_holds_def Let_def)
  from do_search [OF 1(3) _ b] 1(2) obtain sd2 where
    2: "do_op 1 (Op_search sample_eq 10) sd1 = Some (Inr [(1000, 5, [97])], sd2)" "length (sd_handles sd2) = 2"
    unfolding s by auto
  let ?W = "still_writers (still_writers {(0, 0)} 0 (Op_add 1 sample)) 1 (Op_search sample_eq 10)"
  have il: "interleaving {(0, 0)} two_threads
      [(0, Op_add 1 sample, Inr []), (1, Op_search sample_eq 10, Inr [(1000, 5, [97])])] ?W sd2"
    by (rule il_op [OF _ a 1(1)], simp add: n, rule il_op [OF _ _ 2(1) il_done]) (use 1(2) b in simp_all)
  from threads_share_tables [OF two_threads_ok il] 2(2) have
    "shared_ok ?W [[(1000, 5, [97])]] sd2"
    "op_allowed ?W sd2 0 (Op_add 1 sample) \<longrightarrow> (do_op 0 (Op_add 1 sample) sd2 = None \<longleftrightarrow> op_blocked sd2 (Op_add 1 sample))"
    by (simp_all add: index_1 measurement_def)
  with il show ?thesis by (intro exI [of _ ?W] exI [of _ sd2] conjI)
qed

end
