(* ===== verification/Kcn_Keys.thy ===== *)
theory Kcn_Keys
  imports Kcn_Str
begin

text \<open>
  \<^verbatim>\<open>lib/kcn.c\<close> and \<^verbatim>\<open>lib/kcn_token.c\<close>: the key words of a search are joined to one string and split
  again.  A block of memory that holds a C string is the list of its characters, the terminating NUL
  included; \<open>c_str\<close> reads the string in it.  A write outside the block is \<^const>\<open>None\<close>.
\<close>

section \<open>Strings in memory\<close>

abbreviation (input) NUL :: char where "NUL \<equiv> CHR 0x00"

type_synonym char_allocator = "nat \<Rightarrow> string option"

definition char_alloc_ok :: "char_allocator \<Rightarrow> bool" where
  "char_alloc_ok malloc = (\<forall>n mem. malloc n = Some mem \<longrightarrow> length mem = n)"

definition nul_malloc :: char_allocator where
  "nul_malloc n = Some (replicate n NUL)"

lemma nul_malloc_ok [simp]: "char_alloc_ok nul_malloc"
  by (simp add: char_alloc_ok_def nul_malloc_def)

definition c_str :: "string \<Rightarrow> string option" where
  "c_str mem = do {
     c_assert (NUL \<in> set mem);
     Some (takeWhile (\<lambda>c. c \<noteq> NUL) mem)
   }"

definition strncpy :: "string \<Rightarrow> string \<Rightarrow> nat \<Rightarrow> string option" where
  "strncpy dst src n = do {
     c_assert (n \<le> length dst);
     Some (list_write 0 (take n (src @ replicate n NUL)) dst)
   }"

definition strncat :: "string \<Rightarrow> string \<Rightarrow> nat \<Rightarrow> string option" where
  "strncat dst src n = do {
     s \<leftarrow> c_str dst;
     c_assert (length s + length (take n src) + 1 \<le> length dst);
     Some (list_write (length s) (take n src @ [NUL]) dst)
   }"

text \<open>The program's own \<open>strlcpy\<close> and \<open>strlcat\<close>; their results, the lengths, are not used.\<close>

definition strlcpy :: "string \<Rightarrow> string \<Rightarrow> nat \<Rightarrow> string option" where
  "strlcpy dst src size' = do {
     dst \<leftarrow> strncpy dst src size';
     c_assert (0 < size' \<and> size' \<le> length dst);
     Some (dst[size' - 1 := NUL])
   }"

definition strlcat :: "string \<Rightarrow> string \<Rightarrow> nat \<Rightarrow> string option" where
  "strlcat dst src size' = do {
     dst \<leftarrow> strncat dst src size';
     c_assert (0 < size' \<and> size' \<le> length dst);
     Some (dst[size' - 1 := NUL])
   }"

section \<open>Joining and splitting keys\<close>

fun key_concat_loop :: "string \<Rightarrow> string list \<Rightarrow> nat \<Rightarrow> string option" where
  "key_concat_loop s [] size' = Some s"
| "key_concat_loop s (k # keyv) size' = do {
     s \<leftarrow> strncat s '' '' size';
     s \<leftarrow> strncat s k size';
     key_concat_loop s keyv size'
   }"

text \<open>The outer option is undefined behaviour, the inner one a null result.\<close>

definition kcn_key_concat :: "char_allocator \<Rightarrow> string list \<Rightarrow> string option option" where
  "kcn_key_concat malloc keyv = do {
     c_assert (length keyv > 0);
     size' \<leftarrow> Some (length keyv + sum_list (map length keyv));
     (case malloc size' of
        None \<Rightarrow> Some None
      | Some s \<Rightarrow> do {
          s \<leftarrow> strlcpy s (hd keyv) size';
          s \<leftarrow> key_concat_loop s (tl keyv) size';
          Some (Some s)
        })
   }"

text \<open>
  \<open>strtok_r\<close> with the delimiters blank and tab: the next token and the string its last argument
  then points to.
\<close>

definition strtok_r :: "string \<Rightarrow> (string \<times> string) option" where
  "strtok_r s =
     (let s = dropWhile c_isblank s in
      if s = [] then None
      else Some (takeWhile (Not \<circ> c_isblank) s, drop 1 (dropWhile (Not \<circ> c_isblank) s)))"

lemma strtok_r_shorter: "strtok_r s = Some (k, rest) \<Longrightarrow> length rest < length s"
  using length_dropWhile_le [of c_isblank s]
    length_dropWhile_le [of "Not \<circ> c_isblank" "dropWhile c_isblank s"]
  by (cases "dropWhile c_isblank s") (auto simp: strtok_r_def Let_def split: if_splits)

text \<open>
  \<open>mem\<close> has the outcomes of the next allocations.  The result is \<^const>\<open>None\<close> for a null pointer, which
  \<open>kcn_key_split\<close> also returns when there is no key, since \<open>keyv\<close> is null then.
\<close>

fun next_alloc :: "bool list \<Rightarrow> bool \<times> bool list" where
  "next_alloc [] = (True, [])"
| "next_alloc (b # bs) = (b, bs)"

function key_split_loop :: "bool list \<Rightarrow> string list \<Rightarrow> string \<Rightarrow> string list option" where
  "key_split_loop mem keyv keys =
     (case strtok_r keys of
        None \<Rightarrow> Some keyv
      | Some (k, rest) \<Rightarrow>
          (let (grown, mem) = next_alloc mem in
           if \<not> grown then None
           else let (dup, mem) = next_alloc mem in
             if \<not> dup then None
             else key_split_loop mem (keyv @ [k]) rest))"
  by pat_completeness auto
termination by (relation "measure (\<lambda>(mem, keyv, keys). length keys)") (auto dest: strtok_r_shorter)

declare key_split_loop.simps [simp del]

definition kcn_key_split :: "bool list \<Rightarrow> string \<Rightarrow> string list option" where
  "kcn_key_split mem keys0 =
     (let (dup, mem) = next_alloc mem in
      if \<not> dup then None
      else case key_split_loop mem [] keys0 of
             None \<Rightarrow> None
           | Some keyv \<Rightarrow> if keyv = [] then None else Some keyv)"

section \<open>Tokens\<close>

text \<open>The two pointers of a token are offsets into the string.\<close>

record kcn_token =
  kt_str :: string
  kt_sp :: nat
  kt_ep :: nat

definition kcn_token_new :: "bool \<Rightarrow> string \<Rightarrow> kcn_token option" where
  "kcn_token_new kt_new s = (if \<not> kt_new then None else Some \<lparr>kt_str = s, kt_sp = 0, kt_ep = 0\<rparr>)"

definition kcn_token_get :: "kcn_token \<Rightarrow> (nat option \<times> nat) \<times> kcn_token" where
  "kcn_token_get kt =
     (let cp = kt_ep kt + length (takeWhile c_isblank (drop (kt_ep kt) (kt_str kt)));
          kt = kt\<lparr>kt_sp := cp\<rparr>;
          cp = cp + length (takeWhile (Not \<circ> c_isblank) (drop cp (kt_str kt)));
          kt = kt\<lparr>kt_ep := cp\<rparr>;
          tlen = kt_ep kt - kt_sp kt
      in ((if tlen \<noteq> 0 then Some (kt_sp kt) else None, tlen), kt))"

section \<open>The reference\<close>

text \<open>The words of a string, by one pass over its characters.\<close>

fun key_words :: "string \<Rightarrow> string \<Rightarrow> string list" where
  "key_words w [] = (if w = [] then [] else [w])"
| "key_words w (c # s) =
     (if c_isblank c then (if w = [] then [] else [w]) @ key_words [] s else key_words (w @ [c]) s)"

fun join_keys :: "string list \<Rightarrow> string" where
  "join_keys [] = []"
| "join_keys [k] = k"
| "join_keys (k # k' # ks) = k @ CHR '' '' # join_keys (k' # ks)"

lemma key_words_append: "\<forall>c \<in> set s. \<not> c_isblank c \<Longrightarrow> key_words w (s @ t) = key_words (w @ s) t"
  by (induction s arbitrary: w) auto

lemma c_isblank_space [simp]: "c_isblank CHR '' ''"
  by (simp add: c_isblank_def char_code_def)

lemma key_words_join:
  assumes "\<forall>k \<in> set ks. k \<noteq> [] \<and> (\<forall>c \<in> set k. \<not> c_isblank c)"
  shows "key_words [] (join_keys ks) = ks"
  using assms
proof (induction ks rule: join_keys.induct)
  case (2 k)
  then show ?case using key_words_append [of k "[]" "[]"] by simp
next
  case (3 k k' ks)
  then show ?case using key_words_append [of k "[]"] by simp
qed simp

text \<open>A call of \<open>strtok_r\<close> takes the first word off.\<close>

lemma key_words_skip: "key_words [] s = key_words [] (dropWhile c_isblank s)"
  by (induction s) auto

lemma key_words_rest:
  "w \<noteq> [] \<Longrightarrow> key_words w s = (w @ takeWhile (Not \<circ> c_isblank) s) #
     key_words [] (drop 1 (dropWhile (Not \<circ> c_isblank) s))"
  by (induction s arbitrary: w) auto

lemma key_words_strtok:
  "key_words [] s = (case strtok_r s of None \<Rightarrow> [] | Some (k, rest) \<Rightarrow> k # key_words [] rest)"
proof (cases "dropWhile c_isblank s")
  case Nil
  then show ?thesis by (subst key_words_skip) (simp add: strtok_r_def del: dropWhile_eq_Nil_conv)
next
  case (Cons c t)
  then have "\<not> c_isblank c" by (metis hd_dropWhile list.distinct(1) list.sel(1))
  then show ?thesis
    using key_words_skip [of s] key_words_rest [of "[c]" t] Cons by (simp add: strtok_r_def)
qed

lemma split_loop_words:
  "key_split_loop [] keyv keys = Some (keyv @ key_words [] keys)"
proof (induction "[] :: bool list" keyv keys rule: key_split_loop.induct)
  case (1 keyv keys)
  show ?case
  proof (cases "strtok_r keys")
    case None
    then show ?thesis by (simp add: key_split_loop.simps key_words_strtok [of keys])
  next
    case (Some kr)
    then obtain k rest where s: "strtok_r keys = Some (k, rest)" by (cases kr) auto
    with 1 have "key_split_loop [] (keyv @ [k]) rest = Some ((keyv @ [k]) @ key_words [] rest)" by simp
    with s show ?thesis by (simp add: key_split_loop.simps [of _ _ keys] key_words_strtok [of keys])
  qed
qed

lemma key_split_words:
  "kcn_key_split [] keys = (if key_words [] keys = [] then None else Some (key_words [] keys))"
  by (simp add: kcn_key_split_def split_loop_words)

section \<open>Joining\<close>

text \<open>A block that holds a string: the string, a NUL, and the rest.\<close>

lemma c_str_block: "NUL \<notin> set s \<Longrightarrow> c_str (s @ NUL # post) = Some s"
proof -
  assume "NUL \<notin> set s"
  then have "\<forall>c \<in> set s. c \<noteq> NUL" by auto
  then show ?thesis by (simp add: c_str_def)
qed

lemma strncat_block:
  assumes "NUL \<notin> set s" "length t \<le> length post" "length t \<le> n"
  shows "strncat (s @ NUL # post) t n = Some (s @ t @ NUL # drop (length t) post)"
proof -
  have "drop (Suc (length s + length t)) (s @ NUL # post) = drop (length t) post" by simp
  with assms show ?thesis by (simp add: strncat_def c_str_block list_write_def)
qed

text \<open>The loop appends the keys with separators, and uses what is left of the block exactly.\<close>

fun keys_tail :: "string list \<Rightarrow> string" where
  "keys_tail [] = []"
| "keys_tail (k # ks) = CHR '' '' # k @ keys_tail ks"

lemma keys_tail_simps [simp]:
  "length (keys_tail ks) = length ks + sum_list (map length ks)"
  "join_keys (k # ks) = k @ keys_tail ks"
proof -
  show "length (keys_tail ks) = length ks + sum_list (map length ks)" by (induction ks) auto
  show "join_keys (k # ks) = k @ keys_tail ks" by (induction ks arbitrary: k) auto
qed

lemma concat_loop_ok:
  assumes "NUL \<notin> set s" "\<forall>k \<in> set ks. NUL \<notin> set k" "length post = length (keys_tail ks)"
    "length post < n"
  shows "key_concat_loop (s @ NUL # post) ks n = Some (s @ keys_tail ks @ [NUL])"
  using assms
proof (induction ks arbitrary: s post)
  case (Cons k ks)
  then have "strncat (s @ NUL # post) '' '' n = Some ((s @ '' '') @ NUL # drop 1 post)"
    using strncat_block [of s "'' ''" post n] by simp
  moreover have "strncat ((s @ '' '') @ NUL # drop 1 post) k n =
      Some ((s @ '' '' @ k) @ NUL # drop (length k + 1) post)"
    using Cons.prems strncat_block [of "s @ '' ''" k "drop 1 post" n] by simp
  moreover have "key_concat_loop ((s @ '' '' @ k) @ NUL # drop (length k + 1) post) ks n =
      Some ((s @ '' '' @ k) @ keys_tail ks @ [NUL])"
    using Cons.prems by (intro Cons.IH) simp_all
  ultimately show ?case by simp
qed simp

lemma key_concat_ok:
  assumes "char_alloc_ok malloc" "ks \<noteq> []" "\<forall>k \<in> set ks. NUL \<notin> set k"
  shows "kcn_key_concat malloc ks =
    Some (if malloc (length (join_keys ks) + 1) = None then None else Some (join_keys ks @ [NUL]))"
proof -
  obtain k ks' where ks: "ks = k # ks'" using assms(2) by (cases ks) auto
  define n where "n = length ks + sum_list (map length ks)"
  have n: "Suc (length (join_keys ks)) = n" by (simp add: n_def ks)
  show ?thesis
  proof (cases "malloc n")
    case None
    then show ?thesis using assms(2) by (simp add: kcn_key_concat_def n flip: n_def)
  next
    case (Some mem)
    with assms(1) have l: "length mem = n" by (auto simp: char_alloc_ok_def)
    have "length k < n" by (simp add: n_def ks)
    then obtain m where m: "n = length k + Suc m" using less_imp_Suc_add by (metis add_Suc_right)
    have "(k @ NUL # replicate m NUL)[n - 1 := NUL] = k @ NUL # replicate m NUL"
      by (rule nth_equalityI) (simp_all add: nth_list_update nth_append m nth_Cons')
    then have "strlcpy mem k n = Some (k @ NUL # replicate m NUL)"
      using l m by (simp add: strlcpy_def strncpy_def list_write_def)
    moreover have "key_concat_loop (k @ NUL # replicate m NUL) ks' n = Some (k @ keys_tail ks' @ [NUL])"
      using assms(3) m by (intro concat_loop_ok) (simp_all add: ks n_def)
    ultimately show ?thesis
      using Some assms(2) by (simp add: kcn_key_concat_def n flip: n_def) (simp add: ks)
  qed
qed

section \<open>The two tokenizers agree\<close>

text \<open>The texts of the next \<open>n\<close> tokens, ending at the null one.\<close>

fun token_texts :: "nat \<Rightarrow> kcn_token \<Rightarrow> string list" where
  "token_texts 0 kt = []"
| "token_texts (Suc n) kt =
     (case kcn_token_get kt of
        ((None, _), kt') \<Rightarrow> []
      | ((Some sp, tlen), kt') \<Rightarrow> take tlen (drop sp (kt_str kt')) # token_texts n kt')"

lemma drop_takeWhile: "drop (length (takeWhile P s)) s = dropWhile P s"
  by (metis dropWhile_eq_drop)

lemma token_get_ok:
  assumes "kt_ep kt \<le> length (kt_str kt)"
  shows "case strtok_r (drop (kt_ep kt) (kt_str kt)) of
     None \<Rightarrow> fst (fst (kcn_token_get kt)) = None
   | Some (k, _) \<Rightarrow> \<exists>sp kt'. kcn_token_get kt = ((Some sp, length k), kt') \<and> take (length k) (drop sp (kt_str kt)) = k \<and>
       kt_str kt' = kt_str kt \<and> kt_ep kt' \<le> length (kt_str kt) \<and>
       drop (kt_ep kt') (kt_str kt) = dropWhile (Not \<circ> c_isblank) (dropWhile c_isblank (drop (kt_ep kt) (kt_str kt)))"
proof -
  define s where "s = drop (kt_ep kt) (kt_str kt)"
  define cp where "cp = kt_ep kt + length (takeWhile c_isblank s)"
  define k where "k = takeWhile (Not \<circ> c_isblank) (dropWhile c_isblank s)"
  have cp: "drop cp (kt_str kt) = dropWhile c_isblank s"
    unfolding cp_def by (subst add.commute) (simp add: drop_takeWhile flip: s_def drop_drop)
  have ep: "drop (cp + length k) (kt_str kt) = dropWhile (Not \<circ> c_isblank) (dropWhile c_isblank s)"
    by (subst add.commute) (simp add: cp k_def drop_takeWhile flip: drop_drop)
  have g: "kcn_token_get kt = ((if length k \<noteq> 0 then Some cp else None, length k), kt\<lparr>kt_sp := cp, kt_ep := cp + length k\<rparr>)"
    by (simp add: kcn_token_get_def Let_def cp flip: s_def cp_def k_def)
  have "length (takeWhile c_isblank s) + length k \<le> length s"
    using length_takeWhile_le [of "Not \<circ> c_isblank" "dropWhile c_isblank s"]
      length_append [of "takeWhile c_isblank s" "dropWhile c_isblank s"] by (simp add: k_def)
  with assms have le: "cp + length k \<le> length (kt_str kt)" by (simp add: cp_def s_def)
  have t: "take (length k) (drop cp (kt_str kt)) = k"
    by (simp add: cp k_def) (metis takeWhile_eq_take)
  show ?thesis
  proof (cases "dropWhile c_isblank s = []")
    case True
    then show ?thesis using g by (simp add: strtok_r_def k_def del: dropWhile_eq_Nil_conv flip: s_def)
  next
    case False
    then have "k \<noteq> []" using hd_dropWhile [OF False] by (cases "dropWhile c_isblank s") (auto simp: k_def)
    then show ?thesis using g t le ep False
      by (simp add: strtok_r_def Let_def del: dropWhile_eq_Nil_conv flip: s_def k_def)
  qed
qed

text \<open>The characters behind a token are words or a blank, which the next call skips.\<close>

lemma key_words_delim: "key_words [] (dropWhile (Not \<circ> c_isblank) s) = key_words [] (drop 1 (dropWhile (Not \<circ> c_isblank) s))"
proof (cases "dropWhile (Not \<circ> c_isblank) s")
  case (Cons c t)
  then have "c_isblank c" using hd_dropWhile [of "Not \<circ> c_isblank" s] by simp
  with Cons show ?thesis by simp
qed (simp del: dropWhile_eq_Nil_conv)

lemma token_texts_words:
  assumes "kt_ep kt \<le> length (kt_str kt)"
  shows "token_texts n kt = take n (key_words [] (drop (kt_ep kt) (kt_str kt)))"
  using assms
proof (induction n arbitrary: kt)
  case (Suc n)
  let ?s = "drop (kt_ep kt) (kt_str kt)"
  show ?case
  proof (cases "strtok_r ?s")
    case None
    with token_get_ok [OF Suc.prems] have "fst (fst (kcn_token_get kt)) = None" by simp
    with None show ?thesis by (auto simp: key_words_strtok [of ?s] split: prod.splits)
  next
    case (Some kr)
    then obtain k rest where s: "strtok_r ?s = Some (k, rest)" by (cases kr) auto
    with token_get_ok [OF Suc.prems] obtain sp kt' where
      g: "kcn_token_get kt = ((Some sp, length k), kt')" "take (length k) (drop sp (kt_str kt)) = k"
      "kt_str kt' = kt_str kt" "kt_ep kt' \<le> length (kt_str kt)"
      "drop (kt_ep kt') (kt_str kt) = dropWhile (Not \<circ> c_isblank) (dropWhile c_isblank ?s)" by auto
    from s have "rest = drop 1 (dropWhile (Not \<circ> c_isblank) (dropWhile c_isblank ?s))"
      by (auto simp: strtok_r_def Let_def split: if_splits)
    with g have "token_texts n kt' = take n (key_words [] rest)"
      by (simp add: Suc.IH key_words_delim)
    with s g show ?thesis by (simp add: key_words_strtok [of ?s])
  qed
qed simp

section \<open>Properties\<close>

text \<open>
  Keys that are not empty and contain no blank survive being joined and split: the block
  that \<open>kcn_key_concat\<close> allocates is filled exactly, no write leaves it, the string in it is the keys with
  one blank between two of them, and splitting that string yields the keys.
\<close>

lemma keys_roundtrip:
  assumes "char_alloc_ok malloc" "malloc (length (join_keys ks) + 1) \<noteq> None"
    and "ks \<noteq> []" "\<forall>k \<in> set ks. k \<noteq> [] \<and> NUL \<notin> set k \<and> (\<forall>c \<in> set k. \<not> c_isblank c)"
  shows "\<exists>mem keys. kcn_key_concat malloc ks = Some (Some mem) \<and>
    length mem = length ks + sum_list (map length ks) \<and> c_str mem = Some keys \<and> kcn_key_split [] keys = Some ks"
proof -
  have "NUL \<notin> set (join_keys ks)" using assms(4) by (induction ks rule: join_keys.induct) auto
  then have "c_str (join_keys ks @ [NUL]) = Some (join_keys ks)" by (rule c_str_block)
  moreover have "length (join_keys ks @ [NUL]) = length ks + sum_list (map length ks)"
    using assms(3) by (cases ks) simp_all
  moreover have "kcn_key_split [] (join_keys ks) = Some ks"
    using assms(3,4) by (simp add: key_split_words key_words_join)
  ultimately show ?thesis using assms key_concat_ok [of malloc ks] by auto
qed

text \<open>
  The two tokenizers of the library agree on every string: the tokens that repeated calls of
  \<open>kcn_token_get\<close> yield are the keys of \<open>kcn_key_split\<close>, and behind the last one it returns a null
  pointer each time.
\<close>

lemma tokens_are_keys:
  "\<exists>kt. kcn_token_new True s = Some kt \<and>
     token_texts n kt = take n (case kcn_key_split [] s of None \<Rightarrow> [] | Some keyv \<Rightarrow> keyv)"
  using token_texts_words [of "\<lparr>kt_str = s, kt_sp = 0, kt_ep = 0\<rparr>" n]
  by (simp add: kcn_token_new_def key_split_words)

end
