(* ===== verification/Kcn_Socket.thy ===== *)
theory Kcn_Socket
  imports Kcn_Keys
begin

text \<open>
  \<^verbatim>\<open>lib/kcn_socket.c\<close> and \<^verbatim>\<open>lib/kcn_sockaddr.c\<close>: sockets that listen, connect and are accepted, and
  their addresses.

  A process is its table of descriptors, indexed by the descriptor: a free entry is \<^const>\<open>None\<close>, an open
  one its \<open>O_NONBLOCK\<close> flag.  A new descriptor is the lowest free one, as POSIX requires.  \<open>os_sys\<close> has
  the results of the next system calls.  A descriptor variable of the source is an integer that is
  negative when it holds none; a function that returns -1 with \<open>errno\<close> set returns \<^term>\<open>Inl e\<close>.
\<close>

section \<open>Descriptors\<close>

record os =
  os_fds :: "bool option list"
  os_sys :: "errno list"

abbreviation (input) EBADF :: errno where "EBADF \<equiv> 9"
abbreviation (input) EPFNOSUPPORT :: errno where "EPFNOSUPPORT \<equiv> 96"
abbreviation (input) EAFNOSUPPORT :: errno where "EAFNOSUPPORT \<equiv> 97"
abbreviation (input) EINPROGRESS :: errno where "EINPROGRESS \<equiv> 115"

definition fd_of :: "os \<Rightarrow> nat \<Rightarrow> bool option" where
  "fd_of os n = (if n < length (os_fds os) then os_fds os ! n else None)"

fun lowest_free :: "bool option list \<Rightarrow> nat" where
  "lowest_free [] = 0"
| "lowest_free (None # fds) = 0"
| "lowest_free (Some _ # fds) = Suc (lowest_free fds)"

definition os_set :: "nat \<Rightarrow> bool option \<Rightarrow> os \<Rightarrow> os" where
  "os_set n v os = os\<lparr>os_fds := (os_fds os @ replicate (Suc n - length (os_fds os)) None)[n := v]\<rparr>"

text \<open>The next system call: its result, an error number or 0.\<close>

definition os_call :: "os \<Rightarrow> errno \<times> os" where
  "os_call os = (case next_errno (os_sys os) of (e, s) \<Rightarrow> (e, os\<lparr>os_sys := s\<rparr>))"

text \<open>Calls that make a descriptor (\<open>socket\<close>, \<open>accept\<close>), and \<open>close\<close>.\<close>

definition os_new :: "os \<Rightarrow> int result \<times> os" where
  "os_new os =
     (case os_call os of
        (e, os) \<Rightarrow>
          if e \<noteq> 0 then (Inl e, os)
          else let n = lowest_free (os_fds os) in (Inr (int n), os_set n (Some False) os))"

definition os_close :: "int \<Rightarrow> os \<Rightarrow> unit result \<times> os" where
  "os_close s os =
     (if s < 0 \<or> fd_of os (nat s) = None then (Inl EBADF, os) else (Inr (), os_set (nat s) None os))"

lemma fd_of_set [simp]: "fd_of (os_set n v os) = (fd_of os)(n := v)"
  by (auto simp: fd_of_def os_set_def nth_list_update nth_append)

lemma fd_of_sys [simp]: "fd_of (os\<lparr>os_sys := s\<rparr>) = fd_of os"
  by (simp add: fd_of_def fun_eq_iff)

lemma lowest_free_free: "fd_of os (lowest_free (os_fds os)) = None"
proof -
  have "lowest_free fds < length fds \<Longrightarrow> fds ! lowest_free fds = None" for fds
    by (induction fds rule: lowest_free.induct) auto
  then show ?thesis by (simp add: fd_of_def)
qed

lemma lowest_free_least: "fd_of os n = None \<Longrightarrow> lowest_free (os_fds os) \<le> n"
proof -
  have "(if n < length fds then fds ! n else None) = None \<Longrightarrow> lowest_free fds \<le> n" for fds
  proof (induction fds arbitrary: n rule: lowest_free.induct)
    case (3 b fds)
    then show ?case using "3.IH" [of "n - 1"] by (cases n) (simp_all only: nth_Cons_Suc length_Cons Suc_less_eq diff_Suc_1, auto)
  qed auto
  then show "fd_of os n = None \<Longrightarrow> lowest_free (os_fds os) \<le> n" by (simp add: fd_of_def)
qed

section \<open>Addresses\<close>

abbreviation (input) AF_INET :: nat where "AF_INET \<equiv> 2"
abbreviation (input) AF_INET6 :: nat where "AF_INET6 \<equiv> 10"
abbreviation (input) PF_INET :: nat where "PF_INET \<equiv> 2"
abbreviation (input) PF_INET6 :: nat where "PF_INET6 \<equiv> 10"

text \<open>The port is in network order; \<open>ss_rest\<close> are the bytes of the address.\<close>

record sockaddr_storage =
  ss_family :: nat
  ss_port :: uint16
  ss_rest :: "byte list"

definition kcn_sockaddr_pf2af :: "nat \<Rightarrow> nat result" where
  "kcn_sockaddr_pf2af domain =
     (if domain = PF_INET then Inr AF_INET
      else if domain = PF_INET6 then Inr AF_INET6
      else Inl EPFNOSUPPORT)"

definition kcn_sockaddr_af2pf :: "nat \<Rightarrow> nat result" where
  "kcn_sockaddr_af2pf af =
     (if af = AF_INET then Inr PF_INET
      else if af = AF_INET6 then Inr PF_INET6
      else Inl EAFNOSUPPORT)"

text \<open>The sizes of \<open>struct sockaddr_in\<close> and \<open>struct sockaddr_in6\<close> on Linux.\<close>

definition kcn_sockaddr_len :: "sockaddr_storage \<Rightarrow> nat result" where
  "kcn_sockaddr_len ss =
     (if ss_family ss = AF_INET then Inr 16
      else if ss_family ss = AF_INET6 then Inr 28
      else Inl EAFNOSUPPORT)"

text \<open>\<open>family\<close> is -1, cut to the width of \<open>sa_family_t\<close>, when \<open>kcn_sockaddr_pf2af\<close> failed.\<close>

definition kcn_sockaddr_init :: "nat \<Rightarrow> uint16 \<Rightarrow> (sockaddr_storage \<times> nat) result" where
  "kcn_sockaddr_init family port =
     (if family = AF_INET then Inr (\<lparr>ss_family = AF_INET, ss_port = port, ss_rest = []\<rparr>, 16)
      else if family = AF_INET6 then Inr (\<lparr>ss_family = AF_INET6, ss_port = port, ss_rest = []\<rparr>, 28)
      else Inl EPFNOSUPPORT)"

text \<open>
  \<open>getaddrinfo\<close> for the wanted socket type: an error number or the first address with its length;
  \<open>EAI_SYSTEM\<close> leaves the reason in \<open>errno\<close>.
\<close>

datatype gai_error = EAI_AGAIN | EAI_SYSTEM errno | EAI_OTHER

type_synonym resolver = "string \<Rightarrow> string \<Rightarrow> gai_error + (sockaddr_storage \<times> nat)"

definition kcn_sockaddr_aton :: "resolver \<Rightarrow> string \<Rightarrow> string \<Rightarrow> sockaddr_storage result option" where
  "kcn_sockaddr_aton getaddrinfo nodename servname =
     (case getaddrinfo nodename servname of
        Inl EAI_AGAIN \<Rightarrow> Some (Inl EAGAIN)
      | Inl (EAI_SYSTEM e) \<Rightarrow> Some (Inl e)
      | Inl EAI_OTHER \<Rightarrow> Some (Inl EINVAL)
      | Inr (ss, len) \<Rightarrow> do {
          c_assert (len \<le> 128);
          Some (Inr ss)
        })"

text \<open>
  \<open>getnameinfo\<close> returns the texts of the host and of the port when each fits its buffer with the
  terminating NUL.  The buffer for the port has 33 bytes, of which \<open>sizeof(sbuf - 1)\<close>, the size of a
  pointer, are offered.  \<open>name\<close> is the caller's block.
\<close>

type_synonym namer = "sockaddr_storage \<Rightarrow> (string \<times> string) option"

definition getnameinfo :: "namer \<Rightarrow> sockaddr_storage \<Rightarrow> nat \<Rightarrow> nat \<Rightarrow> (string \<times> string) option" where
  "getnameinfo texts ss hostlen servlen =
     (case (kcn_sockaddr_len ss, texts ss) of
        (Inr _, Some (host, serv)) \<Rightarrow>
          if length host < hostlen \<and> length serv < servlen then Some (host, serv) else None
      | _ \<Rightarrow> None)"

definition kcn_sockaddr_ntoa :: "namer \<Rightarrow> string \<Rightarrow> nat \<Rightarrow> sockaddr_storage \<Rightarrow> (bool \<times> string) option" where
  "kcn_sockaddr_ntoa texts name namelen ss =
     (case getnameinfo texts ss namelen 8 of
        None \<Rightarrow> if namelen > 0 then (if 0 < length name then Some (False, name[0 := NUL]) else None) else Some (False, name)
      | Some (host, serv) \<Rightarrow> do {
          c_assert (length host + 1 \<le> length name);
          name \<leftarrow> Some (list_write 0 (host @ [NUL]) name);
          name \<leftarrow> strlcat name (CHR ''/'' # serv) namelen;
          Some (True, name)
        })"

section \<open>Sockets\<close>

definition kcn_socket_close :: "int \<Rightarrow> os \<Rightarrow> int \<times> os" where
  "kcn_socket_close s os = (if s < 0 then (s, os) else (- 1, snd (os_close s os)))"

text \<open>Two calls of \<open>fcntl\<close>; \<open>s\<close> is open.\<close>

definition kcn_socket_nonblock :: "int \<Rightarrow> os \<Rightarrow> unit result \<times> os" where
  "kcn_socket_nonblock s os =
     (case os_call os of
        (e, os) \<Rightarrow>
          if e \<noteq> 0 then (Inl e, os)
          else case os_call os of
            (e, os) \<Rightarrow> if e \<noteq> 0 then (Inl e, os) else (Inr (), os_set (nat s) (Some True) os))"

text \<open>The label \<open>bad\<close> of the functions below: the socket is closed and \<open>errno\<close> kept.\<close>

definition sock_bad :: "int \<Rightarrow> errno \<Rightarrow> os \<Rightarrow> int result \<times> os" where
  "sock_bad s e os = (Inl e, snd (kcn_socket_close s os))"

text \<open>
  When the address cannot be made, the cleanup reads the variable \<open>s\<close> before anything is stored in it.
\<close>

definition kcn_socket_listen :: "nat \<Rightarrow> uint16 \<Rightarrow> os \<Rightarrow> (int result \<times> os) option" where
  "kcn_socket_listen domain port os =
     (case kcn_sockaddr_init (case kcn_sockaddr_pf2af domain of Inl _ \<Rightarrow> 2 ^ 16 - 1 | Inr family \<Rightarrow> family) port of
        Inl e \<Rightarrow> None
      | Inr (ss, sslen) \<Rightarrow>
          Some (case os_new os of
            (Inl e, os) \<Rightarrow> sock_bad (- 1) e os
          | (Inr s, os) \<Rightarrow>
              (case (if domain = PF_INET6 then os_call os else (0, os)) of
                 (e, os) \<Rightarrow>
                   if e \<noteq> 0 then sock_bad s e os
                   else let os = snd (os_call os); os = snd (os_call os) in
                     case os_call os of
                       (e, os) \<Rightarrow>
                         if e \<noteq> 0 then sock_bad s e os
                         else case os_call os of
                           (e, os) \<Rightarrow> if e \<noteq> 0 then sock_bad s e os else (Inr s, os))))"

definition kcn_socket_connect :: "sockaddr_storage \<Rightarrow> os \<Rightarrow> (int result \<times> os) option" where
  "kcn_socket_connect ss os =
     (case kcn_sockaddr_af2pf (ss_family ss) of
        Inl e \<Rightarrow> Some (Inl e, os)
      | Inr domain \<Rightarrow>
          (case os_new os of
             (Inl e, os) \<Rightarrow> Some (sock_bad (- 1) e os)
           | (Inr s, os) \<Rightarrow>
               (case kcn_socket_nonblock s os of
                  (Inl e, os) \<Rightarrow> Some (sock_bad s e os)
                | (Inr _, os) \<Rightarrow>
                    (case kcn_sockaddr_len ss of
                       Inl _ \<Rightarrow> None
                     | Inr sslen \<Rightarrow>
                         (case os_call os of
                            (e, os) \<Rightarrow>
                              Some (if e \<noteq> 0 \<and> e \<noteq> EINPROGRESS then sock_bad s e os else (Inr s, os)))))))"

text \<open>
  An interrupted \<open>accept\<close> is repeated.  \<open>peer\<close> is the address \<open>accept\<close> stores; \<open>name\<close> is \<^const>\<open>None\<close> for a
  null pointer.
\<close>

partial_function (option) accept_loop :: "os \<Rightarrow> (int result \<times> os) option" where
  "accept_loop os =
     (case os_new os of
        (Inl e, os) \<Rightarrow> if e \<noteq> EINTR then Some (Inl e, os) else accept_loop os
      | (Inr s, os) \<Rightarrow> Some (Inr s, os))"

definition kcn_socket_accept ::
  "namer \<Rightarrow> sockaddr_storage \<Rightarrow> string option \<Rightarrow> nat \<Rightarrow> os \<Rightarrow> (int result \<times> string option \<times> os) option" where
  "kcn_socket_accept texts peer name namelen os =
     (case accept_loop os of
        None \<Rightarrow> None
      | Some (Inl e, os) \<Rightarrow> (case sock_bad (- 1) e os of (r, os) \<Rightarrow> Some (r, name, os))
      | Some (Inr s, os) \<Rightarrow>
          (case kcn_socket_nonblock s os of
             (Inl e, os) \<Rightarrow> (case sock_bad s e os of (r, os) \<Rightarrow> Some (r, name, os))
           | (Inr _, os) \<Rightarrow>
               (case name of
                  None \<Rightarrow> Some (Inr s, None, os)
                | Some mem \<Rightarrow>
                    (case kcn_sockaddr_ntoa texts mem namelen peer of
                       None \<Rightarrow> None
                     | Some (_, mem) \<Rightarrow> Some (Inr s, Some mem, os)))))"

section \<open>Descriptors are not leaked\<close>

text \<open>
  What a call that makes a socket promises: with a result the table has exactly one more descriptor,
  which was free before, with the given flag; without one, the table is as it was.
\<close>

definition makes_fd :: "bool \<Rightarrow> os \<Rightarrow> int result \<Rightarrow> os \<Rightarrow> bool" where
  "makes_fd nonblock os r os' \<longleftrightarrow>
     (case r of
        Inl e \<Rightarrow> e \<noteq> 0 \<and> fd_of os' = fd_of os
      | Inr s \<Rightarrow> 0 \<le> s \<and> fd_of os (nat s) = None \<and> fd_of os' = (fd_of os)(nat s \<mapsto> nonblock))"

lemma makes_fd_cong: "fd_of os1 = fd_of os \<Longrightarrow> makes_fd b os1 r os' = makes_fd b os r os'"
  by (cases r) (simp_all add: makes_fd_def)

lemma os_call_cases: "os_call os = (e, os') \<Longrightarrow> fd_of os' = fd_of os \<and> os_fds os' = os_fds os"
  by (auto simp: os_call_def split: prod.splits)

lemma os_new_cases:
  assumes "os_new os = (r, os')"
  shows "makes_fd False os r os'"
  using assms os_call_cases [of os] lowest_free_free [of os]
  by (auto simp: os_new_def makes_fd_def Let_def split: prod.splits if_splits)

lemma nonblock_cases:
  assumes "kcn_socket_nonblock s os = (r, os')"
  shows "case r of Inl e \<Rightarrow> e \<noteq> 0 \<and> fd_of os' = fd_of os | Inr _ \<Rightarrow> fd_of os' = (fd_of os)(nat s \<mapsto> True)"
proof -
  obtain e1 os1 where 1: "os_call os = (e1, os1)" by (cases "os_call os")
  obtain e2 os2 where 2: "os_call os1 = (e2, os2)" by (cases "os_call os1")
  from assms os_call_cases [OF 1] os_call_cases [OF 2] show ?thesis
    by (auto simp: kcn_socket_nonblock_def 1 2 split: if_splits)
qed

lemma sock_bad_none: "sock_bad (- 1) e os = (Inl e, os)"
  by (simp add: sock_bad_def kcn_socket_close_def)

lemma sock_bad_closes:
  assumes "fd_of os' = (fd_of os)(nat s \<mapsto> b)" "0 \<le> s" "fd_of os (nat s) = None" "e \<noteq> 0"
  shows "makes_fd nb os (fst (sock_bad s e os')) (snd (sock_bad s e os'))"
  using assms by (simp add: sock_bad_def kcn_socket_close_def os_close_def makes_fd_def fun_upd_idem)

lemma listen_makes:
  assumes "domain = PF_INET \<or> domain = PF_INET6"
  shows "\<exists>r os'. kcn_socket_listen domain port os = Some (r, os') \<and> makes_fd False os r os'"
proof -
  from assms obtain ss sslen where
    i: "kcn_sockaddr_init (case kcn_sockaddr_pf2af domain of Inl _ \<Rightarrow> 2 ^ 16 - 1 | Inr family \<Rightarrow> family) port = Inr (ss, sslen)"
    by (auto simp: kcn_sockaddr_pf2af_def kcn_sockaddr_init_def)
  obtain r1 os1 where 1: "os_new os = (r1, os1)" by (cases "os_new os")
  show ?thesis
  proof (cases r1)
    case (Inl e)
    with i 1 os_new_cases [OF 1] show ?thesis by (simp add: kcn_socket_listen_def sock_bad_none makes_fd_def)
  next
    case (Inr s)
    with os_new_cases [OF 1] have s: "0 \<le> s" "fd_of os (nat s) = None" and m: "fd_of os1 = (fd_of os)(nat s \<mapsto> False)"
      by (simp_all add: makes_fd_def)
    obtain e2 os2 where 2: "(if domain = PF_INET6 then os_call os1 else (0, os1)) = (e2, os2)"
      by (cases "if domain = PF_INET6 then os_call os1 else (0, os1)")
    obtain e3 os3 where 3: "os_call os2 = (e3, os3)" by (cases "os_call os2")
    obtain e4 os4 where 4: "os_call os3 = (e4, os4)" by (cases "os_call os3")
    obtain e5 os5 where 5: "os_call os4 = (e5, os5)" by (cases "os_call os4")
    obtain e6 os6 where 6: "os_call os5 = (e6, os6)" by (cases "os_call os5")
    from 2 os_call_cases [of os1] have "fd_of os2 = fd_of os1" by (auto split: if_splits)
    with os_call_cases [OF 3] os_call_cases [OF 4] os_call_cases [OF 5] os_call_cases [OF 6] m have
      f: "fd_of os2 = (fd_of os)(nat s \<mapsto> False)" "fd_of os5 = (fd_of os)(nat s \<mapsto> False)"
         "fd_of os6 = (fd_of os)(nat s \<mapsto> False)" by simp_all
    have r: "kcn_socket_listen domain port os = Some (if e2 \<noteq> 0 then sock_bad s e2 os2 else if e5 \<noteq> 0 then sock_bad s e5 os5
        else if e6 \<noteq> 0 then sock_bad s e6 os6 else (Inr s, os6))"
      using i 1 Inr 2 by (simp add: kcn_socket_listen_def 3 4 5 6)
    show ?thesis
      using sock_bad_closes [OF f(1) s, of e2 False] sock_bad_closes [OF f(2) s, of e5 False]
        sock_bad_closes [OF f(3) s, of e6 False] s f(3)
      by (cases "e2 = 0"; cases "e5 = 0"; cases "e6 = 0") (auto simp: r makes_fd_def prod_eq_iff)
  qed
qed

lemma connect_makes:
  "\<exists>r os'. kcn_socket_connect ss os = Some (r, os') \<and> makes_fd True os r os'"
proof (cases "kcn_sockaddr_af2pf (ss_family ss)")
  case (Inl e)
  then show ?thesis by (auto simp: kcn_socket_connect_def makes_fd_def kcn_sockaddr_af2pf_def split: if_splits)
next
  case (Inr domain)
  then obtain len where len: "kcn_sockaddr_len ss = Inr len"
    by (auto simp: kcn_sockaddr_af2pf_def kcn_sockaddr_len_def split: if_splits)
  obtain r1 os1 where 1: "os_new os = (r1, os1)" by (cases "os_new os")
  show ?thesis
  proof (cases r1)
    case (Inl e)
    with Inr 1 os_new_cases [OF 1] show ?thesis by (simp add: kcn_socket_connect_def sock_bad_none makes_fd_def)
  next
    case s: (Inr s)
    with os_new_cases [OF 1] have s': "0 \<le> s" "fd_of os (nat s) = None" and m: "fd_of os1 = (fd_of os)(nat s \<mapsto> False)"
      by (simp_all add: makes_fd_def)
    obtain r2 os2 where 2: "kcn_socket_nonblock s os1 = (r2, os2)" by (cases "kcn_socket_nonblock s os1")
    show ?thesis
    proof (cases r2)
      case e: (Inl e)
      with nonblock_cases [OF 2] m have "e \<noteq> 0" "fd_of os2 = (fd_of os)(nat s \<mapsto> False)" by simp_all
      note b = sock_bad_closes [OF this(2) s' this(1), of True]
      have "kcn_socket_connect ss os = Some (sock_bad s e os2)"
        using Inr 1 s 2 e by (simp add: kcn_socket_connect_def)
      with b show ?thesis by (auto simp: prod_eq_iff)
    next
      case u: (Inr u)
      obtain e3 os3 where 3: "os_call os2 = (e3, os3)" by (cases "os_call os2")
      from nonblock_cases [OF 2] u m os_call_cases [OF 3] have f: "fd_of os3 = (fd_of os)(nat s \<mapsto> True)" by simp
      have r: "kcn_socket_connect ss os = Some (if e3 \<noteq> 0 \<and> e3 \<noteq> EINPROGRESS then sock_bad s e3 os3 else (Inr s, os3))"
        using Inr 1 s 2 u len 3 by (simp add: kcn_socket_connect_def)
      show ?thesis
      proof (cases "e3 \<noteq> 0 \<and> e3 \<noteq> EINPROGRESS")
        case True
        then show ?thesis using sock_bad_closes [OF f s', of e3 True] by (auto simp: r prod_eq_iff)
      next
        case False
        then show ?thesis using f s' by (auto simp: r makes_fd_def)
      qed
    qed
  qed
qed

lemma accept_loop_makes: "\<exists>r os'. accept_loop os = Some (r, os') \<and> makes_fd False os r os'"
proof (induction "length (os_sys os)" arbitrary: os rule: less_induct)
  case less
  obtain r1 os1 where 1: "os_new os = (r1, os1)" by (cases "os_new os")
  show ?case
  proof (cases "r1 = Inl EINTR")
    case False
    with os_new_cases [OF 1] show ?thesis
      by (subst accept_loop.simps) (auto simp: 1 split: sum.splits)
  next
    case True
    with 1 have "length (os_sys os1) < length (os_sys os)"
      by (cases "os_sys os") (auto simp: os_new_def os_call_def Let_def split: if_splits)
    from True os_new_cases [OF 1] have "fd_of os1 = fd_of os" by (simp add: makes_fd_def)
    note c = makes_fd_cong [OF this]
    from True have "accept_loop os = accept_loop os1" by (subst accept_loop.simps) (simp add: 1)
    with less [OF \<open>length (os_sys os1) < length (os_sys os)\<close>] show ?thesis unfolding c by simp
  qed
qed

section \<open>Names of peers\<close>

text \<open>
  A block of \<open>KCN_SOCKNAMELEN\<close> bytes takes the longest numeric host (45 characters) and port.  A longer
  host that just fits the block makes \<open>strlcat\<close> write behind it.
\<close>

definition numeric_names :: "namer \<Rightarrow> bool" where
  "numeric_names texts \<longleftrightarrow> (\<forall>ss host serv. texts ss = Some (host, serv) \<longrightarrow>
     length host \<le> 45 \<and> length serv \<le> 5 \<and> NUL \<notin> set host \<and> NUL \<notin> set serv)"

lemma sockaddr_ntoa_ok:
  assumes "numeric_names texts" "length name = 52"
  shows "\<exists>ok name'. kcn_sockaddr_ntoa texts name 52 ss = Some (ok, name') \<and> length name' = 52 \<and>
    (if ok then \<exists>host serv. texts ss = Some (host, serv) \<and> c_str name' = Some (host @ CHR ''/'' # serv)
     else c_str name' = Some [])"
proof (cases "getnameinfo texts ss 52 8")
  case None
  with assms(2) show ?thesis by (cases name) (auto simp: kcn_sockaddr_ntoa_def c_str_def)
next
  case (Some hs)
  then obtain host serv where hs: "hs = (host, serv)" "texts ss = Some (host, serv)"
    by (auto simp: getnameinfo_def split: sum.splits option.splits if_splits prod.splits)
  with assms(1) have b: "length host \<le> 45" "length serv \<le> 5" "NUL \<notin> set host" "NUL \<notin> set serv"
    by (auto simp: numeric_names_def)
  let ?post = "drop (length host + 1) name" and ?t = "CHR ''/'' # serv"
  have w: "list_write 0 (host @ [NUL]) name = host @ NUL # ?post" by (simp add: list_write_def)
  have "strncat (host @ NUL # ?post) ?t 52 = Some (host @ ?t @ NUL # drop (length ?t) ?post)"
    by (rule strncat_block) (use b assms(2) in simp_all)
  moreover have "c_str ((host @ ?t @ NUL # drop (length ?t) ?post)[51 := NUL]) = Some (host @ ?t)"
  proof -
    let ?r = "drop (length ?t) ?post"
    have "\<not> 51 < length (host @ ?t)" using b by simp
    then have "(host @ ?t @ NUL # ?r)[51 := NUL] = (host @ ?t) @ (NUL # ?r)[51 - length (host @ ?t) := NUL]"
      using list_update_append [of "host @ ?t" "NUL # ?r" 51 NUL] by (simp only: append_assoc if_False)
    moreover have "\<exists>r'. (NUL # ?r)[n := NUL] = NUL # r'" for n by (cases n) auto
    moreover have "NUL \<notin> set (host @ ?t)" using b by auto
    ultimately show ?thesis by (metis c_str_block)
  qed
  ultimately show ?thesis
    using Some hs b assms(2)
    by (intro exI [of _ True] exI [of _ "(host @ ?t @ NUL # drop (length ?t) ?post)[51 := NUL]"])
      (simp add: kcn_sockaddr_ntoa_def w strlcat_def)
qed

lemma accept_makes:
  assumes "numeric_names texts" "name = None \<or> name = Some mem \<and> length mem = 52"
  shows "\<exists>r name' os'. kcn_socket_accept texts peer name 52 os = Some (r, name', os') \<and> makes_fd True os r os'"
proof -
  from accept_loop_makes [of os] obtain r1 os1 where 1: "accept_loop os = Some (r1, os1)" "makes_fd False os r1 os1" by blast
  show ?thesis
  proof (cases r1)
    case (Inl e)
    with 1 show ?thesis by (simp add: kcn_socket_accept_def sock_bad_none makes_fd_def)
  next
    case s: (Inr s)
    with 1 have s': "0 \<le> s" "fd_of os (nat s) = None" and m: "fd_of os1 = (fd_of os)(nat s \<mapsto> False)"
      by (simp_all add: makes_fd_def)
    obtain r2 os2 where 2: "kcn_socket_nonblock s os1 = (r2, os2)" by (cases "kcn_socket_nonblock s os1")
    show ?thesis
    proof (cases r2)
      case e: (Inl e)
      with nonblock_cases [OF 2] m have "e \<noteq> 0" "fd_of os2 = (fd_of os)(nat s \<mapsto> False)" by simp_all
      note b = sock_bad_closes [OF this(2) s' this(1), of True]
      then show ?thesis using 1 s 2 e by (auto simp: kcn_socket_accept_def split: prod.splits)
    next
      case u: (Inr u)
      with nonblock_cases [OF 2] m have f: "makes_fd True os (Inr s) os2" using s' by (simp add: makes_fd_def)
      show ?thesis
      proof (cases name)
        case None
        with 1 s 2 u f show ?thesis by (simp add: kcn_socket_accept_def)
      next
        case (Some m)
        with assms(2) have "length m = 52" by auto
        from sockaddr_ntoa_ok [OF assms(1) this, of peer] obtain ok m' where
          "kcn_sockaddr_ntoa texts m 52 peer = Some (ok, m')" by blast
        with 1 s 2 u f Some show ?thesis by (simp add: kcn_socket_accept_def)
      qed
    qed
  qed
qed

section \<open>The properties\<close>

text \<open>
  C27. Whatever the results of the system calls are, and however often \<open>accept\<close> is interrupted, the
  functions that make sockets return and leak no descriptor: when they succeed, the table of the process has
  one more descriptor, non-blocking for a connection, and when they fail, none more than before.
\<close>

theorem sockets_do_not_leak:
  assumes "numeric_names texts" "length mem = 52" "domain = PF_INET \<or> domain = PF_INET6"
  shows "(\<exists>r os'. kcn_socket_listen domain port os = Some (r, os') \<and> makes_fd False os r os') \<and>
    (\<exists>r os'. kcn_socket_connect ss os = Some (r, os') \<and> makes_fd True os r os') \<and>
    (\<exists>r name' os'. kcn_socket_accept texts ss (Some mem) 52 os = Some (r, name', os') \<and> makes_fd True os r os')"
  using listen_makes [OF assms(3)] connect_makes accept_makes [OF assms(1), of "Some mem" mem] assms(2) by blast

theorem sockets_do_not_leak_witness:
  "(\<exists>r os'. kcn_socket_listen PF_INET6 80 \<lparr>os_fds = [Some False], os_sys = [0, 0, 0, 0, 98]\<rparr> = Some (r, os') \<and>
      makes_fd False \<lparr>os_fds = [Some False], os_sys = [0, 0, 0, 0, 98]\<rparr> r os') \<and>
    (\<exists>r name' os'. kcn_socket_accept (\<lambda>_. Some (''::1'', ''80'')) \<lparr>ss_family = AF_INET6, ss_port = 80, ss_rest = []\<rparr>
        (Some (replicate 52 NUL)) 52 \<lparr>os_fds = [], os_sys = [EINTR]\<rparr> = Some (r, name', os') \<and>
      makes_fd True \<lparr>os_fds = [], os_sys = [EINTR]\<rparr> r os')"
proof -
  have n: "numeric_names (\<lambda>_. Some (''::1'', ''80''))" by (simp add: numeric_names_def)
  have l: "length (replicate 52 NUL) = 52" by simp
  show ?thesis
    using sockets_do_not_leak [OF n l, of PF_INET6 80 "\<lparr>os_fds = [Some False], os_sys = [0, 0, 0, 0, 98]\<rparr>"
        "\<lparr>ss_family = AF_INET6, ss_port = 80, ss_rest = []\<rparr>"]
      sockets_do_not_leak [OF n l, of PF_INET6 80 "\<lparr>os_fds = [], os_sys = [EINTR]\<rparr>"
        "\<lparr>ss_family = AF_INET6, ss_port = 80, ss_rest = []\<rparr>"] by auto
qed

text \<open>A domain that is not supported makes \<open>kcn_socket_listen\<close> use a variable it has not set.\<close>

lemma listen_unsupported: "domain \<noteq> PF_INET \<Longrightarrow> domain \<noteq> PF_INET6 \<Longrightarrow> kcn_socket_listen domain port os = None"
  by (simp add: kcn_socket_listen_def kcn_sockaddr_pf2af_def kcn_sockaddr_init_def)

end
