(* ===== verification/Kcndb_Daemon.thy ===== *)
theory Kcndb_Daemon
  imports Kcndb_Threads Kcn_Socket
begin

text \<open>
  \<^verbatim>\<open>kcndbd/kcndb_server.c\<close>: the listening socket, the threads of the daemon and their sessions, and the
  end of a database handle in \<^verbatim>\<open>kcndb_db.c\<close>.

  A thread is in one of the places \<open>thread_at\<close> of \<open>kcndb_server_main\<close> and \<open>kcndb_server_session\<close>; what it
  does from one place to the next is one function, and \<open>thread_step\<close> is the relation of these
  steps for all outcomes of system calls and of the allocation.  The threads share the table of
  descriptors, the sizes and locks of the tables, and the files.
\<close>

section \<open>Systems of threads\<close>

inductive threads_step :: "('t \<times> 's \<Rightarrow> 't \<times> 's \<Rightarrow> bool) \<Rightarrow> 't list \<times> 's \<Rightarrow> 't list \<times> 's \<Rightarrow> bool"
  for step where
  one_thread: "i < length ts \<Longrightarrow> step (ts ! i, s) (t', s') \<Longrightarrow> threads_step step (ts, s) (ts[i := t'], s')"

inductive threads_reach :: "('t \<times> 's \<Rightarrow> 't \<times> 's \<Rightarrow> bool) \<Rightarrow> 't list \<times> 's \<Rightarrow> 't list \<times> 's \<Rightarrow> bool"
  for step s0 where
  reach_start: "threads_reach step s0 s0"
| reach_step: "threads_reach step s0 s \<Longrightarrow> threads_step step s s' \<Longrightarrow> threads_reach step s0 s'"

text \<open>
  Every resource that is in use is one of \<open>base\<close> or belongs to exactly one thread.
\<close>

definition own_inv ::
  "('t \<Rightarrow> nat set) \<Rightarrow> ('s \<Rightarrow> nat set) \<Rightarrow> ('t \<Rightarrow> bool) \<Rightarrow> nat set \<Rightarrow> 't list \<times> 's \<Rightarrow> bool" where
  "own_inv owns used good base s \<longleftrightarrow>
     (\<forall>i < length (fst s). good (fst s ! i) \<and> owns (fst s ! i) \<inter> base = {}) \<and>
     (\<forall>i < length (fst s). \<forall>j < length (fst s). i \<noteq> j \<longrightarrow> owns (fst s ! i) \<inter> owns (fst s ! j) = {}) \<and>
     used (snd s) = base \<union> (\<Union>i < length (fst s). owns (fst s ! i))"

text \<open>
  The contract of a step: a thread gives up what it owns, or a part of it, and takes only what is not in use;
  the rest is untouched.
\<close>

locale exclusive_owner =
  fixes step :: "'t \<times> 's \<Rightarrow> 't \<times> 's \<Rightarrow> bool"
    and owns :: "'t \<Rightarrow> nat set"
    and used :: "'s \<Rightarrow> nat set"
    and good :: "'t \<Rightarrow> bool"
  assumes step_owns: "step (t, s) (t', s') \<Longrightarrow> good t \<Longrightarrow> owns t \<subseteq> used s \<Longrightarrow>
      good t' \<and> used s' = (used s - owns t) \<union> owns t' \<and> owns t' \<inter> (used s - owns t) = {}"
begin

lemma step_own_inv:
  assumes "threads_step step s s'" "own_inv owns used good base s"
  shows "own_inv owns used good base s'"
  using assms
proof (induction rule: threads_step.induct)
  case (one_thread i ts s t' s')
  from one_thread.prems have g: "\<forall>k < length ts. good (ts ! k) \<and> owns (ts ! k) \<inter> base = {}"
    and d: "\<forall>k < length ts. \<forall>j < length ts. k \<noteq> j \<longrightarrow> owns (ts ! k) \<inter> owns (ts ! j) = {}"
    and u: "used s = base \<union> (\<Union>k < length ts. owns (ts ! k))" by (simp_all add: own_inv_def)
  from u one_thread.hyps(1) have "owns (ts ! i) \<subseteq> used s" by blast
  with step_owns [OF one_thread.hyps(2)] g one_thread.hyps(1) have
    n: "good t'" "used s' = (used s - owns (ts ! i)) \<union> owns t'" "owns t' \<inter> (used s - owns (ts ! i)) = {}" by blast+
  have rest: "used s - owns (ts ! i) = base \<union> (\<Union>k \<in> {..< length ts} - {i}. owns (ts ! k))"
  proof -
    have "used s = base \<union> (\<Union>k \<in> {..< length ts} - {i}. owns (ts ! k)) \<union> owns (ts ! i)"
      using u one_thread.hyps(1) by auto
    moreover have "owns (ts ! i) \<inter> (base \<union> (\<Union>k \<in> {..< length ts} - {i}. owns (ts ! k))) = {}"
      using g d [rule_format, OF one_thread.hyps(1)] one_thread.hyps(1) by blast
    ultimately show ?thesis by blast
  qed
  have own: "owns (ts[i := t'] ! k) = (if k = i then owns t' else owns (ts ! k))" if "k < length ts" for k
    using that by simp
  have o: "owns t' \<inter> base = {}" "\<forall>k < length ts. k \<noteq> i \<longrightarrow> owns t' \<inter> owns (ts ! k) = {}"
    using n(3) rest by blast+
  have all: "(\<Union>k < length ts. owns (ts[i := t'] ! k)) = owns t' \<union> (\<Union>k \<in> {..< length ts} - {i}. owns (ts ! k))"
    using one_thread.hyps(1) own by (auto split: if_splits)
  have "good (ts[i := t'] ! k) \<and> owns (ts[i := t'] ! k) \<inter> base = {}" if "k < length ts" for k
    using that g n(1) o(1) by (cases "k = i") simp_all
  moreover have "owns (ts[i := t'] ! k) \<inter> owns (ts[i := t'] ! j) = {}"
    if "k < length ts" "j < length ts" "k \<noteq> j" for k j
  proof -
    consider "k = i" | "j = i" | "k \<noteq> i" "j \<noteq> i" by blast
    then show ?thesis
    proof cases
      case 1
      with o(2) that show ?thesis by simp
    next
      case 2
      with o(2) that have "owns t' \<inter> owns (ts ! k) = {}" by simp
      with 2 that show ?thesis by (simp add: Int_commute)
    next
      case 3
      with d that show ?thesis by simp
    qed
  qed
  moreover have "used s' = base \<union> (\<Union>k < length ts. owns (ts[i := t'] ! k))"
    unfolding all n(2) rest by blast
  ultimately show ?case by (simp add: own_inv_def)
qed

lemma reach_own_inv:
  assumes "threads_reach step s0 s" "own_inv owns used good base s0"
  shows "own_inv owns used good base s"
  using assms by (induction rule: threads_reach.induct) (use step_own_inv in blast)+

end

section \<open>State\<close>

definition KCN_HTONS :: "uint16 \<Rightarrow> uint16" where
  "KCN_HTONS v = (push_bit 8 v AND 0xff00) OR (drop_bit 8 v AND 0xff)"

datatype kcndb_thread_status = KCNDB_THREAD_STATUS_DEAD | KCNDB_THREAD_STATUS_RUN

text \<open>
  \<open>At_session fd\<close>: a connection was accepted; \<open>At_loop fd kn\<close>: in \<open>kcn_net_loop\<close>; \<open>At_close fd\<close>: before the
  call of \<open>kcn_socket_close\<close> after a failure of \<open>kcn_net_new\<close>.
\<close>

datatype thread_at =
  At_idle | At_start | At_accept | At_session int | At_loop int kcn_net | At_close int | At_out

text \<open>
  The descriptors of a handle's files, per table: the one of the locator file and the one of the records; \<^const>\<open>None\<close>
  for a table pointer that is null.  \<open>kt_name\<close> is the local block \<open>name\<close> of \<open>kcndb_server_main\<close>.
\<close>

type_synonym table_fds = "(nat \<times> nat) option list"

record server_thread =
  kt_status :: kcndb_thread_status
  kt_number :: uint16
  kt_listenfd :: int
  kt_evb :: bool
  kt_db :: "(kcndb_db \<times> table_fds) option"
  kt_name :: string
  kt_at :: thread_at

record shared =
  sh_os :: os
  sh_bases :: "kcndb_db_base list"
  sh_files :: "table_files list"

record kcndbd =
  d_shared :: shared
  d_socket :: int
  d_port :: uint16
  d_threads :: "server_thread list"

abbreviation (input) KCNDB_SERVER_NWORKERS :: nat where "KCNDB_SERVER_NWORKERS \<equiv> 8"
abbreviation (input) KCNDB_THREAD_NUMBER_MAIN :: nat where "KCNDB_THREAD_NUMBER_MAIN \<equiv> 0"

definition kcndb_server_threads :: "server_thread list" where
  "kcndb_server_threads = replicate KCNDB_SERVER_NWORKERS
     \<lparr>kt_status = KCNDB_THREAD_STATUS_DEAD, kt_number = 0, kt_listenfd = 0, kt_evb = False, kt_db = None,
      kt_name = replicate 52 NUL, kt_at = At_idle\<rparr>"

definition kcndbd_init :: "shared \<Rightarrow> kcndbd" where
  "kcndbd_init sh = \<lparr>d_shared = sh, d_socket = - 1, d_port = KCN_HTONS 9410, d_threads = kcndb_server_threads\<rparr>"

section \<open>Starting and stopping\<close>

definition kcndb_server_port_set :: "uint16 \<Rightarrow> kcndbd \<Rightarrow> kcndbd option" where
  "kcndb_server_port_set port d = do {
     c_assert (port \<ge> 1);
     Some (d\<lparr>d_port := KCN_HTONS port\<rparr>)
   }"

definition kcndb_thread_init :: "nat \<Rightarrow> kcndbd \<Rightarrow> kcndbd" where
  "kcndb_thread_init n d = d\<lparr>d_threads := (d_threads d)[n := (d_threads d ! n)
     \<lparr>kt_number := of_nat n, kt_listenfd := d_socket d, kt_evb := False\<rparr>]\<rparr>"

text \<open>A thread that \<open>pthread_create\<close> has made is at the beginning of \<open>kcndb_server_main\<close>.\<close>

definition thread_run :: "nat \<Rightarrow> kcndbd \<Rightarrow> kcndbd" where
  "thread_run n d = d\<lparr>d_threads := (d_threads d)[n := (d_threads d ! n)
     \<lparr>kt_status := KCNDB_THREAD_STATUS_RUN, kt_at := At_start\<rparr>]\<rparr>"

definition kcndb_server_stop :: "kcndbd \<Rightarrow> kcndbd" where
  "kcndb_server_stop d =
     (case kcn_socket_close (d_socket d) (sh_os (d_shared d)) of
        (s, os) \<Rightarrow> d\<lparr>d_socket := s, d_shared := (d_shared d)\<lparr>sh_os := os\<rparr>\<rparr>)"

text \<open>The loop over the workers with \<open>n\<close> of them left; \<open>errs\<close> are the results of \<open>pthread_create\<close>.\<close>

fun server_workers :: "nat \<Rightarrow> errno list \<Rightarrow> kcndbd \<Rightarrow> bool \<times> kcndbd" where
  "server_workers 0 errs d = (True, d)"
| "server_workers (Suc n) errs d =
     (let i = KCNDB_SERVER_NWORKERS - Suc n; d = kcndb_thread_init i d in
      case next_errno errs of
        (e, errs) \<Rightarrow> if e \<noteq> 0 then (False, d) else server_workers n errs (thread_run i d))"

definition kcndb_server_start :: "errno list \<Rightarrow> kcndbd \<Rightarrow> (bool \<times> kcndbd) option" where
  "kcndb_server_start errs d = do {
     c_assert (d_socket d = - 1);
     (r, os) \<leftarrow> kcn_socket_listen PF_INET6 (d_port d) (sh_os (d_shared d));
     d \<leftarrow> Some (d\<lparr>d_shared := (d_shared d)\<lparr>sh_os := os\<rparr>, d_socket := (case r of Inl _ \<Rightarrow> - 1 | Inr s \<Rightarrow> s)\<rparr>);
     (rc, d) \<leftarrow> Some (case r of Inl _ \<Rightarrow> (False, d) | Inr _ \<Rightarrow> server_workers (KCNDB_SERVER_NWORKERS - 1) errs d);
     Some (if rc then (True, d) else (False, kcndb_server_stop d))
   }"

text \<open>The calling thread becomes one of the threads.\<close>

definition kcndb_server_loop :: "kcndbd \<Rightarrow> kcndbd" where
  "kcndb_server_loop d = thread_run KCNDB_THREAD_NUMBER_MAIN (kcndb_thread_init KCNDB_THREAD_NUMBER_MAIN d)"

section \<open>Handles\<close>

definition kcndb_db_table_close :: "nat \<times> nat \<Rightarrow> os \<Rightarrow> os" where
  "kcndb_db_table_close fds os = snd (os_close (int (snd fds)) (snd (os_close (int (fst fds)) os)))"

fun kcndb_db_destroy :: "table_fds \<Rightarrow> os \<Rightarrow> table_fds \<times> os" where
  "kcndb_db_destroy [] os = ([], os)"
| "kcndb_db_destroy (None # ts) os = (None # ts, os)"
| "kcndb_db_destroy (Some t # ts) os =
     (case kcndb_db_destroy ts (kcndb_db_table_close t os) of (ts, os) \<Rightarrow> (None # ts, os))"

text \<open>The descriptors that \<open>open\<close> gives to the files of \<open>n\<close> tables.\<close>

fun open_tables :: "nat \<Rightarrow> os \<Rightarrow> table_fds \<times> os" where
  "open_tables 0 os = ([], os)"
| "open_tables (Suc n) os =
     (let l = lowest_free (os_fds os); os = os_set l (Some False) os;
          t = lowest_free (os_fds os); os = os_set t (Some False) os in
      case open_tables n os of (ts, os) \<Rightarrow> (Some (l, t) # ts, os))"

section \<open>The threads\<close>

definition kcndb_thread_finish :: "server_thread \<times> shared \<Rightarrow> server_thread \<times> shared" where
  "kcndb_thread_finish s =
     (case s of (kt, sh) \<Rightarrow>
        case kt_db kt of
          None \<Rightarrow> (kt\<lparr>kt_at := At_out\<rparr>, sh)
        | Some (kd, fds) \<Rightarrow>
            (case kcndb_db_destroy fds (sh_os sh) of
               (fds, os) \<Rightarrow> (kt\<lparr>kt_db := Some (kd, fds), kt_at := At_out\<rparr>, sh\<lparr>sh_os := os\<rparr>)))"

text \<open>
  From the start of \<open>kcndb_server_main\<close> to its loop: \<open>evb\<close> says whether \<open>event_init\<close> succeeds.  A handle
  that cannot be made leaves no descriptor open.
\<close>

definition kcndb_server_main_start ::
  "bool \<Rightarrow> kcndb_env \<Rightarrow> string \<Rightarrow> server_thread \<times> shared \<Rightarrow> (server_thread \<times> shared) option" where
  "kcndb_server_main_start evb env path s =
     (case s of (kt, sh) \<Rightarrow> do {
        (r, bases) \<leftarrow> kcndb_db_new env path (sh_bases sh);
        (kt, sh) \<leftarrow> Some (case r of
            Inl e \<Rightarrow> (kt\<lparr>kt_evb := evb, kt_db := None\<rparr>, sh\<lparr>sh_bases := bases\<rparr>)
          | Inr kd \<Rightarrow>
              (case open_tables (length kd) (sh_os sh) of
                 (fds, os) \<Rightarrow> (kt\<lparr>kt_evb := evb, kt_db := Some (kd, fds)\<rparr>,
                   sh\<lparr>sh_os := os, sh_bases := bases, sh_files := map files_of kd\<rparr>)));
        Some (if \<not> evb \<or> kt_db kt = None then kcndb_thread_finish (kt, sh) else (kt\<lparr>kt_at := At_accept\<rparr>, sh))
      })"

text \<open>One turn of the loop up to the session; a failed \<open>accept\<close> is tried again.\<close>

definition kcndb_server_main_accept ::
  "namer \<Rightarrow> sockaddr_storage \<Rightarrow> server_thread \<times> shared \<Rightarrow> (server_thread \<times> shared) option" where
  "kcndb_server_main_accept texts peer s =
     (case s of (kt, sh) \<Rightarrow> do {
        (r, name, os) \<leftarrow> kcn_socket_accept texts peer (Some (kt_name kt)) KCN_SOCKNAMELEN (sh_os sh);
        kt \<leftarrow> Some (kt\<lparr>kt_name := (case name of None \<Rightarrow> kt_name kt | Some name \<Rightarrow> name)\<rparr>);
        Some (case r of
            Inl e \<Rightarrow> (kt\<lparr>kt_at := At_accept\<rparr>, sh\<lparr>sh_os := os\<rparr>)
          | Inr fd \<Rightarrow> (kt\<lparr>kt_at := At_session fd\<rparr>, sh\<lparr>sh_os := os\<rparr>))
      })"

text \<open>
  The beginning of \<open>kcndb_server_session\<close>.  When \<open>kcn_net_new\<close> fails after it has allocated the structure
  (\<open>kn_new\<close>), \<open>kcn_net_destroy\<close> has closed the descriptor.
\<close>

definition kcndb_server_session ::
  "bool \<Rightarrow> allocator \<Rightarrow> bool \<Rightarrow> errno list \<Rightarrow> sock \<Rightarrow> int \<Rightarrow> server_thread \<times> shared \<Rightarrow>
   (server_thread \<times> shared) option" where
  "kcndb_server_session kn_new malloc base_set everrs sk fd s =
     (case s of (kt, sh) \<Rightarrow> do {
        name \<leftarrow> c_str (kt_name kt);
        kn \<leftarrow> kcn_net_new kn_new malloc base_set everrs sk KCN_MSG_MAXSIZ name;
        (case kn of
           None \<Rightarrow> Some (kt\<lparr>kt_at := At_close fd\<rparr>,
             if kn_new then sh\<lparr>sh_os := snd (kcn_socket_close fd (sh_os sh))\<rparr> else sh)
         | Some kn \<Rightarrow> do {
             (_, kn) \<leftarrow> kcn_net_read_enable kn;
             Some (kt\<lparr>kt_at := At_loop fd kn\<rparr>, sh)
           })
      })"

definition session_failed :: "int \<Rightarrow> server_thread \<times> shared \<Rightarrow> server_thread \<times> shared" where
  "session_failed fd s =
     (case s of (kt, sh) \<Rightarrow> (kt\<lparr>kt_at := At_accept\<rparr>, sh\<lparr>sh_os := snd (kcn_socket_close fd (sh_os sh))\<rparr>))"

text \<open>An operation on a connection that closes its descriptor.\<close>

definition net_close :: "int \<Rightarrow> kcn_net \<Rightarrow> kcn_net \<Rightarrow> os \<Rightarrow> os" where
  "net_close fd kn kn' os = (if kn_fd kn \<noteq> None \<and> kn_fd kn' = None then snd (kcn_socket_close fd os) else os)"

text \<open>The end of \<open>kcndb_server_session\<close>, when \<open>kcn_net_loop\<close> has returned.\<close>

definition session_end :: "int \<Rightarrow> kcn_net \<Rightarrow> server_thread \<times> shared \<Rightarrow> (server_thread \<times> shared) option" where
  "session_end fd kn s =
     (case s of (kt, sh) \<Rightarrow> do {
        kn' \<leftarrow> kcn_net_destroy kn;
        Some (kt\<lparr>kt_at := At_accept\<rparr>, sh\<lparr>sh_os := net_close fd kn kn' (sh_os sh)\<rparr>)
      })"

text \<open>What a thread opens is what the files hold.\<close>

definition env_shows :: "kcndb_env \<Rightarrow> string \<Rightarrow> table_files list \<Rightarrow> bool" where
  "env_shows env path files \<longleftrightarrow> (\<forall>i < length files. \<forall>name fd. kcn_eq_type_ntoa (of_nat (Suc i)) = Inr name \<longrightarrow>
     (env_open env (snprintf_path (path @ ''/'' @ name)) = Inr fd \<longrightarrow> fd_data fd = fst (files ! i)) \<and>
     (env_open env (snprintf_path (path @ ''/'' @ name @ ''-loc'')) = Inr fd \<longrightarrow> fd_data fd = snd (files ! i)))"

definition with_sys :: "errno list \<Rightarrow> shared \<Rightarrow> shared" where
  "with_sys sys sh = sh\<lparr>sh_os := (sh_os sh)\<lparr>os_sys := sys\<rparr>\<rparr>"

text \<open>
  The steps of a thread.  \<open>late\<close> allows that \<open>kcn_net_new\<close> fails after its structure was allocated.
\<close>

inductive thread_step :: "bool \<Rightarrow> server_thread \<times> shared \<Rightarrow> server_thread \<times> shared \<Rightarrow> bool" for late where
  th_start: "kt_at kt = At_start \<Longrightarrow> env_shows env path (sh_files sh) \<Longrightarrow>
    kcndb_server_main_start evb env path (kt, sh) = Some s \<Longrightarrow> thread_step late (kt, sh) s"
| th_accept: "kt_at kt = At_accept \<Longrightarrow> numeric_names texts \<Longrightarrow>
    kcndb_server_main_accept texts peer (kt, with_sys sys sh) = Some s \<Longrightarrow> thread_step late (kt, sh) s"
| th_session: "kt_at kt = At_session fd \<Longrightarrow> alloc_ok malloc \<Longrightarrow>
    kcndb_server_session kn_new malloc base_set everrs sk fd (kt, sh) = Some s \<Longrightarrow>
    late \<or> \<not> kn_new \<or> kt_at (fst s) \<noteq> At_close fd \<Longrightarrow> thread_step late (kt, sh) s"
| th_failed: "kt_at kt = At_close fd \<Longrightarrow> thread_step late (kt, sh) (session_failed fd (kt, sh))"
| th_event: "kt_at kt = At_loop fd kn \<Longrightarrow> kt_db kt = Some (kd, fds) \<Longrightarrow> alloc_ok malloc \<Longrightarrow>
    net_step (kcndb_server_recv malloc now) (kn, (sh_bases sh, map2 attach_table (sh_files sh) kd)) (kn', (bases, kd')) \<Longrightarrow>
    thread_step late (kt, sh)
      (kt\<lparr>kt_at := At_loop fd kn', kt_db := Some (kd', fds)\<rparr>,
       sh\<lparr>sh_os := net_close fd kn kn' (sh_os sh), sh_bases := bases, sh_files := map files_of kd'\<rparr>)"
| th_end: "kt_at kt = At_loop fd kn \<Longrightarrow> session_end fd kn (kt, sh) = Some s \<Longrightarrow> thread_step late (kt, sh) s"

inductive_cases thread_stepE [consumes 1, case_names start accept session failed event ended]:
  "thread_step late (kt, sh) s"

section \<open>Descriptors and their owners\<close>

definition open_fds :: "os \<Rightarrow> nat set" where
  "open_fds os = {n. fd_of os n \<noteq> None}"

fun fds_set :: "table_fds \<Rightarrow> nat set" where
  "fds_set [] = {}"
| "fds_set (None # ts) = {}"
| "fds_set (Some (l, t) # ts) = {l, t} \<union> fds_set ts"

definition thread_fds :: "server_thread \<Rightarrow> nat set" where
  "thread_fds kt =
     (case kt_at kt of
        At_session fd \<Rightarrow> {nat fd}
      | At_close fd \<Rightarrow> {nat fd}
      | At_loop fd kn \<Rightarrow> if kn_fd kn = None then {} else {nat fd}
      | _ \<Rightarrow> {}) \<union>
     (case kt_db kt of None \<Rightarrow> {} | Some (kd, fds) \<Rightarrow> fds_set fds)"

text \<open>
  The files of a thread and the descriptor of its session are different; its connection satisfies the
  invariant of connections.
\<close>

definition thread_ok :: "server_thread \<Rightarrow> bool" where
  "thread_ok kt \<longleftrightarrow> length (kt_name kt) = KCN_SOCKNAMELEN \<and>
     (case kt_at kt of
        At_idle \<Rightarrow> kt_db kt = None
      | At_start \<Rightarrow> kt_db kt = None
      | At_session fd \<Rightarrow> 0 \<le> fd \<and> c_str (kt_name kt) \<noteq> None
      | At_close fd \<Rightarrow> 0 \<le> fd
      | At_loop fd kn \<Rightarrow> 0 \<le> fd \<and> net_inv KCN_MSG_MAXSIZ kn
      | _ \<Rightarrow> True) \<and>
     (\<forall>fd kn kd fds. (kt_at kt = At_session fd \<or> kt_at kt = At_close fd \<or> kt_at kt = At_loop fd kn \<and> kn_fd kn \<noteq> None) \<longrightarrow>
        kt_db kt = Some (kd, fds) \<longrightarrow> nat fd \<notin> fds_set fds)"

lemma open_fds_simps [simp]:
  "open_fds (os_set n None os) = open_fds os - {n}"
  "open_fds (os_set n (Some b) os) = insert n (open_fds os)"
  "open_fds (os\<lparr>os_sys := sys\<rparr>) = open_fds os"
  by (auto simp: open_fds_def)

lemma open_fds_close [simp]:
  "0 \<le> fd \<Longrightarrow> open_fds (snd (os_close fd os)) = open_fds os - {nat fd}"
  "0 \<le> fd \<Longrightarrow> open_fds (snd (kcn_socket_close fd os)) = open_fds os - {nat fd}"
  by (auto simp: os_close_def kcn_socket_close_def open_fds_def)

lemma open_fds_makes:
  assumes "makes_fd b os r os'"
  shows "case r of Inl e \<Rightarrow> open_fds os' = open_fds os
    | Inr fd \<Rightarrow> 0 \<le> fd \<and> nat fd \<notin> open_fds os \<and> open_fds os' = insert (nat fd) (open_fds os)"
  using assms by (auto simp: makes_fd_def open_fds_def split: sum.splits)

lemma lowest_free_closed: "lowest_free (os_fds os) \<notin> open_fds os"
  using lowest_free_free [of os] by (simp add: open_fds_def)

lemma db_destroy_closes:
  assumes "kcndb_db_destroy fds os = (fds', os')"
  shows "open_fds os' = open_fds os - fds_set fds \<and> fds_set fds' = {}"
  using assms
  by (induction fds os arbitrary: fds' os' rule: kcndb_db_destroy.induct)
    (auto simp: kcndb_db_table_close_def split: prod.splits)

lemma open_tables_opens:
  assumes "open_tables n os = (fds, os')"
  shows "open_fds os' = open_fds os \<union> fds_set fds \<and> fds_set fds \<inter> open_fds os = {}"
  using assms
proof (induction n arbitrary: os fds os')
  case (Suc n)
  let ?l = "lowest_free (os_fds os)"
  let ?os1 = "os_set ?l (Some False) os"
  let ?t = "lowest_free (os_fds ?os1)"
  let ?os2 = "os_set ?t (Some False) ?os1"
  obtain ts os3 where r: "open_tables n ?os2 = (ts, os3)" by (cases "open_tables n ?os2")
  from Suc.IH [OF r] lowest_free_closed [of os] lowest_free_closed [of ?os1] Suc.prems r show ?case
    by (auto simp: Let_def)
qed simp

lemma thread_finish_closes:
  assumes "kcndb_thread_finish (kt, sh) = (kt', sh')"
  shows "kt_at kt' = At_out \<and> kt_name kt' = kt_name kt \<and> thread_fds kt' = {} \<and>
    open_fds (sh_os sh') = open_fds (sh_os sh) - (case kt_db kt of None \<Rightarrow> {} | Some (kd, fds) \<Rightarrow> fds_set fds)"
  using assms db_destroy_closes
  by (auto simp: kcndb_thread_finish_def thread_fds_def split: option.splits prod.splits)

section \<open>The steps of a thread keep to their descriptors\<close>

text \<open>\<open>steps_to kt os kt' os'\<close>: what a step has to keep.\<close>

definition steps_to :: "server_thread \<Rightarrow> os \<Rightarrow> server_thread \<Rightarrow> os \<Rightarrow> bool" where
  "steps_to kt os kt' os' \<longleftrightarrow> thread_ok kt' \<and>
     open_fds os' = (open_fds os - thread_fds kt) \<union> thread_fds kt' \<and>
     thread_fds kt' \<inter> (open_fds os - thread_fds kt) = {}"

lemma start_steps:
  assumes "kt_at kt = At_start" "thread_ok kt" "kcndb_server_main_start evb env path (kt, sh) = Some (kt', sh')"
  shows "steps_to kt (sh_os sh) kt' (sh_os sh')"
proof -
  from assms(1,2) have db: "kt_db kt = None" and n: "length (kt_name kt) = 52" by (simp_all add: thread_ok_def)
  then have own: "thread_fds kt = {}" using assms(1) by (simp add: thread_fds_def)
  from assms(3) obtain r bases where r: "kcndb_db_new env path (sh_bases sh) = Some (r, bases)"
    by (auto simp: kcndb_server_main_start_def bind_eq_Some_conv)
  show ?thesis
  proof (cases r)
    case (Inl e)
    with assms(3) r have "kt' = kt\<lparr>kt_evb := evb, kt_db := None, kt_at := At_out\<rparr>" "sh' = sh\<lparr>sh_bases := bases\<rparr>"
      by (simp_all add: kcndb_server_main_start_def kcndb_thread_finish_def)
    with n own show ?thesis by (simp add: steps_to_def thread_ok_def thread_fds_def)
  next
    case (Inr kd)
    obtain fds os where o: "open_tables (length kd) (sh_os sh) = (fds, os)" by (cases "open_tables (length kd) (sh_os sh)")
    let ?kt = "kt\<lparr>kt_evb := evb, kt_db := Some (kd, fds)\<rparr>"
    let ?sh = "sh\<lparr>sh_os := os, sh_bases := bases, sh_files := map files_of kd\<rparr>"
    note opens = open_tables_opens [OF o]
    show ?thesis
    proof (cases evb)
      case True
      with assms(3) r Inr o have "kt' = ?kt\<lparr>kt_at := At_accept\<rparr>" "sh' = ?sh"
        by (simp_all add: kcndb_server_main_start_def)
      with n own opens show ?thesis by (auto simp: steps_to_def thread_ok_def thread_fds_def)
    next
      case False
      with assms(3) r Inr o have "kcndb_thread_finish (?kt, ?sh) = (kt', sh')"
        by (simp add: kcndb_server_main_start_def)
      from thread_finish_closes [OF this] n own opens show ?thesis
        by (auto simp: steps_to_def thread_ok_def)
    qed
  qed
qed

lemma accept_name:
  assumes "kcn_socket_accept texts peer (Some mem) 52 os = Some (r, name, os')" "numeric_names texts" "length mem = 52"
  shows "\<exists>m. name = Some m \<and> length m = 52 \<and> (\<not> isl r \<longrightarrow> c_str m \<noteq> None)"
proof -
  from assms(1) obtain r1 os1 where 1: "accept_loop os = Some (r1, os1)"
    by (auto simp: kcn_socket_accept_def split: option.splits)
  show ?thesis
  proof (cases r1)
    case (Inl e)
    with assms 1 show ?thesis by (auto simp: kcn_socket_accept_def sock_bad_def)
  next
    case s: (Inr s)
    obtain r2 os2 where 2: "kcn_socket_nonblock s os1 = (r2, os2)" by (cases "kcn_socket_nonblock s os1")
    show ?thesis
    proof (cases r2)
      case (Inl e)
      with assms 1 s 2 show ?thesis by (auto simp: kcn_socket_accept_def sock_bad_def)
    next
      case (Inr u)
      from sockaddr_ntoa_ok [OF assms(2,3), of peer] obtain ok m where
        "kcn_sockaddr_ntoa texts mem 52 peer = Some (ok, m)" "length m = 52" "c_str m \<noteq> None"
        by (metis option.distinct(1))
      with assms 1 s 2 Inr show ?thesis by (auto simp: kcn_socket_accept_def)
    qed
  qed
qed

lemma accept_returns:
  assumes "thread_ok kt" "numeric_names texts"
  shows "\<exists>kt' sh'. kcndb_server_main_accept texts peer (kt, sh) = Some (kt', sh')"
proof -
  from assms(1) have n: "length (kt_name kt) = 52" by (simp add: thread_ok_def)
  from accept_makes [OF assms(2), of "Some (kt_name kt)" "kt_name kt" peer "sh_os sh"] n obtain r name os where
    "kcn_socket_accept texts peer (Some (kt_name kt)) 52 (sh_os sh) = Some (r, name, os)" by blast
  then show ?thesis by (auto simp: kcndb_server_main_accept_def split: sum.splits)
qed

lemma accept_steps:
  assumes "kt_at kt = At_accept" "thread_ok kt" "numeric_names texts"
    "kcndb_server_main_accept texts peer (kt, sh) = Some (kt', sh')" "thread_fds kt \<subseteq> open_fds (sh_os sh)"
  shows "steps_to kt (sh_os sh) kt' (sh_os sh')"
proof -
  from assms(2) have n: "length (kt_name kt) = 52" by (simp add: thread_ok_def)
  from accept_makes [OF assms(3), of "Some (kt_name kt)" "kt_name kt" peer "sh_os sh"] n obtain r name os where
    a: "kcn_socket_accept texts peer (Some (kt_name kt)) 52 (sh_os sh) = Some (r, name, os)" "makes_fd True (sh_os sh) r os"
    by blast
  from accept_name [OF a(1) assms(3) n] obtain m where m: "name = Some m" "length m = 52" "\<not> isl r \<longrightarrow> c_str m \<noteq> None" by blast
  note o = open_fds_makes [OF a(2)]
  let ?files = "case kt_db kt of None \<Rightarrow> {} | Some (kd, fds) \<Rightarrow> fds_set fds"
  have own: "thread_fds kt = ?files" using assms(1) by (simp add: thread_fds_def)
  show ?thesis
  proof (cases r)
    case (Inl e)
    with assms(4) a m have k: "kt' = kt\<lparr>kt_name := m, kt_at := At_accept\<rparr>" "sh' = sh\<lparr>sh_os := os\<rparr>"
      by (simp_all add: kcndb_server_main_accept_def)
    then have "thread_fds kt' = ?files" by (simp add: thread_fds_def)
    with k o Inl m own assms(5) show ?thesis by (auto simp: steps_to_def thread_ok_def)
  next
    case (Inr fd)
    with assms(4) a m have k: "kt' = kt\<lparr>kt_name := m, kt_at := At_session fd\<rparr>" "sh' = sh\<lparr>sh_os := os\<rparr>"
      by (simp_all add: kcndb_server_main_accept_def)
    then have f: "thread_fds kt' = {nat fd} \<union> ?files" by (simp add: thread_fds_def)
    from o Inr have d: "0 \<le> fd" "nat fd \<notin> open_fds (sh_os sh)" "open_fds os = insert (nat fd) (open_fds (sh_os sh))" by simp_all
    with own assms(5) have "nat fd \<notin> ?files" by blast
    then have "thread_ok kt'" using k m d Inr by (auto simp: thread_ok_def)
    then show ?thesis using k d f own assms(5) by (auto simp: steps_to_def)
  qed
qed

lemma net_new_returns:
  assumes "alloc_ok malloc"
  shows "\<exists>r. kcn_net_new kn_new malloc base_set everrs sk cap name = Some r"
proof (cases "kcn_buf_data_new malloc cap")
  case (Some d)
  from buf_data_new [OF assms Some] have "kcn_buf_init (Some d) \<noteq> None"
    by (simp add: kcn_buf_init_def kcn_buf_start_def kb_sp_def)
  with Some show ?thesis by (auto simp: kcn_net_new_def split: prod.splits sum.splits)
qed (auto simp: kcn_net_new_def)

lemma new_read_enable:
  assumes "alloc_ok malloc" "kcn_net_new kn_new malloc base_set everrs sk KCN_MSG_MAXSIZ name = Some (Some kn0)"
  shows "\<exists>r kn. kcn_net_read_enable kn0 = Some (r, kn) \<and> net_inv KCN_MSG_MAXSIZ kn \<and> kn_fd kn \<noteq> None"
proof -
  from net_new_ok [OF assms] have n: "net_inv 4096 kn0" "kn_fd kn0 = Some sk" "kn_state kn0 = KCN_NET_STATE_INIT" by simp_all
  then have "net_ok 4096 kn0" "ibuf_room 4096 kn0" by (simp_all add: net_inv_def)
  from read_enable_ok [OF this(1) _ this(2)] n(2) show ?thesis by auto
qed

lemma session_returns:
  assumes "thread_ok kt" "kt_at kt = At_session fd" "alloc_ok malloc"
  shows "kcndb_server_session kn_new malloc base_set everrs sk fd (kt, sh) \<noteq> None"
proof -
  from assms(1,2) obtain name where n: "c_str (kt_name kt) = Some name" by (auto simp: thread_ok_def)
  from net_new_returns [OF assms(3)] obtain r where
    r: "kcn_net_new kn_new malloc base_set everrs sk KCN_MSG_MAXSIZ name = Some r" by blast
  show ?thesis
  proof (cases r)
    case None
    with n r show ?thesis by (simp add: kcndb_server_session_def)
  next
    case (Some kn0)
    with new_read_enable [OF assms(3)] r obtain x kn where "kcn_net_read_enable kn0 = Some (x, kn)" by blast
    with n r Some show ?thesis by (simp add: kcndb_server_session_def)
  qed
qed

lemma session_steps:
  assumes "kt_at kt = At_session fd" "thread_ok kt" "alloc_ok malloc"
    "kcndb_server_session kn_new malloc base_set everrs sk fd (kt, sh) = Some (kt', sh')"
    "\<not> kn_new \<or> kt_at kt' \<noteq> At_close fd" "thread_fds kt \<subseteq> open_fds (sh_os sh)"
  shows "steps_to kt (sh_os sh) kt' (sh_os sh')"
proof -
  from assms(4) obtain name r where
    r: "c_str (kt_name kt) = Some name" "kcn_net_new kn_new malloc base_set everrs sk KCN_MSG_MAXSIZ name = Some r"
    by (auto simp: kcndb_server_session_def bind_eq_Some_conv)
  have k: "thread_fds (kt\<lparr>kt_at := At_close fd\<rparr>) = thread_fds kt"
    "\<And>kn. kn_fd kn \<noteq> None \<Longrightarrow> thread_fds (kt\<lparr>kt_at := At_loop fd kn\<rparr>) = thread_fds kt"
    using assms(1) by (auto simp: thread_fds_def)
  show ?thesis
  proof (cases r)
    case None
    with assms(4) r have "kt' = kt\<lparr>kt_at := At_close fd\<rparr>" "kn_new \<or> sh' = sh"
      by (cases kn_new; simp add: kcndb_server_session_def)+
    moreover from this(1) assms(5) have "\<not> kn_new" by simp
    ultimately have e: "kt' = kt\<lparr>kt_at := At_close fd\<rparr>" "sh' = sh" by simp_all
    from assms(1,2) have "thread_ok kt'" unfolding e by (auto simp: thread_ok_def)
    then show ?thesis using assms(6) unfolding steps_to_def e k by blast
  next
    case (Some kn0)
    from new_read_enable [OF assms(3)] r(2) Some obtain x kn where
      n: "kcn_net_read_enable kn0 = Some (x, kn)" "net_inv KCN_MSG_MAXSIZ kn" "kn_fd kn \<noteq> None" by blast
    with assms(4) r Some have e: "kt' = kt\<lparr>kt_at := At_loop fd kn\<rparr>" "sh' = sh"
      by (simp_all add: kcndb_server_session_def)
    from assms(1,2) n have "thread_ok kt'" unfolding e by (auto simp: thread_ok_def)
    then show ?thesis using assms(6) unfolding steps_to_def e k(2) [OF n(3)] by blast
  qed
qed

text \<open>A thread that gives up its connection keeps the files of its handle.\<close>

lemma give_up:
  assumes "thread_ok kt" "thread_fds kt \<subseteq> open_fds os"
    "kt_at kt = At_close fd \<or> kt_at kt = At_loop fd kn \<and> kn_fd kn \<noteq> None" "0 \<le> fd"
    "kt_name kt' = kt_name kt" "kt_db kt' = kt_db kt \<or> (\<exists>kd kd' fds. kt_db kt = Some (kd, fds) \<and> kt_db kt' = Some (kd', fds))"
    "kt_at kt' = At_accept \<or> kt_at kt' = At_loop fd kn' \<and> net_inv KCN_MSG_MAXSIZ kn' \<and> kn_fd kn' = None"
  shows "steps_to kt os kt' (snd (kcn_socket_close fd os))"
proof -
  let ?files = "\<lambda>kt. case kt_db kt of None \<Rightarrow> {} | Some (kd, fds) \<Rightarrow> fds_set fds"
  have f: "?files kt' = ?files kt" using assms(6) by auto
  have "thread_fds kt' = ?files kt'" using assms(7) by (elim disjE conjE) (simp_all add: thread_fds_def)
  with f have k': "thread_fds kt' = ?files kt" by simp
  have k: "thread_fds kt = {nat fd} \<union> ?files kt"
    using assms(3) by (auto simp: thread_fds_def)
  from assms(1) have own: "length (kt_name kt) = KCN_SOCKNAMELEN"
    "\<And>fd kn kd fds. kt_at kt = At_session fd \<or> kt_at kt = At_close fd \<or> kt_at kt = At_loop fd kn \<and> kn_fd kn \<noteq> None \<Longrightarrow>
       kt_db kt = Some (kd, fds) \<Longrightarrow> nat fd \<notin> fds_set fds"
    unfolding thread_ok_def by blast+
  have d: "nat fd \<notin> ?files kt"
  proof (cases "kt_db kt")
    case (Some db)
    then obtain kd fds where "kt_db kt = Some (kd, fds)" by (cases db) simp
    with own(2) [of fd kn kd fds] assms(3) show ?thesis by auto
  qed simp
  have "thread_ok kt'" using assms(7)
  proof
    assume "kt_at kt' = At_accept"
    with own(1) assms(5) show ?thesis by (simp add: thread_ok_def)
  next
    assume "kt_at kt' = At_loop fd kn' \<and> net_inv KCN_MSG_MAXSIZ kn' \<and> kn_fd kn' = None"
    with own(1) assms(4,5) show ?thesis by (simp add: thread_ok_def)
  qed
  then show ?thesis using assms(2) d open_fds_close(2) [OF assms(4), of os] unfolding steps_to_def k k' by auto
qed

lemma failed_steps:
  assumes "kt_at kt = At_close fd" "thread_ok kt" "thread_fds kt \<subseteq> open_fds (sh_os sh)"
    "session_failed fd (kt, sh) = (kt', sh')"
  shows "steps_to kt (sh_os sh) kt' (sh_os sh')"
proof -
  from assms(4) have e: "kt' = kt\<lparr>kt_at := At_accept\<rparr>" "sh_os sh' = snd (kcn_socket_close fd (sh_os sh))"
    by (auto simp: session_failed_def)
  have "0 \<le> fd" using assms(1,2) by (simp add: thread_ok_def)
  show ?thesis unfolding e by (rule give_up [OF assms(2,3)]) (use assms(1) \<open>0 \<le> fd\<close> in simp_all)
qed

text \<open>An event happens on a connection with a descriptor only, and keeps the invariant.\<close>

lemma net_step_inv:
  assumes "net_step (kcndb_server_recv malloc now) (kn, d) (kn', d')" "alloc_ok malloc" "net_inv KCN_MSG_MAXSIZ kn"
  shows "net_inv KCN_MSG_MAXSIZ kn' \<and> kn_fd kn \<noteq> None"
proof -
  from server_reader.step_inv [OF assms(1)] assms(2,3) have "net_inv KCN_MSG_MAXSIZ kn'" by simp
  moreover from assms(1,3) have "kn_fd kn \<noteq> None" by (auto elim: net_stepE simp: net_inv_def net_ok_def)
  ultimately show ?thesis by blast
qed

lemma event_steps:
  assumes "kt_at kt = At_loop fd kn" "kt_db kt = Some (kd, fds)" "alloc_ok malloc" "thread_ok kt"
    "net_step (kcndb_server_recv malloc now) (kn, d) (kn', d')" "thread_fds kt \<subseteq> open_fds os"
  shows "steps_to kt os (kt\<lparr>kt_at := At_loop fd kn', kt_db := Some (kd', fds)\<rparr>) (net_close fd kn kn' os)"
proof -
  from assms(1,4) have i: "net_inv KCN_MSG_MAXSIZ kn" "0 \<le> fd" by (simp_all add: thread_ok_def)
  note n = net_step_inv [OF assms(5,3) i(1)]
  let ?kt = "kt\<lparr>kt_at := At_loop fd kn', kt_db := Some (kd', fds)\<rparr>"
  show ?thesis
  proof (cases "kn_fd kn' = None")
    case True
    with n have "net_close fd kn kn' os = snd (kcn_socket_close fd os)" by (simp add: net_close_def)
    moreover have "steps_to kt os ?kt (snd (kcn_socket_close fd os))"
      by (rule give_up [OF assms(4,6), of fd kn _ kn']) (use assms(1,2) n i True in simp_all)
    ultimately show ?thesis by simp
  next
    case False
    then have c: "net_close fd kn kn' os = os" by (auto simp: net_close_def)
    have f: "thread_fds ?kt = thread_fds kt" using assms(1,2) n False by (auto simp: thread_fds_def)
    have "thread_ok ?kt" using assms(1,2,4) n i by (auto simp: thread_ok_def)
    then show ?thesis using assms(6) unfolding steps_to_def c f by blast
  qed
qed

lemma net_destroy_ok:
  assumes "net_inv KCN_MSG_MAXSIZ kn"
  shows "\<exists>kn'. kcn_net_destroy kn = Some kn' \<and> kn_fd kn' = None"
proof -
  from assms have "net_ok KCN_MSG_MAXSIZ kn" by (simp add: net_inv_def)
  from disconnect_ok [OF this] obtain kn1 where "kcn_net_disconnect kn = Some kn1" "kn_fd kn1 = None" by blast
  then show ?thesis by (simp add: kcn_net_destroy_def purge_empties)
qed

lemma end_steps:
  assumes "kt_at kt = At_loop fd kn" "thread_ok kt" "thread_fds kt \<subseteq> open_fds (sh_os sh)"
  shows "\<exists>kt' sh'. session_end fd kn (kt, sh) = Some (kt', sh') \<and> kt_at kt' = At_accept \<and>
    steps_to kt (sh_os sh) kt' (sh_os sh')"
proof -
  from assms(1,2) have i: "net_inv KCN_MSG_MAXSIZ kn" "0 \<le> fd" by (simp_all add: thread_ok_def)
  from net_destroy_ok [OF i(1)] obtain kn' where k: "kcn_net_destroy kn = Some kn'" "kn_fd kn' = None" by blast
  let ?kt = "kt\<lparr>kt_at := At_accept\<rparr>" and ?os = "net_close fd kn kn' (sh_os sh)"
  have e: "session_end fd kn (kt, sh) = Some (?kt, sh\<lparr>sh_os := ?os\<rparr>)" using k(1) by (simp add: session_end_def)
  have "steps_to kt (sh_os sh) ?kt ?os"
  proof (cases "kn_fd kn = None")
    case True
    then have "?os = sh_os sh" by (simp add: net_close_def)
    moreover have "thread_fds ?kt = thread_fds kt" using assms(1) True by (simp add: thread_fds_def)
    moreover have "thread_ok ?kt" using assms(1,2) by (auto simp: thread_ok_def)
    ultimately show ?thesis using assms(3) unfolding steps_to_def by auto
  next
    case False
    with k(2) have "?os = snd (kcn_socket_close fd (sh_os sh))" by (simp add: net_close_def)
    moreover have "steps_to kt (sh_os sh) ?kt (snd (kcn_socket_close fd (sh_os sh)))"
      by (rule give_up [OF assms(2,3), of fd kn]) (use assms(1) i False in simp_all)
    ultimately show ?thesis by simp
  qed
  with e show ?thesis by (intro exI [of _ ?kt] exI [of _ "sh\<lparr>sh_os := ?os\<rparr>"]) simp
qed

lemma thread_steps:
  assumes "thread_step False (kt, sh) (kt', sh')" "thread_ok kt" "thread_fds kt \<subseteq> open_fds (sh_os sh)"
  shows "steps_to kt (sh_os sh) kt' (sh_os sh')"
  using assms(1)
proof (cases rule: thread_stepE)
  case (start env path evb)
  from start_steps [OF start(1) assms(2) start(3)] show ?thesis .
next
  case (accept texts peer sys)
  from accept_steps [OF accept(1) assms(2) accept(2,3)] assms(3) show ?thesis
    by (simp add: with_sys_def steps_to_def)
next
  case (session fd malloc kn_new base_set everrs sk)
  from session_steps [OF session(1) assms(2) session(2,3) _ assms(3)] session(4) show ?thesis by simp
next
  case (failed fd)
  from failed_steps [OF _ assms(2,3)] failed show ?thesis by simp
next
  case (event fd kn kd fds malloc now kn' bases kd')
  from event event_steps [OF _ _ _ assms(2) _ assms(3), of fd kn kd fds malloc now _ kn' _ kd'] show ?thesis
    by simp
next
  case (ended fd kn)
  from end_steps [OF ended(1) assms(2,3)] ended(2) show ?thesis by auto
qed

interpretation daemon_threads: exclusive_owner "thread_step False" thread_fds "\<lambda>sh. open_fds (sh_os sh)" thread_ok
proof
  fix kt kt' :: server_thread and sh sh' :: shared
  assume "thread_step False (kt, sh) (kt', sh')" "thread_ok kt" "thread_fds kt \<subseteq> open_fds (sh_os sh)"
  from thread_steps [OF this] show "thread_ok kt' \<and>
      open_fds (sh_os sh') = open_fds (sh_os sh) - thread_fds kt \<union> thread_fds kt' \<and>
      thread_fds kt' \<inter> (open_fds (sh_os sh) - thread_fds kt) = {}" by (simp add: steps_to_def)
qed

section \<open>Starting the server\<close>

text \<open>A worker that has been started, and the threads after the loop of \<open>kcndb_server_start\<close>.\<close>

definition started :: "int \<Rightarrow> nat \<Rightarrow> server_thread \<Rightarrow> server_thread" where
  "started s n kt = kt\<lparr>kt_number := of_nat n, kt_listenfd := s, kt_evb := False,
     kt_status := KCNDB_THREAD_STATUS_RUN, kt_at := At_start\<rparr>"

lemma thread_run_init:
  "n < length (d_threads d) \<Longrightarrow> thread_run n (kcndb_thread_init n d) =
     d\<lparr>d_threads := (d_threads d)[n := started (d_socket d) n (d_threads d ! n)]\<rparr>"
  by (simp add: thread_run_def kcndb_thread_init_def started_def)

lemma server_workers_run:
  assumes "server_workers n errs d = (ok, d')" "n \<le> 7" "length (d_threads d) = 8"
  shows "d_shared d' = d_shared d \<and> d_socket d' = d_socket d \<and> d_port d' = d_port d \<and> length (d_threads d') = 8 \<and>
    (ok \<longrightarrow> (\<forall>i < 8. d_threads d' ! i =
       (if 8 - n \<le> i then started (d_socket d) i (d_threads d ! i) else d_threads d ! i)))"
  using assms
proof (induction n arbitrary: errs d)
  case (Suc n)
  let ?i = "8 - Suc n"
  obtain e es where e: "next_errno errs = (e, es)" by (cases "next_errno errs")
  show ?case
  proof (cases "e = 0")
    case False
    with Suc.prems e show ?thesis by (auto simp: Let_def kcndb_thread_init_def)
  next
    case True
    let ?d = "d\<lparr>d_threads := (d_threads d)[?i := started (d_socket d) ?i (d_threads d ! ?i)]\<rparr>"
    have r: "server_workers n es ?d = (ok, d')"
      using Suc.prems True e thread_run_init [of ?i d] by (simp add: Let_def)
    have "n \<le> 7" "length (d_threads ?d) = 8" using Suc.prems by simp_all
    from Suc.IH [OF r this] have ih: "d_shared d' = d_shared d \<and> d_socket d' = d_socket d \<and> d_port d' = d_port d \<and>
        length (d_threads d') = 8" "ok \<Longrightarrow> i < 8 \<Longrightarrow> d_threads d' ! i = (if 8 - n \<le> i
          then started (d_socket d) i ((d_threads d)[?i := started (d_socket d) ?i (d_threads d ! ?i)] ! i)
          else (d_threads d)[?i := started (d_socket d) ?i (d_threads d ! ?i)] ! i)" for i by simp_all
    have "d_threads d' ! i = (if 8 - Suc n \<le> i then started (d_socket d) i (d_threads d ! i) else d_threads d ! i)"
      if "ok" "i < 8" for i
    proof (cases "i = ?i")
      case True
      then have "\<not> 8 - n \<le> i" "8 - Suc n \<le> i" using Suc.prems(2) by simp_all
      with ih(2) [OF that] True that(2) Suc.prems(3) show ?thesis by simp
    next
      case False
      then have "(8 - n \<le> i) = (8 - Suc n \<le> i)" using Suc.prems(2) by auto
      with ih(2) [OF that] False show ?thesis by simp
    qed
    with ih(1) show ?thesis by blast
  qed
qed simp

lemma server_start_cases:
  assumes "d_socket d = - 1" "length (d_threads d) = 8"
  shows "\<exists>ok d'. kcndb_server_start errs d = Some (ok, d') \<and> length (d_threads d') = 8 \<and>
    (if ok then makes_fd False (sh_os (d_shared d)) (Inr (d_socket d')) (sh_os (d_shared d')) \<and>
       (\<forall>i < 8. d_threads d' ! i = (if 1 \<le> i then started (d_socket d') i (d_threads d ! i) else d_threads d ! i))
     else d_socket d' = - 1 \<and> fd_of (sh_os (d_shared d')) = fd_of (sh_os (d_shared d)))"
proof -
  let ?os = "sh_os (d_shared d)"
  from listen_makes [of PF_INET6 "d_port d" ?os] obtain r os where
    l: "kcn_socket_listen PF_INET6 (d_port d) ?os = Some (r, os)" "makes_fd False ?os r os" by auto
  show ?thesis
  proof (cases r)
    case (Inl e)
    with l assms show ?thesis
      by (intro exI [of _ False]) (simp add: kcndb_server_start_def kcndb_server_stop_def kcn_socket_close_def makes_fd_def)
  next
    case (Inr s)
    let ?d = "d\<lparr>d_shared := (d_shared d)\<lparr>sh_os := os\<rparr>, d_socket := s\<rparr>"
    from Inr l(2) have s: "0 \<le> s" "fd_of ?os (nat s) = None" "fd_of os = (fd_of ?os)(nat s \<mapsto> False)"
      by (simp_all add: makes_fd_def)
    obtain ok d' where w: "server_workers 7 errs ?d = (ok, d')" by (cases "server_workers 7 errs ?d")
    have "length (d_threads ?d) = 8" using assms(2) by simp
    from server_workers_run [OF w _ this] have r: "d_shared d' = d_shared ?d" "d_socket d' = s" "length (d_threads d') = 8"
      "ok \<Longrightarrow> \<forall>i < 8. d_threads d' ! i = (if 1 \<le> i then started s i (d_threads d ! i) else d_threads d ! i)" by simp_all
    have st: "kcndb_server_start errs d = Some (if ok then (True, d') else (False, kcndb_server_stop d'))"
      using l(1) Inr w assms(1) by (simp add: kcndb_server_start_def)
    show ?thesis
    proof (cases ok)
      case True
      with st r s show ?thesis by (intro exI [of _ True] exI [of _ d']) (simp add: makes_fd_def)
    next
      case False
      have "fd_of (sh_os (d_shared (kcndb_server_stop d'))) = fd_of ?os" "d_socket (kcndb_server_stop d') = - 1"
        "length (d_threads (kcndb_server_stop d')) = 8"
        using r(1,2,3) s by (simp_all add: kcndb_server_stop_def kcn_socket_close_def os_close_def fun_upd_idem)
      with st False show ?thesis by (intro exI [of _ False] exI [of _ "kcndb_server_stop d'"]) simp
    qed
  qed
qed

lemma server_started:
  assumes "d_socket d = - 1" "length (d_threads d) = 8" "kcndb_server_start errs d = Some (True, d')"
  shows "length (d_threads d') = 8" "makes_fd False (sh_os (d_shared d)) (Inr (d_socket d')) (sh_os (d_shared d'))"
    "\<forall>i < 8. d_threads d' ! i = (if 1 \<le> i then started (d_socket d') i (d_threads d ! i) else d_threads d ! i)"
proof -
  from server_start_cases [OF assms(1,2), of errs] obtain ok d1 where s: "kcndb_server_start errs d = Some (ok, d1)"
    "length (d_threads d1) = 8"
    "if ok then makes_fd False (sh_os (d_shared d)) (Inr (d_socket d1)) (sh_os (d_shared d1)) \<and>
       (\<forall>i < 8. d_threads d1 ! i = (if 1 \<le> i then started (d_socket d1) i (d_threads d ! i) else d_threads d ! i))
     else d_socket d1 = - 1 \<and> fd_of (sh_os (d_shared d1)) = fd_of (sh_os (d_shared d))" by blast
  from s(1) assms(3) have e: "ok = True" "d1 = d'" by simp_all
  from s(2,3) show "length (d_threads d') = 8" "makes_fd False (sh_os (d_shared d)) (Inr (d_socket d')) (sh_os (d_shared d'))"
    "\<forall>i < 8. d_threads d' ! i = (if 1 \<le> i then started (d_socket d') i (d_threads d ! i) else d_threads d ! i)"
    unfolding e by simp_all
qed

text \<open>A failed \<open>pthread_create\<close>: the workers before it run, the one it was for is prepared only.\<close>

lemma server_workers_fail:
  assumes "server_workers n errs d = (False, d')" "n \<le> 7" "length (d_threads d) = 8"
  shows "\<exists>m < n. m < length errs \<and> errs ! m \<noteq> 0 \<and> (\<forall>k < m. errs ! k = 0) \<and>
    (\<forall>i < 8. d_threads d' ! i = (if 8 - n \<le> i \<and> i < 8 - n + m then started (d_socket d) i (d_threads d ! i)
       else if i = 8 - n + m then (d_threads d ! i)\<lparr>kt_number := of_nat i, kt_listenfd := d_socket d, kt_evb := False\<rparr>
       else d_threads d ! i))"
  using assms
proof (induction n arbitrary: errs d)
  case (Suc n)
  let ?i = "8 - Suc n"
  obtain e es where e: "next_errno errs = (e, es)" by (cases "next_errno errs")
  show ?case
  proof (cases "e = 0")
    case False
    with e have errs: "errs = e # es" by (cases errs) simp_all
    from Suc.prems(1) e False have "d' = kcndb_thread_init ?i d" by (simp add: Let_def)
    with errs False Suc.prems(2,3) show ?thesis by (intro exI [of _ 0]) (auto simp: kcndb_thread_init_def nth_list_update)
  next
    case True
    let ?d = "d\<lparr>d_threads := (d_threads d)[?i := started (d_socket d) ?i (d_threads d ! ?i)]\<rparr>"
    have r: "server_workers n es ?d = (False, d')"
      using Suc.prems True e thread_run_init [of ?i d] by (simp add: Let_def)
    have "n \<le> 7" "length (d_threads ?d) = 8" using Suc.prems by simp_all
    from Suc.IH [OF r this] obtain m where m: "m < n" "m < length es" "es ! m \<noteq> 0" "\<forall>k < m. es ! k = 0"
      "\<And>i. i < 8 \<Longrightarrow> d_threads d' ! i = (if 8 - n \<le> i \<and> i < 8 - n + m then started (d_socket d) i (d_threads ?d ! i)
         else if i = 8 - n + m then (d_threads ?d ! i)\<lparr>kt_number := of_nat i, kt_listenfd := d_socket d, kt_evb := False\<rparr>
         else d_threads ?d ! i)" by auto
    from e True m(2) have errs: "errs = 0 # es" by (cases errs) simp_all
    have n: "8 - n = Suc ?i" "?i < 8" using Suc.prems(2) by simp_all
    have "d_threads d' ! i = (if ?i \<le> i \<and> i < ?i + Suc m then started (d_socket d) i (d_threads d ! i)
       else if i = ?i + Suc m then (d_threads d ! i)\<lparr>kt_number := of_nat i, kt_listenfd := d_socket d, kt_evb := False\<rparr>
       else d_threads d ! i)" if "i < 8" for i
      using m(5) [OF that] n Suc.prems(3) by (cases "i = ?i") (auto simp: nth_list_update)
    moreover have "\<forall>k < Suc m. errs ! k = 0" using m(4) errs by (auto simp: less_Suc_eq_0_disj)
    ultimately show ?thesis using m(1-3) errs by (intro exI [of _ "Suc m"]) simp
  qed
qed simp

text \<open>
  What a failed start leaves of the threads: nothing has changed, or the first \<open>m\<close> workers run on a socket \<open>s\<close> that has
  been closed again, because \<open>pthread_create\<close> failed for the next one.
\<close>

definition workers_left :: "errno list \<Rightarrow> kcndbd \<Rightarrow> kcndbd \<Rightarrow> bool" where
  "workers_left errs d d' \<longleftrightarrow> d_threads d' = d_threads d \<or>
     (\<exists>s. \<exists>m < 7. 0 \<le> s \<and> fd_of (sh_os (d_shared d')) (nat s) = None \<and> m < length errs \<and> errs ! m \<noteq> 0 \<and> (\<forall>k < m. errs ! k = 0) \<and>
        (\<forall>i < 8. d_threads d' ! i = (if 1 \<le> i \<and> i \<le> m then started s i (d_threads d ! i)
           else if i = m + 1 then (d_threads d ! i)\<lparr>kt_number := of_nat i, kt_listenfd := s, kt_evb := False\<rparr>
           else d_threads d ! i)))"

lemma server_start_left:
  assumes "d_socket d = - 1" "length (d_threads d) = 8" "kcndb_server_start errs d = Some (False, d')"
  shows "workers_left errs d d'"
proof -
  let ?os = "sh_os (d_shared d)"
  from listen_makes [of PF_INET6 "d_port d" ?os] obtain r os where
    l: "kcn_socket_listen PF_INET6 (d_port d) ?os = Some (r, os)" "makes_fd False ?os r os" by auto
  show ?thesis
  proof (cases r)
    case (Inl e)
    with l assms have "d_threads d' = d_threads d"
      by (auto simp: kcndb_server_start_def kcndb_server_stop_def split: prod.splits)
    then show ?thesis by (simp add: workers_left_def)
  next
    case (Inr s)
    let ?d = "d\<lparr>d_shared := (d_shared d)\<lparr>sh_os := os\<rparr>, d_socket := s\<rparr>"
    from Inr l(2) have s: "0 \<le> s" "fd_of ?os (nat s) = None" by (simp_all add: makes_fd_def)
    obtain ok d1 where w: "server_workers 7 errs ?d = (ok, d1)" by (cases "server_workers 7 errs ?d")
    have st: "kcndb_server_start errs d = Some (if ok then (True, d1) else (False, kcndb_server_stop d1))"
      using l(1) Inr w assms(1) by (simp add: kcndb_server_start_def)
    with assms(3) have no: "\<not> ok" "d' = kcndb_server_stop d1" by (simp_all split: if_splits)
    have len: "length (d_threads ?d) = 8" using assms(2) by simp
    from no w have "server_workers 7 errs ?d = (False, d1)" by simp
    from server_workers_fail [OF this _ len] obtain m where
      m: "m < 7" "m < length errs" "errs ! m \<noteq> 0" "\<forall>k < m. errs ! k = 0"
        "\<forall>i < 8. d_threads d1 ! i = (if 1 \<le> i \<and> i \<le> m then started s i (d_threads d ! i)
           else if i = m + 1 then (d_threads d ! i)\<lparr>kt_number := of_nat i, kt_listenfd := s, kt_evb := False\<rparr>
           else d_threads d ! i)" by (auto simp: less_Suc_eq_le)
    have t: "d_threads d' = d_threads d1" unfolding no(2) by (simp add: kcndb_server_stop_def split: prod.splits)
    from server_start_cases [OF assms(1,2), of errs] assms(3) have "fd_of (sh_os (d_shared d')) = fd_of ?os" by auto
    with s m t show ?thesis unfolding workers_left_def by (intro disjI2 exI [of _ s] exI [of _ m]) simp
  qed
qed

text \<open>
  C26. Starting the server returns whatever the system calls do.  Either the process has one more open descriptor, the
  listening socket, and the seven workers run on it with their numbers; or it fails, has the descriptors of before and no
  socket, and then either no thread has been touched, or \<open>pthread_create\<close> failed for a worker and the workers before it keep
  running, on a listening socket that has been closed under them.
\<close>

theorem server_start_contract:
  assumes "d_socket d = - 1" "length (d_threads d) = 8"
  shows "\<exists>ok d'. kcndb_server_start errs d = Some (ok, d') \<and>
    (if ok then makes_fd False (sh_os (d_shared d)) (Inr (d_socket d')) (sh_os (d_shared d')) \<and>
       (\<forall>i \<in> {1 ..< 8}. kt_status (d_threads d' ! i) = KCNDB_THREAD_STATUS_RUN \<and>
          kt_number (d_threads d' ! i) = of_nat i \<and> kt_listenfd (d_threads d' ! i) = d_socket d' \<and>
          kt_at (d_threads d' ! i) = At_start)
     else d_socket d' = - 1 \<and> fd_of (sh_os (d_shared d')) = fd_of (sh_os (d_shared d)) \<and> workers_left errs d d')"
proof -
  from server_start_cases [OF assms] obtain ok d' where s: "kcndb_server_start errs d = Some (ok, d')"
    "if ok then makes_fd False (sh_os (d_shared d)) (Inr (d_socket d')) (sh_os (d_shared d')) \<and>
       (\<forall>i < 8. d_threads d' ! i = (if 1 \<le> i then started (d_socket d') i (d_threads d ! i) else d_threads d ! i))
     else d_socket d' = - 1 \<and> fd_of (sh_os (d_shared d')) = fd_of (sh_os (d_shared d))" by blast
  have "\<not> ok \<Longrightarrow> workers_left errs d d'" using server_start_left [OF assms, of errs d'] s(1) by simp
  with s show ?thesis by (intro exI [of _ ok] exI [of _ d']) (auto simp: started_def split: if_splits)
qed

text \<open>
  A process with the three standard descriptors.  The fourth \<open>pthread_create\<close> fails.
\<close>

definition std_shared :: shared where
  "std_shared = \<lparr>sh_os = \<lparr>os_fds = [Some False, Some False, Some False], os_sys = []\<rparr>, sh_bases = kcndb_db_base,
     sh_files = replicate 7 ([], [])\<rparr>"

theorem server_start_contract_witness:
  "\<exists>ok d'. kcndb_server_start [0, 0, 0, EAGAIN] (kcndbd_init std_shared) = Some (ok, d') \<and>
    (if ok then makes_fd False (sh_os std_shared) (Inr (d_socket d')) (sh_os (d_shared d'))
     else d_socket d' = - 1 \<and> fd_of (sh_os (d_shared d')) = fd_of (sh_os std_shared) \<and>
       workers_left [0, 0, 0, EAGAIN] (kcndbd_init std_shared) d')"
proof -
  have "d_socket (kcndbd_init std_shared) = - 1" "length (d_threads (kcndbd_init std_shared)) = 8"
    "d_shared (kcndbd_init std_shared) = std_shared"
    by (simp_all add: kcndbd_init_def kcndb_server_threads_def)
  with server_start_contract [OF this(1,2), of "[0, 0, 0, EAGAIN]"] show ?thesis by (metis (no_types))
qed

section \<open>The running daemon\<close>

lemma daemon_owners:
  assumes "d_socket d0 = - 1" "d_threads d0 = kcndb_server_threads" "kcndb_server_start errs d0 = Some (True, d)"
    "threads_reach (thread_step False) (d_threads (kcndb_server_loop d), d_shared (kcndb_server_loop d)) (ts, sh)"
  shows "0 \<le> d_socket d \<and> nat (d_socket d) \<notin> open_fds (sh_os (d_shared d0)) \<and>
    own_inv thread_fds (\<lambda>sh. open_fds (sh_os sh)) thread_ok (insert (nat (d_socket d)) (open_fds (sh_os (d_shared d0)))) (ts, sh)"
proof -
  have l0: "length (d_threads d0) = 8" using assms(2) by (simp add: kcndb_server_threads_def)
  note l = server_started(1) [OF assms(1) l0 assms(3)] and m = server_started(2) [OF assms(1) l0 assms(3)]
    and w = server_started(3) [OF assms(1) l0 assms(3)]
  have loop: "kcndb_server_loop d = d\<lparr>d_threads := (d_threads d)[0 := started (d_socket d) 0 (d_threads d ! 0)]\<rparr>"
    using l unfolding kcndb_server_loop_def by (intro thread_run_init) simp
  have all: "d_threads (kcndb_server_loop d) ! i = started (d_socket d) i (kcndb_server_threads ! i)" if "i < 8" for i
    using that w l assms(2) unfolding loop by (cases "i = 0") simp_all
  have len: "length (d_threads (kcndb_server_loop d)) = 8" using l unfolding loop by simp
  have none: "thread_fds (started s i (kcndb_server_threads ! i)) = {}" "thread_ok (started s i (kcndb_server_threads ! i))"
    if "i < 8" for s i
    using that by (simp_all add: kcndb_server_threads_def started_def thread_fds_def thread_ok_def)
  from open_fds_makes [OF m] have o: "0 \<le> d_socket d" "nat (d_socket d) \<notin> open_fds (sh_os (d_shared d0))"
    "open_fds (sh_os (d_shared d)) = insert (nat (d_socket d)) (open_fds (sh_os (d_shared d0)))" by simp_all
  have "own_inv thread_fds (\<lambda>sh. open_fds (sh_os sh)) thread_ok (insert (nat (d_socket d)) (open_fds (sh_os (d_shared d0))))
      (d_threads (kcndb_server_loop d), d_shared (kcndb_server_loop d))"
    using o(3) all none len by (simp add: own_inv_def loop)
  from daemon_threads.reach_own_inv [OF assms(4) this] o show ?thesis by blast
qed

lemma threads_reach_length:
  "threads_reach step s0 s \<Longrightarrow> length (fst s) = length (fst s0)"
proof (induction rule: threads_reach.induct)
  case (reach_step s s')
  from reach_step.hyps(2) have "length (fst s') = length (fst s)" by (induction rule: threads_step.induct) simp
  with reach_step.IH show ?case by simp
qed simp

text \<open>
  C9. In every state that the eight threads of the daemon can reach, in any interleaving and whatever the system calls, the
  peers and the allocation do, the open descriptors are exactly those from before the start, the listening socket and those
  of the threads' files and connections; no two threads have one in common; a connection with a descriptor satisfies the
  connection invariant; and accepting, beginning and ending a session do not fault.  The steps leave out two things:
  a failure of \<open>kcn_net_new\<close> after its structure was allocated, which breaks the statement (C24), and an event that
  faults, which ends the process (C23).
\<close>

theorem daemon_descriptors:
  assumes "d_socket d0 = - 1" "d_threads d0 = kcndb_server_threads" "kcndb_server_start errs d0 = Some (True, d)"
    "threads_reach (thread_step False) (d_threads (kcndb_server_loop d), d_shared (kcndb_server_loop d)) (ts, sh)"
  shows "open_fds (sh_os sh) = insert (nat (d_socket d)) (open_fds (sh_os (d_shared d0))) \<union> (\<Union>i < length ts. thread_fds (ts ! i)) \<and>
    (\<forall>i < length ts. thread_fds (ts ! i) \<inter> insert (nat (d_socket d)) (open_fds (sh_os (d_shared d0))) = {} \<and>
       (\<forall>j < length ts. i \<noteq> j \<longrightarrow> thread_fds (ts ! i) \<inter> thread_fds (ts ! j) = {})) \<and>
    (\<forall>i < length ts. \<forall>fd kn. kt_at (ts ! i) = At_loop fd kn \<longrightarrow> net_inv KCN_MSG_MAXSIZ kn \<and>
       (kn_fd kn \<noteq> None \<longrightarrow> nat fd \<in> open_fds (sh_os sh)) \<and> session_end fd kn (ts ! i, sh) \<noteq> None) \<and>
    (\<forall>i < length ts. \<forall>texts peer. numeric_names texts \<longrightarrow> kcndb_server_main_accept texts peer (ts ! i, sh) \<noteq> None) \<and>
    (\<forall>i < length ts. \<forall>fd kn_new malloc base_set everrs sk. kt_at (ts ! i) = At_session fd \<longrightarrow> alloc_ok malloc \<longrightarrow>
       kcndb_server_session kn_new malloc base_set everrs sk fd (ts ! i, sh) \<noteq> None)"
proof -
  let ?base = "insert (nat (d_socket d)) (open_fds (sh_os (d_shared d0)))"
  from daemon_owners [OF assms] have
    inv: "own_inv thread_fds (\<lambda>sh. open_fds (sh_os sh)) thread_ok ?base (ts, sh)" by blast
  then have g: "thread_ok (ts ! i) \<and> thread_fds (ts ! i) \<inter> ?base = {}" if "i < length ts" for i
    using that by (simp add: own_inv_def)
  have d: "thread_fds (ts ! i) \<inter> thread_fds (ts ! j) = {}" if "i < length ts" "j < length ts" "i \<noteq> j" for i j
    using inv that by (simp add: own_inv_def)
  have u: "open_fds (sh_os sh) = ?base \<union> (\<Union>i < length ts. thread_fds (ts ! i))" using inv by (simp add: own_inv_def)
  have sub: "thread_fds (ts ! i) \<subseteq> open_fds (sh_os sh)" if "i < length ts" for i using u that by blast
  have loop: "net_inv KCN_MSG_MAXSIZ kn \<and> (kn_fd kn \<noteq> None \<longrightarrow> nat fd \<in> open_fds (sh_os sh)) \<and>
      session_end fd kn (ts ! i, sh) \<noteq> None" if i: "i < length ts" and a: "kt_at (ts ! i) = At_loop fd kn" for i fd kn
  proof (intro conjI impI)
    from g [OF i] a show "net_inv KCN_MSG_MAXSIZ kn" by (simp add: thread_ok_def)
    from end_steps [OF a, of sh] g [OF i] sub [OF i] show "session_end fd kn (ts ! i, sh) \<noteq> None" by auto
    assume "kn_fd kn \<noteq> None"
    with a have "nat fd \<in> thread_fds (ts ! i)" by (auto simp: thread_fds_def)
    with sub [OF i] show "nat fd \<in> open_fds (sh_os sh)" by blast
  qed
  have acc: "kcndb_server_main_accept texts peer (ts ! i, sh) \<noteq> None" if "i < length ts" "numeric_names texts" for i texts peer
    using accept_returns [of "ts ! i" texts peer sh] g that by auto
  have ses: "kcndb_server_session kn_new malloc base_set everrs sk fd (ts ! i, sh) \<noteq> None"
    if "i < length ts" "kt_at (ts ! i) = At_session fd" "alloc_ok malloc" for i fd kn_new malloc base_set everrs sk
    using session_returns [OF _ that(2,3)] g [OF that(1)] by blast
  have p2: "\<forall>i < length ts. thread_fds (ts ! i) \<inter> ?base = {} \<and>
       (\<forall>j < length ts. i \<noteq> j \<longrightarrow> thread_fds (ts ! i) \<inter> thread_fds (ts ! j) = {})"
    by (intro allI impI conjI conjunct2 [OF g] d)
  have p3: "\<forall>i < length ts. \<forall>fd kn. kt_at (ts ! i) = At_loop fd kn \<longrightarrow> net_inv KCN_MSG_MAXSIZ kn \<and>
       (kn_fd kn \<noteq> None \<longrightarrow> nat fd \<in> open_fds (sh_os sh)) \<and> session_end fd kn (ts ! i, sh) \<noteq> None"
    by (intro allI impI loop)
  have p4: "\<forall>i < length ts. \<forall>texts peer. numeric_names texts \<longrightarrow> kcndb_server_main_accept texts peer (ts ! i, sh) \<noteq> None"
    by (intro allI impI acc)
  have p5: "\<forall>i < length ts. \<forall>fd kn_new malloc base_set everrs sk. kt_at (ts ! i) = At_session fd \<longrightarrow> alloc_ok malloc \<longrightarrow>
       kcndb_server_session kn_new malloc base_set everrs sk fd (ts ! i, sh) \<noteq> None"
    by (intro allI impI ses)
  show ?thesis by (intro conjI u p2 p3 p4 p5)
qed

text \<open>Without failures the server starts; a thread that finds an empty directory opens its tables.\<close>

lemma server_workers_calm: "fst (server_workers n [] d)"
  by (induction n arbitrary: d) (simp_all add: Let_def)

lemma start_calm: "\<exists>d. kcndb_server_start [] ((kcndbd_init std_shared)\<lparr>d_port := port\<rparr>) = Some (True, d) \<and>
    sh_bases (d_shared d) = kcndb_db_base \<and> sh_files (d_shared d) = replicate 7 ([], []) \<and>
    length (d_threads d) = 8"
proof -
  let ?d = "(kcndbd_init std_shared)\<lparr>d_port := port, d_shared := std_shared\<lparr>sh_os := os_set 3 (Some False)
      \<lparr>os_fds = [Some False, Some False, Some False], os_sys = []\<rparr>\<rparr>, d_socket := 3\<rparr>"
  obtain ok d where w: "server_workers 7 [] ?d = (ok, d)" by (cases "server_workers 7 [] ?d")
  with server_workers_calm [of 7 ?d] have "ok" by simp
  moreover have "length (d_threads ?d) = 8" by (simp add: kcndbd_init_def kcndb_server_threads_def)
  from server_workers_run [OF w _ this] have "d_shared d = d_shared ?d" "length (d_threads d) = 8" by simp_all
  moreover have "kcn_socket_listen 10 port \<lparr>os_fds = [Some False, Some False, Some False], os_sys = []\<rparr> =
      Some (Inr 3, os_set 3 (Some False) \<lparr>os_fds = [Some False, Some False, Some False], os_sys = []\<rparr>)"
    by (simp add: kcn_socket_listen_def kcn_sockaddr_pf2af_def kcn_sockaddr_init_def os_new_def os_call_def os_set_def Let_def)
  ultimately show ?thesis
    using w by (intro exI [of _ d]) (simp add: kcndb_server_start_def kcndbd_init_def std_shared_def)
qed

lemma main_start_opens:
  assumes "empty_dir env" "kt_db kt = None" "sh_bases sh = kcndb_db_base"
  shows "\<exists>kt' sh'. kcndb_server_main_start True env path (kt, sh) = Some (kt', sh') \<and> kt_at kt' = At_accept \<and> kt_db kt' \<noteq> None"
proof -
  from db_new_empty [OF assms(1), of path] obtain kd bases where "kcndb_db_new env path kcndb_db_base = Some (Inr kd, bases)"
    by blast
  then show ?thesis using assms(3) by (simp add: kcndb_server_main_start_def split: prod.splits)
qed

theorem daemon_descriptors_witness:
  "\<exists>d ts sh. kcndb_server_start [] (kcndbd_init std_shared) = Some (True, d) \<and>
    threads_reach (thread_step False) (d_threads (kcndb_server_loop d), d_shared (kcndb_server_loop d)) (ts, sh) \<and>
    kt_at (ts ! 0) = At_accept \<and> kt_db (ts ! 0) \<noteq> None \<and>
    open_fds (sh_os sh) = insert (nat (d_socket d)) (open_fds (sh_os std_shared)) \<union> (\<Union>i < length ts. thread_fds (ts ! i))"
proof -
  let ?env = "\<lparr>env_new = True, env_malloc = zero_malloc, env_open = \<lambda>_. Inr \<lparr>fd_data = [], fd_off = 0, fd_sys = []\<rparr>\<rparr>"
  have e: "empty_dir ?env" by (simp add: empty_dir_def alloc_total_def zero_malloc_def)
  have s: "env_shows ?env ''/db'' (replicate 7 ([], []))" by (simp add: env_shows_def)
  have "(kcndbd_init std_shared)\<lparr>d_port := KCN_HTONS 9410\<rparr> = kcndbd_init std_shared" by (simp add: kcndbd_init_def)
  from start_calm [of "KCN_HTONS 9410", unfolded this] obtain d where d: "kcndb_server_start [] (kcndbd_init std_shared) = Some (True, d)"
    "sh_bases (d_shared d) = kcndb_db_base" "sh_files (d_shared d) = replicate 7 ([], [])" "length (d_threads d) = 8" by blast
  have i: "d_socket (kcndbd_init std_shared) = - 1" "d_threads (kcndbd_init std_shared) = kcndb_server_threads"
    "d_shared (kcndbd_init std_shared) = std_shared" by (simp_all add: kcndbd_init_def)
  let ?l = "kcndb_server_loop d"
  have loop: "?l = d\<lparr>d_threads := (d_threads d)[0 := started (d_socket d) 0 (d_threads d ! 0)]\<rparr>"
    using d(4) unfolding kcndb_server_loop_def by (intro thread_run_init) simp
  from server_started(3) [OF i(1) _ d(1)] have "d_threads d ! 0 = kcndb_server_threads ! 0"
    by (simp add: i(2) kcndb_server_threads_def)
  then have t: "kt_at (d_threads ?l ! 0) = At_start" "kt_db (d_threads ?l ! 0) = None" "0 < length (d_threads ?l)"
    and sh: "d_shared ?l = d_shared d"
    using d(4) by (simp_all add: loop started_def kcndb_server_threads_def)
  from main_start_opens [OF e t(2), of "d_shared ?l" "''/db''"] d(2) sh obtain kt' sh' where
    m: "kcndb_server_main_start True ?env ''/db'' (d_threads ?l ! 0, d_shared ?l) = Some (kt', sh')"
      "kt_at kt' = At_accept" "kt_db kt' \<noteq> None" by auto
  have "thread_step False (d_threads ?l ! 0, d_shared ?l) (kt', sh')"
    by (rule th_start [OF t(1) _ m(1)]) (use s d(3) sh in simp)
  then have r: "threads_reach (thread_step False) (d_threads ?l, d_shared ?l) ((d_threads ?l)[0 := kt'], sh')"
    by (rule reach_step [OF reach_start one_thread [OF t(3)]])
  from daemon_descriptors [OF i(1,2) d(1) r] i(3) have
    "open_fds (sh_os sh') = insert (nat (d_socket d)) (open_fds (sh_os std_shared)) \<union>
      (\<Union>i < length ((d_threads ?l)[0 := kt']). thread_fds ((d_threads ?l)[0 := kt'] ! i))" by simp
  with d(1) r m(2,3) t(3) show ?thesis
    by (intro exI [of _ d] exI [of _ "(d_threads ?l)[0 := kt']"] exI [of _ sh']) simp
qed

section \<open>A descriptor that is closed twice\<close>

lemma lowest_free_is:
  assumes "n \<notin> open_fds os" "\<forall>k < n. k \<in> open_fds os"
  shows "lowest_free (os_fds os) = n"
  using lowest_free_least [of os n] lowest_free_closed [of os] assms
  by (metis (mono_tags, lifting) mem_Collect_eq nat_less_le open_fds_def)

lemma accept_calm:
  assumes "length (kt_name kt) = 52" "n \<notin> open_fds (sh_os sh)" "\<forall>k < n. k \<in> open_fds (sh_os sh)"
  shows "\<exists>m os. kcndb_server_main_accept (\<lambda>_. None) peer (kt, with_sys [] sh) =
      Some (kt\<lparr>kt_name := m, kt_at := At_session (int n)\<rparr>, (with_sys [] sh)\<lparr>sh_os := os\<rparr>) \<and>
    length m = 52 \<and> c_str m = Some [] \<and> open_fds os = insert n (open_fds (sh_os sh))"
proof -
  let ?os = "(sh_os sh)\<lparr>os_sys := []\<rparr>"
  have l: "lowest_free (os_fds ?os) = n" using lowest_free_is [of n ?os] assms(2,3) by simp
  have a: "accept_loop ?os = Some (Inr (int n), os_set n (Some False) ?os)"
    by (subst accept_loop.simps) (use l in \<open>simp add: os_new_def os_call_def Let_def\<close>)
  have b: "kcn_socket_nonblock (int n) (os_set n (Some False) ?os) =
      (Inr (), os_set n (Some True) (os_set n (Some False) ?os))"
    by (simp add: kcn_socket_nonblock_def os_call_def os_set_def)
  have c: "kcn_sockaddr_ntoa (\<lambda>_. None) (kt_name kt) 52 peer = Some (False, (kt_name kt)[0 := NUL])"
    using assms(1) by (auto simp: kcn_sockaddr_ntoa_def getnameinfo_def split: sum.splits)
  have "c_str ((kt_name kt)[0 := NUL]) = Some []" using assms(1) by (cases "kt_name kt") (auto simp: c_str_def)
  with a b c assms(1) show ?thesis
    by (intro exI [of _ "(kt_name kt)[0 := NUL]"] exI [of _ "os_set n (Some True) (os_set n (Some False) ?os)"])
      (simp add: kcndb_server_main_accept_def kcn_socket_accept_def with_sys_def)
qed

lemma session_calm:
  assumes "c_str (kt_name kt) = Some name"
  shows "\<exists>kn. kcndb_server_session True zero_malloc True [] sk fd (kt, sh) = Some (kt\<lparr>kt_at := At_loop fd kn\<rparr>, sh) \<and>
    kn_fd kn = Some sk"
proof -
  let ?d = "\<lparr>kbd_size = 4096, kbd_sp = 0, kbd_ep = 0, kbd_buf = replicate 4096 0\<rparr>"
  let ?kn = "\<lparr>kn_state = KCN_NET_STATE_PENDING, kn_name = take (KCN_SOCKNAMELEN - 1) name, kn_fd = Some sk, kn_evread = False,
      kn_evwrite = True, kn_everrs = [], kn_ibuf = \<lparr>kb_kbd = Some ?d, kb_cp = 0\<rparr>, kn_obufdata = ?d, kn_obufq = kcn_buf_queue_init\<rparr>"
  have "kcndb_server_session True zero_malloc True [] sk fd (kt, sh) = Some (kt\<lparr>kt_at := At_loop fd ?kn\<rparr>, sh)"
    using assms
    by (simp add: kcndb_server_session_def kcn_net_new_def kcn_buf_data_new_def zero_malloc_def kcn_buf_init_def
        kcn_buf_start_def kb_sp_def kcn_net_write_enable_def kcn_net_event_add_def kcn_net_read_enable_def)
  then show ?thesis by (intro exI [of _ ?kn]) simp
qed

lemma session_late:
  assumes "c_str (kt_name kt) = Some name"
  shows "kcndb_server_session True zero_malloc False [] sk fd (kt, sh) =
    Some (kt\<lparr>kt_at := At_close fd\<rparr>, sh\<lparr>sh_os := snd (kcn_socket_close fd (sh_os sh))\<rparr>)"
  using assms
  by (simp add: kcndb_server_session_def kcn_net_new_def kcn_buf_data_new_def zero_malloc_def kcn_buf_init_def
      kcn_buf_start_def kb_sp_def)

text \<open>
  C24. When \<open>kcn_net_new\<close> fails after the allocation of its structure, the descriptor of the session is closed twice.  A
  thread that accepts a connection in between is given the same descriptor, and then works on a connection whose
  descriptor is closed.
\<close>

theorem late_failure_closes_other:
  assumes "i < length ts" "j < length ts" "i \<noteq> j" "kt_at (ts ! i) = At_session (int n)" "thread_ok (ts ! i)"
    "kt_at (ts ! j) = At_accept" "thread_ok (ts ! j)" "\<forall>k \<le> n. k \<in> open_fds (sh_os sh)"
  shows "\<exists>ts' sh' kn. threads_reach (thread_step True) (ts, sh) (ts', sh') \<and>
    kt_at (ts' ! j) = At_loop (int n) kn \<and> kn_fd kn \<noteq> None \<and> n \<notin> open_fds (sh_os sh')"
proof -
  let ?sk = "\<lparr>sk_rx = [], sk_eof = False, sk_tx = [], sk_sys = []\<rparr>"
  let ?peer = "\<lparr>ss_family = AF_INET6, ss_port = 0, ss_rest = []\<rparr>"
  have z: "alloc_ok zero_malloc" by (simp add: alloc_ok_def zero_malloc_def)
  have nn: "numeric_names (\<lambda>_. None)" by (simp add: numeric_names_def)
  from assms(4,5) obtain name where name: "c_str (kt_name (ts ! i)) = Some name" by (auto simp: thread_ok_def)
  let ?ki = "(ts ! i)\<lparr>kt_at := At_close (int n)\<rparr>"
  let ?sh1 = "sh\<lparr>sh_os := snd (kcn_socket_close (int n) (sh_os sh))\<rparr>" and ?ts1 = "ts[i := ?ki]"
  have "thread_step True (ts ! i, sh) (?ki, ?sh1)"
    by (rule th_session [OF assms(4) z session_late [OF name]]) simp
  then have r1: "threads_reach (thread_step True) (ts, sh) (?ts1, ?sh1)"
    by (rule reach_step [OF reach_start one_thread [OF assms(1)]])
  have o1: "n \<notin> open_fds (sh_os ?sh1)" "\<forall>k < n. k \<in> open_fds (sh_os ?sh1)" using assms(8) by auto
  have j1: "?ts1 ! j = ts ! j" "j < length ?ts1" using assms(2,3) by simp_all
  from assms(7) have "length (kt_name (ts ! j)) = 52" by (simp add: thread_ok_def)
  from accept_calm [OF this o1, of ?peer] obtain m os where
    a: "kcndb_server_main_accept (\<lambda>_. None) ?peer (ts ! j, with_sys [] ?sh1) =
        Some ((ts ! j)\<lparr>kt_name := m, kt_at := At_session (int n)\<rparr>, (with_sys [] ?sh1)\<lparr>sh_os := os\<rparr>)"
      "length m = 52" "c_str m = Some []" "open_fds os = insert n (open_fds (sh_os ?sh1))" by blast
  let ?kj = "(ts ! j)\<lparr>kt_name := m, kt_at := At_session (int n)\<rparr>"
  let ?sh2 = "(with_sys [] ?sh1)\<lparr>sh_os := os\<rparr>" and ?ts2 = "?ts1[j := ?kj]"
  have "thread_step True (?ts1 ! j, ?sh1) (?kj, ?sh2)"
    using th_accept [OF assms(6) nn a(1)] j1(1) by simp
  then have r2: "threads_reach (thread_step True) (ts, sh) (?ts2, ?sh2)"
    by (rule reach_step [OF r1 one_thread [OF j1(2)]])
  have j2: "?ts2 ! j = ?kj" "j < length ?ts2" using assms(2) by simp_all
  have "c_str (kt_name ?kj) = Some []" using a(3) by simp
  from session_calm [OF this, of ?sk "int n" ?sh2] obtain kn where
    k: "kcndb_server_session True zero_malloc True [] ?sk (int n) (?kj, ?sh2) = Some (?kj\<lparr>kt_at := At_loop (int n) kn\<rparr>, ?sh2)"
      "kn_fd kn = Some ?sk" by blast
  let ?kj' = "?kj\<lparr>kt_at := At_loop (int n) kn\<rparr>" and ?ts3 = "?ts2[j := ?kj\<lparr>kt_at := At_loop (int n) kn\<rparr>]"
  have "kt_at ?kj = At_session (int n)" by simp
  from th_session [OF this z k(1)] j2(1) have "thread_step True (?ts2 ! j, ?sh2) (?kj', ?sh2)" by simp
  then have r3: "threads_reach (thread_step True) (ts, sh) (?ts3, ?sh2)"
    by (rule reach_step [OF r2 one_thread [OF j2(2)]])
  have i3: "?ts3 ! i = ?ki" "i < length ?ts3" using assms(1,3) by simp_all
  let ?sh4 = "?sh2\<lparr>sh_os := snd (kcn_socket_close (int n) (sh_os ?sh2))\<rparr>"
  have "kt_at ?ki = At_close (int n)" by simp
  from th_failed [OF this, of True ?sh2] have "thread_step True (?ts3 ! i, ?sh2) (?ki\<lparr>kt_at := At_accept\<rparr>, ?sh4)"
    unfolding i3(1) by (simp add: session_failed_def)
  then have r4: "threads_reach (thread_step True) (ts, sh) (?ts3[i := ?ki\<lparr>kt_at := At_accept\<rparr>], ?sh4)"
    by (rule reach_step [OF r3 one_thread [OF i3(2)]])
  have "kt_at (?ts3[i := ?ki\<lparr>kt_at := At_accept\<rparr>] ! j) = At_loop (int n) kn" using assms(2,3) by simp
  moreover have "n \<notin> open_fds (sh_os ?sh4)" by simp
  ultimately show ?thesis using r4 k(2) by blast
qed

text \<open>Two threads, of which one has accepted a connection with descriptor 3.\<close>

theorem late_failure_closes_other_witness:
  "\<exists>ts' sh' kn. threads_reach (thread_step True)
      ([(kcndb_server_threads ! 0)\<lparr>kt_at := At_session 3\<rparr>, (kcndb_server_threads ! 1)\<lparr>kt_at := At_accept\<rparr>],
       std_shared\<lparr>sh_os := \<lparr>os_fds = [Some False, Some False, Some False, Some True], os_sys = []\<rparr>\<rparr>) (ts', sh') \<and>
    kt_at (ts' ! 1) = At_loop 3 kn \<and> kn_fd kn \<noteq> None \<and> 3 \<notin> open_fds (sh_os sh')"
proof -
  let ?ts = "[(kcndb_server_threads ! 0)\<lparr>kt_at := At_session (int 3)\<rparr>, (kcndb_server_threads ! 1)\<lparr>kt_at := At_accept\<rparr>]"
  let ?sh = "std_shared\<lparr>sh_os := \<lparr>os_fds = [Some False, Some False, Some False, Some True], os_sys = []\<rparr>\<rparr>"
  have "c_str (replicate 52 NUL) \<noteq> None" by (simp add: c_str_def)
  then have ok: "thread_ok (?ts ! 0)" "thread_ok (?ts ! 1)"
    by (simp_all add: thread_ok_def kcndb_server_threads_def)
  have "\<forall>k \<le> 3. k \<in> open_fds (sh_os ?sh)"
    by (auto simp: open_fds_def fd_of_def le_Suc_eq numeral_eq_Suc)
  from late_failure_closes_other [OF _ _ _ _ ok(1) _ ok(2) this] show ?thesis by simp
qed

end
