(* ===== verification/Kcn_Lib_Spec.thy ===== *)
theory Kcn_Lib_Spec
  imports Kcn_Net Kcn_Msg
begin

text \<open>
  What the library under \<^verbatim>\<open>lib/\<close> promises its callers: the byte buffer and its queue, the message
  codecs, and the text forms of numbers and measurement types.
\<close>

section \<open>Buffers\<close>

text \<open>
  The operations of the buffer that other modules call and that do not involve a descriptor.  \<open>kcn_buf_reset\<close> has no check: its
  callers reset to 0 or to the size of a message header, and a position behind the allocated bytes is outside the contract.
\<close>

inductive buf_step :: "kcn_buf \<Rightarrow> kcn_buf \<Rightarrow> bool" where
  step_start: "kcn_buf_start kb = Some kb' \<Longrightarrow> buf_step kb kb'"
| step_end: "kcn_buf_end kb = Some kb' \<Longrightarrow> buf_step kb kb'"
| step_reset: "n \<le> kb_cap kb \<Longrightarrow> kcn_buf_reset kb n = Some kb' \<Longrightarrow> buf_step kb kb'"
| step_forward: "kcn_buf_forward kb n = Some kb' \<Longrightarrow> buf_step kb kb'"
| step_backward: "kcn_buf_backward kb n = Some kb' \<Longrightarrow> buf_step kb kb'"
| step_trim: "kcn_buf_trim_head kb n = Some kb' \<Longrightarrow> buf_step kb kb'"
| step_realign: "kcn_buf_realign kb = Some kb' \<Longrightarrow> buf_step kb kb'"
| step_prepend: "kcn_buf_prepend kb n = Some kb' \<Longrightarrow> buf_step kb kb'"
| step_get8: "kcn_buf_get8 kb = Some (b, kb') \<Longrightarrow> buf_step kb kb'"
| step_get16: "kcn_buf_get16 kb = Some (v16, kb') \<Longrightarrow> buf_step kb kb'"
| step_get32: "kcn_buf_get32 kb = Some (v32, kb') \<Longrightarrow> buf_step kb kb'"
| step_get64: "kcn_buf_get64 kb = Some (v64, kb') \<Longrightarrow> buf_step kb kb'"
| step_put8: "kcn_buf_put8 kb b = Some kb' \<Longrightarrow> buf_step kb kb'"
| step_put16: "kcn_buf_put16 kb v16 = Some kb' \<Longrightarrow> buf_step kb kb'"
| step_put32: "kcn_buf_put32 kb v32 = Some kb' \<Longrightarrow> buf_step kb kb'"
| step_put64: "kcn_buf_put64 kb v64 = Some kb' \<Longrightarrow> buf_step kb kb'"
| step_put: "kcn_buf_put kb bs = Some kb' \<Longrightarrow> buf_step kb kb'"
| step_putnull: "kcn_buf_putnull kb n = Some kb' \<Longrightarrow> buf_step kb kb'"

lemma buf_step_zbuf:
  assumes "buf_step (zbuf pre h t post) kb'"
  shows "kb_wf kb' \<and> kb_cap kb' = kb_cap (zbuf pre h t post)"
  using assms
proof (cases rule: buf_step.cases)
  case (step_reset n)
  then have "kb' = zbuf (take n (pre @ h @ t @ post)) [] [] (drop n (pre @ h @ t @ post))"
    by (simp add: zbuf_reset del: take_append drop_append)
  then show ?thesis by (simp del: take_append drop_append)
qed (auto simp: zbuf_simps split: if_splits)

lemma reset_beyond: "kb_kbd kb \<noteq> None \<Longrightarrow> kb_cap kb < n \<Longrightarrow> \<exists>kb'. kcn_buf_reset kb n = Some kb' \<and> \<not> kb_wf kb'"
  by (auto simp: kcn_buf_reset_def kb_set_ep_def kb_set_sp_def kb_wf_def kb_cap_def)

text \<open>
  C39. A buffer stays well-formed, with the capacity it was made with, under every sequence of
  the operations that other modules call, as long as a reset is to a position within the capacity: the start, the current position
  and the end keep their order and stay within the allocated bytes, as long as no operation fails its assertion.
\<close>

theorem buf_ops_safe:
  assumes "buf_step\<^sup>*\<^sup>* kb kb'" "kb_wf kb"
  shows "kb_wf kb' \<and> kb_cap kb' = kb_cap kb"
  using assms
proof (induction rule: rtranclp_induct)
  case (step kb1 kb2)
  then have "kb_wf kb1" by simp
  then obtain pre h t post where "kb1 = zbuf pre h t post" by (rule kb_wf_zbufE)
  with step buf_step_zbuf [of pre h t post kb2] show ?case by simp
qed simp

theorem buf_ops_safe_witness:
  "\<exists>kb. buf_step\<^sup>*\<^sup>* (zbuf [] [] [] [0, 0]) kb \<and> kb = zbuf [] [1, 2] [] [] \<and> kb_wf kb \<and> kb_cap kb = 2"
proof -
  have "buf_step (zbuf [] [] [] [0, 0]) (zbuf [] [1, 2] [] [])"
    by (rule step_put [of _ "[1, 2]"]) (simp add: zbuf_simps)
  then have s: "buf_step\<^sup>*\<^sup>* (zbuf [] [] [] [0, 0]) (zbuf [] [1, 2] [] [])" by blast
  from buf_ops_safe [OF s] s show ?thesis by simp
qed

text \<open>
  What is put into an empty buffer that is large enough is what is read from its start:
  integers of every width at their value, in network byte order, and raw bytes after them.
\<close>

lemma buf_put_get_roundtrip:
  assumes "kb_wf kb" "15 + length bs \<le> kb_cap kb"
  shows "do {
      kb \<leftarrow> kcn_buf_reset kb 0;
      kb \<leftarrow> kcn_buf_put8 kb a;
      kb \<leftarrow> kcn_buf_put16 kb b;
      kb \<leftarrow> kcn_buf_put32 kb c;
      kb \<leftarrow> kcn_buf_put64 kb d;
      kb \<leftarrow> kcn_buf_put kb bs;
      kb \<leftarrow> kcn_buf_start kb;
      (a, kb) \<leftarrow> kcn_buf_get8 kb;
      (b, kb) \<leftarrow> kcn_buf_get16 kb;
      (c, kb) \<leftarrow> kcn_buf_get32 kb;
      (d, kb) \<leftarrow> kcn_buf_get64 kb;
      Some (a, b, c, d, kb_trailing kb)
    } = Some (a, b, c, d, bs)"
proof -
  from assms(1) obtain pre h t post where kb: "kb = zbuf pre h t post" by (rule kb_wf_zbufE)
  define rest where "rest = pre @ h @ t @ post"
  from assms(2) have "15 + length bs \<le> length rest" by (simp add: kb rest_def)
  then show ?thesis by (auto simp add: kb zbuf_simps simp flip: rest_def)
qed

text \<open>
  Realigning moves the data to the front of the buffer: nothing of it is lost, the current
  position stays at the same byte, and all the free space is behind the data.
\<close>

lemma buf_realign_keeps_data:
  assumes "kb_wf kb"
  shows "\<exists>kb'. kcn_buf_realign kb = Some kb' \<and> kb_wf kb' \<and> kb_heading kb' = kb_heading kb \<and>
    kb_trailing kb' = kb_trailing kb \<and> kcn_buf_headingspace kb' = Some 0 \<and>
    kcn_buf_trailingspace kb' = Some (kb_cap kb - length (kb_data kb))"
proof -
  from assms obtain pre h t post where "kb = zbuf pre h t post" by (rule kb_wf_zbufE)
  then show ?thesis by (simp add: zbuf_simps)
qed

text \<open>
  The output queue is first in, first out: a copy of what is enqueued goes to its end, and
  what is fetched is the oldest entry, with the current position at its first byte.
\<close>

lemma queue_fifo:
  assumes "alloc_ok malloc" "malloc (length (kb_data kb)) \<noteq> None" "kb_wf kb" "\<forall>d \<in> set q. kbd_wf d"
  shows "\<exists>q' kb'. kcn_buf_enqueue malloc kb q = Some (True, q') \<and>
    map kbd_bytes q' = map kbd_bytes q @ [kb_data kb] \<and>
    kcn_buf_fetch kb0 q' = Some (True, kb') \<and> kb_wf kb' \<and> kb_heading kb' = [] \<and>
    kb_trailing kb' = hd (map kbd_bytes q') \<and> kcn_buf_drop kb' q' = Some (kcn_net_purge_buf, tl q')"
proof -
  from enqueue_ok [OF assms(1,3), of q] assms(2) obtain d where
    e: "kcn_buf_enqueue malloc kb q = Some (True, q @ [d])" "kbd_wf d" "kbd_bytes d = kb_data kb" by auto
  obtain x xs where x: "q @ [d] = x # xs" by (cases "q @ [d]") auto
  with e(2) assms(4) have "kbd_wf x" by (cases q) auto
  then obtain pre post where f: "kcn_buf_fetch kb0 (x # xs) = Some (True, zbuf pre [] (kbd_bytes x) post)"
    "kb_kbd (zbuf pre [] (kbd_bytes x) post) = Some x"
    by (rule fetch_zbuf [of x kb0 xs])
  from e(1) x have "kcn_buf_enqueue malloc kb q = Some (True, x # xs)" by simp
  moreover from arg_cong [OF x, of "map kbd_bytes"] e(3)
  have "map kbd_bytes (x # xs) = map kbd_bytes q @ [kb_data kb]" by simp
  moreover from f(2) have "kcn_buf_drop (zbuf pre [] (kbd_bytes x) post) (x # xs) = Some (kcn_net_purge_buf, tl (x # xs))"
    by (simp add: kcn_buf_drop_def kcn_net_purge_buf_def kcn_buf_init_def)
  moreover have "kb_trailing (zbuf pre [] (kbd_bytes x) post) = hd (map kbd_bytes (x # xs))" by simp
  ultimately show ?thesis using f(1) kb_wf_zbuf zbuf_views(1) by blast
qed

text \<open>
  Reading from a socket into a buffer with room neither loses nor adds a byte: what was
  taken from the socket is behind the data, in order, the data before it is as it was, and the result
  is 0 exactly if something arrived; an interruption is never reported.
\<close>

lemma buf_read_socket:
  assumes "kb_wf kb" "length (kb_data kb) < kb_cap kb"
  shows "\<exists>error sk' kb' bs. kcn_buf_read sock_read sk kb = Some (error, sk', kb') \<and> kb_wf kb' \<and>
    kb_cap kb' = kb_cap kb \<and> kb_heading kb' = kb_heading kb \<and> kb_trailing kb' = kb_trailing kb @ bs \<and>
    sk_rx sk = bs @ sk_rx sk' \<and> sk_tx sk' = sk_tx sk \<and> (error = 0 \<longleftrightarrow> bs \<noteq> []) \<and> error \<noteq> EINTR"
proof -
  from sock_reader.read_wf [OF assms, of sk] obtain error sk' bs kb' n where
    "kcn_buf_read sock_read sk kb = Some (error, sk', kb')" "kb_wf kb'" "error \<noteq> EINTR" "error = 0 \<longleftrightarrow> bs \<noteq> []"
    "sock_rd_post sk n error bs sk'" "kb_heading kb' = kb_heading kb"
    "kb_trailing kb' = kb_trailing kb @ bs" "kb_cap kb' = kb_cap kb" by blast
  then show ?thesis by (intro exI [of _ error] exI [of _ sk'] exI [of _ kb'] exI [of _ bs]) (simp add: sock_rd_post_def)
qed

text \<open>
  A hex dump of any part of the data of a buffer returns, and each of its lines fits the
  line buffer of 49 characters with its terminating NUL.
\<close>

lemma dump_lines_fit:
  assumes "kb_wf kb" "n \<le> length (kb_data kb)"
  shows "\<exists>ls. kcn_buf_dump logging kb n = Some ls \<and> (\<forall>l \<in> set ls. length l + 1 \<le> 49)"
  using dump_ok [OF assms, of logging] by auto

section \<open>Messages\<close>

text \<open>
  C37. A query that is encoded into a buffer and decoded from its start, header and body, is the
  same query, and nothing is left in the buffer.
\<close>

theorem query_roundtrip:
  assumes "kb_wf kb" "32 \<le> kb_cap kb" "kmq_loctype q \<le> 1" "ke_type (kmq_eq q) < 256" "ke_op (kmq_eq q) < 256"
  shows "do {
      kb \<leftarrow> kcn_msg_query_encode kb q;
      kb \<leftarrow> kcn_buf_start kb;
      (kmh, kb) \<leftarrow> kcn_msg_header_decode kb;
      (case kmh of
         Inl e \<Rightarrow> None
       | Inr kmh \<Rightarrow> do { (q, kb) \<leftarrow> kcn_msg_query_decode kb kmh; Some (kmh_type kmh, q, kb_data kb) })
    } = Some (KCN_MSG_TYPE_QUERY, Inr q, [])"
proof -
  from query_encode_ok [OF assms(1,2)] obtain post where
    "kcn_msg_query_encode kb q = Some (zbuf [] (header_bytes 1 (query_body q)) (query_body q) post)" by blast
  with header_decode_msg [of "query_body q" "[]" 1 "[]" post] query_decode_body [OF _ assms(3-5), where rest = "[]"]
  show ?thesis by (simp add: zbuf_simps)
qed

theorem query_roundtrip_witness:
  "do {
      kb \<leftarrow> kcn_msg_query_encode (zbuf [] [] [] (replicate 32 0)) \<lparr>kmq_loctype = 1, kmq_maxcount = 10,
         kmq_eq = \<lparr>ke_type = 4, ke_op = 2, ke_val = 100, ke_start = 0, ke_end = - 1\<rparr>\<rparr>;
      kb \<leftarrow> kcn_buf_start kb;
      (kmh, kb) \<leftarrow> kcn_msg_header_decode kb;
      (case kmh of
         Inl e \<Rightarrow> None
       | Inr kmh \<Rightarrow> do { (q, kb) \<leftarrow> kcn_msg_query_decode kb kmh; Some (kmh_type kmh, q, kb_data kb) })
    } = Some (1, Inr \<lparr>kmq_loctype = 1, kmq_maxcount = 10,
         kmq_eq = \<lparr>ke_type = 4, ke_op = 2, ke_val = 100, ke_start = 0, ke_end = - 1\<rparr>\<rparr>, [])"
  by (rule query_roundtrip) (simp_all add: word_le_nat_alt word_less_nat_alt)

text \<open>
  A response survives encoding and decoding: its error, its score and the bytes of its
  locator; a response without a locator has none after it either.
\<close>

lemma response_roundtrip:
  assumes "kb_wf kb" "6 + length loc \<le> kb_cap kb" "length loc \<le> 4090"
  shows "do {
      kb \<leftarrow> kcn_msg_response_encode kb \<lparr>kmr_error = e, kmr_score = s, kmr_loc = Some loc, kmr_loclen = length loc\<rparr>;
      kb \<leftarrow> kcn_buf_start kb;
      (kmh, kb) \<leftarrow> kcn_msg_header_decode kb;
      (case kmh of
         Inl e \<Rightarrow> None
       | Inr kmh \<Rightarrow> do { (r, kb) \<leftarrow> kcn_msg_response_decode kb kmh; Some (kmh_type kmh, r, kb_data kb) })
    } = Some (KCN_MSG_TYPE_RESPONSE, Inr \<lparr>kmr_error = e, kmr_score = s,
          kmr_loc = (if loc = [] then None else Some loc), kmr_loclen = length loc\<rparr>, [])"
proof -
  let ?r = "\<lparr>kmr_error = e, kmr_score = s, kmr_loc = Some loc, kmr_loclen = length loc\<rparr>"
  have b: "response_body ?r = e # s # loc" by (simp add: response_body_def)
  with response_encode_ok [OF assms(1), of ?r] assms(2) obtain post where
    "kcn_msg_response_encode kb ?r = Some (zbuf [] (header_bytes 2 (e # s # loc)) (e # s # loc) post)" by auto
  with header_decode_msg [of "e # s # loc" "[]" 2 "[]" post] assms(3) show ?thesis
    by (simp add: zbuf_simps response_decode_zbuf)
qed

text \<open>
  A record to add survives encoding and decoding: type, time, value and locator.
\<close>

lemma add_roundtrip:
  assumes "kb_wf kb" "21 + length (kma_loc a) \<le> kb_cap kb" "length (kma_loc a) \<le> 4075" "kma_type a < 256"
    "kma_loclen a = length (kma_loc a)"
  shows "do {
      kb \<leftarrow> kcn_msg_add_encode kb a;
      kb \<leftarrow> kcn_buf_start kb;
      (kmh, kb) \<leftarrow> kcn_msg_header_decode kb;
      (case kmh of
         Inl e \<Rightarrow> None
       | Inr kmh \<Rightarrow> do { (a, kb) \<leftarrow> kcn_msg_add_decode kb kmh; Some (kmh_type kmh, a, kb_data kb) })
    } = Some (KCN_MSG_TYPE_ADD, Inr a, [])"
proof -
  from assms(5) have l: "length (add_body a) = 17 + length (kma_loc a)" by (simp add: length_add_body)
  with add_encode_ok [OF assms(1), of a] assms(2,5) obtain post where
    "kcn_msg_add_encode kb a = Some (zbuf [] (header_bytes 3 (add_body a)) (add_body a) post)" by auto
  with header_decode_msg [of "add_body a" "[]" 3 "[]" post] l assms(3) add_decode_body [OF _ assms(4,5), where rest = "[]"]
  show ?thesis by (simp add: zbuf_simps)
qed

section \<open>Text forms\<close>

text \<open>
  The decimal text of a number is parsed to that number, or refused with \<open>ERANGE\<close> outside the
  caller's range; but a number of \<open>2 ^ 63\<close> or more silently becomes \<open>2 ^ 63 - 1\<close>, although the
  function is the parser of unsigned 64-bit values.
\<close>

lemma strtoull_decimal:
  "kcn_strtoull (decimal n) lo hi =
     (let v = of_nat (min n (2 ^ 63 - 1)) in if lo \<le> v \<and> v \<le> hi then Inr v else Inl ERANGE)"
  by (cases "n < 2 ^ 63") (auto simp: kcn_strtoull_def strtoll_decimal Let_def min_def not_le not_less)

text \<open>
  C40. Exactly the seven measurement types have a name, and the parser maps it back to the type; every other
  number, 0 and those from 8 on, is refused with \<open>ENOENT\<close>.
\<close>

theorem type_name_roundtrip:
  "case kcn_eq_type_ntoa type of
     Inr s \<Rightarrow> 1 \<le> type \<and> type \<le> 7 \<and> kcn_eq_type_aton s = Inr type
   | Inl e \<Rightarrow> e = ENOENT \<and> (type = 0 \<or> 8 \<le> type)"
proof (cases "kcn_eq_type_ntoa type")
  case (Inl e)
  then show ?thesis by (auto simp: kcn_eq_type_ntoa_def split: if_splits)
next
  case (Inr s)
  with type_aton_ntoa [OF Inr] type_aton_range [of s type] show ?thesis by simp
qed

end
