(* ===== verification/Kcn_Info.thy ===== *)
theory Kcn_Info
  imports Kcn_Msg Kcn_Keys
begin

text \<open>
  \<^verbatim>\<open>lib/kcn_info.c\<close>: what a search is asked for and the locators it has found, at most \<open>maxnlocs\<close>.
  The strings of the structure are arrays of fixed size; they are modelled by their contents before
  the terminating NUL.  \<open>ki_nlocs\<close> is the length of \<open>ki_locs\<close>; a locator is the memory block of its
  copy, with the NUL.
\<close>

section \<open>Structures\<close>

abbreviation (input) KCN_INFO_DBNAMESTRLEN :: nat where "KCN_INFO_DBNAMESTRLEN \<equiv> 7"
abbreviation (input) KCN_INET_ADDRSTRLEN :: nat where "KCN_INET_ADDRSTRLEN \<equiv> 46"

record kcn_loc =
  kl_uri :: "byte list"
  kl_score :: nat

record kcn_info =
  ki_loctype :: c_enum
  ki_maxnlocs :: nat
  ki_dbname :: string
  ki_country :: string
  ki_userip :: string
  ki_time :: time_t
  ki_locs :: "kcn_loc list"

text \<open>The contents of an array of \<open>n\<close> characters after \<open>strlcpy\<close>.\<close>

definition c_strlcpy :: "string \<Rightarrow> nat \<Rightarrow> string" where
  "c_strlcpy src n = take (n - 1) src"

section \<open>Operations\<close>

text \<open>
  The size in bytes that the structure is allocated with, \<^verbatim>\<open>offsetof(struct kcn_info, ki_locs[maxnlocs])\<close>, a \<open>size_t\<close>: on
  a machine of 64 bits \<open>ki_locs\<close> is at 88, behind \<open>ki_nlocs\<close>, and a \<open>struct kcn_loc\<close> has 16 bytes.  The sum wraps, so that a
  great \<open>maxnlocs\<close> gets a small block; a store behind the end of the block is \<^const>\<open>None\<close>.
\<close>

definition kcn_info_size :: "nat \<Rightarrow> nat" where
  "kcn_info_size maxnlocs = unat (88 + 16 * of_nat maxnlocs :: uint64)"

text \<open>\<open>ki_new\<close>: whether the structure can be allocated.\<close>

definition kcn_info_new :: "bool \<Rightarrow> c_enum \<Rightarrow> nat \<Rightarrow> kcn_info option option" where
  "kcn_info_new ki_new loctype maxnlocs = do {
     c_assert (maxnlocs > 0);
     (if \<not> ki_new then Some None
      else do {
        c_assert (88 \<le> kcn_info_size maxnlocs);
        Some (Some \<lparr>ki_loctype = loctype, ki_maxnlocs = maxnlocs, ki_dbname = '''', ki_country = '''',
                    ki_userip = '''', ki_time = 0, ki_locs = []\<rparr>)
      })
   }"

definition kcn_info_loc_type :: "kcn_info \<Rightarrow> c_enum" where
  "kcn_info_loc_type ki = ki_loctype ki"

definition kcn_info_maxnlocs :: "kcn_info \<Rightarrow> nat" where
  "kcn_info_maxnlocs ki = ki_maxnlocs ki"

definition kcn_info_db_unset :: "kcn_info \<Rightarrow> kcn_info" where
  "kcn_info_db_unset ki = ki\<lparr>ki_dbname := ''''\<rparr>"

definition kcn_info_db_set :: "kcn_info \<Rightarrow> string option \<Rightarrow> kcn_info" where
  "kcn_info_db_set ki dbname =
     (let ki = kcn_info_db_unset ki in
      case dbname of
        None \<Rightarrow> ki
      | Some dbname \<Rightarrow> ki\<lparr>ki_dbname := c_strlcpy dbname KCN_INFO_DBNAMESTRLEN\<rparr>)"

definition kcn_info_db :: "kcn_info \<Rightarrow> string option" where
  "kcn_info_db ki = (if ki_dbname ki = '''' then None else Some (ki_dbname ki))"

definition kcn_info_country_set :: "kcn_info \<Rightarrow> string option \<Rightarrow> kcn_info option" where
  "kcn_info_country_set ki country =
     (case country of
        None \<Rightarrow> Some ki
      | Some country \<Rightarrow> do {
          c_assert (country \<noteq> '''');
          Some (ki\<lparr>ki_country := take 2 country\<rparr>)
        })"

definition kcn_info_country :: "kcn_info \<Rightarrow> string option" where
  "kcn_info_country ki = (if ki_country ki = '''' then None else Some (ki_country ki))"

definition kcn_info_userip_set :: "kcn_info \<Rightarrow> string option \<Rightarrow> kcn_info" where
  "kcn_info_userip_set ki userip =
     (case userip of
        None \<Rightarrow> ki
      | Some userip \<Rightarrow> ki\<lparr>ki_userip := c_strlcpy userip KCN_INET_ADDRSTRLEN\<rparr>)"

definition kcn_info_userip :: "kcn_info \<Rightarrow> string option" where
  "kcn_info_userip ki = (if ki_userip ki = '''' then None else Some (ki_userip ki))"

definition kcn_info_nlocs :: "kcn_info \<Rightarrow> nat" where
  "kcn_info_nlocs ki = length (ki_locs ki)"

definition kcn_info_loc :: "kcn_info \<Rightarrow> nat \<Rightarrow> byte list option" where
  "kcn_info_loc ki idx = (if idx \<ge> kcn_info_nlocs ki then None else Some (kl_uri (ki_locs ki ! idx)))"

definition kcn_info_loc_add ::
  "allocator \<Rightarrow> kcn_info \<Rightarrow> byte list \<Rightarrow> nat \<Rightarrow> nat \<Rightarrow> (unit result \<times> kcn_info) option" where
  "kcn_info_loc_add malloc ki locstr locstrlen score = do {
     c_assert (kcn_info_nlocs ki < ki_maxnlocs ki);
     uri \<leftarrow> kcn_str_dup malloc locstr locstrlen;
     c_assert (88 + 16 * (kcn_info_nlocs ki + 1) \<le> kcn_info_size (ki_maxnlocs ki));
     Some (case uri of
         None \<Rightarrow> (Inl ENOMEM, ki)
       | Some uri \<Rightarrow> (Inr (), ki\<lparr>ki_locs := ki_locs ki @ [\<lparr>kl_uri = uri, kl_score = score\<rparr>]\<rparr>))
   }"

definition kcn_info_loc_free :: "kcn_info \<Rightarrow> kcn_info" where
  "kcn_info_loc_free ki = ki\<lparr>ki_locs := []\<rparr>"

section \<open>The invariant\<close>

definition info_ok :: "kcn_info \<Rightarrow> bool" where
  "info_ok ki \<longleftrightarrow> 0 < ki_maxnlocs ki \<and> 88 + 16 * ki_maxnlocs ki < 2 ^ 64 \<and> kcn_info_nlocs ki \<le> ki_maxnlocs ki \<and>
     length (ki_dbname ki) < KCN_INFO_DBNAMESTRLEN \<and> length (ki_country ki) < 3 \<and>
     length (ki_userip ki) < KCN_INET_ADDRSTRLEN"

text \<open>Room for \<open>n\<close> more locators, in a block whose size has not wrapped.\<close>

abbreviation info_room :: "kcn_info \<Rightarrow> nat \<Rightarrow> bool" where
  "info_room ki n \<equiv> kcn_info_nlocs ki + n \<le> kcn_info_maxnlocs ki \<and> 88 + 16 * kcn_info_maxnlocs ki < 2 ^ 64"

text \<open>The bytes of the locators, as they were found.\<close>

definition info_locs :: "kcn_info \<Rightarrow> byte list list" where
  "info_locs ki = map (\<lambda>l. butlast (kl_uri l)) (ki_locs ki)"

text \<open>The block has room for all its locators unless its size has wrapped.\<close>

lemma info_size_exact: "88 + 16 * n < 2 ^ 64 \<Longrightarrow> kcn_info_size n = 88 + 16 * n"
proof -
  assume "88 + 16 * n < 2 ^ 64"
  then have "unat (of_nat (88 + 16 * n) :: uint64) = 88 + 16 * n" by (subst unat_of_nat) simp
  then show ?thesis by (simp add: kcn_info_size_def)
qed

lemma info_room_block: "info_room ki (Suc n) \<Longrightarrow> 88 + 16 * (kcn_info_nlocs ki + 1) \<le> kcn_info_size (ki_maxnlocs ki)"
  by (simp add: info_size_exact kcn_info_maxnlocs_def)

lemma info_new_ok:
  "88 + 16 * maxnlocs < 2 ^ 64 \<Longrightarrow> kcn_info_new ki_new loctype maxnlocs = Some (Some ki) \<Longrightarrow> info_ok ki \<and> info_locs ki = []"
  by (auto simp: kcn_info_new_def info_ok_def kcn_info_nlocs_def info_locs_def bind_eq_Some_conv split: if_splits)

lemma info_ok_block: "info_ok ki \<Longrightarrow> 88 + 16 * kcn_info_maxnlocs ki < 2 ^ 64"
  by (simp add: info_ok_def kcn_info_maxnlocs_def)

lemma info_set_ok:
  "info_ok ki \<Longrightarrow> info_ok (kcn_info_db_set ki name)"
  "info_ok ki \<Longrightarrow> kcn_info_country_set ki name = Some ki' \<Longrightarrow> info_ok ki'"
  "info_ok ki \<Longrightarrow> info_ok (kcn_info_userip_set ki name)"
  "info_ok ki \<Longrightarrow> info_ok (kcn_info_loc_free ki)"
  by (auto simp: info_ok_def kcn_info_db_set_def kcn_info_db_unset_def kcn_info_country_set_def kcn_info_nlocs_def
      kcn_info_userip_set_def kcn_info_loc_free_def c_strlcpy_def Let_def split: option.splits)

text \<open>A locator is added at the end as long as there is room for it and memory.\<close>

lemma info_loc_add_ok:
  assumes "alloc_ok malloc" "info_ok ki" "kcn_info_nlocs ki < kcn_info_maxnlocs ki" "n \<le> length loc"
  shows "\<exists>r ki'. kcn_info_loc_add malloc ki loc n score = Some (r, ki') \<and> info_ok ki' \<and>
    ki_maxnlocs ki' = ki_maxnlocs ki \<and>
    (if malloc (n + 1) = None then r = Inl ENOMEM \<and> ki' = ki
     else r = Inr () \<and> info_locs ki' = info_locs ki @ [take n loc] \<and> kcn_info_nlocs ki' = kcn_info_nlocs ki + 1)"
proof -
  have "88 + 16 * (kcn_info_nlocs ki + 1) \<le> kcn_info_size (ki_maxnlocs ki)"
    using assms(2,3) by (simp add: info_ok_def info_size_exact kcn_info_maxnlocs_def)
  with assms str_dup_ok [OF assms(1,4)] show ?thesis
    by (auto simp: kcn_info_loc_add_def kcn_info_maxnlocs_def info_ok_def kcn_info_nlocs_def info_locs_def butlast_append)
qed

end
