(* ===== verification/Kcn_Client.thy ===== *)
theory Kcn_Client
  imports Kcn_Info Kcn_Wire
begin

text \<open>
  \<^verbatim>\<open>lib/kcn_client.c\<close>: the client's side of a connection.  A search sends one query and then runs the
  event loop, in which the read callback collects the locators of the responses until the final
  response, or until one of them is an error.

  \<open>errno\<close> is written by the callback, and read by it where no call has set it: the value it has
  when the callback is entered is an argument of the definitions.
\<close>

section \<open>The read callback\<close>

record kcn_client_response =
  kcr_error :: errno
  kcr_ki :: kcn_info

partial_function (option) kcn_client_read_loop ::
  "allocator \<Rightarrow> errno \<Rightarrow> kcn_buf \<Rightarrow> kcn_info \<Rightarrow> (errno \<times> kcn_buf \<times> kcn_info) option" where
  "kcn_client_read_loop malloc errno kb ki =
     (case kcn_msg_header_decode kb of
        None \<Rightarrow> None
      | Some (Inl e, kb) \<Rightarrow> Some (e, kb, ki)
      | Some (Inr kmh, kb) \<Rightarrow>
          (if kmh_type kmh \<noteq> KCN_MSG_TYPE_RESPONSE then Some (EINVAL, kb, ki)
           else case kcn_msg_response_decode kb kmh of
             None \<Rightarrow> None
           | Some (Inl e, kb) \<Rightarrow> Some (e, kb, ki)
           | Some (Inr kmr, kb) \<Rightarrow>
               (if kmr_loclen kmr = 0
                then Some (if unat (kmr_error kmr) \<noteq> EAGAIN then unat (kmr_error kmr) else errno, kb, ki)
                else if kcn_info_maxnlocs ki = kcn_info_nlocs ki then Some (ETOOMANYREFS, kb, ki)
                else case kmr_loc kmr of
                  None \<Rightarrow> None
                | Some loc \<Rightarrow>
                    (case kcn_info_loc_add malloc ki loc (kmr_loclen kmr) (unat (kmr_score kmr)) of
                       None \<Rightarrow> None
                     | Some (Inl e, ki) \<Rightarrow> Some (e, kb, ki)
                     | Some (Inr _, ki) \<Rightarrow> kcn_client_read_loop malloc errno kb ki))))"

definition kcn_client_read :: "allocator \<Rightarrow> errno \<Rightarrow> kcn_client_response net_readcb" where
  "kcn_client_read malloc errno kn kcr = do {
     (errno, kb, ki) \<leftarrow> kcn_client_read_loop malloc errno (kn_ibuf kn) (kcr_ki kcr);
     Some (errno, kn\<lparr>kn_ibuf := kb\<rparr>, kcr\<lparr>kcr_error := errno, kcr_ki := ki\<rparr>)
   }"

section \<open>Sending\<close>

definition kcn_client_query_send ::
  "allocator \<Rightarrow> kcn_net \<Rightarrow> kcn_msg_query \<Rightarrow> (unit result \<times> kcn_net) option" where
  "kcn_client_query_send malloc kn kmq = do {
     kb \<leftarrow> kcn_net_obuf kn;
     kb \<leftarrow> kcn_msg_query_encode kb kmq;
     kn \<leftarrow> Some (kn_obuf_sync kb kn);
     (r, kn) \<leftarrow> kcn_net_write malloc kn kb;
     (case r of
        Inl e \<Rightarrow> Some (Inl e, kn)
      | Inr _ \<Rightarrow> kcn_net_read_enable kn)
   }"

definition kcn_client_add_send ::
  "allocator \<Rightarrow> kcn_net \<Rightarrow> kcn_msg_add \<Rightarrow> (unit result \<times> kcn_net) option" where
  "kcn_client_add_send malloc kn kma = do {
     kb \<leftarrow> kcn_net_obuf kn;
     kb \<leftarrow> kcn_msg_add_encode kb kma;
     kn \<leftarrow> Some (kn_obuf_sync kb kn);
     kcn_net_write malloc kn kb
   }"

section \<open>A search\<close>

text \<open>
  What a search gets from its surroundings: the results of \<open>event_init\<close>, of the conversion of the
  server's address and of the connection to it; what \<open>kcn_net_new\<close> needs, and \<open>errno\<close> when it
  fails; and the event loop \<open>event_base_dispatch\<close>, which runs the callbacks of the connection and
  returns whether it succeeded, \<open>errno\<close>, and the state that is left.
\<close>

record client_env =
  ce_event_init :: "unit result"
  ce_aton :: "unit result"
  ce_connect :: "sock result"
  ce_ntoa :: string
  ce_kn_new :: bool
  ce_malloc :: allocator
  ce_base_set :: bool
  ce_everrs :: "errno list"
  ce_new_errno :: errno
  ce_read_errno :: errno
  ce_dispatch :: "kcn_client_response net_readcb \<Rightarrow> kcn_net \<Rightarrow> kcn_client_response \<Rightarrow>
    (bool \<times> errno \<times> kcn_net \<times> kcn_client_response) option"

definition kcn_client_init :: "client_env \<Rightarrow> kcn_net result option" where
  "kcn_client_init env =
     (case ce_aton env of
        Inl e \<Rightarrow> Some (Inl e)
      | Inr _ \<Rightarrow>
          (case ce_connect env of
             Inl e \<Rightarrow> Some (Inl e)
           | Inr fd \<Rightarrow> do {
               kn \<leftarrow> kcn_net_new (ce_kn_new env) (ce_malloc env) (ce_base_set env) (ce_everrs env) fd
                 KCN_MSG_MAXSIZ (ce_ntoa env);
               Some (case kn of None \<Rightarrow> Inl (ce_new_errno env) | Some kn \<Rightarrow> Inr kn)
             }))"

definition kcn_client_finish :: "kcn_net \<Rightarrow> kcn_net option" where
  "kcn_client_finish kn = kcn_net_destroy kn"

text \<open>The result: what the function returns, \<open>errno\<close>, and the information with the locators found.\<close>

definition kcn_client_search ::
  "client_env \<Rightarrow> kcn_info \<Rightarrow> kcn_msg_query \<Rightarrow> (bool \<times> errno \<times> kcn_info) option" where
  "kcn_client_search env ki kmq =
     (case ce_event_init env of
        Inl e \<Rightarrow> Some (False, e, ki)
      | Inr _ \<Rightarrow> do {
          kn \<leftarrow> kcn_client_init env;
          (case kn of
             Inl e \<Rightarrow> Some (False, e, ki)
           | Inr kn \<Rightarrow> do {
               (r, kn) \<leftarrow> kcn_client_query_send (ce_malloc env) kn kmq;
               (case r of
                  Inl e \<Rightarrow> do { _ \<leftarrow> kcn_net_destroy kn; Some (False, e, ki) }
                | Inr _ \<Rightarrow> do {
                    (ok, errno, kn, kcr) \<leftarrow> ce_dispatch env (kcn_client_read (ce_malloc env) (ce_read_errno env)) kn
                      \<lparr>kcr_error = 0, kcr_ki = ki\<rparr>;
                    (if \<not> ok then do { _ \<leftarrow> kcn_net_destroy kn; Some (False, errno, kcr_ki kcr) }
                     else if kcr_error kcr \<noteq> 0
                     then do { _ \<leftarrow> kcn_net_destroy kn; Some (False, kcr_error kcr, kcr_ki kcr) }
                     else do { _ \<leftarrow> kcn_client_finish kn; Some (True, errno, kcr_ki kcr) })
                  })
             })
        })"

section \<open>The callback on a well-formed answer\<close>

text \<open>The answer of a server: a response per locator, with its score, and a final one.\<close>

definition answer :: "(nat \<times> byte list) list \<Rightarrow> errno \<Rightarrow> byte list" where
  "answer locs e = concat (map (\<lambda>(score, loc). response_msg (loc_response score loc)) locs) @ response_msg (end_response e)"

lemma answer_simps [simp]:
  "answer [] e = response_msg (end_response e)"
  "answer ((score, loc) # locs) e = response_msg (loc_response score loc) @ answer locs e"
  by (simp_all add: answer_def)

text \<open>The beginning of a message.\<close>

lemma header_decode_prefix:
  assumes "length body \<le> 4092" "header_bytes type body @ body = t @ u" "u \<noteq> []"
  shows "kcn_msg_header_decode (zbuf pre [] t post) = Some (Inl EAGAIN, zbuf pre [] t post)"
proof (cases "length t < 4")
  case True
  then show ?thesis by (simp add: header_decode_zbuf)
next
  case False
  then have "header_bytes type body = take 4 t"
    using arg_cong [OF assms(2), of "take 4"] by simp
  then have t: "t = header_bytes type body @ drop 4 t" by simp
  with assms(2) have "body = drop 4 t @ u" by (metis append.assoc same_append_eq)
  with assms(3) have "length t - 4 < length body" by simp
  moreover have "unat (of_nat (length body) :: uint16) = length body" using assms(1) by (simp add: unat_of_nat)
  moreover have "t ! 0 = 1" "take 2 (drop 2 t) = be16 (of_nat (length body))"
    by (subst t, simp add: header_bytes_def be16_def)+
  ultimately show ?thesis using False assms(1) by (simp add: header_decode_zbuf)
qed

text \<open>One response.\<close>

definition info_push :: "nat \<times> byte list \<Rightarrow> kcn_info \<Rightarrow> kcn_info" where
  "info_push = (\<lambda>(score, loc) ki. ki\<lparr>ki_locs := ki_locs ki @ [\<lparr>kl_uri = loc @ [0], kl_score = score mod 256\<rparr>]\<rparr>)"

lemma response_step:
  assumes "kmr_loclen r = (case kmr_loc r of None \<Rightarrow> 0 | Some loc \<Rightarrow> length loc)" "kmr_loc r \<noteq> Some []"
    "length (response_body r) \<le> 4092"
  shows "\<exists>kmh kb. kcn_msg_header_decode (zbuf pre [] (response_msg r @ rest) post) = Some (Inr kmh, kb) \<and>
    kmh_type kmh = KCN_MSG_TYPE_RESPONSE \<and>
    kcn_msg_response_decode kb kmh = Some (Inr r, zbuf (pre @ response_msg r) [] rest post)"
proof -
  let ?b = "response_body r" and ?kmh = "\<lparr>kmh_version = 1, kmh_type = 2, kmh_len = length (response_body r)\<rparr>"
  have h: "kcn_msg_header_decode (zbuf pre [] (response_msg r @ rest) post) =
      Some (Inr ?kmh, zbuf (pre @ header_bytes 2 ?b) [] (?b @ rest) post)"
    using header_decode_msg [OF assms(3), of pre 2 rest post] by (simp add: response_msg_def)
  have l: "2 \<le> length ?b" by (simp add: length_response_body)
  then have "?b \<noteq> []" by auto
  with l response_decode_zbuf [of ?kmh "?b @ rest" "pre @ header_bytes 2 ?b" post]
  have "kcn_msg_response_decode (zbuf (pre @ header_bytes 2 ?b) [] (?b @ rest) post) ?kmh =
      Some (Inr \<lparr>kmr_error = ?b ! 0, kmr_score = ?b ! 1,
         kmr_loc = (if length ?b = 2 then None else Some (drop 2 ?b)), kmr_loclen = length ?b - 2\<rparr>,
        zbuf (pre @ response_msg r) [] rest post)"
    by (simp add: nth_append response_msg_def)
  moreover have "\<lparr>kmr_error = ?b ! 0, kmr_score = ?b ! 1,
      kmr_loc = (if length ?b = 2 then None else Some (drop 2 ?b)), kmr_loclen = length ?b - 2\<rparr> = r"
    using assms(1,2) by (cases r; cases "kmr_loc r") (auto simp: response_body_def)
  ultimately show ?thesis using h by auto
qed

lemma client_loop_loc:
  assumes "loc \<noteq> []" "length loc \<le> 4090" "alloc_ok malloc" "malloc (length loc + 1) \<noteq> None"
    "info_room ki 1"
  shows "kcn_client_read_loop malloc errno (zbuf pre [] (response_msg (loc_response score loc) @ rest) post) ki =
    kcn_client_read_loop malloc errno (zbuf (pre @ response_msg (loc_response score loc)) [] rest post) (info_push (score, loc) ki)"
proof -
  let ?r = "loc_response score loc"
  from response_step [of ?r pre rest post] assms(1,2) obtain kmh kb where
    d: "kcn_msg_header_decode (zbuf pre [] (response_msg ?r @ rest) post) = Some (Inr kmh, kb)"
      "kmh_type kmh = KCN_MSG_TYPE_RESPONSE"
      "kcn_msg_response_decode kb kmh = Some (Inr ?r, zbuf (pre @ response_msg ?r) [] rest post)"
    by (auto simp: loc_response_def length_response_body)
  have "kcn_info_loc_add malloc ki loc (length loc) (unat (of_nat score :: byte)) = Some (Inr (), info_push (score, loc) ki)"
    using assms str_dup_ok [OF assms(3), of "length loc" loc] info_room_block [of ki 0]
    by (simp add: kcn_info_loc_add_def kcn_info_maxnlocs_def info_push_def unat_of_nat)
  with d assms(1,5) show ?thesis
    by (subst kcn_client_read_loop.simps) (simp add: loc_response_def)
qed

lemma client_loop_full:
  assumes "loc \<noteq> []" "length loc \<le> 4090" "kcn_info_nlocs ki = kcn_info_maxnlocs ki"
  shows "kcn_client_read_loop malloc errno (zbuf pre [] (response_msg (loc_response score loc) @ rest) post) ki =
    Some (ETOOMANYREFS, zbuf (pre @ response_msg (loc_response score loc)) [] rest post, ki)"
proof -
  let ?r = "loc_response score loc"
  from response_step [of ?r pre rest post] assms(1,2) obtain kmh kb where
    d: "kcn_msg_header_decode (zbuf pre [] (response_msg ?r @ rest) post) = Some (Inr kmh, kb)"
      "kmh_type kmh = KCN_MSG_TYPE_RESPONSE"
      "kcn_msg_response_decode kb kmh = Some (Inr ?r, zbuf (pre @ response_msg ?r) [] rest post)"
    by (auto simp: loc_response_def length_response_body)
  with assms(1,3) show ?thesis
    by (subst kcn_client_read_loop.simps) (simp add: loc_response_def)
qed

lemma client_loop_end:
  assumes "e < 256" "e \<noteq> EAGAIN"
  shows "kcn_client_read_loop malloc errno (zbuf pre [] (response_msg (end_response e) @ rest) post) ki =
    Some (e, zbuf (pre @ response_msg (end_response e)) [] rest post, ki)"
proof -
  let ?r = "end_response e"
  from response_step [of ?r pre rest post] obtain kmh kb where
    d: "kcn_msg_header_decode (zbuf pre [] (response_msg ?r @ rest) post) = Some (Inr kmh, kb)"
      "kmh_type kmh = KCN_MSG_TYPE_RESPONSE"
      "kcn_msg_response_decode kb kmh = Some (Inr ?r, zbuf (pre @ response_msg ?r) [] rest post)"
    by (auto simp: end_response_def length_response_body)
  have "unat (of_nat e :: byte) = e" using assms(1) by (simp add: unat_of_nat)
  with d assms(2) show ?thesis
    by (subst kcn_client_read_loop.simps) (simp add: end_response_def)
qed

text \<open>
  All of an answer, or a beginning of it: the loop takes the whole messages off and stores their
  locators, and what is left is the beginning of the rest of the answer.
\<close>

definition locs_ok :: "allocator \<Rightarrow> (nat \<times> byte list) list \<Rightarrow> bool" where
  "locs_ok malloc locs \<longleftrightarrow> alloc_ok malloc \<and> (\<forall>(score, loc) \<in> set locs.
     loc \<noteq> [] \<and> length loc \<le> 4090 \<and> malloc (length loc + 1) \<noteq> None)"

lemma info_push_simps [simp]:
  "kcn_info_maxnlocs (info_push sl ki) = kcn_info_maxnlocs ki"
  "kcn_info_nlocs (info_push sl ki) = Suc (kcn_info_nlocs ki)"
  "info_locs (info_push sl ki) = info_locs ki @ [snd sl]"
  by (cases sl, simp add: info_push_def kcn_info_maxnlocs_def kcn_info_nlocs_def info_locs_def butlast_append)+

lemma fold_push_simps [simp]:
  "kcn_info_maxnlocs (fold info_push locs ki) = kcn_info_maxnlocs ki"
  "kcn_info_nlocs (fold info_push locs ki) = kcn_info_nlocs ki + length locs"
  "info_locs (fold info_push locs ki) = info_locs ki @ map snd locs"
  by (induction locs arbitrary: ki) simp_all

lemma client_loop_whole:
  assumes "locs_ok malloc locs" "info_room ki (length locs)" "e < 256" "e \<noteq> EAGAIN"
  shows "kcn_client_read_loop malloc errno (zbuf pre [] (answer locs e @ rest) post) ki =
    Some (e, zbuf (pre @ answer locs e) [] rest post, fold info_push locs ki)"
  using assms
proof (induction locs arbitrary: pre ki)
  case Nil
  then show ?case by (simp add: client_loop_end)
next
  case (Cons sl locs)
  obtain score loc where sl: "sl = (score, loc)" by (cases sl)
  with Cons.prems show ?case
    using client_loop_loc [of loc malloc ki errno pre score "answer locs e @ rest" post]
    by (simp add: locs_ok_def Cons.IH)
qed

lemma client_loop_wait:
  assumes "kcn_msg_header_decode (zbuf pre [] t post) = Some (Inl EAGAIN, zbuf pre [] t post)"
  shows "kcn_client_read_loop malloc errno (zbuf pre [] t post) ki = Some (EAGAIN, zbuf pre [] t post, ki)"
  using assms by (subst kcn_client_read_loop.simps) simp

lemma client_loop_part:
  assumes "locs_ok malloc locs" "info_room ki (length locs)" "t @ u = answer locs e" "u \<noteq> []"
  shows "\<exists>k pre' t'. kcn_client_read_loop malloc errno (zbuf pre [] t post) ki =
      Some (EAGAIN, zbuf pre' [] t' post, fold info_push (take k locs) ki) \<and>
    k \<le> length locs \<and> t' @ u = answer (drop k locs) e \<and> pre' @ t' = pre @ t \<and> length t' < 4096"
  using assms
proof (induction locs arbitrary: pre ki t)
  case Nil
  let ?r = "end_response e"
  have l: "length (response_body ?r) = 2" by (simp add: length_response_body end_response_def)
  from Nil have "kcn_msg_header_decode (zbuf pre [] t post) = Some (Inl EAGAIN, zbuf pre [] t post)"
    using header_decode_prefix [of "response_body ?r" 2 t u] l by (simp add: response_msg_def)
  moreover have "length t + length u = 6" using arg_cong [OF Nil.prems(3), of length] l by (simp add: response_msg_def)
  ultimately show ?case using Nil client_loop_wait [of pre t post malloc errno ki]
    by (intro exI [of _ 0] exI [of _ pre] exI [of _ t]) simp
next
  case (Cons sl locs)
  obtain score loc where sl: "sl = (score, loc)" by (cases sl)
  let ?r = "loc_response score loc" and ?m = "response_msg (loc_response score loc)"
  from Cons.prems(1) sl have loc: "loc \<noteq> []" "length loc \<le> 4090" "alloc_ok malloc" "malloc (length loc + 1) \<noteq> None"
    "locs_ok malloc locs" by (auto simp: locs_ok_def)
  then have l: "length (response_body ?r) \<le> 4092" by (simp add: length_response_body loc_response_def)
  show ?case
  proof (cases "length t < length ?m")
    case True
    have "take (length t) ?m = t"
      using True sl arg_cong [OF Cons.prems(3), of "take (length t)"] by simp
    then obtain v where v: "?m = t @ v" using append_take_drop_id [of "length t" ?m] by metis
    with True have "v \<noteq> []" by auto
    with v have "kcn_msg_header_decode (zbuf pre [] t post) = Some (Inl EAGAIN, zbuf pre [] t post)"
      using header_decode_prefix [OF l, of 2 t v] by (simp add: response_msg_def)
    moreover have "length t < 4096" using True l by (simp add: response_msg_def)
    ultimately show ?thesis using Cons.prems client_loop_wait [of pre t post malloc errno ki]
      by (intro exI [of _ 0] exI [of _ pre] exI [of _ t]) simp
  next
    case False
    define t2 where "t2 = drop (length ?m) t"
    have "take (length ?m) t = ?m"
      using False sl arg_cong [OF Cons.prems(3), of "take (length ?m)"] by simp
    then have t: "t = ?m @ t2" using append_take_drop_id [of "length ?m" t] by (simp add: t2_def)
    with Cons.prems(3) sl have t: "t = ?m @ t2" "t2 @ u = answer locs e" by simp_all
    from Cons.prems(2) have "info_room (info_push sl ki) (length locs)" by simp
    from Cons.IH [OF loc(5) this t(2) Cons.prems(4), of "pre @ ?m"] obtain k pre' t' where
      "kcn_client_read_loop malloc errno (zbuf (pre @ ?m) [] t2 post) (info_push sl ki) =
        Some (EAGAIN, zbuf pre' [] t' post, fold info_push (take k locs) (info_push sl ki))"
      "k \<le> length locs" "t' @ u = answer (drop k locs) e" "pre' @ t' = (pre @ ?m) @ t2" "length t' < 4096" by blast
    moreover have "info_room ki 1" using Cons.prems(2) by simp
    ultimately show ?thesis
      using client_loop_loc [OF loc(1-4), of ki errno pre score t2 post]
      by (intro exI [of _ "Suc k"] exI [of _ pre'] exI [of _ t']) (simp add: t(1) sl)
  qed
qed

section \<open>The callback on anything\<close>

text \<open>Whatever has been received, the callback keeps the connection and the information intact.\<close>

lemma response_decode_shape:
  assumes "kmh_len kmh \<le> length t" "kcn_msg_response_decode (zbuf pre [] t post) kmh = Some (r, kb)"
  shows "(r = Inl EINVAL \<or> (\<exists>kmr. r = Inr kmr)) \<and> (\<exists>pre' t'. kb = zbuf pre' [] t' post \<and> pre' @ t' = pre @ t \<and> length t' \<le> length t) \<and>
    (\<forall>kmr loc. r = Inr kmr \<longrightarrow> kmr_loc kmr = Some loc \<longrightarrow> kmr_loclen kmr \<le> length loc)"
proof (cases "2 \<le> kmh_len kmh")
  case True
  from response_decode_zbuf [OF True assms(1), of pre post] assms(2)
  have r: "r = Inr \<lparr>kmr_error = t ! 0, kmr_score = t ! 1,
      kmr_loc = (if kmh_len kmh = 2 then None else Some (take (kmh_len kmh - 2) (drop 2 t))), kmr_loclen = kmh_len kmh - 2\<rparr>"
    and kb: "kb = zbuf (pre @ take (kmh_len kmh) t) [] (drop (kmh_len kmh) t) post" by simp_all
  have "\<exists>pre' t'. kb = zbuf pre' [] t' post \<and> pre' @ t' = pre @ t \<and> length t' \<le> length t"
    by (intro exI [of _ "pre @ take (kmh_len kmh) t"] exI [of _ "drop (kmh_len kmh) t"]) (simp add: kb)
  moreover have "kmh_len kmh - 2 \<le> length t - 2" using assms(1) by simp
  ultimately show ?thesis using r by simp
next
  case False
  with assms(2) show ?thesis by (auto simp: kcn_msg_response_decode_def)
qed

text \<open>One response ends the loop, or is added to the search and leaves the rest of the buffer.\<close>

lemma client_response_partial:
  assumes "kcn_msg_response_decode kb kmh = Some (q, kb2)" "kmh_type kmh = KCN_MSG_TYPE_RESPONSE"
    "kcn_msg_header_decode kb0 = Some (Inr kmh, kb)" "q = Inl EINVAL \<or> (\<exists>kmr. q = Inr kmr)"
    "\<And>kmr loc. q = Inr kmr \<Longrightarrow> kmr_loc kmr = Some loc \<Longrightarrow> kmr_loclen kmr \<le> length loc"
    "info_ok ki" "alloc_ok malloc" "kcn_client_read_loop malloc errno kb0 ki = Some (e, kb', ki')"
  shows "kb' = kb2 \<and> info_ok ki' \<or>
    (\<exists>ki3. info_ok ki3 \<and> kcn_client_read_loop malloc errno kb2 ki3 = Some (e, kb', ki'))"
proof (cases q)
  case (Inl e1)
  with assms show ?thesis by (subst (asm) kcn_client_read_loop.simps) (auto split: if_splits)
next
  case q: (Inr kmr)
  with assms(1-3) assms(8) [unfolded kcn_client_read_loop.simps [of malloc errno kb0 ki]]
  have rec: "(if kmr_loclen kmr = 0
       then Some (if unat (kmr_error kmr) \<noteq> EAGAIN then unat (kmr_error kmr) else errno, kb2, ki)
       else if kcn_info_maxnlocs ki = kcn_info_nlocs ki then Some (ETOOMANYREFS, kb2, ki)
       else case kmr_loc kmr of
         None \<Rightarrow> None
       | Some loc \<Rightarrow>
           (case kcn_info_loc_add malloc ki loc (kmr_loclen kmr) (unat (kmr_score kmr)) of
              None \<Rightarrow> None
            | Some (Inl e, ki) \<Rightarrow> Some (e, kb2, ki)
            | Some (Inr _, ki) \<Rightarrow> kcn_client_read_loop malloc errno kb2 ki)) = Some (e, kb', ki')"
    by simp
  show ?thesis
  proof (cases "kmr_loclen kmr = 0 \<or> kcn_info_maxnlocs ki = kcn_info_nlocs ki")
    case True
    with rec assms(6) show ?thesis by (auto split: if_splits)
  next
    case False
    with rec obtain loc where loc: "kmr_loc kmr = Some loc" by (auto split: option.splits)
    have "kcn_info_nlocs ki < kcn_info_maxnlocs ki"
      using False assms(6) by (auto simp: info_ok_def kcn_info_maxnlocs_def)
    from info_loc_add_ok [OF assms(7,6) this assms(5) [OF q loc], of "unat (kmr_score kmr)"] obtain r3 ki3 where
      "kcn_info_loc_add malloc ki loc (kmr_loclen kmr) (unat (kmr_score kmr)) = Some (r3, ki3)" "info_ok ki3"
        "r3 = Inl ENOMEM \<or> r3 = Inr ()" by (auto split: if_splits)
    with rec False loc show ?thesis by auto
  qed
qed

lemma client_loop_partial:
  assumes "length pre + length t + length post = 4096" "info_ok ki" "alloc_ok malloc"
    "kcn_client_read_loop malloc errno (zbuf pre [] t post) ki = Some (e, kb, ki')"
  shows "kb_wf kb \<and> kb_cap kb = 4096 \<and> info_ok ki' \<and>
    (e = EAGAIN \<longrightarrow> kb_heading kb = [] \<and> length (kb_data kb) < 4096)"
  using assms
proof (induction "length t" arbitrary: pre t ki rule: less_induct)
  case less
  note rec = less.prems(4) [unfolded kcn_client_read_loop.simps [of malloc errno "zbuf pre [] t post" ki]]
  from rec obtain r kb1 where h: "kcn_msg_header_decode (zbuf pre [] t post) = Some (r, kb1)"
    by (auto split: option.splits)
  note hs = header_decode_shape [OF h less.prems(1)]
  show ?case
  proof (cases r)
    case (Inl e1)
    with rec h have "e = e1" "kb = kb1" "ki' = ki" by auto
    with hs Inl less.prems show ?thesis by auto
  next
    case (Inr kmh)
    with hs have kb1: "4 \<le> length t" "kb1 = zbuf (pre @ take 4 t) [] (drop 4 t) post" "kmh_len kmh \<le> length (drop 4 t)"
      by auto
    show ?thesis
    proof (cases "kmh_type kmh = KCN_MSG_TYPE_RESPONSE")
      case False
      with rec h Inr kb1 less.prems show ?thesis by auto
    next
      case True
      with rec h Inr obtain q kb2 where d: "kcn_msg_response_decode kb1 kmh = Some (q, kb2)"
        by (auto split: option.splits)
      from response_decode_shape [OF kb1(3) d [unfolded kb1(2)]] obtain pre2 t2 where
        q: "q = Inl EINVAL \<or> (\<exists>kmr. q = Inr kmr)"
          "\<And>kmr loc. q = Inr kmr \<Longrightarrow> kmr_loc kmr = Some loc \<Longrightarrow> kmr_loclen kmr \<le> length loc"
        and s: "kb2 = zbuf pre2 [] t2 post" "pre2 @ t2 = (pre @ take 4 t) @ drop 4 t" "length t2 \<le> length (drop 4 t)"
        by blast
      from arg_cong [OF s(2), of length] less.prems(1) kb1(1) have l: "length pre2 + length t2 + length post = 4096" by simp
      have lt: "length t2 < length t" using s(3) kb1(1) by simp
      with l have wf: "kb_wf kb2" "kb_cap kb2 = 4096" "kb_heading kb2 = []" "length (kb_data kb2) < 4096"
        using less.prems(1) by (simp_all add: s(1))
      from client_response_partial [OF d True h [unfolded Inr] q less.prems(2-4)] consider "kb = kb2" "info_ok ki'"
        | ki3 where "info_ok ki3" "kcn_client_read_loop malloc errno (zbuf pre2 [] t2 post) ki3 = Some (e, kb, ki')"
        by (auto simp: s(1))
      then show ?thesis
      proof cases
        case 1
        with wf show ?thesis by simp
      next
        case 2
        from less.hyps [OF lt l 2(1) less.prems(3) 2(2)] show ?thesis .
      qed
    qed
  qed
qed

interpretation client_reader:
  net_reader "kcn_client_read malloc errno" KCN_MSG_MAXSIZ "\<lambda>kcr. alloc_ok malloc \<and> info_ok (kcr_ki kcr)"
  for malloc :: allocator and errno :: errno
proof
  fix kn d e kn' d'
  assume kn: "net_ok 4096 kn" "kn_fd kn \<noteq> None" "kn_state kn = KCN_NET_STATE_ESTABLISHED" "\<not> kn_evread kn"
    "kb_heading (kn_ibuf kn) = []" "alloc_ok malloc \<and> info_ok (kcr_ki d)" "kcn_client_read malloc errno kn d = Some (e, kn', d')"
  from kn(1,5) obtain pre t post where ib: "kn_ibuf kn = zbuf pre [] t post" "length pre + length t + length post = 4096"
    by (auto simp: net_ok_def elim!: kb_wf_zbufE)
  from kn(7) ib obtain kb ki where r: "kcn_client_read_loop malloc errno (zbuf pre [] t post) (kcr_ki d) = Some (e, kb, ki)"
    "kn' = kn\<lparr>kn_ibuf := kb\<rparr>" "d' = d\<lparr>kcr_error := e, kcr_ki := ki\<rparr>"
    by (auto simp: kcn_client_read_def bind_eq_Some_conv)
  from client_loop_partial [OF ib(2) _ _ r(1)] kn r(2,3)
  show "net_ok 4096 kn' \<and> kn_fd kn' = kn_fd kn \<and> kn_state kn' = kn_state kn \<and> \<not> kn_evread kn' \<and>
      (alloc_ok malloc \<and> info_ok (kcr_ki d')) \<and> (e = EAGAIN \<longrightarrow> ibuf_room 4096 kn')"
    by (auto simp: net_ok_def ibuf_room_def)
qed

end
