(* ===== verification/Kcn_Search.thy ===== *)
theory Kcn_Search
  imports Kcn_Client
begin

text \<open>
  \<^verbatim>\<open>lib/kcn_db.c\<close>, \<^verbatim>\<open>lib/kcn_netstat.c\<close> and the searches of \<^verbatim>\<open>lib/kcn.c\<close>: the registry of the databases a
  search can use, the choice of one of them for some keys, and the one that asks the daemon.

  \<open>errno\<close> is an argument and a result where the code reads what an earlier call left in it.
\<close>

section \<open>The registry\<close>

text \<open>
  A search returns what the C function returns, \<open>errno\<close>, and the information with the locators it has
  added; a match returns whether the keys suit the database, the score it has stored, and \<open>errno\<close>.
  \<open>kd_chain\<close> is the address of the structure, by which the list refers to it.
\<close>

type_synonym kd_search_fun = "errno \<Rightarrow> kcn_info \<Rightarrow> string \<Rightarrow> (bool \<times> errno \<times> kcn_info) option"

record kcn_db =
  kd_chain :: nat
  kd_prio :: nat
  kd_name :: string
  kd_desc :: string
  kd_match :: "string \<Rightarrow> errno \<Rightarrow> bool \<times> nat \<times> errno"
  kd_search :: kd_search_fun

fun kcn_db_register :: "kcn_db \<Rightarrow> kcn_db list \<Rightarrow> kcn_db list option" where
  "kcn_db_register kdn [] = Some [kdn]"
| "kcn_db_register kdn (kd # kds) = do {
     c_assert (kd_chain kd \<noteq> kd_chain kdn);
     (if kd_prio kd < kd_prio kdn then Some (kdn # kd # kds)
      else do {
        kds \<leftarrow> kcn_db_register kdn kds;
        Some (kd # kds)
      })
   }"

definition kcn_db_deregister :: "kcn_db \<Rightarrow> kcn_db list \<Rightarrow> kcn_db list option" where
  "kcn_db_deregister kd kds = do {
     c_assert (kd_chain kd \<in> kd_chain ` set kds);
     Some (filter (\<lambda>k. kd_chain k \<noteq> kd_chain kd) kds)
   }"

fun kcn_db_match_loop :: "string \<Rightarrow> errno \<Rightarrow> (kcn_db \<times> nat) option \<Rightarrow> kcn_db list \<Rightarrow> errno \<times> kcn_db option" where
  "kcn_db_match_loop keys errno best [] =
     (case best of None \<Rightarrow> (EPROTONOSUPPORT, None) | Some (kd, _) \<Rightarrow> (errno, Some kd))"
| "kcn_db_match_loop keys errno best (kd # kds) =
     (case kd_match kd keys errno of
        (matched, score, errno) \<Rightarrow>
          (if \<not> matched
           then if errno \<noteq> 0 then (EINVAL, None) else kcn_db_match_loop keys errno best kds
           else kcn_db_match_loop keys errno
             (case best of
                None \<Rightarrow> Some (kd, score)
              | Some (_, scorematch) \<Rightarrow> if score > scorematch then Some (kd, score) else best) kds))"

definition kcn_db_match :: "kcn_db list \<Rightarrow> string \<Rightarrow> errno \<Rightarrow> errno \<times> kcn_db option" where
  "kcn_db_match kds keys errno = kcn_db_match_loop keys errno None kds"

fun kcn_db_lookup :: "kcn_db list \<Rightarrow> string \<Rightarrow> errno \<Rightarrow> errno \<times> kcn_db option" where
  "kcn_db_lookup [] name errno = (ESRCH, None)"
| "kcn_db_lookup (kd # kds) name errno =
     (if strcasecmp_eq (kd_name kd) name then (errno, Some kd) else kcn_db_lookup kds name errno)"

definition kcn_db_exists :: "kcn_db list \<Rightarrow> string \<Rightarrow> bool" where
  "kcn_db_exists kds name = (snd (kcn_db_lookup kds name 0) \<noteq> None)"

definition kcn_db_name_list_puts :: "kcn_db list \<Rightarrow> string \<Rightarrow> string" where
  "kcn_db_name_list_puts kds prefix =
     concat (map (\<lambda>kd. prefix @ kd_name kd @ '': '' @ kd_desc kd @ ''\<newline>'') kds)"

definition kcn_db_search :: "kcn_db list \<Rightarrow> kd_search_fun" where
  "kcn_db_search kds errno ki keys =
     (case (case kcn_info_db ki of
              None \<Rightarrow> kcn_db_match kds keys errno
            | Some name \<Rightarrow> kcn_db_lookup kds name errno) of
        (errno, None) \<Rightarrow> Some (False, errno, ki)
      | (errno, Some kd) \<Rightarrow> kd_search kd errno ki keys)"

definition kcn_search :: "kcn_db list \<Rightarrow> kd_search_fun" where
  "kcn_search kds errno ki keys = kcn_db_search kds errno ki keys"

text \<open>The keys are put together in allocated memory; \<open>errno\<close> is \<open>ENOMEM\<close> when there is none.\<close>

definition kcn_searchv ::
  "char_allocator \<Rightarrow> kcn_db list \<Rightarrow> errno \<Rightarrow> kcn_info \<Rightarrow> string list \<Rightarrow> (bool \<times> errno \<times> kcn_info) option" where
  "kcn_searchv malloc kds errno ki keyv = do {
     keys \<leftarrow> kcn_key_concat malloc keyv;
     (case keys of
        None \<Rightarrow> Some (False, ENOMEM, ki)
      | Some keys \<Rightarrow> do {
          keys \<leftarrow> c_str keys;
          kcn_search kds errno ki keys
        })
   }"

section \<open>The daemon's database\<close>

definition strcasestr_found :: "string \<Rightarrow> string \<Rightarrow> bool" where
  "strcasestr_found s a = list_ex (\<lambda>n. strcasecmp_eq (take (length a) (drop n s)) a) [0..<length s + 1]"

definition netstat_words :: "string list" where
  "netstat_words =
     [''server'', ''network'', ''terminal'', ''host'', ''router'', ''switch'', ''equipment'', ''HDD'', ''storage'',
      ''CPU'', ''load'', ''traffic'', ''latency'', ''hop'', ''ttl'', ''as'', ''assoc'', ''less'', ''greater'',
      ''equal'', ''than'', ''ge'', ''gt'', ''eq'', ''le'', ''lt'', ''max'', ''min'']"

definition kcn_netstat_match :: "string \<Rightarrow> errno \<Rightarrow> bool \<times> nat \<times> errno" where
  "kcn_netstat_match s errno =
     (let score = length (filter (strcasestr_found s) netstat_words) in (score \<noteq> 0, score, 0))"

abbreviation (input) KCN_TIME_JITTER :: time_t where "KCN_TIME_JITTER \<equiv> 300"

text \<open>\<open>ke\<close> is the uninitialised structure; \<open>now\<close> is the result of \<open>time\<close>.\<close>

definition kcn_netstat_compile :: "time_t result \<Rightarrow> string list \<Rightarrow> kcn_eq \<Rightarrow> bool \<times> errno \<times> kcn_eq" where
  "kcn_netstat_compile now keyv ke =
     (if length keyv < 3 then (False, 0, ke)
      else case kcn_eq_type_aton (keyv ! 0) of
        Inl e \<Rightarrow> (False, e, ke)
      | Inr type \<Rightarrow> let ke = ke\<lparr>ke_type := type\<rparr> in
          (case kcn_eq_operator_aton (keyv ! 1) of
             Inl e \<Rightarrow> (False, e, ke)
           | Inr opr \<Rightarrow> let ke = ke\<lparr>ke_op := opr\<rparr> in
               (case kcn_eq_val_aton (keyv ! 2) of
                  Inl e \<Rightarrow> (False, e, ke)
                | Inr val \<Rightarrow> let ke = ke\<lparr>ke_val := val\<rparr> in
                    if length keyv = 3
                    then (case now of
                            Inl e \<Rightarrow> (False, e, ke)
                          | Inr t \<Rightarrow> (True, 0, ke\<lparr>ke_start := t - KCN_TIME_JITTER, ke_end := KCN_TIME_NOW\<rparr>))
                    else (True, 0, ke))))"

definition kcn_netstat_search :: "client_env \<Rightarrow> bool list \<Rightarrow> time_t result \<Rightarrow> kcn_eq \<Rightarrow> kd_search_fun" where
  "kcn_netstat_search env mem now uninit errno ki keys =
     (case kcn_key_split mem keys of
        None \<Rightarrow> Some (False, EINVAL, ki)
      | Some keyv \<Rightarrow>
          (case kcn_netstat_compile now keyv uninit of
             (compiled, errno, ke) \<Rightarrow>
               let kmq = \<lparr>kmq_loctype = kcn_info_loc_type ki, kmq_maxcount = of_nat (kcn_info_maxnlocs ki), kmq_eq = ke\<rparr> in
               if \<not> compiled then Some (False, errno, ki)
               else kcn_client_search env ki kmq))"

definition kcn_netstat :: "nat \<Rightarrow> kd_search_fun \<Rightarrow> kcn_db" where
  "kcn_netstat chain search =
     \<lparr>kd_chain = chain, kd_prio = 255, kd_name = ''net'', kd_desc = ''Network statistics'',
      kd_match = kcn_netstat_match, kd_search = search\<rparr>"

definition kcn_netstat_init :: "nat \<Rightarrow> kd_search_fun \<Rightarrow> kcn_db list \<Rightarrow> kcn_db list option" where
  "kcn_netstat_init chain search kds = kcn_db_register (kcn_netstat chain search) kds"

definition kcn_netstat_finish :: "nat \<Rightarrow> kd_search_fun \<Rightarrow> kcn_db list \<Rightarrow> kcn_db list option" where
  "kcn_netstat_finish chain search kds = kcn_db_deregister (kcn_netstat chain search) kds"

section \<open>The registry stays sorted\<close>

definition registry_ok :: "kcn_db list \<Rightarrow> bool" where
  "registry_ok kds \<longleftrightarrow> sorted_wrt (\<lambda>a b. kd_prio b \<le> kd_prio a) kds \<and> distinct (map kd_chain kds)"

lemma register_split:
  assumes "kd_chain kd \<notin> kd_chain ` set kds"
  shows "kcn_db_register kd kds =
    Some (takeWhile (\<lambda>k. kd_prio kd \<le> kd_prio k) kds @ kd # dropWhile (\<lambda>k. kd_prio kd \<le> kd_prio k) kds)"
  using assms by (induction kds) (auto simp: not_le)

lemma register_ok:
  assumes "registry_ok kds" "kd_chain kd \<notin> kd_chain ` set kds"
  shows "\<exists>kds'. kcn_db_register kd kds = Some kds' \<and> registry_ok kds' \<and> set kds' = insert kd (set kds)"
proof -
  let ?P = "\<lambda>k. kd_prio kd \<le> kd_prio k"
  define a b where "a = takeWhile ?P kds" and "b = dropWhile ?P kds"
  have ab: "kds = a @ b" by (simp add: a_def b_def)
  have pa: "\<forall>k \<in> set a. ?P k" by (auto simp: a_def dest: set_takeWhileD)
  have "sorted_wrt (\<lambda>a b. kd_prio b \<le> kd_prio a) b" using assms(1) by (simp add: registry_ok_def ab sorted_wrt_append)
  moreover have "b \<noteq> [] \<Longrightarrow> \<not> ?P (hd b)" unfolding b_def by (rule hd_dropWhile)
  ultimately have "\<forall>k \<in> set b. kd_prio k \<le> kd_prio kd" by (cases b) auto
  with assms ab pa have "registry_ok (a @ kd # b)" by (auto simp: registry_ok_def sorted_wrt_append)
  moreover have "kcn_db_register kd kds = Some (a @ kd # b)"
    using register_split [OF assms(2)] by (simp add: a_def b_def)
  ultimately show ?thesis using ab by (intro exI [of _ "a @ kd # b"]) auto
qed

lemma deregister_ok:
  assumes "registry_ok kds" "kd \<in> set kds"
  shows "\<exists>kds'. kcn_db_deregister kd kds = Some kds' \<and> registry_ok kds' \<and> set kds' = set kds - {kd}"
proof -
  have "k = kd" if "k \<in> set kds" "kd_chain k = kd_chain kd" for k
    using assms that by (auto simp: registry_ok_def distinct_map inj_on_def)
  moreover have "registry_ok (filter (\<lambda>k. kd_chain k \<noteq> kd_chain kd) kds)"
    using assms(1) by (auto simp: registry_ok_def sorted_wrt_filter distinct_map_filter)
  ultimately show ?thesis using assms(2) by (auto simp: kcn_db_deregister_def)
qed

section \<open>The choice of a database\<close>

text \<open>
  A match function that decides by the keys alone, and leaves no error behind when it refuses them:
  the score with which it takes the keys, if it does.
\<close>

definition match_score :: "string \<Rightarrow> kcn_db \<Rightarrow> nat option" where
  "match_score keys kd = (case kd_match kd keys 0 of (matched, score, _) \<Rightarrow> if matched then Some score else None)"

definition match_regular :: "string \<Rightarrow> kcn_db \<Rightarrow> bool" where
  "match_regular keys kd \<longleftrightarrow> (\<forall>errno. case match_score keys kd of
       None \<Rightarrow> \<exists>score. kd_match kd keys errno = (False, score, 0)
     | Some score \<Rightarrow> \<exists>errno'. kd_match kd keys errno = (True, score, errno'))"

text \<open>\<open>kd\<close> is the first of the databases whose score is the greatest.\<close>

definition best_match :: "string \<Rightarrow> kcn_db list \<Rightarrow> kcn_db \<Rightarrow> nat \<Rightarrow> bool" where
  "best_match keys kds kd score \<longleftrightarrow> (\<exists>pre post. kds = pre @ kd # post \<and> match_score keys kd = Some score \<and>
     (\<forall>k \<in> set pre. \<forall>s. match_score keys k = Some s \<longrightarrow> s < score) \<and>
     (\<forall>k \<in> set post. \<forall>s. match_score keys k = Some s \<longrightarrow> s \<le> score))"

fun first_best :: "string \<Rightarrow> (kcn_db \<times> nat) option \<Rightarrow> kcn_db list \<Rightarrow> (kcn_db \<times> nat) option" where
  "first_best keys best [] = best"
| "first_best keys best (kd # kds) =
     first_best keys (case match_score keys kd of
         None \<Rightarrow> best
       | Some s \<Rightarrow> if best = None \<or> s > snd (the best) then Some (kd, s) else best) kds"

lemma match_loop_first_best:
  assumes "\<forall>kd \<in> set kds. match_regular keys kd"
  shows "\<exists>e. kcn_db_match_loop keys errno best kds =
    (case first_best keys best kds of None \<Rightarrow> (EPROTONOSUPPORT, None) | Some (kd, _) \<Rightarrow> (e, Some kd))"
  using assms
proof (induction kds arbitrary: best errno)
  case Nil
  then show ?case by (auto split: option.split)
next
  case (Cons kd kds)
  let ?best = "case match_score keys kd of
         None \<Rightarrow> best | Some s \<Rightarrow> if best = None \<or> s > snd (the best) then Some (kd, s) else best"
  from Cons.prems have "match_regular keys kd" by simp
  then have "\<exists>e. kcn_db_match_loop keys errno best (kd # kds) = kcn_db_match_loop keys e ?best kds"
    unfolding match_regular_def
    by (cases "match_score keys kd"; cases best) (auto dest!: spec [of _ errno] split: prod.splits)
  with Cons.IH Cons.prems show ?case by fastforce
qed

lemma first_best_ok:
  "(first_best keys best kds = best \<and>
      (\<forall>kd \<in> set kds. \<forall>s. match_score keys kd = Some s \<longrightarrow> best \<noteq> None \<and> s \<le> snd (the best))) \<or>
   (\<exists>kd s. first_best keys best kds = Some (kd, s) \<and> best_match keys kds kd s \<and> (best \<noteq> None \<longrightarrow> snd (the best) < s))"
proof (induction kds arbitrary: best)
  case Nil
  then show ?case by simp
next
  case (Cons kd kds)
  show ?case
  proof (cases "\<exists>s. match_score keys kd = Some s \<and> (best = None \<or> s > snd (the best))")
    case True
    then obtain s where s: "match_score keys kd = Some s" "best = None \<or> s > snd (the best)" by blast
    then have f: "first_best keys best (kd # kds) = first_best keys (Some (kd, s)) kds" by auto
    from Cons.IH [of "Some (kd, s)"] show ?thesis
    proof (elim disjE exE conjE)
      assume "first_best keys (Some (kd, s)) kds = Some (kd, s)"
        "\<forall>k \<in> set kds. \<forall>sk. match_score keys k = Some sk \<longrightarrow> Some (kd, s) \<noteq> None \<and> sk \<le> snd (the (Some (kd, s)))"
      then have "first_best keys best (kd # kds) = Some (kd, s)" "best_match keys (kd # kds) kd s"
        using f s(1) by (simp, unfold best_match_def, intro exI [of _ "[]"] exI [of _ kds]) simp
      with s(2) show ?thesis by auto
    next
      fix k sk assume k: "first_best keys (Some (kd, s)) kds = Some (k, sk)" "best_match keys kds k sk"
        "Some (kd, s) \<noteq> None \<longrightarrow> snd (the (Some (kd, s))) < sk"
      then obtain pre post where "kds = pre @ k # post" "match_score keys k = Some sk"
        "\<forall>k \<in> set pre. \<forall>s. match_score keys k = Some s \<longrightarrow> s < sk"
        "\<forall>k \<in> set post. \<forall>s. match_score keys k = Some s \<longrightarrow> s \<le> sk" by (auto simp: best_match_def)
      then have "best_match keys (kd # kds) k sk"
        unfolding best_match_def using k(3) s(1) by (intro exI [of _ "kd # pre"] exI [of _ post]) simp
      with k f s(2) show ?thesis by auto
    qed
  next
    case False
    then have f: "first_best keys best (kd # kds) = first_best keys best kds"
      by (cases "match_score keys kd") auto
    from Cons.IH [of best] show ?thesis
    proof (elim disjE exE conjE)
      assume "first_best keys best kds = best"
        "\<forall>k \<in> set kds. \<forall>sk. match_score keys k = Some sk \<longrightarrow> best \<noteq> None \<and> sk \<le> snd (the best)"
      with f False show ?thesis by (auto simp: not_less)
    next
      fix k sk assume k: "first_best keys best kds = Some (k, sk)" "best_match keys kds k sk"
        "best \<noteq> None \<longrightarrow> snd (the best) < sk"
      then obtain pre post where "kds = pre @ k # post" "match_score keys k = Some sk"
        "\<forall>k \<in> set pre. \<forall>s. match_score keys k = Some s \<longrightarrow> s < sk"
        "\<forall>k \<in> set post. \<forall>s. match_score keys k = Some s \<longrightarrow> s \<le> sk" by (auto simp: best_match_def)
      moreover have "\<forall>s. match_score keys kd = Some s \<longrightarrow> s < sk" using False k(3) by fastforce
      ultimately have "best_match keys (kd # kds) k sk"
        unfolding best_match_def by (intro exI [of _ "kd # pre"] exI [of _ post]) simp
      with k f show ?thesis by auto
    qed
  qed
qed

lemma db_match_ok:
  assumes "\<forall>kd \<in> set kds. match_regular keys kd"
  shows "(\<exists>e. kcn_db_match kds keys errno = (e, None) \<and> e = EPROTONOSUPPORT \<and> (\<forall>kd \<in> set kds. match_score keys kd = None)) \<or>
    (\<exists>e kd s. kcn_db_match kds keys errno = (e, Some kd) \<and> best_match keys kds kd s)"
  using match_loop_first_best [OF assms, of errno None] first_best_ok [of keys None kds]
  by (auto simp: kcn_db_match_def)

section \<open>Properties\<close>

text \<open>
  Registering keeps the list sorted by priority, a new database behind the older ones of its
  priority, and every structure in it once; deregistering takes exactly that structure out.
\<close>

lemma registry_sorted:
  assumes "registry_ok kds" "kd_chain kd \<notin> kd_chain ` set kds"
  shows "\<exists>kds' kds''. kcn_db_register kd kds = Some kds' \<and> registry_ok kds' \<and> set kds' = insert kd (set kds) \<and>
    filter (\<lambda>k. kd_prio k = kd_prio kd) kds' = filter (\<lambda>k. kd_prio k = kd_prio kd) kds @ [kd] \<and>
    kcn_db_deregister kd kds' = Some kds'' \<and> kds'' = kds"
proof -
  from register_ok [OF assms] obtain kds' where r: "kcn_db_register kd kds = Some kds'" "registry_ok kds'"
    "set kds' = insert kd (set kds)" by blast
  define a b where "a = takeWhile (\<lambda>k. kd_prio kd \<le> kd_prio k) kds" and "b = dropWhile (\<lambda>k. kd_prio kd \<le> kd_prio k) kds"
  have ab: "kds = a @ b" "kds' = a @ kd # b" using r(1) register_split [OF assms(2)] by (simp_all add: a_def b_def)
  have "sorted_wrt (\<lambda>a b. kd_prio b \<le> kd_prio a) b" using assms(1) by (simp add: registry_ok_def ab sorted_wrt_append)
  moreover have "b \<noteq> [] \<Longrightarrow> kd_prio (hd b) < kd_prio kd"
    unfolding b_def by (drule hd_dropWhile) simp
  ultimately have "\<forall>k \<in> set b. kd_prio k < kd_prio kd" by (cases b) auto
  then have "filter (\<lambda>k. kd_prio k = kd_prio kd) b = []" by (auto simp: filter_empty_conv)
  moreover have "\<forall>k \<in> set kds. kd_chain k \<noteq> kd_chain kd" using assms(2) by (metis imageI)
  then have "filter (\<lambda>k. kd_chain k \<noteq> kd_chain kd) kds = kds" by (simp add: filter_id_conv)
  then have "kcn_db_deregister kd kds' = Some kds" unfolding ab by (simp add: kcn_db_deregister_def)
  ultimately show ?thesis using r by (intro exI [of _ kds'] exI [of _ kds]) (simp add: ab)
qed

text \<open>
  C17. A search without a database name is done by the first of the databases that give the keys the
  greatest score, and fails with \<open>EPROTONOSUPPORT\<close> when none takes them; a search with a name is done
  by the first database of that name, in any case of letters, and fails with \<open>ESRCH\<close> when there is none.
\<close>

theorem db_search_selects:
  assumes "\<forall>kd \<in> set kds. match_regular keys kd"
  shows "case kcn_info_db ki of
      None \<Rightarrow>
        if \<forall>kd \<in> set kds. match_score keys kd = None
        then kcn_db_search kds errno ki keys = Some (False, EPROTONOSUPPORT, ki)
        else \<exists>kd score e. best_match keys kds kd score \<and> kcn_db_search kds errno ki keys = kd_search kd e ki keys
    | Some name \<Rightarrow>
        (case find (\<lambda>kd. strcasecmp_eq (kd_name kd) name) kds of
           None \<Rightarrow> kcn_db_search kds errno ki keys = Some (False, ESRCH, ki)
         | Some kd \<Rightarrow> kcn_db_search kds errno ki keys = kd_search kd errno ki keys)"
proof (cases "kcn_info_db ki")
  case None
  from db_match_ok [OF assms, of errno] show ?thesis
  proof (elim disjE exE conjE)
    fix e assume "kcn_db_match kds keys errno = (e, None)" "e = EPROTONOSUPPORT" "\<forall>kd \<in> set kds. match_score keys kd = None"
    with None show ?thesis by (simp add: kcn_db_search_def)
  next
    fix e kd s assume m: "kcn_db_match kds keys errno = (e, Some kd)" "best_match keys kds kd s"
    then have "\<not> (\<forall>kd \<in> set kds. match_score keys kd = None)" by (auto simp: best_match_def)
    moreover have "kcn_db_search kds errno ki keys = kd_search kd e ki keys"
      using None m(1) by (simp add: kcn_db_search_def)
    ultimately show ?thesis using None m(2) by auto
  qed
next
  case (Some name)
  have "kcn_db_lookup kds name errno = (case find (\<lambda>kd. strcasecmp_eq (kd_name kd) name) kds of
      None \<Rightarrow> (ESRCH, None) | Some kd \<Rightarrow> (errno, Some kd))"
    by (induction kds) auto
  with Some show ?thesis by (auto simp: kcn_db_search_def split: option.splits)
qed

lemma netstat_regular: "match_regular keys (kcn_netstat chain search)"
  by (auto simp: match_regular_def match_score_def kcn_netstat_def kcn_netstat_match_def Let_def)

theorem db_search_selects_witness:
  "kcn_db_search [kcn_netstat 1 (\<lambda>errno ki keys. None)] 0
     \<lparr>ki_loctype = 0, ki_maxnlocs = 1, ki_dbname = ''NET'', ki_country = [], ki_userip = [], ki_time = 0, ki_locs = []\<rparr> ''cpu'' = None"
proof -
  have e: "strcasecmp_eq ''net'' ''NET''" by code_simp
  show ?thesis
    using db_search_selects [where kds = "[kcn_netstat 1 (\<lambda>errno ki keys. None)]" and keys = "''cpu''" and errno = 0
      and ki = "\<lparr>ki_loctype = 0, ki_maxnlocs = 1, ki_dbname = ''NET'', ki_country = [], ki_userip = [], ki_time = 0, ki_locs = []\<rparr>"]
    by (simp add: netstat_regular kcn_info_db_def) (simp add: kcn_netstat_def e)
qed

lemma netstat_compiles:
  assumes "\<forall>k \<in> set keyv. k \<noteq> [] \<and> (\<forall>c \<in> set k. \<not> c_isblank c)" "3 \<le> length keyv"
    and "kcn_eq_type_aton (keyv ! 0) = Inr type" "kcn_eq_operator_aton (keyv ! 1) = Inr opr" "kcn_eq_val_aton (keyv ! 2) = Inr val"
  shows "kcn_netstat_search env [] (Inr now) uninit errno ki (join_keys keyv) =
    kcn_client_search env ki
      \<lparr>kmq_loctype = kcn_info_loc_type ki, kmq_maxcount = of_nat (kcn_info_maxnlocs ki),
       kmq_eq = (if length keyv = 3
                 then \<lparr>ke_type = type, ke_op = opr, ke_val = val, ke_start = now - 300, ke_end = KCN_TIME_NOW\<rparr>
                 else \<lparr>ke_type = type, ke_op = opr, ke_val = val, ke_start = ke_start uninit, ke_end = ke_end uninit\<rparr>)\<rparr>"
proof -
  from assms(2) have "keyv \<noteq> []" by auto
  then have "kcn_key_split [] (join_keys keyv) = Some keyv" using assms(1) by (simp add: key_split_words key_words_join)
  with assms(2-5) show ?thesis
    by (cases uninit) (simp add: kcn_netstat_search_def kcn_netstat_compile_def Let_def)
qed

text \<open>
  C18. The database of the daemon turns three keys (a type, an operator and a number) into the query
  for the last five minutes and as many locators as are wanted, modulo 256.  With more keys, which
  are the time range, it sends the same query with the start and the end that happen to be in the
  uninitialised structure.
\<close>

theorem netstat_query:
  assumes "\<forall>k \<in> set keyv. k \<noteq> [] \<and> (\<forall>c \<in> set k. \<not> c_isblank c)" "3 \<le> length keyv"
    and "kcn_eq_type_aton (keyv ! 0) = Inr type" "kcn_eq_operator_aton (keyv ! 1) = Inr opr" "kcn_eq_val_aton (keyv ! 2) = Inr val"
  shows "kcn_netstat_search env [] (Inr now) uninit errno ki (join_keys keyv) =
    kcn_client_search env ki
      \<lparr>kmq_loctype = kcn_info_loc_type ki, kmq_maxcount = of_nat (kcn_info_maxnlocs ki),
       kmq_eq = (if length keyv = 3
                 then \<lparr>ke_type = type, ke_op = opr, ke_val = val, ke_start = now - 300, ke_end = KCN_TIME_NOW\<rparr>
                 else \<lparr>ke_type = type, ke_op = opr, ke_val = val, ke_start = ke_start uninit, ke_end = ke_end uninit\<rparr>)\<rparr>"
  using assms by (rule netstat_compiles)

theorem netstat_query_witness:
  "\<forall>env uninit ki. kcn_netstat_search env [] (Inr 1000) uninit 0 ki ''cpu < 50'' =
    kcn_client_search env ki
      \<lparr>kmq_loctype = kcn_info_loc_type ki, kmq_maxcount = of_nat (kcn_info_maxnlocs ki),
       kmq_eq = \<lparr>ke_type = 2, ke_op = 1, ke_val = 50, ke_start = 700, ke_end = KCN_TIME_NOW\<rparr>\<rparr>"
proof -
  have k: "\<forall>k \<in> set [''cpu'', ''<'', ''50'']. k \<noteq> [] \<and> (\<forall>c \<in> set k. \<not> c_isblank c)"
    by (simp add: c_isblank_def char_code_def)
  have a: "kcn_eq_type_aton ([''cpu'', ''<'', ''50''] ! 0) = Inr 2" "kcn_eq_operator_aton ([''cpu'', ''<'', ''50''] ! 1) = Inr 1"
    "kcn_eq_val_aton ([''cpu'', ''<'', ''50''] ! 2) = Inr 50" by code_simp+
  from netstat_query [OF k _ a, where now = 1000 and errno = 0] show ?thesis by simp
qed

end
