(* ===== verification/Kcn_Net_Flow.thy ===== *)
theory Kcn_Net_Flow
  imports Kcn_Net_Props Kcn_Msg
begin

text \<open>
  What is on its way in and out of a connection, and what an event of a connection that waits for data does to it,
  for every read callback.
\<close>

section \<open>The bytes of a connection\<close>

text \<open>What is still to leave a connection, and what has come to it and has not been taken off its buffer.\<close>

definition net_out :: "kcn_net \<Rightarrow> byte list" where
  "net_out kn = (case kn_fd kn of None \<Rightarrow> [] | Some sk \<Rightarrow> sk_tx sk @ obytes kn)"

definition net_in :: "kcn_net \<Rightarrow> byte list" where
  "net_in kn = kb_data (kn_ibuf kn) @ (case kn_fd kn of None \<Rightarrow> [] | Some sk \<Rightarrow> sk_rx sk)"

lemma net_flow_fields [simp]:
  "net_out (kn\<lparr>kn_everrs := es\<rparr>) = net_out kn" "net_out (kn\<lparr>kn_evread := b\<rparr>) = net_out kn"
  "net_out (kn\<lparr>kn_evwrite := b\<rparr>) = net_out kn" "net_out (kn\<lparr>kn_state := st\<rparr>) = net_out kn"
  "net_out (kn\<lparr>kn_ibuf := kb\<rparr>) = net_out kn"
  "net_in (kn\<lparr>kn_everrs := es\<rparr>) = net_in kn" "net_in (kn\<lparr>kn_evread := b\<rparr>) = net_in kn"
  "net_in (kn\<lparr>kn_evwrite := b\<rparr>) = net_in kn" "net_in (kn\<lparr>kn_state := st\<rparr>) = net_in kn"
  by (cases "kn_fd kn"; simp add: net_out_def net_in_def obytes_def)+

definition closed :: "kcn_net \<Rightarrow> bool" where
  "closed kn \<longleftrightarrow> kn_state kn = KCN_NET_STATE_DISCONNECTED \<and> kn_fd kn = None \<and> \<not> kn_evread kn \<and> \<not> kn_evwrite kn"

lemma closed_out [simp]: "closed kn \<Longrightarrow> net_out kn = []"
  by (simp add: closed_def net_out_def)

lemma closedI: "net_ok cap kn \<Longrightarrow> kn_fd kn = None \<Longrightarrow> closed kn"
  by (auto simp: closed_def net_ok_def)

lemma inv_closed: "net_inv cap kn \<Longrightarrow> kn_fd kn = None \<Longrightarrow> closed kn"
  by (auto simp: net_inv_def intro: closedI)

lemma write_loop_everrs:
  assumes "kcn_net_write_loop kb sk kn = Some kn'" "kn_everrs kn = []"
  shows "kn_everrs kn' = []"
proof -
  have "kn_everrs kn = [] \<longrightarrow> kn_everrs kn' = []"
  proof (rule kcn_net_write_loop.raw_induct [where P = "\<lambda>kb sk kn y. kn_everrs kn = [] \<longrightarrow> kn_everrs y = []", OF _ assms(1)])
    fix f kb sk kn y
    assume IH: "\<And>kb sk kn y. f kb sk kn = Some y \<Longrightarrow> kn_everrs kn = [] \<longrightarrow> kn_everrs y = []"
      and eq: "(case kcn_buf_fetch kb (kn_obufq kn) of
        None \<Rightarrow> None
      | Some (fetched, kb) \<Rightarrow>
          (if \<not> fetched then Some (kn\<lparr>kn_fd := Some sk\<rparr>)
           else case kcn_buf_write sock_write sk kb of
             None \<Rightarrow> None
           | Some (error, sk, kb) \<Rightarrow>
               (let kn = kn\<lparr>kn_obufq := kb_sync kb (kn_obufq kn), kn_fd := Some sk\<rparr> in
                if error = EAGAIN then Some (snd (kcn_net_write_enable kn))
                else if error \<noteq> 0 then kcn_net_disconnect kn
                else case kcn_buf_trailingdata kb of
                  None \<Rightarrow> None
                | Some t \<Rightarrow>
                    (if t = 0
                     then case kcn_buf_drop kb (kn_obufq kn) of
                            None \<Rightarrow> None
                          | Some (kb, q) \<Rightarrow> f kb sk (kn\<lparr>kn_obufq := q\<rparr>)
                     else f kb sk kn)))) = Some y"
    show "kn_everrs kn = [] \<longrightarrow> kn_everrs y = []"
      using eq
      by (auto simp: Let_def kcn_net_write_enable_def kcn_net_event_add_def kcn_net_disconnect_def kcn_net_state_change_def
          dest!: IH split: option.splits prod.splits if_splits)
  qed
  with assms(2) show ?thesis by blast
qed

text \<open>The write event closes the connection, or moves bytes to the socket and leaves the connection established.\<close>

lemma write_event:
  assumes "net_inv 4096 kn" "kn_evwrite kn" "EV_WRITE \<in> events \<or> EV_TIMEOUT \<in> events"
  shows "\<exists>kn'. kcn_net_write_cb events (kn\<lparr>kn_evwrite := False\<rparr>) = Some kn' \<and> net_inv 4096 kn' \<and>
    (closed kn' \<or> kn_fd kn' \<noteq> None \<and> kn_state kn' = KCN_NET_STATE_ESTABLISHED \<and>
       net_out kn' = net_out kn \<and> net_in kn' = net_in kn \<and> kn_ibuf kn' = kn_ibuf kn \<and>
       map_option sk_rx (kn_fd kn') = map_option sk_rx (kn_fd kn) \<and> (kn_everrs kn = [] \<longrightarrow> kn_everrs kn' = [] \<and>
         kn_evread kn' = (kn_evread kn \<or> kn_state kn = KCN_NET_STATE_PENDING) \<and>
         (kn_state kn \<noteq> KCN_NET_STATE_PENDING \<longrightarrow> kn_obufq kn' = [] \<or> kn_evwrite kn')) \<and>
       (kn_state kn = KCN_NET_STATE_ESTABLISHED \<longrightarrow> kn_evread kn' = kn_evread kn))"
proof -
  let ?kn = "kn\<lparr>kn_evwrite := False\<rparr>"
  from assms(1,2) obtain sk where sk: "kn_fd kn = Some sk" by (auto simp: net_inv_def net_ok_def)
  from assms(1) have inv: "net_inv 4096 ?kn" by (auto simp: net_inv_def net_ok_def)
  from established_ok [OF this] sk obtain kn1 where est:
    "kcn_net_state_change ?kn KCN_NET_STATE_ESTABLISHED = Some kn1" "net_inv 4096 kn1"
    "kn_state kn1 = KCN_NET_STATE_ESTABLISHED" "kn_fd kn1 = Some sk" "kn_obufq kn1 = kn_obufq kn" "kn_ibuf kn1 = kn_ibuf kn"
    "kn_state kn = KCN_NET_STATE_PENDING \<and> kn_everrs kn = [] \<longrightarrow> kn_evread kn1"
    "kn_state kn \<noteq> KCN_NET_STATE_PENDING \<longrightarrow> kn_evread kn1 = kn_evread kn"
    "kn_everrs kn = [] \<longrightarrow> kn_everrs kn1 = []" by auto
  have er: "kn_evread kn = (kn_evread kn \<or> kn_state kn = KCN_NET_STATE_PENDING)" if "kn_state kn \<noteq> KCN_NET_STATE_PENDING" using that by simp
  have same: "net_out kn1 = net_out kn" "net_in kn1 = net_in kn" using est(4-6) sk by (simp_all add: net_out_def net_in_def obytes_def)
  show ?thesis
  proof (cases "EV_WRITE \<in> events")
    case True
    from est have "net_ok 4096 kn1" "\<not> kn_evread kn1 \<or> ibuf_room 4096 kn1" by (auto simp: net_inv_def)
    from write_loop_ok [OF this(1) est(4) this(2), of kcn_net_purge_buf] obtain kn2 where w:
      "kcn_net_write_loop kcn_net_purge_buf sk kn1 = Some kn2" "net_ok 4096 kn2"
      "kn_state kn2 = KCN_NET_STATE_DISCONNECTED \<or>
       (\<exists>sk'. kn_fd kn2 = Some sk' \<and> sk_tx sk' @ obytes kn2 = sk_tx sk @ obytes kn1 \<and>
          sk_rx sk' = sk_rx sk \<and> kn_state kn2 = kn_state kn1 \<and>
          kn_ibuf kn2 = kn_ibuf kn1 \<and> kn_evread kn2 = kn_evread kn1 \<and>
          (kn_everrs kn1 = [] \<longrightarrow> kn_obufq kn2 = [] \<or> kn_evwrite kn2))" by blast
    have cb: "kcn_net_write_cb events ?kn = Some kn2"
      using True sk est(1,4) w(1) by (simp add: kcn_net_write_cb_def kcn_net_event_check_def)
    from w(3) show ?thesis
    proof (elim disjE exE conjE)
      assume "kn_state kn2 = KCN_NET_STATE_DISCONNECTED"
      with w(2) have "net_inv 4096 kn2" "closed kn2" by (auto simp: net_inv_def net_ok_def closed_def)
      with cb show ?thesis by blast
    next
      fix sk' assume k: "kn_fd kn2 = Some sk'" "sk_tx sk' @ obytes kn2 = sk_tx sk @ obytes kn1" "sk_rx sk' = sk_rx sk"
        "kn_state kn2 = kn_state kn1" "kn_ibuf kn2 = kn_ibuf kn1" "kn_evread kn2 = kn_evread kn1"
        "kn_everrs kn1 = [] \<longrightarrow> kn_obufq kn2 = [] \<or> kn_evwrite kn2"
      with w(2) est(2,3) have "net_inv 4096 kn2" by (simp add: net_inv_def ibuf_room_def)
      moreover have "net_out kn2 = net_out kn1" "net_in kn2 = net_in kn1" using k est(4) by (simp_all add: net_out_def net_in_def)
      moreover have "kn_everrs kn = [] \<longrightarrow> kn_everrs kn2 = []" using write_loop_everrs [OF w(1)] est(9) by blast
      ultimately show ?thesis using cb k est same sk er by (intro exI [of _ kn2]) auto
    qed
  next
    case False
    show ?thesis
    proof (cases "kn_state kn = KCN_NET_STATE_PENDING")
      case True
      with False assms(3) est same sk show ?thesis by (intro exI [of _ kn1]) (simp add: kcn_net_write_cb_def)
    next
      case notpend: False
      from inv disconnect_ok [of 4096 ?kn] obtain kn' where
        "kcn_net_disconnect ?kn = Some kn'" "net_inv 4096 kn'" "kn_fd kn' = None" by (auto simp: net_inv_def)
      with False notpend assms(3) sk inv_closed show ?thesis
        by (intro exI [of _ kn']) (auto simp: kcn_net_write_cb_def kcn_net_event_check_def kcn_net_timeout_def)
    qed
  qed
qed

text \<open>
  The write event of a connection whose socket works does not close it: the queue is written out, or the event is pending
  again and an outcome has been used up.
\<close>

lemma write_works:
  assumes "net_inv 4096 kn" "kn_evwrite kn" "EV_WRITE \<in> events" "kn_fd kn = Some sk" "steady sk" "kn_everrs kn = []"
  obtains kn' sk' where "kcn_net_write_cb events (kn\<lparr>kn_evwrite := False\<rparr>) = Some kn'" "net_inv 4096 kn'" "kn_fd kn' = Some sk'"
    "kn_state kn' = KCN_NET_STATE_ESTABLISHED" "kn_everrs kn' = []" "net_out kn' = net_out kn" "sk_rx sk' = sk_rx sk"
    "kn_ibuf kn' = kn_ibuf kn" "kn_evread kn' = (kn_evread kn \<or> kn_state kn = KCN_NET_STATE_PENDING)" "sys_used sk sk'"
    "kn_obufq kn' = [] \<and> \<not> kn_evwrite kn' \<or> kn_evwrite kn' \<and> length (sk_sys sk') < length (sk_sys sk)"
proof -
  let ?kn = "kn\<lparr>kn_evwrite := False\<rparr>"
  from write_event [OF assms(1,2), of events] assms(3) obtain kn' where w:
    "kcn_net_write_cb events ?kn = Some kn'" "net_inv 4096 kn'"
    "closed kn' \<or> kn_state kn' = KCN_NET_STATE_ESTABLISHED \<and> net_out kn' = net_out kn \<and> kn_ibuf kn' = kn_ibuf kn \<and>
      map_option sk_rx (kn_fd kn') = map_option sk_rx (kn_fd kn) \<and>
      (kn_everrs kn = [] \<longrightarrow> kn_everrs kn' = [] \<and> kn_evread kn' = (kn_evread kn \<or> kn_state kn = KCN_NET_STATE_PENDING))" by blast
  from assms(1) have "net_inv 4096 ?kn" by (auto simp: net_inv_def net_ok_def)
  from established_ok [OF this] assms(4,6) obtain kn1 where est: "kcn_net_state_change ?kn KCN_NET_STATE_ESTABLISHED = Some kn1"
    "net_inv 4096 kn1" "kn_fd kn1 = Some sk" "\<not> kn_evwrite kn1" "kn_everrs kn1 = []" by auto
  then have "net_ok 4096 kn1" "\<not> kn_evread kn1 \<or> ibuf_room 4096 kn1" by (auto simp: net_inv_def)
  from write_loop_ok [OF this(1) est(3) this(2), of kcn_net_purge_buf] assms(5) est(4,5) obtain kn2 sk' where
    l: "kcn_net_write_loop kcn_net_purge_buf sk kn1 = Some kn2" "kn_fd kn2 = Some sk'" "sys_used sk sk'"
      "kn_obufq kn2 = [] \<and> \<not> kn_evwrite kn2 \<or> kn_evwrite kn2 \<and> length (sk_sys sk') < length (sk_sys sk)" by auto
  have "kcn_net_write_cb events ?kn = Some kn2"
    using assms(3,4) est(1,3) l(1) by (simp add: kcn_net_write_cb_def kcn_net_event_check_def)
  with w(1) have kn2: "kn2 = kn'" by simp
  with l(2) have "\<not> closed kn'" by (simp add: closed_def)
  with w(3) assms(6) have k: "kn_state kn' = KCN_NET_STATE_ESTABLISHED" "net_out kn' = net_out kn" "kn_ibuf kn' = kn_ibuf kn"
    "map_option sk_rx (kn_fd kn') = map_option sk_rx (kn_fd kn)" "kn_everrs kn' = []"
    "kn_evread kn' = (kn_evread kn \<or> kn_state kn = KCN_NET_STATE_PENDING)" by blast+
  have "sk_rx sk' = sk_rx sk" using k(4) l(2) assms(4) kn2 by simp
  with w(1,2) k l(2-4) show thesis unfolding kn2 by (intro that [of kn' sk'])
qed

section \<open>A connection that waits for data\<close>

definition waiting :: "kcn_net \<Rightarrow> bool" where
  "waiting kn \<longleftrightarrow> net_inv KCN_MSG_MAXSIZ kn \<and> kn_evread kn \<and> kn_everrs kn = []"

lemma inv_fd: "net_inv cap kn \<Longrightarrow> kn_fd kn = Some sk \<Longrightarrow> net_inv cap (kn\<lparr>kn_fd := Some sk'\<rparr>)"
  by (simp add: net_inv_def net_ok_def)

lemma waiting_fd: "waiting kn \<Longrightarrow> kn_fd kn = Some sk \<Longrightarrow> waiting (kn\<lparr>kn_fd := Some sk'\<rparr>)"
  by (simp add: waiting_def inv_fd)

lemma waiting_open: "waiting kn \<Longrightarrow> kn_fd kn \<noteq> None" "waiting kn \<Longrightarrow> kn_everrs kn = []"
  by (auto simp: waiting_def net_inv_def net_ok_def)

lemma waiting_parts:
  assumes "waiting kn"
  obtains sk pre t post where "kn_fd kn = Some sk" "kn_state kn = KCN_NET_STATE_ESTABLISHED"
    "kn_ibuf kn = zbuf pre [] t post" "length pre + length t + length post = 4096" "length t < 4096"
    "net_ok 4096 (kn\<lparr>kn_evread := False\<rparr>)"
proof -
  from assms have i: "net_ok 4096 kn" "kn_evread kn" "ibuf_room 4096 kn" by (auto simp: waiting_def net_inv_def)
  then have wf: "kb_wf (kn_ibuf kn)" "kb_cap (kn_ibuf kn) = 4096" by (simp_all add: net_ok_def)
  from wf(1) obtain pre h t post where ib: "kn_ibuf kn = zbuf pre h t post" by (rule kb_wf_zbufE)
  with i(3) wf(2) have ib: "kn_ibuf kn = zbuf pre [] t post" "length pre + length t + length post = 4096" "length t < 4096"
    by (simp_all add: ibuf_room_def)
  from i(1,2) have "kn_fd kn \<noteq> None" "kn_state kn = KCN_NET_STATE_ESTABLISHED" by (auto simp: net_ok_def)
  moreover have "net_ok 4096 (kn\<lparr>kn_evread := False\<rparr>)" using i(1) by (auto simp: net_ok_def)
  ultimately show thesis using that ib by blast
qed

definition read_result :: "errno \<Rightarrow> kcn_net \<Rightarrow> 'd \<Rightarrow> (kcn_net \<times> 'd) option" where
  "read_result error kn d =
     (if error = EAGAIN then do {
        (_, kn) \<leftarrow> kcn_net_read_enable kn;
        Some (kn, d)
      } else if error \<noteq> 0 then do {
        kn \<leftarrow> kcn_net_disconnect kn;
        Some (kn, d)
      } else Some (kn, d))"

lemma read_cb_fires:
  assumes "waiting kn" "kn_fd kn = Some sk" "kn_ibuf kn = zbuf pre [] t post" "EV_READ \<in> events"
  obtains error sk1 bs pre1 post1 where "error = 0 \<longleftrightarrow> bs \<noteq> []" "sk_rx sk = bs @ sk_rx sk1"
    "length pre1 + length (t @ bs) + length post1 = 4096"
    "kcn_net_read_cb readcb events (kn\<lparr>kn_evread := False\<rparr>) d =
       (if error \<noteq> 0
        then Some (error, kn\<lparr>kn_evread := False, kn_fd := Some sk1, kn_ibuf := zbuf pre1 [] (t @ bs) post1\<rparr>, d)
        else readcb (kn\<lparr>kn_evread := False, kn_fd := Some sk1, kn_ibuf := zbuf pre1 [] (t @ bs) post1\<rparr>) d) \<bind>
       (\<lambda>(error, kn, d). read_result error kn d)"
    "sk_tx sk1 = sk_tx sk" "sys_used sk sk1"
    "steady sk \<and> sk_rx sk \<noteq> [] \<and> error \<noteq> 0 \<longrightarrow> error = EAGAIN \<and> length (sk_sys sk1) < length (sk_sys sk)"
proof -
  from waiting_parts [OF assms(1)] have st: "kn_state kn = KCN_NET_STATE_ESTABLISHED" by blast
  from waiting_parts [OF assms(1)] obtain pre' t' post' where
    "kn_ibuf kn = zbuf pre' [] t' post'" "length pre' + length t' + length post' = 4096" "length t' < 4096" by blast
  with arg_cong [OF this(1), of kb_data] arg_cong [OF this(1), of kb_cap] assms(3)
  have l: "length pre + length t + length post = 4096" "length t < 4096" by simp_all
  then have "0 < length pre + length post" by linarith
  then have ne: "pre \<noteq> [] \<or> post \<noteq> []" by auto
  define m where "m = (if post = [] then length pre else length post)"
  with ne have "0 < m" by auto
  from sock_reader.read_zbuf [OF ne, of sk "[]" t, folded m_def] obtain error sk1 bs pre1 post1 where rd:
    "kcn_buf_read sock_read sk (zbuf pre [] t post) = Some (error, sk1, zbuf pre1 [] (t @ bs) post1)"
    "error = 0 \<longleftrightarrow> bs \<noteq> []" "length pre1 + length bs + length post1 = length pre + length post"
    "sk_rx sk = bs @ sk_rx sk1" "sk_tx sk1 = sk_tx sk" "sys_used sk sk1"
    "steady sk \<and> 0 < m \<and> sk_rx sk \<noteq> [] \<and> error \<noteq> 0 \<longrightarrow> error = EAGAIN \<and> length (sk_sys sk1) < length (sk_sys sk)"
    unfolding sock_rd_post_def by (elim exE conjE) (rule that)
  have "kcn_net_event_check (kn\<lparr>kn_evread := False\<rparr>) events EV_READ = Some (True, kn\<lparr>kn_evread := False\<rparr>)"
    using assms(4) st by (simp add: kcn_net_event_check_def kcn_net_state_change_def)
  then have cb: "kcn_net_read_cb readcb events (kn\<lparr>kn_evread := False\<rparr>) d =
      (if error \<noteq> 0
       then Some (error, kn\<lparr>kn_evread := False, kn_fd := Some sk1, kn_ibuf := zbuf pre1 [] (t @ bs) post1\<rparr>, d)
       else readcb (kn\<lparr>kn_evread := False, kn_fd := Some sk1, kn_ibuf := zbuf pre1 [] (t @ bs) post1\<rparr>) d) \<bind>
      (\<lambda>(error, kn, d). read_result error kn d)"
    using assms(2,3) rd(1) by (simp add: kcn_net_read_cb_def read_result_def cong: if_cong)
  have "length pre1 + length (t @ bs) + length post1 = 4096" using rd(3) l(1) by simp
  moreover from rd(7) \<open>0 < m\<close> have
    "steady sk \<and> sk_rx sk \<noteq> [] \<and> error \<noteq> 0 \<longrightarrow> error = EAGAIN \<and> length (sk_sys sk1) < length (sk_sys sk)" by blast
  ultimately show thesis by (rule that [OF rd(2,4) _ cb rd(5,6)])
qed

lemma read_result_waits:
  assumes "net_ok 4096 kn" "kn_fd kn = Some sk" "kn_state kn = KCN_NET_STATE_ESTABLISHED" "kn_everrs kn = []"
    "ibuf_room 4096 kn"
  obtains kn' where "read_result EAGAIN kn d = Some (kn', d)" "waiting kn'" "kn_fd kn' = Some sk" "kn_ibuf kn' = kn_ibuf kn"
    "kn_evwrite kn' = kn_evwrite kn" "net_out kn' = net_out kn" "obytes kn' = obytes kn"
  using read_enable_ok [OF assms(1) _ assms(5)] assms(2-4)
  by (auto simp: read_result_def waiting_def net_out_def obytes_def)

lemma disconnect_result:
  assumes "net_ok 4096 kn" "kn_fd kn \<noteq> None"
  obtains kn' where "kcn_net_disconnect kn = Some kn'" "\<not> kn_evread kn'" "\<not> kn_evwrite kn'" "kn_state kn' = KCN_NET_STATE_DISCONNECTED" "kn_fd kn' = None"
    "kn_everrs kn' = kn_everrs kn"
  using assms by (auto simp: kcn_net_disconnect_def kcn_net_state_change_def net_ok_def Let_def)

text \<open>
  A socket that has been read: bytes have been taken from it, or an outcome has been used up.
\<close>

definition moved :: "sock \<Rightarrow> sock \<Rightarrow> bool" where
  "moved sk sk' \<longleftrightarrow> sys_used sk sk' \<and> length (sk_rx sk') + length (sk_sys sk') < length (sk_rx sk) + length (sk_sys sk)"

lemma moved_calm: "moved sk sk' \<Longrightarrow> sk_sys sk = [] \<Longrightarrow> sk_sys sk' = [] \<and> length (sk_rx sk') < length (sk_rx sk)"
  by (auto simp: moved_def dest: sys_used_length)

text \<open>A read event with bytes there, on a socket that works.\<close>

abbreviation ready :: "ev_flag set \<Rightarrow> sock \<Rightarrow> bool" where
  "ready events sk \<equiv> EV_READ \<in> events \<and> steady sk \<and> sk_rx sk \<noteq> []"

text \<open>
  The read event of a waiting connection closes it, or leaves it waiting as it was, or reads bytes and calls the
  callback; if bytes are there and the socket works, it does not close it, and leaves it as it was only when an outcome
  has been used up.
\<close>

definition has_read :: "kcn_net \<Rightarrow> sock \<Rightarrow> sock \<Rightarrow> byte list \<Rightarrow> byte list \<Rightarrow> byte list \<Rightarrow> kcn_net \<Rightarrow> bool" where
  "has_read kn sk sk1 pre t post kn1 \<longleftrightarrow> kn_fd kn1 = Some sk1 \<and> kn_state kn1 = KCN_NET_STATE_ESTABLISHED \<and> kn_everrs kn1 = [] \<and>
     \<not> kn_evread kn1 \<and> kn_evwrite kn1 = kn_evwrite kn \<and> kn_ibuf kn1 = zbuf pre [] t post \<and>
     net_in kn = t @ sk_rx sk1 \<and> net_out kn1 = net_out kn \<and> obytes kn1 = obytes kn \<and> length (sk_rx sk1) < length (sk_rx sk) \<and>
     sys_used sk sk1 \<and>
     (\<forall>pre' t'. length pre' + length t' = length pre + length t \<longrightarrow> net_ok 4096 (kn1\<lparr>kn_ibuf := zbuf pre' [] t' post\<rparr>))"

lemma has_read_moved: "has_read kn sk sk1 pre t post kn1 \<Longrightarrow> moved sk sk1"
  by (auto simp: has_read_def moved_def dest: sys_used_length)

lemma read_event:
  assumes "waiting kn" "EV_READ \<in> events \<or> EV_TIMEOUT \<in> events" "kn_fd kn = Some sk"
  obtains
    (lost) kn' where "kcn_net_read_cb readcb events (kn\<lparr>kn_evread := False\<rparr>) d = Some (kn', d)" "net_inv 4096 kn'" "closed kn'"
      "\<not> ready events sk"
  | (idle) kn' sk' where "kcn_net_read_cb readcb events (kn\<lparr>kn_evread := False\<rparr>) d = Some (kn', d)" "waiting kn'"
      "kn_fd kn' = Some sk'" "sk_rx sk' = sk_rx sk" "kb_data (kn_ibuf kn') = kb_data (kn_ibuf kn)" "net_out kn' = net_out kn"
      "obytes kn' = obytes kn" "kn_evwrite kn' = kn_evwrite kn" "ready events sk \<longrightarrow> moved sk sk'"
  | (data) kn1 sk1 pre t post where "has_read kn sk sk1 pre t post kn1"
      "kcn_net_read_cb readcb events (kn\<lparr>kn_evread := False\<rparr>) d = readcb kn1 d \<bind> (\<lambda>(error, kn, d). read_result error kn d)"
proof -
  from waiting_parts [OF assms(1)] assms(3) obtain pre t post where c: "kn_state kn = KCN_NET_STATE_ESTABLISHED"
    "kn_ibuf kn = zbuf pre [] t post" "length t < 4096" "net_ok 4096 (kn\<lparr>kn_evread := False\<rparr>)" by blast
  show thesis
  proof (cases "EV_READ \<in> events")
    case False
    from disconnect_ok [OF c(4)] obtain kn' where d: "kcn_net_disconnect (kn\<lparr>kn_evread := False\<rparr>) = Some kn'" "net_inv 4096 kn'" "closed kn'"
      using inv_closed by blast
    with False assms(2,3) show thesis
      by (intro lost [of kn']) (simp_all add: kcn_net_read_cb_def kcn_net_event_check_def kcn_net_timeout_def)
  next
    case True
    obtain error sk1 bs pre1 post1 where r: "error = 0 \<longleftrightarrow> bs \<noteq> []" "sk_rx sk = bs @ sk_rx sk1"
      "length pre1 + length (t @ bs) + length post1 = 4096"
      "kcn_net_read_cb readcb events (kn\<lparr>kn_evread := False\<rparr>) d =
       (if error \<noteq> 0
        then Some (error, kn\<lparr>kn_evread := False, kn_fd := Some sk1, kn_ibuf := zbuf pre1 [] (t @ bs) post1\<rparr>, d)
        else readcb (kn\<lparr>kn_evread := False, kn_fd := Some sk1, kn_ibuf := zbuf pre1 [] (t @ bs) post1\<rparr>) d) \<bind>
       (\<lambda>(error, kn, d). read_result error kn d)" "sk_tx sk1 = sk_tx sk" "sys_used sk sk1"
      "steady sk \<and> sk_rx sk \<noteq> [] \<and> error \<noteq> 0 \<longrightarrow> error = EAGAIN \<and> length (sk_sys sk1) < length (sk_sys sk)"
      by (rule read_cb_fires [OF assms(1,3) c(2) True])
    define kn1 where "kn1 = kn\<lparr>kn_evread := False, kn_fd := Some sk1, kn_ibuf := zbuf pre1 [] (t @ bs) post1\<rparr>"
    have ok: "net_ok 4096 (kn1\<lparr>kn_ibuf := zbuf pre' [] t' post1\<rparr>)" if "length pre' + length t' = length pre1 + length (t @ bs)" for pre' t'
      using c(1,4) assms(3) r(3) that by (simp add: net_ok_def kn1_def)
    have k: "kn_fd kn1 = Some sk1" "kn_state kn1 = KCN_NET_STATE_ESTABLISHED" "kn_everrs kn1 = []" "\<not> kn_evread kn1"
      "kn_evwrite kn1 = kn_evwrite kn" "kn_ibuf kn1 = zbuf pre1 [] (t @ bs) post1" "net_out kn1 = net_out kn" "net_ok 4096 kn1"
      "obytes kn1 = obytes kn"
      using c(1,4) assms(1,3) r(3,5) by (simp_all add: kn1_def waiting_def net_out_def obytes_def net_ok_def)
    note cb = r(4) [folded kn1_def]
    show thesis
    proof (cases "error = 0")
      case True
      have "has_read kn sk sk1 pre1 (t @ bs) post1 kn1"
        using True k r(1,2,6) ok c(2) assms(3) by (simp add: has_read_def net_in_def)
      with cb True show thesis by (intro data [of sk1 pre1 "t @ bs" post1 kn1]) simp_all
    next
      case False
      then have bs: "bs = []" using r(1) by simp
      have special: "ready events sk \<longrightarrow> error = EAGAIN \<and> moved sk sk1" using r(2,6,7) False bs by (auto simp: moved_def)
      show thesis
      proof (cases "error = EAGAIN")
        case True
        have "ibuf_room 4096 kn1" using c(3) bs k(6) by (simp add: ibuf_room_def)
        from read_result_waits [OF k(8,1-3) this, of d] obtain kn' where w: "read_result EAGAIN kn1 d = Some (kn', d)" "waiting kn'"
          "kn_fd kn' = Some sk1" "kn_ibuf kn' = kn_ibuf kn1" "net_out kn' = net_out kn1" "obytes kn' = obytes kn1"
          "kn_evwrite kn' = kn_evwrite kn1" by blast
        show thesis
          by (rule idle [of kn' sk1]) (use True False cb w special r(2) bs k(5-7,9) c(2) in simp_all)
      next
        case e: False
        from disconnect_ok [OF k(8)] obtain kn' where d: "kcn_net_disconnect kn1 = Some kn'" "net_inv 4096 kn'" "closed kn'"
          using inv_closed by blast
        show thesis
          by (rule lost [of kn']) (use cb False e d special in \<open>simp_all add: read_result_def\<close>)
      qed
    qed
  qed
qed

lemma has_read_waits:
  assumes "has_read kn sk sk1 pre t post kn1" "length pre' + length t' = length pre + length t" "length t' < 4096"
  obtains kn' where "read_result EAGAIN (kn1\<lparr>kn_ibuf := zbuf pre' [] t' post\<rparr>) d = Some (kn', d)" "waiting kn'" "kn_fd kn' = Some sk1"
    "kn_ibuf kn' = zbuf pre' [] t' post" "kn_evwrite kn' = kn_evwrite kn" "net_out kn' = net_out kn" "obytes kn' = obytes kn"
proof -
  let ?kn2 = "kn1\<lparr>kn_ibuf := zbuf pre' [] t' post\<rparr>"
  have "net_ok 4096 ?kn2" using assms(1,2) by (simp add: has_read_def)
  moreover have "ibuf_room 4096 ?kn2" using assms(3) by (simp add: ibuf_room_def)
  ultimately show thesis
    using assms(1) that by (elim read_result_waits [where d = d]) (simp_all add: has_read_def obytes_def)
qed

end
