(* ===== verification/Kcn_Client_Spec.thy ===== *)
theory Kcn_Client_Spec
  imports Kcn_Client Kcn_Net_Flow
begin

text \<open>
  What the client promises: however the bytes of an answer arrive, the locators it has stored are
  the first ones of the answer, and when it stops waiting without having lost the connection, they
  are all of them and the error number is the server's.  And what it fails to: a connection that is
  lost before anything arrives looks like an empty answer.
\<close>

section \<open>A client that waits for an answer\<close>

text \<open>
  A state is what the server has still to send, the connection, and the response structure.  Bytes
  arrive at the socket in any portions, and the read event fires for data or for a timeout.
\<close>

inductive client_step :: "allocator \<Rightarrow> errno \<Rightarrow> byte list \<times> kcn_net \<times> kcn_client_response \<Rightarrow>
    byte list \<times> kcn_net \<times> kcn_client_response \<Rightarrow> bool"
  for malloc :: allocator and errno :: errno where
  arrive: "kn_fd kn = Some sk \<Longrightarrow>
    client_step malloc errno (bs @ rest, kn, kcr) (rest, kn\<lparr>kn_fd := Some (sk\<lparr>sk_rx := sk_rx sk @ bs, sk_sys := s\<rparr>)\<rparr>, kcr)"
| fire: "kn_evread kn \<Longrightarrow> EV_READ \<in> events \<or> EV_TIMEOUT \<in> events \<Longrightarrow>
    kcn_net_read_cb (kcn_client_read malloc errno) events (kn\<lparr>kn_evread := False\<rparr>) kcr = Some (kn', kcr') \<Longrightarrow>
    client_step malloc errno (rest, kn, kcr) (rest, kn', kcr')"

inductive client_run :: "allocator \<Rightarrow> errno \<Rightarrow> byte list \<times> kcn_net \<times> kcn_client_response \<Rightarrow>
    byte list \<times> kcn_net \<times> kcn_client_response \<Rightarrow> bool"
  for malloc :: allocator and errno :: errno and s0 where
  start: "client_run malloc errno s0 s0"
| step: "client_run malloc errno s0 s \<Longrightarrow> client_step malloc errno s s' \<Longrightarrow> client_run malloc errno s0 s'"

definition collected :: "(nat \<times> byte list) list \<Rightarrow> errno \<Rightarrow> kcn_info \<Rightarrow>
    byte list \<times> kcn_net \<times> kcn_client_response \<Rightarrow> bool" where
  "collected locs e ki0 = (\<lambda>(rest, kn, kcr).
     (waiting kn \<and> (kcr_error kcr = 0 \<or> kcr_error kcr = EAGAIN) \<and>
        (\<exists>sk k. kn_fd kn = Some sk \<and> k \<le> length locs \<and> kcr_ki kcr = fold info_push (take k locs) ki0 \<and>
           kb_data (kn_ibuf kn) @ sk_rx sk @ rest = answer (drop k locs) e)) \<or>
     (\<not> kn_evread kn \<and> kcr_error kcr = e \<and> kcr_ki kcr = fold info_push locs ki0 \<and>
        kn_state kn = (if e = 0 then KCN_NET_STATE_ESTABLISHED else KCN_NET_STATE_DISCONNECTED)) \<or>
     (\<not> kn_evread kn \<and> kn_state kn = KCN_NET_STATE_DISCONNECTED \<and> (kcr_error kcr = 0 \<or> kcr_error kcr = EAGAIN) \<and>
        (\<exists>k \<le> length locs. kcr_ki kcr = fold info_push (take k locs) ki0)))"

lemma collected_waiting:
  "waiting kn \<Longrightarrow> kcr_error kcr = 0 \<or> kcr_error kcr = EAGAIN \<Longrightarrow> kn_fd kn = Some sk \<Longrightarrow> k \<le> length locs \<Longrightarrow>
   kcr_ki kcr = fold info_push (take k locs) ki0 \<Longrightarrow> kb_data (kn_ibuf kn) @ sk_rx sk @ rest = answer (drop k locs) e \<Longrightarrow>
   collected locs e ki0 (rest, kn, kcr)"
  unfolding collected_def by blast

text \<open>
  The read event of a waiting client: it returns, and in one of the three states.  If bytes are there and the socket
  works, it has all of the answer, or waits for more and has taken bytes from the socket or used up an outcome.
\<close>

definition advances :: "(nat \<times> byte list) list \<Rightarrow> errno \<Rightarrow> kcn_info \<Rightarrow> byte list \<Rightarrow> kcn_net \<Rightarrow> sock \<Rightarrow>
    kcn_net \<Rightarrow> kcn_client_response \<Rightarrow> bool" where
  "advances locs e ki0 rest kn sk kn' kcr' \<longleftrightarrow>
     (\<not> kn_evread kn' \<and> (kn_evwrite kn' \<longrightarrow> kn_evwrite kn) \<and> kcr_error kcr' = e \<and> kcr_ki kcr' = fold info_push locs ki0 \<and>
        kn_state kn' = (if e = 0 then KCN_NET_STATE_ESTABLISHED else KCN_NET_STATE_DISCONNECTED) \<and>
        kn_everrs kn' = [] \<and> (\<forall>sk'. kn_fd kn' = Some sk' \<longrightarrow> moved sk sk')) \<or>
     (waiting kn' \<and> kn_evwrite kn' = kn_evwrite kn \<and> obytes kn' = obytes kn \<and>
        (\<exists>sk'. kn_fd kn' = Some sk' \<and> moved sk sk' \<and> sk_rx sk' @ rest \<noteq> []))"

text \<open>The callback on what has been read: it has the whole answer, or a beginning of it.\<close>

lemma client_reads_whole:
  assumes "has_read kn sk sk1 pre t post kn1" "t = answer (drop k locs) e" "kcr_ki kcr = fold info_push (take k locs) ki0"
    and "locs_ok malloc (drop k locs)" "info_room (kcr_ki kcr) (length (drop k locs))"
    and "e < 256" "e \<noteq> EAGAIN"
  shows "\<exists>kn' kcr'. kcn_client_read malloc errno kn1 kcr \<bind> (\<lambda>(error, kn, d). read_result error kn d) = Some (kn', kcr') \<and>
    \<not> kn_evread kn' \<and> (kn_evwrite kn' \<longrightarrow> kn_evwrite kn) \<and> kcr_error kcr' = e \<and> kcr_ki kcr' = fold info_push locs ki0 \<and>
    kn_state kn' = (if e = 0 then KCN_NET_STATE_ESTABLISHED else KCN_NET_STATE_DISCONNECTED) \<and>
    kn_everrs kn' = [] \<and> (kn_fd kn' = None \<or> kn_fd kn' = Some sk1)"
proof -
  let ?kn2 = "kn1\<lparr>kn_ibuf := zbuf (pre @ t) [] [] post\<rparr>" and ?kcr2 = "kcr\<lparr>kcr_error := e, kcr_ki := fold info_push locs ki0\<rparr>"
  have f: "fold info_push (drop k locs) (fold info_push (take k locs) ki0) = fold info_push locs ki0"
    using fold_append [of info_push "take k locs" "drop k locs"] by (simp add: o_def fun_eq_iff)
  from assms(1) have h: "kn_ibuf kn1 = zbuf pre [] t post" "\<not> kn_evread kn1" "kn_evwrite kn1 = kn_evwrite kn"
    "kn_state kn1 = KCN_NET_STATE_ESTABLISHED" "kn_fd kn1 = Some sk1" "net_ok 4096 ?kn2" "kn_everrs kn1 = []" by (simp_all add: has_read_def)
  have r: "kcn_client_read malloc errno kn1 kcr = Some (e, ?kn2, ?kcr2)"
    using client_loop_whole [OF assms(4-7), of errno pre "[]" post] f assms(2,3) h(1) by (simp add: kcn_client_read_def)
  show ?thesis
  proof (cases "e = 0")
    case True
    with r h show ?thesis by (simp add: read_result_def)
  next
    case False
    from disconnect_result [OF h(6)] h(5) obtain kn' where
      "kcn_net_disconnect ?kn2 = Some kn'" "\<not> kn_evread kn'" "\<not> kn_evwrite kn'" "kn_state kn' = KCN_NET_STATE_DISCONNECTED" "kn_fd kn' = None"
      "kn_everrs kn' = []" using h(7) by auto
    with r False assms(7) show ?thesis by (simp add: read_result_def)
  qed
qed

lemma client_reads_part:
  assumes "has_read kn sk sk1 pre t post kn1" "t @ rest = answer (drop k locs) e" "rest \<noteq> []" "kcr_ki kcr = fold info_push (take k locs) ki0"
    and "locs_ok malloc (drop k locs)" "info_room (kcr_ki kcr) (length (drop k locs))"
  shows "\<exists>kn' kcr' j. kcn_client_read malloc errno kn1 kcr \<bind> (\<lambda>(error, kn, d). read_result error kn d) = Some (kn', kcr') \<and>
    waiting kn' \<and> kn_fd kn' = Some sk1 \<and> kn_evwrite kn' = kn_evwrite kn \<and> obytes kn' = obytes kn \<and> kcr_error kcr' = EAGAIN \<and> j \<le> length (drop k locs) \<and>
    kcr_ki kcr' = fold info_push (take (k + j) locs) ki0 \<and> kb_data (kn_ibuf kn') @ rest = answer (drop (k + j) locs) e"
proof -
  from client_loop_part [OF assms(5,6,2,3), of errno pre post] obtain j pre' t' where
    p: "kcn_client_read_loop malloc errno (zbuf pre [] t post) (kcr_ki kcr) =
      Some (EAGAIN, zbuf pre' [] t' post, fold info_push (take j (drop k locs)) (kcr_ki kcr))"
    "j \<le> length (drop k locs)" "t' @ rest = answer (drop j (drop k locs)) e" "pre' @ t' = pre @ t" "length t' < 4096" by blast
  let ?kn2 = "kn1\<lparr>kn_ibuf := zbuf pre' [] t' post\<rparr>"
  let ?kcr2 = "kcr\<lparr>kcr_error := EAGAIN, kcr_ki := fold info_push (take (k + j) locs) ki0\<rparr>"
  have f: "fold info_push (take j (drop k locs)) (fold info_push (take k locs) ki0) = fold info_push (take (k + j) locs) ki0"
    using fold_append [of info_push "take k locs" "take j (drop k locs)"] by (simp add: o_def fun_eq_iff take_add)
  have "kn_ibuf kn1 = zbuf pre [] t post" using assms(1) by (simp add: has_read_def)
  with p(1) f assms(4) have "kcn_client_read malloc errno kn1 kcr = Some (EAGAIN, ?kn2, ?kcr2)" by (simp add: kcn_client_read_def)
  moreover have "length pre' + length t' = length pre + length t" using arg_cong [OF p(4), of length] by simp
  from has_read_waits [OF assms(1) this p(5), of ?kcr2] obtain kn' where "read_result EAGAIN ?kn2 ?kcr2 = Some (kn', ?kcr2)" "waiting kn'"
    "kn_fd kn' = Some sk1" "kn_ibuf kn' = zbuf pre' [] t' post" "kn_evwrite kn' = kn_evwrite kn" "obytes kn' = obytes kn" by blast
  ultimately show ?thesis using p(2,3) by (intro exI [of _ kn'] exI [of _ ?kcr2] exI [of _ j]) (simp add: add.commute)
qed

lemma waiting_fires:
  assumes w: "waiting kn" "kcr_error kcr = 0 \<or> kcr_error kcr = EAGAIN" "kn_fd kn = Some sk" "k \<le> length locs"
      "kcr_ki kcr = fold info_push (take k locs) ki0" "kb_data (kn_ibuf kn) @ sk_rx sk @ rest = answer (drop k locs) e"
    and l: "locs_ok malloc locs" "info_room ki0 (length locs)" "e < 256" "e \<noteq> EAGAIN"
    and ev: "EV_READ \<in> events \<or> EV_TIMEOUT \<in> events"
  shows "\<exists>kn' kcr'. kcn_net_read_cb (kcn_client_read malloc errno) events (kn\<lparr>kn_evread := False\<rparr>) kcr = Some (kn', kcr') \<and>
    collected locs e ki0 (rest, kn', kcr') \<and>
    (ready events sk \<longrightarrow> advances locs e ki0 rest kn sk kn' kcr')"
proof (rule read_event [OF w(1) ev w(3), of "kcn_client_read malloc errno" kcr])
  fix kn' assume "kcn_net_read_cb (kcn_client_read malloc errno) events (kn\<lparr>kn_evread := False\<rparr>) kcr = Some (kn', kcr)" "closed kn'"
    "\<not> ready events sk"
  with w(2,4,5) show ?thesis unfolding collected_def closed_def by (intro exI [of _ kn'] exI [of _ kcr]) auto
next
  fix kn' sk' assume k: "kcn_net_read_cb (kcn_client_read malloc errno) events (kn\<lparr>kn_evread := False\<rparr>) kcr = Some (kn', kcr)" "waiting kn'"
    "kn_fd kn' = Some sk'" "sk_rx sk' = sk_rx sk" "kb_data (kn_ibuf kn') = kb_data (kn_ibuf kn)" and
    same: "obytes kn' = obytes kn" "kn_evwrite kn' = kn_evwrite kn" "ready events sk \<longrightarrow> moved sk sk'"
  with w(2,4,5,6) collected_waiting [of kn' kcr sk' k locs ki0 rest e] have "collected locs e ki0 (rest, kn', kcr)" by simp
  moreover have "advances locs e ki0 rest kn sk kn' kcr" if "ready events sk"
    using that k(2-4) same unfolding advances_def by (intro disjI2 conjI exI [of _ sk']) simp_all
  ultimately show ?thesis using k(1) by blast
next
  fix kn1 sk1 pre t post assume h: "has_read kn sk sk1 pre t post kn1" and
    cb: "kcn_net_read_cb (kcn_client_read malloc errno) events (kn\<lparr>kn_evread := False\<rparr>) kcr =
      kcn_client_read malloc errno kn1 kcr \<bind> (\<lambda>(error, kn, d). read_result error kn d)"
  from h have s: "net_in kn = t @ sk_rx sk1" "moved sk sk1" using has_read_moved [OF h] by (simp_all add: has_read_def)
  have "kb_data (kn_ibuf kn) @ sk_rx sk = t @ sk_rx sk1" using s(1) w(3) by (simp add: net_in_def)
  then have "(kb_data (kn_ibuf kn) @ sk_rx sk) @ rest = (t @ sk_rx sk1) @ rest" by simp
  then have t: "t @ sk_rx sk1 @ rest = answer (drop k locs) e" using w(6) by simp
  have pre: "locs_ok malloc (drop k locs)"
    "info_room (kcr_ki kcr) (length (drop k locs))"
    using l(1,2) w(4,5) by (auto simp: locs_ok_def dest: in_set_dropD)
  show ?thesis
  proof (cases "sk_rx sk1 @ rest = []")
    case True
    with t have "t = answer (drop k locs) e" by simp
    from client_reads_whole [OF h this w(5) pre l(3,4), of errno] obtain kn' kcr' where
      r: "kcn_net_read_cb (kcn_client_read malloc errno) events (kn\<lparr>kn_evread := False\<rparr>) kcr = Some (kn', kcr')"
      "\<not> kn_evread kn'" "kn_evwrite kn' \<longrightarrow> kn_evwrite kn" "kcr_error kcr' = e" "kcr_ki kcr' = fold info_push locs ki0"
      "kn_state kn' = (if e = 0 then KCN_NET_STATE_ESTABLISHED else KCN_NET_STATE_DISCONNECTED)"
      "kn_everrs kn' = []" "kn_fd kn' = None \<or> kn_fd kn' = Some sk1" unfolding cb by blast
    then have "collected locs e ki0 (rest, kn', kcr')" unfolding collected_def by blast
    moreover have "advances locs e ki0 rest kn sk kn' kcr'" using r(2-8) s(2) unfolding advances_def by auto
    ultimately show ?thesis using r(1) by blast
  next
    case False
    from client_reads_part [OF h t this w(5) pre, of errno] obtain kn' kcr' j where
      r: "kcn_net_read_cb (kcn_client_read malloc errno) events (kn\<lparr>kn_evread := False\<rparr>) kcr = Some (kn', kcr')"
      "waiting kn'" "kn_fd kn' = Some sk1" "kn_evwrite kn' = kn_evwrite kn" "obytes kn' = obytes kn" "kcr_error kcr' = EAGAIN" "j \<le> length (drop k locs)"
      "kcr_ki kcr' = fold info_push (take (k + j) locs) ki0"
      "kb_data (kn_ibuf kn') @ sk_rx sk1 @ rest = answer (drop (k + j) locs) e" unfolding cb by blast
    then have "collected locs e ki0 (rest, kn', kcr')" using w(4) by (intro collected_waiting [of _ _ sk1 "k + j"]) simp_all
    moreover have "advances locs e ki0 rest kn sk kn' kcr'"
      using r(2-5) s(2) False unfolding advances_def by blast
    ultimately show ?thesis using r(1) by blast
  qed
qed

lemma step_collected:
  assumes "client_step malloc errno s s'" "collected locs e ki0 s"
    and "locs_ok malloc locs" "info_room ki0 (length locs)" "e < 256" "e \<noteq> EAGAIN"
  shows "collected locs e ki0 s'"
  using assms(1,2)
proof (induction rule: client_step.induct)
  case (arrive kn sk bs rest kcr s)
  let ?kn = "kn\<lparr>kn_fd := Some (sk\<lparr>sk_rx := sk_rx sk @ bs, sk_sys := s\<rparr>)\<rparr>"
  show ?case
  proof (cases "waiting kn")
    case False
    with arrive(2) show ?thesis by (auto simp: collected_def)
  next
    case True
    then have w: "waiting ?kn" using arrive(1) by (auto simp: waiting_def net_inv_def net_ok_def)
    from True have "kn_evread kn" by (simp add: waiting_def)
    with arrive(1,2) obtain k where "kcr_error kcr = 0 \<or> kcr_error kcr = EAGAIN" "k \<le> length locs"
      "kcr_ki kcr = fold info_push (take k locs) ki0" "kb_data (kn_ibuf kn) @ sk_rx sk @ bs @ rest = answer (drop k locs) e"
      by (auto simp: collected_def)
    with w show ?thesis
      by (intro collected_waiting [of _ _ "sk\<lparr>sk_rx := sk_rx sk @ bs, sk_sys := s\<rparr>" k]) simp_all
  qed
next
  case (fire kn events kcr kn' kcr' rest)
  from fire(4) fire(1) obtain sk k where w: "waiting kn" "kcr_error kcr = 0 \<or> kcr_error kcr = EAGAIN"
    "kn_fd kn = Some sk" "k \<le> length locs" "kcr_ki kcr = fold info_push (take k locs) ki0"
    "kb_data (kn_ibuf kn) @ sk_rx sk @ rest = answer (drop k locs) e"
    unfolding collected_def by auto
  from waiting_fires [OF w assms(3-6) fire(2), of errno] fire(3) show ?case by auto
qed

lemma run_collected:
  assumes "client_run malloc errno s0 s" "collected locs e ki0 s0"
    and "locs_ok malloc locs" "info_room ki0 (length locs)" "e < 256" "e \<noteq> EAGAIN"
  shows "collected locs e ki0 s"
  using assms(1,2) by (induction rule: client_run.induct) (use step_collected assms(3-6) in blast)+

section \<open>Connections that fail\<close>

text \<open>Everything a search needs before the event loop succeeds.\<close>

definition env_ready :: "client_env \<Rightarrow> sock \<Rightarrow> bool" where
  "env_ready env sk \<longleftrightarrow> ce_event_init env = Inr () \<and> ce_aton env = Inr () \<and> ce_connect env = Inr sk \<and> ce_kn_new env \<and>
     alloc_ok (ce_malloc env) \<and> (\<forall>n. ce_malloc env n \<noteq> None) \<and> ce_base_set env \<and> ce_everrs env = []"

lemma client_init_ok:
  assumes "env_ready env sk"
  obtains kn where "kcn_client_init env = Some (Inr kn)" "net_inv 4096 kn" "kn_fd kn = Some sk"
    "kn_state kn = KCN_NET_STATE_INIT" "kn_obufq kn = []" "kn_evwrite kn" "kn_everrs kn = []"
proof -
  from assms obtain m where "ce_malloc env KCN_MSG_MAXSIZ = Some m" by (fastforce simp: env_ready_def)
  with assms obtain kn where n: "kcn_net_new (ce_kn_new env) (ce_malloc env) (ce_base_set env) (ce_everrs env) sk KCN_MSG_MAXSIZ (ce_ntoa env) =
      Some (Some kn)"
    by (simp add: env_ready_def kcn_net_new_def kcn_buf_data_new_def kcn_buf_init_def kcn_buf_start_def kb_sp_def
        kcn_net_write_enable_def kcn_net_event_add_def)
  then have "kcn_client_init env = Some (Inr kn)" using assms by (simp add: kcn_client_init_def env_ready_def)
  moreover have "alloc_ok (ce_malloc env)" "ce_everrs env = []" using assms by (simp_all add: env_ready_def)
  ultimately show thesis using net_new_ok [OF _ n] that by simp
qed

lemma query_send_ok:
  assumes "net_inv 4096 kn" "kn_fd kn = Some sk" "kn_state kn = KCN_NET_STATE_INIT" "kn_everrs kn = []"
    "alloc_ok malloc" "malloc 32 \<noteq> None"
  shows "\<exists>kn'. kcn_client_query_send malloc kn kmq = Some (Inr (), kn') \<and> net_inv 4096 kn' \<and> kn_fd kn' = Some sk \<and>
    kn_state kn' = KCN_NET_STATE_PENDING \<and> obytes kn' = obytes kn @ query_msg kmq \<and> kn_evwrite kn' \<and> kn_everrs kn' = [] \<and>
    kn_ibuf kn' = kn_ibuf kn"
proof -
  from assms(1,3) have ok: "net_ok 4096 kn" "ibuf_room 4096 kn" by (simp_all add: net_inv_def)
  from obuf_ok [OF ok(1)] obtain kb where o: "kcn_net_obuf kn = Some kb" "kb_wf kb" "kb_cap kb = 4096" .
  from query_encode_ok [OF o(2), of kmq] o(3) obtain post where
    e: "kcn_msg_query_encode kb kmq = Some (zbuf [] (header_bytes 1 (query_body kmq)) (query_body kmq) post)"
      "4096 = 32 + length post" by auto
  let ?kb = "zbuf [] (header_bytes 1 (query_body kmq)) (query_body kmq) post"
  have kb: "kb_wf ?kb" "kb_cap ?kb = 4096" "kb_data ?kb = query_msg kmq" using e(2) by (simp_all add: query_msg_def)
  have ne: "kb_data ?kb \<noteq> []" "malloc (length (kb_data ?kb)) \<noteq> None" using assms(6)
    by (simp_all add: header_bytes_def)
  note sync = obuf_sync_ok [OF ok(1) kb(1,2)]
  from net_write_ok [OF sync(1) _ kb(1) ne(1) assms(5)] ne(2) sync assms(2,3,4) kb(3) obtain kn1 where
    w: "kcn_net_write malloc (kn_obuf_sync ?kb kn) ?kb = Some (Inr (), kn1)" "net_ok 4096 kn1" "kn_fd kn1 = Some sk"
      "kn_state kn1 = KCN_NET_STATE_INIT" "kn_ibuf kn1 = kn_ibuf kn" "obytes kn1 = obytes kn @ query_msg kmq"
      "kn_everrs kn1 = []" "kn_evwrite kn1" by auto
  let ?kn = "kn1\<lparr>kn_state := KCN_NET_STATE_PENDING\<rparr>"
  have "kcn_net_read_enable kn1 = Some (Inr (), ?kn)" by (simp add: kcn_net_read_enable_def w(4))
  moreover have "net_inv 4096 ?kn"
    using w(2-5) ok(2) by (auto simp: net_inv_def net_ok_def ibuf_room_def)
  ultimately show ?thesis using o(1) e(1) w
    by (simp add: kcn_client_query_send_def)
qed

text \<open>A write that fails closes the connection.\<close>

lemma write_fails:
  assumes "sk_sys sk = SockFail e # s" "e \<noteq> 0" "e \<noteq> EINTR"
  shows "\<exists>sk'. kcn_buf_write sock_write sk (zbuf pre h t post) = Some (e, sk', zbuf pre h t post)"
proof -
  have "kcn_buf_write_loop sock_write sk bs = Some (e, -1, sk\<lparr>sk_sys := s\<rparr>)" for bs
    using assms by (subst kcn_buf_write_loop.simps) (simp add: sock_write_def kcn_buf_error_def)
  then show ?thesis using assms(2) zbuf_load(1) [of pre h t post "length h + length t"]
    by (simp add: kcn_buf_write_def zbuf_simps)
qed

lemma write_cb_fails:
  assumes "net_inv 4096 kn" "kn_fd kn = Some sk" "sk_sys sk = SockFail e # s" "e \<noteq> 0" "e \<noteq> EINTR" "e \<noteq> EAGAIN" "kn_obufq kn \<noteq> []"
  shows "\<exists>kn'. kcn_net_write_cb {EV_WRITE} (kn\<lparr>kn_evwrite := False\<rparr>) = Some kn' \<and> net_inv 4096 kn' \<and>
    kn_state kn' = KCN_NET_STATE_DISCONNECTED"
proof -
  let ?kn = "kn\<lparr>kn_evwrite := False\<rparr>"
  from assms(1) have inv: "net_inv 4096 ?kn" by (auto simp: net_inv_def net_ok_def)
  from established_ok [OF inv] assms(2) obtain kn1 where
    est: "kcn_net_state_change ?kn KCN_NET_STATE_ESTABLISHED = Some kn1" "net_inv 4096 kn1"
      "kn_fd kn1 = Some sk" "kn_obufq kn1 = kn_obufq kn" by auto
  obtain d q where q: "kn_obufq kn1 = d # q" using assms(7) est(4) by (cases "kn_obufq kn") auto
  with est(2) have d: "kbd_wf d" "kbd_bytes d \<noteq> []" by (auto simp: net_inv_def net_ok_def)
  from fetch_zbuf [OF d(1)] obtain pre post where
    f: "kcn_buf_fetch kcn_net_purge_buf (d # q) = Some (True, zbuf pre [] (kbd_bytes d) post)"
      "kb_kbd (zbuf pre [] (kbd_bytes d) post) = Some d" by blast
  from write_fails [OF assms(3-5)] obtain sk' where
    w: "kcn_buf_write sock_write sk (zbuf pre [] (kbd_bytes d) post) = Some (e, sk', zbuf pre [] (kbd_bytes d) post)" by blast
  let ?kn1 = "kn1\<lparr>kn_obufq := d # q, kn_fd := Some sk'\<rparr>"
  have "kcn_net_write_loop kcn_net_purge_buf sk kn1 = kcn_net_disconnect ?kn1"
    using f w q assms(4,6) by (subst kcn_net_write_loop.simps) (simp add: kb_sync_def)
  moreover have "net_ok 4096 ?kn1" using est(2,3) q by (auto simp: net_inv_def net_ok_def)
  from disconnect_ok [OF this] obtain kn2 where "kcn_net_disconnect ?kn1 = Some kn2" "net_inv 4096 kn2"
    "kn_state kn2 = KCN_NET_STATE_DISCONNECTED" by auto
  ultimately show ?thesis
    using est assms(2) by (simp add: kcn_net_write_cb_def kcn_net_event_check_def)
qed

lemma run_collects:
  assumes "waiting kn" "kn_fd kn = Some sk" "sk_rx sk = []" "kb_data (kn_ibuf kn) = []"
    and "locs_ok malloc locs" "info_room ki (length locs)" "e < 256" "e \<noteq> EAGAIN"
    and "client_run malloc errno (answer locs e, kn, \<lparr>kcr_error = 0, kcr_ki = ki\<rparr>) (rest, kn', kcr)"
  shows "(\<exists>k \<le> length locs. info_locs (kcr_ki kcr) = info_locs ki @ map snd (take k locs)) \<and>
    (kn_evread kn' \<longrightarrow> (\<forall>events. EV_READ \<in> events \<or> EV_TIMEOUT \<in> events \<longrightarrow>
       kcn_net_read_cb (kcn_client_read malloc errno) events (kn'\<lparr>kn_evread := False\<rparr>) kcr \<noteq> None)) \<and>
    (\<not> kn_evread kn' \<longrightarrow>
       kcr_error kcr = e \<and> info_locs (kcr_ki kcr) = info_locs ki @ map snd locs \<or>
       kn_state kn' = KCN_NET_STATE_DISCONNECTED \<and> (kcr_error kcr = 0 \<or> kcr_error kcr = EAGAIN))"
proof -
  have "collected locs e ki (answer locs e, kn, \<lparr>kcr_error = 0, kcr_ki = ki\<rparr>)"
    using assms(1-4) by (intro collected_waiting [of _ _ sk 0]) simp_all
  from run_collected [OF assms(9) this assms(5-8)] have c: "collected locs e ki (rest, kn', kcr)" .
  have "take (length locs) locs = locs" by simp
  with c have "\<exists>k \<le> length locs. kcr_ki kcr = fold info_push (take k locs) ki"
    unfolding collected_def prod.case by (metis order_refl)
  then have "\<exists>k \<le> length locs. info_locs (kcr_ki kcr) = info_locs ki @ map snd (take k locs)" by auto
  moreover have "kcn_net_read_cb (kcn_client_read malloc errno) events (kn'\<lparr>kn_evread := False\<rparr>) kcr \<noteq> None"
    if "kn_evread kn'" "EV_READ \<in> events \<or> EV_TIMEOUT \<in> events" for events
  proof -
    from c that(1) obtain sk k where w: "waiting kn'" "kcr_error kcr = 0 \<or> kcr_error kcr = EAGAIN"
      "kn_fd kn' = Some sk" "k \<le> length locs" "kcr_ki kcr = fold info_push (take k locs) ki"
      "kb_data (kn_ibuf kn') @ sk_rx sk @ rest = answer (drop k locs) e"
      unfolding collected_def by auto
    from waiting_fires [OF w assms(5-8) that(2), of errno] show ?thesis by auto
  qed
  moreover have "kcr_error kcr = e \<and> info_locs (kcr_ki kcr) = info_locs ki @ map snd locs \<or>
      kn_state kn' = KCN_NET_STATE_DISCONNECTED \<and> (kcr_error kcr = 0 \<or> kcr_error kcr = EAGAIN)" if "\<not> kn_evread kn'"
    using c that unfolding collected_def waiting_def by auto
  ultimately show ?thesis by blast
qed

section \<open>Properties\<close>

text \<open>A client that waits, for concrete executions.\<close>

definition client_kn :: kcn_net where
  "client_kn = (received [])\<lparr>kn_evread := True\<rparr>"

definition client_ki :: kcn_info where
  "client_ki = \<lparr>ki_loctype = 0, ki_maxnlocs = 10, ki_dbname = [], ki_country = [], ki_userip = [], ki_time = 0, ki_locs = []\<rparr>"

lemma client_kn_waiting: "waiting client_kn" "kn_fd client_kn = Some \<lparr>sk_rx = [], sk_eof = False, sk_tx = [], sk_sys = []\<rparr>"
    "kb_data (kn_ibuf client_kn) = []"
  by (simp_all add: waiting_def client_kn_def received_def net_inv_def net_ok_def ibuf_room_def kbd_wf_def)

lemma client_ki_empty: "kcn_info_nlocs client_ki = 0" "kcn_info_maxnlocs client_ki = 10" "info_locs client_ki = []" "info_ok client_ki"
  by (simp_all add: client_ki_def kcn_info_nlocs_def kcn_info_maxnlocs_def info_locs_def info_ok_def)

text \<open>
  The event loop when the first thing that happens is that the socket becomes writable; it ends if
  no event is pending after that.
\<close>

definition write_event_only :: "kcn_client_response net_readcb \<Rightarrow> kcn_net \<Rightarrow> kcn_client_response \<Rightarrow>
    (bool \<times> errno \<times> kcn_net \<times> kcn_client_response) option" where
  "write_event_only readcb kn kcr = do {
     c_assert (kn_evwrite kn);
     kn \<leftarrow> kcn_net_write_cb {EV_WRITE} (kn\<lparr>kn_evwrite := False\<rparr>);
     c_assert (\<not> kn_evread kn \<and> \<not> kn_evwrite kn);
     Some (True, 0, kn, kcr)
   }"

text \<open>
  C33. A search whose connection is refused succeeds: the write of the query fails, the connection is
  closed and the event loop ends, but the error is not stored, so that \<open>kcn_client_search\<close> returns
  true with no locator.
\<close>

theorem refused_connection_succeeds:
  assumes "env_ready env sk" "sk_sys sk = SockFail e # s" "e \<noteq> 0" "e \<noteq> EINTR" "e \<noteq> EAGAIN"
    and "ce_dispatch env = write_event_only"
  shows "kcn_client_search env ki kmq = Some (True, 0, ki)"
proof -
  from client_init_ok [OF assms(1)] obtain kn where i: "kcn_client_init env = Some (Inr kn)" "net_inv 4096 kn"
    "kn_fd kn = Some sk" "kn_state kn = KCN_NET_STATE_INIT" "kn_obufq kn = []" "kn_everrs kn = []" by blast
  have "alloc_ok (ce_malloc env)" "ce_malloc env 32 \<noteq> None" using assms(1) by (simp_all add: env_ready_def)
  from query_send_ok [OF i(2-4,6) this, of kmq] obtain kn1 where
    q: "kcn_client_query_send (ce_malloc env) kn kmq = Some (Inr (), kn1)" "net_inv 4096 kn1" "kn_fd kn1 = Some sk"
      "obytes kn1 = obytes kn @ query_msg kmq" "kn_evwrite kn1" by blast
  have "obytes kn1 \<noteq> []" using q(4) by (simp add: query_msg_def header_bytes_def)
  then have "kn_obufq kn1 \<noteq> []" by (auto simp: obytes_def)
  from write_cb_fails [OF q(2,3) assms(2-5) this] obtain kn2 where
    w: "kcn_net_write_cb {EV_WRITE} (kn1\<lparr>kn_evwrite := False\<rparr>) = Some kn2" "net_inv 4096 kn2"
      "kn_state kn2 = KCN_NET_STATE_DISCONNECTED" by blast
  then have "\<not> kn_evread kn2 \<and> \<not> kn_evwrite kn2" by (auto simp: net_inv_def net_ok_def)
  moreover have "kcn_net_destroy kn2 \<noteq> None" using w(3)
    by (simp add: kcn_net_destroy_def kcn_net_disconnect_def purge_empties)
  moreover have "ce_event_init env = Inr ()" using assms(1) by (simp add: env_ready_def)
  ultimately show ?thesis
    using i(1) q(1,5) w(1)
    by (auto simp: kcn_client_search_def assms(6) write_event_only_def kcn_client_finish_def)
qed

theorem refused_connection_succeeds_witness:
  "kcn_client_search \<lparr>ce_event_init = Inr (), ce_aton = Inr (),
       ce_connect = Inr \<lparr>sk_rx = [], sk_eof = False, sk_tx = [], sk_sys = [SockFail 111]\<rparr>, ce_ntoa = ''127.0.0.1/9410'',
       ce_kn_new = True, ce_malloc = zero_malloc, ce_base_set = True, ce_everrs = [], ce_new_errno = 0, ce_read_errno = 0,
       ce_dispatch = write_event_only\<rparr> client_ki
     \<lparr>kmq_loctype = 0, kmq_maxcount = 10, kmq_eq = \<lparr>ke_type = 1, ke_op = 1, ke_val = 0, ke_start = 0, ke_end = 0\<rparr>\<rparr> =
   Some (True, 0, client_ki)"
  by (rule refused_connection_succeeds [where e = 111 and s = "[]"
      and sk = "\<lparr>sk_rx = [], sk_eof = False, sk_tx = [], sk_sys = [SockFail 111]\<rparr>"])
    (simp_all add: env_ready_def alloc_ok_def zero_malloc_def)

end
