(* ===== verification/Kcn_Uri.thy ===== *)
theory Kcn_Uri
  imports Kcn_Keys
begin

text \<open>
  \<^verbatim>\<open>lib/kcn_uri.c\<close> and \<^verbatim>\<open>lib/kcn_httpbuf.c\<close>: the URI of a request, to which parameters are appended in
  a block that is reallocated to the predicted length, and the buffer that collects a response.
  \<open>realloc mem n\<close> is the block that takes the place of \<open>mem\<close>, or \<^const>\<open>None\<close> for a null pointer.
  \<open>sizeof('\0')\<close> is the size of an \<open>int\<close>.
\<close>

section \<open>URIs\<close>

record kcn_uri =
  ku_urilen :: nat
  ku_uri :: string

type_synonym reallocator = "string \<Rightarrow> nat \<Rightarrow> string option"

abbreviation (input) KCN_URI_ENCODING_FACTOR :: nat where "KCN_URI_ENCODING_FACTOR \<equiv> 3"
abbreviation (input) SIZEOF_NUL :: nat where "SIZEOF_NUL \<equiv> 4"

definition kcn_uri_str_isnormal :: "char \<Rightarrow> bool" where
  "kcn_uri_str_isnormal c = (c_isalnum c \<or> c = CHR ''.'' \<or> c = CHR ''-'' \<or> c = CHR ''_'')"

fun kcn_uri_str_len :: "string \<Rightarrow> bool \<Rightarrow> nat" where
  "kcn_uri_str_len [] isencoding = 0"
| "kcn_uri_str_len (c # s) isencoding =
     (if isencoding \<and> \<not> kcn_uri_str_isnormal c \<and> c \<noteq> CHR '' '' then KCN_URI_ENCODING_FACTOR else 1) +
     kcn_uri_str_len s isencoding"

text \<open>\<open>ku_new\<close>: whether the structure can be allocated.\<close>

definition kcn_uri_new :: "bool \<Rightarrow> char_allocator \<Rightarrow> string \<Rightarrow> kcn_uri option option" where
  "kcn_uri_new ku_new malloc base =
     (if \<not> ku_new then Some None
      else let urilen = kcn_uri_str_len base False in
        case malloc (urilen + SIZEOF_NUL) of
          None \<Rightarrow> Some None
        | Some uri \<Rightarrow> do {
            uri \<leftarrow> strlcpy uri base (urilen + SIZEOF_NUL);
            Some (Some \<lparr>ku_urilen = urilen, ku_uri = uri\<rparr>)
          })"

definition kcn_uri_len :: "kcn_uri \<Rightarrow> nat" where
  "kcn_uri_len ku = ku_urilen ku"

text \<open>The C function \<open>kcn_uri\<close>.\<close>

definition kcn_uri_get :: "kcn_uri \<Rightarrow> string" where
  "kcn_uri_get ku = ku_uri ku"

definition mem_putc :: "string \<Rightarrow> nat \<Rightarrow> char \<Rightarrow> string option" where
  "mem_putc mem d c = do {
     c_assert (d < length mem);
     Some (mem[d := c])
   }"

definition kcn_uri_ensure_trailing_space ::
  "reallocator \<Rightarrow> kcn_uri \<Rightarrow> nat \<Rightarrow> (bool \<times> kcn_uri) option" where
  "kcn_uri_ensure_trailing_space realloc ku tlen =
     (let nlen = ku_urilen ku + tlen in
      case realloc (ku_uri ku) (nlen + SIZEOF_NUL) of
        None \<Rightarrow> Some (False, ku)
      | Some uri \<Rightarrow> do {
          uri \<leftarrow> mem_putc uri nlen NUL;
          Some (True, ku\<lparr>ku_uri := uri\<rparr>)
        })"

definition kcn_uri_resize :: "kcn_uri \<Rightarrow> nat \<Rightarrow> kcn_uri option" where
  "kcn_uri_resize ku len = do {
     c_assert (len \<le> ku_urilen ku);
     uri \<leftarrow> mem_putc (ku_uri ku) len NUL;
     Some (ku\<lparr>ku_urilen := len, ku_uri := uri\<rparr>)
   }"

definition hexstr :: string where
  "hexstr = ''0123456789ABCDEF''"

fun encputs_loop :: "string \<Rightarrow> nat \<Rightarrow> string \<Rightarrow> (string \<times> nat) option" where
  "encputs_loop mem d [] = Some (mem, d)"
| "encputs_loop mem d (c # s) =
     (if kcn_uri_str_isnormal c then do {
        mem \<leftarrow> mem_putc mem d c;
        encputs_loop mem (d + 1) s
      } else if c = CHR '' '' then do {
        mem \<leftarrow> mem_putc mem d (CHR ''+'');
        encputs_loop mem (d + 1) s
      } else do {
        mem \<leftarrow> mem_putc mem d (CHR ''%'');
        mem \<leftarrow> mem_putc mem (d + 1) (hexstr ! (drop_bit 4 (char_code c) AND 0xf));
        mem \<leftarrow> mem_putc mem (d + 2) (hexstr ! (char_code c AND 0xf));
        encputs_loop mem (d + 3) s
      })"

definition kcn_uri_encputs :: "reallocator \<Rightarrow> kcn_uri \<Rightarrow> string \<Rightarrow> (bool \<times> kcn_uri) option" where
  "kcn_uri_encputs realloc ku s0 = do {
     (ensured, ku) \<leftarrow> kcn_uri_ensure_trailing_space realloc ku (kcn_uri_str_len s0 True);
     (if \<not> ensured then Some (False, ku)
      else do {
        (uri, d) \<leftarrow> encputs_loop (ku_uri ku) (ku_urilen ku) s0;
        Some (True, ku\<lparr>ku_uri := uri, ku_urilen := d\<rparr>)
      })
   }"

definition kcn_uri_puts :: "reallocator \<Rightarrow> kcn_uri \<Rightarrow> string \<Rightarrow> (bool \<times> kcn_uri) option" where
  "kcn_uri_puts realloc ku s =
     (let slen = kcn_uri_str_len s False in do {
        (ensured, ku) \<leftarrow> kcn_uri_ensure_trailing_space realloc ku slen;
        (if \<not> ensured then Some (False, ku)
         else do {
           c_assert (ku_urilen ku + slen \<le> length (ku_uri ku));
           Some (True, ku\<lparr>ku_uri := list_write (ku_urilen ku) (take slen s) (ku_uri ku),
                         ku_urilen := ku_urilen ku + slen\<rparr>)
         })
      })"

definition kcn_uri_param_puts ::
  "reallocator \<Rightarrow> kcn_uri \<Rightarrow> string \<Rightarrow> string option \<Rightarrow> (bool \<times> kcn_uri) option" where
  "kcn_uri_param_puts realloc ku param val =
     (case val of
        None \<Rightarrow> Some (True, ku)
      | Some val \<Rightarrow> do {
          (ok, ku) \<leftarrow> kcn_uri_puts realloc ku ''&'';
          (if \<not> ok then Some (False, ku) else do {
           (ok, ku) \<leftarrow> kcn_uri_puts realloc ku param;
           (if \<not> ok then Some (False, ku) else do {
            (ok, ku) \<leftarrow> kcn_uri_puts realloc ku ''='';
            (if \<not> ok then Some (False, ku) else kcn_uri_encputs realloc ku val)})})
        })"

section \<open>The reference encoding\<close>

definition uri_encode_char :: "char \<Rightarrow> string" where
  "uri_encode_char c =
     (if kcn_uri_str_isnormal c then [c] else if c = CHR '' '' then ''+''
      else [CHR ''%'', hexstr ! (char_code c div 16), hexstr ! (char_code c mod 16)])"

definition uri_encode :: "string \<Rightarrow> string" where
  "uri_encode s = concat (map uri_encode_char s)"

text \<open>The decoding of forms, as a server does it.\<close>

definition hex_value :: "char \<Rightarrow> nat" where
  "hex_value c = (if c_isdigit c then char_code c - 48 else char_code c - 55)"

fun uri_decode :: "string \<Rightarrow> string" where
  "uri_decode [] = []"
| "uri_decode (c # s) =
     (if c = CHR ''+'' then CHR '' '' # uri_decode s
      else if c = CHR ''%''
      then (case s of h # l # s' \<Rightarrow> char_of (16 * hex_value h + hex_value l) # uri_decode s' | _ \<Rightarrow> c # s)
      else c # uri_decode s)"

lemma char_code_less [simp]: "char_code c < 256"
  by (simp add: char_code_def)

lemma hex_value_hexstr:
  assumes "n < 16" shows "hex_value (hexstr ! n) = n"
proof -
  have "list_all (\<lambda>n. hex_value (hexstr ! n) = n) [0..<16]" by code_simp
  with assms show ?thesis by (simp add: list_all_iff)
qed

lemma uri_decode_char: "uri_decode (uri_encode_char c @ s) = c # uri_decode s"
proof -
  have "c \<noteq> CHR ''+''" "c \<noteq> CHR ''%''" if "kcn_uri_str_isnormal c"
    using that by (auto simp: kcn_uri_str_isnormal_def c_isalnum_def c_isdigit_def c_isupper_def c_islower_def char_code_def)
  moreover have "char_code c div 16 < 16" by (simp add: less_mult_imp_div_less)
  then have "char_of (16 * hex_value (hexstr ! (char_code c div 16)) + hex_value (hexstr ! (char_code c mod 16))) = c"
    by (simp add: hex_value_hexstr) (simp add: char_code_def)
  ultimately show ?thesis by (simp add: uri_encode_char_def)
qed

lemma uri_decode_encode: "uri_decode (uri_encode s) = s"
  by (induction s) (simp_all add: uri_encode_def uri_decode_char)

text \<open>The prediction is right.\<close>

lemma str_len_plain [simp]: "kcn_uri_str_len s False = length s"
  by (induction s) simp_all

lemma str_len_encode: "kcn_uri_str_len s True = length (uri_encode s)"
  by (induction s) (simp_all add: uri_encode_def uri_encode_char_def)

section \<open>What a URI holds\<close>

definition realloc_ok :: "reallocator \<Rightarrow> bool" where
  "realloc_ok realloc = (\<forall>mem n mem'. realloc mem n = Some mem' \<longrightarrow>
     length mem' = n \<and> take (min (length mem) n) mem' = take n mem)"

text \<open>The string of \<open>ku\<close> is \<open>u\<close>.\<close>

definition uri_holds :: "kcn_uri \<Rightarrow> string \<Rightarrow> bool" where
  "uri_holds ku u \<longleftrightarrow> NUL \<notin> set u \<and> ku_urilen ku = length u \<and> (\<exists>post. ku_uri ku = u @ NUL # post)"

lemma uri_holdsI: "NUL \<notin> set u \<Longrightarrow> uri_holds \<lparr>ku_urilen = length u, ku_uri = u @ NUL # post\<rparr> u"
  by (simp add: uri_holds_def)

lemma uri_holdsE:
  assumes "uri_holds ku u"
  obtains post where "ku = \<lparr>ku_urilen = length u, ku_uri = u @ NUL # post\<rparr>" "NUL \<notin> set u"
  using assms by (cases ku) (auto simp: uri_holds_def)

lemma uri_holds_str: "uri_holds ku u \<Longrightarrow> kcn_uri_len ku = length u \<and> c_str (kcn_uri_get ku) = Some u"
  by (auto simp: uri_holds_def kcn_uri_len_def kcn_uri_get_def c_str_block)

lemma uri_new_ok:
  assumes "char_alloc_ok malloc" "NUL \<notin> set base"
  shows "\<exists>r. kcn_uri_new ku_new malloc base = Some r \<and> (\<forall>ku. r = Some ku \<longrightarrow> uri_holds ku base) \<and>
    (r = None \<longleftrightarrow> \<not> ku_new \<or> malloc (length base + SIZEOF_NUL) = None)"
proof (cases "malloc (length base + 4)")
  case (Some mem)
  with assms(1) have "length mem = length base + 4" by (auto simp: char_alloc_ok_def)
  then have "strlcpy mem base (length base + 4) = Some (base @ [NUL, NUL, NUL, NUL])"
    by (simp add: strlcpy_def strncpy_def list_write_def eval_nat_numeral list_update_append)
  with Some assms(2) show ?thesis by (auto simp: kcn_uri_new_def Let_def uri_holds_def)
qed (simp add: kcn_uri_new_def)

text \<open>After the block has grown, the string and the room behind it are followed by a NUL.\<close>

lemma uri_ensure_ok:
  assumes "realloc_ok realloc" "uri_holds ku u"
  shows "kcn_uri_ensure_trailing_space realloc ku n = Some (False, ku) \<or>
    (\<exists>room post. kcn_uri_ensure_trailing_space realloc ku n =
       Some (True, \<lparr>ku_urilen = length u, ku_uri = u @ room @ NUL # post\<rparr>) \<and> length room = n)"
proof -
  from assms(2) obtain post where ku: "ku = \<lparr>ku_urilen = length u, ku_uri = u @ NUL # post\<rparr>" by (rule uri_holdsE)
  show ?thesis
  proof (cases "realloc (ku_uri ku) (length u + n + 4)")
    case (Some mem)
    with assms(1) have l: "length mem = length u + n + 4"
      and t: "take (min (length (ku_uri ku)) (length u + n + 4)) mem = take (length u + n + 4) (ku_uri ku)"
      unfolding realloc_ok_def by blast+
    from arg_cong [OF t, of "take (length u)"] have u: "take (length u) mem = u"
      by (simp add: ku min_def split: if_splits)
    define room where "room = take n (drop (length u) mem)"
    define post where "post = drop (length u + n + 1) mem"
    have "mem[length u + n := NUL] = take (length u + n) mem @ NUL # post"
      using l by (simp add: post_def upd_conv_take_nth_drop)
    also have "take (length u + n) mem = u @ room"
      using u by (simp add: room_def take_add)
    finally have "mem[length u + n := NUL] = u @ room @ NUL # post" by simp
    moreover have "length room = n" using l by (simp add: room_def)
    ultimately show ?thesis
      using Some l by (auto simp: kcn_uri_ensure_trailing_space_def mem_putc_def ku)
  qed (simp add: kcn_uri_ensure_trailing_space_def ku)
qed

lemma encputs_loop_ok:
  assumes "length room = length (uri_encode s)"
  shows "encputs_loop (u @ room @ post) (length u) s = Some (u @ uri_encode s @ post, length u + length (uri_encode s))"
  using assms
proof (induction s arbitrary: u room)
  case (Cons c s)
  have e: "uri_encode (c # s) = uri_encode_char c @ uri_encode s" by (simp add: uri_encode_def)
  define r where "r = drop (length (uri_encode_char c)) room"
  have r: "length r = length (uri_encode s)" using Cons.prems by (simp add: e r_def)
  have IH: "encputs_loop (u @ uri_encode_char c @ r @ post) (length u + length (uri_encode_char c)) s =
      Some (u @ uri_encode (c # s) @ post, length u + length (uri_encode (c # s)))"
    using Cons.IH [OF r, of "u @ uri_encode_char c"] by (simp add: e)
  show ?case
  proof (cases "kcn_uri_str_isnormal c \<or> c = CHR '' ''")
    case True
    with Cons.prems obtain x where x: "room = x # r"
      by (cases room) (auto simp: e r_def uri_encode_char_def split: if_splits)
    with IH True show ?thesis by (auto simp: mem_putc_def uri_encode_char_def)
  next
    case False
    then have l: "length (uri_encode_char c) = 3" by (simp add: uri_encode_char_def)
    then have "2 \<le> length room" using Cons.prems by (simp add: e)
    then obtain x y zs where xy: "room = x # y # zs" by (rule length_ge_2E)
    then have "Suc 0 \<le> length zs" using Cons.prems l by (simp add: e)
    then obtain z zs' where "zs = z # zs'" by (rule length_ge_1E)
    with xy l have x: "room = x # y # z # r" by (simp add: r_def)
    have m: "n AND 15 = n mod 16" for n :: nat
      using take_bit_eq_mask [of 4 n] by (simp add: take_bit_eq_mod mask_eq_exp_minus_1)
    have "char_code c div 16 < 16" by (simp add: less_mult_imp_div_less)
    then have "drop_bit 4 (char_code c) AND 0xf = char_code c div 16" "char_code c AND 0xf = char_code c mod 16"
      by (simp_all add: drop_bit_eq_div m)
    with IH False x show ?thesis
      by (simp add: mem_putc_def uri_encode_char_def list_update_append numeral_3_eq_3)
  qed
qed (simp add: uri_encode_def)

text \<open>What may happen to a URI when \<open>v\<close> is to be appended: it is, or memory runs out and a part is.\<close>

definition uri_extended :: "(bool \<times> kcn_uri) option \<Rightarrow> string \<Rightarrow> string \<Rightarrow> bool" where
  "uri_extended r u v \<longleftrightarrow> (\<exists>ok ku' w. r = Some (ok, ku') \<and> uri_holds ku' (u @ w) \<and> (ok \<longrightarrow> w = v))"

lemma uri_extendedI: "r = Some (ok, ku') \<Longrightarrow> uri_holds ku' (u @ w) \<Longrightarrow> (ok \<Longrightarrow> w = v) \<Longrightarrow> uri_extended r u v"
  by (auto simp: uri_extended_def)

lemma uri_extended_bind:
  assumes "uri_extended r u v" "\<And>ku. r = Some (True, ku) \<Longrightarrow> uri_holds ku (u @ v) \<Longrightarrow> uri_extended (f ku) (u @ v) w"
  shows "uri_extended (do { (ok, ku) \<leftarrow> r; (if \<not> ok then Some (False, ku) else f ku) }) u (v @ w)"
proof -
  from assms(1) obtain ok ku x where r: "r = Some (ok, ku)" "uri_holds ku (u @ x)" "ok \<longrightarrow> x = v"
    by (auto simp: uri_extended_def)
  show ?thesis
  proof (cases ok)
    case True
    with r assms(2) have "uri_extended (f ku) (u @ v) w" by simp
    then obtain ok' ku' y where "f ku = Some (ok', ku')" "uri_holds ku' (u @ v @ y)" "ok' \<longrightarrow> y = w"
      by (auto simp: uri_extended_def)
    with r True show ?thesis by (intro uri_extendedI [of _ ok' ku' u "v @ y"]) simp_all
  next
    case False
    with r show ?thesis by (intro uri_extendedI [of _ False ku u x]) simp_all
  qed
qed

lemma uri_puts_ok:
  assumes "realloc_ok realloc" "uri_holds ku u" "NUL \<notin> set s"
  shows "uri_extended (kcn_uri_puts realloc ku s) u s"
  using uri_ensure_ok [OF assms(1,2), of "length s"]
proof (elim disjE exE conjE)
  assume "kcn_uri_ensure_trailing_space realloc ku (length s) = Some (False, ku)"
  with assms(2) show ?thesis by (intro uri_extendedI [of _ False ku u "[]"]) (simp_all add: kcn_uri_puts_def)
next
  fix room post assume e: "kcn_uri_ensure_trailing_space realloc ku (length s) =
      Some (True, \<lparr>ku_urilen = length u, ku_uri = u @ room @ NUL # post\<rparr>)" "length room = length s"
  let ?ku = "\<lparr>ku_urilen = length (u @ s), ku_uri = (u @ s) @ NUL # post\<rparr>"
  have "kcn_uri_puts realloc ku s = Some (True, ?ku)"
    using e by (simp add: kcn_uri_puts_def)
  moreover have "uri_holds ?ku (u @ s)" using assms(2,3) by (intro uri_holdsI) (simp add: uri_holds_def)
  ultimately show ?thesis by (rule uri_extendedI) simp
qed

lemma hexstr_not_NUL: "n < 16 \<Longrightarrow> NUL \<noteq> hexstr ! n"
proof -
  have "list_all (\<lambda>n. NUL \<noteq> hexstr ! n) [0..<16]" by code_simp
  then show "n < 16 \<Longrightarrow> NUL \<noteq> hexstr ! n" by (simp add: list_all_iff)
qed

lemma uri_encode_no_NUL: "NUL \<notin> set (uri_encode s)"
proof -
  have "\<not> kcn_uri_str_isnormal NUL"
    by (simp add: kcn_uri_str_isnormal_def c_isalnum_def c_isdigit_def c_isupper_def c_islower_def char_code_def)
  moreover have "char_code c div 16 < 16" for c by (simp add: less_mult_imp_div_less)
  ultimately have "NUL \<notin> set (uri_encode_char c)" for c by (auto simp: uri_encode_char_def hexstr_not_NUL)
  then show ?thesis by (simp add: uri_encode_def)
qed

lemma uri_encputs_ok:
  assumes "realloc_ok realloc" "uri_holds ku u"
  shows "uri_extended (kcn_uri_encputs realloc ku s) u (uri_encode s)"
  using uri_ensure_ok [OF assms(1,2), of "length (uri_encode s)"]
proof (elim disjE exE conjE)
  assume "kcn_uri_ensure_trailing_space realloc ku (length (uri_encode s)) = Some (False, ku)"
  with assms(2) show ?thesis
    by (intro uri_extendedI [of _ False ku u "[]"]) (simp_all add: kcn_uri_encputs_def str_len_encode)
next
  fix room post assume e: "kcn_uri_ensure_trailing_space realloc ku (length (uri_encode s)) =
      Some (True, \<lparr>ku_urilen = length u, ku_uri = u @ room @ NUL # post\<rparr>)" "length room = length (uri_encode s)"
  let ?ku = "\<lparr>ku_urilen = length (u @ uri_encode s), ku_uri = (u @ uri_encode s) @ NUL # post\<rparr>"
  have "kcn_uri_encputs realloc ku s = Some (True, ?ku)"
    using e encputs_loop_ok [of room s u "NUL # post"] by (simp add: kcn_uri_encputs_def str_len_encode)
  moreover have "uri_holds ?ku (u @ uri_encode s)"
    using assms(2) uri_encode_no_NUL [of s] by (intro uri_holdsI) (simp add: uri_holds_def)
  ultimately show ?thesis by (rule uri_extendedI) simp
qed

definition uri_param :: "string \<Rightarrow> string option \<Rightarrow> string" where
  "uri_param param val = (case val of None \<Rightarrow> [] | Some val \<Rightarrow> ''&'' @ param @ ''='' @ uri_encode val)"

lemma uri_param_puts_ok:
  assumes "realloc_ok realloc" "uri_holds ku u" "NUL \<notin> set param"
  shows "uri_extended (kcn_uri_param_puts realloc ku param val) u (uri_param param val)"
proof (cases val)
  case None
  with assms(2) show ?thesis
    by (intro uri_extendedI [of _ True ku u "[]"]) (simp_all add: kcn_uri_param_puts_def uri_param_def)
next
  case (Some v)
  show ?thesis
    unfolding kcn_uri_param_puts_def uri_param_def Some option.case
    using assms by (intro uri_extended_bind uri_puts_ok uri_encputs_ok) simp_all
qed

lemma uri_resize_ok:
  assumes "uri_holds ku (u @ v)"
  shows "\<exists>ku'. kcn_uri_resize ku (length u) = Some ku' \<and> uri_holds ku' u"
proof -
  from assms obtain post where ku: "ku = \<lparr>ku_urilen = length (u @ v), ku_uri = (u @ v) @ NUL # post\<rparr>" and n: "NUL \<notin> set (u @ v)"
    by (rule uri_holdsE)
  obtain x w where x: "v @ NUL # post = x # w" by (cases v) auto
  then have "kcn_uri_resize ku (length u) = Some \<lparr>ku_urilen = length u, ku_uri = u @ NUL # w\<rparr>"
    by (simp add: kcn_uri_resize_def ku mem_putc_def)
  with n show ?thesis by (auto intro: uri_holdsI)
qed

section \<open>Response buffers\<close>

record kcn_httpbuf =
  khb_ptr :: "byte list option"
  khb_size :: nat

type_synonym byte_reallocator = "byte list option \<Rightarrow> nat \<Rightarrow> byte list option"

definition kcn_httpbuf_new :: "bool \<Rightarrow> kcn_httpbuf option" where
  "kcn_httpbuf_new khb_new = (if \<not> khb_new then None else Some \<lparr>khb_ptr = None, khb_size = 0\<rparr>)"

definition kcn_httpbuf_get :: "kcn_httpbuf \<Rightarrow> byte list option \<times> kcn_httpbuf" where
  "kcn_httpbuf_get khb = (khb_ptr khb, khb\<lparr>khb_ptr := None, khb_size := 0\<rparr>)"

definition kcn_httpbuf_append ::
  "byte_reallocator \<Rightarrow> kcn_httpbuf \<Rightarrow> byte list \<Rightarrow> nat \<Rightarrow> (bool \<times> kcn_httpbuf) option" where
  "kcn_httpbuf_append realloc khb p size' =
     (let total = (khb_size khb + size') mod 2 ^ 64 in
      if khb_size khb > total then Some (False, khb)
      else case realloc (khb_ptr khb) total of
        None \<Rightarrow> Some (False, khb)
      | Some np \<Rightarrow> do {
          c_assert (size' \<le> length p);
          c_assert (khb_size khb + size' \<le> length np);
          Some (True, khb\<lparr>khb_ptr := Some (list_write (khb_size khb) (take size' p) np), khb_size := total\<rparr>)
        })"

definition byte_realloc_ok :: "byte_reallocator \<Rightarrow> bool" where
  "byte_realloc_ok realloc = (\<forall>mem n mem'. realloc mem n = Some mem' \<longrightarrow>
     length mem' = n \<and> take (min (length (case mem of None \<Rightarrow> [] | Some m \<Rightarrow> m)) n) mem' =
       take n (case mem of None \<Rightarrow> [] | Some m \<Rightarrow> m))"

text \<open>The buffer has collected \<open>bs\<close>.\<close>

definition httpbuf_holds :: "kcn_httpbuf \<Rightarrow> byte list \<Rightarrow> bool" where
  "httpbuf_holds khb bs \<longleftrightarrow> (case khb_ptr khb of None \<Rightarrow> [] | Some m \<Rightarrow> m) = bs \<and>
     khb_size khb = length bs \<and> length bs < 2 ^ 64"

lemma httpbuf_append_ok:
  assumes "byte_realloc_ok realloc" "httpbuf_holds khb bs" "n \<le> length p" "n < 2 ^ 64"
  shows "\<exists>ok khb'. kcn_httpbuf_append realloc khb p n = Some (ok, khb') \<and>
    (if ok then httpbuf_holds khb' (bs @ take n p) else khb' = khb)"
proof -
  have bs: "khb_size khb = length bs" "(case khb_ptr khb of None \<Rightarrow> [] | Some m \<Rightarrow> m) = bs" "length bs < 2 ^ 64"
    using assms(2) by (simp_all add: httpbuf_holds_def)
  define t where "t = (length bs + n) mod 2 ^ 64"
  have app: "kcn_httpbuf_append realloc khb p n =
      (if length bs > t then Some (False, khb)
       else case realloc (khb_ptr khb) t of
         None \<Rightarrow> Some (False, khb)
       | Some np \<Rightarrow> do {
           c_assert (length bs + n \<le> length np);
           Some (True, khb\<lparr>khb_ptr := Some (list_write (length bs) (take n p) np), khb_size := t\<rparr>)
         })"
    using assms(3) unfolding kcn_httpbuf_append_def bs(1) t_def [symmetric] Let_def
    by (simp add: c_assert_def cong: if_cong option.case_cong)
  show ?thesis
  proof (cases "length bs > t \<or> realloc (khb_ptr khb) t = None")
    case True
    then show ?thesis unfolding app by (intro exI [of _ False] exI [of _ khb]) (elim disjE; simp)
  next
    case False
    then obtain np where np: "realloc (khb_ptr khb) t = Some np" and le: "length bs \<le> t" by (auto simp: not_less)
    have t: "t = length bs + n"
    proof (rule ccontr)
      assume "t \<noteq> length bs + n"
      then have ge: "2 ^ 64 \<le> length bs + n" unfolding t_def by (meson mod_less not_le_imp_less)
      moreover have "length bs + n - 2 ^ 64 < 2 ^ 64" using bs(3) assms(4) by linarith
      ultimately have "t = length bs + n - 2 ^ 64" unfolding t_def by (simp only: le_mod_geq mod_less)
      with le assms(4) ge show False by linarith
    qed
    from assms(1) np have l: "length np = t" and k: "take (min (length bs) t) np = take t bs"
      unfolding byte_realloc_ok_def bs(2) [symmetric] by blast+
    from k t have k: "take (length bs) np = bs" by simp
    have "t < 2 ^ 64" unfolding t_def by (rule mod_less_divisor) simp
    with t have "length bs + n < 2 ^ 64" by (simp only:)
    with np le assms(3) l t k show ?thesis
      unfolding app by (intro exI [of _ True]) (simp add: list_write_def httpbuf_holds_def)
  qed
qed

section \<open>Properties\<close>

text \<open>
  C30. Appending a parameter to a URI stays within the block that was reallocated to the predicted
  length: if it succeeds, the URI is the old one, \<open>&\<close>, the name, \<open>=\<close> and the encoded value; if memory
  runs out, the URI is still a string that begins with the old one, so that cutting it to the old
  length gives the old URI back.
\<close>

theorem uri_param_appends:
  assumes "realloc_ok realloc" "uri_holds ku u" "NUL \<notin> set param"
  shows "\<exists>ok ku' w ku''. kcn_uri_param_puts realloc ku param (Some val) = Some (ok, ku') \<and>
    kcn_uri_len ku' = length u + length w \<and> c_str (kcn_uri_get ku') = Some (u @ w) \<and>
    (ok \<longrightarrow> w = ''&'' @ param @ ''='' @ uri_encode val) \<and>
    kcn_uri_resize ku' (length u) = Some ku'' \<and> c_str (kcn_uri_get ku'') = Some u"
proof -
  from uri_param_puts_ok [OF assms, of "Some val"] obtain ok ku' w where
    p: "kcn_uri_param_puts realloc ku param (Some val) = Some (ok, ku')" "uri_holds ku' (u @ w)"
      "ok \<longrightarrow> w = ''&'' @ param @ ''='' @ uri_encode val"
    by (auto simp: uri_extended_def uri_param_def)
  obtain ku'' where r: "kcn_uri_resize ku' (length u) = Some ku''" "uri_holds ku'' u"
    using uri_resize_ok [OF p(2)] by blast
  show ?thesis
    by (intro exI [of _ ok] exI [of _ ku'] exI [of _ w] exI [of _ ku'']) (use p r uri_holds_str [OF p(2)] uri_holds_str [OF r(2)] in simp)
qed

definition nul_realloc :: reallocator where
  "nul_realloc mem n = Some (take n (mem @ replicate n NUL))"

lemma nul_realloc_ok [simp]: "realloc_ok nul_realloc"
  by (simp add: realloc_ok_def nul_realloc_def min_def)

theorem uri_param_appends_witness:
  "\<exists>ok ku'. kcn_uri_param_puts nul_realloc \<lparr>ku_urilen = 1, ku_uri = [CHR ''u'', NUL]\<rparr> ''q'' (Some ''a b&c'') = Some (ok, ku') \<and>
    (ok \<longrightarrow> c_str (kcn_uri_get ku') = Some ''u&q=a+b%26c'')"
proof -
  have h: "uri_holds \<lparr>ku_urilen = 1, ku_uri = [CHR ''u'', NUL]\<rparr> ''u''" by (simp add: uri_holds_def)
  have e: "uri_encode ''a b&c'' = ''a+b%26c''" by code_simp
  from uri_param_appends [OF nul_realloc_ok h, of "''q''" "''a b&c''"] show ?thesis by (auto simp: e)
qed

lemma encputs_memory:
  assumes "\<forall>mem n. realloc mem n \<noteq> None" "kcn_uri_encputs realloc ku s = Some (ok, ku')"
  shows ok
proof -
  from assms(1) obtain uri where "realloc (ku_uri ku) (ku_urilen ku + kcn_uri_str_len s True + SIZEOF_NUL) = Some uri" by blast
  with assms(2) show ?thesis
    by (auto simp: kcn_uri_encputs_def kcn_uri_ensure_trailing_space_def Let_def bind_eq_Some_conv split: if_splits)
qed

text \<open>The characters that the encoding leaves in a URI.\<close>

definition uri_safe :: "char \<Rightarrow> bool" where
  "uri_safe c \<longleftrightarrow> kcn_uri_str_isnormal c \<or> c = CHR ''+'' \<or> c = CHR ''%''"

lemma encode_safe: "list_all uri_safe (uri_encode s)"
proof -
  have "list_all (\<lambda>n. uri_safe (hexstr ! n)) [0..<16]" by code_simp
  then have "n < 16 \<Longrightarrow> uri_safe (hexstr ! n)" for n by (simp add: list_all_iff)
  moreover have "char_code c div 16 < 16" for c by (simp add: less_mult_imp_div_less)
  ultimately have "list_all uri_safe (uri_encode_char c)" for c by (simp add: uri_encode_char_def uri_safe_def)
  then show ?thesis by (induction s) (simp_all add: uri_encode_def)
qed

text \<open>
  C31. \<open>kcn_uri_encputs\<close> appends to a URI an encoding of the value, of letters, digits, dots, dashes, underscores, plus and percent
  signs only, that a server decodes to the value, and that has the length the block was reallocated for; it fails only
  when memory runs out.
\<close>

theorem uri_encoding_roundtrip:
  assumes "realloc_ok realloc" "uri_holds ku u"
  shows "\<exists>ok ku' w. kcn_uri_encputs realloc ku s = Some (ok, ku') \<and> kcn_uri_len ku' = length u + length w \<and>
    c_str (kcn_uri_get ku') = Some (u @ w) \<and> ((\<forall>mem n. realloc mem n \<noteq> None) \<longrightarrow> ok) \<and>
    (ok \<longrightarrow> uri_decode w = s \<and> list_all uri_safe w \<and> length w = kcn_uri_str_len s True)"
proof -
  from uri_encputs_ok [OF assms, of s] obtain ok ku' w where
    p: "kcn_uri_encputs realloc ku s = Some (ok, ku')" "uri_holds ku' (u @ w)" "ok \<longrightarrow> w = uri_encode s"
    by (auto simp: uri_extended_def)
  have "(\<forall>mem n. realloc mem n \<noteq> None) \<longrightarrow> ok" using encputs_memory [OF _ p(1)] by blast
  with p uri_holds_str [OF p(2)] show ?thesis
    by (intro exI [of _ ok] exI [of _ ku'] exI [of _ w]) (simp add: uri_decode_encode str_len_encode encode_safe)
qed

theorem uri_encoding_roundtrip_witness:
  "\<exists>ku' w. kcn_uri_encputs nul_realloc \<lparr>ku_urilen = 1, ku_uri = [CHR ''u'', NUL]\<rparr> ''a b&c'' = Some (True, ku') \<and>
    c_str (kcn_uri_get ku') = Some (''u'' @ w) \<and> uri_decode w = ''a b&c'' \<and> length w = 7"
proof -
  have h: "uri_holds \<lparr>ku_urilen = 1, ku_uri = [CHR ''u'', NUL]\<rparr> ''u''" by (simp add: uri_holds_def)
  have l: "kcn_uri_str_len ''a b&c'' True = 7" by code_simp
  have n: "\<forall>mem n. nul_realloc mem n \<noteq> None" by (simp add: nul_realloc_def)
  from uri_encoding_roundtrip [OF nul_realloc_ok h, of "''a b&c''"] n show ?thesis unfolding l by auto
qed

end
