(* ===== verification/Kcn_Google.thy ===== *)
theory Kcn_Google
  imports Kcn_Search Kcn_Client_Spec Kcn_Uri
begin

text \<open>
  \<^verbatim>\<open>lib/kcn_http.c\<close> and \<^verbatim>\<open>lib/kcn_google.c\<close>: the database that asks a web search, page by page.

  libcurl and jansson are parameters: \<open>he_perform\<close> runs a transfer, which calls the write callback for
  each portion of the body, and \<open>json_loads\<close> parses the collected text.
\<close>

section \<open>HTTP\<close>

abbreviation (input) KCN_HTTP_OK :: int where "KCN_HTTP_OK \<equiv> 200"
abbreviation (input) KCN_HTTP_FORBIDDEN :: int where "KCN_HTTP_FORBIDDEN \<equiv> 403"
abbreviation (input) ETIMEDOUT :: errno where "ETIMEDOUT \<equiv> 110"

datatype curlcode = CURLE_OK | CURLE_OUT_OF_MEMORY | CURLE_OPERATION_TIMEOUTED | CURLE_OTHER

type_synonym curl_write = "byte list \<Rightarrow> nat \<Rightarrow> nat \<Rightarrow> kcn_httpbuf \<Rightarrow> (nat \<times> kcn_httpbuf) option"

record http_env =
  he_khb_new :: bool
  he_realloc :: byte_reallocator
  he_curl_init :: bool
  he_perform :: "curl_write \<Rightarrow> string \<Rightarrow> kcn_httpbuf \<Rightarrow> (curlcode \<times> kcn_httpbuf) option"

definition kcn_http_curl_code2errno :: "curlcode \<Rightarrow> errno" where
  "kcn_http_curl_code2errno cc =
     (case cc of CURLE_OUT_OF_MEMORY \<Rightarrow> ENOMEM | CURLE_OPERATION_TIMEOUTED \<Rightarrow> ETIMEDOUT | _ \<Rightarrow> ENETDOWN)"

definition kcn_http_curl_callback :: "byte_reallocator \<Rightarrow> curl_write" where
  "kcn_http_curl_callback realloc p size' n khb =
     (let totalsize = (size' * n) mod 2 ^ 64 in
      if totalsize < size' then Some (0, khb)
      else do {
        (appended, khb) \<leftarrow> kcn_httpbuf_append realloc khb p totalsize;
        Some (if \<not> appended then 0 else totalsize, khb)
      })"

text \<open>The result is \<open>errno\<close> and the text, the terminating NUL included, or a null pointer.\<close>

definition kcn_http_response_get :: "http_env \<Rightarrow> errno \<Rightarrow> string \<Rightarrow> (errno \<times> byte list option) option" where
  "kcn_http_response_get env errno uri =
     (case kcn_httpbuf_new (he_khb_new env) of
        None \<Rightarrow> Some (ENOMEM, None)
      | Some khb \<Rightarrow>
          (if \<not> he_curl_init env then Some (errno, None)
           else do {
             (cc, khb) \<leftarrow> he_perform env (kcn_http_curl_callback (he_realloc env)) uri khb;
             (if cc = CURLE_OK
              then do {
                (appended, khb) \<leftarrow> kcn_httpbuf_append (he_realloc env) khb [0] 1;
                Some (errno, if appended then fst (kcn_httpbuf_get khb) else None)
              }
              else Some (kcn_http_curl_code2errno cc, None))
           }))"

section \<open>JSON\<close>

datatype json = JInt int | JString string | JArray "json list" | JObject "(string \<times> json) list" | JOther

fun json_object_get :: "json \<Rightarrow> string \<Rightarrow> json option" where
  "json_object_get (JObject kvs) k = map_of kvs k"
| "json_object_get _ k = None"

section \<open>The web search\<close>

definition KCN_GOOGLE_URI_BASE :: string where
  "KCN_GOOGLE_URI_BASE = ''http://ajax.googleapis.com/ajax/services/search/web?v=1.0''"

abbreviation (input) KCN_GOOGLE_API_RCOUNTMAX :: nat where "KCN_GOOGLE_API_RCOUNTMAX \<equiv> 9"
abbreviation (input) KCN_INFO_NLOCSTRLEN :: nat where "KCN_INFO_NLOCSTRLEN \<equiv> 21"

record google_env =
  ge_http :: http_env
  ge_json_loads :: "byte list \<Rightarrow> json option"
  ge_ku_new :: bool
  ge_ku_malloc :: char_allocator
  ge_ku_realloc :: reallocator
  ge_malloc :: allocator

definition kcn_google_match :: "string \<Rightarrow> errno \<Rightarrow> bool \<times> nat \<times> errno" where
  "kcn_google_match s errno = (True, 0, errno)"

definition jlockey :: "c_enum \<Rightarrow> string option" where
  "jlockey type =
     (if type = KCN_LOC_TYPE_DOMAINNAME then Some ''visibleUrl''
      else if type = KCN_LOC_TYPE_URI then Some ''url'' else None)"

fun google_results_loop :: "allocator \<Rightarrow> kcn_info \<Rightarrow> json list \<Rightarrow> (unit result \<times> kcn_info) option" where
  "google_results_loop malloc ki [] = Some (Inr (), ki)"
| "google_results_loop malloc ki (jval # jres) = do {
     key \<leftarrow> jlockey (kcn_info_loc_type ki);
     (case json_object_get jval key of
        Some (JString jlocstr) \<Rightarrow> do {
          (r, ki) \<leftarrow> kcn_info_loc_add malloc ki (map of_char jlocstr) (length jlocstr) 0;
          (case r of
             Inl e \<Rightarrow> Some (Inl e, ki)
           | Inr _ \<Rightarrow>
               if kcn_info_nlocs ki = kcn_info_maxnlocs ki then Some (Inr (), ki)
               else google_results_loop malloc ki jres)
        }
      | _ \<Rightarrow> Some (Inl EINVAL, ki))
   }"

definition google_page :: "google_env \<Rightarrow> json \<Rightarrow> kcn_info \<Rightarrow> (unit result \<times> kcn_info) option" where
  "google_page env jroot ki =
     (case json_object_get jroot ''responseStatus'' of
        Some (JInt status) \<Rightarrow>
          (if status \<noteq> KCN_HTTP_OK then Some (Inl (if status = KCN_HTTP_FORBIDDEN then EAGAIN else ENETDOWN), ki)
           else case json_object_get jroot ''responseData'' of
             None \<Rightarrow> Some (Inl EINVAL, ki)
           | Some jresdata \<Rightarrow>
               (case json_object_get jresdata ''results'' of
                  Some (JArray jres) \<Rightarrow> do {
                    (r, ki) \<leftarrow> google_results_loop (ge_malloc env) ki jres;
                    Some (case r of
                        Inl e \<Rightarrow> Inl e
                      | Inr _ \<Rightarrow> if kcn_info_nlocs ki = 0 then Inl ESRCH else Inr (), ki)
                  }
                | _ \<Rightarrow> Some (Inl EINVAL, ki)))
      | _ \<Rightarrow> Some (Inl EINVAL, ki))"

definition kcn_google_search_one ::
  "google_env \<Rightarrow> errno \<Rightarrow> kcn_uri \<Rightarrow> kcn_info \<Rightarrow> (bool \<times> errno \<times> kcn_info) option" where
  "kcn_google_search_one env errno ku ki = do {
     c_assert (kcn_info_nlocs ki < kcn_info_maxnlocs ki);
     uri \<leftarrow> c_str (kcn_uri_get ku);
     (errno, res) \<leftarrow> kcn_http_response_get (ge_http env) errno uri;
     (case res of
        None \<Rightarrow> Some (False, errno, ki)
      | Some res \<Rightarrow>
          (case ge_json_loads env res of
             None \<Rightarrow> Some (False, EINVAL, ki)
           | Some jroot \<Rightarrow> do {
               (r, ki) \<leftarrow> google_page env jroot ki;
               Some (case r of Inl e \<Rightarrow> (False, e, ki) | Inr _ \<Rightarrow> (True, errno, ki))
             }))
   }"

text \<open>The loop over the pages; the first page has no start parameter.\<close>

partial_function (option) google_pages_loop ::
  "google_env \<Rightarrow> errno \<Rightarrow> nat \<Rightarrow> nat \<Rightarrow> nat \<Rightarrow> errno \<Rightarrow> kcn_uri \<Rightarrow> kcn_info \<Rightarrow> (bool \<times> errno \<times> kcn_info) option" where
  "google_pages_loop env oerrno uriolen rcountmax n errno ku ki =
     (if \<not> n < kcn_info_maxnlocs ki then Some (True, errno, ki)
      else case (if n > 0
                 then kcn_uri_param_puts (ge_ku_realloc env) ku ''start'' (Some (take (KCN_INFO_NLOCSTRLEN - 1) (decimal n)))
                 else Some (True, ku)) of
        None \<Rightarrow> None
      | Some (put, ku) \<Rightarrow>
          (if \<not> put then Some (False, ENOMEM, ki)
           else case kcn_google_search_one env errno ku ki of
             None \<Rightarrow> None
           | Some (found, errno, ki) \<Rightarrow>
               (if \<not> found
                then if errno \<noteq> ESRCH \<or> kcn_info_nlocs ki = 0 then Some (False, errno, ki) else Some (True, oerrno, ki)
                else case kcn_uri_resize ku uriolen of
                  None \<Rightarrow> None
                | Some ku \<Rightarrow>
                    (if kcn_info_nlocs ki mod rcountmax \<noteq> 0 then Some (True, errno, ki)
                     else google_pages_loop env oerrno uriolen rcountmax (n + rcountmax) errno ku ki))))"

text \<open>Parameters are appended one after the other; a failure is one of memory.\<close>

fun google_params :: "reallocator \<Rightarrow> kcn_uri \<Rightarrow> (string \<times> string option) list \<Rightarrow> (bool \<times> kcn_uri) option" where
  "google_params realloc ku [] = Some (True, ku)"
| "google_params realloc ku ((param, val) # ps) = do {
     (put, ku) \<leftarrow> kcn_uri_param_puts realloc ku param val;
     (if \<not> put then Some (False, ku) else google_params realloc ku ps)
   }"

definition google_rcountmax :: "kcn_info \<Rightarrow> nat" where
  "google_rcountmax ki =
     (if kcn_info_maxnlocs ki < KCN_GOOGLE_API_RCOUNTMAX then kcn_info_maxnlocs ki else KCN_GOOGLE_API_RCOUNTMAX - 1)"

definition kcn_google_search :: "google_env \<Rightarrow> kd_search_fun" where
  "kcn_google_search env errno ki keys = do {
     c_assert (kcn_info_loc_type ki = KCN_LOC_TYPE_DOMAINNAME \<or> kcn_info_loc_type ki = KCN_LOC_TYPE_URI);
     c_assert (kcn_info_maxnlocs ki > 0);
     ku \<leftarrow> kcn_uri_new (ge_ku_new env) (ge_ku_malloc env) KCN_GOOGLE_URI_BASE;
     (case ku of
        None \<Rightarrow> Some (False, ENOMEM, ki)
      | Some ku \<Rightarrow> do {
          rcountmax \<leftarrow> Some (google_rcountmax ki);
          (put, ku) \<leftarrow> google_params (ge_ku_realloc env) ku
            [(''rsz'', Some [char_of (48 + rcountmax)]), (''gl'', kcn_info_country ki),
             (''userip'', kcn_info_userip ki), (''q'', Some keys)];
          (if \<not> put then Some (False, ENOMEM, ki)
           else google_pages_loop env errno (kcn_uri_len ku) rcountmax 0 errno ku ki)
        })
   }"

definition kcn_google :: "nat \<Rightarrow> kd_search_fun \<Rightarrow> kcn_db" where
  "kcn_google chain search =
     \<lparr>kd_chain = chain, kd_prio = 0, kd_name = ''google'', kd_desc = ''Google Web search'',
      kd_match = kcn_google_match, kd_search = search\<rparr>"

definition kcn_google_init :: "nat \<Rightarrow> kd_search_fun \<Rightarrow> kcn_db list \<Rightarrow> kcn_db list option" where
  "kcn_google_init chain search kds = kcn_db_register (kcn_google chain search) kds"

definition kcn_google_finish :: "nat \<Rightarrow> kd_search_fun \<Rightarrow> kcn_db list \<Rightarrow> kcn_db list option" where
  "kcn_google_finish chain search kds = kcn_db_deregister (kcn_google chain search) kds"

section \<open>The requests\<close>

definition google_base :: "kcn_info \<Rightarrow> string \<Rightarrow> string" where
  "google_base ki keys = KCN_GOOGLE_URI_BASE @ uri_param ''rsz'' (Some [char_of (48 + google_rcountmax ki)]) @
     uri_param ''gl'' (kcn_info_country ki) @ uri_param ''userip'' (kcn_info_userip ki) @ uri_param ''q'' (Some keys)"

definition google_start :: "nat \<Rightarrow> string" where
  "google_start n = (if n > 0 then uri_param ''start'' (Some (take (KCN_INFO_NLOCSTRLEN - 1) (decimal n))) else [])"

lemma uri_puts_total:
  assumes "\<forall>mem n. realloc mem n \<noteq> None"
  shows "kcn_uri_puts realloc ku s = Some (ok, ku') \<Longrightarrow> ok" "kcn_uri_encputs realloc ku s = Some (ok, ku') \<Longrightarrow> ok"
  using assms
  by (auto simp: kcn_uri_puts_def kcn_uri_encputs_def kcn_uri_ensure_trailing_space_def Let_def
      bind_eq_Some_conv split: option.splits if_splits) (metis option.distinct(1))+

lemma uri_param_puts_total:
  assumes "\<forall>mem n. realloc mem n \<noteq> None" "kcn_uri_param_puts realloc ku param val = Some (ok, ku')"
  shows ok
  using assms(2) uri_puts_total [OF assms(1)]
  by (cases val) (auto simp: kcn_uri_param_puts_def bind_eq_Some_conv split: if_splits)

lemma uri_param_puts_done:
  assumes "realloc_ok realloc" "\<forall>mem n. realloc mem n \<noteq> None" "uri_holds ku u" "NUL \<notin> set param"
  obtains ku' where "kcn_uri_param_puts realloc ku param val = Some (True, ku')" "uri_holds ku' (u @ uri_param param val)"
proof -
  from uri_param_puts_ok [OF assms(1,3,4), of val] obtain ok ku' w where
    p: "kcn_uri_param_puts realloc ku param val = Some (ok, ku')" "uri_holds ku' (u @ w)" "ok \<longrightarrow> w = uri_param param val"
    by (auto simp: uri_extended_def)
  with uri_param_puts_total [OF assms(2) p(1)] that show thesis by simp
qed

lemma google_params_done:
  assumes "realloc_ok realloc" "\<forall>mem n. realloc mem n \<noteq> None" "uri_holds ku u" "\<forall>(p, v) \<in> set ps. NUL \<notin> set p"
  shows "\<exists>ku'. google_params realloc ku ps = Some (True, ku') \<and> uri_holds ku' (u @ concat (map (\<lambda>(p, v). uri_param p v) ps))"
  using assms(3,4)
proof (induction ps arbitrary: ku u)
  case (Cons pv ps)
  obtain p v where pv: "pv = (p, v)" by (cases pv)
  from Cons.prems pv have "uri_holds ku u" "NUL \<notin> set p" by simp_all
  from uri_param_puts_done [OF assms(1,2) this, of v] obtain ku1 where
    "kcn_uri_param_puts realloc ku p v = Some (True, ku1)" "uri_holds ku1 (u @ uri_param p v)" .
  with Cons.IH [of ku1 "u @ uri_param p v"] Cons.prems pv show ?case by auto
qed simp

section \<open>The pages\<close>

definition loc_bytes :: "string \<Rightarrow> byte list" where
  "loc_bytes s = map of_char s"

definition push_all :: "string list \<Rightarrow> kcn_info \<Rightarrow> kcn_info" where
  "push_all locs ki = fold info_push (map (\<lambda>s. (0, loc_bytes s)) locs) ki"

lemma push_all_simps [simp]:
  "push_all [] ki = ki"
  "push_all (s # locs) ki = push_all locs (info_push (0, loc_bytes s) ki)"
  "push_all locs' (push_all locs ki) = push_all (locs @ locs') ki"
  "kcn_info_maxnlocs (push_all locs ki) = kcn_info_maxnlocs ki"
  "kcn_info_nlocs (push_all locs ki) = kcn_info_nlocs ki + length locs"
  "info_locs (push_all locs ki) = info_locs ki @ map loc_bytes locs"
  "kcn_info_loc_type (push_all locs ki) = kcn_info_loc_type ki"
proof -
  show "kcn_info_loc_type (push_all locs ki) = kcn_info_loc_type ki"
    by (induction locs arbitrary: ki) (simp_all add: push_all_def info_push_def kcn_info_loc_type_def)
qed (simp_all add: push_all_def o_def)

text \<open>What a server has to send for a page with these locators.\<close>

definition page_json :: "string \<Rightarrow> json \<Rightarrow> string list \<Rightarrow> bool" where
  "page_json key jroot locs \<longleftrightarrow> json_object_get jroot ''responseStatus'' = Some (JInt KCN_HTTP_OK) \<and>
     (\<exists>jdata jres. json_object_get jroot ''responseData'' = Some jdata \<and> json_object_get jdata ''results'' = Some (JArray jres) \<and>
        list_all2 (\<lambda>j s. json_object_get j key = Some (JString s)) jres locs)"

definition page_served :: "google_env \<Rightarrow> string \<Rightarrow> string \<Rightarrow> string list \<Rightarrow> bool" where
  "page_served env key uri locs \<longleftrightarrow> (\<forall>errno. \<exists>errno' res jroot.
     kcn_http_response_get (ge_http env) errno uri = Some (errno', Some res) \<and>
     ge_json_loads env res = Some jroot \<and> page_json key jroot locs)"

lemma results_loop_ok:
  assumes "list_all2 (\<lambda>j s. json_object_get j key = Some (JString s)) jres locs" "jlockey (kcn_info_loc_type ki) = Some key"
    "alloc_ok malloc" "\<forall>n. malloc n \<noteq> None" "info_room ki 1"
  shows "google_results_loop malloc ki jres =
    Some (Inr (), push_all (take (kcn_info_maxnlocs ki - kcn_info_nlocs ki) locs) ki)"
  using assms
proof (induction jres locs arbitrary: ki rule: list_all2_induct)
  case (Cons j jres s locs)
  let ?ki = "info_push (0, loc_bytes s) ki"
  have "kcn_info_loc_add malloc ki (map of_char s) (length s) 0 = Some (Inr (), ?ki)"
    using Cons.prems str_dup_ok [OF Cons.prems(2), of "length s" "map of_char s"] info_room_block [of ki 0]
    by (simp add: kcn_info_loc_add_def kcn_info_maxnlocs_def info_push_def loc_bytes_def)
  moreover have t: "kcn_info_loc_type ?ki = kcn_info_loc_type ki"
    by (simp add: kcn_info_loc_type_def info_push_def)
  moreover obtain m where m: "kcn_info_maxnlocs ki - kcn_info_nlocs ki = Suc m"
    using Cons.prems(4) Suc_diff_Suc [of "kcn_info_nlocs ki" "kcn_info_maxnlocs ki"] by (metis One_nat_def Suc_le_eq add_Suc_right add.right_neutral)
  moreover have "google_results_loop malloc ?ki jres = Some (Inr (), push_all (take m locs) ?ki)"
    if "Suc (kcn_info_nlocs ki) \<noteq> kcn_info_maxnlocs ki"
  proof -
    from that m have "kcn_info_maxnlocs ?ki - kcn_info_nlocs ?ki = m" "info_room ?ki 1"
      using Cons.prems(4) by simp_all
    with Cons.IH [of ?ki] Cons.prems t show ?thesis by simp
  qed
  moreover have "m = 0" if "Suc (kcn_info_nlocs ki) = kcn_info_maxnlocs ki" using that m by simp
  ultimately show ?case
    using Cons.hyps(1) Cons.prems(1) by (cases "Suc (kcn_info_nlocs ki) = kcn_info_maxnlocs ki") simp_all
qed simp

lemma search_one_ok:
  assumes "page_served env key uri locs" "jlockey (kcn_info_loc_type ki) = Some key" "uri_holds ku uri"
    "alloc_ok (ge_malloc env)" "\<forall>n. ge_malloc env n \<noteq> None" "info_room ki 1"
  defines "ki' \<equiv> push_all (take (kcn_info_maxnlocs ki - kcn_info_nlocs ki) locs) ki"
  shows "\<exists>errno'. kcn_google_search_one env errno ku ki =
    Some (if kcn_info_nlocs ki' = 0 then (False, ESRCH, ki') else (True, errno', ki'))"
proof -
  from assms(1) obtain errno' res jroot where
    p: "kcn_http_response_get (ge_http env) errno uri = Some (errno', Some res)" "ge_json_loads env res = Some jroot"
      "page_json key jroot locs" unfolding page_served_def by blast
  from p(3) obtain jdata jres where j: "json_object_get jroot ''responseStatus'' = Some (JInt 200)"
    "json_object_get jroot ''responseData'' = Some jdata" "json_object_get jdata ''results'' = Some (JArray jres)"
    "list_all2 (\<lambda>j s. json_object_get j key = Some (JString s)) jres locs" unfolding page_json_def by blast
  from results_loop_ok [OF j(4) assms(2,4-6)] have
    "google_results_loop (ge_malloc env) ki jres = Some (Inr (), ki')" by (simp add: ki'_def)
  with j have "google_page env jroot ki = Some (if kcn_info_nlocs ki' = 0 then Inl ESRCH else Inr (), ki')"
    by (simp add: google_page_def)
  with p(1,2) uri_holds_str [OF assms(3)] assms(6) show ?thesis
    by (simp add: kcn_google_search_one_def)
qed

text \<open>What the search is to find: the pages, until one is not full or there are enough locators.\<close>

function google_collect :: "(nat \<Rightarrow> string list) \<Rightarrow> nat \<Rightarrow> nat \<Rightarrow> nat \<Rightarrow> string list \<Rightarrow> string list result" where
  "google_collect pages limit rcount n acc =
     (if rcount = 0 \<or> \<not> n < limit then Inr acc
      else let acc = acc @ take (limit - length acc) (pages n) in
        if acc = [] then Inl ESRCH
        else if length acc mod rcount \<noteq> 0 then Inr acc
        else google_collect pages limit rcount (n + rcount) acc)"
  by pat_completeness auto
termination by (relation "measure (\<lambda>(pages, limit, rcount, n, acc). limit - n)") auto

declare google_collect.simps [simp del]

lemma pages_loop_ok:
  assumes env: "realloc_ok (ge_ku_realloc env)" "\<forall>mem n. ge_ku_realloc env mem n \<noteq> None"
      "alloc_ok (ge_malloc env)" "\<forall>n. ge_malloc env n \<noteq> None"
    and key: "jlockey (kcn_info_loc_type ki) = Some key" and nlocs: "info_room ki 0" "kcn_info_nlocs ki = 0" and rc: "0 < rcount"
    and pages: "\<forall>n < kcn_info_maxnlocs ki. length (pages n) \<le> rcount \<and> page_served env key (base @ google_start n) (pages n)"
    and ku: "uri_holds ku base" and acc: "length acc \<le> n"
  shows "\<exists>e ki'. google_pages_loop env oerrno (length base) rcount n errno ku (push_all acc ki) =
    (case google_collect pages (kcn_info_maxnlocs ki) rcount n acc of
       Inl e \<Rightarrow> Some (False, e, ki') | Inr locs \<Rightarrow> Some (True, e, push_all locs ki))"
  using ku acc
proof (induction "kcn_info_maxnlocs ki - n" arbitrary: n acc ku errno rule: less_induct)
  case less
  let ?max = "kcn_info_maxnlocs ki" and ?ki = "push_all acc ki"
  show ?case
  proof (cases "n < ?max")
    case False
    then show ?thesis by (subst google_pages_loop.simps) (simp add: google_collect.simps [of pages _ _ n acc])
  next
    case True
    have "\<exists>ku1. (if n > 0 then kcn_uri_param_puts (ge_ku_realloc env) ku ''start'' (Some (take (KCN_INFO_NLOCSTRLEN - 1) (decimal n)))
        else Some (True, ku)) = Some (True, ku1) \<and> uri_holds ku1 (base @ google_start n)"
    proof (cases "n > 0")
      case True
      from uri_param_puts_done [OF env(1,2) less.prems(1), of "''start''" "Some (take (KCN_INFO_NLOCSTRLEN - 1) (decimal n))"]
      show ?thesis using True by (auto simp: google_start_def)
    qed (use less.prems(1) in \<open>simp add: google_start_def\<close>)
    then obtain ku1 where ku1: "(if n > 0 then kcn_uri_param_puts (ge_ku_realloc env) ku ''start'' (Some (take (KCN_INFO_NLOCSTRLEN - 1) (decimal n)))
        else Some (True, ku)) = Some (True, ku1)" "uri_holds ku1 (base @ google_start n)" by blast
    define locs where "locs = acc @ take (?max - length acc) (pages n)"
    have lt: "info_room ?ki 1" using True less.prems(2) nlocs by simp
    have key': "jlockey (kcn_info_loc_type ?ki) = Some key" using key by simp
    have "page_served env key (base @ google_start n) (pages n)" using pages True by blast
    note one = search_one_ok [OF this key' ku1(2) env(3,4) lt, of errno]
    have "push_all (take (kcn_info_maxnlocs ?ki - kcn_info_nlocs ?ki) (pages n)) ?ki = push_all locs ki"
      by (simp add: locs_def nlocs)
    moreover have "kcn_info_nlocs (push_all locs ki) = 0 \<longleftrightarrow> locs = []" by (simp add: nlocs)
    ultimately obtain errno' where one: "kcn_google_search_one env errno ku1 ?ki =
        Some (if locs = [] then (False, ESRCH, push_all locs ki) else (True, errno', push_all locs ki))"
      using one by (auto simp only:)
    from uri_resize_ok [OF ku1(2)] obtain ku2 where ku2: "kcn_uri_resize ku1 (length base) = Some ku2" "uri_holds ku2 base" by blast
    have loop: "google_pages_loop env oerrno (length base) rcount n errno ku ?ki =
        (if locs = [] then Some (False, ESRCH, push_all locs ki)
         else if length locs mod rcount \<noteq> 0 then Some (True, errno', push_all locs ki)
         else google_pages_loop env oerrno (length base) rcount (n + rcount) errno' ku2 (push_all locs ki))"
      using True ku1(1) one ku2(1) nlocs by (subst google_pages_loop.simps) simp
    have coll: "google_collect pages ?max rcount n acc =
        (if locs = [] then Inl ESRCH else if length locs mod rcount \<noteq> 0 then Inr locs
         else google_collect pages ?max rcount (n + rcount) locs)"
      using True rc by (subst google_collect.simps) (simp add: Let_def del: append_is_Nil_conv length_append flip: locs_def)
    have "length locs \<le> length acc + length (pages n)" by (simp add: locs_def)
    also have "\<dots> \<le> n + rcount" using pages True less.prems(2) by (simp add: add_mono)
    finally have "length locs \<le> n + rcount" .
    with less.hyps [of "n + rcount" ku2 locs errno'] True rc ku2(2) loop coll show ?thesis by auto
  qed
qed

lemma collect_bound: "length acc \<le> limit \<Longrightarrow> google_collect pages limit rcount n acc = Inr locs \<Longrightarrow> length locs \<le> limit"
proof (induction pages limit rcount n acc rule: google_collect.induct)
  case (1 pages limit rcount n acc)
  define locs' where "locs' = acc @ take (limit - length acc) (pages n)"
  have "length locs' \<le> limit" using "1.prems"(1) by (simp add: locs'_def)
  moreover have "google_collect pages limit rcount n acc =
      (if rcount = 0 \<or> \<not> n < limit then Inr acc
       else if locs' = [] then Inl ESRCH else if length locs' mod rcount \<noteq> 0 then Inr locs'
       else google_collect pages limit rcount (n + rcount) locs')"
    by (subst google_collect.simps) (simp add: Let_def del: append_is_Nil_conv length_append flip: locs'_def)
  ultimately show ?case
    using "1.prems" "1.IH" [OF _ locs'_def] by (auto split: if_splits)
qed

text \<open>The allocations of a search all succeed.\<close>

definition google_memory :: "google_env \<Rightarrow> bool" where
  "google_memory env \<longleftrightarrow> ge_ku_new env \<and> char_alloc_ok (ge_ku_malloc env) \<and> (\<forall>n. ge_ku_malloc env n \<noteq> None) \<and>
     realloc_ok (ge_ku_realloc env) \<and> (\<forall>mem n. ge_ku_realloc env mem n \<noteq> None) \<and>
     alloc_ok (ge_malloc env) \<and> (\<forall>n. ge_malloc env n \<noteq> None)"

lemma google_search_starts:
  assumes "google_memory env" "kcn_info_loc_type ki = KCN_LOC_TYPE_DOMAINNAME \<or> kcn_info_loc_type ki = KCN_LOC_TYPE_URI"
    "0 < kcn_info_maxnlocs ki"
  obtains ku where "uri_holds ku (google_base ki keys)" "kcn_google_search env errno ki keys =
    google_pages_loop env errno (length (google_base ki keys)) (google_rcountmax ki) 0 errno ku ki"
proof -
  let ?rc = "google_rcountmax ki" and ?base = "google_base ki keys"
  from assms(1) have m: "ge_ku_new env" "char_alloc_ok (ge_ku_malloc env)" "\<forall>n. ge_ku_malloc env n \<noteq> None"
    "realloc_ok (ge_ku_realloc env)" "\<forall>mem n. ge_ku_realloc env mem n \<noteq> None" by (simp_all add: google_memory_def)
  have "NUL \<notin> set KCN_GOOGLE_URI_BASE" by (simp add: KCN_GOOGLE_URI_BASE_def)
  from uri_new_ok [OF m(2) this, of "ge_ku_new env"] m(1,3) obtain ku where
    ku: "kcn_uri_new (ge_ku_new env) (ge_ku_malloc env) KCN_GOOGLE_URI_BASE = Some (Some ku)" "uri_holds ku KCN_GOOGLE_URI_BASE"
    by auto
  let ?ps = "[(''rsz'', Some [char_of (48 + ?rc)]), (''gl'', kcn_info_country ki), (''userip'', kcn_info_userip ki), (''q'', Some keys)]"
  from google_params_done [OF m(4,5) ku(2), of ?ps] obtain ku1 where
    ku1: "google_params (ge_ku_realloc env) ku ?ps = Some (True, ku1)" "uri_holds ku1 ?base"
    by (auto simp: google_base_def)
  have len: "kcn_uri_len ku1 = length ?base" using uri_holds_str [OF ku1(2)] by simp
  have "kcn_google_search env errno ki keys = google_pages_loop env errno (length ?base) ?rc 0 errno ku1 ki"
    using ku(1) ku1(1) assms(2,3) len by (simp add: kcn_google_search_def del: google_params.simps)
  with ku1(2) show thesis by (rule that)
qed

section \<open>Properties\<close>

text \<open>
  C29. When the web search honours the number of results it is asked for, a search of it returns,
  requests the pages one after the other with the URI of each, fails no assertion, and stores the
  locators of the pages up to the first that is not full, at most as many as are wanted; if the
  first page is empty, it fails with \<open>ESRCH\<close>.
\<close>

theorem google_search_collects:
  assumes "google_memory env" "jlockey (kcn_info_loc_type ki) = Some key" "info_ok ki" "kcn_info_nlocs ki = 0"
    and "\<forall>n < kcn_info_maxnlocs ki. length (pages n) \<le> google_rcountmax ki \<and>
      page_served env key (google_base ki keys @ google_start n) (pages n)"
  shows "\<exists>found e ki'. kcn_google_search env errno ki keys = Some (found, e, ki') \<and>
    (case google_collect pages (kcn_info_maxnlocs ki) (google_rcountmax ki) 0 [] of
       Inl e' \<Rightarrow> \<not> found \<and> e = e'
     | Inr locs \<Rightarrow> found \<and> info_locs ki' = map loc_bytes locs \<and> length locs \<le> kcn_info_maxnlocs ki)"
proof -
  let ?rc = "google_rcountmax ki" and ?base = "google_base ki keys"
  from assms(1) have m: "realloc_ok (ge_ku_realloc env)" "\<forall>mem n. ge_ku_realloc env mem n \<noteq> None"
    "alloc_ok (ge_malloc env)" "\<forall>n. ge_malloc env n \<noteq> None" by (simp_all add: google_memory_def)
  have max: "0 < kcn_info_maxnlocs ki" using assms(3) by (simp add: info_ok_def kcn_info_maxnlocs_def)
  then have rc: "0 < ?rc" by (simp add: google_rcountmax_def)
  have "kcn_info_loc_type ki = KCN_LOC_TYPE_DOMAINNAME \<or> kcn_info_loc_type ki = KCN_LOC_TYPE_URI"
    using assms(2) by (auto simp: jlockey_def split: if_splits)
  from google_search_starts [OF assms(1) this max, of keys errno] obtain ku where
    ku: "uri_holds ku ?base" and s: "kcn_google_search env errno ki keys = google_pages_loop env errno (length ?base) ?rc 0 errno ku ki" .
  have room: "info_room ki 0" using assms(3) by (simp add: info_ok_def kcn_info_maxnlocs_def)
  from pages_loop_ok [OF m assms(2) room assms(4) rc assms(5) ku, of "[]" 0 errno errno] obtain e ki' where
    "google_pages_loop env errno (length ?base) ?rc 0 errno ku ki =
      (case google_collect pages (kcn_info_maxnlocs ki) ?rc 0 [] of
         Inl e \<Rightarrow> Some (False, e, ki') | Inr locs \<Rightarrow> Some (True, e, push_all locs ki))" by auto
  moreover have "info_locs ki = []" using assms(4) by (simp add: kcn_info_nlocs_def info_locs_def)
  ultimately show ?thesis
    using s collect_bound [of "[]" "kcn_info_maxnlocs ki" pages ?rc 0]
    by (cases "google_collect pages (kcn_info_maxnlocs ki) ?rc 0 []") auto
qed

text \<open>A web search with one result, for concrete executions.\<close>

definition one_result :: json where
  "one_result = JObject [(''responseStatus'', JInt 200), (''responseData'',
     JObject [(''results'', JArray [JObject [(''url'', JString ''u''), (''visibleUrl'', JString ''a'')]])])]"

definition google_sample :: google_env where
  "google_sample =
     \<lparr>ge_http = \<lparr>he_khb_new = True,
         he_realloc = \<lambda>mem n. Some (take n ((case mem of None \<Rightarrow> [] | Some m \<Rightarrow> m) @ replicate n 0)), he_curl_init = True,
         he_perform = \<lambda>write uri khb. do { (n, khb) \<leftarrow> write [123] 1 1 khb; Some (CURLE_OK, khb) }\<rparr>,
      ge_json_loads = \<lambda>res. if res = [123, 0] then Some one_result else None,
      ge_ku_new = True, ge_ku_malloc = nul_malloc, ge_ku_realloc = nul_realloc, ge_malloc = zero_malloc\<rparr>"

lemma google_sample_served: "page_served google_sample ''visibleUrl'' uri [''a'']"
proof -
  have "kcn_http_response_get (ge_http google_sample) errno uri = Some (errno, Some [123, 0])" for errno
    by (simp add: kcn_http_response_get_def google_sample_def kcn_httpbuf_new_def kcn_http_curl_callback_def
        kcn_httpbuf_append_def kcn_httpbuf_get_def list_write_def)
  moreover have "page_json ''visibleUrl'' one_result [''a'']" by (simp add: page_json_def one_result_def)
  ultimately show ?thesis by (auto simp: page_served_def google_sample_def)
qed

lemma google_sample_memory: "google_memory google_sample"
  by (simp add: google_memory_def google_sample_def alloc_ok_def zero_malloc_def) (simp add: nul_malloc_def nul_realloc_def)

theorem google_search_collects_witness:
  "\<exists>e ki'. kcn_google_search google_sample 0 (client_ki\<lparr>ki_maxnlocs := 1\<rparr>) ''rfc'' = Some (True, e, ki') \<and> info_locs ki' = [[97]]"
proof -
  let ?ki = "client_ki\<lparr>ki_maxnlocs := 1\<rparr>"
  have k: "jlockey (kcn_info_loc_type ?ki) = Some ''visibleUrl''" "info_ok ?ki" "kcn_info_nlocs ?ki = 0" "kcn_info_maxnlocs ?ki = 1"
    by (simp_all add: jlockey_def kcn_info_loc_type_def client_ki_def info_ok_def kcn_info_nlocs_def kcn_info_maxnlocs_def)
  then have rc: "google_rcountmax ?ki = 1" by (simp add: google_rcountmax_def)
  have "google_collect (\<lambda>n. [''a'']) 1 1 0 [] = Inr [''a'']"
    by (simp add: google_collect.simps)
  moreover have "\<forall>n < kcn_info_maxnlocs ?ki. length [''a''] \<le> google_rcountmax ?ki \<and>
      page_served google_sample ''visibleUrl'' (google_base ?ki ''rfc'' @ google_start n) [''a'']"
    unfolding rc using google_sample_served by simp
  note google_search_collects [OF google_sample_memory k(1-3) this, of 0]
  ultimately show ?thesis unfolding k(4) rc by (auto simp: loc_bytes_def)
qed

text \<open>
  C34. The client trusts the web search with the size of a page.  Let the first page have as many results as are wanted in all.
  When more than one page was to be asked for and the number wanted is a multiple of the number per page, the assertion at the
  beginning of the next page fails and the program aborts; in all other cases the first of the results are the answer.
\<close>

theorem google_oversized_page_faults:
  assumes "google_memory env" "jlockey (kcn_info_loc_type ki) = Some key" "info_ok ki" "kcn_info_nlocs ki = 0"
    and "page_served env key (google_base ki keys) locs" "kcn_info_maxnlocs ki \<le> length locs"
  shows "if google_rcountmax ki < kcn_info_maxnlocs ki \<and> google_rcountmax ki dvd kcn_info_maxnlocs ki
    then kcn_google_search env errno ki keys = None
    else \<exists>e. kcn_google_search env errno ki keys = Some (True, e, push_all (take (kcn_info_maxnlocs ki) locs) ki)"
proof -
  let ?rc = "google_rcountmax ki" and ?base = "google_base ki keys" and ?max = "kcn_info_maxnlocs ki"
  define ki1 where "ki1 = push_all (take (?max - kcn_info_nlocs ki) locs) ki"
  from assms(1) have m: "realloc_ok (ge_ku_realloc env)" "\<forall>mem n. ge_ku_realloc env mem n \<noteq> None"
    "alloc_ok (ge_malloc env)" "\<forall>n. ge_malloc env n \<noteq> None" by (simp_all add: google_memory_def)
  have room: "info_room ki 1" "0 < ?max" using assms(3,4) by (auto simp: info_ok_def kcn_info_maxnlocs_def)
  then have rc: "0 < ?rc" "?rc \<le> ?max" by (simp_all add: google_rcountmax_def)
  have "kcn_info_loc_type ki = KCN_LOC_TYPE_DOMAINNAME \<or> kcn_info_loc_type ki = KCN_LOC_TYPE_URI"
    using assms(2) by (auto simp: jlockey_def split: if_splits)
  from google_search_starts [OF assms(1) this room(2), of keys errno] obtain ku where
    ku: "uri_holds ku ?base" and s: "kcn_google_search env errno ki keys = google_pages_loop env errno (length ?base) ?rc 0 errno ku ki" .
  have n1: "kcn_info_nlocs ki1 = ?max" "kcn_info_maxnlocs ki1 = ?max" using assms(4,6) by (simp_all add: ki1_def)
  from search_one_ok [OF assms(5,2) ku m(3,4) room(1), of errno] obtain errno' where
    one: "kcn_google_search_one env errno ku ki = Some (True, errno', ki1)" using n1(1) room(2) assms(4) unfolding ki1_def by auto
  from uri_resize_ok [of ku ?base "[]"] ku obtain ku1 where
    ku1: "kcn_uri_resize ku (length ?base) = Some ku1" "uri_holds ku1 ?base" by auto
  obtain ku2 where ku2: "kcn_uri_param_puts (ge_ku_realloc env) ku1 ''start''
      (Some (take (KCN_INFO_NLOCSTRLEN - 1) (decimal ?rc))) = Some (True, ku2)"
    using uri_param_puts_done [OF m(1,2) ku1(2), of "''start''"] by auto
  have first: "google_pages_loop env errno (length ?base) ?rc 0 errno ku ki =
      (if ?max mod ?rc \<noteq> 0 then Some (True, errno', ki1)
       else google_pages_loop env errno (length ?base) ?rc ?rc errno' ku1 ki1)"
    using room(2) one ku1(1) n1 by (subst google_pages_loop.simps) simp
  have second: "google_pages_loop env errno (length ?base) ?rc ?rc errno' ku1 ki1 =
      (if ?rc < ?max then None else Some (True, errno', ki1))"
    using rc(1) n1 ku2 by (subst google_pages_loop.simps) (simp add: kcn_google_search_one_def)
  show ?thesis using s assms(4) unfolding first second by (auto simp: ki1_def dvd_eq_mod_eq_0)
qed

theorem google_oversized_page_faults_witness:
  "kcn_google_search (google_sample\<lparr>ge_json_loads := \<lambda>res. Some (JObject [(''responseStatus'', JInt 200), (''responseData'',
       JObject [(''results'', JArray (replicate 16 (JObject [(''visibleUrl'', JString ''a'')])))])])\<rparr>)
     0 (client_ki\<lparr>ki_maxnlocs := 16\<rparr>) ''rfc'' = None" (is "kcn_google_search ?env 0 ?ki _ = None")
proof -
  have k: "jlockey (kcn_info_loc_type ?ki) = Some ''visibleUrl''" "info_ok ?ki" "kcn_info_nlocs ?ki = 0" "kcn_info_maxnlocs ?ki = 16"
    by (simp_all add: jlockey_def kcn_info_loc_type_def client_ki_def kcn_info_nlocs_def kcn_info_maxnlocs_def info_ok_def)
  then have rc: "google_rcountmax ?ki = 8" by (simp add: google_rcountmax_def)
  have m: "google_memory ?env" using google_sample_memory by (simp add: google_memory_def)
  let ?root = "JObject [(''responseStatus'', JInt 200), (''responseData'',
       JObject [(''results'', JArray (replicate 16 (JObject [(''visibleUrl'', JString ''a'')])))])]"
  have "page_json ''visibleUrl'' ?root (replicate 16 ''a'')" by (simp add: page_json_def list_all2_conv_all_nth)
  moreover have "ge_json_loads ?env res = Some ?root" for res by simp
  moreover have "ge_http ?env = ge_http google_sample" by simp
  ultimately have "page_served ?env ''visibleUrl'' uri (replicate 16 ''a'')" for uri
    using google_sample_served [of uri] unfolding page_served_def by metis
  from google_oversized_page_faults [OF m k(1-3) this, where errno = 0 and keys = "''rfc''"] show ?thesis by (simp add: k(4) rc)
qed

lemma searchv_joins:
  assumes "char_alloc_ok malloc" "malloc (length (join_keys keyv) + 1) \<noteq> None" "keyv \<noteq> []" "\<forall>k \<in> set keyv. NUL \<notin> set k"
  shows "kcn_searchv malloc kds errno ki keyv = kcn_db_search kds errno ki (join_keys keyv)"
proof -
  have "NUL \<notin> set (join_keys keyv)" using assms(4) by (induction keyv rule: join_keys.induct) auto
  then have "c_str (join_keys keyv @ [NUL]) = Some (join_keys keyv)" by (rule c_str_block)
  then show ?thesis using key_concat_ok [OF assms(1,3,4)] assms(2) by (auto simp: kcn_searchv_def kcn_search_def)
qed

lemma db_search_unnamed:
  assumes "kcn_info_db ki = None"
  shows "kcn_db_search [kcn_netstat chain net, kcn_google chain' web] errno ki keys =
    (if \<exists>w \<in> set netstat_words. strcasestr_found keys w then net 0 ki keys else web 0 ki keys)"
proof -
  have "filter (strcasestr_found keys) netstat_words = [] \<longleftrightarrow> \<not> (\<exists>w \<in> set netstat_words. strcasestr_found keys w)"
    by (auto simp: filter_empty_conv)
  then have "kcn_db_match [kcn_netstat chain net, kcn_google chain' web] keys errno =
      (0, Some (if \<exists>w \<in> set netstat_words. strcasestr_found keys w then kcn_netstat chain net else kcn_google chain' web))"
    by (simp add: kcn_db_match_def kcn_netstat_def kcn_google_def kcn_netstat_match_def kcn_google_match_def Let_def)
  then show ?thesis using assms by (simp add: kcn_db_search_def kcn_netstat_def kcn_google_def)
qed

text \<open>
  The search of \<^verbatim>\<open>key2loc\<close>, with the two databases registered and none named, joins the keys and
  gives them to the daemon's database if one of its words occurs in them, in any case of letters,
  and to the web search otherwise.
\<close>

lemma keys_choose_database:
  assumes "char_alloc_ok malloc" "malloc (length (join_keys keyv) + 1) \<noteq> None" "keyv \<noteq> []" "\<forall>k \<in> set keyv. NUL \<notin> set k"
    and "kcn_info_db ki = None" "chain \<noteq> chain'"
  shows "\<exists>kds kds'. kcn_netstat_init chain netstat [] = Some kds \<and> kcn_google_init chain' google kds = Some kds' \<and>
    kcn_searchv malloc kds' errno ki keyv =
      (if \<exists>w \<in> set netstat_words. strcasestr_found (join_keys keyv) w
       then netstat 0 ki (join_keys keyv) else google 0 ki (join_keys keyv))"
proof -
  have db: "kcn_netstat_init chain netstat [] = Some [kcn_netstat chain netstat]"
    "kcn_google_init chain' google [kcn_netstat chain netstat] = Some [kcn_netstat chain netstat, kcn_google chain' google]"
    using assms(6) by (simp_all add: kcn_netstat_init_def kcn_google_init_def) (simp add: kcn_netstat_def kcn_google_def)
  show ?thesis
    using searchv_joins [OF assms(1-4)] db_search_unnamed [OF assms(5)]
    by (intro exI [of _ "[kcn_netstat chain netstat]"] exI [of _ "[kcn_netstat chain netstat, kcn_google chain' google]"] conjI db) simp
qed

end
