(* ===== verification/Kcndbctl.thy ===== *)
theory Kcndbctl
  imports Kcn_Client_Spec Kcndb_File
begin

text \<open>
  \<^verbatim>\<open>kcndbctl/kcndbctl_file.c\<close> and \<^verbatim>\<open>kcndbctl/kcndbctl_msg.c\<close>: records from a text file, one per line
  (time, value, locator), or one from the command line, are sent to the daemon.

  The program ends with \<open>err\<close> when something is wrong: a result \<^term>\<open>Inl msg\<close> is such an end with
  that message.  The fields of \<open>struct kcn_file\<close> have the prefix \<open>kcf_\<close> here, because \<open>kf_\<close> is also the
  one of the daemon's files.
\<close>

section \<open>Fields\<close>

definition bufalloc :: "allocator \<Rightarrow> nat \<Rightarrow> kcn_buf option option" where
  "bufalloc malloc filesize =
     (let bufsize = (if filesize < 2 ^ 20 then filesize else 2 ^ 20) in
      case kcn_buf_data_new malloc bufsize of
        None \<Rightarrow> Some None
      | Some kbd \<Rightarrow> do {
          kb \<leftarrow> kcn_buf_init (Some kbd);
          Some (Some kb)
        })"

definition byte_char :: "byte \<Rightarrow> char" where
  "byte_char b = char_of (unat b)"

partial_function (option) forward :: "kcn_buf \<Rightarrow> (unit result \<times> kcn_buf) option" where
  "forward kb =
     (case kcn_buf_trailingdata kb of
        None \<Rightarrow> None
      | Some t \<Rightarrow>
          (if t = 0 then Some (Inl EAGAIN, kb)
           else case kcn_buf_get8 kb of
             None \<Rightarrow> None
           | Some (c, kb) \<Rightarrow>
               (if c_isspace (byte_char c) then Some (Inr (), kb)
                else if \<not> c_isprint (byte_char c) then Some (Inl EINVAL, kb)
                else forward kb)))"

text \<open>The pointer that \<open>getstr\<close> stores is modelled by the bytes it points to.\<close>

definition getstr :: "kcn_buf \<Rightarrow> ((byte list \<times> nat) result \<times> kcn_buf) option" where
  "getstr kb = do {
     s \<leftarrow> kcn_buf_current kb;
     (r, kb) \<leftarrow> forward kb;
     (case r of
        Inl e \<Rightarrow> Some (Inl e, kb)
      | Inr _ \<Rightarrow> do {
          cur \<leftarrow> kcn_buf_current kb;
          slen \<leftarrow> Some (usub (usub cur s) 1);
          (if slen > KCN_MSG_MAXLOCSIZ then Some (Inl E2BIG, kb)
           else do {
             bs \<leftarrow> kb_load kb s slen;
             Some (Inr (bs, slen), kb)
           })
        })
   }"

text \<open>The C string at an offset of the buffer's memory.\<close>

definition kb_string :: "kcn_buf \<Rightarrow> nat \<Rightarrow> string option" where
  "kb_string kb p = do {
     size' \<leftarrow> kb_size kb;
     bs \<leftarrow> kb_load kb p (size' - p);
     c_assert (0 \<in> set bs);
     Some (map byte_char (takeWhile (\<lambda>b. b \<noteq> 0) bs))
   }"

definition get64 :: "kcn_buf \<Rightarrow> (uint64 result \<times> kcn_buf) option" where
  "get64 kb = do {
     p \<leftarrow> kcn_buf_current kb;
     (r, kb) \<leftarrow> forward kb;
     (case r of
        Inl e \<Rightarrow> Some (Inl e, kb)
      | Inr _ \<Rightarrow> do {
          kb \<leftarrow> kcn_buf_backward kb 1;
          kb \<leftarrow> kcn_buf_put8 kb 0;
          s \<leftarrow> kb_string kb p;
          Some (kcn_strtoull s 0 ULLONG_MAX, kb)
        })
   }"

section \<open>Files\<close>

record kcn_file =
  kcf_type :: c_enum
  kcf_size :: nat
  kcf_line :: nat
  kcf_kb :: kcn_buf
  kcf_kn :: kcn_net

text \<open>The three fields of a line; the first error ends the sequence.\<close>

definition readline :: "c_enum \<Rightarrow> kcn_buf \<Rightarrow> (kcn_msg_add result \<times> kcn_buf) option" where
  "readline type kb =
     rbind (get64 kb) (\<lambda>time kb. rbind (get64 kb) (\<lambda>val kb. rbind (getstr kb) (\<lambda>(loc, loclen) kb.
       Some (Inr \<lparr>kma_type = type, kma_time = time, kma_val = val, kma_loc = loc, kma_loclen = loclen\<rparr>, kb))))"

partial_function (option) readfile_loop :: "allocator \<Rightarrow> kcn_file \<Rightarrow> (string + kcn_file) option" where
  "readfile_loop malloc kf =
     (case kcn_buf_len (kcf_kb kf) of
        None \<Rightarrow> None
      | Some len \<Rightarrow>
          (if \<not> (kcf_size kf = 0 \<or> len \<ge> KCN_MSG_MAXSIZ) then Some (Inr kf)
           else case readline (kcf_type kf) (kcf_kb kf) of
             None \<Rightarrow> None
           | Some (Inl e, kb) \<Rightarrow>
               (if e \<noteq> EAGAIN then Some (Inl ''invalid field'')
                else case kcn_buf_start kb of
                  None \<Rightarrow> None
                | Some kb \<Rightarrow> Some (Inr (kf\<lparr>kcf_kb := kb\<rparr>)))
           | Some (Inr kma, kb) \<Rightarrow>
               (case kcn_client_add_send malloc (kcf_kn kf) kma of
                  None \<Rightarrow> None
                | Some (Inl e, kn) \<Rightarrow> Some (Inl ''cannot send add message'')
                | Some (Inr _, kn) \<Rightarrow>
                    (case kcn_buf_headingdata kb of
                       None \<Rightarrow> None
                     | Some h \<Rightarrow>
                         (case kcn_buf_trim_head kb h of
                            None \<Rightarrow> None
                          | Some kb \<Rightarrow> readfile_loop malloc
                              (kf\<lparr>kcf_line := kcf_line kf + 1, kcf_kb := kb, kcf_kn := kn\<rparr>))))))"

text \<open>
  The read event.  \<open>event_add\<close> is the result of enabling the event again; the boolean of the result
  says whether it has been.
\<close>

definition readfile ::
  "allocator \<Rightarrow> errno \<Rightarrow> bool \<Rightarrow> ofd \<Rightarrow> kcn_file \<Rightarrow> (string + (bool \<times> ofd \<times> kcn_file)) option" where
  "readfile malloc event_add readable fd kf =
     (let again = (\<lambda>fd kf. if event_add \<noteq> 0 then Inl ''cannot add event'' else Inr (True, fd, kf)) in
      if \<not> readable then Some (again fd kf)
      else do {
        (error, fd, kb) \<leftarrow> kcn_buf_read posix_read fd (kcf_kb kf);
        kf \<leftarrow> Some (kf\<lparr>kcf_kb := kb\<rparr>);
        r \<leftarrow> (if error \<noteq> 0 then Some (Inr kf)
             else do {
               len \<leftarrow> kcn_buf_len kb;
               r \<leftarrow> readfile_loop malloc (kf\<lparr>kcf_size := usub (kcf_size kf) len\<rparr>);
               (case r of
                  Inl msg \<Rightarrow> Some (Inl msg)
                | Inr kf \<Rightarrow> do {
                    len \<leftarrow> kcn_buf_len (kcf_kb kf);
                    Some (Inr (kf\<lparr>kcf_size := (kcf_size kf + len) mod 2 ^ 64\<rparr>))
                  })
             });
        Some (case r of
            Inl msg \<Rightarrow> Inl msg
          | Inr kf \<Rightarrow> if error = ESHUTDOWN then Inr (False, fd, kf) else again fd kf)
      })"

text \<open>
  Processing a file: the results of \<open>open\<close>, \<open>flock\<close>, \<open>event_base_set\<close> and \<open>event_add\<close>, and the event
  loop, which runs \<open>readfile\<close> and the callbacks of the connection.  The result is the exit status.
\<close>

record ctl_env =
  cl_malloc :: allocator
  cl_open :: "ofd result"
  cl_flock :: "unit result"
  cl_base_set :: bool
  cl_event_add :: errno
  cl_dispatch :: "ofd \<Rightarrow> kcn_file \<Rightarrow> (string + bool) option"

definition getfilesize :: "ofd \<Rightarrow> nat result \<times> ofd" where
  "getfilesize fd = posix_fstat_size fd"

definition kcndbctl_file_process :: "ctl_env \<Rightarrow> c_enum \<Rightarrow> kcn_net \<Rightarrow> (string + nat) option" where
  "kcndbctl_file_process env type kn =
     (case cl_open env of
        Inl e \<Rightarrow> Some (Inl ''cannot open file'')
      | Inr fd \<Rightarrow>
          (case cl_flock env of
             Inl e \<Rightarrow> Some (Inl ''cannot lock file'')
           | Inr _ \<Rightarrow>
               (case getfilesize fd of
                  (Inl e, fd) \<Rightarrow> Some (Inl ''cannot get file size'')
                | (Inr size', fd) \<Rightarrow> do {
                    kb \<leftarrow> bufalloc (cl_malloc env) size';
                    (case kb of
                       None \<Rightarrow> Some (Inl ''cannot alloc. buffer'')
                     | Some kb \<Rightarrow>
                         (if \<not> cl_base_set env then Some (Inl ''cannot set event base'')
                          else if cl_event_add env \<noteq> 0 then Some (Inl ''cannot enable event'')
                          else do {
                            r \<leftarrow> cl_dispatch env fd
                              \<lparr>kcf_type = type, kcf_size = size', kcf_line = 0, kcf_kb = kb, kcf_kn = kn\<rparr>;
                            Some (map_sum id (\<lambda>ok. if ok then 0 else 1) r)
                          }))
                  })))"

section \<open>A single record\<close>

text \<open>\<open>dispatch\<close> is the event loop of the connection.\<close>

definition kcndbctl_msg_add_send ::
  "allocator \<Rightarrow> (kcn_net \<Rightarrow> bool option) \<Rightarrow> c_enum \<Rightarrow> kcn_net \<Rightarrow> string \<Rightarrow> string \<Rightarrow> nat option" where
  "kcndbctl_msg_add_send malloc dispatch type kn v loc =
     (case kcn_strtoull v 0 ULLONG_MAX of
        Inl e \<Rightarrow> Some 1
      | Inr ullv \<Rightarrow> do {
          (r, kn) \<leftarrow> kcn_client_add_send malloc kn
            \<lparr>kma_type = type, kma_time = KCN_TIME_NOW, kma_val = ullv, kma_loc = map of_char loc, kma_loclen = length loc\<rparr>;
          (case r of
             Inl e \<Rightarrow> Some 1
           | Inr _ \<Rightarrow> do {
               ok \<leftarrow> dispatch kn;
               Some (if ok then 0 else 1)
             })
        })"

section \<open>Fields of a well-formed line\<close>

definition plain :: "byte \<Rightarrow> bool" where
  "plain b \<longleftrightarrow> c_isprint (byte_char b) \<and> \<not> c_isspace (byte_char b)"

text \<open>A word and the space behind it are passed; without a space the data is too short.\<close>

lemma forward_word:
  assumes "list_all plain w" "c_isspace (byte_char d)"
  shows "forward (zbuf pre h (w @ d # rest) post) = Some (Inr (), zbuf pre (h @ w @ [d]) rest post)"
  using assms(1)
proof (induction w arbitrary: h)
  case Nil
  with assms(2) show ?case by (subst forward.simps) (simp add: zbuf_simps)
next
  case (Cons b w)
  then show ?case by (subst forward.simps) (simp add: zbuf_simps plain_def)
qed

lemma forward_short:
  assumes "list_all plain w"
  shows "forward (zbuf pre h w post) = Some (Inl EAGAIN, zbuf pre (h @ w) [] post)"
  using assms
proof (induction w arbitrary: h)
  case Nil
  then show ?case by (subst forward.simps) (simp add: zbuf_simps)
next
  case (Cons b w)
  then show ?case by (subst forward.simps) (simp add: zbuf_simps plain_def)
qed

lemma forward_control:
  assumes "\<not> c_isspace (byte_char b)" "\<not> c_isprint (byte_char b)"
  shows "forward (zbuf pre h (b # rest) post) = Some (Inl EINVAL, zbuf pre (h @ [b]) rest post)"
  using assms by (subst forward.simps) (simp add: zbuf_simps)

lemma getstr_word:
  assumes "list_all plain w" "c_isspace (byte_char d)" "length w \<le> KCN_MSG_MAXLOCSIZ"
  shows "getstr (zbuf pre h (w @ d # rest) post) = Some (Inr (w, length w), zbuf pre (h @ w @ [d]) rest post)"
proof -
  have "kb_load (zbuf pre (h @ w @ [d]) rest post) (length pre + length h) (length w) = Some w"
    by (simp add: kb_load_def zbuf_def)
  with assms show ?thesis by (simp add: getstr_def zbuf_simps forward_word)
qed

text \<open>The decimal text of a number, as bytes.\<close>

definition dec_bytes :: "nat \<Rightarrow> byte list" where
  "dec_bytes n = map of_char (decimal n)"

lemma byte_char_of_char [simp]: "byte_char (of_char c) = c"
proof -
  have "unat (of_char c :: byte) = of_char c"
    by (simp add: of_nat_of_char [symmetric, where ?'a = "8 word"] unat_of_nat of_char_mod_256 del: of_nat_of_char)
  then show ?thesis by (simp add: byte_char_def)
qed

lemma map_byte_char_dec [simp]: "map byte_char (dec_bytes n) = decimal n"
  by (simp add: dec_bytes_def comp_def)

lemma byte_of_char_of: "of_char (char_of (n :: nat)) = (of_nat (n mod 256) :: byte)"
  by (simp add: of_nat_of_char [symmetric, where ?'a = byte] del: of_nat_of_char)

lemma digit_plain: "c_isdigit c \<Longrightarrow> plain (of_char c)"
  by (simp add: plain_def c_isdigit_def c_isprint_def c_isspace_def)

lemma dec_bytes_plain: "list_all plain (dec_bytes n)"
  using decimal_digits [of n] by (auto simp: dec_bytes_def list_all_iff digit_plain)

lemma plain_not_NUL: "plain b \<Longrightarrow> b \<noteq> 0"
  by (auto simp: plain_def c_isprint_def byte_char_def char_code_def)

lemma list_all_not_NUL: "list_all plain w \<Longrightarrow> 0 \<notin> set w"
  by (auto simp: list_all_iff dest: plain_not_NUL)

text \<open>\<open>get64\<close> puts a NUL in the place of the delimiter and converts the string that it ends.\<close>

lemma get64_word:
  assumes "list_all plain w" "c_isspace (byte_char d)"
  shows "get64 (zbuf pre h (w @ d # rest) post) =
    Some (kcn_strtoull (map byte_char w) 0 ULLONG_MAX, zbuf pre (h @ w @ [0]) rest post)"
proof -
  have b: "kcn_buf_backward (zbuf pre (h @ w @ [d]) rest post) 1 = Some (zbuf pre (h @ w) (d # rest) post)"
    by (simp add: zbuf_simps)
  have p: "kcn_buf_put8 (zbuf pre (h @ w) (d # rest) post) 0 = Some (zbuf pre (h @ w @ [0]) rest post)"
    by (simp add: zbuf_simps)
  have "takeWhile (\<lambda>b. b \<noteq> 0) (w @ 0 # rest @ post) = w"
    using list_all_not_NUL [OF assms(1)] by (subst takeWhile_append2) auto
  then have s: "kb_string (zbuf pre (h @ w @ [0]) rest post) (length pre + length h) = Some (map byte_char w)"
    by (simp add: kb_string_def zbuf_fields) (simp add: kb_load_def zbuf_def)
  show ?thesis
    using assms b p s by (simp add: get64_def zbuf_len forward_word)
qed

lemma get64_decimal:
  assumes "n < 2 ^ 63" "c_isspace (byte_char d)"
  shows "get64 (zbuf pre h (dec_bytes n @ d # rest) post) =
    Some (Inr (of_nat n), zbuf pre (h @ dec_bytes n @ [0]) rest post)"
  using assms by (simp add: get64_word dec_bytes_plain strtoull_decimal_small)

section \<open>Lines\<close>

text \<open>A line of a file: time, value and locator.\<close>

type_synonym entry = "nat \<times> nat \<times> byte list"

fun entry_line :: "entry \<Rightarrow> byte list" where
  "entry_line (time, val, loc) = dec_bytes time @ [32] @ dec_bytes val @ [32] @ loc @ [10]"

fun entry_add :: "c_enum \<Rightarrow> entry \<Rightarrow> kcn_msg_add" where
  "entry_add type (time, val, loc) =
     \<lparr>kma_type = type, kma_time = of_nat time, kma_val = of_nat val, kma_loc = loc, kma_loclen = length loc\<rparr>"

text \<open>
  A line that can be imported: the numbers fit, the locator is a word that a message can carry, and
  the whole line is not longer than what the reader waits for.
\<close>

fun entry_ok :: "entry \<Rightarrow> bool" where
  "entry_ok (time, val, loc) \<longleftrightarrow> time < 2 ^ 63 \<and> val < 2 ^ 63 \<and> list_all plain loc \<and>
     length loc \<le> KCN_MSG_MAXLOCSIZ \<and> length (entry_line (time, val, loc)) \<le> KCN_MSG_MAXSIZ"

lemma readline_entry:
  assumes "entry_ok e"
  shows "\<exists>h'. readline type (zbuf pre [] (entry_line e @ rest) post) =
      Some (Inr (entry_add type e), zbuf pre h' rest post) \<and> length h' = length (entry_line e)"
proof -
  obtain time val loc where e: "e = (time, val, loc)" by (cases e)
  have sp: "c_isspace (byte_char 32)" "c_isspace (byte_char 10)"
    by (simp_all add: c_isspace_def byte_char_def char_code_def)
  let ?b1 = "zbuf pre (dec_bytes time @ [0]) (dec_bytes val @ 32 # loc @ 10 # rest) post"
  let ?h2 = "(dec_bytes time @ [0]) @ dec_bytes val @ [0]"
  let ?b2 = "zbuf pre ?h2 (loc @ 10 # rest) post"
  from assms e have ok: "time < 2 ^ 63" "val < 2 ^ 63" "list_all plain loc" "length loc \<le> KCN_MSG_MAXLOCSIZ" by auto
  have "get64 (zbuf pre [] (entry_line e @ rest) post) = Some (Inr (of_nat time), ?b1)"
    using get64_decimal [OF ok(1) sp(1), of pre "[]"] by (simp add: e)
  moreover have "get64 ?b1 = Some (Inr (of_nat val), ?b2)"
    using get64_decimal [OF ok(2) sp(1)] by simp
  moreover have "getstr ?b2 = Some (Inr (loc, length loc), zbuf pre (?h2 @ loc @ [10]) rest post)"
    by (rule getstr_word [OF ok(3) sp(2) ok(4)])
  ultimately have "readline type (zbuf pre [] (entry_line e @ rest) post) =
      Some (Inr (entry_add type e), zbuf pre (?h2 @ loc @ [10]) rest post)"
    by (simp only: readline_def rbind_simps prod.case e entry_add.simps)
  then show ?thesis by (intro exI [of _ "?h2 @ loc @ [10]"]) (simp add: e)
qed

section \<open>Sending\<close>

text \<open>A connection that takes messages: it is open and its events can be enabled.\<close>

definition can_send :: "kcn_net \<Rightarrow> bool" where
  "can_send kn \<longleftrightarrow> net_ok KCN_MSG_MAXSIZ kn \<and> kn_fd kn \<noteq> None \<and> kn_everrs kn = []"

text \<open>What sending leaves as it is.\<close>

definition same_link :: "kcn_net \<Rightarrow> kcn_net \<Rightarrow> bool" where
  "same_link kn kn' \<longleftrightarrow> kn_fd kn' = kn_fd kn \<and> kn_state kn' = kn_state kn \<and> kn_ibuf kn' = kn_ibuf kn \<and>
     kn_evread kn' = kn_evread kn"

lemma same_link_refl [simp]: "same_link kn kn"
  by (simp add: same_link_def)

lemma same_link_trans: "same_link kn kn1 \<Longrightarrow> same_link kn1 kn2 \<Longrightarrow> same_link kn kn2"
  by (simp add: same_link_def)

lemma add_send_ok:
  assumes "can_send kn" "alloc_total malloc" "kma_loclen kma = length (kma_loc kma)" "kma_loclen kma \<le> KCN_MSG_MAXLOCSIZ"
  shows "\<exists>kn'. kcn_client_add_send malloc kn kma = Some (Inr (), kn') \<and> can_send kn' \<and>
    obytes kn' = obytes kn @ add_msg kma \<and> same_link kn kn' \<and> kn_evwrite kn'"
proof -
  from assms(1) have ok: "net_ok 4096 kn" "kn_fd kn \<noteq> None" "kn_everrs kn = []" by (simp_all add: can_send_def)
  from obuf_ok [OF ok(1)] obtain kb where o: "kcn_net_obuf kn = Some kb" "kb_wf kb" "kb_cap kb = 4096" .
  have "4 + length (add_body kma) \<le> kb_cap kb" using assms(3,4) o(3) by (simp add: length_add_body)
  from add_encode_ok [OF o(2) this] assms(3) obtain post where
    e: "kcn_msg_add_encode kb kma = Some (zbuf [] (header_bytes 3 (add_body kma)) (add_body kma) post)"
      "kb_cap kb = 4 + length (add_body kma) + length post" by auto
  let ?kb = "zbuf [] (header_bytes 3 (add_body kma)) (add_body kma) post"
  have kb: "kb_wf ?kb" "kb_cap ?kb = 4096" "kb_data ?kb = add_msg kma" using e(2) o(3)
    by (simp_all add: add_msg_def header_bytes_def)
  have ne: "kb_data ?kb \<noteq> []" by (simp add: header_bytes_def)
  note sync = obuf_sync_ok [OF ok(1) kb(1,2)]
  have m: "malloc (length (kb_data ?kb)) \<noteq> None" "alloc_ok malloc"
    using assms(2) alloc_total_ok by (auto simp: alloc_total_def)
  from net_write_ok [OF sync(1) _ kb(1) ne m(2)] m(1) sync ok kb(3) obtain kn' where
    "kcn_net_write malloc (kn_obuf_sync ?kb kn) ?kb = Some (Inr (), kn')" "net_ok 4096 kn'" "kn_fd kn' \<noteq> None"
    "obytes kn' = obytes kn @ add_msg kma" "kn_everrs kn' = []" "same_link kn kn'" "kn_evwrite kn'"
    by (auto simp: same_link_def)
  then show ?thesis using o(1) e(1) by (simp add: kcn_client_add_send_def can_send_def)
qed

section \<open>Importing\<close>

abbreviation entry_lines :: "entry list \<Rightarrow> byte list" where
  "entry_lines es \<equiv> concat (map entry_line es)"

abbreviation entry_msgs :: "c_enum \<Rightarrow> entry list \<Rightarrow> byte list" where
  "entry_msgs type es \<equiv> concat (map (add_msg \<circ> entry_add type) es)"

text \<open>\<open>done\<close> are the entries that have been sent between the two states.\<close>

definition imported :: "kcn_file \<Rightarrow> entry list \<Rightarrow> kcn_file \<Rightarrow> bool" where
  "imported kf es kf' \<longleftrightarrow> kcf_type kf' = kcf_type kf \<and> kcf_line kf' = kcf_line kf + length es \<and>
     can_send (kcf_kn kf') \<and> obytes (kcf_kn kf') = obytes (kcf_kn kf) @ entry_msgs (kcf_type kf) es \<and>
     same_link (kcf_kn kf) (kcf_kn kf') \<and> (kcf_kn kf' = kcf_kn kf \<or> kn_evwrite (kcf_kn kf'))"

lemma imported_Nil: "can_send (kcf_kn kf) \<Longrightarrow> imported kf [] kf"
  by (simp add: imported_def)

lemma imported_trans: "imported kf es kf1 \<Longrightarrow> imported kf1 es' kf2 \<Longrightarrow> imported kf (es @ es') kf2"
  by (auto simp: imported_def intro: same_link_trans)

text \<open>When the file is read or a message of data is there, the first line is complete.\<close>

lemma first_line:
  assumes "entry_ok e" "t @ r = entry_lines (e # es)" "r = [] \<or> KCN_MSG_MAXSIZ \<le> length t"
  obtains t1 where "t = entry_line e @ t1" "t1 @ r = entry_lines es"
proof -
  from assms(1) have "length (entry_line e) \<le> KCN_MSG_MAXSIZ" by (cases e) auto
  with assms(2,3) have "length (entry_line e) \<le> length t" by (cases "r = []") auto
  then have "t = entry_line e @ drop (length (entry_line e)) t"
    using arg_cong [OF assms(2), of "take (length (entry_line e))"]
      append_take_drop_id [of "length (entry_line e)" t] by simp
  with assms(2) that show thesis
    by (metis append.assoc append_same_eq list.simps(9) concat.simps(2) same_append_eq)
qed

text \<open>
  The loop, with the part \<open>r\<close> of the file that has not been read: it takes whole lines, all of them when
  nothing is left to read, and otherwise until less than a message of data is buffered.
\<close>

lemma readfile_loop_imports:
  assumes "alloc_total malloc" "list_all entry_ok es" "t @ r = entry_lines es" "kcf_kb kf = zbuf pre [] t post"
    "kcf_size kf = length r" "can_send (kcf_kn kf)"
  shows "\<exists>kf' es1 es2 pre' t'. readfile_loop malloc kf = Some (Inr kf') \<and> es = es1 @ es2 \<and> imported kf es1 kf' \<and>
    kcf_kb kf' = zbuf pre' [] t' post \<and> length pre' + length t' = length pre + length t \<and> t' @ r = entry_lines es2 \<and>
    kcf_size kf' = length r \<and> (if r = [] then es2 = [] else length t' < KCN_MSG_MAXSIZ)"
  using assms(2-6)
proof (induction es arbitrary: kf pre t)
  case Nil
  then have "t = []" "r = []" by simp_all
  moreover have "get64 (zbuf pre [] [] post) = Some (Inl EAGAIN, zbuf pre [] [] post)"
    by (simp add: get64_def zbuf_simps forward_short [of "[]", simplified])
  ultimately have "readfile_loop malloc kf = Some (Inr kf)"
    using Nil by (subst readfile_loop.simps) (simp add: readline_def zbuf_simps)
  with Nil \<open>t = []\<close> \<open>r = []\<close> show ?case
    by (intro exI [of _ kf] exI [of _ "[]"] exI [of _ pre] conjI) (simp_all add: imported_Nil)
next
  case (Cons e es)
  show ?case
  proof (cases "r \<noteq> [] \<and> length t < KCN_MSG_MAXSIZ")
    case True
    with Cons.prems have "readfile_loop malloc kf = Some (Inr kf)"
      by (subst readfile_loop.simps) (simp add: zbuf_simps)
    with Cons.prems True show ?thesis
      by (intro exI [of _ kf] exI [of _ "[]"] exI [of _ "e # es"] exI [of _ pre] exI [of _ t] conjI) (simp_all add: imported_Nil)
  next
    case False
    from Cons.prems(1) have e: "entry_ok e" and es: "list_all entry_ok es" by simp_all
    from False have "r = [] \<or> KCN_MSG_MAXSIZ \<le> length t" by auto
    from first_line [OF e Cons.prems(2) this] obtain t1 where t: "t = entry_line e @ t1" "t1 @ r = entry_lines es" .
    from readline_entry [OF e, of "kcf_type kf" pre t1 post] obtain h where
      l: "readline (kcf_type kf) (kcf_kb kf) = Some (Inr (entry_add (kcf_type kf) e), zbuf pre h t1 post)"
        "length h = length (entry_line e)" using Cons.prems(3) t(1) by auto
    have "kma_loclen (entry_add (kcf_type kf) e) = length (kma_loc (entry_add (kcf_type kf) e))"
      "kma_loclen (entry_add (kcf_type kf) e) \<le> KCN_MSG_MAXLOCSIZ" using e by (cases e; simp)+
    from add_send_ok [OF Cons.prems(5) assms(1) this] obtain kn where
      s: "kcn_client_add_send malloc (kcf_kn kf) (entry_add (kcf_type kf) e) = Some (Inr (), kn)" "can_send kn"
        "obytes kn = obytes (kcf_kn kf) @ add_msg (entry_add (kcf_type kf) e)" "same_link (kcf_kn kf) kn" "kn_evwrite kn" by blast
    let ?kf = "kf\<lparr>kcf_line := kcf_line kf + 1, kcf_kb := zbuf (pre @ h) [] t1 post, kcf_kn := kn\<rparr>"
    have "\<not> \<not> (kcf_size kf = 0 \<or> 4096 \<le> length t)" using False Cons.prems(4) by auto
    then have step: "readfile_loop malloc kf = readfile_loop malloc ?kf"
      using Cons.prems(3) l(1) s(1) by (subst readfile_loop.simps) (simp add: zbuf_simps del: One_nat_def)
    have "imported kf [e] ?kf" using s by (simp add: imported_def)
    moreover have "kcf_kb ?kf = zbuf (pre @ h) [] t1 post" "kcf_size ?kf = length r" "can_send (kcf_kn ?kf)"
      using s Cons.prems(4) by simp_all
    from Cons.IH [OF es t(2) this] obtain kf' es1 es2 pre' t' where
      "readfile_loop malloc ?kf = Some (Inr kf')" "es = es1 @ es2" "imported ?kf es1 kf'"
      "kcf_kb kf' = zbuf pre' [] t' post" "length pre' + length t' = length (pre @ h) + length t1"
      "t' @ r = entry_lines es2" "kcf_size kf' = length r" "if r = [] then es2 = [] else length t' < KCN_MSG_MAXSIZ"
      by blast
    ultimately show ?thesis
      using step t(1) l(2) imported_trans [of kf "[e]" ?kf es1 kf']
      by (intro exI [of _ kf'] exI [of _ "e # es1"] exI [of _ es2] exI [of _ pre'] exI [of _ t'] conjI) simp_all
  qed
qed

text \<open>
  What holds between two events of the file: the buffered data and the rest of the file are the lines
  that are left, the size is that of both, and the buffer has room for more of the file.
\<close>

definition importing :: "entry list \<Rightarrow> ofd \<Rightarrow> kcn_file \<Rightarrow> bool" where
  "importing es fd kf \<longleftrightarrow> list_all entry_ok es \<and> kb_wf (kcf_kb kf) \<and> kb_heading (kcf_kb kf) = [] \<and>
     kb_data (kcf_kb kf) @ fd_avail fd = entry_lines es \<and> kcf_size kf = length (entry_lines es) \<and>
     length (kb_data (kcf_kb kf)) < kb_cap (kcf_kb kf) \<and> kcf_size kf < 2 ^ 64 \<and>
     (kb_cap (kcf_kb kf) < KCN_MSG_MAXSIZ \<longrightarrow> kcf_size kf \<le> kb_cap (kcf_kb kf)) \<and>
     (fd_avail fd = [] \<longrightarrow> es = []) \<and> can_send (kcf_kn kf)"

lemma importing_zbufE:
  assumes "importing es fd kf"
  obtains pre t post where "kcf_kb kf = zbuf pre [] t post" "pre \<noteq> [] \<or> post \<noteq> []" "t @ fd_avail fd = entry_lines es"
    "kcf_size kf = length t + length (fd_avail fd)" "kcf_size kf < 2 ^ 64" "list_all entry_ok es" "can_send (kcf_kn kf)"
    "length pre + length t + length post < KCN_MSG_MAXSIZ \<longrightarrow> kcf_size kf \<le> length pre + length t + length post"
proof -
  from assms have "kb_wf (kcf_kb kf)" by (simp add: importing_def)
  then obtain pre h t post where kb: "kcf_kb kf = zbuf pre h t post" by (rule kb_wf_zbufE)
  with assms have "h = []" by (simp add: importing_def)
  from assms have "length (entry_lines es) = length (kb_data (kcf_kb kf)) + length (fd_avail fd)"
    unfolding importing_def by (metis length_append)
  with kb \<open>h = []\<close> assms show thesis by (intro that [of pre t post]) (auto simp: importing_def)
qed

text \<open>
  A read event, before it comes to the lines: nothing has been read, or bytes have, and the loop runs on them.  The
  connection of the import, whatever it is, has no part in this.
\<close>

lemma readfile_reads:
  assumes "importing es fd (kf\<lparr>kcf_kn := kn\<rparr>)"
  obtains
    (unread) kb error fd' n where "readfile malloc 0 True fd kf = Some (Inr (error \<noteq> ESHUTDOWN, fd', kf\<lparr>kcf_kb := kb\<rparr>))"
      "importing es fd' (kf\<lparr>kcf_kb := kb, kcf_kn := kn\<rparr>)" "error \<noteq> 0" "posix_rd_post fd n error [] fd'" "0 < n"
  | (bytes) pre t post fd' bs n where "readfile malloc 0 True fd kf =
        readfile_loop malloc (kf\<lparr>kcf_kb := zbuf pre [] t post, kcf_size := length (fd_avail fd')\<rparr>) \<bind>
        (\<lambda>r. case r of Inl msg \<Rightarrow> Some (Inl msg)
             | Inr kf \<Rightarrow> do { len \<leftarrow> kcn_buf_len (kcf_kb kf);
                 Some (Inr (True, fd', kf\<lparr>kcf_size := (kcf_size kf + len) mod 2 ^ 64\<rparr>)) })"
      "t @ fd_avail fd' = entry_lines es" "es \<noteq> []" "length (entry_lines es) < 2 ^ 64"
      "length pre + length t + length post < KCN_MSG_MAXSIZ \<longrightarrow> length (entry_lines es) \<le> length pre + length t + length post"
      "0 < length pre + length t + length post" "posix_rd_post fd n 0 bs fd'" "bs \<noteq> []" "0 < n"
proof -
  from assms obtain pre t post where kb: "kcf_kb kf = zbuf pre [] t post" and room: "pre \<noteq> [] \<or> post \<noteq> []"
    and t: "t @ fd_avail fd = entry_lines es" and sz: "kcf_size kf = length t + length (fd_avail fd)" "kcf_size kf < 2 ^ 64"
    and cap: "length pre + length t + length post < KCN_MSG_MAXSIZ \<longrightarrow> kcf_size kf \<le> length pre + length t + length post"
    by (rule importing_zbufE) simp
  define n where "n = (if post = [] then length pre else length post)"
  with room have n: "0 < n" by auto
  from file_reader.read_zbuf [OF room, of fd "[]" t] obtain error fd' bs pre1 post1 where
    r: "kcn_buf_read posix_read fd (zbuf pre [] t post) = Some (error, fd', zbuf pre1 [] (t @ bs) post1)"
      "error = 0 \<longleftrightarrow> bs \<noteq> []" "posix_rd_post fd n error bs fd'"
      "length pre1 + length bs + length post1 = length pre + length post"
    unfolding n_def [symmetric] by blast
  from r(3) have av: "fd_avail fd = bs @ fd_avail fd'" by (simp add: posix_rd_post_def)
  show thesis
  proof (cases "bs = []")
    case True
    have "importing es fd' (kf\<lparr>kcf_kb := zbuf pre1 [] t post1, kcf_kn := kn\<rparr>)"
      using assms kb True av r(4) room by (auto simp: importing_def)
    then show thesis
      by (rule unread [of error fd' "zbuf pre1 [] t post1" n, rotated]) (use True r kb n in \<open>simp_all add: readfile_def\<close>)
  next
    case False
    with r(2) have e0: "error = 0" by simp
    have tb: "(t @ bs) @ fd_avail fd' = entry_lines es" using t av by simp
    have es: "es \<noteq> []" "length (entry_lines es) = kcf_size kf" using tb False sz(1) arg_cong [OF t, of length] by auto
    have us: "usub (kcf_size kf) (length (t @ bs)) = length (fd_avail fd')" using sz(1) av by simp
    have l: "length pre1 + length (t @ bs) + length post1 = length pre + length t + length post" using r(4) by simp
    show thesis
    proof (rule bytes [OF _ tb es(1)])
      show "readfile malloc 0 True fd kf =
          readfile_loop malloc (kf\<lparr>kcf_kb := zbuf pre1 [] (t @ bs) post1, kcf_size := length (fd_avail fd')\<rparr>) \<bind>
          (\<lambda>r. case r of Inl msg \<Rightarrow> Some (Inl msg)
               | Inr kf \<Rightarrow> do { len \<leftarrow> kcn_buf_len (kcf_kb kf);
                   Some (Inr (True, fd', kf\<lparr>kcf_size := (kcf_size kf + len) mod 2 ^ 64\<rparr>)) })"
        using r(1) e0 kb us
        by (simp add: readfile_def zbuf_len) (auto simp: bind_eq_Some_conv split: option.splits sum.splits bind_splits)
      show "length pre1 + length (t @ bs) + length post1 < KCN_MSG_MAXSIZ \<longrightarrow>
          length (entry_lines es) \<le> length pre1 + length (t @ bs) + length post1" using cap unfolding l es(2) .
    qed (use es(2) sz(2) r(3,4) e0 False n room in simp_all)
  qed
qed

lemma readfile_imports:
  assumes "alloc_total malloc" "importing es fd kf"
  shows "\<exists>again fd' kf' es1 es2 bs error n. readfile malloc 0 True fd kf = Some (Inr (again, fd', kf')) \<and> es = es1 @ es2 \<and>
    imported kf es1 kf' \<and> importing es2 fd' kf' \<and> (again \<longleftrightarrow> error \<noteq> ESHUTDOWN) \<and> (error = 0 \<longleftrightarrow> bs \<noteq> []) \<and>
    posix_rd_post fd n error bs fd' \<and> 0 < n"
proof -
  have kn: "kf\<lparr>kcf_kn := kcf_kn kf\<rparr> = kf" "\<And>kb. kf\<lparr>kcf_kb := kb, kcf_kn := kcf_kn kf\<rparr> = kf\<lparr>kcf_kb := kb\<rparr>" by simp_all
  from assms(2) have ok: "list_all entry_ok es" "can_send (kcf_kn kf)" by (simp_all add: importing_def)
  have imp: "importing es fd (kf\<lparr>kcf_kn := kcf_kn kf\<rparr>)" using assms(2) by simp
  show ?thesis
  proof (rule readfile_reads [OF imp, of malloc, unfolded kn])
    fix kb error fd' n assume "readfile malloc 0 True fd kf = Some (Inr (error \<noteq> ESHUTDOWN, fd', kf\<lparr>kcf_kb := kb\<rparr>))"
      "importing es fd' (kf\<lparr>kcf_kb := kb\<rparr>)" "error \<noteq> 0" "posix_rd_post fd n error [] fd'" "0 < n"
    moreover have "imported kf [] (kf\<lparr>kcf_kb := kb\<rparr>)" using ok(2) by (simp add: imported_def)
    ultimately show ?thesis
      by (intro exI [of _ "error \<noteq> ESHUTDOWN"] exI [of _ fd'] exI [of _ "kf\<lparr>kcf_kb := kb\<rparr>"] exI [of _ "[]"] exI [of _ es]
          exI [of _ "[]"] exI [of _ error] exI [of _ n]) simp
  next
    fix pre t post fd' bs n
    let ?kf1 = "kf\<lparr>kcf_kb := zbuf pre [] t post, kcf_size := length (fd_avail fd')\<rparr>"
    assume rd: "readfile malloc 0 True fd kf = readfile_loop malloc ?kf1 \<bind>
        (\<lambda>r. case r of Inl msg \<Rightarrow> Some (Inl msg)
             | Inr kf \<Rightarrow> do { len \<leftarrow> kcn_buf_len (kcf_kb kf);
                 Some (Inr (True, fd', kf\<lparr>kcf_size := (kcf_size kf + len) mod 2 ^ 64\<rparr>)) })"
      and t: "t @ fd_avail fd' = entry_lines es" and sz: "length (entry_lines es) < 2 ^ 64"
      and cap: "length pre + length t + length post < KCN_MSG_MAXSIZ \<longrightarrow> length (entry_lines es) \<le> length pre + length t + length post"
      and room: "0 < length pre + length t + length post" and p: "posix_rd_post fd n 0 bs fd'" "bs \<noteq> []" "0 < n"
    from readfile_loop_imports [OF assms(1) ok(1) t, of ?kf1 pre post] ok(2) obtain kf' es1 es2 pre' t' where
      l: "readfile_loop malloc ?kf1 = Some (Inr kf')" "es = es1 @ es2" "imported ?kf1 es1 kf'"
        "kcf_kb kf' = zbuf pre' [] t' post" "length pre' + length t' = length pre + length t"
        "t' @ fd_avail fd' = entry_lines es2" "kcf_size kf' = length (fd_avail fd')"
        "if fd_avail fd' = [] then es2 = [] else length t' < KCN_MSG_MAXSIZ" by auto
    let ?kf' = "kf'\<lparr>kcf_size := length (entry_lines es2)\<rparr>"
    have len: "length (entry_lines es2) = length t' + length (fd_avail fd')" using arg_cong [OF l(6), of length] by simp
    have le: "length (entry_lines es2) \<le> length (entry_lines es)" using l(2) by simp
    from this sz have lt: "length (entry_lines es2) < 2 ^ 64" by (rule le_less_trans)
    with len l(7) have md: "(kcf_size kf' + length t') mod 2 ^ 64 = length (entry_lines es2)"
      by (simp only: add.commute mod_less)
    have "readfile malloc 0 True fd kf = Some (Inr (True, fd', ?kf'))" using rd l(1,4) md by (simp add: zbuf_len)
    moreover have "imported kf es1 ?kf'" using l(3) by (simp add: imported_def)
    moreover have "importing es2 fd' ?kf'"
    proof -
      have "length t' < length pre' + length t' + length post"
      proof (cases "fd_avail fd' = []")
        case True
        with l(6,8) l(5) room show ?thesis by auto
      next
        case False
        with l(8) have "length t' < KCN_MSG_MAXSIZ" by simp
        moreover have "length t' < length (entry_lines es2)" using len False by simp
        ultimately show ?thesis using cap l(5) le by linarith
      qed
      moreover have "can_send (kcf_kn kf')" using l(3) by (simp add: imported_def)
      moreover have "list_all entry_ok es2" using ok(1) l(2) by simp
      ultimately show ?thesis using l(4-6,8) le cap lt by (simp add: importing_def) (auto split: if_splits)
    qed
    ultimately show ?thesis using p l(2)
      by (intro exI [of _ True] exI [of _ fd'] exI [of _ ?kf'] exI [of _ es1] exI [of _ es2]
          exI [of _ bs] exI [of _ 0] exI [of _ n]) simp
  qed
qed

text \<open>The events of the file, one after the other, until the end of the file is seen.\<close>

partial_function (option) file_events :: "allocator \<Rightarrow> ofd \<Rightarrow> kcn_file \<Rightarrow> (string + kcn_file) option" where
  "file_events malloc fd kf =
     (case readfile malloc 0 True fd kf of
        None \<Rightarrow> None
      | Some (Inl msg) \<Rightarrow> Some (Inl msg)
      | Some (Inr (again, fd, kf)) \<Rightarrow> (if again then file_events malloc fd kf else Some (Inr kf)))"

lemma file_events_import:
  assumes "alloc_total malloc" "importing es fd kf" "fd_calm fd"
  shows "\<exists>kf'. file_events malloc fd kf = Some (Inr kf') \<and> imported kf es kf'"
  using assms(2,3)
proof (induction "length (fd_avail fd)" arbitrary: es fd kf rule: less_induct)
  case less
  from readfile_imports [OF assms(1) less.prems(1)] obtain again fd' kf' es1 es2 bs error n where
    r: "readfile malloc 0 True fd kf = Some (Inr (again, fd', kf'))" "es = es1 @ es2" "imported kf es1 kf'"
      "importing es2 fd' kf'" "again \<longleftrightarrow> error \<noteq> ESHUTDOWN" "error = 0 \<longleftrightarrow> bs \<noteq> []" "posix_rd_post fd n error bs fd'" "0 < n"
    by blast
  from r(7,8) less.prems(2) have p: "fd_avail fd = bs @ fd_avail fd'" "fd_calm fd'"
      "bs = [] \<longrightarrow> error = ESHUTDOWN \<and> fd_avail fd = []" unfolding posix_rd_post_def by blast+
  show ?case
  proof (cases "bs = []")
    case True
    with p have "\<not> again" "fd_avail fd' = []" using r(5) by auto
    with r(4) have "es2 = []" by (simp add: importing_def)
    with r(1-3) \<open>\<not> again\<close> show ?thesis by (subst file_events.simps) simp
  next
    case False
    with r(5,6) have again by simp
    from False p(1) have "length (fd_avail fd') < length (fd_avail fd)" by simp
    from less.hyps [OF this r(4) p(2)] obtain kf2 where
      "file_events malloc fd' kf' = Some (Inr kf2)" "imported kf' es2 kf2" by blast
    with r(1-3) \<open>again\<close> show ?thesis
      by (subst file_events.simps) (auto intro: imported_trans)
  qed
qed

lemma bufalloc_ok:
  assumes "alloc_total malloc"
  obtains post where "bufalloc malloc n = Some (Some (zbuf [] [] [] post))" "length post = min n (2 ^ 20)"
proof -
  from assms obtain mem where m: "malloc (min n (2 ^ 20)) = Some mem" "length mem = min n (2 ^ 20)"
    unfolding alloc_total_def by blast
  have "(if n < 2 ^ 20 then n else 2 ^ 20) = min n (2 ^ 20)" by (simp add: min_def)
  with m have "bufalloc malloc n = Some (Some (zbuf [] [] [] mem))"
    by (simp only: bufalloc_def Let_def kcn_buf_data_new_def option.case kcn_buf_init_def kcn_buf_start_def kb_sp_def
        zbuf_def) simp
  with m(2) that show thesis by blast
qed

section \<open>The properties\<close>

lemma import_runs:
  assumes "alloc_total malloc" "can_send kn" "fd_calm fd" "fd_off fd = 0" "fd_data fd = entry_lines es" "es \<noteq> []"
    "list_all entry_ok es" "length (fd_data fd) < 2 ^ 64"
  shows "\<exists>kb kf. bufalloc malloc (length (fd_data fd)) = Some (Some kb) \<and>
    file_events malloc fd \<lparr>kcf_type = type, kcf_size = length (fd_data fd), kcf_line = 0, kcf_kb = kb, kcf_kn = kn\<rparr> =
      Some (Inr kf) \<and>
    kcf_line kf = length es \<and> obytes (kcf_kn kf) = obytes kn @ concat (map (add_msg \<circ> entry_add type) es)"
proof -
  from bufalloc_ok [OF assms(1)] obtain post where
    b: "bufalloc malloc (length (fd_data fd)) = Some (Some (zbuf [] [] [] post))"
      "length post = min (length (fd_data fd)) (2 ^ 20)" .
  let ?kf = "\<lparr>kcf_type = type, kcf_size = length (fd_data fd), kcf_line = 0, kcf_kb = zbuf [] [] [] post, kcf_kn = kn\<rparr>"
  have "entry_lines es \<noteq> []" using assms(6) by (cases es) (auto elim: entry_line.elims)
  then have "0 < length (fd_data fd)" using assms(5) by simp
  then have "importing es fd ?kf"
    using assms(2-8) b(2) by (auto simp: importing_def fd_avail_def)
  from file_events_import [OF assms(1) this assms(3)] show ?thesis
    using b(1) by (auto simp: imported_def)
qed

lemma client_kn_can_send: "can_send client_kn"
  using client_kn_waiting by (simp add: can_send_def waiting_def net_inv_def)

section \<open>Files the reader cannot import\<close>

lemma complete_read:
  assumes "posix_rd_post fd n error bs fd'" "fd_complete fd" "length (fd_avail fd) \<le> n"
  shows "bs = fd_avail fd"
proof -
  from assms(1) have "fd_avail fd = bs @ fd_avail fd'" unfolding posix_rd_post_def by blast
  moreover from assms(1,2) have "length bs = min n (length (fd_avail fd))" unfolding posix_rd_post_def by blast
  ultimately show ?thesis using assms(3) by simp
qed

text \<open>A line without its newline: the two numbers are cut off by NULs and the data is too short.\<close>

lemma readline_unterminated:
  assumes "time < 2 ^ 63" "val < 2 ^ 63" "list_all plain loc"
  shows "readline type (zbuf pre [] (dec_bytes time @ [32] @ dec_bytes val @ [32] @ loc) post) =
    Some (Inl EAGAIN, zbuf pre (dec_bytes time @ [0] @ dec_bytes val @ [0] @ loc) [] post)"
proof -
  have sp: "c_isspace (byte_char 32)" by (simp add: c_isspace_def byte_char_def char_code_def)
  let ?b1 = "zbuf pre (dec_bytes time @ [0]) (dec_bytes val @ 32 # loc) post"
  let ?h2 = "(dec_bytes time @ [0]) @ dec_bytes val @ [0]"
  have "get64 (zbuf pre [] (dec_bytes time @ [32] @ dec_bytes val @ [32] @ loc) post) = Some (Inr (of_nat time), ?b1)"
    using get64_decimal [OF assms(1) sp, of pre "[]"] by simp
  moreover have "get64 ?b1 = Some (Inr (of_nat val), zbuf pre ?h2 loc post)"
    using get64_decimal [OF assms(2) sp] by simp
  moreover have "getstr (zbuf pre ?h2 loc post) = Some (Inl EAGAIN, zbuf pre (?h2 @ loc) [] post)"
    by (simp add: getstr_def zbuf_len forward_short [OF assms(3)])
  ultimately have "readline type (zbuf pre [] (dec_bytes time @ [32] @ dec_bytes val @ [32] @ loc) post) =
      Some (Inl EAGAIN, zbuf pre (?h2 @ loc) [] post)"
    by (simp only: readline_def rbind_simps prod.case)
  then show ?thesis by simp
qed

text \<open>
  C32. A file that consists of one line that does not end with a newline takes \<open>kcndbctl\<close> down: the first event reads
  the line, which fills the buffer of the size of the file, sends nothing and enables the event again with the rewound line
  kept; the next event fails the assertion of \<open>kcn_buf_read\<close> that there is room, whatever the state of the descriptor.
  An empty file does so at the first event.
\<close>

theorem import_unterminated_faults:
  fixes type :: c_enum and kn :: kcn_net
  assumes "alloc_total malloc" "time < 2 ^ 63" "val < 2 ^ 63" "list_all plain loc"
    "data = [] \<or> data = dec_bytes time @ [32] @ dec_bytes val @ [32] @ loc" "length data < 2 ^ 20"
    "bufalloc malloc (length data) = Some (Some kb)"
  defines "fd0 \<equiv> \<lparr>fd_data = data, fd_off = 0, fd_sys = []\<rparr>"
    and "kf0 \<equiv> \<lparr>kcf_type = type, kcf_size = length data, kcf_line = 0, kcf_kb = kb, kcf_kn = kn\<rparr>"
  shows "\<exists>fd kf. (if data = [] then (fd, kf) = (fd0, kf0) else readfile malloc 0 True fd0 kf0 = Some (Inr (True, fd, kf))) \<and>
    kcf_kn kf = kn \<and> kcn_buf_len (kcf_kb kf) = Some (length data) \<and>
    (\<forall>fd. kcn_buf_read posix_read fd (kcf_kb kf) = None) \<and> readfile malloc 0 True fd kf = None"
proof -
  from bufalloc_ok [OF assms(1)] obtain post where
    "bufalloc malloc (length data) = Some (Some (zbuf [] [] [] post))" "length post = min (length data) (2 ^ 20)" .
  with assms(6,7) have kb: "kb = zbuf [] [] [] post" "length post = length data" by simp_all
  show ?thesis
  proof (cases "data = []")
    case True
    with kb have "kcn_buf_read posix_read fd kb = None" for fd by (simp add: file_reader.read_full)
    with True kb show ?thesis
      by (intro exI [of _ fd0] exI [of _ kf0]) (simp add: readfile_def kf0_def zbuf_len)
  next
    case False
    with assms(5) have data: "data = dec_bytes time @ [32] @ dec_bytes val @ [32] @ loc" by simp
    let ?fd = fd0
    let ?t = "dec_bytes time @ [0] @ dec_bytes val @ [0] @ loc"
    let ?kf = "\<lparr>kcf_type = type, kcf_size = length data, kcf_line = 0, kcf_kb = zbuf [] [] ?t [], kcf_kn = kn\<rparr>"
    from False kb(2) have ne: "post \<noteq> []" by auto
    then obtain error fd' bs post' where
      r: "kcn_buf_read posix_read ?fd kb = Some (error, fd', zbuf [] [] bs post')" "error = 0 \<longleftrightarrow> bs \<noteq> []"
        "posix_rd_post ?fd (length post) error bs fd'" "length bs + length post' = length post"
      using file_reader.read_zbuf [of "[]" post ?fd "[]" "[]"] kb(1) by auto
    have av: "fd_avail ?fd = data" by (simp add: fd_avail_def fd0_def)
    have bs: "bs = data" using complete_read [OF r(3)] by (auto simp: av kb(2)) (simp add: fd0_def)
    with r(2,4) kb(2) False have "post' = []" "error = 0" by simp_all
    with r(1) bs have r: "kcn_buf_read posix_read ?fd kb = Some (0, fd', zbuf [] [] data [])" by simp
    have len: "length ?t = length data" by (simp add: data)
    have "readline type (zbuf [] [] data []) = Some (Inl EAGAIN, zbuf [] ?t [] [])"
      unfolding data by (rule readline_unterminated [OF assms(2-4)])
    then have l: "readfile_loop malloc \<lparr>kcf_type = type, kcf_size = 0, kcf_line = 0, kcf_kb = zbuf [] [] data [], kcf_kn = kn\<rparr> =
        Some (Inr (?kf\<lparr>kcf_size := 0\<rparr>))"
      by (subst readfile_loop.simps) (simp add: zbuf_len zbuf_start)
    have "length data < 2 ^ 64" using assms(6) by simp
    with r l len False have "readfile malloc 0 True fd0 kf0 = Some (Inr (True, fd', ?kf))"
      by (simp add: readfile_def zbuf_len kf0_def)
    moreover have full: "kcn_buf_read posix_read fd (zbuf [] [] ?t []) = None" for fd
      by (rule file_reader.read_full)
    moreover have "readfile malloc 0 True fd' ?kf = None" using full [of fd'] by (simp add: readfile_def)
    ultimately show ?thesis using False len
      by (intro exI [of _ fd'] exI [of _ ?kf]) (simp add: zbuf_len)
  qed
qed

theorem import_unterminated_faults_witness:
  "\<exists>fd kf. readfile zero_malloc 0 True \<lparr>fd_data = [55, 32, 53, 32, 97], fd_off = 0, fd_sys = []\<rparr>
      \<lparr>kcf_type = 2, kcf_size = 5, kcf_line = 0, kcf_kb = zbuf [] [] [] (replicate 5 0), kcf_kn = client_kn\<rparr> =
      Some (Inr (True, fd, kf)) \<and> kcf_kn kf = client_kn \<and> readfile zero_malloc 0 True fd kf = None"
proof -
  have d: "[55, 32, 53, 32, 97] = dec_bytes 7 @ [32] @ dec_bytes 5 @ [32] @ [97 :: byte]"
    by (simp add: dec_bytes_def decimal.simps byte_of_char_of)
  have b: "bufalloc zero_malloc 5 = Some (Some (zbuf [] [] [] (replicate 5 0)))"
    by (simp add: bufalloc_def kcn_buf_data_new_def zero_malloc_def kcn_buf_init_def kcn_buf_start_def kb_sp_def zbuf_def)
  have p: "list_all plain [97 :: byte]"
    by (simp add: plain_def c_isprint_def c_isspace_def byte_char_def char_code_def)
  have n: "length [55, 32, 53, 32, 97 :: byte] = 5" by simp
  show ?thesis
    using import_unterminated_faults [OF alloc_total_zero _ _ p disjI2 [OF d], unfolded n] b by fastforce
qed

end
