(* ===== verification/Kcn_Main.thy ===== *)
theory Kcn_Main
  imports Kcndb_Daemon Kcn_Google Kcndbctl
begin

text \<open>
  The programs: \<^verbatim>\<open>key2loc/main.c\<close>, \<^verbatim>\<open>kcndbctl/kcndbctl_main.c\<close> and \<^verbatim>\<open>kcndbd/kcndb_main.c\<close>, from the words of
  the command line to the exit status.

  \<open>usage\<close> prints a text and exits with \<open>EXIT_FAILURE\<close>; it is \<^term>\<open>Inl msg\<close> with the message of the error,
  which is empty for \<open>-h\<close> and for an option that is not known.
\<close>

section \<open>Options\<close>

text \<open>
  \<open>getopt\<close> of the C library, as glibc has it: letters with or without an argument, several letters in one word, an
  argument in the same word or the next one; \<open>--\<close> ends the options; other words may stand between them and
  are left over in their order.  An unknown letter and a missing argument are \<open>?\<close>.
\<close>

datatype opt_kind = Opt_flag | Opt_arg

fun opt_spec :: "string \<Rightarrow> char \<Rightarrow> opt_kind option" where
  "opt_spec [] ch = None"
| "opt_spec (c # s) ch =
     (if ch = CHR '':'' then None
      else if c = ch then Some (if s \<noteq> [] \<and> hd s = CHR '':'' then Opt_arg else Opt_flag)
      else opt_spec s ch)"

fun getopt_word :: "string \<Rightarrow> string \<Rightarrow> string list \<Rightarrow> (char \<times> string) list \<times> string list" where
  "getopt_word opts [] args = ([], args)"
| "getopt_word opts (c # cs) args =
     (case opt_spec opts c of
        None \<Rightarrow> (case getopt_word opts cs args of (os, args) \<Rightarrow> ((CHR ''?'', []) # os, args))
      | Some Opt_flag \<Rightarrow> (case getopt_word opts cs args of (os, args) \<Rightarrow> ((c, []) # os, args))
      | Some Opt_arg \<Rightarrow>
          (if cs \<noteq> [] then ([(c, cs)], args)
           else case args of [] \<Rightarrow> ([(CHR ''?'', [])], []) | a # args \<Rightarrow> ([(c, a)], args)))"

lemma getopt_word_rest: "length (snd (getopt_word opts cs args)) \<le> length args"
  by (induction opts cs args rule: getopt_word.induct) (auto split: option.splits opt_kind.splits prod.splits list.splits)

function getopt :: "string \<Rightarrow> string list \<Rightarrow> (char \<times> string) list \<times> string list" where
  "getopt opts [] = ([], [])"
| "getopt opts (a # args) =
     (if a = ''--'' then ([], args)
      else if 1 < length a \<and> hd a = CHR ''-'' then
        (case getopt_word opts (tl a) args of
           (os, rest) \<Rightarrow> (case getopt opts rest of (os', words) \<Rightarrow> (os @ os', words)))
      else (case getopt opts args of (os, words) \<Rightarrow> (os, a # words)))"
  by pat_completeness auto

termination
proof (relation "measure (\<lambda>(opts, args). length args)", goal_cases)
  case (2 opts a args os rest)
  from 2(3) [symmetric] getopt_word_rest [of opts "tl a" args] show ?case by simp
qed simp_all

text \<open>The loop over the options: each changes the settings or ends the program.\<close>

fun opt_loop :: "(char \<times> string \<Rightarrow> 'opt \<Rightarrow> (string + 'opt) option) \<Rightarrow> (char \<times> string) list \<Rightarrow> 'opt \<Rightarrow> (string + 'opt) option" where
  "opt_loop f [] opt = Some (Inr opt)"
| "opt_loop f (x # xs) opt =
     (case f x opt of None \<Rightarrow> None | Some (Inl msg) \<Rightarrow> Some (Inl msg) | Some (Inr opt) \<Rightarrow> opt_loop f xs opt)"

text \<open>\<open>atoi\<close>: the value of \<open>strtol\<close> as an \<open>int\<close>; a conversion to \<open>size_t\<close> extends the sign.\<close>

definition c_atoi :: "string \<Rightarrow> 32 word" where
  "c_atoi s = word_of_int (fst (c_strtoll s))"

definition size_of_int :: "32 word \<Rightarrow> nat" where
  "size_of_int w = unat (scast w :: uint64)"

text \<open>The level of messages is an \<open>int\<close>, which wraps around here; the test stops it at the greatest one.\<close>

definition kcn_log_priority_increment :: "32 word \<Rightarrow> 32 word" where
  "kcn_log_priority_increment p = (if sint (p + 1) > sint p then p + 1 else p)"

section \<open>key2loc\<close>

record key2loc_opts =
  ko_loctype :: c_enum
  ko_db :: "string option"
  ko_country :: "string option"
  ko_userip :: "string option"
  ko_server :: "string option"
  ko_r :: nat
  ko_n :: "32 word"
  ko_log :: "32 word"

abbreviation (input) KCN_LOC_TYPE_DOMAINNAME :: c_enum where "KCN_LOC_TYPE_DOMAINNAME \<equiv> 0"
abbreviation (input) KCN_LOC_TYPE_URI :: c_enum where "KCN_LOC_TYPE_URI \<equiv> 1"

definition key2loc_defaults :: key2loc_opts where
  "key2loc_defaults = \<lparr>ko_loctype = KCN_LOC_TYPE_DOMAINNAME, ko_db = None, ko_country = None, ko_userip = None,
     ko_server = None, ko_r = 1, ko_n = 1, ko_log = - 1\<rparr>"

definition key2loc_option ::
  "kcn_db list \<Rightarrow> char \<times> string \<Rightarrow> key2loc_opts \<Rightarrow> (string + key2loc_opts) option" where
  "key2loc_option kds x opt =
     (case x of (ch, optarg) \<Rightarrow>
        Some (if ch = CHR ''c'' then Inr (opt\<lparr>ko_country := Some optarg\<rparr>)
          else if ch = CHR ''i'' then Inr (opt\<lparr>ko_userip := Some optarg\<rparr>)
          else if ch = CHR ''l'' then
            (if strcasecmp_eq optarg ''domain'' then Inr (opt\<lparr>ko_loctype := KCN_LOC_TYPE_DOMAINNAME\<rparr>)
             else if strcasecmp_eq optarg ''uri'' then Inr (opt\<lparr>ko_loctype := KCN_LOC_TYPE_URI\<rparr>)
             else if strcasecmp_eq optarg ''ip'' then Inl ''not yet supported locator type''
             else Inl ''unknown locator type'')
          else if ch = CHR ''n'' then Inr (opt\<lparr>ko_n := c_atoi optarg\<rparr>)
          else if ch = CHR ''r'' then Inr (opt\<lparr>ko_r := size_of_int (c_atoi optarg)\<rparr>)
          else if ch = CHR ''s'' then
            (if ko_server opt \<noteq> None then Inl ''multiple servers specified''
             else Inr (opt\<lparr>ko_server := Some optarg\<rparr>))
          else if ch = CHR ''t'' then
            (if \<not> kcn_db_exists kds optarg then Inl ''unknown database type''
             else Inr (opt\<lparr>ko_db := Some optarg\<rparr>))
          else if ch = CHR ''v'' then Inr (opt\<lparr>ko_log := kcn_log_priority_increment (ko_log opt)\<rparr>)
          else Inl ''''))"

text \<open>
  The searches of \<open>doit\<close>: \<open>dbs i\<close> are the databases as the \<open>i\<close>-th search finds them.  The
  result is the information, and \<open>errno\<close>, or the end by \<open>err\<close>.
\<close>

fun key2loc_repeat ::
  "char_allocator \<Rightarrow> (nat \<Rightarrow> kcn_db list) \<Rightarrow> string list \<Rightarrow> nat \<Rightarrow> nat \<Rightarrow> errno \<Rightarrow> kcn_info \<Rightarrow> (string + kcn_info) option" where
  "key2loc_repeat malloc dbs keyv i 0 errno ki = Some (Inr ki)"
| "key2loc_repeat malloc dbs keyv i (Suc r) errno ki =
     (case kcn_searchv malloc (dbs i) errno (kcn_info_loc_free ki) keyv of
        None \<Rightarrow> None
      | Some (rc, errno, ki) \<Rightarrow>
          (if \<not> rc then Some (Inl ''search failure'')
           else key2loc_repeat malloc dbs keyv (i + 1) r errno ki))"

text \<open>A locator is printed up to its first NUL.\<close>

fun key2loc_print :: "kcn_info \<Rightarrow> nat \<Rightarrow> byte list list" where
  "key2loc_print ki 0 = []"
| "key2loc_print ki (Suc n) =
     (case kcn_info_loc ki (kcn_info_nlocs ki - Suc n) of None \<Rightarrow> [] | Some loc \<Rightarrow> takeWhile (\<lambda>b. b \<noteq> 0) loc # key2loc_print ki n)"

definition key2loc_doit ::
  "bool \<Rightarrow> char_allocator \<Rightarrow> (nat \<Rightarrow> kcn_db list) \<Rightarrow> errno \<Rightarrow> key2loc_opts \<Rightarrow> string list \<Rightarrow> (string + byte list list) option" where
  "key2loc_doit ki_new malloc dbs errno opt keyv = do {
     ki \<leftarrow> kcn_info_new ki_new (ko_loctype opt) (size_of_int (ko_n opt));
     (case ki of
        None \<Rightarrow> Some (Inl ''cannot allocate KCN information structure'')
      | Some ki \<Rightarrow> do {
          ki \<leftarrow> Some (kcn_info_db_set ki (ko_db opt));
          ki \<leftarrow> kcn_info_country_set ki (ko_country opt);
          ki \<leftarrow> Some (kcn_info_userip_set ki (ko_userip opt));
          r \<leftarrow> key2loc_repeat malloc dbs keyv 0 (ko_r opt) errno ki;
          Some (case r of Inl msg \<Rightarrow> Inl msg | Inr ki \<Rightarrow> Inr (key2loc_print ki (kcn_info_nlocs ki)))
        })
   }"

text \<open>
  \<open>net\<close> and \<open>web\<close> are the searches of the two databases: the first asks the server that \<open>-s\<close> names, the
  default one otherwise.
\<close>

definition key2loc_dbs :: "kd_search_fun \<Rightarrow> kd_search_fun \<Rightarrow> kcn_db list option" where
  "key2loc_dbs net web = do { kds \<leftarrow> kcn_netstat_init 1 net []; kcn_google_init 2 web kds }"

definition key2loc_main ::
  "bool \<Rightarrow> char_allocator \<Rightarrow> (string option \<Rightarrow> nat \<Rightarrow> kd_search_fun) \<Rightarrow> (nat \<Rightarrow> kd_search_fun) \<Rightarrow> errno \<Rightarrow>
   string list \<Rightarrow> (string + byte list list) option" where
  "key2loc_main ki_new malloc net web errno argv = do {
     kds \<leftarrow> key2loc_dbs (net None 0) (web 0);
     (os, keyv) \<leftarrow> Some (getopt ''c:hi:n:l:r:s:t:v?'' argv);
     r \<leftarrow> opt_loop (key2loc_option kds) os key2loc_defaults;
     (case r of
        Inl msg \<Rightarrow> Some (Inl msg)
      | Inr opt \<Rightarrow>
          (if length keyv < 1 then Some (Inl ''no keywords specified'')
           else key2loc_doit ki_new malloc
             (\<lambda>i. case key2loc_dbs (net (ko_server opt) i) (web i) of None \<Rightarrow> [] | Some kds \<Rightarrow> kds) errno opt keyv))
   }"

text \<open>The exit status of a program: \<open>usage\<close> and \<open>err\<close> exit with 1.\<close>

definition exit_status :: "string + 'a \<Rightarrow> nat" where
  "exit_status r = (case r of Inl _ \<Rightarrow> 1 | Inr _ \<Rightarrow> 0)"

section \<open>kcndbctl\<close>

record ctl_opts =
  co_path :: "string option"
  co_log :: "32 word"

definition kcndbctl_option :: "char \<times> string \<Rightarrow> ctl_opts \<Rightarrow> (string + ctl_opts) option" where
  "kcndbctl_option x opt =
     (case x of (ch, optarg) \<Rightarrow>
        Some (if ch = CHR ''f'' then Inr (opt\<lparr>co_path := Some optarg\<rparr>)
          else if ch = CHR ''v'' then Inr (opt\<lparr>co_log := kcn_log_priority_increment (co_log opt)\<rparr>)
          else Inl ''''))"

text \<open>
  The library's event loop and the file system are parameters: \<open>event_init\<close>, the environment of the
  connection, the one of the file with a path, and \<open>dispatch\<close>.  The number of arguments is checked after
  the connection is made.  The release of the connection and of the event base before the
  program ends is left out.
\<close>

definition kcndbctl_main ::
  "bool \<Rightarrow> client_env \<Rightarrow> (string \<Rightarrow> ctl_env) \<Rightarrow> (kcn_net \<Rightarrow> bool option) \<Rightarrow> string list \<Rightarrow> (string + nat) option" where
  "kcndbctl_main event_init env files dispatch argv = do {
     (os, args) \<leftarrow> Some (getopt ''f:hv?'' argv);
     r \<leftarrow> opt_loop kcndbctl_option os \<lparr>co_path = None, co_log = - 1\<rparr>;
     (case r of
        Inl msg \<Rightarrow> Some (Inl msg)
      | Inr opt \<Rightarrow>
          (case args of
             [] \<Rightarrow> Some (Inl ''missing database type'')
           | name # args \<Rightarrow>
               (case kcn_eq_type_aton name of
                  Inl e \<Rightarrow> Some (Inl ''unknown database type'')
                | Inr type \<Rightarrow>
                    (if \<not> event_init then Some (Inl ''cannot allocate event base'')
                     else do {
                       kn \<leftarrow> kcn_client_init env;
                       (case kn of
                          Inl e \<Rightarrow> Some (Inl ''cannot connect to kcndbd'')
                        | Inr kn \<Rightarrow>
                            (if co_path opt \<noteq> None \<and> length args > 0 \<or> co_path opt = None \<and> length args \<noteq> 2
                             then Some (Inl ''wrong number of arguments'')
                             else case co_path opt of
                               Some path \<Rightarrow> kcndbctl_file_process (files path) type kn
                             | None \<Rightarrow> map_option Inr
                                 (kcndbctl_msg_add_send (ce_malloc env) dispatch type kn (args ! 0) (args ! 1))))
                     }))))
   }"

section \<open>kcndbd\<close>

record kcndbd_opts =
  do_path :: string
  do_dflag :: bool
  do_fflag :: bool
  do_log :: "32 word"
  do_server :: kcndbd

definition kcndb_db_path_set :: "string \<Rightarrow> kcndbd_opts \<Rightarrow> kcndbd_opts" where
  "kcndb_db_path_set path opt = opt\<lparr>do_path := path\<rparr>"

definition kcndb_db_path_get :: "kcndbd_opts \<Rightarrow> string" where
  "kcndb_db_path_get opt = do_path opt"

abbreviation (input) KCNDB_NET_PORT_MIN :: uint64 where "KCNDB_NET_PORT_MIN \<equiv> 1"
abbreviation (input) KCNDB_NET_PORT_MAX :: uint64 where "KCNDB_NET_PORT_MAX \<equiv> 65535"

text \<open>\<open>dflag\<close> is tested and never set.\<close>

definition kcndbd_option :: "char \<times> string \<Rightarrow> kcndbd_opts \<Rightarrow> (string + kcndbd_opts) option" where
  "kcndbd_option x opt =
     (case x of (ch, optarg) \<Rightarrow>
        if ch = CHR ''d'' then
          Some (if do_dflag opt then Inl ''-d can be specified only once'' else Inr (kcndb_db_path_set optarg opt))
        else if ch = CHR ''f'' then Some (Inr (opt\<lparr>do_fflag := True\<rparr>))
        else if ch = CHR ''p'' then
          (case kcn_strtoull optarg KCNDB_NET_PORT_MIN KCNDB_NET_PORT_MAX of
             Inl e \<Rightarrow> Some (Inl ''invalid TCP port number'')
           | Inr llval \<Rightarrow> do {
               d \<leftarrow> kcndb_server_port_set (ucast llval) (do_server opt);
               Some (Inr (opt\<lparr>do_server := d\<rparr>))
             })
        else if ch = CHR ''v'' then Some (Inr (opt\<lparr>do_log := kcn_log_priority_increment (do_log opt)\<rparr>))
        else Some (Inl ''''))"

text \<open>\<open>signal(SIGPIPE, SIG_IGN)\<close> succeeds or not.\<close>

definition kcn_signal_init :: "bool \<Rightarrow> bool" where
  "kcn_signal_init sigs = (if \<not> sigs then False else True)"

text \<open>
  The daemon up to its loop: \<open>path\<close> is the default directory, \<open>sh\<close> what the process starts with,
  \<open>detached\<close> whether \<open>daemon\<close> succeeds, \<open>errs\<close> the results of \<open>pthread_create\<close>.
\<close>

definition kcndbd_main ::
  "string \<Rightarrow> shared \<Rightarrow> bool \<Rightarrow> bool \<Rightarrow> errno list \<Rightarrow> string list \<Rightarrow> (string + string \<times> kcndbd) option" where
  "kcndbd_main path sh sigs detached errs argv = do {
     (os, _) \<leftarrow> Some (getopt ''d:fhp:v?'' argv);
     r \<leftarrow> opt_loop kcndbd_option os
       \<lparr>do_path = path, do_dflag = False, do_fflag = False, do_log = - 1, do_server = kcndbd_init sh\<rparr>;
     (case r of
        Inl msg \<Rightarrow> Some (Inl msg)
      | Inr opt \<Rightarrow>
          (if \<not> kcn_signal_init sigs then Some (Inl ''cannot initialize signals'')
           else if \<not> do_fflag opt \<and> \<not> detached then Some (Inl ''cannot daemonize'')
           else do {
             (ok, d) \<leftarrow> kcndb_server_start errs (do_server opt);
             Some (if \<not> ok then Inl ''cannot launch server''
                   else Inr (kcndb_db_path_get opt, kcndb_server_loop d))
           }))
   }"

section \<open>Options never fault\<close>

text \<open>A port that passes the check of \<open>-p\<close> meets the assertion of \<open>kcndb_server_port_set\<close>.\<close>

lemma port_nonzero:
  assumes "1 \<le> v" "v \<le> (65535 :: uint64)"
  shows "1 \<le> (ucast v :: uint16)" "unat (ucast v :: uint16) = unat v"
proof -
  from assms have n: "1 \<le> unat v" "unat v \<le> 65535" by (simp_all add: word_le_nat_alt)
  then show u: "unat (ucast v :: uint16) = unat v" by (simp add: unsigned_ucast_eq take_bit_nat_eq_self)
  from n show "1 \<le> (ucast v :: uint16)" by (simp add: word_le_nat_alt u)
qed

definition last_arg :: "char \<Rightarrow> (char \<times> string) list \<Rightarrow> string option" where
  "last_arg ch os = (case filter (\<lambda>x. fst x = ch) os of [] \<Rightarrow> None | xs \<Rightarrow> Some (snd (last xs)))"

lemma last_arg_simps [simp]:
  "last_arg ch [] = None"
  "last_arg ch (x # xs) = (case last_arg ch xs of None \<Rightarrow> if fst x = ch then Some (snd x) else None | Some a \<Rightarrow> Some a)"
  by (auto simp: last_arg_def split: list.split)

definition port_number :: "string \<Rightarrow> uint16" where
  "port_number a = (case kcn_strtoull a KCNDB_NET_PORT_MIN KCNDB_NET_PORT_MAX of Inl _ \<Rightarrow> 0 | Inr v \<Rightarrow> ucast v)"

definition port_valid :: "string \<Rightarrow> bool" where
  "port_valid a \<longleftrightarrow> \<not> isl (kcn_strtoull a KCNDB_NET_PORT_MIN KCNDB_NET_PORT_MAX)"

definition kcndbd_set :: "shared \<Rightarrow> uint16 \<Rightarrow> string \<Rightarrow> kcndbd_opts \<Rightarrow> bool" where
  "kcndbd_set sh port dir opt \<longleftrightarrow> \<not> do_dflag opt \<and> do_path opt = dir \<and>
     do_server opt = (kcndbd_init sh)\<lparr>d_port := KCN_HTONS port\<rparr>"

lemma kcndbd_option_set:
  assumes "kcndbd_set sh port dir opt"
  shows "\<exists>r. kcndbd_option x opt = Some r \<and>
    (\<forall>opt'. r = Inr opt' \<longrightarrow> (fst x = CHR ''p'' \<longrightarrow> port_valid (snd x)) \<and>
       kcndbd_set sh (if fst x = CHR ''p'' then port_number (snd x) else port) (if fst x = CHR ''d'' then snd x else dir) opt')"
proof (cases "fst x = CHR ''p''")
  case False
  with assms show ?thesis by (cases x) (simp add: kcndbd_option_def kcndbd_set_def kcndb_db_path_set_def)
next
  case p: True
  show ?thesis
  proof (cases "kcn_strtoull (snd x) KCNDB_NET_PORT_MIN KCNDB_NET_PORT_MAX")
    case (Inl e)
    with p show ?thesis by (cases x) (simp add: kcndbd_option_def)
  next
    case (Inr v)
    with strtoull_range [OF Inr] have "1 \<le> (ucast v :: uint16)" by (intro port_nonzero) simp_all
    with p Inr assms show ?thesis
      by (cases x) (simp add: kcndbd_option_def kcndbd_set_def kcndb_server_port_set_def port_number_def port_valid_def)
  qed
qed

lemma kcndbd_options:
  assumes "kcndbd_set sh port dir opt"
  shows "\<exists>r. opt_loop kcndbd_option os opt = Some r \<and>
    (\<forall>opt'. r = Inr opt' \<longrightarrow> (\<forall>a. (CHR ''p'', a) \<in> set os \<longrightarrow> port_valid a) \<and>
       kcndbd_set sh (case last_arg CHR ''p'' os of None \<Rightarrow> port | Some a \<Rightarrow> port_number a)
         (case last_arg CHR ''d'' os of None \<Rightarrow> dir | Some a \<Rightarrow> a) opt')"
  using assms
proof (induction os arbitrary: port dir opt)
  case (Cons x os)
  from kcndbd_option_set [OF Cons.prems, of x] obtain r where
    r: "kcndbd_option x opt = Some r" "\<And>opt'. r = Inr opt' \<Longrightarrow> (fst x = CHR ''p'' \<longrightarrow> port_valid (snd x)) \<and>
       kcndbd_set sh (if fst x = CHR ''p'' then port_number (snd x) else port) (if fst x = CHR ''d'' then snd x else dir) opt'"
    by blast
  show ?case
  proof (cases r)
    case (Inl msg)
    with r(1) show ?thesis by simp
  next
    case (Inr opt1)
    note v = conjunct1 [OF r(2) [OF Inr]]
    from Cons.IH [OF conjunct2 [OF r(2) [OF Inr]]] obtain r' where
      r': "opt_loop kcndbd_option os opt1 = Some r'" "\<And>opt'. r' = Inr opt' \<Longrightarrow> (\<forall>a. (CHR ''p'', a) \<in> set os \<longrightarrow> port_valid a) \<and>
         kcndbd_set sh (case last_arg CHR ''p'' os of None \<Rightarrow> if fst x = CHR ''p'' then port_number (snd x) else port | Some a \<Rightarrow> port_number a)
           (case last_arg CHR ''d'' os of None \<Rightarrow> if fst x = CHR ''d'' then snd x else dir | Some a \<Rightarrow> a) opt'" by blast
    have e: "(case last_arg CHR ''p'' (x # os) of None \<Rightarrow> port | Some a \<Rightarrow> port_number a) =
        (case last_arg CHR ''p'' os of None \<Rightarrow> if fst x = CHR ''p'' then port_number (snd x) else port | Some a \<Rightarrow> port_number a)"
      "(case last_arg CHR ''d'' (x # os) of None \<Rightarrow> dir | Some a \<Rightarrow> a) =
        (case last_arg CHR ''d'' os of None \<Rightarrow> if fst x = CHR ''d'' then snd x else dir | Some a \<Rightarrow> a)"
      by (simp_all split: option.split)
    have "\<forall>a. (CHR ''p'', a) \<in> set (x # os) \<longrightarrow> port_valid a" if "\<forall>a. (CHR ''p'', a) \<in> set os \<longrightarrow> port_valid a"
      using v that by (cases x) auto
    then show ?thesis unfolding e using r(1) Inr r' by (intro exI [of _ r']) simp
  qed
qed simp

lemma server_start_port:
  assumes "kcndb_server_start errs d = Some (True, d')" "length (d_threads d) = 8"
  shows "d_port d' = d_port d"
proof -
  from assms(1) obtain r os where l: "kcn_socket_listen PF_INET6 (d_port d) (sh_os (d_shared d)) = Some (r, os)"
    by (auto simp: kcndb_server_start_def bind_eq_Some_conv)
  show ?thesis
  proof (cases r)
    case (Inl e)
    with assms(1) l show ?thesis by (simp add: kcndb_server_start_def)
  next
    case (Inr s)
    let ?d = "d\<lparr>d_shared := (d_shared d)\<lparr>sh_os := os\<rparr>, d_socket := s\<rparr>"
    obtain ok d1 where w: "server_workers 7 errs ?d = (ok, d1)" by (cases "server_workers 7 errs ?d")
    with assms(1) l Inr have "d1 = d'" by (simp add: kcndb_server_start_def split: if_splits)
    with server_workers_run [OF w] assms(2) show ?thesis by simp
  qed
qed

text \<open>A server that has started with these settings, in its loop.\<close>

lemma kcndbd_serves:
  assumes "kcndbd_set sh port dir opt" "kcndb_server_start errs (do_server opt) = Some (True, d)"
  shows "d_port (kcndb_server_loop d) = KCN_HTONS port \<and>
    makes_fd False (sh_os sh) (Inr (d_socket (kcndb_server_loop d))) (sh_os (d_shared (kcndb_server_loop d))) \<and>
    (\<forall>ts sh'. threads_reach (thread_step False) (d_threads (kcndb_server_loop d), d_shared (kcndb_server_loop d)) (ts, sh') \<longrightarrow>
       own_inv thread_fds (\<lambda>sh. open_fds (sh_os sh)) thread_ok
         (insert (nat (d_socket (kcndb_server_loop d))) (open_fds (sh_os sh))) (ts, sh'))"
proof -
  let ?d0 = "do_server opt"
  from assms(1) have d0: "?d0 = (kcndbd_init sh)\<lparr>d_port := KCN_HTONS port\<rparr>" by (simp add: kcndbd_set_def)
  then have i: "d_socket ?d0 = - 1" "d_threads ?d0 = kcndb_server_threads" "d_shared ?d0 = sh" "length (d_threads ?d0) = 8"
    by (simp_all add: kcndbd_init_def kcndb_server_threads_def)
  note w = server_started [OF i(1,4) assms(2)]
  have "kcndb_server_loop d = d\<lparr>d_threads := (d_threads d)[0 := started (d_socket d) 0 (d_threads d ! 0)]\<rparr>"
    using w(1) unfolding kcndb_server_loop_def by (intro thread_run_init) simp
  then have l: "d_socket (kcndb_server_loop d) = d_socket d" "d_shared (kcndb_server_loop d) = d_shared d"
    "d_port (kcndb_server_loop d) = KCN_HTONS port" using server_start_port [OF assms(2) i(4)] by (simp_all add: d0)
  have own: "own_inv thread_fds (\<lambda>sh. open_fds (sh_os sh)) thread_ok (insert (nat (d_socket d)) (open_fds (sh_os sh))) (ts, sh')"
    if "threads_reach (thread_step False) (d_threads (kcndb_server_loop d), d_shared (kcndb_server_loop d)) (ts, sh')" for ts sh'
    using daemon_owners [OF i(1,2) assms(2) that] i(3) by simp
  from own w(2) i(3) show ?thesis by (simp add: l)
qed

text \<open>
  C25. Whatever the command line is, \<open>kcndbd\<close> exits with a message or comes to its loop, and no assertion fails on the
  way: then the port is the one of the last \<open>-p\<close>, all of which are in the range, or 9410; the directory is the one of
  the last \<open>-d\<close>, however often it was given; there is one listening socket, and the descriptors
  have one owner each in every state its threads can reach.
\<close>

theorem kcndbd_starts:
  fixes argv :: "string list"
  defines "os \<equiv> fst (getopt ''d:fhp:v?'' argv)"
  shows "\<exists>r. kcndbd_main path sh sigs detached errs argv = Some r \<and>
    (\<forall>dir d. r = Inr (dir, d) \<longrightarrow>
      (\<forall>a. (CHR ''p'', a) \<in> set os \<longrightarrow> port_valid a) \<and>
      d_port d = KCN_HTONS (case last_arg CHR ''p'' os of None \<Rightarrow> 9410 | Some a \<Rightarrow> port_number a) \<and>
      dir = (case last_arg CHR ''d'' os of None \<Rightarrow> path | Some a \<Rightarrow> a) \<and>
      makes_fd False (sh_os sh) (Inr (d_socket d)) (sh_os (d_shared d)) \<and>
      (\<forall>ts sh'. threads_reach (thread_step False) (d_threads d, d_shared d) (ts, sh') \<longrightarrow>
         own_inv thread_fds (\<lambda>sh. open_fds (sh_os sh)) thread_ok (insert (nat (d_socket d)) (open_fds (sh_os sh))) (ts, sh')))"
proof -
  let ?opt = "\<lparr>do_path = path, do_dflag = False, do_fflag = False, do_log = - 1, do_server = kcndbd_init sh\<rparr>"
  let ?port = "case last_arg CHR ''p'' os of None \<Rightarrow> 9410 | Some a \<Rightarrow> port_number a"
  have "kcndbd_set sh 9410 path ?opt" by (simp add: kcndbd_set_def kcndbd_init_def)
  from kcndbd_options [OF this, of os] obtain r where r: "opt_loop kcndbd_option os ?opt = Some r"
    "\<And>opt. r = Inr opt \<Longrightarrow> (\<forall>a. (CHR ''p'', a) \<in> set os \<longrightarrow> port_valid a) \<and>
       kcndbd_set sh ?port (case last_arg CHR ''d'' os of None \<Rightarrow> path | Some a \<Rightarrow> a) opt" by blast
  obtain words where g: "getopt ''d:fhp:v?'' argv = (os, words)"
    by (cases "getopt ''d:fhp:v?'' argv") (simp add: os_def)
  show ?thesis
  proof (cases r)
    case (Inl msg)
    with r(1) show ?thesis unfolding kcndbd_main_def g by simp
  next
    case (Inr opt)
    note s = r(2) [OF Inr]
    then have i: "d_socket (do_server opt) = - 1" "length (d_threads (do_server opt)) = 8"
      by (simp_all add: kcndbd_set_def kcndbd_init_def kcndb_server_threads_def)
    show ?thesis
    proof (cases "kcn_signal_init sigs \<and> (do_fflag opt \<or> detached)")
      case False
      with r(1) Inr show ?thesis unfolding kcndbd_main_def g by auto
    next
      case True
      from server_start_cases [OF i, of errs] obtain ok d where d: "kcndb_server_start errs (do_server opt) = Some (ok, d)" by blast
      have m: "kcndbd_main path sh sigs detached errs argv =
          Some (if \<not> ok then Inl ''cannot launch server'' else Inr (kcndb_db_path_get opt, kcndb_server_loop d))"
        using r(1) Inr True d unfolding kcndbd_main_def g by auto
      show ?thesis
      proof (cases ok)
        case False
        with m show ?thesis by simp
      next
        case ok: True
        with d have st: "kcndb_server_start errs (do_server opt) = Some (True, d)" by simp
        from kcndbd_serves [OF conjunct2 [OF s] st] conjunct1 [OF s] conjunct2 [OF s] m ok show ?thesis
          by (simp add: kcndb_db_path_get_def kcndbd_set_def)
      qed
    qed
  qed
qed

theorem kcndbd_starts_witness:
  "\<exists>d. kcndbd_main ''/db'' std_shared True True [] [''-f'', ''-p8080'', ''-d'', ''/a'', ''-d'', ''/b''] = Some (Inr (''/b'', d)) \<and>
    d_port d = KCN_HTONS 8080 \<and> makes_fd False (sh_os std_shared) (Inr (d_socket d)) (sh_os (d_shared d))"
proof -
  let ?argv = "[''-f'', ''-p8080'', ''-d'', ''/a'', ''-d'', ''/b'']"
  have g: "getopt ''d:fhp:v?'' ?argv =
      ([(CHR ''f'', []), (CHR ''p'', ''8080''), (CHR ''d'', ''/a''), (CHR ''d'', ''/b'')], [])" by simp
  have p: "kcn_strtoull ''8080'' 1 65535 = Inr 8080"
    by (simp add: kcn_strtoull_def c_strtoll_def c_isspace_def c_isdigit_def char_code_def)
  let ?d0 = "(kcndbd_init std_shared)\<lparr>d_port := KCN_HTONS 8080\<rparr>"
  from start_calm [of "KCN_HTONS 8080"] obtain d where d: "kcndb_server_start [] ?d0 = Some (True, d)" by blast
  have m: "kcndbd_main ''/db'' std_shared True True [] ?argv = Some (Inr (''/b'', kcndb_server_loop d))"
    using d by (simp add: kcndbd_main_def g kcndbd_option_def p kcndb_server_port_set_def kcndb_db_path_set_def
        kcndb_db_path_get_def kcn_signal_init_def word_le_nat_alt del: getopt.simps)
  from kcndbd_starts [of "''/db''" std_shared True True "[]" ?argv] m show ?thesis
    by (simp add: g port_number_def p del: getopt.simps)
qed

end
