(* ===== verification/Kcn_Usage.thy ===== *)
theory Kcn_Usage
  imports Kcn_Main
begin

text \<open>
  What the programs print on the error stream: messages of the library (\<^verbatim>\<open>kcn_log.c\<close>, \<^verbatim>\<open>kcn_log.h\<close>) and the three
  texts of \<open>usage\<close>.
\<close>

section \<open>Messages\<close>

text \<open>
  \<open>out\<close> is \<open>fprintf\<close> on \<open>stderr\<close>: the text of a message with the name of its level in front, which the C library formats, and \<open>errno\<close> give the
  bytes that are written and a new \<open>errno\<close>.  The state is \<open>errno\<close> and what has been written.
\<close>

type_synonym err_out = "string \<Rightarrow> errno \<Rightarrow> string \<times> errno"

definition kcn_log :: "err_out \<Rightarrow> string \<Rightarrow> errno \<times> string \<Rightarrow> errno \<times> string" where
  "kcn_log out text' st =
     (let oerrno = fst st;
          (s, errno) = out text' oerrno;
          (nl, errno) = out ''\<newline>'' errno
      in (oerrno, snd st @ s @ nl))"

definition KCN_LOG_ISLOGGING :: "32 word \<Rightarrow> 32 word \<Rightarrow> bool" where
  "KCN_LOG_ISLOGGING kcn_log_priority p = (sint kcn_log_priority \<ge> sint p)"

definition KCN_LOG :: "32 word \<Rightarrow> 32 word \<Rightarrow> err_out \<Rightarrow> string \<Rightarrow> errno \<times> string \<Rightarrow> errno \<times> string" where
  "KCN_LOG kcn_log_priority p out text' st =
     (if KCN_LOG_ISLOGGING kcn_log_priority p then kcn_log out text' st else st)"

abbreviation (input) LOG_ERR :: "32 word" where "LOG_ERR \<equiv> 3"
abbreviation (input) LOG_DEBUG :: "32 word" where "LOG_DEBUG \<equiv> 7"

text \<open>A message changes nothing that the program reads, whatever writing it does; so the other theories leave them out.\<close>

lemma log_keeps_errno: "fst (KCN_LOG prio p out text' st) = fst st"
  by (simp add: KCN_LOG_def kcn_log_def Let_def split: prod.splits)

text \<open>
  The level begins at one below \<open>LOG_EMERG\<close> and every \<open>-v\<close> adds one: \<open>n\<close> of them reach the levels below \<open>n\<close>, so that
  messages of \<open>LOG_DEBUG\<close> take eight, one more than the texts of \<open>usage\<close> allow.
\<close>

lemma verbosity:
  assumes "n < 2 ^ 31"
  shows "sint ((kcn_log_priority_increment ^^ n) (- 1)) = int n - 1"
  using assms
proof (induction n)
  case (Suc n)
  let ?p = "(kcn_log_priority_increment ^^ n) (- 1)"
  from Suc have s: "sint ?p = int n - 1" by simp
  have "sint (?p + 1) = signed_take_bit 31 (sint ?p + 1)" by (simp add: sint_word_ariths)
  also have "\<dots> = int n" unfolding s using Suc.prems by (simp add: signed_take_bit_int_eq_self)
  finally have "sint (?p + 1) = int n" .
  with s have "kcn_log_priority_increment ?p = ?p + 1" by (simp add: kcn_log_priority_increment_def)
  with \<open>sint (?p + 1) = int n\<close> show ?case by simp
qed simp

lemma debug_takes_eight: "n < 2 ^ 31 \<Longrightarrow> KCN_LOG_ISLOGGING ((kcn_log_priority_increment ^^ n) (- 1)) LOG_DEBUG \<longleftrightarrow> 8 \<le> n"
  by (auto simp: KCN_LOG_ISLOGGING_def verbosity)

section \<open>Usage\<close>

abbreviation (input) TAB :: string where "TAB \<equiv> [CHR 0x09]"
abbreviation (input) QQ :: string where "QQ \<equiv> [CHR 0x27, CHR 0x27]"

definition text_lines :: "string list \<Rightarrow> string" where
  "text_lines ls = concat (map (\<lambda>l. l @ ''\<newline>'') ls)"

text \<open>\<open>None\<close> is a null pointer in the place of a message.  Formatted messages are arguments.\<close>

definition key2loc_usage :: "kcn_db list \<Rightarrow> string \<Rightarrow> string option \<Rightarrow> string" where
  \<open>key2loc_usage kds pname errmsg =
     (case errmsg of None \<Rightarrow> [] | Some msg \<Rightarrow> text_lines [''ERROR: '' @ msg, []]) @
     text_lines
      [''Usage: '' @ pname @ '' [-c country] [-i user IP] [-l loctype] [-n number] [-t type] [-v] <keyword1> [<keyword2>] [<keyword3>] ...'',
       [],
       ''Options:'',
       TAB @ ''-c country: a country code of locators in ISO 3166-1 (e.g., us, jp)'',
       TAB @ ''-i user IP: the IP address of this host'',
       TAB @ ''-l loctype: a type of locators returned'',
       TAB @ TAB @ ''domain: domain name'',
       TAB @ TAB @ ''URI: URI'',
       TAB @ TAB @ ''IP: IP address (not supported yet)'',
       TAB @ ''-n number: the maximum number of locators returned'',
       TAB @ ''-r count: repeat to query for ``count'' @ QQ @ '' times'',
       TAB @ ''-s server: KCN database server'',
       TAB @ ''-t type: a type of database listed below'',
       TAB @ ''-v: increment verbosity (can be specified 7 times at maximum)'',
       []] @
     text_lines [''Supported database types are:''] @
     kcn_db_name_list_puts kds TAB\<close>

definition type_list_puts :: string where
  "type_list_puts = text_lines (map (\<lambda>type. TAB @
     (case kcn_eq_type_ntoa type of Inl _ \<Rightarrow> ''(null)'' | Inr name \<Rightarrow> name)) (map of_nat [1..<8]))"

definition kcndbctl_usage :: "string \<Rightarrow> string option \<Rightarrow> string" where
  \<open>kcndbctl_usage pname err =
     (case err of None \<Rightarrow> [] | Some msg \<Rightarrow> ''ERROR: '' @ msg @ ''\<newline>'') @
     text_lines
      [''Usage: '' @ pname @ '' [-v] type value locator'',
       ''       '' @ pname @ '' [-v] -f filename type'',
       ''Options:'',
       TAB @ ''type: Database type.'',
       TAB @ ''value, locator: Send current data to a KCN database server.'',
       TAB @ TAB @ TAB @ ''Note that timestamp is computed at the server.'',
       TAB @ TAB @ TAB @ ''"value" and "locator" are same as below.'',
       TAB @ ''-f filename: Specify a file name, parse data, and send messages to'',
       TAB @ TAB @ ''     the server.  A file should be formatted as follows:'',
       [],
       TAB @ TAB @ ''          timestamp value locator'',
       [],
       TAB @ TAB @ TAB @ ''timestamp:'' @ TAB @ ''UTC time in second.'',
       TAB @ TAB @ TAB @ ''value:'' @ TAB @ TAB @ ''value of unsigned 64-bit integer.'',
       TAB @ TAB @ TAB @ ''locator:'' @ TAB @ ''FQDN or URI consisting of printable'',
       TAB @ TAB @ TAB @ TAB @ TAB @ ''characters.'',
       '' '' @ TAB @ ''-v: Increment verbosity (can be specified 7 times at maximum).'',
       [],
       ''Supported database types are:''] @
     type_list_puts\<close>

text \<open>\<open>strerror\<close> is the one of the C library; the error that is printed is the last one of any call.\<close>

definition kcndbd_usage :: "(errno \<Rightarrow> string) \<Rightarrow> errno \<Rightarrow> string \<Rightarrow> string option \<Rightarrow> string" where
  \<open>kcndbd_usage strerror errno pname err =
     (case err of None \<Rightarrow> []
      | Some msg \<Rightarrow> ''ERROR: '' @ msg @ (if errno \<noteq> 0 then '': '' @ strerror errno else []) @ ''\<newline>'' @ ''\<newline>'') @
     text_lines
      [''Usage: '' @ pname @ '' [-d directory] [-h] [-p port] [-v] ...'',
       [],
       ''Options:'',
       TAB @ ''-d: databse directory (default '' @ ''/var/db/kcndb'' @ '')'',
       TAB @ ''-f: do not daemonize'',
       TAB @ ''-h: print this messsage'',
       TAB @ ''-p: TCP listen port number (default '' @ ''9410'' @ '')'',
       TAB @ ''-v: increment verbosity (can be specified 7 times at maximum)'',
       []]\<close>

text \<open>\<open>kcndbctl\<close> lists exactly the words that it takes for a type; \<open>key2loc\<close> lists databases that it finds.\<close>

lemma type_list: "type_list_puts = text_lines (map ((@) TAB) [''storage'', ''cpu'', ''traffic'', ''rtt'', ''hopcount'', ''aspathlen'', ''wlanassoc''])"
  by (simp add: type_list_puts_def kcn_eq_type_ntoa_def kcn_eq_type_names_def upt_rec word_le_nat_alt)

lemma listed_databases_found: "kd \<in> set kds \<Longrightarrow> kcn_db_exists kds (kd_name kd)"
  unfolding kcn_db_exists_def by (induction kds) (auto simp: strcasecmp_eq_def)

end
