(* ===== verification/Kcn_Main_Spec.thy ===== *)
theory Kcn_Main_Spec
  imports Kcn_Main
begin

text \<open>
  What \<^verbatim>\<open>key2loc\<close> and \<^verbatim>\<open>kcndbctl\<close> do for their arguments: which database answers the keys and what is printed,
  and how a value on the command line becomes a record of the daemon.
\<close>

section \<open>The database of a search\<close>

lemma key2loc_dbs_list: "key2loc_dbs net web = Some [kcn_netstat 1 net, kcn_google 2 web]"
  by (simp add: key2loc_dbs_def kcn_netstat_init_def kcn_google_init_def) (simp add: kcn_netstat_def kcn_google_def)

text \<open>Whether the daemon is asked: by the name after \<open>-t\<close>, or else by the words of the keys.\<close>

definition asks_daemon :: "key2loc_opts \<Rightarrow> string list \<Rightarrow> bool" where
  "asks_daemon opt keyv =
     (case ko_db opt of
        None \<Rightarrow> \<exists>w \<in> set netstat_words. strcasestr_found (join_keys keyv) w
      | Some name \<Rightarrow> strcasecmp_eq ''net'' name)"

definition db_known :: "string option \<Rightarrow> bool" where
  "db_known db \<longleftrightarrow> (\<forall>name. db = Some name \<longrightarrow> strcasecmp_eq ''net'' name \<or> strcasecmp_eq ''google'' name)"

lemma db_search_named:
  assumes "kcn_info_db ki = Some name" "db_known (Some name)"
  shows "kcn_db_search [kcn_netstat 1 net, kcn_google 2 web] errno ki keys =
    (if strcasecmp_eq ''net'' name then net errno ki keys else web errno ki keys)"
  using assms by (auto simp: kcn_db_search_def kcn_netstat_def kcn_google_def db_known_def)

lemma strcasecmp_length: "strcasecmp_eq s t \<Longrightarrow> length s = length t"
  unfolding strcasecmp_eq_def by (metis length_map)

text \<open>The longest name fits exactly into the structure.\<close>

lemma db_name_kept:
  assumes "db_known db"
  shows "kcn_info_db (kcn_info_db_set ki db) = db"
proof (cases db)
  case None
  then show ?thesis by (simp add: kcn_info_db_set_def kcn_info_db_unset_def kcn_info_db_def)
next
  case (Some name)
  with assms have "length name = 3 \<or> length name = 6"
    by (auto simp: db_known_def dest!: strcasecmp_length)
  then have "name \<noteq> []" "take 6 name = name" by auto
  with Some show ?thesis
    by (simp add: kcn_info_db_set_def kcn_info_db_unset_def kcn_info_db_def c_strlcpy_def Let_def)
qed

lemma option_db_known:
  assumes "key2loc_option [kcn_netstat 1 net, kcn_google 2 web] x opt = Some (Inr opt')" "db_known (ko_db opt)"
  shows "db_known (ko_db opt')"
  using assms
  by (cases x) (auto simp: key2loc_option_def kcn_db_exists_def kcn_netstat_def kcn_google_def db_known_def split: if_splits)

lemma opt_loop_keeps:
  assumes "\<And>x opt opt'. f x opt = Some (Inr opt') \<Longrightarrow> P opt \<Longrightarrow> P opt'" "opt_loop f os opt = Some (Inr opt')" "P opt"
  shows "P opt'"
  using assms(2,3)
proof (induction os arbitrary: opt)
  case (Cons x os)
  then obtain opt1 where o: "f x opt = Some (Inr opt1)" "opt_loop f os opt1 = Some (Inr opt')"
    by (auto split: option.splits sum.splits)
  from Cons.IH [OF o(2) assms(1) [OF o(1) Cons.prems(2)]] show ?case .
qed simp

lemma options_db_known:
  assumes "opt_loop (key2loc_option [kcn_netstat 1 net, kcn_google 2 web]) os opt = Some (Inr opt')" "db_known (ko_db opt)"
  shows "db_known (ko_db opt')"
  using option_db_known assms by (rule opt_loop_keeps [where P = "\<lambda>opt. db_known (ko_db opt)"])

lemma option_loctype:
  "key2loc_option kds x opt = Some (Inr opt') \<Longrightarrow> ko_loctype opt \<le> 1 \<Longrightarrow> ko_loctype opt' \<le> 1"
  by (cases x) (auto simp: key2loc_option_def split: if_splits)

lemma options_loctype:
  assumes "opt_loop (key2loc_option kds) os key2loc_defaults = Some (Inr opt)"
  shows "ko_loctype opt \<le> 1"
proof -
  have d: "ko_loctype key2loc_defaults \<le> 1" by (simp add: key2loc_defaults_def)
  from option_loctype assms d show ?thesis by (rule opt_loop_keeps [where P = "\<lambda>opt. ko_loctype opt \<le> 1"])
qed

lemma options_total: "\<exists>r. opt_loop (key2loc_option kds) os opt = Some r"
proof (induction os arbitrary: opt)
  case (Cons x os)
  have "\<exists>r. key2loc_option kds x opt = Some r" by (cases x) (simp add: key2loc_option_def)
  then obtain r where r: "key2loc_option kds x opt = Some r" by blast
  with Cons show ?case by (cases r) auto
qed simp

section \<open>What key2loc prints\<close>

lemma getopt_word_words: "set (snd (getopt_word opts cs args)) \<subseteq> set args"
  by (induction opts cs args rule: getopt_word.induct) (auto split: option.splits opt_kind.splits prod.splits list.splits)

lemma getopt_words: "set (snd (getopt opts argv)) \<subseteq> set argv"
proof (induction opts argv rule: getopt.induct)
  case (2 opts a args)
  obtain os rest where w: "getopt_word opts (tl a) args = (os, rest)" by (cases "getopt_word opts (tl a) args")
  obtain os1 words1 where g1: "getopt opts rest = (os1, words1)" by (cases "getopt opts rest")
  obtain os2 words2 where g2: "getopt opts args = (os2, words2)" by (cases "getopt opts args")
  from getopt_word_words [of opts "tl a" args] w have "set rest \<subseteq> set args" by simp
  with 2 w g1 g2 show ?case by (auto split: if_splits)
qed simp

abbreviation (input) printed :: "kcn_info \<Rightarrow> byte list list" where
  "printed ki \<equiv> map (\<lambda>l. takeWhile (\<lambda>b. b \<noteq> 0) (kl_uri l)) (ki_locs ki)"

lemma print_all: "n \<le> kcn_info_nlocs ki \<Longrightarrow> key2loc_print ki n = drop (kcn_info_nlocs ki - n) (printed ki)"
proof (induction n)
  case 0
  then show ?case by (simp add: kcn_info_nlocs_def)
next
  case (Suc n)
  let ?m = "kcn_info_nlocs ki - Suc n"
  from Suc.prems have m: "?m < length (printed ki)" "Suc ?m = kcn_info_nlocs ki - n" by (simp_all add: kcn_info_nlocs_def)
  from Cons_nth_drop_Suc [OF m(1)] m have "drop ?m (printed ki) = printed ki ! ?m # drop (kcn_info_nlocs ki - n) (printed ki)" by simp
  with Suc m(1) show ?case by (simp add: kcn_info_loc_def kcn_info_nlocs_def)
qed

text \<open>The information before each search, as the options have set it.\<close>

definition key2loc_info :: "key2loc_opts \<Rightarrow> kcn_info" where
  "key2loc_info opt =
     \<lparr>ki_loctype = ko_loctype opt, ki_maxnlocs = size_of_int (ko_n opt),
      ki_dbname = (case ko_db opt of None \<Rightarrow> [] | Some name \<Rightarrow> take 6 name),
      ki_country = (case ko_country opt of None \<Rightarrow> [] | Some country \<Rightarrow> take 2 country),
      ki_userip = (case ko_userip opt of None \<Rightarrow> [] | Some userip \<Rightarrow> take 45 userip), ki_time = 0, ki_locs = []\<rparr>"

text \<open>
  A search returns, whatever \<open>errno\<close> is, with the result \<open>ok\<close> and the locators \<open>locs\<close> as they are
  printed, and it changes nothing else in the information.
\<close>

definition search_answers :: "kd_search_fun \<Rightarrow> kcn_info \<Rightarrow> string \<Rightarrow> bool \<Rightarrow> byte list list \<Rightarrow> bool" where
  "search_answers search ki keys ok locs \<longleftrightarrow>
     (\<forall>errno. \<exists>e ki'. search errno ki keys = Some (ok, e, ki') \<and> kcn_info_loc_free ki' = ki \<and> printed ki' = locs)"

lemma repeat_answers:
  assumes "\<forall>j errno. i \<le> j \<and> j < i + r \<longrightarrow> (\<exists>e ki'. kcn_searchv malloc (dbs j) errno ki0 keyv = Some (ok j, e, ki') \<and>
      kcn_info_loc_free ki' = ki0 \<and> printed ki' = locs j)"
    and "kcn_info_loc_free ki = ki0"
  shows "if \<forall>j. i \<le> j \<and> j < i + r \<longrightarrow> ok j
    then \<exists>ki'. key2loc_repeat malloc dbs keyv i r errno ki = Some (Inr ki') \<and>
      printed ki' = (if r = 0 then printed ki else locs (i + r - 1))
    else key2loc_repeat malloc dbs keyv i r errno ki = Some (Inl ''search failure'')"
  using assms
proof (induction r arbitrary: i errno ki)
  case 0
  then show ?case by simp
next
  case (Suc r)
  from Suc.prems(1) have "\<exists>e ki'. kcn_searchv malloc (dbs i) errno ki0 keyv = Some (ok i, e, ki') \<and>
      kcn_info_loc_free ki' = ki0 \<and> printed ki' = locs i" by (elim allE [of _ i] allE [of _ errno]) simp
  then obtain e ki1 where s: "kcn_searchv malloc (dbs i) errno ki0 keyv = Some (ok i, e, ki1)"
    "kcn_info_loc_free ki1 = ki0" "printed ki1 = locs i" by blast
  show ?case
  proof (cases "ok i")
    case False
    then have "\<not> (\<forall>j. i \<le> j \<and> j < i + Suc r \<longrightarrow> ok j)" by auto
    with False s(1) Suc.prems(2) show ?thesis by simp
  next
    case True
    have all: "(\<forall>j. i \<le> j \<and> j < i + Suc r \<longrightarrow> ok j) \<longleftrightarrow> (\<forall>j. Suc i \<le> j \<and> j < Suc i + r \<longrightarrow> ok j)"
      using True by (metis Suc_leD add_Suc_right add_Suc le_antisym not_less_eq_eq)
    have "\<forall>j errno. Suc i \<le> j \<and> j < Suc i + r \<longrightarrow> (\<exists>e ki'. kcn_searchv malloc (dbs j) errno ki0 keyv = Some (ok j, e, ki') \<and>
        kcn_info_loc_free ki' = ki0 \<and> printed ki' = locs j)" using Suc.prems(1) by simp
    from Suc.IH [OF this s(2), of e] True s show ?thesis
      unfolding all using Suc.prems(2) by (simp split: if_splits)
  qed
qed

text \<open>
  The number of \<open>-n\<close> is an \<open>int\<close> that is converted to \<open>size_t\<close>.  For a positive one the structure has its full size; for
  one from -5 to -1 the size wraps to at most 72 bytes, less than the fields of the structure need.
\<close>

lemma scast_int: "(scast (w :: 32 word) :: uint64) = word_of_int (sint w)"
  by (rule scast_eq)

lemma size_of_int_pos:
  assumes "0 < sint (w :: 32 word)"
  shows "0 < size_of_int w" "88 + 16 * size_of_int w < 2 ^ 64"
proof -
  have b: "sint w < 2147483648" using sint_less [of w] by simp
  have "int (size_of_int w) = uint (word_of_int (sint w) :: uint64)" unfolding size_of_int_def scast_int by (rule uint_nat [symmetric])
  also have "\<dots> = take_bit LENGTH(64) (sint w)" by (rule uint_word_of_int_eq)
  also have "\<dots> = sint w" using assms b by (intro take_bit_int_eq_self) simp_all
  finally have i: "int (size_of_int w) = sint w" .
  with assms show "0 < size_of_int w" by linarith
  from i b have "size_of_int w < 2147483648" by linarith
  then show "88 + 16 * size_of_int w < 2 ^ 64" by simp
qed

lemma sint_eq_zero: "sint (w :: 32 word) = 0 \<longleftrightarrow> w = 0"
  by (metis signed_0 signed_word_eqI)

lemma size_of_int_zero: "size_of_int w = 0 \<longleftrightarrow> w = 0"
proof
  assume "size_of_int w = 0"
  then have z: "(scast w :: uint64) = 0" unfolding size_of_int_def by (simp add: unat_eq_zero)
  have "bit w n = bit (scast w :: uint64) n" if "n < 32" for n using that by (simp add: bit_simps)
  then show "w = 0" unfolding z by (intro bit_word_eqI) simp
qed (simp add: size_of_int_def)

lemma size_wraps:
  assumes "- 6 < sint (w :: 32 word)" "sint w < 0"
  shows "kcn_info_size (size_of_int w) \<le> 72"
proof -
  have k: "kcn_info_size (size_of_int w) = unat (88 + 16 * word_of_int (sint w) :: uint64)"
    unfolding kcn_info_size_def size_of_int_def scast_int of_nat_unat ucast_id ..
  from assms have "sint w = - 1 \<or> sint w = - 2 \<or> sint w = - 3 \<or> sint w = - 4 \<or> sint w = - 5" by arith
  then show ?thesis unfolding k by (elim disjE) simp_all
qed

lemma key2loc_setup:
  assumes "0 < sint (ko_n opt)" "ko_country opt \<noteq> Some []" "db_known (ko_db opt)"
  shows "\<exists>ki1 ki2. kcn_info_new True (ko_loctype opt) (size_of_int (ko_n opt)) = Some (Some ki1) \<and>
    kcn_info_country_set (kcn_info_db_set ki1 (ko_db opt)) (ko_country opt) = Some ki2 \<and>
    kcn_info_userip_set ki2 (ko_userip opt) = key2loc_info opt"
  using size_of_int_pos [OF assms(1)] info_size_exact [OF size_of_int_pos(2) [OF assms(1)]] assms(2)
  by (cases "ko_db opt"; cases "ko_country opt"; cases "ko_userip opt")
    (simp_all add: kcn_info_new_def kcn_info_country_set_def kcn_info_db_set_def kcn_info_db_unset_def kcn_info_userip_set_def
      key2loc_info_def c_strlcpy_def Let_def)

lemma key2loc_info_db:
  assumes "db_known (ko_db opt)" shows "kcn_info_db (key2loc_info opt) = ko_db opt"
proof -
  have "kcn_info_db (key2loc_info opt) = kcn_info_db (kcn_info_db_set (key2loc_info opt) (ko_db opt))"
    by (simp add: key2loc_info_def kcn_info_db_def kcn_info_db_set_def kcn_info_db_unset_def c_strlcpy_def Let_def split: option.split)
  with db_name_kept [OF assms] show ?thesis by simp
qed

lemma key2loc_faults:
  assumes "ko_n opt = 0 \<or> ki_new \<and> (- 6 < sint (ko_n opt) \<and> sint (ko_n opt) < 0 \<or> ko_country opt = Some [])"
  shows "key2loc_doit ki_new malloc dbs errno opt keyv = None"
proof (cases "- 6 < sint (ko_n opt) \<and> sint (ko_n opt) < 0")
  case True
  with size_wraps [of "ko_n opt"] assms show ?thesis by (auto simp: key2loc_doit_def kcn_info_new_def)
next
  case False
  with assms show ?thesis
    by (auto simp: key2loc_doit_def kcn_info_new_def kcn_info_country_set_def size_of_int_zero)
qed

lemma key2loc_no_memory:
  "ko_n opt \<noteq> 0 \<Longrightarrow> key2loc_doit False malloc dbs errno opt keyv = Some (Inl ''cannot allocate KCN information structure'')"
  using size_of_int_zero [of "ko_n opt"] by (simp add: key2loc_doit_def kcn_info_new_def)

lemma doit_answers:
  assumes "char_alloc_ok malloc" "\<forall>n. malloc n \<noteq> None" "keyv \<noteq> []" "\<forall>k \<in> set keyv. NUL \<notin> set k"
    and "0 < sint (ko_n opt)" "ko_country opt \<noteq> Some []" "db_known (ko_db opt)"
    and "\<forall>i < ko_r opt. search_answers (if asks_daemon opt keyv then net i else web i)
      (key2loc_info opt) (join_keys keyv) (ok i) (locs i)"
  shows "key2loc_doit True malloc (\<lambda>i. [kcn_netstat 1 (net i), kcn_google 2 (web i)]) errno opt keyv =
    Some (if \<forall>i < ko_r opt. ok i then Inr (if ko_r opt = 0 then [] else locs (ko_r opt - 1)) else Inl ''search failure'')"
proof -
  let ?dbs = "\<lambda>i. [kcn_netstat 1 (net i), kcn_google 2 (web i)]" and ?ki = "key2loc_info opt" and ?keys = "join_keys keyv"
  have db: "kcn_db_search (?dbs i) errno ?ki ?keys =
      (if asks_daemon opt keyv then net i else web i) (if ko_db opt = None then 0 else errno) ?ki ?keys" for i errno
    using db_search_unnamed [of ?ki 1 "net i" 2 "web i" errno ?keys] db_search_named [of ?ki _ "net i" "web i" errno ?keys]
      key2loc_info_db [OF assms(7)] assms(7) by (cases "ko_db opt") (auto simp: asks_daemon_def)
  have all: "\<forall>j errno. 0 \<le> j \<and> j < 0 + ko_r opt \<longrightarrow> (\<exists>e ki'. kcn_searchv malloc (?dbs j) errno ?ki keyv = Some (ok j, e, ki') \<and>
      kcn_info_loc_free ki' = ?ki \<and> printed ki' = locs j)"
  proof (intro allI impI)
    fix j errno assume "0 \<le> j \<and> j < 0 + ko_r opt"
    with assms(8) have "search_answers (if asks_daemon opt keyv then net j else web j) ?ki ?keys (ok j) (locs j)" by simp
    then show "\<exists>e ki'. kcn_searchv malloc (?dbs j) errno ?ki keyv = Some (ok j, e, ki') \<and>
        kcn_info_loc_free ki' = ?ki \<and> printed ki' = locs j"
      unfolding searchv_joins [OF assms(1) spec [OF assms(2)] assms(3,4)] db search_answers_def by (rule spec)
  qed
  have free: "kcn_info_loc_free ?ki = ?ki" "printed ?ki = []" by (simp_all add: key2loc_info_def kcn_info_loc_free_def)
  from key2loc_setup [OF assms(5-7)] obtain ki1 ki2 where
    i: "kcn_info_new True (ko_loctype opt) (size_of_int (ko_n opt)) = Some (Some ki1)"
      "kcn_info_country_set (kcn_info_db_set ki1 (ko_db opt)) (ko_country opt) = Some ki2"
      "kcn_info_userip_set ki2 (ko_userip opt) = ?ki" by blast
  have pr: "key2loc_print ki (kcn_info_nlocs ki) = printed ki" for ki using print_all [of "kcn_info_nlocs ki" ki] by simp
  have d: "key2loc_doit True malloc ?dbs errno opt keyv = map_option
      (\<lambda>r. case r of Inl msg \<Rightarrow> Inl msg | Inr ki \<Rightarrow> Inr (printed ki)) (key2loc_repeat malloc ?dbs keyv 0 (ko_r opt) errno ?ki)"
    using i by (simp add: key2loc_doit_def pr map_option_case split: option.split sum.split)
  from repeat_answers [OF all free(1), of errno] show ?thesis
    unfolding d using free(2) by (auto split: if_splits)
qed

section \<open>A measurement from the command line\<close>

lemma getopt_plain:
  assumes "\<forall>a \<in> set argv. \<not> (1 < length a \<and> hd a = CHR ''-'')"
  shows "getopt opts argv = ([], argv)"
  using assms by (induction opts argv rule: getopt.induct) auto

lemma decimal_plain: "\<not> (1 < length (decimal n) \<and> hd (decimal n) = CHR ''-'')"
proof -
  obtain c s where d: "decimal n = c # s" using decimal_not_Nil by (cases "decimal n") auto
  with decimal_digits [of n] have "c_isdigit c" by simp
  with d digit_not_space [of c] show ?thesis by simp
qed

lemma kcndbctl_value:
  assumes "alloc_total (ce_malloc env)" "kcn_client_init env = Some (Inr kn)" "ce_everrs env = []"
    and "kcn_eq_type_aton name = Inr type" "n < 2 ^ 63" "length loc \<le> KCN_MSG_MAXLOCSIZ"
    and "\<not> (1 < length name \<and> hd name = CHR ''-'')" "\<not> (1 < length loc \<and> hd loc = CHR ''-'')"
  shows "\<exists>kn'. obytes kn' = add_msg \<lparr>kma_type = type, kma_time = KCN_TIME_NOW, kma_val = of_nat n, kma_loc = map of_char loc, kma_loclen = length loc\<rparr> \<and>
    kcndbctl_main True env files dispatch [name, decimal n, loc] =
      map_option (\<lambda>ok. Inr (if ok then 0 else 1)) (dispatch kn')"
proof -
  let ?kma = "\<lparr>kma_type = type, kma_time = KCN_TIME_NOW, kma_val = of_nat n, kma_loc = map of_char loc, kma_loclen = length loc\<rparr> :: kcn_msg_add"
  obtain sk where "kcn_net_new (ce_kn_new env) (ce_malloc env) (ce_base_set env) (ce_everrs env) sk KCN_MSG_MAXSIZ (ce_ntoa env) = Some (Some kn)"
    using assms(2) by (auto simp: kcn_client_init_def split: sum.splits option.splits bind_splits)
  from net_new_ok [OF alloc_total_ok [OF assms(1)] this] assms(3) have "can_send kn \<and> obytes kn = []"
    by (simp add: can_send_def net_inv_def obytes_def)
  from add_send_ok [OF conjunct1 [OF this] assms(1), of ?kma] assms(6) this obtain kn' where
    s: "kcn_client_add_send (ce_malloc env) kn ?kma = Some (Inr (), kn')" "obytes kn' = add_msg ?kma" by auto
  have v: "kcn_strtoull (decimal n) 0 ULLONG_MAX = Inr (of_nat n)" using assms(5) by (intro strtoull_decimal_small) simp_all
  have g: "getopt ''f:hv?'' [name, decimal n, loc] = ([], [name, decimal n, loc])"
    using assms(7,8) decimal_plain [of n] by (intro getopt_plain) simp
  have "kcndbctl_main True env files dispatch [name, decimal n, loc] =
      map_option Inr (kcndbctl_msg_add_send (ce_malloc env) dispatch type kn (decimal n) loc)"
    using assms(2,4) unfolding kcndbctl_main_def g by simp
  also have "\<dots> = map_option (\<lambda>ok. Inr (if ok then 0 else 1)) (dispatch kn')"
    using s(1) by (simp add: kcndbctl_msg_add_send_def v) (cases "dispatch kn'"; simp)
  finally show ?thesis using s(2) by blast
qed

section \<open>Properties\<close>

lemma key2loc_runs:
  fixes net :: "string option \<Rightarrow> nat \<Rightarrow> kd_search_fun" and web :: "nat \<Rightarrow> kd_search_fun"
  assumes "getopt ''c:hi:n:l:r:s:t:v?'' argv = (os, keyv)" "keyv \<noteq> []" "\<forall>a \<in> set argv. NUL \<notin> set a"
    and "opt_loop (key2loc_option [kcn_netstat 1 (net None 0), kcn_google 2 (web 0)]) os key2loc_defaults = Some (Inr opt)"
    and "char_alloc_ok malloc" "\<forall>n. malloc n \<noteq> None"
    and "\<forall>i < ko_r opt. search_answers (if asks_daemon opt keyv then net (ko_server opt) i else web i)
      (key2loc_info opt) (join_keys keyv) (ok i) (locs i)"
    and "sint (ko_n opt) < - 5 \<longrightarrow> \<not> ki_new"
  shows "key2loc_main ki_new malloc net web errno argv =
    (if ko_n opt = 0 then None
     else if \<not> ki_new then Some (Inl ''cannot allocate KCN information structure'')
     else if sint (ko_n opt) < 0 \<or> ko_country opt = Some [] then None
     else Some (if \<forall>i < ko_r opt. ok i then Inr (if ko_r opt = 0 then [] else locs (ko_r opt - 1)) else Inl ''search failure''))"
proof -
  have m: "key2loc_main ki_new malloc net web errno argv = key2loc_doit ki_new malloc
      (\<lambda>i. [kcn_netstat 1 (net (ko_server opt) i), kcn_google 2 (web i)]) errno opt keyv"
    using assms(1,2,4) by (simp add: key2loc_main_def key2loc_dbs_list Suc_le_eq)
  have n: "\<forall>k \<in> set keyv. NUL \<notin> set k" using getopt_words [of "''c:hi:n:l:r:s:t:v?''" argv] assms(1,3) by auto
  have "db_known (ko_db key2loc_defaults)" by (simp add: db_known_def key2loc_defaults_def)
  with assms(4) have db: "db_known (ko_db opt)" by (rule options_db_known)
  consider "ko_n opt = 0" | "ko_n opt \<noteq> 0" "\<not> ki_new" | "ko_n opt \<noteq> 0" "ki_new" "sint (ko_n opt) < 0 \<or> ko_country opt = Some []"
    | "ki_new" "0 < sint (ko_n opt)" "ko_country opt \<noteq> Some []"
    by (metis linorder_neqE_linordered_idom sint_eq_zero)
  then show ?thesis
  proof cases
    case 1
    with key2loc_faults [of opt ki_new] m show ?thesis by simp
  next
    case 2
    with key2loc_no_memory [OF 2(1)] m show ?thesis by simp
  next
    case 3
    with assms(8) have "ki_new \<and> (- 6 < sint (ko_n opt) \<and> sint (ko_n opt) < 0 \<or> ko_country opt = Some [])" by auto
    with key2loc_faults [of opt ki_new] m 3 show ?thesis by simp
  next
    case 4
    from doit_answers [OF assms(5,6,2) n 4(2,3) db assms(7)] m 4 show ?thesis by auto
  qed
qed

text \<open>
  C11. Let the command line of \<^verbatim>\<open>key2loc\<close> be valid and have keywords.  A maximum of zero, which is also what a
  word that is no number gives, and an empty country code fail an assertion.  A maximum from -5 to -1 wraps the size of
  the structure, and its fields are written behind the block; one below -5 asks for nearly the whole address space, which is assumed
  to fail, with a message.  Otherwise the keys, joined by
  spaces, are searched \<open>-r\<close> times in one database: the daemon's if it is named, or if none is named and a word of
  the daemon occurs in the keys, and the web search in all other cases; with the settings of the options each time.
  The first search that fails ends the program with a message and exit status 1, and nothing is printed; if all
  succeed, the locators of the last one are printed in order.
\<close>

theorem key2loc_answers:
  fixes net :: "string option \<Rightarrow> nat \<Rightarrow> kd_search_fun" and web :: "nat \<Rightarrow> kd_search_fun"
  assumes "getopt ''c:hi:n:l:r:s:t:v?'' argv = (os, keyv)" "keyv \<noteq> []" "\<forall>a \<in> set argv. NUL \<notin> set a"
    and "opt_loop (key2loc_option [kcn_netstat 1 (net None 0), kcn_google 2 (web 0)]) os key2loc_defaults = Some (Inr opt)"
    and "char_alloc_ok malloc" "\<forall>n. malloc n \<noteq> None"
    and "\<forall>i < ko_r opt. search_answers (if asks_daemon opt keyv then net (ko_server opt) i else web i)
      (key2loc_info opt) (join_keys keyv) (ok i) (locs i)"
    and "sint (ko_n opt) < - 5 \<longrightarrow> \<not> ki_new"
  shows "key2loc_main ki_new malloc net web errno argv =
    (if ko_n opt = 0 then None
     else if \<not> ki_new then Some (Inl ''cannot allocate KCN information structure'')
     else if sint (ko_n opt) < 0 \<or> ko_country opt = Some [] then None
     else Some (if \<forall>i < ko_r opt. ok i then Inr (if ko_r opt = 0 then [] else locs (ko_r opt - 1)) else Inl ''search failure''))"
  using assms by (rule key2loc_runs)

text \<open>A web search that finds one locator, and the daemon that has lost the connection.\<close>

definition web_one :: kd_search_fun where
  "web_one errno ki keys = Some (True, errno, ki\<lparr>ki_locs := [\<lparr>kl_uri = [97, 46, 98, 0], kl_score = 0\<rparr>]\<rparr>)"

theorem key2loc_answers_witness:
  "key2loc_main True nul_malloc (\<lambda>_ _ errno ki keys. Some (False, 32, ki)) (\<lambda>_. web_one) 0 [''-n5'', ''foo'', ''-r2''] =
     Some (Inr [[97, 46, 98]]) \<and>
   key2loc_main True nul_malloc (\<lambda>_ _ errno ki keys. Some (False, 32, ki)) (\<lambda>_. web_one) 0 [''foo'', ''-n'', ''x''] = None \<and>
   key2loc_main True nul_malloc (\<lambda>_ _ errno ki keys. Some (False, 32, ki)) (\<lambda>_. web_one) 0 [''-n-1'', ''foo''] = None \<and>
   key2loc_main True nul_malloc (\<lambda>_ _ errno ki keys. Some (False, 32, ki)) (\<lambda>_. web_one) 0 [''-tNET'', ''foo''] =
     Some (Inl ''search failure'')"
proof -
  let ?net = "(\<lambda>_ _ errno ki keys. Some (False, 32, ki)) :: string option \<Rightarrow> nat \<Rightarrow> kd_search_fun" and ?web = "\<lambda>_ :: nat. web_one"
  let ?kds = "[kcn_netstat 1 (?net None 0), kcn_google 2 (?web 0)]"
  have g: "getopt ''c:hi:n:l:r:s:t:v?'' [''-n5'', ''foo'', ''-r2''] = ([(CHR ''n'', ''5''), (CHR ''r'', ''2'')], [''foo''])"
    "getopt ''c:hi:n:l:r:s:t:v?'' [''foo'', ''-n'', ''x''] = ([(CHR ''n'', ''x'')], [''foo''])"
    "getopt ''c:hi:n:l:r:s:t:v?'' [''-tNET'', ''foo''] = ([(CHR ''t'', ''NET'')], [''foo''])"
    "getopt ''c:hi:n:l:r:s:t:v?'' [''-n-1'', ''foo''] = ([(CHR ''n'', ''-1'')], [''foo''])" by simp_all
  have a: "c_atoi ''5'' = 5" "c_atoi ''2'' = 2" "c_atoi ''x'' = 0" "c_atoi ''-1'' = - 1" by code_simp+
  have z: "size_of_int 5 = 5" "size_of_int 2 = 2" "size_of_int 0 = 0" "size_of_int 1 = 1" by code_simp+
  have c: "strcasecmp_eq ''net'' ''NET''" "\<not> (\<exists>w \<in> set netstat_words. strcasestr_found ''foo'' w)" by code_simp+
  have o: "opt_loop (key2loc_option ?kds) [(CHR ''n'', ''5''), (CHR ''r'', ''2'')] key2loc_defaults =
      Some (Inr (key2loc_defaults\<lparr>ko_n := 5, ko_r := 2\<rparr>))"
    "opt_loop (key2loc_option ?kds) [(CHR ''n'', ''x'')] key2loc_defaults = Some (Inr (key2loc_defaults\<lparr>ko_n := 0, ko_r := 1\<rparr>))"
    "opt_loop (key2loc_option ?kds) [(CHR ''t'', ''NET'')] key2loc_defaults = Some (Inr (key2loc_defaults\<lparr>ko_db := Some ''NET''\<rparr>))"
    "opt_loop (key2loc_option ?kds) [(CHR ''n'', ''-1'')] key2loc_defaults = Some (Inr (key2loc_defaults\<lparr>ko_n := - 1, ko_r := 1\<rparr>))"
    using c(1) by (simp_all add: key2loc_option_def key2loc_defaults_def a z kcn_db_exists_def kcn_netstat_def)
  have d: "asks_daemon (key2loc_defaults\<lparr>ko_db := Some ''NET''\<rparr>) keyv"
    "\<not> asks_daemon (key2loc_defaults\<lparr>ko_n := k, ko_r := r\<rparr>) [''foo'']" for keyv k r
    using c by (simp_all add: asks_daemon_def key2loc_defaults_def)
  have w: "search_answers web_one (key2loc_info opt) keys True [[97, 46, 98]]"
    "search_answers (?net s i) (key2loc_info opt) keys False []" for opt keys s i
    by (simp_all add: search_answers_def web_one_def key2loc_info_def kcn_info_loc_free_def)
  have s: "\<forall>a \<in> set argv. NUL \<notin> set a" if "argv \<in> {[''-n5'', ''foo'', ''-r2''], [''foo'', ''-n'', ''x''], [''-tNET'', ''foo''], [''-n-1'', ''foo'']}" for argv
    using that by auto
  note k = key2loc_answers [where net = ?net and web = ?web and malloc = nul_malloc and errno = 0]
  show ?thesis
  proof (intro conjI)
    show "key2loc_main True nul_malloc ?net ?web 0 [''-n5'', ''foo'', ''-r2''] = Some (Inr [[97, 46, 98]])"
      using k [OF g(1) _ s o(1) nul_malloc_ok, where ok = "\<lambda>_. True" and locs = "\<lambda>_. [[97, 46, 98]]" and ki_new = True]
      by (simp add: d w z nul_malloc_def) (simp add: key2loc_defaults_def)
    show "key2loc_main True nul_malloc ?net ?web 0 [''foo'', ''-n'', ''x''] = None"
      using k [OF g(2) _ s o(2) nul_malloc_ok, where ok = "\<lambda>_. True" and locs = "\<lambda>_. [[97, 46, 98]]" and ki_new = True]
      by (simp add: d w z nul_malloc_def)
    show "key2loc_main True nul_malloc ?net ?web 0 [''-n-1'', ''foo''] = None"
      using k [OF g(4) _ s o(4) nul_malloc_ok, where ok = "\<lambda>_. True" and locs = "\<lambda>_. [[97, 46, 98]]" and ki_new = True]
      by (simp add: d w z nul_malloc_def)
    show "key2loc_main True nul_malloc ?net ?web 0 [''-tNET'', ''foo''] = Some (Inl ''search failure'')"
      using k [OF g(3) _ s o(3) nul_malloc_ok, where ok = "\<lambda>_. False" and locs = "\<lambda>_. []" and ki_new = True]
      by (simp add: d w z nul_malloc_def) (simp add: key2loc_defaults_def z)
  qed
qed

text \<open>
  C10. \<^verbatim>\<open>kcndbctl\<close> with a type, a decimal number and a locator sends one message and exits with the result of
  its event loop.  The daemon that receives the message appends the measurement, at the time of
  its own clock, to the table of the type, if the table takes it.
\<close>

theorem record_end_to_end:
  fixes type :: c_enum and loc :: string and n :: nat and tm :: time_t
  defines "i \<equiv> TYPE2INDEX type" and "val \<equiv> of_nat n :: uint64"
  defines "r \<equiv> \<lparr>kdr_time = tm, kdr_val = val, kdr_locidx = 0, kdr_loc = map of_char loc, kdr_loclen = length loc\<rparr>"
  assumes "alloc_total (ce_malloc env)" "kcn_client_init env = Some (Inr kn)" "ce_everrs env = []"
    and "kcn_eq_type_aton name = Inr type" "n < 2 ^ 63"
    and "\<not> (1 < length name \<and> hd name = CHR ''-'')" "\<not> (1 < length loc \<and> hd loc = CHR ''-'')"
    and "i < length bases" "i < length kd" "add_ready (bases ! i) (kd ! i) D L"
    and "record_fits D L r" "loc_effect L (map of_char loc) idx L'"
  shows "\<exists>sent. kcndbctl_main True env files dispatch [name, decimal n, loc] = map_option (\<lambda>ok. Inr (if ok then 0 else 1)) (dispatch sent) \<and>
    (\<forall>dkn pre post. kn_ibuf dkn = zbuf pre [] (obytes sent) post \<longrightarrow>
      (\<exists>dkn' kdb kdt. kcndb_server_recv malloc (Inr tm) dkn (bases, kd) = Some (EAGAIN, dkn', bases[i := kdb], kd[i := kdt]) \<and>
         add_ready kdb kdt (D @ record_bytes (r\<lparr>kdr_locidx := idx\<rparr>)) L')) \<and>
    contents (D @ record_bytes (r\<lparr>kdr_locidx := idx\<rparr>)) L' = contents D L @ [(tm, val, map of_char loc)]"
proof -
  let ?kma = "\<lparr>kma_type = type, kma_time = KCN_TIME_NOW, kma_val = val, kma_loc = map of_char loc, kma_loclen = length loc\<rparr> :: kcn_msg_add"
  have r: "add_record tm ?kma = r" by (simp add: add_record_def r_def)
  have l: "length loc \<le> KCN_MSG_MAXLOCSIZ" using assms(14) by (simp add: record_fits_def r_def)
  from kcndbctl_value [OF assms(4-8) l assms(9,10)] obtain sent where
    s: "obytes sent = add_msg ?kma"
      "kcndbctl_main True env files dispatch [name, decimal n, loc] = map_option (\<lambda>ok. Inr (if ok then 0 else 1)) (dispatch sent)"
    unfolding val_def by blast
  have "type < 256" using type_aton_range [OF assms(7)] by (auto intro: le_less_trans)
  have serve: "\<exists>dkn' kdb kdt. kcndb_server_recv malloc (Inr tm) dkn (bases, kd) = Some (EAGAIN, dkn', bases[i := kdb], kd[i := kdt]) \<and>
      add_ready kdb kdt (D @ record_bytes (r\<lparr>kdr_locidx := idx\<rparr>)) L'" if "kn_ibuf dkn = zbuf pre [] (obytes sent) post" for dkn pre post
  proof -
    from that s(1) have ib: "kn_ibuf dkn = zbuf pre [] (add_msg ?kma @ []) post" by simp
    from recv_add [OF ib, where now = "Inr tm" and tm = tm and bases = bases and kd = kd and D = D and L = L and L' = L' and idx = idx and malloc = malloc]
      \<open>type < 256\<close> assms(11-15)
    show ?thesis unfolding r by (auto simp: recv_empty i_def)
  qed
  have "contents (D @ record_bytes (r\<lparr>kdr_locidx := idx\<rparr>)) L' = contents D L @ [measurement r]"
    using assms(13-15) by (intro contents_add) (auto simp: add_ready_def record_fits_def r_def)
  then have "contents (D @ record_bytes (r\<lparr>kdr_locidx := idx\<rparr>)) L' = contents D L @ [(tm, val, map of_char loc)]"
    by (simp add: measurement_def r_def)
  with s(2) serve show ?thesis by blast
qed

text \<open>A connection that is established, for concrete executions.\<close>

definition connected_env :: client_env where
  "connected_env = \<lparr>ce_event_init = Inr (), ce_aton = Inr (),
     ce_connect = Inr \<lparr>sk_rx = [], sk_eof = False, sk_tx = [], sk_sys = []\<rparr>, ce_ntoa = ''127.0.0.1/9410'',
     ce_kn_new = True, ce_malloc = zero_malloc, ce_base_set = True, ce_everrs = [], ce_new_errno = 0, ce_read_errno = 0,
     ce_dispatch = write_event_only\<rparr>"

theorem record_end_to_end_witness:
  "\<forall>files malloc. kcndbctl_main True connected_env files (\<lambda>_. Some True) [''storage'', ''5'', ''a''] = Some (Inr 0) \<and>
   (\<exists>sent D' L'. contents D' L' = [(1000, 5, [97])] \<and>
     (\<forall>dkn pre post. kn_ibuf dkn = zbuf pre [] (obytes sent) post \<longrightarrow>
       (\<exists>dkn' kdb kdt. kcndb_server_recv malloc (Inr 1000) dkn ([opened_base [] empty_locs], [opened_table [] empty_locs]) =
          Some (EAGAIN, dkn', [kdb], [kdt]) \<and> add_ready kdb kdt D' L')))"
proof (intro allI)
  fix files :: "string \<Rightarrow> ctl_env" and malloc :: allocator
  have i: "TYPE2INDEX 1 = 0" by (simp add: TYPE2INDEX_def)
  have m: "alloc_total (ce_malloc connected_env)" "ce_everrs connected_env = []"
    using alloc_total_zero by (simp_all add: connected_env_def)
  have "env_ready connected_env \<lparr>sk_rx = [], sk_eof = False, sk_tx = [], sk_sys = []\<rparr>"
    by (simp add: connected_env_def env_ready_def alloc_ok_def zero_malloc_def)
  then obtain kn where k: "kcn_client_init connected_env = Some (Inr kn)" by (rule client_init_ok)
  have a: "kcn_eq_type_aton ''storage'' = Inr 1" by code_simp
  have d: "decimal 5 = ''5''" by code_simp
  let ?r = "\<lparr>kdr_time = 1000, kdr_val = of_nat 5, kdr_locidx = 0, kdr_loc = map of_char ''a'', kdr_loclen = length ''a''\<rparr>"
  have f: "record_fits [] empty_locs ?r"
    by (simp add: record_fits_def last_record_def kdr_uninit_def empty_locs_def)
  have e: "loc_effect empty_locs (map of_char ''a'') 2048 (loc_added empty_locs [97])"
    using effect_empty [of "[97]"] by simp
  have t: "add_ready ([opened_base [] empty_locs] ! TYPE2INDEX 1) ([opened_table [] empty_locs] ! TYPE2INDEX 1) [] empty_locs"
    "TYPE2INDEX 1 < length [opened_base [] empty_locs]" "TYPE2INDEX 1 < length [opened_table [] empty_locs]"
    using opened_empty by (simp_all add: i)
  have c: "contents [] empty_locs = []" by (simp add: contents_def parse_records.simps)
  have "(5 :: nat) < 2 ^ 63" "\<not> (1 < length ''storage'' \<and> hd ''storage'' = CHR ''-'')" "\<not> (1 < length ''a'' \<and> hd ''a'' = CHR ''-'')"
    by simp_all
  from record_end_to_end [OF m(1) k m(2) a this t(2,3,1) f e, of files "\<lambda>_. Some True" malloc, unfolded i d]
  obtain sent where "kcndbctl_main True connected_env files (\<lambda>_. Some True) [''storage'', ''5'', ''a''] = Some (Inr 0)"
    "\<forall>dkn pre post. kn_ibuf dkn = zbuf pre [] (obytes sent) post \<longrightarrow>
      (\<exists>dkn' kdb kdt. kcndb_server_recv malloc (Inr 1000) dkn ([opened_base [] empty_locs], [opened_table [] empty_locs]) =
         Some (EAGAIN, dkn', [opened_base [] empty_locs][0 := kdb], [opened_table [] empty_locs][0 := kdt]) \<and>
         add_ready kdb kdt ([] @ record_bytes (?r\<lparr>kdr_locidx := 2048\<rparr>)) (loc_added empty_locs [97]))"
    "contents ([] @ record_bytes (?r\<lparr>kdr_locidx := 2048\<rparr>)) (loc_added empty_locs [97]) =
      contents [] empty_locs @ [(1000, of_nat 5, map of_char ''a'')]" by auto
  then show "kcndbctl_main True connected_env files (\<lambda>_. Some True) [''storage'', ''5'', ''a''] = Some (Inr 0) \<and>
     (\<exists>sent D' L'. contents D' L' = [(1000, 5, [97])] \<and>
       (\<forall>dkn pre post. kn_ibuf dkn = zbuf pre [] (obytes sent) post \<longrightarrow>
         (\<exists>dkn' kdb kdt. kcndb_server_recv malloc (Inr 1000) dkn ([opened_base [] empty_locs], [opened_table [] empty_locs]) =
            Some (EAGAIN, dkn', [kdb], [kdt]) \<and> add_ready kdb kdt D' L')))"
    unfolding c by (intro conjI exI [of _ sent] exI [of _ "[] @ record_bytes (?r\<lparr>kdr_locidx := 2048\<rparr>)"] exI [of _ "loc_added empty_locs [97]"]) simp_all
qed

end
