(* ===== verification/Kcn_System.thy ===== *)
theory Kcn_System
  imports "HOL-Library.Sublist" Kcn_Main_Spec
begin

text \<open>
  A client and the daemon at the two ends of a connection: their callbacks, the bytes on the way, and any
  order of events, as a step relation.  \<open>system_inv\<close> says where the query and its answer are; every step keeps it.
\<close>

section \<open>A read callback that answers one query\<close>

text \<open>On a beginning of the query it asks for more, on the whole query it leaves the answer in the queue.\<close>

definition serves_query :: "'t net_readcb \<Rightarrow> 't \<Rightarrow> byte list \<Rightarrow> byte list \<Rightarrow> bool" where
  "serves_query readcb T Q A \<longleftrightarrow> (\<forall>kn pre t post. serving kn \<and> kn_everrs kn = [] \<and> kn_ibuf kn = zbuf pre [] t post \<longrightarrow>
     (strict_prefix t Q \<longrightarrow> readcb kn T = Some (EAGAIN, kn, T)) \<and>
     (t = Q \<longrightarrow> (\<exists>kn' T'. readcb kn T = Some (EAGAIN, kn', T') \<and> serving kn' \<and> kn_everrs kn' = [] \<and>
        kn_evwrite kn' \<and> kn_fd kn' = kn_fd kn \<and> kb_heading (kn_ibuf kn') = [] \<and> kb_data (kn_ibuf kn') = [] \<and>
        obytes kn' = obytes kn @ A)))"

text \<open>A beginning of a message is left in the buffer.\<close>

lemma message_start_waits:
  assumes "kn_ibuf kn = zbuf pre [] t post" "strict_prefix t (header_bytes type body @ body)" "length body \<le> 4092"
  shows "kcndb_server_recv malloc now kn kt = Some (EAGAIN, kn, kt)"
proof (rule incomplete_message_waits [OF assms(1)])
  from assms(2) obtain u where u: "header_bytes type body @ body = t @ u" "u \<noteq> []" by (auto simp: strict_prefix_def prefix_def)
  have l: "length t < 4 + length body" using arg_cong [OF u(1), of length] u(2) by (cases u) simp_all
  show "length t < 4 \<or> t ! 0 = 1 \<and> length t < 4 + unat (of_be16 (take 2 (drop 2 t))) \<and> unat (of_be16 (take 2 (drop 2 t))) \<le> 4092"
  proof (cases "length t < 4")
    case False
    then have "take 4 t = take 4 (header_bytes type body @ body)" using u(1) by simp
    also have "\<dots> = header_bytes type body" by simp
    finally have h: "take 4 t = header_bytes type body" .
    have "take 2 (drop 2 t) = take 2 (drop 2 (take 4 t))" by (simp add: drop_take)
    also have "\<dots> = be16 (of_nat (length body))" unfolding h by (simp add: header_bytes_def)
    finally have b: "unat (of_be16 (take 2 (drop 2 t))) = length body" using assms(3) by (simp add: unat_of_nat)
    have "t ! 0 = take 4 t ! 0" using False by simp
    also have "\<dots> = 1" unfolding h by (simp add: header_bytes_def)
    finally show ?thesis using l assms(3) by (simp add: b)
  qed simp
qed

lemma server_serves:
  fixes q :: kcn_msg_query
  defines "i \<equiv> TYPE2INDEX (ke_type (kmq_eq q))" and "sel \<equiv> selection (kmq_eq q) (unat (kmq_maxcount q))"
  assumes "alloc_total malloc" "kmq_loctype q \<le> 1" "ke_type (kmq_eq q) < 256" "1 \<le> ke_op (kmq_eq q)" "ke_op (kmq_eq q) \<le> 5"
    and "i < length bases" "i < length kd" "table_ok (bases ! i) (kd ! i) D L" "lock_free (kdb_lock (bases ! i))"
  shows "serves_query (kcndb_server_recv malloc now) (bases, kd) (query_msg q)
    (answer (map (\<lambda>r. (0, loc_of L (unat (kdr_locidx r)))) (sel D)) (if sel D = [] then ESRCH else 0))"
  unfolding serves_query_def
proof (intro allI impI conjI)
  fix kn pre t post assume k: "serving kn \<and> kn_everrs kn = [] \<and> kn_ibuf kn = zbuf pre [] t post"
  show "kcndb_server_recv malloc now kn (bases, kd) = Some (EAGAIN, kn, (bases, kd))" if t: "strict_prefix t (query_msg q)"
    using message_start_waits [of kn pre t post 1 "query_body q"] k t by (simp add: query_msg_def)
  show "\<exists>kn' T'. kcndb_server_recv malloc now kn (bases, kd) = Some (EAGAIN, kn', T') \<and> serving kn' \<and> kn_everrs kn' = [] \<and>
      kn_evwrite kn' \<and> kn_fd kn' = kn_fd kn \<and> kb_heading (kn_ibuf kn') = [] \<and> kb_data (kn_ibuf kn') = [] \<and>
      obytes kn' = obytes kn @ answer (map (\<lambda>r. (0, loc_of L (unat (kdr_locidx r)))) (sel D)) (if sel D = [] then ESRCH else 0)"
    if t: "t = query_msg q"
  proof -
    from k assms(3) have s: "sending malloc kn" by (simp add: sending_def)
    from k t have ib: "kn_ibuf kn = zbuf pre [] (query_msg q @ []) post" by simp
    from recv_query [OF s ib assms(4-7) assms(8-11)[unfolded i_def], of now] obtain kn' kdt where
      r: "kcndb_server_recv malloc now kn (bases, kd) = kcndb_server_recv malloc now kn' kdt"
        "sending malloc kn'" "kn_fd kn' = kn_fd kn" "kn_ibuf kn' = zbuf (pre @ query_msg q) [] [] post"
        "obytes kn' = obytes kn @ concat (map (\<lambda>r. response_msg (loc_response 0 (loc_of L (unat (kdr_locidx r))))) (sel D)) @
          response_msg (end_response (if sel D = [] then ESRCH else 0))" "kn_evwrite kn'"
      unfolding sel_def by blast
    then show ?thesis by (intro exI [of _ kn'] exI [of _ kdt]) (simp add: recv_empty sending_def answer_def o_def)
  qed
qed

text \<open>
  The read event of the daemon.  If bytes are there and the socket works, it has answered, or waits for more and has taken
  bytes from the socket or used up an outcome.
\<close>

definition daemon_advances :: "byte list \<Rightarrow> kcn_net \<Rightarrow> sock \<Rightarrow> kcn_net \<Rightarrow> bool" where
  "daemon_advances Q kn sk kn' \<longleftrightarrow> waiting kn' \<and> (\<exists>sk'. kn_fd kn' = Some sk' \<and> moved sk sk' \<and>
     (net_in kn' = net_in kn \<and> obytes kn' = obytes kn \<and> kn_evwrite kn' = kn_evwrite kn \<or>
      net_in kn = Q \<and> net_in kn' = [] \<and> kn_evwrite kn'))"

lemma query_served:
  assumes "has_read kn sk sk1 pre t post kn1" "serves_query readcb T Q A" "prefix (net_in kn) Q" "length Q \<le> 4096"
  shows "\<exists>kn' T'. readcb kn1 T \<bind> (\<lambda>(error, kn, d). read_result error kn d) = Some (kn', T') \<and> waiting kn' \<and> kn_fd kn' = Some sk1 \<and>
    (T' = T \<and> net_in kn' = net_in kn \<and> net_out kn' = net_out kn \<and> strict_prefix (kb_data (kn_ibuf kn')) Q \<and>
       obytes kn' = obytes kn \<and> kn_evwrite kn' = kn_evwrite kn \<or>
     net_in kn = Q \<and> net_in kn' = [] \<and> net_out kn' = net_out kn @ A \<and> kn_evwrite kn')"
proof -
  from assms(1) have h: "kn_fd kn1 = Some sk1" "kn_everrs kn1 = []" "kn_ibuf kn1 = zbuf pre [] t post" "net_in kn = t @ sk_rx sk1"
    "net_out kn1 = net_out kn" "kn_state kn1 = KCN_NET_STATE_ESTABLISHED" "net_ok 4096 (kn1\<lparr>kn_ibuf := zbuf pre [] t post\<rparr>)" "\<not> kn_evread kn1"
    by (simp_all add: has_read_def)
  have same: "kn1\<lparr>kn_ibuf := zbuf pre [] t post\<rparr> = kn1" using h(3) by simp
  have s: "serving kn1 \<and> kn_everrs kn1 = [] \<and> kn_ibuf kn1 = zbuf pre [] t post" using h by (simp add: serving_def same)
  show ?thesis
  proof (cases "t = Q")
    case True
    then have rx: "sk_rx sk1 = []" "net_in kn = Q" using assms(3) h(4) by simp_all
    from assms(2) s True obtain kn2 T' where k: "readcb kn1 T = Some (EAGAIN, kn2, T')" "serving kn2" "kn_everrs kn2 = []"
      "kn_fd kn2 = Some sk1" "kb_heading (kn_ibuf kn2) = []" "kb_data (kn_ibuf kn2) = []" "obytes kn2 = obytes kn1 @ A" "kn_evwrite kn2"
      unfolding serves_query_def h(1) [symmetric] by blast
    have o: "net_out kn2 = net_out kn @ A" unfolding h(5) [symmetric] using k(4,7) h(1) by (simp add: net_out_def)
    have "ibuf_room 4096 kn2" using k(5,6) by (simp add: ibuf_room_def)
    moreover have "net_ok 4096 kn2" "kn_state kn2 = KCN_NET_STATE_ESTABLISHED" using k(2) by (simp_all add: serving_def)
    ultimately obtain kn' where "read_result EAGAIN kn2 T' = Some (kn', T')" "waiting kn'" "kn_fd kn' = Some sk1"
      "kn_ibuf kn' = kn_ibuf kn2" "kn_evwrite kn' = kn_evwrite kn2" "net_out kn' = net_out kn2"
      using k(3,4) by (elim read_result_waits [where d = T']) simp_all
    with k(1,6,8) o rx show ?thesis by (intro exI [of _ kn'] exI [of _ T']) (simp add: net_in_def)
  next
    case False
    have "prefix t Q" using assms(3) unfolding h(4) by (rule append_prefixD)
    with False have p: "strict_prefix t Q" by (simp add: strict_prefix_def)
    with assms(2) s have r: "readcb kn1 T = Some (EAGAIN, kn1, T)" unfolding serves_query_def by blast
    have "length t < 4096" using prefix_length_less [OF p] assms(4) by simp
    from has_read_waits [OF assms(1) refl this, of T, unfolded same] obtain kn' where "read_result EAGAIN kn1 T = Some (kn', T)" "waiting kn'"
      "kn_fd kn' = Some sk1" "kn_ibuf kn' = zbuf pre [] t post" "net_out kn' = net_out kn" "obytes kn' = obytes kn"
      "kn_evwrite kn' = kn_evwrite kn" by blast
    with r p h(4) show ?thesis by (intro exI [of _ kn'] exI [of _ T]) (simp add: net_in_def)
  qed
qed

lemma daemon_event:
  assumes "waiting kn" "net_in kn \<noteq> [] \<longrightarrow> serves_query readcb T Q A" "EV_READ \<in> events \<or> EV_TIMEOUT \<in> events"
    and "prefix (net_in kn) Q" "strict_prefix (kb_data (kn_ibuf kn)) Q" "length Q \<le> 4096"
  shows "\<exists>kn' T'. kcn_net_read_cb readcb events (kn\<lparr>kn_evread := False\<rparr>) T = Some (kn', T') \<and> net_inv 4096 kn' \<and>
    (closed kn' \<or> waiting kn' \<and>
      (T' = T \<and> net_in kn' = net_in kn \<and> net_out kn' = net_out kn \<and> strict_prefix (kb_data (kn_ibuf kn')) Q \<or>
       net_in kn = Q \<and> net_in kn' = [] \<and> net_out kn' = net_out kn @ A)) \<and>
    (\<forall>sk. kn_fd kn = Some sk \<and> ready events sk \<longrightarrow> daemon_advances Q kn sk kn')"
proof -
  obtain sk where sk: "kn_fd kn = Some sk" using waiting_parts [OF assms(1)] by metis
  have inv: "waiting kn' \<Longrightarrow> net_inv 4096 kn'" for kn' by (simp add: waiting_def)
  show ?thesis
  proof (rule read_event [OF assms(1,3) sk, of readcb T])
    fix kn' assume "kcn_net_read_cb readcb events (kn\<lparr>kn_evread := False\<rparr>) T = Some (kn', T)" "net_inv 4096 kn'" "closed kn'"
      "\<not> ready events sk"
    with sk show ?thesis by auto
  next
    fix kn' sk' assume k: "kcn_net_read_cb readcb events (kn\<lparr>kn_evread := False\<rparr>) T = Some (kn', T)" "waiting kn'"
      "kn_fd kn' = Some sk'" "sk_rx sk' = sk_rx sk" "kb_data (kn_ibuf kn') = kb_data (kn_ibuf kn)" "net_out kn' = net_out kn"
      "obytes kn' = obytes kn" "kn_evwrite kn' = kn_evwrite kn" "ready events sk \<longrightarrow> moved sk sk'"
    then have n: "net_in kn' = net_in kn" using sk by (simp add: net_in_def)
    have "ready events sk \<longrightarrow> daemon_advances Q kn sk kn'" using k(2,3,7-9) n unfolding daemon_advances_def by auto
    with k(1-6) n sk inv [OF k(2)] assms(5) show ?thesis by (intro exI [of _ kn'] exI [of _ T]) auto
  next
    fix kn1 sk1 pre t post assume h: "has_read kn sk sk1 pre t post kn1" and
      cb: "kcn_net_read_cb readcb events (kn\<lparr>kn_evread := False\<rparr>) T = readcb kn1 T \<bind> (\<lambda>(error, kn, d). read_result error kn d)"
    from h sk have s: "length (sk_rx sk1) < length (sk_rx sk)" "moved sk sk1" using has_read_moved [OF h] by (simp_all add: has_read_def)
    then have "net_in kn \<noteq> []" using sk by (auto simp: net_in_def)
    with assms(2) have "serves_query readcb T Q A" by blast
    from query_served [OF h this assms(4,6)] obtain kn' T' where k:
      "kcn_net_read_cb readcb events (kn\<lparr>kn_evread := False\<rparr>) T = Some (kn', T')" "waiting kn'" "kn_fd kn' = Some sk1"
      "T' = T \<and> net_in kn' = net_in kn \<and> net_out kn' = net_out kn \<and> strict_prefix (kb_data (kn_ibuf kn')) Q \<and>
         obytes kn' = obytes kn \<and> kn_evwrite kn' = kn_evwrite kn \<or>
       net_in kn = Q \<and> net_in kn' = [] \<and> net_out kn' = net_out kn @ A \<and> kn_evwrite kn'" unfolding cb by blast
    have "daemon_advances Q kn sk kn'" using k(2-4) s unfolding daemon_advances_def by auto
    with k(1,2,4) inv [OF k(2)] sk show ?thesis by (intro exI [of _ kn'] exI [of _ T']) auto
  qed
qed

section \<open>A client, the daemon and the wire between them\<close>

record 't system =
  y_client :: kcn_net
  y_kcr :: kcn_client_response
  y_requests :: "byte list"
  y_answers :: "byte list"
  y_daemon :: kcn_net
  y_tables :: 't

text \<open>
  A pending event fires with what libevent reports; bytes that a callback has written leave the socket, and
  bytes on the way arrive, in any portions; either side can find the other closed, and the system
  calls to come can have any outcome.  What is written in the callback that closes a connection is lost.
\<close>

inductive system_step :: "allocator \<Rightarrow> errno \<Rightarrow> 't net_readcb \<Rightarrow> 't system \<Rightarrow> 't system \<Rightarrow> bool"
  for malloc :: allocator and errno :: errno and readcb :: "'t net_readcb" where
  client_reads: "kn_evread (y_client s) \<Longrightarrow> EV_READ \<in> events \<or> EV_TIMEOUT \<in> events \<Longrightarrow>
    kcn_net_read_cb (kcn_client_read malloc errno) events ((y_client s)\<lparr>kn_evread := False\<rparr>) (y_kcr s) = Some (kn, kcr) \<Longrightarrow>
    system_step malloc errno readcb s (s\<lparr>y_client := kn, y_kcr := kcr\<rparr>)"
| client_writes: "kn_evwrite (y_client s) \<Longrightarrow> EV_WRITE \<in> events \<or> EV_TIMEOUT \<in> events \<Longrightarrow>
    kcn_net_write_cb events ((y_client s)\<lparr>kn_evwrite := False\<rparr>) = Some kn \<Longrightarrow>
    system_step malloc errno readcb s (s\<lparr>y_client := kn\<rparr>)"
| client_socket: "kn_fd (y_client s) = Some sk \<Longrightarrow>
    system_step malloc errno readcb s (s\<lparr>y_client := (y_client s)\<lparr>kn_fd := Some (sk\<lparr>sk_eof := eof, sk_sys := sys\<rparr>)\<rparr>\<rparr>)"
| request_leaves: "kn_fd (y_client s) = Some sk \<Longrightarrow> sk_tx sk = bs @ rest \<Longrightarrow>
    system_step malloc errno readcb s (s\<lparr>y_client := (y_client s)\<lparr>kn_fd := Some (sk\<lparr>sk_tx := rest\<rparr>)\<rparr>, y_requests := y_requests s @ bs\<rparr>)"
| answer_arrives: "kn_fd (y_client s) = Some sk \<Longrightarrow> y_answers s = bs @ rest \<Longrightarrow>
    system_step malloc errno readcb s (s\<lparr>y_client := (y_client s)\<lparr>kn_fd := Some (sk\<lparr>sk_rx := sk_rx sk @ bs\<rparr>)\<rparr>, y_answers := rest\<rparr>)"
| daemon_reads: "kn_evread (y_daemon s) \<Longrightarrow> EV_READ \<in> events \<or> EV_TIMEOUT \<in> events \<Longrightarrow>
    kcn_net_read_cb readcb events ((y_daemon s)\<lparr>kn_evread := False\<rparr>) (y_tables s) = Some (kn, t) \<Longrightarrow>
    system_step malloc errno readcb s (s\<lparr>y_daemon := kn, y_tables := t\<rparr>)"
| daemon_writes: "kn_evwrite (y_daemon s) \<Longrightarrow> EV_WRITE \<in> events \<or> EV_TIMEOUT \<in> events \<Longrightarrow>
    kcn_net_write_cb events ((y_daemon s)\<lparr>kn_evwrite := False\<rparr>) = Some kn \<Longrightarrow>
    system_step malloc errno readcb s (s\<lparr>y_daemon := kn\<rparr>)"
| daemon_socket: "kn_fd (y_daemon s) = Some sk \<Longrightarrow>
    system_step malloc errno readcb s (s\<lparr>y_daemon := (y_daemon s)\<lparr>kn_fd := Some (sk\<lparr>sk_eof := eof, sk_sys := sys\<rparr>)\<rparr>\<rparr>)"
| answer_leaves: "kn_fd (y_daemon s) = Some sk \<Longrightarrow> sk_tx sk = bs @ rest \<Longrightarrow>
    system_step malloc errno readcb s (s\<lparr>y_daemon := (y_daemon s)\<lparr>kn_fd := Some (sk\<lparr>sk_tx := rest\<rparr>)\<rparr>, y_answers := y_answers s @ bs\<rparr>)"
| request_arrives: "kn_fd (y_daemon s) = Some sk \<Longrightarrow> y_requests s = bs @ rest \<Longrightarrow>
    system_step malloc errno readcb s (s\<lparr>y_daemon := (y_daemon s)\<lparr>kn_fd := Some (sk\<lparr>sk_rx := sk_rx sk @ bs\<rparr>)\<rparr>, y_requests := rest\<rparr>)"

inductive system_run :: "allocator \<Rightarrow> errno \<Rightarrow> 't net_readcb \<Rightarrow> 't system \<Rightarrow> 't system \<Rightarrow> bool"
  for malloc :: allocator and errno :: errno and readcb :: "'t net_readcb" and s0 where
  start: "system_run malloc errno readcb s0 s0"
| step: "system_run malloc errno readcb s0 s \<Longrightarrow> system_step malloc errno readcb s s' \<Longrightarrow> system_run malloc errno readcb s0 s'"

section \<open>The invariant\<close>

text \<open>
  \<open>rest\<close> is the part of the answer that the client has not yet seen.  A client whose query is not sent
  completely has seen nothing; later it is as in \<^const>\<open>collected\<close>, whatever becomes of its write event.
\<close>

definition client_view :: "(nat \<times> byte list) list \<Rightarrow> errno \<Rightarrow> kcn_info \<Rightarrow> byte list \<Rightarrow> byte list \<Rightarrow> kcn_net \<Rightarrow> kcn_client_response \<Rightarrow> bool" where
  "client_view locs e ki R rest kn kcr \<longleftrightarrow>
     (kn_state kn = KCN_NET_STATE_PENDING \<and> kn_evwrite kn \<and> kn_everrs kn = [] \<and> obytes kn \<noteq> [] \<and> net_in kn = [] \<and>
        kcr = \<lparr>kcr_error = 0, kcr_ki = ki\<rparr> \<and> rest = answer locs e \<and> R = []) \<or>
     (waiting kn \<and> (kcr_error kcr = 0 \<or> kcr_error kcr = EAGAIN) \<and>
        (\<exists>k \<le> length locs. kcr_ki kcr = fold info_push (take k locs) ki \<and> net_in kn @ rest = answer (drop k locs) e)) \<or>
     (\<not> kn_evread kn \<and> kn_state kn = KCN_NET_STATE_ESTABLISHED \<and> kcr_error kcr = e \<and> kcr_ki kcr = fold info_push locs ki) \<or>
     (closed kn \<and> (kcr_error kcr = e \<and> kcr_ki kcr = fold info_push locs ki \<or>
        (kcr_error kcr = 0 \<or> kcr_error kcr = EAGAIN) \<and> (\<exists>k \<le> length locs. kcr_ki kcr = fold info_push (take k locs) ki)))"

text \<open>The daemon has the beginning of the query, or it has answered and nothing more comes.\<close>

definition daemon_view :: "byte list \<Rightarrow> 't \<Rightarrow> byte list \<Rightarrow> byte list \<Rightarrow> 't system \<Rightarrow> bool" where
  "daemon_view Q T A rest s \<longleftrightarrow> closed (y_daemon s) \<or>
     kn_everrs (y_daemon s) = [] \<and> kn_fd (y_daemon s) \<noteq> None \<and>
     (kn_state (y_daemon s) = KCN_NET_STATE_PENDING \<or> waiting (y_daemon s)) \<and>
     strict_prefix (kb_data (kn_ibuf (y_daemon s))) Q \<and>
     (rest = A \<and> y_answers s = [] \<and> net_out (y_daemon s) = [] \<and> y_tables s = T \<and>
        prefix (net_in (y_daemon s) @ y_requests s @ net_out (y_client s)) Q \<or>
      net_in (y_daemon s) = [] \<and> y_requests s = [] \<and> net_out (y_client s) = [])"

definition system_inv :: "byte list \<Rightarrow> 't \<Rightarrow> (nat \<times> byte list) list \<Rightarrow> errno \<Rightarrow> kcn_info \<Rightarrow> 't system \<Rightarrow> bool" where
  "system_inv Q T locs e ki s \<longleftrightarrow> net_inv 4096 (y_client s) \<and> net_inv 4096 (y_daemon s) \<and>
     (\<exists>rest. prefix (y_answers s @ net_out (y_daemon s)) rest \<and>
        client_view locs e ki (y_answers s @ net_out (y_daemon s)) rest (y_client s) (y_kcr s) \<and>
        daemon_view Q T (answer locs e) rest s)"

section \<open>Steps of the client\<close>

lemma read_result_out:
  assumes "read_result error kn d = Some (kn', d')" "kn_state kn = KCN_NET_STATE_ESTABLISHED"
  shows "kn_fd kn' = None \<or> net_out kn' = net_out kn"
  using assms
  by (auto simp: read_result_def kcn_net_read_enable_def kcn_net_event_enable_read_def kcn_net_event_add_def
      kcn_net_disconnect_def kcn_net_state_change_def split: if_splits prod.splits)

lemma client_read_keeps:
  assumes "kcn_client_read malloc errno kn kcr = Some (e, kn', kcr')"
  shows "kn_fd kn' = kn_fd kn \<and> kn_state kn' = kn_state kn \<and> net_out kn' = net_out kn"
  using assms by (auto simp: kcn_client_read_def bind_eq_Some_conv)

lemma client_read_out:
  assumes "waiting kn" "kcn_net_read_cb (kcn_client_read malloc errno) events (kn\<lparr>kn_evread := False\<rparr>) kcr = Some (kn', kcr')"
    and "EV_READ \<in> events \<or> EV_TIMEOUT \<in> events"
  shows "kn_fd kn' = None \<or> net_out kn' = net_out kn"
proof -
  obtain sk where sk: "kn_fd kn = Some sk" using waiting_parts [OF assms(1)] by metis
  show ?thesis
  proof (rule read_event [OF assms(1,3) sk, of "kcn_client_read malloc errno" kcr])
    fix kn1 sk1 pre t post assume h: "has_read kn sk sk1 pre t post kn1" and
      cb: "kcn_net_read_cb (kcn_client_read malloc errno) events (kn\<lparr>kn_evread := False\<rparr>) kcr =
        kcn_client_read malloc errno kn1 kcr \<bind> (\<lambda>(error, kn, d). read_result error kn d)"
    from assms(2) cb obtain e kn2 d2 where e: "kcn_client_read malloc errno kn1 kcr = Some (e, kn2, d2)" "read_result e kn2 d2 = Some (kn', kcr')"
      by (auto simp: bind_eq_Some_conv)
    with client_read_keeps [OF e(1)] read_result_out [OF e(2)] h show ?thesis by (simp add: has_read_def)
  qed (use assms(2) in \<open>simp_all add: closed_def\<close>)
qed

lemma collected_view:
  assumes "collected locs e ki (rest, kn, kcr)" "net_inv 4096 kn"
  shows "client_view locs e ki R rest kn kcr"
proof -
  have cl: "closed kn" if "kn_state kn = KCN_NET_STATE_DISCONNECTED"
    using assms(2) that by (intro inv_closed [of 4096]) (simp_all add: net_inv_def net_ok_def)
  from assms(1) consider
      (wait) sk k where "waiting kn" "kcr_error kcr = 0 \<or> kcr_error kcr = EAGAIN" "kn_fd kn = Some sk" "k \<le> length locs"
        "kcr_ki kcr = fold info_push (take k locs) ki" "kb_data (kn_ibuf kn) @ sk_rx sk @ rest = answer (drop k locs) e"
    | (whole) "\<not> kn_evread kn" "kcr_error kcr = e" "kcr_ki kcr = fold info_push locs ki"
        "kn_state kn = (if e = 0 then KCN_NET_STATE_ESTABLISHED else KCN_NET_STATE_DISCONNECTED)"
    | (lost) k where "kn_state kn = KCN_NET_STATE_DISCONNECTED" "kcr_error kcr = 0 \<or> kcr_error kcr = EAGAIN"
        "k \<le> length locs" "kcr_ki kcr = fold info_push (take k locs) ki"
    unfolding collected_def prod.case by metis
  then show ?thesis
  proof cases
    case wait
    then have "net_in kn @ rest = answer (drop k locs) e" by (simp add: net_in_def)
    with wait show ?thesis unfolding client_view_def by blast
  next
    case whole
    with cl show ?thesis unfolding client_view_def by (cases "e = 0") simp_all
  next
    case lost
    with cl show ?thesis unfolding client_view_def by blast
  qed
qed

lemma push_info_ok:
  assumes "info_ok ki" "info_room ki (length locs)"
  shows "info_ok (fold info_push locs ki)"
  using assms
proof (induction locs arbitrary: ki)
  case (Cons l locs)
  then have "info_ok (info_push l ki)" by (cases l) (auto simp: info_ok_def info_push_def kcn_info_nlocs_def kcn_info_maxnlocs_def)
  moreover have "info_room (info_push l ki) (length locs)" using Cons.prems(2) by simp
  ultimately show ?case using Cons.IH by simp
qed simp

lemma client_read_event:
  assumes "client_view locs e ki R rest kn kcr" "net_inv 4096 kn" "kn_evread kn" "EV_READ \<in> events \<or> EV_TIMEOUT \<in> events"
    and l: "locs_ok malloc locs" "info_room ki (length locs)" "e < 256" "e \<noteq> EAGAIN"
    and "info_ok ki"
  shows "\<exists>kn' kcr'. kcn_net_read_cb (kcn_client_read malloc errno) events (kn\<lparr>kn_evread := False\<rparr>) kcr = Some (kn', kcr') \<and>
    net_inv 4096 kn' \<and> client_view locs e ki R rest kn' kcr' \<and> (closed kn' \<or> net_out kn' = net_out kn)"
proof -
  have "kn_state kn = KCN_NET_STATE_ESTABLISHED" using assms(2,3) by (simp add: net_inv_def net_ok_def)
  with assms(1,3) obtain k where w: "waiting kn" "kcr_error kcr = 0 \<or> kcr_error kcr = EAGAIN" "k \<le> length locs"
    "kcr_ki kcr = fold info_push (take k locs) ki" "net_in kn @ rest = answer (drop k locs) e"
    unfolding client_view_def closed_def by auto
  obtain sk where sk: "kn_fd kn = Some sk" using waiting_parts [OF w(1)] by metis
  have d: "kb_data (kn_ibuf kn) @ sk_rx sk @ rest = answer (drop k locs) e" using w(5) sk by (simp add: net_in_def)
  from waiting_fires [OF w(1,2) sk w(3,4) d l assms(4), of errno] obtain kn' kcr' where
    f: "kcn_net_read_cb (kcn_client_read malloc errno) events (kn\<lparr>kn_evread := False\<rparr>) kcr = Some (kn', kcr')"
      "collected locs e ki (rest, kn', kcr')" by blast
  have "info_ok (kcr_ki kcr)" unfolding w(4) using assms(9) l(2) w(3) by (intro push_info_ok) simp_all
  with client_reader.read_cb_ok [OF assms(2,3) _ f(1)] l(1) have inv: "net_inv 4096 kn'" by (simp add: locs_ok_def)
  have view: "client_view locs e ki R rest kn' kcr'"
    using f(2) inv by (rule collected_view)
  from client_read_out [OF w(1) f(1) assms(4)] inv_closed [OF inv] have "closed kn' \<or> net_out kn' = net_out kn" by blast
  with f(1) inv view show ?thesis by blast
qed

lemma viewE:
  assumes "client_view locs e ki R rest kn kcr"
  obtains (pend) "kn_state kn = KCN_NET_STATE_PENDING" "kn_everrs kn = []" "obytes kn \<noteq> []" "net_in kn = []"
      "kcr = \<lparr>kcr_error = 0, kcr_ki = ki\<rparr>" "rest = answer locs e" "R = []" "kn_evwrite kn"
  | (wait) k where "waiting kn" "kcr_error kcr = 0 \<or> kcr_error kcr = EAGAIN" "k \<le> length locs"
      "kcr_ki kcr = fold info_push (take k locs) ki" "net_in kn @ rest = answer (drop k locs) e"
  | (whole) "\<not> kn_evread kn" "kn_state kn = KCN_NET_STATE_ESTABLISHED" "kcr_error kcr = e" "kcr_ki kcr = fold info_push locs ki"
  | (gone) "closed kn" "kcr_error kcr = e \<and> kcr_ki kcr = fold info_push locs ki \<or>
        (kcr_error kcr = 0 \<or> kcr_error kcr = EAGAIN) \<and> (\<exists>k \<le> length locs. kcr_ki kcr = fold info_push (take k locs) ki)"
  using assms unfolding client_view_def by metis

lemma view_wait: "waiting kn \<Longrightarrow> kcr_error kcr = 0 \<or> kcr_error kcr = EAGAIN \<Longrightarrow> k \<le> length locs \<Longrightarrow>
    kcr_ki kcr = fold info_push (take k locs) ki \<Longrightarrow> net_in kn @ rest = answer (drop k locs) e \<Longrightarrow> client_view locs e ki R rest kn kcr"
  unfolding client_view_def by blast

lemma view_whole: "\<not> kn_evread kn \<Longrightarrow> kn_state kn = KCN_NET_STATE_ESTABLISHED \<Longrightarrow> kcr_error kcr = e \<Longrightarrow>
    kcr_ki kcr = fold info_push locs ki \<Longrightarrow> client_view locs e ki R rest kn kcr"
  unfolding client_view_def by blast

lemma view_gone: "closed kn \<Longrightarrow> kcr_error kcr = e \<and> kcr_ki kcr = fold info_push locs ki \<or>
    (kcr_error kcr = 0 \<or> kcr_error kcr = EAGAIN) \<and> (\<exists>k \<le> length locs. kcr_ki kcr = fold info_push (take k locs) ki) \<Longrightarrow>
    client_view locs e ki R rest kn kcr"
  unfolding client_view_def by blast

text \<open>When the connection is closed, what has been collected stays.\<close>

lemma view_closes: "client_view locs e ki R rest kn kcr \<Longrightarrow> closed kn' \<Longrightarrow> client_view locs e ki R' rest' kn' kcr"
proof (erule viewE)
  assume "closed kn'" "kcr = \<lparr>kcr_error = 0, kcr_ki = ki\<rparr>"
  then show ?thesis by (intro view_gone) (auto intro!: exI [of _ 0])
qed (auto intro!: view_gone)

lemma client_write_event:
  assumes v: "client_view locs e ki R rest kn kcr" and "net_inv 4096 kn" "kn_evwrite kn" "EV_WRITE \<in> events \<or> EV_TIMEOUT \<in> events"
  shows "\<exists>kn'. kcn_net_write_cb events (kn\<lparr>kn_evwrite := False\<rparr>) = Some kn' \<and> net_inv 4096 kn' \<and>
    client_view locs e ki R rest kn' kcr \<and> (closed kn' \<or> net_out kn' = net_out kn)"
proof -
  from write_event [OF assms(2-4)] obtain kn' where w: "kcn_net_write_cb events (kn\<lparr>kn_evwrite := False\<rparr>) = Some kn'" "net_inv 4096 kn'"
    "closed kn' \<or> kn_state kn' = KCN_NET_STATE_ESTABLISHED \<and> net_out kn' = net_out kn \<and> net_in kn' = net_in kn \<and>
      (kn_everrs kn = [] \<longrightarrow> kn_everrs kn' = [] \<and> kn_evread kn' = (kn_evread kn \<or> kn_state kn = KCN_NET_STATE_PENDING)) \<and>
      (kn_state kn = KCN_NET_STATE_ESTABLISHED \<longrightarrow> kn_evread kn' = kn_evread kn)" by blast
  show ?thesis
  proof (cases "closed kn'")
    case True
    with w(1,2) view_closes [OF v True] show ?thesis by blast
  next
    case False
    with w(3) have k: "kn_state kn' = KCN_NET_STATE_ESTABLISHED" "net_out kn' = net_out kn" "net_in kn' = net_in kn"
      "kn_everrs kn = [] \<Longrightarrow> kn_everrs kn' = [] \<and> kn_evread kn' = (kn_evread kn \<or> kn_state kn = KCN_NET_STATE_PENDING)"
      "kn_state kn = KCN_NET_STATE_ESTABLISHED \<Longrightarrow> kn_evread kn' = kn_evread kn" by blast+
    from v have "client_view locs e ki R rest kn' kcr"
    proof (cases rule: viewE)
      case pend
      with k w(2) have "waiting kn'" by (simp add: waiting_def)
      with pend k(3) show ?thesis by (intro view_wait [where k = 0]) simp_all
    next
      case (wait k)
      then have "waiting kn'" using k(4) w(2) by (simp add: waiting_def)
      with wait k(3) show ?thesis by (intro view_wait [where k = k]) simp_all
    next
      case whole
      with k(1,5) show ?thesis by (intro view_whole) simp_all
    next
      case gone
      with assms(3) show ?thesis by (simp add: closed_def)
    qed
    with w(1,2) k(2) show ?thesis by blast
  qed
qed

lemma client_socket_event:
  assumes v: "client_view locs e ki R (bs @ rest) kn kcr" and "kn_fd kn = Some sk" "sk_rx sk' = sk_rx sk @ bs" "R = [] \<longrightarrow> bs = [] \<and> R' = []"
  shows "client_view locs e ki R' rest (kn\<lparr>kn_fd := Some sk'\<rparr>) kcr"
  using v
proof (cases rule: viewE)
  case pend
  with assms(2-4) show ?thesis unfolding client_view_def by (simp add: net_in_def)
next
  case (wait k)
  with assms(2,3) have "net_in (kn\<lparr>kn_fd := Some sk'\<rparr>) @ rest = answer (drop k locs) e" by (simp add: net_in_def)
  with wait waiting_fd [OF wait(1) assms(2)] show ?thesis by (intro view_wait [where k = k]) simp_all
next
  case whole
  then show ?thesis by (intro view_whole) simp_all
next
  case gone
  with assms(2) show ?thesis by (simp add: closed_def)
qed

section \<open>Steps of the system\<close>

lemma view_answers:
  assumes "client_view locs e ki R rest kn kcr" "R = [] \<longrightarrow> R' = [] \<or> net_out kn = []" "net_inv 4096 kn"
  shows "client_view locs e ki R' rest kn kcr"
  using assms(1)
proof (cases rule: viewE)
  case pend
  moreover have "net_out kn \<noteq> []" using pend(1,3) assms(3) by (auto simp: net_out_def net_inv_def net_ok_def)
  ultimately show ?thesis using assms(1,2) by simp
next
  case (wait k)
  then show ?thesis by (rule view_wait)
next
  case whole
  then show ?thesis by (rule view_whole)
next
  case gone
  then show ?thesis by (rule view_gone)
qed

lemma daemonE:
  assumes "daemon_view Q T A rest s"
  obtains (closed) "closed (y_daemon s)"
  | (asked) "kn_everrs (y_daemon s) = []" "kn_fd (y_daemon s) \<noteq> None" "kn_state (y_daemon s) = KCN_NET_STATE_PENDING \<or> waiting (y_daemon s)"
      "strict_prefix (kb_data (kn_ibuf (y_daemon s))) Q" "rest = A" "y_answers s = []" "net_out (y_daemon s) = []" "y_tables s = T"
      "prefix (net_in (y_daemon s) @ y_requests s @ net_out (y_client s)) Q"
  | (answered) "kn_everrs (y_daemon s) = []" "kn_fd (y_daemon s) \<noteq> None" "kn_state (y_daemon s) = KCN_NET_STATE_PENDING \<or> waiting (y_daemon s)"
      "strict_prefix (kb_data (kn_ibuf (y_daemon s))) Q" "net_in (y_daemon s) = []" "y_requests s = []" "net_out (y_client s) = []"
  using assms unfolding daemon_view_def by blast

lemma daemon_asked: "kn_everrs (y_daemon s) = [] \<Longrightarrow> kn_fd (y_daemon s) \<noteq> None \<Longrightarrow> kn_state (y_daemon s) = KCN_NET_STATE_PENDING \<or> waiting (y_daemon s) \<Longrightarrow>
    strict_prefix (kb_data (kn_ibuf (y_daemon s))) Q \<Longrightarrow> rest = A \<Longrightarrow> y_answers s = [] \<Longrightarrow> net_out (y_daemon s) = [] \<Longrightarrow> y_tables s = T \<Longrightarrow>
    prefix (net_in (y_daemon s) @ y_requests s @ net_out (y_client s)) Q \<Longrightarrow> daemon_view Q T A rest s"
  unfolding daemon_view_def by blast

lemma daemon_answered: "kn_everrs (y_daemon s) = [] \<Longrightarrow> kn_fd (y_daemon s) \<noteq> None \<Longrightarrow> kn_state (y_daemon s) = KCN_NET_STATE_PENDING \<or> waiting (y_daemon s) \<Longrightarrow>
    strict_prefix (kb_data (kn_ibuf (y_daemon s))) Q \<Longrightarrow> net_in (y_daemon s) = [] \<Longrightarrow> y_requests s = [] \<Longrightarrow> net_out (y_client s) = [] \<Longrightarrow>
    daemon_view Q T A rest s"
  unfolding daemon_view_def by blast

lemma daemon_closed: "closed (y_daemon s) \<Longrightarrow> daemon_view Q T A rest s"
  unfolding daemon_view_def by blast

text \<open>The client sends what it had queued, or has closed the connection.\<close>

lemma daemon_view_client:
  assumes "daemon_view Q T A rest s" "closed kn \<or> net_out kn = net_out (y_client s)"
  shows "daemon_view Q T A rest (s\<lparr>y_client := kn, y_kcr := kcr\<rparr>)"
proof -
  have o: "net_out kn = net_out (y_client s) \<or> net_out kn = []" using assms(2) by auto
  from assms(1) show ?thesis
  proof (cases rule: daemonE)
    case closed
    then show ?thesis by (intro daemon_closed) simp
  next
    case asked
    have "prefix (net_in (y_daemon s) @ y_requests s @ net_out kn) Q"
      using o asked(9) append_prefixD [of "net_in (y_daemon s) @ y_requests s" "net_out (y_client s)" Q] by auto
    with asked show ?thesis by (intro daemon_asked) simp_all
  next
    case answered
    with o show ?thesis by (intro daemon_answered) auto
  qed
qed

lemma client_steps:
  assumes "system_inv Q T locs e ki s" "closed kn \<or> net_out kn = net_out (y_client s)" "net_inv 4096 kn"
    and "\<And>rest. client_view locs e ki (y_answers s @ net_out (y_daemon s)) rest (y_client s) (y_kcr s) \<Longrightarrow>
      client_view locs e ki (y_answers s @ net_out (y_daemon s)) rest kn kcr"
  shows "system_inv Q T locs e ki (s\<lparr>y_client := kn, y_kcr := kcr\<rparr>)"
proof -
  from assms(1) obtain rest where r: "net_inv 4096 (y_daemon s)" "prefix (y_answers s @ net_out (y_daemon s)) rest"
    "client_view locs e ki (y_answers s @ net_out (y_daemon s)) rest (y_client s) (y_kcr s)"
    "daemon_view Q T (answer locs e) rest s" unfolding system_inv_def by blast
  from r(1,2) assms(3) assms(4) [OF r(3)] daemon_view_client [OF r(4) assms(2)] show ?thesis
    unfolding system_inv_def by (intro conjI exI [of _ rest]) simp_all
qed

lemma request_leaves_inv:
  assumes "system_inv Q T locs e ki s" "kn_fd (y_client s) = Some sk" "sk_tx sk = bs @ tx"
  shows "system_inv Q T locs e ki (s\<lparr>y_client := (y_client s)\<lparr>kn_fd := Some (sk\<lparr>sk_tx := tx\<rparr>)\<rparr>, y_requests := y_requests s @ bs\<rparr>)"
proof -
  let ?kn = "(y_client s)\<lparr>kn_fd := Some (sk\<lparr>sk_tx := tx\<rparr>)\<rparr>"
  let ?s = "s\<lparr>y_client := ?kn, y_requests := y_requests s @ bs\<rparr>"
  from assms(1) obtain rest where r: "net_inv 4096 (y_client s)" "net_inv 4096 (y_daemon s)" "prefix (y_answers s @ net_out (y_daemon s)) rest"
    "client_view locs e ki (y_answers s @ net_out (y_daemon s)) rest (y_client s) (y_kcr s)"
    "daemon_view Q T (answer locs e) rest s" unfolding system_inv_def by blast
  have o: "net_out (y_client s) = bs @ net_out ?kn" using assms(2,3) by (simp add: net_out_def)
  have "client_view locs e ki (y_answers s @ net_out (y_daemon s)) rest ?kn (y_kcr s)"
    using client_socket_event [where bs = "[]" and sk = sk and sk' = "sk\<lparr>sk_tx := tx\<rparr>", of locs e ki] r(4) assms(2) by auto
  moreover from r(5) have "daemon_view Q T (answer locs e) rest ?s"
  proof (cases rule: daemonE)
    case closed
    then show ?thesis by (intro daemon_closed) simp
  next
    case asked
    then show ?thesis using o by (intro daemon_asked) simp_all
  next
    case answered
    then show ?thesis using o by (intro daemon_answered) simp_all
  qed
  ultimately show ?thesis using r(2,3) inv_fd [OF r(1) assms(2)]
    unfolding system_inv_def by (intro conjI exI [of _ rest]) simp_all
qed

lemma answer_arrives_inv:
  assumes "system_inv Q T locs e ki s" "kn_fd (y_client s) = Some sk" "y_answers s = bs @ later"
  shows "system_inv Q T locs e ki (s\<lparr>y_client := (y_client s)\<lparr>kn_fd := Some (sk\<lparr>sk_rx := sk_rx sk @ bs\<rparr>)\<rparr>, y_answers := later\<rparr>)"
proof -
  let ?kn = "(y_client s)\<lparr>kn_fd := Some (sk\<lparr>sk_rx := sk_rx sk @ bs\<rparr>)\<rparr>"
  let ?s = "s\<lparr>y_client := ?kn, y_answers := later\<rparr>"
  from assms(1) obtain rest where r: "net_inv 4096 (y_client s)" "net_inv 4096 (y_daemon s)" "prefix (y_answers s @ net_out (y_daemon s)) rest"
    "client_view locs e ki (y_answers s @ net_out (y_daemon s)) rest (y_client s) (y_kcr s)"
    "daemon_view Q T (answer locs e) rest s" unfolding system_inv_def by blast
  from r(3) assms(3) obtain rest' where r': "rest = bs @ rest'" "prefix (later @ net_out (y_daemon s)) rest'"
    by (auto simp: prefix_def)
  have "client_view locs e ki (later @ net_out (y_daemon s)) rest' ?kn (y_kcr s)"
    using r(4) unfolding r'(1) by (rule client_socket_event) (use assms(2,3) in auto)
  moreover have o: "net_out ?kn = net_out (y_client s)" using assms(2) by (simp add: net_out_def)
  from r(5) have "daemon_view Q T (answer locs e) rest' ?s"
  proof (cases rule: daemonE)
    case closed
    then show ?thesis by (intro daemon_closed) simp
  next
    case asked
    with r'(1) assms(3) have "rest' = answer locs e" "later = []" by simp_all
    with asked o show ?thesis by (intro daemon_asked) simp_all
  next
    case answered
    then show ?thesis using o by (intro daemon_answered) simp_all
  qed
  ultimately show ?thesis using r(2) r'(2) inv_fd [OF r(1) assms(2)]
    unfolding system_inv_def by (intro conjI exI [of _ rest']) simp_all
qed

lemma daemon_read_event:
  assumes "daemon_view Q T A rest s" "prefix (y_answers s @ net_out (y_daemon s)) rest" "net_inv 4096 (y_daemon s)"
    and "kn_evread (y_daemon s)" "EV_READ \<in> events \<or> EV_TIMEOUT \<in> events" "serves_query readcb T Q A" "length Q \<le> 4096"
  shows "\<exists>kn t. kcn_net_read_cb readcb events ((y_daemon s)\<lparr>kn_evread := False\<rparr>) (y_tables s) = Some (kn, t) \<and> net_inv 4096 kn \<and>
    daemon_view Q T A rest (s\<lparr>y_daemon := kn, y_tables := t\<rparr>) \<and> prefix (y_answers s @ net_out kn) rest \<and>
    (y_answers s @ net_out (y_daemon s) = [] \<longrightarrow> y_answers s @ net_out kn = [] \<or> net_out (y_client s) = [])"
proof -
  let ?d = "y_daemon s"
  have np: "kn_state ?d \<noteq> KCN_NET_STATE_PENDING" and nc: "\<not> closed ?d"
    using assms(3,4) by (auto simp: net_inv_def net_ok_def closed_def)
  from assms(1) nc have a: "waiting ?d" "net_in ?d \<noteq> [] \<longrightarrow> serves_query readcb (y_tables s) Q A" "prefix (net_in ?d) Q"
    "strict_prefix (kb_data (kn_ibuf ?d)) Q"
    using assms(6) by (auto elim!: daemonE simp: np dest: append_prefixD)
  from daemon_event [OF a(1,2) assms(5) a(3,4) assms(7)] obtain kn t where k:
    "kcn_net_read_cb readcb events (?d\<lparr>kn_evread := False\<rparr>) (y_tables s) = Some (kn, t)" "net_inv 4096 kn"
    "closed kn \<or> waiting kn \<and>
      (t = y_tables s \<and> net_in kn = net_in ?d \<and> net_out kn = net_out ?d \<and> strict_prefix (kb_data (kn_ibuf kn)) Q \<or>
       net_in ?d = Q \<and> net_in kn = [] \<and> net_out kn = net_out ?d @ A)" by blast
  let ?s = "s\<lparr>y_daemon := kn, y_tables := t\<rparr>"
  consider (c) "closed kn"
    | (same) "waiting kn" "t = y_tables s" "net_in kn = net_in ?d" "net_out kn = net_out ?d" "strict_prefix (kb_data (kn_ibuf kn)) Q"
    | (answers) "waiting kn" "net_in ?d = Q" "net_in kn = []" "net_out kn = net_out ?d @ A" using k(3) by blast
  then have "daemon_view Q T A rest ?s \<and> prefix (y_answers s @ net_out kn) rest \<and>
    (y_answers s @ net_out ?d = [] \<longrightarrow> y_answers s @ net_out kn = [] \<or> net_out (y_client s) = [])"
  proof cases
    case c
    then have "daemon_view Q T A rest ?s" by (intro daemon_closed) simp
    with c assms(2) show ?thesis by (auto dest: append_prefixD)
  next
    case same
    note fd = waiting_open [OF same(1)]
    from assms(1) have "daemon_view Q T A rest ?s"
    proof (cases rule: daemonE)
      case closed
      with nc show ?thesis by simp
    next
      case asked
      with same fd show ?thesis by (intro daemon_asked) simp_all
    next
      case answered
      with same fd show ?thesis by (intro daemon_answered) simp_all
    qed
    with same(4) assms(2) show ?thesis by simp
  next
    case answers
    note fd = waiting_open [OF answers(1)]
    have Q: "Q \<noteq> []" using a(4) by (auto simp: strict_prefix_def)
    from answers(3) have data: "kb_data (kn_ibuf kn) = []" by (simp add: net_in_def)
    from assms(1) show ?thesis
    proof (cases rule: daemonE)
      case closed
      with nc show ?thesis by simp
    next
      case asked
      from asked(9) answers(2) have e: "y_requests s = []" "net_out (y_client s) = []" by simp_all
      have "daemon_view Q T A rest ?s"
        using answers(1,3) fd e Q data by (intro daemon_answered) (simp_all add: strict_prefix_def)
      with e answers(4) asked(5-7) show ?thesis by simp
    next
      case answered
      with answers(2) Q show ?thesis by simp
    qed
  qed
  with k(1,2) show ?thesis by blast
qed

lemma daemon_write_event:
  assumes "daemon_view Q T A rest s" "prefix (y_answers s @ net_out (y_daemon s)) rest" "net_inv 4096 (y_daemon s)"
    and "kn_evwrite (y_daemon s)" "EV_WRITE \<in> events \<or> EV_TIMEOUT \<in> events"
  shows "\<exists>kn. kcn_net_write_cb events ((y_daemon s)\<lparr>kn_evwrite := False\<rparr>) = Some kn \<and> net_inv 4096 kn \<and>
    daemon_view Q T A rest (s\<lparr>y_daemon := kn\<rparr>) \<and> prefix (y_answers s @ net_out kn) rest \<and>
    (y_answers s @ net_out (y_daemon s) = [] \<longrightarrow> y_answers s @ net_out kn = [])"
proof -
  let ?d = "y_daemon s"
  have nc: "\<not> closed ?d" using assms(4) by (auto simp: closed_def)
  from assms(1) nc have st: "kn_everrs ?d = []" "kn_state ?d = KCN_NET_STATE_PENDING \<or> waiting ?d" by (auto elim: daemonE)
  from write_event [OF assms(3,4,5)] obtain kn where k: "kcn_net_write_cb events (?d\<lparr>kn_evwrite := False\<rparr>) = Some kn" "net_inv 4096 kn"
    "closed kn \<or> kn_fd kn \<noteq> None \<and> net_out kn = net_out ?d \<and> net_in kn = net_in ?d \<and> kn_ibuf kn = kn_ibuf ?d \<and>
      (kn_everrs ?d = [] \<longrightarrow> kn_everrs kn = [] \<and> kn_evread kn = (kn_evread ?d \<or> kn_state ?d = KCN_NET_STATE_PENDING))" by blast
  let ?s = "s\<lparr>y_daemon := kn\<rparr>"
  have "daemon_view Q T A rest ?s \<and> prefix (y_answers s @ net_out kn) rest \<and>
    (y_answers s @ net_out ?d = [] \<longrightarrow> y_answers s @ net_out kn = [])"
  proof (cases "closed kn")
    case True
    then have "daemon_view Q T A rest ?s" by (intro daemon_closed) simp
    with True assms(2) show ?thesis by (auto dest: append_prefixD)
  next
    case False
    with k(3) st(1) have s: "kn_fd kn \<noteq> None" "net_out kn = net_out ?d" "net_in kn = net_in ?d" "kn_ibuf kn = kn_ibuf ?d"
      "kn_everrs kn = []" "kn_evread kn = (kn_evread ?d \<or> kn_state ?d = KCN_NET_STATE_PENDING)" by blast+
    then have w: "waiting kn" using st(2) k(2) by (auto simp: waiting_def)
    from assms(1) have "daemon_view Q T A rest ?s"
    proof (cases rule: daemonE)
      case closed
      with nc show ?thesis by simp
    next
      case asked
      with s w show ?thesis by (intro daemon_asked) simp_all
    next
      case answered
      with s w show ?thesis by (intro daemon_answered) simp_all
    qed
    with s(2) assms(2) show ?thesis by simp
  qed
  with k(1,2) show ?thesis by blast
qed

lemma daemon_socket_inv:
  assumes "system_inv Q T locs e ki s" "kn_fd (y_daemon s) = Some sk" "sk_rx sk' = sk_rx sk @ bs" "y_requests s = bs @ later"
    and "sk_tx sk = tx @ sk_tx sk'"
  shows "system_inv Q T locs e ki (s\<lparr>y_daemon := (y_daemon s)\<lparr>kn_fd := Some sk'\<rparr>, y_requests := later, y_answers := y_answers s @ tx\<rparr>)"
proof -
  let ?kn = "(y_daemon s)\<lparr>kn_fd := Some sk'\<rparr>"
  let ?s = "s\<lparr>y_daemon := ?kn, y_requests := later, y_answers := y_answers s @ tx\<rparr>"
  from assms(1) obtain rest where r: "net_inv 4096 (y_client s)" "net_inv 4096 (y_daemon s)" "prefix (y_answers s @ net_out (y_daemon s)) rest"
    "client_view locs e ki (y_answers s @ net_out (y_daemon s)) rest (y_client s) (y_kcr s)"
    "daemon_view Q T (answer locs e) rest s" unfolding system_inv_def by blast
  have o: "net_out (y_daemon s) = tx @ net_out ?kn" "net_in ?kn = net_in (y_daemon s) @ bs"
    using assms(2,3,5) by (simp_all add: net_out_def net_in_def obytes_def)
  have nc: "\<not> closed (y_daemon s)" using assms(2) by (simp add: closed_def)
  have st: "kn_state ?kn = KCN_NET_STATE_PENDING \<or> waiting ?kn" if "kn_state (y_daemon s) = KCN_NET_STATE_PENDING \<or> waiting (y_daemon s)"
    using that waiting_fd [OF _ assms(2)] by auto
  from r(5) have "daemon_view Q T (answer locs e) rest ?s"
  proof (cases rule: daemonE)
    case closed
    with nc show ?thesis by simp
  next
    case asked
    with o assms(4) st show ?thesis by (intro daemon_asked) simp_all
  next
    case answered
    with o assms(4) st show ?thesis by (intro daemon_answered) simp_all
  qed
  with r(1,3,4) o inv_fd [OF r(2) assms(2)] show ?thesis
    unfolding system_inv_def by (intro conjI exI [of _ rest]) simp_all
qed

text \<open>What the system relies on: a query, a server that answers it, and a client that has room for the answer.\<close>

definition exchange_ok :: "allocator \<Rightarrow> 't net_readcb \<Rightarrow> 't \<Rightarrow> byte list \<Rightarrow> (nat \<times> byte list) list \<Rightarrow> errno \<Rightarrow> kcn_info \<Rightarrow> bool" where
  "exchange_ok malloc readcb T Q locs e ki \<longleftrightarrow> serves_query readcb T Q (answer locs e) \<and> length Q \<le> 4096 \<and>
     locs_ok malloc locs \<and> info_ok ki \<and> info_room ki (length locs) \<and> e < 256 \<and> e \<noteq> EAGAIN"

lemma system_events:
  assumes "exchange_ok malloc readcb T Q locs e ki" "system_inv Q T locs e ki s"
  shows "kn_evread (y_client s) \<Longrightarrow> EV_READ \<in> events \<or> EV_TIMEOUT \<in> events \<Longrightarrow>
      \<exists>kn kcr. kcn_net_read_cb (kcn_client_read malloc errno) events ((y_client s)\<lparr>kn_evread := False\<rparr>) (y_kcr s) = Some (kn, kcr) \<and>
        system_inv Q T locs e ki (s\<lparr>y_client := kn, y_kcr := kcr\<rparr>)"
    "kn_evwrite (y_client s) \<Longrightarrow> EV_WRITE \<in> events \<or> EV_TIMEOUT \<in> events \<Longrightarrow>
      \<exists>kn. kcn_net_write_cb events ((y_client s)\<lparr>kn_evwrite := False\<rparr>) = Some kn \<and> system_inv Q T locs e ki (s\<lparr>y_client := kn\<rparr>)"
    "kn_evread (y_daemon s) \<Longrightarrow> EV_READ \<in> events \<or> EV_TIMEOUT \<in> events \<Longrightarrow>
      \<exists>kn t. kcn_net_read_cb readcb events ((y_daemon s)\<lparr>kn_evread := False\<rparr>) (y_tables s) = Some (kn, t) \<and>
        system_inv Q T locs e ki (s\<lparr>y_daemon := kn, y_tables := t\<rparr>)"
    "kn_evwrite (y_daemon s) \<Longrightarrow> EV_WRITE \<in> events \<or> EV_TIMEOUT \<in> events \<Longrightarrow>
      \<exists>kn. kcn_net_write_cb events ((y_daemon s)\<lparr>kn_evwrite := False\<rparr>) = Some kn \<and> system_inv Q T locs e ki (s\<lparr>y_daemon := kn\<rparr>)"
proof -
  from assms(1) have x: "serves_query readcb T Q (answer locs e)" "length Q \<le> 4096" "locs_ok malloc locs"
    "info_room ki (length locs)" "e < 256" "e \<noteq> EAGAIN" "info_ok ki" by (simp_all add: exchange_ok_def)
  from assms(2) obtain rest where r: "net_inv 4096 (y_client s)" "net_inv 4096 (y_daemon s)" "prefix (y_answers s @ net_out (y_daemon s)) rest"
    "client_view locs e ki (y_answers s @ net_out (y_daemon s)) rest (y_client s) (y_kcr s)"
    "daemon_view Q T (answer locs e) rest s" unfolding system_inv_def by blast
  {
    assume a: "kn_evread (y_client s)" "EV_READ \<in> events \<or> EV_TIMEOUT \<in> events"
    from client_read_event [OF r(4,1) a x(3-7), of errno] obtain kn kcr where k:
      "kcn_net_read_cb (kcn_client_read malloc errno) events ((y_client s)\<lparr>kn_evread := False\<rparr>) (y_kcr s) = Some (kn, kcr)"
      "net_inv 4096 kn" "client_view locs e ki (y_answers s @ net_out (y_daemon s)) rest kn kcr" "closed kn \<or> net_out kn = net_out (y_client s)"
      by blast
    have "system_inv Q T locs e ki (s\<lparr>y_client := kn, y_kcr := kcr\<rparr>)"
      using k(2,3) r(2,3) daemon_view_client [OF r(5) k(4)] unfolding system_inv_def by (intro conjI exI [of _ rest]) simp_all
    with k(1) show "\<exists>kn kcr. kcn_net_read_cb (kcn_client_read malloc errno) events ((y_client s)\<lparr>kn_evread := False\<rparr>) (y_kcr s) = Some (kn, kcr) \<and>
        system_inv Q T locs e ki (s\<lparr>y_client := kn, y_kcr := kcr\<rparr>)" by blast
  next
    assume a: "kn_evwrite (y_client s)" "EV_WRITE \<in> events \<or> EV_TIMEOUT \<in> events"
    from client_write_event [OF r(4,1) a] obtain kn where k: "kcn_net_write_cb events ((y_client s)\<lparr>kn_evwrite := False\<rparr>) = Some kn"
      "net_inv 4096 kn" "client_view locs e ki (y_answers s @ net_out (y_daemon s)) rest kn (y_kcr s)"
      "closed kn \<or> net_out kn = net_out (y_client s)" by blast
    have "s\<lparr>y_client := kn, y_kcr := y_kcr s\<rparr> = s\<lparr>y_client := kn\<rparr>" by simp
    with daemon_view_client [OF r(5) k(4), of "y_kcr s"] have "daemon_view Q T (answer locs e) rest (s\<lparr>y_client := kn\<rparr>)" by simp
    with k(2,3) r(2,3) have "system_inv Q T locs e ki (s\<lparr>y_client := kn\<rparr>)"
      unfolding system_inv_def by (intro conjI exI [of _ rest]) simp_all
    with k(1) show "\<exists>kn. kcn_net_write_cb events ((y_client s)\<lparr>kn_evwrite := False\<rparr>) = Some kn \<and>
        system_inv Q T locs e ki (s\<lparr>y_client := kn\<rparr>)" by blast
  next
    assume a: "kn_evread (y_daemon s)" "EV_READ \<in> events \<or> EV_TIMEOUT \<in> events"
    from daemon_read_event [OF r(5,3,2) a x(1,2)] obtain kn t where k:
      "kcn_net_read_cb readcb events ((y_daemon s)\<lparr>kn_evread := False\<rparr>) (y_tables s) = Some (kn, t)" "net_inv 4096 kn"
      "daemon_view Q T (answer locs e) rest (s\<lparr>y_daemon := kn, y_tables := t\<rparr>)" "prefix (y_answers s @ net_out kn) rest"
      "y_answers s @ net_out (y_daemon s) = [] \<longrightarrow> y_answers s @ net_out kn = [] \<or> net_out (y_client s) = []" by blast
    from view_answers [OF r(4) k(5) r(1)] k(2-4) r(1) have "system_inv Q T locs e ki (s\<lparr>y_daemon := kn, y_tables := t\<rparr>)"
      unfolding system_inv_def by (intro conjI exI [of _ rest]) simp_all
    with k(1) show "\<exists>kn t. kcn_net_read_cb readcb events ((y_daemon s)\<lparr>kn_evread := False\<rparr>) (y_tables s) = Some (kn, t) \<and>
        system_inv Q T locs e ki (s\<lparr>y_daemon := kn, y_tables := t\<rparr>)" by blast
  next
    assume a: "kn_evwrite (y_daemon s)" "EV_WRITE \<in> events \<or> EV_TIMEOUT \<in> events"
    from daemon_write_event [OF r(5,3,2) a] obtain kn where k: "kcn_net_write_cb events ((y_daemon s)\<lparr>kn_evwrite := False\<rparr>) = Some kn"
      "net_inv 4096 kn" "daemon_view Q T (answer locs e) rest (s\<lparr>y_daemon := kn\<rparr>)" "prefix (y_answers s @ net_out kn) rest"
      "y_answers s @ net_out (y_daemon s) = [] \<longrightarrow> y_answers s @ net_out kn = []" by blast
    from view_answers [OF r(4) _ r(1), of "y_answers s @ net_out kn"] k(2-5) r(1) have "system_inv Q T locs e ki (s\<lparr>y_daemon := kn\<rparr>)"
      unfolding system_inv_def by (intro conjI exI [of _ rest]) simp_all
    with k(1) show "\<exists>kn. kcn_net_write_cb events ((y_daemon s)\<lparr>kn_evwrite := False\<rparr>) = Some kn \<and>
        system_inv Q T locs e ki (s\<lparr>y_daemon := kn\<rparr>)" by blast
  }
qed

lemma system_step_inv:
  assumes "system_step malloc errno readcb s s'" "exchange_ok malloc readcb T Q locs e ki" "system_inv Q T locs e ki s"
  shows "system_inv Q T locs e ki s'"
  using assms(1,3)
proof (induction rule: system_step.induct)
  case (client_reads s events kn kcr)
  from system_events(1) [OF assms(2) client_reads(4,1,2), of errno] client_reads(3) show ?case by auto
next
  case (client_writes s events kn)
  from system_events(2) [OF assms(2) client_writes(4,1,2)] client_writes(3) show ?case by auto
next
  case (client_socket s sk sys eof)
  let ?kn = "(y_client s)\<lparr>kn_fd := Some (sk\<lparr>sk_eof := eof, sk_sys := sys\<rparr>)\<rparr>"
  have v: "client_view locs e ki (y_answers s @ net_out (y_daemon s)) rest ?kn (y_kcr s)"
    if "client_view locs e ki (y_answers s @ net_out (y_daemon s)) rest (y_client s) (y_kcr s)" for rest
    using client_socket_event [where bs = "[]" and sk = sk and sk' = "sk\<lparr>sk_eof := eof, sk_sys := sys\<rparr>", of locs e ki] that client_socket(1) by auto
  have "net_inv 4096 (y_client s)" using client_socket(2) by (simp add: system_inv_def)
  from client_steps [OF client_socket(2) _ inv_fd [OF this client_socket(1)] v] client_socket(1)
  show ?case by (simp add: net_out_def obytes_def)
next
  case (request_leaves s sk bs rest)
  from request_leaves_inv [OF request_leaves(3,1,2)] show ?case .
next
  case (answer_arrives s sk bs rest)
  from answer_arrives_inv [OF answer_arrives(3,1,2)] show ?case .
next
  case (daemon_reads s events kn t)
  from system_events(3) [OF assms(2) daemon_reads(4,1,2)] daemon_reads(3) show ?case by auto
next
  case (daemon_writes s events kn)
  from system_events(4) [OF assms(2) daemon_writes(4,1,2)] daemon_writes(3) show ?case by auto
next
  case (daemon_socket s sk sys eof)
  from daemon_socket_inv [OF daemon_socket(2,1), of "sk\<lparr>sk_eof := eof, sk_sys := sys\<rparr>" "[]" "y_requests s" "[]"] show ?case by simp
next
  case (answer_leaves s sk bs rest)
  from daemon_socket_inv [OF answer_leaves(3,1), of "sk\<lparr>sk_tx := rest\<rparr>" "[]" "y_requests s" bs] answer_leaves(2) show ?case by simp
next
  case (request_arrives s sk bs rest)
  from daemon_socket_inv [OF request_arrives(3,1), of "sk\<lparr>sk_rx := sk_rx sk @ bs\<rparr>" bs rest "[]"] request_arrives(2) show ?case by simp
qed

lemma system_run_inv:
  assumes "system_run malloc errno readcb s0 s" "exchange_ok malloc readcb T Q locs e ki" "system_inv Q T locs e ki s0"
  shows "system_inv Q T locs e ki s"
  using assms(1,3) by (induction rule: system_run.induct) (use system_step_inv [OF _ assms(2)] in blast)+

end
