(* ===== verification/Kcn_Import.thy ===== *)
theory Kcn_Import
  imports Kcn_System
begin

text \<open>
  An import from a file to the tables of the daemon over a connection: the events of the file, those of both
  ends of the connection and the bytes on the way in any order.  The tables hold always a beginning of the lines.
\<close>

section \<open>The daemon on a beginning of the additions\<close>

lemma of_nat_not_now:
  assumes "t < 2 ^ 63" shows "(of_nat t :: time_t) \<noteq> KCN_TIME_NOW"
proof
  assume "of_nat t = (- 1 :: time_t)"
  then have "(of_nat (Suc t) :: time_t) = 0" by simp
  then have "2 ^ 64 dvd Suc t" by (simp add: word_of_nat_eq_0_iff del: of_nat_Suc)
  then have "2 ^ 64 \<le> Suc t" by (rule dvd_imp_le) simp
  with assms show False by simp
qed

lemma entry_add_fields:
  assumes "entry_ok e"
  shows "kma_type (entry_add type e) = type" "kma_loclen (entry_add type e) = length (kma_loc (entry_add type e))"
    "kma_time (entry_add type e) \<noteq> KCN_TIME_NOW"
  using assms by (cases e; simp add: of_nat_not_now)+

abbreviation entry_records :: "c_enum \<Rightarrow> entry list \<Rightarrow> kcndb_db_record list" where
  "entry_records type es \<equiv> map (\<lambda>e. add_record (kma_time (entry_add type e)) (entry_add type e)) es"

abbreviation entry_measurements :: "entry list \<Rightarrow> (time_t \<times> uint64 \<times> byte list) list" where
  "entry_measurements es \<equiv> map (\<lambda>(time, val, loc). (of_nat time, of_nat val, loc)) es"

lemma entry_measurements: "map measurement (entry_records type es) = entry_measurements es"
  by (auto simp: measurement_def add_record_def)

lemma add_run_append: "add_run D L rs D1 L1 \<Longrightarrow> add_run D1 L1 rs' D2 L2 \<Longrightarrow> add_run D L (rs @ rs') D2 L2"
  by (induction rule: add_run.induct) (auto intro: run_Cons)

inductive_cases add_run_ConsE: "add_run D L (r # rs) D'' L''"

text \<open>\<open>k\<close> of the entries are in the table, which takes the others.\<close>

definition stored :: "c_enum \<Rightarrow> entry list \<Rightarrow> byte list \<Rightarrow> byte list \<Rightarrow> byte list \<Rightarrow> byte list \<Rightarrow> nat \<Rightarrow>
    kcndb_db_base list \<times> kcndb_db_table list \<Rightarrow> bool" where
  "stored type es D L D' L' k = (\<lambda>(bases, kd). k \<le> length es \<and> TYPE2INDEX type < length bases \<and> TYPE2INDEX type < length kd \<and>
     (\<exists>Dk Lk. add_ready (bases ! TYPE2INDEX type) (kd ! TYPE2INDEX type) Dk Lk \<and>
        add_run D L (entry_records type (take k es)) Dk Lk \<and> add_run Dk Lk (entry_records type (drop k es)) D' L'))"

lemma stored_next:
  assumes "stored type es D L D' L' k (bases, kd)" "k < length es" "entry_ok (es ! k)" "type < 256"
    and "kn_ibuf kn = zbuf pre [] (add_msg (entry_add type (es ! k)) @ t) post"
  shows "\<exists>tabs. kcndb_server_recv malloc now kn (bases, kd) = kcndb_server_recv malloc now
      (kn\<lparr>kn_ibuf := zbuf (pre @ add_msg (entry_add type (es ! k))) [] t post\<rparr>) tabs \<and> stored type es D L D' L' (Suc k) tabs"
proof -
  let ?i = "TYPE2INDEX type" and ?a = "entry_add type (es ! k)"
  let ?r = "add_record (kma_time ?a) ?a"
  note f = entry_add_fields [OF assms(3), of type]
  have d: "drop k es = es ! k # drop (Suc k) es" using assms(2) by (simp add: Cons_nth_drop_Suc)
  from assms(1) obtain Dk Lk where s: "?i < length bases" "?i < length kd" "add_ready (bases ! ?i) (kd ! ?i) Dk Lk"
    "add_run D L (entry_records type (take k es)) Dk Lk" "add_run Dk Lk (?r # entry_records type (drop (Suc k) es)) D' L'"
    by (auto simp: stored_def d)
  from s(5) obtain idx L1 where r: "record_fits Dk Lk ?r" "loc_effect Lk (kdr_loc ?r) idx L1"
    "add_run (Dk @ record_bytes (?r\<lparr>kdr_locidx := idx\<rparr>)) L1 (entry_records type (drop (Suc k) es)) D' L'" by (rule add_run_ConsE)
  have e: "loc_effect Lk (kma_loc ?a) idx L1" using r(2) by (simp add: add_record_def)
  from recv_add [OF assms(5) _ f(2) _ _ _ _ r(1) e, where malloc = malloc and now = now and bases = bases and kd = kd] f s(1-3) assms(4)
  obtain kdb kdt where k: "kcndb_server_recv malloc now kn (bases, kd) = kcndb_server_recv malloc now
      (kn\<lparr>kn_ibuf := zbuf (pre @ add_msg ?a) [] t post\<rparr>) (bases[?i := kdb], kd[?i := kdt])"
    "add_ready kdb kdt (Dk @ record_bytes (?r\<lparr>kdr_locidx := idx\<rparr>)) L1" by auto
  have "add_run D L (entry_records type (take (Suc k) es)) (Dk @ record_bytes (?r\<lparr>kdr_locidx := idx\<rparr>)) L1"
    using add_run_append [OF s(4) run_Cons [OF r(1,2) run_Nil]] assms(2) by (simp add: take_Suc_conv_app_nth)
  with k(2) r(3) s(1,2) assms(2) have "stored type es D L D' L' (Suc k) (bases[?i := kdb], kd[?i := kdt])"
    by (auto simp: stored_def)
  with k(1) show ?thesis by blast
qed

text \<open>Whole messages are stored, a beginning of the next one is left.\<close>

lemma recv_part:
  assumes "stored type es D L D' L' k tabs" "list_all entry_ok es" "type < 256"
    and "kn_ibuf kn = zbuf pre [] t post" "t @ u = entry_msgs type (drop k es)"
  shows "\<exists>j pre' t' tabs'. kcndb_server_recv malloc now kn tabs = Some (EAGAIN, kn\<lparr>kn_ibuf := zbuf pre' [] t' post\<rparr>, tabs') \<and>
    stored type es D L D' L' j tabs' \<and> k \<le> j \<and> t' @ u = entry_msgs type (drop j es) \<and>
    length pre' + length t' = length pre + length t \<and> length t' < 4096 \<and>
    (j = length es \<or> length t' < length (add_msg (entry_add type (es ! j))))"
  using assms(1,4,5)
proof (induction "length es - k" arbitrary: k tabs kn pre t)
  case 0
  then have "t = []" "k = length es" by (auto simp: stored_def)
  moreover from this(1) 0(3) have "kn\<lparr>kn_ibuf := zbuf pre [] t post\<rparr> = kn" by simp
  ultimately show ?case using 0 recv_empty [of kn pre "[]" post malloc now tabs]
    by (intro exI [of _ k] exI [of _ pre] exI [of _ t] exI [of _ tabs]) simp
next
  case (Suc n)
  let ?a = "entry_add type (es ! k)"
  from Suc.hyps(2) have k: "k < length es" by simp
  with assms(2) have e: "entry_ok (es ! k)" by (simp add: list_all_length)
  have b: "length (add_body ?a) \<le> 4092" "length (add_msg ?a) \<le> 4096" using e
    by (cases "es ! k"; simp add: add_msg_def length_add_body)+
  have d: "entry_msgs type (drop k es) = add_msg ?a @ entry_msgs type (drop (Suc k) es)"
    using k by (simp add: Cons_nth_drop_Suc [symmetric])
  show ?case
  proof (cases "length t < length (add_msg ?a)")
    case True
    have "t = take (length t) (add_msg ?a)" using arg_cong [OF Suc.prems(3)[unfolded d], of "take (length t)"] True by simp
    then have "prefix t (add_msg ?a)" using take_is_prefix [of "length t" "add_msg ?a"] by simp
    with True have "strict_prefix t (add_msg ?a)" by (auto simp: strict_prefix_def)
    with message_start_waits [OF Suc.prems(2) _ b(1)] have "kcndb_server_recv malloc now kn tabs = Some (EAGAIN, kn, tabs)"
      by (simp add: add_msg_def)
    moreover from Suc.prems(2) have "kn\<lparr>kn_ibuf := zbuf pre [] t post\<rparr> = kn" by simp
    ultimately show ?thesis using Suc.prems True b(2)
      by (intro exI [of _ k] exI [of _ pre] exI [of _ t] exI [of _ tabs]) simp
  next
    case False
    let ?t1 = "drop (length (add_msg ?a)) t"
    have t: "t = add_msg ?a @ ?t1"
      using arg_cong [OF Suc.prems(3)[unfolded d], of "take (length (add_msg ?a))"] False
        append_take_drop_id [of "length (add_msg ?a)" t] by simp
    then have "(add_msg ?a @ ?t1) @ u = add_msg ?a @ entry_msgs type (drop (Suc k) es)" using Suc.prems(3)[unfolded d] by simp
    then have t2: "?t1 @ u = entry_msgs type (drop (Suc k) es)" by (simp only: append.assoc same_append_eq)
    obtain t1 where t: "t = add_msg ?a @ t1" "t1 @ u = entry_msgs type (drop (Suc k) es)" using t t2 by blast
    obtain bases kd where tabs: "tabs = (bases, kd)" by (cases tabs)
    from stored_next [OF Suc.prems(1)[unfolded tabs] k e assms(3) Suc.prems(2)[unfolded t(1)]] obtain tabs1 where
      s: "kcndb_server_recv malloc now kn tabs = kcndb_server_recv malloc now (kn\<lparr>kn_ibuf := zbuf (pre @ add_msg ?a) [] t1 post\<rparr>) tabs1"
        "stored type es D L D' L' (Suc k) tabs1" unfolding tabs by blast
    let ?kn = "kn\<lparr>kn_ibuf := zbuf (pre @ add_msg ?a) [] t1 post\<rparr>"
    have ib: "kn_ibuf ?kn = zbuf (pre @ add_msg ?a) [] t1 post" by simp
    have n: "n = length es - Suc k" using Suc.hyps(2) by simp
    from Suc.hyps(1) [OF n s(2) ib t(2)] obtain j pre' t' tabs' where "kcndb_server_recv malloc now ?kn tabs1 =
        Some (EAGAIN, ?kn\<lparr>kn_ibuf := zbuf pre' [] t' post\<rparr>, tabs')" "stored type es D L D' L' j tabs'" "Suc k \<le> j"
      "t' @ u = entry_msgs type (drop j es)" "length pre' + length t' = length (pre @ add_msg ?a) + length t1" "length t' < 4096"
      "j = length es \<or> length t' < length (add_msg (entry_add type (es ! j)))" by blast
    with s(1) t(1) show ?thesis by (intro exI [of _ j] exI [of _ pre'] exI [of _ t'] exI [of _ tabs']) simp
  qed
qed

lemma stored_le: "stored type es D L D' L' k T \<Longrightarrow> k \<le> length es"
  by (cases T) (simp add: stored_def)

section \<open>The read event of the daemon\<close>

text \<open>
  With bytes there and a socket that works, the daemon goes on waiting, and has taken bytes or used up an outcome; what is
  left in its buffer is only a part of the next message.
\<close>

definition takes_bytes :: "kcn_net \<Rightarrow> sock \<Rightarrow> kcn_net \<Rightarrow> bool" where
  "takes_bytes kn sk kn' \<longleftrightarrow> waiting kn' \<and> kn_evwrite kn' = kn_evwrite kn \<and> (\<exists>sk'. kn_fd kn' = Some sk' \<and> moved sk sk')"

definition holds_part :: "c_enum \<Rightarrow> entry list \<Rightarrow> nat \<Rightarrow> kcn_net \<Rightarrow> bool" where
  "holds_part type es k kn \<longleftrightarrow> k = length es \<or> length (kb_data (kn_ibuf kn)) < length (add_msg (entry_add type (es ! k)))"

lemma holds_part_all:
  assumes "holds_part type es k kn" "k \<le> length es" "kb_data (kn_ibuf kn) = entry_msgs type (drop k es)"
  shows "k = length es"
proof (rule ccontr)
  assume k: "k \<noteq> length es"
  with assms(2) have "drop k es = es ! k # drop (Suc k) es" by (simp add: Cons_nth_drop_Suc)
  with assms(3) have "kb_data (kn_ibuf kn) = add_msg (entry_add type (es ! k)) @ entry_msgs type (drop (Suc k) es)" by simp
  with assms(1) k show False by (simp add: holds_part_def)
qed

lemma import_daemon_takes:
  assumes "has_read kn sk sk1 pre t post kn1" "stored type es D L D' L' k T" "list_all entry_ok es" "type < 256"
    and "net_in kn @ u = entry_msgs type (drop k es)"
  shows "\<exists>kn' T' j. kcndb_server_recv malloc now kn1 T \<bind> (\<lambda>(error, kn, d). read_result error kn d) = Some (kn', T') \<and>
    waiting kn' \<and> kn_fd kn' = Some sk1 \<and> net_out kn' = net_out kn \<and> kn_evwrite kn' = kn_evwrite kn \<and>
    stored type es D L D' L' j T' \<and> k \<le> j \<and> net_in kn' @ u = entry_msgs type (drop j es) \<and> holds_part type es j kn'"
proof -
  from assms(1) have h: "kn_ibuf kn1 = zbuf pre [] t post" "net_in kn = t @ sk_rx sk1" by (simp_all add: has_read_def)
  have "t @ (sk_rx sk1 @ u) = entry_msgs type (drop k es)" using assms(5) h(2) by simp
  from recv_part [OF assms(2-4) h(1) this, of malloc now] obtain j pre' t' T' where
    p: "kcndb_server_recv malloc now kn1 T = Some (EAGAIN, kn1\<lparr>kn_ibuf := zbuf pre' [] t' post\<rparr>, T')" "stored type es D L D' L' j T'" "k \<le> j"
      "t' @ sk_rx sk1 @ u = entry_msgs type (drop j es)" "length pre' + length t' = length pre + length t" "length t' < 4096"
      "j = length es \<or> length t' < length (add_msg (entry_add type (es ! j)))" by blast
  from has_read_waits [OF assms(1) p(5,6), of T'] obtain kn' where
    w: "read_result EAGAIN (kn1\<lparr>kn_ibuf := zbuf pre' [] t' post\<rparr>) T' = Some (kn', T')" "waiting kn'" "kn_fd kn' = Some sk1"
      "kn_ibuf kn' = zbuf pre' [] t' post" "kn_evwrite kn' = kn_evwrite kn" "net_out kn' = net_out kn" by blast
  with p show ?thesis by (intro exI [of _ kn'] exI [of _ T'] exI [of _ j]) (simp add: net_in_def holds_part_def)
qed

lemma import_daemon_reads:
  assumes "waiting kn" "stored type es D L D' L' k T" "list_all entry_ok es" "type < 256"
    and "net_in kn @ u = entry_msgs type (drop k es)" "EV_READ \<in> events \<or> EV_TIMEOUT \<in> events"
  shows "\<exists>kn' T' j. kcn_net_read_cb (kcndb_server_recv malloc now) events (kn\<lparr>kn_evread := False\<rparr>) T = Some (kn', T') \<and>
    net_inv 4096 kn' \<and> stored type es D L D' L' j T' \<and> k \<le> j \<and>
    (closed kn' \<or> waiting kn' \<and> net_out kn' = net_out kn \<and> net_in kn' @ u = entry_msgs type (drop j es)) \<and>
    (holds_part type es k kn \<longrightarrow> closed kn' \<or> holds_part type es j kn') \<and>
    (\<forall>sk. kn_fd kn = Some sk \<and> ready events sk \<longrightarrow> takes_bytes kn sk kn')"
proof -
  obtain sk where sk: "kn_fd kn = Some sk" using waiting_parts [OF assms(1)] by metis
  have inv: "waiting kn' \<Longrightarrow> net_inv 4096 kn'" for kn' by (simp add: waiting_def)
  show ?thesis
  proof (rule read_event [OF assms(1,6) sk, of "kcndb_server_recv malloc now" T])
    fix kn' assume "kcn_net_read_cb (kcndb_server_recv malloc now) events (kn\<lparr>kn_evread := False\<rparr>) T = Some (kn', T)" "net_inv 4096 kn'"
      "closed kn'" "\<not> ready events sk"
    with sk assms(2) show ?thesis by (intro exI [of _ kn'] exI [of _ T] exI [of _ k]) auto
  next
    fix kn' sk' assume k: "kcn_net_read_cb (kcndb_server_recv malloc now) events (kn\<lparr>kn_evread := False\<rparr>) T = Some (kn', T)" "waiting kn'"
      "kn_fd kn' = Some sk'" "sk_rx sk' = sk_rx sk" "kb_data (kn_ibuf kn') = kb_data (kn_ibuf kn)" "net_out kn' = net_out kn"
      "kn_evwrite kn' = kn_evwrite kn" "ready events sk \<longrightarrow> moved sk sk'"
    then have "net_in kn' = net_in kn" "holds_part type es k kn' = holds_part type es k kn" using sk by (simp_all add: net_in_def holds_part_def)
    with k sk inv [OF k(2)] assms(2,5) show ?thesis
      by (intro exI [of _ kn'] exI [of _ T] exI [of _ k]) (auto simp: takes_bytes_def)
  next
    fix kn1 sk1 pre t post assume h: "has_read kn sk sk1 pre t post kn1" and
      cb: "kcn_net_read_cb (kcndb_server_recv malloc now) events (kn\<lparr>kn_evread := False\<rparr>) T =
        kcndb_server_recv malloc now kn1 T \<bind> (\<lambda>(error, kn, d). read_result error kn d)"
    from import_daemon_takes [OF h assms(2-5), of malloc now] obtain kn' T' j where
      p: "kcn_net_read_cb (kcndb_server_recv malloc now) events (kn\<lparr>kn_evread := False\<rparr>) T = Some (kn', T')" "waiting kn'"
        "kn_fd kn' = Some sk1" "net_out kn' = net_out kn" "kn_evwrite kn' = kn_evwrite kn" "stored type es D L D' L' j T'" "k \<le> j"
        "net_in kn' @ u = entry_msgs type (drop j es)" "holds_part type es j kn'" unfolding cb by blast
    moreover have "takes_bytes kn sk kn'" using p(2,3,5) has_read_moved [OF h] by (auto simp: takes_bytes_def)
    ultimately show ?thesis using inv [OF p(2)] sk by (intro exI [of _ kn'] exI [of _ T'] exI [of _ j]) auto
  qed
qed

section \<open>The file of a client that has lost its connection\<close>

text \<open>The lines that are left, whatever has become of the connection.\<close>

definition lines_left :: "entry list \<Rightarrow> ofd \<Rightarrow> kcn_file \<Rightarrow> bool" where
  "lines_left es fd kf \<longleftrightarrow> (\<exists>kn. importing es fd (kf\<lparr>kcf_kn := kn\<rparr>))"

lemma importing_left: "importing es fd kf \<Longrightarrow> lines_left es fd (kf\<lparr>kcf_kn := kn\<rparr>)"
  unfolding lines_left_def by (intro exI [of _ "kcf_kn kf"]) simp

lemma add_send_closed:
  assumes "net_ok 4096 kn" "kn_state kn = KCN_NET_STATE_DISCONNECTED" "kma_loclen kma = length (kma_loc kma)"
    "kma_loclen kma \<le> KCN_MSG_MAXLOCSIZ"
  shows "\<exists>kn'. kcn_client_add_send malloc kn kma = Some (Inl ENETDOWN, kn')"
proof -
  from obuf_ok [OF assms(1)] obtain kb where o: "kcn_net_obuf kn = Some kb" "kb_wf kb" "kb_cap kb = 4096" .
  have "4 + length (add_body kma) \<le> kb_cap kb" using assms(3,4) o(3) by (simp add: length_add_body)
  from add_encode_ok [OF o(2) this] assms(3) obtain post where
    e: "kcn_msg_add_encode kb kma = Some (zbuf [] (header_bytes 3 (add_body kma)) (add_body kma) post)"
      "kb_cap kb = 4 + length (add_body kma) + length post" by auto
  let ?kb = "zbuf [] (header_bytes 3 (add_body kma)) (add_body kma) post"
  have "kb_wf ?kb" "kb_cap ?kb = 4096" using e(2) o(3) by simp_all
  from obuf_sync_ok(3) [OF assms(1) this] assms(2) o(1) e(1) show ?thesis
    by (simp add: kcn_client_add_send_def kcn_net_write_def)
qed

lemma readfile_closed:
  assumes "lines_left es fd kf" "net_ok 4096 (kcf_kn kf)" "kn_state (kcf_kn kf) = KCN_NET_STATE_DISCONNECTED"
  shows "\<exists>r. readfile malloc 0 readable fd kf = Some r \<and>
    (\<forall>again fd' kf'. r = Inr (again, fd', kf') \<longrightarrow> kcf_kn kf' = kcf_kn kf \<and> lines_left es fd' kf')"
proof (cases readable)
  case False
  with assms(1) show ?thesis by (simp add: readfile_def)
next
  case True
  from assms(1) obtain kn where imp: "importing es fd (kf\<lparr>kcf_kn := kn\<rparr>)" by (auto simp: lines_left_def)
  then have ok: "list_all entry_ok es" "can_send kn" by (simp_all add: importing_def)
  show ?thesis
  proof (rule readfile_reads [OF imp, of malloc])
    fix kb error fd' n assume "readfile malloc 0 True fd kf = Some (Inr (error \<noteq> ESHUTDOWN, fd', kf\<lparr>kcf_kb := kb\<rparr>))"
      "importing es fd' (kf\<lparr>kcf_kb := kb, kcf_kn := kn\<rparr>)"
    with True show ?thesis by (auto simp: lines_left_def)
  next
    fix pre t post fd' bs n
    let ?kf1 = "kf\<lparr>kcf_kb := zbuf pre [] t post, kcf_size := length (fd_avail fd')\<rparr>"
    assume rd: "readfile malloc 0 True fd kf = readfile_loop malloc ?kf1 \<bind>
        (\<lambda>r. case r of Inl msg \<Rightarrow> Some (Inl msg)
             | Inr kf \<Rightarrow> do { len \<leftarrow> kcn_buf_len (kcf_kb kf);
                 Some (Inr (True, fd', kf\<lparr>kcf_size := (kcf_size kf + len) mod 2 ^ 64\<rparr>)) })"
      and t: "t @ fd_avail fd' = entry_lines es" and es: "es \<noteq> []" and sz: "length (entry_lines es) < 2 ^ 64"
      and cap: "length pre + length t + length post < KCN_MSG_MAXSIZ \<longrightarrow> length (entry_lines es) \<le> length pre + length t + length post"
    have len: "length (fd_avail fd') + length t = length (entry_lines es)" using arg_cong [OF t, of length] by simp
    show ?thesis
    proof (cases "fd_avail fd' \<noteq> [] \<and> length t < KCN_MSG_MAXSIZ")
      case True
      then have "readfile_loop malloc ?kf1 = Some (Inr ?kf1)" by (subst readfile_loop.simps) (simp add: zbuf_len)
      with rd len sz have "readfile malloc 0 True fd kf = Some (Inr (True, fd', ?kf1\<lparr>kcf_size := length (entry_lines es)\<rparr>))"
        by (simp add: zbuf_len)
      moreover have "0 < length (fd_avail fd')" using True by simp
      with cap len True have "length t < length pre + length t + length post" by linarith
      with ok t sz cap True have "importing es fd' (?kf1\<lparr>kcf_size := length (entry_lines es), kcf_kn := kn\<rparr>)"
        by (simp add: importing_def)
      then have "lines_left es fd' (?kf1\<lparr>kcf_size := length (entry_lines es)\<rparr>)" by (auto simp: lines_left_def)
      ultimately show ?thesis using \<open>readable\<close> by simp
    next
      case full: False
      from es ok(1) obtain e es' where es: "es = e # es'" and e: "entry_ok e" by (cases es) auto
      have "fd_avail fd' = [] \<or> KCN_MSG_MAXSIZ \<le> length t" using full by auto
      from first_line [OF e t [unfolded es] this] obtain t1 where t1: "t = entry_line e @ t1" by blast
      from readline_entry [OF e, of "kcf_type kf" pre t1 post] obtain h where
        l: "readline (kcf_type kf) (zbuf pre [] t post) = Some (Inr (entry_add (kcf_type kf) e), zbuf pre h t1 post)" unfolding t1 by blast
      have "kma_loclen (entry_add (kcf_type kf) e) = length (kma_loc (entry_add (kcf_type kf) e))"
        "kma_loclen (entry_add (kcf_type kf) e) \<le> KCN_MSG_MAXLOCSIZ" using e by (cases e; simp)+
      from add_send_closed [OF assms(2,3) this, of malloc] l full
      have "readfile_loop malloc ?kf1 = Some (Inl ''cannot send add message'')"
        by (subst readfile_loop.simps) (auto simp: zbuf_simps)
      with rd \<open>readable\<close> show ?thesis by simp
    qed
  qed
qed

section \<open>An import as events\<close>

text \<open>
  \<open>kcndbctl -f\<close> with the daemon: the file, whether its event is pending, the structure of the import, and both
  ends of the connection.  An event of the file is one step; all others are those of \<^const>\<open>system_step\<close>.
\<close>

record 't import_system =
  p_fd :: ofd
  p_pending :: bool
  p_kf :: kcn_file
  p_sys :: "'t system"

definition file_event :: "allocator \<Rightarrow> bool \<Rightarrow> 't import_system \<Rightarrow> (string + 't import_system) option" where
  "file_event malloc readable p = do {
     r \<leftarrow> readfile malloc 0 readable (p_fd p) ((p_kf p)\<lparr>kcf_kn := y_client (p_sys p)\<rparr>);
     Some (map_sum id (\<lambda>(again, fd, kf).
       p\<lparr>p_fd := fd, p_pending := again, p_kf := kf, p_sys := (p_sys p)\<lparr>y_client := kcf_kn kf\<rparr>\<rparr>) r)
   }"

inductive import_step :: "allocator \<Rightarrow> errno \<Rightarrow> 't net_readcb \<Rightarrow> 't import_system \<Rightarrow> 't import_system \<Rightarrow> bool"
  for malloc :: allocator and errno :: errno and readcb :: "'t net_readcb" where
  of_file: "p_pending p \<Longrightarrow> file_event malloc readable p = Some (Inr p') \<Longrightarrow> import_step malloc errno readcb p p'"
| of_link: "system_step malloc errno readcb (p_sys p) s \<Longrightarrow> import_step malloc errno readcb p (p\<lparr>p_sys := s\<rparr>)"

inductive import_run :: "allocator \<Rightarrow> errno \<Rightarrow> 't net_readcb \<Rightarrow> 't import_system \<Rightarrow> 't import_system \<Rightarrow> bool"
  for malloc :: allocator and errno :: errno and readcb :: "'t net_readcb" and p0 where
  start: "import_run malloc errno readcb p0 p0"
| step: "import_run malloc errno readcb p0 p \<Longrightarrow> import_step malloc errno readcb p p' \<Longrightarrow> import_run malloc errno readcb p0 p'"

text \<open>
  What holds at any time.  A client that is connected has the lines that are not yet sent, and what it has queued is going to
  be written; nothing is read from its socket.  What is on its way to the daemon continues what the daemon has stored.
\<close>

definition sends_file :: "c_enum \<Rightarrow> entry list \<Rightarrow> ofd \<Rightarrow> bool \<Rightarrow> kcn_file \<Rightarrow> kcn_net \<Rightarrow> bool" where
  "sends_file type es fd pending kf kn \<longleftrightarrow> net_inv 4096 kn \<and>
     (closed kn \<and> (\<exists>es'. lines_left es' fd kf) \<or>
      \<not> closed kn \<and> fd_calm fd \<and> \<not> kn_evread kn \<and> kn_state kn \<noteq> KCN_NET_STATE_PENDING \<and> importing (drop (kcf_line kf) es) fd (kf\<lparr>kcf_kn := kn\<rparr>) \<and>
        kcf_type kf = type \<and> kcf_line kf \<le> length es \<and> (kn_obufq kn \<noteq> [] \<longrightarrow> kn_evwrite kn) \<and> (\<not> pending \<longrightarrow> kcf_line kf = length es))"

definition takes_file :: "c_enum \<Rightarrow> entry list \<Rightarrow> nat \<Rightarrow> nat \<Rightarrow> byte list \<Rightarrow> bool \<Rightarrow> kcn_net \<Rightarrow> bool" where
  "takes_file type es n k way gone kn \<longleftrightarrow> net_inv 4096 kn \<and> (closed kn \<or> kn_everrs kn = [] \<and> kn_fd kn \<noteq> None \<and>
     (kn_state kn = KCN_NET_STATE_PENDING \<or> waiting kn) \<and> net_out kn = [] \<and>
     (\<exists>u. net_in kn @ way @ u = entry_msgs type (drop k es) \<and> (gone \<or> u = entry_msgs type (drop n es))))"

definition import_inv :: "c_enum \<Rightarrow> entry list \<Rightarrow> byte list \<Rightarrow> byte list \<Rightarrow> byte list \<Rightarrow> byte list \<Rightarrow>
    (kcndb_db_base list \<times> kcndb_db_table list) import_system \<Rightarrow> bool" where
  "import_inv type es D L D' L' p \<longleftrightarrow> (let s = p_sys p in
     y_answers s = [] \<and> sends_file type es (p_fd p) (p_pending p) (p_kf p) (y_client s) \<and>
     (\<exists>k. stored type es D L D' L' k (y_tables s) \<and>
        takes_file type es (kcf_line (p_kf p)) k (y_requests s @ net_out (y_client s)) (closed (y_client s)) (y_daemon s)))"

lemma import_invE:
  assumes "import_inv type es D L D' L' p"
  obtains k where "y_answers (p_sys p) = []" "sends_file type es (p_fd p) (p_pending p) (p_kf p) (y_client (p_sys p))"
    "stored type es D L D' L' k (y_tables (p_sys p))"
    "takes_file type es (kcf_line (p_kf p)) k (y_requests (p_sys p) @ net_out (y_client (p_sys p))) (closed (y_client (p_sys p))) (y_daemon (p_sys p))"
  using assms unfolding import_inv_def Let_def by blast

lemma import_invI:
  assumes "y_answers (p_sys p) = []" "sends_file type es (p_fd p) (p_pending p) (p_kf p) (y_client (p_sys p))"
    "stored type es D L D' L' k (y_tables (p_sys p))"
    "takes_file type es (kcf_line (p_kf p)) k (y_requests (p_sys p) @ net_out (y_client (p_sys p))) (closed (y_client (p_sys p))) (y_daemon (p_sys p))"
  shows "import_inv type es D L D' L' p"
  using assms unfolding import_inv_def Let_def by blast

text \<open>What is lost with the client's connection never arrives.\<close>

lemma takes_file_way:
  assumes "takes_file type es n k (q @ way) gone kn" "gone' \<and> way' = [] \<or> gone' = gone \<and> way' @ entry_msgs type (drop n' es) = way @ entry_msgs type (drop n es) \<and> \<not> gone
      \<or> gone' = gone \<and> way' = way \<and> gone"
  shows "takes_file type es n' k (q @ way') gone' kn"
proof (cases "closed kn")
  case True
  with assms(1) show ?thesis by (simp add: takes_file_def)
next
  case False
  with assms(1) obtain u where u: "net_in kn @ (q @ way) @ u = entry_msgs type (drop k es)" "gone \<or> u = entry_msgs type (drop n es)"
    and r: "net_inv 4096 kn" "kn_everrs kn = []" "kn_fd kn \<noteq> None" "kn_state kn = KCN_NET_STATE_PENDING \<or> waiting kn" "net_out kn = []"
    unfolding takes_file_def by blast
  have "\<exists>u'. net_in kn @ (q @ way') @ u' = entry_msgs type (drop k es) \<and> (gone' \<or> u' = entry_msgs type (drop n' es))"
    using assms(2)
  proof (elim disjE conjE)
    assume "gone'" "way' = []"
    with u(1) show ?thesis by (intro exI [of _ "way @ u"]) simp
  next
    assume g: "gone' = gone" "way' @ entry_msgs type (drop n' es) = way @ entry_msgs type (drop n es)" "\<not> gone"
    with u show ?thesis by (intro exI [of _ "entry_msgs type (drop n' es)"]) simp
  next
    assume "gone' = gone" "way' = way" gone
    with u show ?thesis by blast
  qed
  with r show ?thesis by (simp add: takes_file_def)
qed

section \<open>Every event keeps it\<close>

lemma lines_left_kn [simp]: "lines_left es fd (kf\<lparr>kcf_kn := kn\<rparr>) = lines_left es fd kf"
  by (simp add: lines_left_def)

lemma importing_kn: "importing es fd (kf\<lparr>kcf_kn := kn\<rparr>) \<Longrightarrow> can_send kn' \<Longrightarrow> importing es fd (kf\<lparr>kcf_kn := kn'\<rparr>)"
  by (cases kf) (simp only: importing_def kcn_file.select_convs kcn_file.update_convs, blast)

lemma imported_out:
  assumes "imported kf es kf'"
  shows "net_out (kcf_kn kf') = net_out (kcf_kn kf) @ entry_msgs (kcf_type kf) es"
proof -
  from assms have "obytes (kcf_kn kf') = obytes (kcf_kn kf) @ entry_msgs (kcf_type kf) es" "kn_fd (kcf_kn kf') = kn_fd (kcf_kn kf)"
    "kn_fd (kcf_kn kf') \<noteq> None" by (auto simp: imported_def same_link_def can_send_def)
  then show ?thesis by (auto simp: net_out_def)
qed

lemma sends_file_event:
  assumes "importing (drop n es) fd kf" "n = kcf_line kf" "n \<le> length es" "fd_calm fd" "alloc_total malloc" "kcf_type kf = type"
    and "net_inv 4096 (kcf_kn kf)" "\<not> kn_evread (kcf_kn kf)" "kn_state (kcf_kn kf) \<noteq> KCN_NET_STATE_PENDING"
      "kn_obufq (kcf_kn kf) \<noteq> [] \<longrightarrow> kn_evwrite (kcf_kn kf)"
  shows "\<exists>again fd' kf'. readfile malloc 0 readable fd kf = Some (Inr (again, fd', kf')) \<and>
    sends_file type es fd' again kf' (kcf_kn kf') \<and> \<not> closed (kcf_kn kf') \<and>
    net_out (kcf_kn kf') @ entry_msgs type (drop (kcf_line kf') es) = net_out (kcf_kn kf) @ entry_msgs type (drop n es) \<and>
    same_link (kcf_kn kf) (kcf_kn kf') \<and> length (fd_avail fd') \<le> length (fd_avail fd) \<and>
    (readable \<and> again \<longrightarrow> length (fd_avail fd') < length (fd_avail fd))"
proof -
  have open_kn: "\<not> closed kn" if "can_send kn" for kn using that by (auto simp: can_send_def closed_def)
  show ?thesis
  proof (cases readable)
    case False
    from assms(1) have "can_send (kcf_kn kf)" by (simp add: importing_def)
    with assms(1-4,6-10) open_kn have "sends_file type es fd True kf (kcf_kn kf)" "\<not> closed (kcf_kn kf)"
      by (auto simp: sends_file_def)
    with False assms(2) show ?thesis by (intro exI [of _ True] exI [of _ fd] exI [of _ kf]) (simp add: readfile_def)
  next
    case True
    from readfile_imports [OF assms(5,1)] obtain again fd' kf' es1 es2 bs error m where
      r: "readfile malloc 0 True fd kf = Some (Inr (again, fd', kf'))" "drop n es = es1 @ es2" "imported kf es1 kf'"
        "importing es2 fd' kf'" "again \<longleftrightarrow> error \<noteq> ESHUTDOWN" "error = 0 \<longleftrightarrow> bs \<noteq> []" "posix_rd_post fd m error bs fd'" "0 < m"
      by blast
    from r(7,8) assms(4) have p: "fd_avail fd = bs @ fd_avail fd'" "fd_calm fd'"
      "bs = [] \<longrightarrow> error = ESHUTDOWN \<and> fd_avail fd = []" unfolding posix_rd_post_def by blast+
    have i: "kcf_type kf' = kcf_type kf" "kcf_line kf' = n + length es1" "can_send (kcf_kn kf')" "same_link (kcf_kn kf) (kcf_kn kf')"
      "kcf_kn kf' = kcf_kn kf \<or> kn_evwrite (kcf_kn kf')" using r(3) assms(2) by (simp_all add: imported_def)
    have d: "drop (kcf_line kf') es = es2" using arg_cong [OF r(2), of "drop (length es1)"] i(2) by (simp add: add.commute)
    have le: "kcf_line kf' \<le> length es" using arg_cong [OF r(2), of length] i(2) assms(3) by simp
    have e: "es2 = []" if "\<not> again"
    proof -
      from that r(5,6) have "bs = []" by auto
      with p have "fd_avail fd' = []" by simp
      with r(4) show ?thesis by (simp add: importing_def)
    qed
    have le2: "\<not> again \<Longrightarrow> kcf_line kf' = length es" using e d le by auto
    have inv: "net_inv 4096 (kcf_kn kf')" using assms(7,8) i(3,4) by (simp add: net_inv_def can_send_def same_link_def ibuf_room_def)
    have l: "\<not> kn_evread (kcf_kn kf')" "kn_state (kcf_kn kf') \<noteq> KCN_NET_STATE_PENDING" using i(4) assms(8,9) by (simp_all add: same_link_def)
    have q: "kn_obufq (kcf_kn kf') \<noteq> [] \<longrightarrow> kn_evwrite (kcf_kn kf')" using i(5) assms(10) by auto
    have "importing (drop (kcf_line kf') es) fd' (kf'\<lparr>kcf_kn := kcf_kn kf'\<rparr>)" using r(4) by (simp add: d)
    with inv l q le le2 p(2) i(1) assms(6) open_kn [OF i(3)] have s: "sends_file type es fd' again kf' (kcf_kn kf')"
      by (simp add: sends_file_def)
    from imported_out [OF r(3)] have "net_out (kcf_kn kf') @ entry_msgs type (drop (kcf_line kf') es) = net_out (kcf_kn kf) @ entry_msgs type (drop n es)"
      by (simp add: d r(2) assms(6))
    moreover have "length (fd_avail fd') \<le> length (fd_avail fd)" "again \<longrightarrow> length (fd_avail fd') < length (fd_avail fd)"
      using p(1,3) r(5) by (cases bs; simp)+
    ultimately show ?thesis using s i(4) open_kn [OF i(3)] r(1) True by auto
  qed
qed

lemma file_event_inv:
  assumes "import_inv type es D L D' L' p" "alloc_total malloc"
  shows "\<exists>r. file_event malloc readable p = Some r \<and> (\<forall>p'. r = Inr p' \<longrightarrow> import_inv type es D L D' L' p') \<and>
    (\<forall>msg. r = Inl msg \<longrightarrow> closed (y_client (p_sys p)))"
proof -
  let ?s = "p_sys p" and ?kf = "(p_kf p)\<lparr>kcf_kn := y_client (p_sys p)\<rparr>"
  let ?c = "y_client ?s"
  from assms(1) obtain k where i: "y_answers ?s = []" "sends_file type es (p_fd p) (p_pending p) (p_kf p) ?c"
    "stored type es D L D' L' k (y_tables ?s)"
    "takes_file type es (kcf_line (p_kf p)) k (y_requests ?s @ net_out ?c) (closed ?c) (y_daemon ?s)" by (rule import_invE)
  have upd: "import_inv type es D L D' L' (p\<lparr>p_fd := fd, p_pending := again, p_kf := kf, p_sys := ?s\<lparr>y_client := kcf_kn kf\<rparr>\<rparr>)"
    if "sends_file type es fd again kf (kcf_kn kf)"
      "takes_file type es (kcf_line kf) k (y_requests ?s @ net_out (kcf_kn kf)) (closed (kcf_kn kf)) (y_daemon ?s)" for fd again kf
    by (rule import_invI [where k = k]) (use that i(1,3) in simp_all)
  show ?thesis
  proof (cases "closed ?c")
    case True
    with i(2) obtain es' where l: "net_inv 4096 ?c" "lines_left es' (p_fd p) ?kf" unfolding sends_file_def by auto
    from l(1) True have "net_ok 4096 (kcf_kn ?kf)" "kn_state (kcf_kn ?kf) = KCN_NET_STATE_DISCONNECTED"
      by (simp_all add: net_inv_def closed_def)
    from readfile_closed [OF l(2) this, of malloc readable] obtain r where
      r: "readfile malloc 0 readable (p_fd p) ?kf = Some r"
        "\<forall>again fd' kf'. r = Inr (again, fd', kf') \<longrightarrow> kcf_kn kf' = ?c \<and> lines_left es' fd' kf'" by auto
    have "import_inv type es D L D' L' (p\<lparr>p_fd := fd, p_pending := again, p_kf := kf, p_sys := ?s\<lparr>y_client := kcf_kn kf\<rparr>\<rparr>)"
      if "r = Inr (again, fd, kf)" for again fd kf
    proof (rule upd)
      from r(2) that have k: "kcf_kn kf = ?c" "lines_left es' fd kf" by blast+
      with True l(1) show "sends_file type es fd again kf (kcf_kn kf)" by (auto simp: sends_file_def)
      show "takes_file type es (kcf_line kf) k (y_requests ?s @ net_out (kcf_kn kf)) (closed (kcf_kn kf)) (y_daemon ?s)"
        by (rule takes_file_way [OF i(4)]) (use k(1) True in simp)
    qed
    with r(1) True show ?thesis by (cases r) (auto simp: file_event_def)
  next
    case False
    with i(2) have o: "net_inv 4096 ?c" "fd_calm (p_fd p)" "\<not> kn_evread ?c" "kn_state ?c \<noteq> KCN_NET_STATE_PENDING"
      "importing (drop (kcf_line (p_kf p)) es) (p_fd p) ?kf" "kcf_type (p_kf p) = type" "kcf_line (p_kf p) \<le> length es"
      "kn_obufq ?c \<noteq> [] \<longrightarrow> kn_evwrite ?c" unfolding sends_file_def by blast+
    from sends_file_event [OF o(5) _ o(7,2) assms(2), of type readable] o obtain again fd kf where
      r: "readfile malloc 0 readable (p_fd p) ?kf = Some (Inr (again, fd, kf))" "sends_file type es fd again kf (kcf_kn kf)"
        "\<not> closed (kcf_kn kf)"
        "net_out (kcf_kn kf) @ entry_msgs type (drop (kcf_line kf) es) = net_out ?c @ entry_msgs type (drop (kcf_line (p_kf p)) es)"
      by auto
    have "takes_file type es (kcf_line kf) k (y_requests ?s @ net_out (kcf_kn kf)) (closed (kcf_kn kf)) (y_daemon ?s)"
      by (rule takes_file_way [OF i(4)]) (use r(3,4) False in simp)
    from upd [OF r(2) this] r(1) show ?thesis by (simp add: file_event_def)
  qed
qed

lemma sends_file_writes:
  assumes "sends_file type es fd pending kf kn" "kn_evwrite kn" "EV_WRITE \<in> events \<or> EV_TIMEOUT \<in> events"
  shows "\<exists>kn'. kcn_net_write_cb events (kn\<lparr>kn_evwrite := False\<rparr>) = Some kn' \<and> sends_file type es fd pending kf kn' \<and>
    \<not> closed kn \<and> (closed kn' \<or> net_out kn' = net_out kn)"
proof -
  have nc: "\<not> closed kn" using assms(2) by (auto simp: closed_def)
  with assms(1) have o: "net_inv 4096 kn" "fd_calm fd" "\<not> kn_evread kn" "kn_state kn \<noteq> KCN_NET_STATE_PENDING"
    "importing (drop (kcf_line kf) es) fd (kf\<lparr>kcf_kn := kn\<rparr>)" "kcf_type kf = type" "kcf_line kf \<le> length es"
    "\<not> pending \<longrightarrow> kcf_line kf = length es" unfolding sends_file_def by blast+
  have er: "kn_everrs kn = []" using o(5) by (simp add: importing_def can_send_def)
  from write_event [OF o(1) assms(2,3)] obtain kn' where w: "kcn_net_write_cb events (kn\<lparr>kn_evwrite := False\<rparr>) = Some kn'" "net_inv 4096 kn'"
    "closed kn' \<or> kn_fd kn' \<noteq> None \<and> kn_state kn' = KCN_NET_STATE_ESTABLISHED \<and> net_out kn' = net_out kn \<and>
      (kn_everrs kn = [] \<longrightarrow> kn_everrs kn' = [] \<and> kn_evread kn' = (kn_evread kn \<or> kn_state kn = KCN_NET_STATE_PENDING) \<and>
         (kn_state kn \<noteq> KCN_NET_STATE_PENDING \<longrightarrow> kn_obufq kn' = [] \<or> kn_evwrite kn'))" by blast
  show ?thesis
  proof (cases "closed kn'")
    case True
    from importing_left [OF o(5), of kn] have "\<exists>es'. lines_left es' fd kf" by auto
    with True w(1,2) nc show ?thesis by (auto simp: sends_file_def)
  next
    case False
    with w(3) er o(3,4) have k: "kn_fd kn' \<noteq> None" "kn_state kn' = KCN_NET_STATE_ESTABLISHED" "net_out kn' = net_out kn" "kn_everrs kn' = []"
      "\<not> kn_evread kn'" "kn_obufq kn' = [] \<or> kn_evwrite kn'" by blast+
    from w(2) have "net_ok 4096 kn'" by (simp add: net_inv_def)
    with k(1,4) have "can_send kn'" by (simp add: can_send_def)
    from importing_kn [OF o(5) this] have "importing (drop (kcf_line kf) es) fd (kf\<lparr>kcf_kn := kn'\<rparr>)" .
    with False w(2) o(2,6-8) k(2,5,6) have "sends_file type es fd pending kf kn'" by (auto simp: sends_file_def)
    with w(1) k(3) nc show ?thesis by blast
  qed
qed

lemma sends_file_fd:
  assumes "sends_file type es fd pending kf kn" "kn_fd kn = Some sk"
  shows "sends_file type es fd pending kf (kn\<lparr>kn_fd := Some sk'\<rparr>)" "\<not> closed kn"
proof -
  show nc: "\<not> closed kn" using assms(2) by (auto simp: closed_def)
  with assms(1) have o: "net_inv 4096 kn" "fd_calm fd" "\<not> kn_evread kn" "kn_state kn \<noteq> KCN_NET_STATE_PENDING"
    "importing (drop (kcf_line kf) es) fd (kf\<lparr>kcf_kn := kn\<rparr>)" "kcf_type kf = type" "kcf_line kf \<le> length es"
    "\<not> pending \<longrightarrow> kcf_line kf = length es" "kn_obufq kn \<noteq> [] \<longrightarrow> kn_evwrite kn" unfolding sends_file_def by blast+
  let ?kn = "kn\<lparr>kn_fd := Some sk'\<rparr>"
  have inv: "net_inv 4096 ?kn" by (rule inv_fd [OF o(1) assms(2)])
  then have "can_send ?kn" using o(5) by (simp add: importing_def can_send_def net_inv_def)
  from importing_kn [OF o(5) this] have "importing (drop (kcf_line kf) es) fd (kf\<lparr>kcf_kn := ?kn\<rparr>)" .
  with inv o nc show "sends_file type es fd pending kf ?kn" by (auto simp: sends_file_def closed_def)
qed

text \<open>The daemon's events.\<close>

lemma takes_fileE:
  assumes "takes_file type es n k way gone kn" "kn_fd kn \<noteq> None"
  obtains u where "net_inv 4096 kn" "kn_everrs kn = []" "kn_state kn = KCN_NET_STATE_PENDING \<or> waiting kn" "net_out kn = []"
    "net_in kn @ way @ u = entry_msgs type (drop k es)" "gone \<or> u = entry_msgs type (drop n es)"
  using assms by (auto simp: takes_file_def closed_def)

lemma takes_file_reads:
  assumes "takes_file type es n k way gone kn" "stored type es D L D' L' k T" "list_all entry_ok es" "type < 256"
    and "kn_evread kn" "EV_READ \<in> events \<or> EV_TIMEOUT \<in> events"
  shows "\<exists>kn' T' j. kcn_net_read_cb (kcndb_server_recv malloc now) events (kn\<lparr>kn_evread := False\<rparr>) T = Some (kn', T') \<and>
    stored type es D L D' L' j T' \<and> k \<le> j \<and> takes_file type es n j way gone kn'"
proof -
  from assms(1,5) have "kn_fd kn \<noteq> None" by (auto simp: takes_file_def closed_def net_inv_def net_ok_def)
  from takes_fileE [OF assms(1) this] obtain u where u: "net_inv 4096 kn" "kn_state kn = KCN_NET_STATE_PENDING \<or> waiting kn" "net_out kn = []"
    "net_in kn @ (way @ u) = entry_msgs type (drop k es)" "gone \<or> u = entry_msgs type (drop n es)" by blast
  from u(1,2) assms(5) have w: "waiting kn" by (auto simp: net_inv_def net_ok_def)
  from import_daemon_reads [OF w assms(2-4) u(4) assms(6), of malloc now] obtain kn' T' j where
    r: "kcn_net_read_cb (kcndb_server_recv malloc now) events (kn\<lparr>kn_evread := False\<rparr>) T = Some (kn', T')" "net_inv 4096 kn'"
      "stored type es D L D' L' j T'" "k \<le> j"
      "closed kn' \<or> waiting kn' \<and> net_out kn' = net_out kn \<and> net_in kn' @ way @ u = entry_msgs type (drop j es)" by blast
  have "takes_file type es n j way gone kn'"
    unfolding takes_file_def using r(2,5) u(3,5) waiting_open [of kn'] by auto
  with r(1,3,4) show ?thesis by blast
qed

lemma takes_file_writes:
  assumes "takes_file type es n k way gone kn" "kn_evwrite kn" "EV_WRITE \<in> events \<or> EV_TIMEOUT \<in> events"
  shows "\<exists>kn'. kcn_net_write_cb events (kn\<lparr>kn_evwrite := False\<rparr>) = Some kn' \<and> takes_file type es n k way gone kn'"
proof -
  from assms(1,2) have "kn_fd kn \<noteq> None" by (auto simp: takes_file_def closed_def net_inv_def net_ok_def)
  from takes_fileE [OF assms(1) this] obtain u where u: "net_inv 4096 kn" "kn_everrs kn = []" "kn_state kn = KCN_NET_STATE_PENDING \<or> waiting kn"
    "net_out kn = []" "net_in kn @ way @ u = entry_msgs type (drop k es)" "gone \<or> u = entry_msgs type (drop n es)" by blast
  from write_event [OF u(1) assms(2,3)] obtain kn' where w: "kcn_net_write_cb events (kn\<lparr>kn_evwrite := False\<rparr>) = Some kn'" "net_inv 4096 kn'"
    "closed kn' \<or> kn_fd kn' \<noteq> None \<and> net_out kn' = net_out kn \<and> net_in kn' = net_in kn \<and>
      (kn_everrs kn = [] \<longrightarrow> kn_everrs kn' = [] \<and> kn_evread kn' = (kn_evread kn \<or> kn_state kn = KCN_NET_STATE_PENDING))" by blast
  have "takes_file type es n k way gone kn'"
  proof (cases "closed kn'")
    case True
    with w(2) show ?thesis by (simp add: takes_file_def)
  next
    case False
    with w(3) u(2) have k: "kn_fd kn' \<noteq> None" "net_out kn' = net_out kn" "net_in kn' = net_in kn" "kn_everrs kn' = []"
      "kn_evread kn' = (kn_evread kn \<or> kn_state kn = KCN_NET_STATE_PENDING)" by blast+
    then have "waiting kn'" using u(3) w(2) by (auto simp: waiting_def)
    with k u(4-6) w(2) show ?thesis unfolding takes_file_def by auto
  qed
  with w(1) show ?thesis by blast
qed

lemma takes_file_fd:
  assumes "takes_file type es n k (bs @ way) gone kn" "kn_fd kn = Some sk" "sk_tx sk' = sk_tx sk" "sk_rx sk' = sk_rx sk @ bs"
  shows "takes_file type es n k way gone (kn\<lparr>kn_fd := Some sk'\<rparr>)"
proof -
  from assms(2) have "kn_fd kn \<noteq> None" by simp
  from takes_fileE [OF assms(1) this] obtain u where u: "net_inv 4096 kn" "kn_everrs kn = []" "kn_state kn = KCN_NET_STATE_PENDING \<or> waiting kn"
    "net_out kn = []" "net_in kn @ (bs @ way) @ u = entry_msgs type (drop k es)" "gone \<or> u = entry_msgs type (drop n es)" by blast
  let ?kn = "kn\<lparr>kn_fd := Some sk'\<rparr>"
  have "net_inv 4096 ?kn" by (rule inv_fd [OF u(1) assms(2)])
  moreover have "kn_state ?kn = KCN_NET_STATE_PENDING \<or> waiting ?kn" using u(3) waiting_fd [OF _ assms(2)] by auto
  moreover have "net_out ?kn = []" "net_in ?kn = net_in kn @ bs" using u(4) assms(2-4) by (simp_all add: net_out_def net_in_def obytes_def)
  ultimately show ?thesis using u(2,5,6) unfolding takes_file_def by auto
qed

lemma import_link_inv:
  assumes "system_step malloc errno (kcndb_server_recv smalloc now) (p_sys p) s'" "import_inv type es D L D' L' p"
    and "list_all entry_ok es" "type < 256"
  shows "import_inv type es D L D' L' (p\<lparr>p_sys := s'\<rparr>)"
proof -
  let ?s = "p_sys p" and ?n = "kcf_line (p_kf p)"
  from assms(2) obtain k where i: "y_answers ?s = []" "sends_file type es (p_fd p) (p_pending p) (p_kf p) (y_client ?s)"
    "stored type es D L D' L' k (y_tables ?s)"
    "takes_file type es ?n k (y_requests ?s @ net_out (y_client ?s)) (closed (y_client ?s)) (y_daemon ?s)" by (rule import_invE)
  have keep: "import_inv type es D L D' L' (p\<lparr>p_sys := s'\<rparr>)"
    if "y_answers s' = []" "sends_file type es (p_fd p) (p_pending p) (p_kf p) (y_client s')" "stored type es D L D' L' j (y_tables s')"
      "takes_file type es ?n j (y_requests s' @ net_out (y_client s')) (closed (y_client s')) (y_daemon s')" for j
    by (rule import_invI [where k = j]) (use that in simp_all)
  from assms(1) show ?thesis
  proof (cases rule: system_step.cases)
    case (client_reads events kn kcr)
    with i(2) show ?thesis by (auto simp: sends_file_def closed_def)
  next
    case (client_writes events kn)
    from sends_file_writes [OF i(2) client_writes(2,3)] client_writes(4) have
      w: "sends_file type es (p_fd p) (p_pending p) (p_kf p) kn" "\<not> closed (y_client ?s)" "closed kn \<or> net_out kn = net_out (y_client ?s)" by auto
    have "takes_file type es ?n k (y_requests ?s @ net_out kn) (closed kn) (y_daemon ?s)"
      by (rule takes_file_way [OF i(4)]) (use w in auto)
    with client_writes(1) i w(1) show ?thesis by (intro keep [of k]) simp_all
  next
    case (client_socket sk sys eof)
    let ?kn = "(y_client ?s)\<lparr>kn_fd := Some (sk\<lparr>sk_eof := eof, sk_sys := sys\<rparr>)\<rparr>"
    from sends_file_fd [OF i(2) client_socket(2)] have f: "sends_file type es (p_fd p) (p_pending p) (p_kf p) ?kn" "\<not> closed (y_client ?s)" by blast+
    have "net_out ?kn = net_out (y_client ?s)" "\<not> closed ?kn" using client_socket(2) by (simp_all add: net_out_def obytes_def closed_def)
    with client_socket(1) i f show ?thesis by (intro keep [of k]) simp_all
  next
    case (request_leaves sk bs rest)
    let ?kn = "(y_client ?s)\<lparr>kn_fd := Some (sk\<lparr>sk_tx := rest\<rparr>)\<rparr>"
    from sends_file_fd [OF i(2) request_leaves(2)] have f: "sends_file type es (p_fd p) (p_pending p) (p_kf p) ?kn" "\<not> closed (y_client ?s)" by blast+
    have "net_out (y_client ?s) = bs @ net_out ?kn" "\<not> closed ?kn"
      using request_leaves(2,3) by (simp_all add: net_out_def obytes_def closed_def)
    with request_leaves(1) i f show ?thesis by (intro keep [of k]) simp_all
  next
    case (answer_arrives sk bs rest)
    let ?kn = "(y_client ?s)\<lparr>kn_fd := Some (sk\<lparr>sk_rx := sk_rx sk @ bs\<rparr>)\<rparr>"
    from sends_file_fd [OF i(2) answer_arrives(2)] have f: "sends_file type es (p_fd p) (p_pending p) (p_kf p) ?kn" "\<not> closed (y_client ?s)" by blast+
    have "net_out ?kn = net_out (y_client ?s)" "\<not> closed ?kn" using answer_arrives(2) by (simp_all add: net_out_def obytes_def closed_def)
    with answer_arrives(1,3) i f show ?thesis by (intro keep [of k]) simp_all
  next
    case (daemon_reads events kn t)
    from takes_file_reads [OF i(4,3) assms(3,4) daemon_reads(2,3), of smalloc now] daemon_reads(4) obtain j where
      "stored type es D L D' L' j t"
      "takes_file type es ?n j (y_requests ?s @ net_out (y_client ?s)) (closed (y_client ?s)) kn" by auto
    with daemon_reads(1) i(1,2) show ?thesis by (intro keep [of j]) simp_all
  next
    case (daemon_writes events kn)
    from takes_file_writes [OF i(4) daemon_writes(2,3)] daemon_writes(4) have
      "takes_file type es ?n k (y_requests ?s @ net_out (y_client ?s)) (closed (y_client ?s)) kn" by auto
    with daemon_writes(1) i(1-3) show ?thesis by (intro keep [of k]) simp_all
  next
    case (daemon_socket sk sys eof)
    from takes_file_fd [OF _ daemon_socket(2), of type es ?n k "[]" _ _ "sk\<lparr>sk_eof := eof, sk_sys := sys\<rparr>"] i(4) have
      "takes_file type es ?n k (y_requests ?s @ net_out (y_client ?s)) (closed (y_client ?s))
        ((y_daemon ?s)\<lparr>kn_fd := Some (sk\<lparr>sk_eof := eof, sk_sys := sys\<rparr>)\<rparr>)" by simp
    with daemon_socket(1) i(1-3) show ?thesis by (intro keep [of k]) simp_all
  next
    case (answer_leaves sk bs rest)
    have "kn_fd (y_daemon ?s) \<noteq> None" using answer_leaves(2) by simp
    from takes_fileE [OF i(4) this] have "net_out (y_daemon ?s) = []" by blast
    with answer_leaves(2,3) have t: "bs = []" "rest = sk_tx sk" by (simp_all add: net_out_def)
    from takes_file_fd [OF _ answer_leaves(2), of type es ?n k "[]" _ _ "sk\<lparr>sk_tx := rest\<rparr>"] i(4) t have
      "takes_file type es ?n k (y_requests ?s @ net_out (y_client ?s)) (closed (y_client ?s))
        ((y_daemon ?s)\<lparr>kn_fd := Some (sk\<lparr>sk_tx := rest\<rparr>)\<rparr>)" by simp
    with answer_leaves(1) t i(1-3) show ?thesis by (intro keep [of k]) simp_all
  next
    case (request_arrives sk bs rest)
    from takes_file_fd [OF _ request_arrives(2), of type es ?n k bs _ _ "sk\<lparr>sk_rx := sk_rx sk @ bs\<rparr>"] i(4) request_arrives(3) have
      "takes_file type es ?n k (rest @ net_out (y_client ?s)) (closed (y_client ?s))
        ((y_daemon ?s)\<lparr>kn_fd := Some (sk\<lparr>sk_rx := sk_rx sk @ bs\<rparr>)\<rparr>)" by simp
    with request_arrives(1) i(1-3) show ?thesis by (intro keep [of k]) simp_all
  qed
qed

lemma import_run_inv:
  assumes "import_run malloc errno (kcndb_server_recv smalloc now) p0 p" "import_inv type es D L D' L' p0"
    and "list_all entry_ok es" "type < 256" "alloc_total malloc"
  shows "import_inv type es D L D' L' p"
  using assms(1,2)
proof (induction rule: import_run.induct)
  case (step p p')
  from step.hyps(2) show ?case
  proof cases
    case (of_file readable)
    with file_event_inv [OF step.IH [OF step.prems] assms(5), of readable] show ?thesis by auto
  next
    case (of_link s)
    with import_link_inv [OF _ step.IH [OF step.prems] assms(3,4)] show ?thesis by blast
  qed
qed

end
