(* ===== verification/Kcn_Progress.thy ===== *)
theory Kcn_Progress
  imports Main
begin

text \<open>
  Systems that come to their end: a step relation with an invariant, a number that every step decreases, and a last
  state that is reached whenever no step is possible.  The exchange of a query and the import of a file are such systems
  while their sockets work.
\<close>

text \<open>When all runs from a state are bounded, one of them cannot go on.\<close>

lemma longest_run:
  assumes "\<forall>n s. (step ^^ n) s0 s \<longrightarrow> n \<le> N"
  shows "\<exists>n s. (step ^^ n) s0 s \<and> (\<nexists>s'. step s s')"
proof (rule ccontr)
  assume "\<not> ?thesis"
  then have go: "\<exists>s'. step s s'" if "(step ^^ n) s0 s" for n s using that by blast
  have "\<exists>s. (step ^^ n) s0 s" for n
  proof (induction n)
    case (Suc n)
    then obtain s where s: "(step ^^ n) s0 s" by blast
    with go obtain s' where "step s s'" by blast
    with s show ?case by auto
  qed simp
  then obtain s where "(step ^^ Suc N) s0 s" by blast
  with assms show False by fastforce
qed

locale progress =
  fixes step :: "'s \<Rightarrow> 's \<Rightarrow> bool" and inv :: "'s \<Rightarrow> bool" and weight :: "'s \<Rightarrow> nat" and final :: "'s \<Rightarrow> bool"
  assumes step_inv: "inv s \<Longrightarrow> step s s' \<Longrightarrow> inv s'"
    and step_weight: "inv s \<Longrightarrow> step s s' \<Longrightarrow> weight s' < weight s"
    and stuck_final: "inv s \<Longrightarrow> \<nexists>s'. step s s' \<Longrightarrow> final s"
begin

lemma run_bounded:
  assumes "inv s0" "(step ^^ n) s0 s"
  shows "inv s \<and> n + weight s \<le> weight s0"
  using assms(2)
proof (induction n arbitrary: s)
  case (Suc n)
  then obtain s1 where s1: "(step ^^ n) s0 s1" "step s1 s" by auto
  from Suc.IH [OF s1(1)] have "inv s1" "n + weight s1 \<le> weight s0" by simp_all
  with step_inv [OF _ s1(2)] step_weight [OF _ s1(2)] show ?case by simp
qed (use assms(1) in simp)

text \<open>Every run is short, and goes on unless it is in a last state.\<close>

lemma run_completes:
  assumes "inv s0" "(step ^^ n) s0 s"
  shows "n \<le> weight s0 \<and> ((\<exists>s'. step s s') \<or> final s)"
  using run_bounded [OF assms] stuck_final [of s] by auto

end

end
