(* ===== verification/Kcn_System_Spec.thy ===== *)
theory Kcn_System_Spec
  imports Kcn_System
begin

text \<open>
  What a client and the daemon promise together: whatever happens on the connection, the client has a beginning
  of the locators that its query selects, and all of them when its loop ends, unless the connection was lost, and
  \<^verbatim>\<open>key2loc\<close> prints them.
\<close>

section \<open>From the start to the end of the client's loop\<close>

text \<open>The client has queued its query, the daemon has made its end of the connection, nothing has been sent.\<close>

definition system_start :: "kcn_net \<Rightarrow> kcn_info \<Rightarrow> kcn_net \<Rightarrow> 't \<Rightarrow> 't system" where
  "system_start ckn ki dkn T = \<lparr>y_client = ckn, y_kcr = \<lparr>kcr_error = 0, kcr_ki = ki\<rparr>, y_requests = [], y_answers = [],
     y_daemon = dkn, y_tables = T\<rparr>"

definition fresh :: "kcn_net \<Rightarrow> byte list \<Rightarrow> bool" where
  "fresh kn Q \<longleftrightarrow> net_inv 4096 kn \<and> kn_state kn = KCN_NET_STATE_PENDING \<and> kn_evwrite kn \<and> kn_everrs kn = [] \<and>
     (\<exists>sk. kn_fd kn = Some sk \<and> sk_rx sk = [] \<and> sk_tx sk = []) \<and> kb_data (kn_ibuf kn) = [] \<and> obytes kn = Q"

lemma system_start_inv:
  assumes "fresh ckn Q" "fresh dkn []" "Q \<noteq> []"
  shows "system_inv Q T locs e ki (system_start ckn ki dkn T)"
proof -
  from assms(1) have c: "net_inv 4096 ckn" "kn_state ckn = KCN_NET_STATE_PENDING" "kn_everrs ckn = []" "obytes ckn = Q" "net_in ckn = []" "net_out ckn = Q" "kn_evwrite ckn"
    by (auto simp: fresh_def net_in_def net_out_def)
  from assms(2) have d: "net_inv 4096 dkn" "kn_state dkn = KCN_NET_STATE_PENDING" "kn_everrs dkn = []" "kn_fd dkn \<noteq> None" "net_in dkn = []"
    "net_out dkn = []" "kb_data (kn_ibuf dkn) = []" by (auto simp: fresh_def net_in_def net_out_def)
  have "client_view locs e ki ([] @ net_out dkn) (answer locs e) ckn \<lparr>kcr_error = 0, kcr_ki = ki\<rparr>"
    unfolding client_view_def using c assms(3) d(6) by simp
  moreover have "daemon_view Q T (answer locs e) (answer locs e) (system_start ckn ki dkn T)"
    using c d assms(3) by (intro daemon_asked) (simp_all add: system_start_def strict_prefix_def)
  ultimately show ?thesis unfolding system_inv_def using c(1) d(1,6)
    by (intro conjI exI [of _ "answer locs e"]) (simp_all add: system_start_def)
qed

lemma net_new_fresh:
  assumes "alloc_ok malloc" "kcn_net_new kn_new malloc base_set [] sk 4096 name = Some (Some kn)"
  shows "kb_data (kn_ibuf kn) = []"
proof -
  from assms(2) obtain id od where "kcn_buf_data_new malloc 4096 = Some id" "kcn_buf_data_new malloc 4096 = Some od"
    "kn_ibuf kn = \<lparr>kb_kbd = Some id, kb_cp = kbd_sp id\<rparr>"
    by (auto simp: kcn_net_new_def kcn_buf_init_def kcn_buf_start_def kb_sp_def kcn_net_write_enable_def kcn_net_event_add_def
        split: if_splits option.splits prod.splits sum.splits)
  with buf_data_new [OF assms(1) this(1)] show ?thesis by (auto simp: kb_data_def)
qed

text \<open>The end of the daemon, as \<open>kcndb_server_session\<close> makes it.\<close>

lemma session_fresh:
  assumes "alloc_ok malloc" "kcn_net_new kn_new malloc base_set [] sk 4096 name = Some (Some kn)" "sk_rx sk = []" "sk_tx sk = []"
    and "kcn_net_read_enable kn = Some (r, kn')"
  shows "fresh kn' []"
proof -
  from net_new_ok [OF assms(1,2)] have n: "net_inv 4096 kn" "kn_fd kn = Some sk" "kn_state kn = KCN_NET_STATE_INIT" "kn_obufq kn = []"
    "kn_everrs kn = []" "kn_evwrite kn" by simp_all
  from assms(5) n(3) have k: "kn' = kn\<lparr>kn_state := KCN_NET_STATE_PENDING\<rparr>" by (simp add: kcn_net_read_enable_def)
  from n net_new_fresh [OF assms(1,2)] assms(3,4) show ?thesis
    unfolding k fresh_def by (auto simp: net_inv_def net_ok_def obytes_def)
qed

lemma query_fresh:
  assumes "alloc_total malloc" "kcn_net_new kn_new malloc base_set [] sk 4096 name = Some (Some kn)" "sk_rx sk = []" "sk_tx sk = []"
  shows "\<exists>kn'. kcn_client_query_send malloc kn q = Some (Inr (), kn') \<and> fresh kn' (query_msg q) \<and> kn_fd kn' = Some sk"
proof -
  note m = alloc_total_ok [OF assms(1)]
  from net_new_ok [OF m assms(2)] have n: "net_inv 4096 kn" "kn_fd kn = Some sk" "kn_state kn = KCN_NET_STATE_INIT" "kn_obufq kn = []"
    "kn_everrs kn = []" by simp_all
  have "malloc 32 \<noteq> None" using assms(1) by (auto simp: alloc_total_def)
  from query_send_ok [OF n(1-3,5) m this, of q] obtain kn' where
    k: "kcn_client_query_send malloc kn q = Some (Inr (), kn')" "net_inv 4096 kn'" "kn_fd kn' = Some sk" "kn_state kn' = KCN_NET_STATE_PENDING"
      "obytes kn' = obytes kn @ query_msg q" "kn_everrs kn' = []" "kn_ibuf kn' = kn_ibuf kn" "kn_evwrite kn'" by blast
  with n(4) net_new_fresh [OF m assms(2)] assms(3,4) show ?thesis by (auto simp: fresh_def obytes_def)
qed

lemma system_ends:
  assumes "exchange_ok malloc readcb T Q locs e ki" "fresh ckn Q" "fresh dkn []" "Q \<noteq> []"
    and "system_run malloc errno readcb (system_start ckn ki dkn T) s"
  shows "(\<exists>k \<le> length locs. kcr_ki (y_kcr s) = fold info_push (take k locs) ki) \<and>
    (\<not> kn_evread (y_client s) \<and> \<not> kn_evwrite (y_client s) \<longrightarrow>
      kcr_error (y_kcr s) = e \<and> kcr_ki (y_kcr s) = fold info_push locs ki \<or>
      closed (y_client s) \<and> (kcr_error (y_kcr s) = 0 \<or> kcr_error (y_kcr s) = EAGAIN))"
proof -
  from system_run_inv [OF assms(5,1) system_start_inv [OF assms(2-4)]] obtain rest R where
    r: "net_inv 4096 (y_client s)" "client_view locs e ki R rest (y_client s) (y_kcr s)" "daemon_view Q T (answer locs e) rest s"
    unfolding system_inv_def by blast
  from r(2) show ?thesis
  proof (cases rule: viewE)
    case pend
    then show ?thesis by (auto intro!: exI [of _ 0])
  next
    case (wait k)
    then show ?thesis by (auto simp: waiting_def)
  next
    case whole
    then show ?thesis by (auto intro!: exI [of _ "length locs"])
  next
    case gone
    have "\<exists>k \<le> length locs. fold info_push locs ki = fold info_push (take k locs) ki" by (rule exI [of _ "length locs"]) simp
    with gone show ?thesis by metis
  qed
qed

text \<open>The locators that a query selects from a table, and the final error.\<close>

abbreviation selected :: "kcn_msg_query \<Rightarrow> byte list \<Rightarrow> byte list \<Rightarrow> byte list list" where
  "selected q D L \<equiv> map (\<lambda>r. loc_of L (unat (kdr_locidx r))) (selection (kmq_eq q) (unat (kmq_maxcount q)) D)"

abbreviation selected_errno :: "kcn_msg_query \<Rightarrow> byte list \<Rightarrow> errno" where
  "selected_errno q D \<equiv> if selection (kmq_eq q) (unat (kmq_maxcount q)) D = [] then ESRCH else 0"

lemma exchange_ready:
  fixes q :: kcn_msg_query
  defines "i \<equiv> TYPE2INDEX (ke_type (kmq_eq q))"
  assumes m: "alloc_total cmalloc" "alloc_total smalloc"
    and "kmq_loctype q \<le> 1" "ke_type (kmq_eq q) < 256" "1 \<le> ke_op (kmq_eq q)" "ke_op (kmq_eq q) \<le> 5"
    and "i < length bases" "i < length kd" "table_ok (bases ! i) (kd ! i) D L" "lock_free (kdb_lock (bases ! i))"
    and "\<forall>loc \<in> set (selected q D L). loc \<noteq> [] \<and> length loc \<le> 4090"
    and "info_ok ki" "kcn_info_nlocs ki = 0" "unat (kmq_maxcount q) \<le> kcn_info_maxnlocs ki"
  shows "exchange_ok cmalloc (kcndb_server_recv smalloc now) (bases, kd) (query_msg q)
    (map (Pair 0) (selected q D L)) (selected_errno q D) ki"
proof -
  have s: "serves_query (kcndb_server_recv smalloc now) (bases, kd) (query_msg q) (answer (map (Pair 0) (selected q D L)) (selected_errno q D))"
    using server_serves [OF m(2) assms(4-7) assms(8-11)[unfolded i_def], of now] by (simp add: comp_def)
  have l: "locs_ok cmalloc (map (Pair 0) (selected q D L))"
    using assms(12) m(1) alloc_total_ok [OF m(1)] by (auto simp: locs_ok_def alloc_total_def)
  have "length (selected q D L) \<le> unat (kmq_maxcount q)" by (simp add: selection_def)
  with s l assms(13-15) info_ok_block [OF assms(13)] show ?thesis by (simp add: exchange_ok_def query_msg_def)
qed

lemma query_exchanged:
  fixes q :: kcn_msg_query
  defines "i \<equiv> TYPE2INDEX (ke_type (kmq_eq q))"
  assumes m: "alloc_total cmalloc" "alloc_total smalloc"
    and q: "kmq_loctype q \<le> 1" "ke_type (kmq_eq q) < 256" "1 \<le> ke_op (kmq_eq q)" "ke_op (kmq_eq q) \<le> 5"
    and t: "i < length bases" "i < length kd" "table_ok (bases ! i) (kd ! i) D L" "lock_free (kdb_lock (bases ! i))"
    and l: "\<forall>loc \<in> set (selected q D L). loc \<noteq> [] \<and> length loc \<le> 4090"
    and ki: "info_ok ki" "kcn_info_nlocs ki = 0" "unat (kmq_maxcount q) \<le> kcn_info_maxnlocs ki"
    and f: "fresh ckn (query_msg q)" "fresh dkn []"
    and run: "system_run cmalloc errno (kcndb_server_recv smalloc now) (system_start ckn ki dkn (bases, kd)) s"
  shows "\<exists>k \<le> length (selected q D L). kcr_ki (y_kcr s) = fold info_push (take k (map (Pair 0) (selected q D L))) ki"
    "\<not> kn_evread (y_client s) \<and> \<not> kn_evwrite (y_client s) \<Longrightarrow>
      kcr_error (y_kcr s) = selected_errno q D \<and> kcr_ki (y_kcr s) = fold info_push (map (Pair 0) (selected q D L)) ki \<or>
      closed (y_client s) \<and> (kcr_error (y_kcr s) = 0 \<or> kcr_error (y_kcr s) = EAGAIN)"
    "system_inv (query_msg q) (bases, kd) (map (Pair 0) (selected q D L)) (selected_errno q D) ki s"
proof -
  note x = exchange_ready [OF m q t[unfolded i_def] l ki, of now]
  have ne: "query_msg q \<noteq> []" by (simp add: query_msg_def header_bytes_def)
  from system_ends [OF x f ne run]
  show "\<exists>k \<le> length (selected q D L). kcr_ki (y_kcr s) = fold info_push (take k (map (Pair 0) (selected q D L))) ki"
    "\<not> kn_evread (y_client s) \<and> \<not> kn_evwrite (y_client s) \<Longrightarrow>
      kcr_error (y_kcr s) = selected_errno q D \<and> kcr_ki (y_kcr s) = fold info_push (map (Pair 0) (selected q D L)) ki \<or>
      closed (y_client s) \<and> (kcr_error (y_kcr s) = 0 \<or> kcr_error (y_kcr s) = EAGAIN)"
    unfolding length_map by blast+
  from system_run_inv [OF run x system_start_inv [OF f ne]]
  show "system_inv (query_msg q) (bases, kd) (map (Pair 0) (selected q D L)) (selected_errno q D) ki s" .
qed

section \<open>An exchange without failures\<close>

text \<open>A socket that has no special outcome to come, and a connection whose write event then fires.\<close>

definition calm :: "kcn_net \<Rightarrow> kcn_net" where
  "calm kn = (case kn_fd kn of None \<Rightarrow> kn | Some sk \<Rightarrow> kn\<lparr>kn_fd := Some (sk\<lparr>sk_eof := False, sk_sys := []\<rparr>)\<rparr>)"

lemma calm_flushes:
  assumes "net_inv 4096 kn" "kn_evwrite kn" "kn_fd kn = Some sk" "sk_sys sk = []" "kn_everrs kn = []"
  shows "\<exists>kn' sk'. kcn_net_write_cb {EV_WRITE} (kn\<lparr>kn_evwrite := False\<rparr>) = Some kn' \<and> net_inv 4096 kn' \<and> \<not> kn_evwrite kn' \<and>
    kn_fd kn' = Some sk' \<and> sk_sys sk' = [] \<and> sk_tx sk' = net_out kn \<and> sk_rx sk' = sk_rx sk \<and> kn_ibuf kn' = kn_ibuf kn \<and>
    kn_obufq kn' = [] \<and> kn_everrs kn' = [] \<and> kn_evread kn' = (kn_evread kn \<or> kn_state kn = KCN_NET_STATE_PENDING)"
proof -
  have "EV_WRITE \<in> {EV_WRITE}" "steady sk" using assms(4) by simp_all
  from write_works [OF assms(1,2) this(1) assms(3) this(2) assms(5)] obtain kn' sk' where w:
    "kcn_net_write_cb {EV_WRITE} (kn\<lparr>kn_evwrite := False\<rparr>) = Some kn'" "net_inv 4096 kn'" "kn_fd kn' = Some sk'"
    "kn_state kn' = KCN_NET_STATE_ESTABLISHED" "kn_everrs kn' = []" "net_out kn' = net_out kn" "sk_rx sk' = sk_rx sk"
    "kn_ibuf kn' = kn_ibuf kn" "kn_evread kn' = (kn_evread kn \<or> kn_state kn = KCN_NET_STATE_PENDING)" "sys_used sk sk'"
    "kn_obufq kn' = [] \<and> \<not> kn_evwrite kn' \<or> kn_evwrite kn' \<and> length (sk_sys sk') < length (sk_sys sk)" by blast
  from w(10,11) assms(4) have q: "sk_sys sk' = []" "kn_obufq kn' = []" "\<not> kn_evwrite kn'" by (auto dest: sys_used_length)
  then have "sk_tx sk' = net_out kn" using w(3,6) by (simp add: net_out_def obytes_def)
  with w q show ?thesis by blast
qed

lemma calm_writes:
  assumes "net_inv 4096 kn" "kn_evwrite kn" "kn_fd kn = Some sk" "sk_sys sk = []" "kn_everrs kn = []"
    and "kn_state kn = KCN_NET_STATE_PENDING \<or> waiting kn"
  shows "\<exists>kn' sk'. kcn_net_write_cb {EV_WRITE} (kn\<lparr>kn_evwrite := False\<rparr>) = Some kn' \<and> waiting kn' \<and> \<not> kn_evwrite kn' \<and>
    kn_fd kn' = Some sk' \<and> sk_sys sk' = [] \<and> sk_tx sk' = net_out kn \<and> sk_rx sk' = sk_rx sk \<and> kn_ibuf kn' = kn_ibuf kn \<and> obytes kn' = []"
proof -
  from calm_flushes [OF assms(1-5)] obtain kn' sk' where f: "kcn_net_write_cb {EV_WRITE} (kn\<lparr>kn_evwrite := False\<rparr>) = Some kn'"
    "net_inv 4096 kn'" "\<not> kn_evwrite kn'" "kn_fd kn' = Some sk'" "sk_sys sk' = []" "sk_tx sk' = net_out kn" "sk_rx sk' = sk_rx sk"
    "kn_ibuf kn' = kn_ibuf kn" "kn_obufq kn' = []" "kn_everrs kn' = []" "kn_evread kn' = (kn_evread kn \<or> kn_state kn = KCN_NET_STATE_PENDING)"
    by blast
  moreover have "waiting kn'" using f(2,10,11) assms(6) by (auto simp: waiting_def)
  ultimately show ?thesis by (auto simp: obytes_def)
qed

text \<open>
  A timeout before the connection is made counts as the connection, and leaves the query in the queue with no write event:
  it is never sent, and the read event that is pending ends the connection.
\<close>

lemma pending_timeout_stalls:
  assumes "fresh kn Q"
  shows "\<exists>kn'. kcn_net_write_cb {EV_TIMEOUT} (kn\<lparr>kn_evwrite := False\<rparr>) = Some kn' \<and> waiting kn' \<and> \<not> kn_evwrite kn' \<and> obytes kn' = Q"
proof -
  from assms obtain sk where f: "net_inv 4096 kn" "kn_state kn = KCN_NET_STATE_PENDING" "kn_everrs kn = []" "kn_fd kn = Some sk" "obytes kn = Q"
    by (auto simp: fresh_def)
  from f(1) have "net_inv 4096 (kn\<lparr>kn_evwrite := False\<rparr>)" by (auto simp: net_inv_def net_ok_def)
  from established_ok [OF this] f(4) obtain kn' where e:
    "kcn_net_state_change (kn\<lparr>kn_evwrite := False\<rparr>) KCN_NET_STATE_ESTABLISHED = Some kn'" "net_inv 4096 kn'" "kn_obufq kn' = kn_obufq kn"
    "\<not> kn_evwrite kn'" "kn_state kn = KCN_NET_STATE_PENDING \<and> kn_everrs kn = [] \<longrightarrow> kn_evread kn'" "kn_everrs kn = [] \<longrightarrow> kn_everrs kn' = []" by auto
  with f show ?thesis by (intro exI [of _ kn']) (simp add: kcn_net_write_cb_def waiting_def obytes_def)
qed

text \<open>Read events as long as one is pending.\<close>

partial_function (option) read_events :: "'d net_readcb \<Rightarrow> kcn_net \<Rightarrow> 'd \<Rightarrow> (kcn_net \<times> 'd) option" where
  "read_events readcb kn d =
     (if \<not> kn_evread kn then Some (kn, d)
      else case kcn_net_read_cb readcb {EV_READ} (kn\<lparr>kn_evread := False\<rparr>) d of
             None \<Rightarrow> None
           | Some (kn, d) \<Rightarrow> read_events readcb kn d)"

lemma run_trans:
  assumes "system_run malloc errno readcb s0 s" "system_run malloc errno readcb s s'"
  shows "system_run malloc errno readcb s0 s'"
  using assms(2,1) by (induction rule: system_run.induct) (auto intro: system_run.step)

lemma run_step: "system_step malloc errno readcb s s' \<Longrightarrow> system_run malloc errno readcb s s'"
  by (rule system_run.step [OF system_run.start])

lemma client_finishes:
  assumes "waiting kn" "kcr_error kcr = 0 \<or> kcr_error kcr = EAGAIN" "kn_fd kn = Some sk" "k \<le> length locs"
      "kcr_ki kcr = fold info_push (take k locs) ki" "kb_data (kn_ibuf kn) @ sk_rx sk = answer (drop k locs) e"
      "sk_sys sk = []" "sk_rx sk \<noteq> []" "\<not> kn_evwrite kn"
    and l: "locs_ok malloc locs" "info_room ki (length locs)" "e < 256" "e \<noteq> EAGAIN"
  shows "\<exists>kn' kcr'. read_events (kcn_client_read malloc errno) kn kcr = Some (kn', kcr') \<and> \<not> kn_evread kn' \<and> \<not> kn_evwrite kn' \<and>
    kcr_error kcr' = e \<and> kcr_ki kcr' = fold info_push locs ki \<and>
    kn_state kn' = (if e = 0 then KCN_NET_STATE_ESTABLISHED else KCN_NET_STATE_DISCONNECTED) \<and>
    (\<forall>s. y_client s = kn \<and> y_kcr s = kcr \<longrightarrow> system_run malloc errno readcb s (s\<lparr>y_client := kn', y_kcr := kcr'\<rparr>))"
  using assms(1-9)
proof (induction "length (sk_rx sk)" arbitrary: kn kcr sk k rule: less_induct)
  case less
  have "kb_data (kn_ibuf kn) @ sk_rx sk @ [] = answer (drop k locs) e" using less.prems(6) by simp
  moreover have rd: "ready {EV_READ} sk" using less.prems(7,8) by simp
  ultimately obtain kn1 kcr1 where
    f: "kcn_net_read_cb (kcn_client_read malloc errno) {EV_READ} (kn\<lparr>kn_evread := False\<rparr>) kcr = Some (kn1, kcr1)"
      "collected locs e ki ([], kn1, kcr1)" "advances locs e ki [] kn sk kn1 kcr1"
    using waiting_fires [OF less.prems(1-5) _ l, of "[]" "{EV_READ}" errno] by blast
  have ev: "kn_evread kn" using less.prems(1) by (simp add: waiting_def)
  have st: "system_step malloc errno readcb s (s\<lparr>y_client := kn1, y_kcr := kcr1\<rparr>)" if "y_client s = kn" "y_kcr s = kcr" for s
    using client_reads [of s "{EV_READ}" malloc errno kn1 kcr1 readcb] f(1) ev that by simp
  have re: "read_events (kcn_client_read malloc errno) kn kcr = read_events (kcn_client_read malloc errno) kn1 kcr1"
    using ev f(1) by (subst read_events.simps) simp
  from f(3) [unfolded advances_def] show ?case
  proof (elim disjE)
    assume a: "\<not> kn_evread kn1 \<and> (kn_evwrite kn1 \<longrightarrow> kn_evwrite kn) \<and> kcr_error kcr1 = e \<and> kcr_ki kcr1 = fold info_push locs ki \<and>
      kn_state kn1 = (if e = 0 then KCN_NET_STATE_ESTABLISHED else KCN_NET_STATE_DISCONNECTED) \<and>
      kn_everrs kn1 = [] \<and> (\<forall>sk'. kn_fd kn1 = Some sk' \<longrightarrow> moved sk sk')"
    then have "read_events (kcn_client_read malloc errno) kn1 kcr1 = Some (kn1, kcr1)" by (subst read_events.simps) simp
    with a re less.prems(9) run_step [OF st] show ?thesis by (intro exI [of _ kn1] exI [of _ kcr1]) simp
  next
    assume "waiting kn1 \<and> kn_evwrite kn1 = kn_evwrite kn \<and> obytes kn1 = obytes kn \<and>
        (\<exists>sk'. kn_fd kn1 = Some sk' \<and> moved sk sk' \<and> sk_rx sk' @ [] \<noteq> [])"
    with moved_calm [OF _ less.prems(7)] obtain sk1 where w: "waiting kn1" "\<not> kn_evwrite kn1" "kn_fd kn1 = Some sk1" "sk_sys sk1 = []"
      "length (sk_rx sk1) < length (sk_rx sk)" "sk_rx sk1 \<noteq> []" using less.prems(9) by auto
    from f(2) w(1,3) obtain j where "kcr_error kcr1 = 0 \<or> kcr_error kcr1 = EAGAIN" "j \<le> length locs"
      "kcr_ki kcr1 = fold info_push (take j locs) ki" "kb_data (kn_ibuf kn1) @ sk_rx sk1 = answer (drop j locs) e"
      by (auto simp: collected_def waiting_def)
    from less.hyps [OF w(5,1) this(1) w(3) this(2-4) w(4,6,2)] obtain kn' kcr' where
      "read_events (kcn_client_read malloc errno) kn1 kcr1 = Some (kn', kcr')" "\<not> kn_evread kn'" "\<not> kn_evwrite kn'"
      "kcr_error kcr' = e" "kcr_ki kcr' = fold info_push locs ki"
      "kn_state kn' = (if e = 0 then KCN_NET_STATE_ESTABLISHED else KCN_NET_STATE_DISCONNECTED)" and
      r: "\<And>s. y_client s = kn1 \<Longrightarrow> y_kcr s = kcr1 \<Longrightarrow> system_run malloc errno readcb s (s\<lparr>y_client := kn', y_kcr := kcr'\<rparr>)" by blast
    moreover have "system_run malloc errno readcb s (s\<lparr>y_client := kn', y_kcr := kcr'\<rparr>)" if "y_client s = kn" "y_kcr s = kcr" for s
      using run_trans [OF run_step [OF st [OF that]] r] by simp
    ultimately show ?thesis unfolding re by blast
  qed
qed

lemma daemon_finishes:
  assumes "waiting kn" "kn_fd kn = Some sk" "sk_sys sk = []" "net_in kn = Q" "strict_prefix (kb_data (kn_ibuf kn)) Q" "net_out kn = []"
    and q: "serves_query readcb T Q A" "length Q \<le> 4096"
  shows "\<exists>kn' sk' T'. waiting kn' \<and> kn_evwrite kn' \<and> kn_fd kn' = Some sk' \<and> sk_sys sk' = [] \<and> net_out kn' = A \<and>
    (\<forall>s. y_daemon s = kn \<and> y_tables s = T \<longrightarrow> system_run malloc errno readcb s (s\<lparr>y_daemon := kn', y_tables := T'\<rparr>))"
  using assms(1-6)
proof (induction "length (sk_rx sk)" arbitrary: kn sk rule: less_induct)
  case less
  have rx: "sk_rx sk \<noteq> []" using less.prems(2,4,5) by (auto simp: net_in_def)
  have "prefix (net_in kn) Q" using less.prems(4) by simp
  moreover have rd: "kn_fd kn = Some sk \<and> ready {EV_READ} sk" using rx less.prems(2,3) by simp
  ultimately obtain kn1 T1 where
    f: "kcn_net_read_cb readcb {EV_READ} (kn\<lparr>kn_evread := False\<rparr>) T = Some (kn1, T1)" "daemon_advances Q kn sk kn1"
      "closed kn1 \<or> T1 = T \<and> net_in kn1 = net_in kn \<and> net_out kn1 = net_out kn \<and> strict_prefix (kb_data (kn_ibuf kn1)) Q \<or>
        net_in kn1 = [] \<and> net_out kn1 = net_out kn @ A"
    using daemon_event [OF less.prems(1) impI [OF q(1)] _ _ less.prems(5) q(2), of "{EV_READ}"] by blast
  from f(2) obtain sk1 where a: "waiting kn1" "kn_fd kn1 = Some sk1" "moved sk sk1"
    "net_in kn1 = net_in kn \<or> net_in kn1 = [] \<and> kn_evwrite kn1"
    unfolding daemon_advances_def by blast
  with moved_calm [OF a(3) less.prems(3)] have w: "waiting kn1" "kn_fd kn1 = Some sk1" "sk_sys sk1 = []"
    "net_in kn1 = net_in kn \<and> length (sk_rx sk1) < length (sk_rx sk) \<or> net_in kn1 = [] \<and> kn_evwrite kn1" by blast+
  have Q: "Q \<noteq> []" using less.prems(5) by (auto simp: strict_prefix_def)
  have nc: "\<not> closed kn1" using w(2) by (simp add: closed_def)
  have ev: "kn_evread kn" using less.prems(1) by (simp add: waiting_def)
  have st: "system_step malloc errno readcb s (s\<lparr>y_daemon := kn1, y_tables := T1\<rparr>)" if "y_daemon s = kn" "y_tables s = T" for s
    using daemon_reads [of s "{EV_READ}" readcb kn1 T1 malloc errno] f(1) ev that by simp
  show ?case
  proof (cases "net_in kn1 = []")
    case True
    with f(3) nc less.prems(4,6) Q have "net_out kn1 = A" by auto
    moreover have "kn_evwrite kn1" using w(4) True less.prems(4) Q by auto
    ultimately show ?thesis using w(1-3) run_step [OF st] by blast
  next
    case False
    with f(3) nc w(4) less.prems(4,6) have k: "T1 = T" "net_in kn1 = Q" "net_out kn1 = []" "strict_prefix (kb_data (kn_ibuf kn1)) Q"
      "length (sk_rx sk1) < length (sk_rx sk)" by auto
    from less.hyps [OF k(5) w(1-3) k(2,4,3)] obtain kn' sk' T' where
      "waiting kn'" "kn_evwrite kn'" "kn_fd kn' = Some sk'" "sk_sys sk' = []" "net_out kn' = A" and
      r: "\<And>s. y_daemon s = kn1 \<Longrightarrow> y_tables s = T \<Longrightarrow> system_run malloc errno readcb s (s\<lparr>y_daemon := kn', y_tables := T'\<rparr>)" by blast
    moreover have "system_run malloc errno readcb s (s\<lparr>y_daemon := kn', y_tables := T'\<rparr>)" if "y_daemon s = kn" "y_tables s = T" for s
      using run_trans [OF run_step [OF st [OF that]] r] k(1) by simp
    ultimately show ?thesis by blast
  qed
qed

text \<open>
  The event loop of a client whose socket works and whose server sends \<open>A\<close> once the query is written.
\<close>

definition served_dispatch :: "byte list \<Rightarrow> 'd net_readcb \<Rightarrow> kcn_net \<Rightarrow> 'd \<Rightarrow> (bool \<times> errno \<times> kcn_net \<times> 'd) option" where
  "served_dispatch A readcb kn kcr = do {
     kn \<leftarrow> kcn_net_write_cb {EV_WRITE} ((calm kn)\<lparr>kn_evwrite := False\<rparr>);
     sk \<leftarrow> kn_fd kn;
     (kn, kcr) \<leftarrow> read_events readcb (kn\<lparr>kn_fd := Some (sk\<lparr>sk_tx := [], sk_rx := sk_rx sk @ A\<rparr>)\<rparr>) kcr;
     Some (True, 0, kn, kcr)
   }"

lemma fresh_writes:
  assumes "fresh kn Q"
  shows "\<exists>kn' sk'. kcn_net_write_cb {EV_WRITE} ((calm kn)\<lparr>kn_evwrite := False\<rparr>) = Some kn' \<and> waiting kn' \<and> \<not> kn_evwrite kn' \<and>
    kn_fd kn' = Some sk' \<and> sk_sys sk' = [] \<and> sk_tx sk' = Q \<and> sk_rx sk' = [] \<and> kb_data (kn_ibuf kn') = [] \<and> obytes kn' = []"
proof -
  from assms obtain sk where f: "net_inv 4096 kn" "kn_state kn = KCN_NET_STATE_PENDING" "kn_evwrite kn" "kn_everrs kn = []"
    "kn_fd kn = Some sk" "sk_rx sk = []" "sk_tx sk = []" "kb_data (kn_ibuf kn) = []" "obytes kn = Q" by (auto simp: fresh_def)
  let ?sk = "sk\<lparr>sk_eof := False, sk_sys := []\<rparr>"
  have c: "calm kn = kn\<lparr>kn_fd := Some ?sk\<rparr>" by (simp add: calm_def f(5))
  have "net_out (calm kn) = Q" using f(7,9) by (simp add: c net_out_def obytes_def)
  with calm_writes [of "calm kn" ?sk] inv_fd [OF f(1,5)] f(2-4,6,8) show ?thesis by (auto simp: c)
qed

lemma calm_step:
  assumes "kn_fd kn \<noteq> None"
  shows "y_client s = kn \<Longrightarrow> system_step malloc errno readcb s (s\<lparr>y_client := calm kn\<rparr>)"
    "y_daemon s = kn \<Longrightarrow> system_step malloc errno readcb s (s\<lparr>y_daemon := calm kn\<rparr>)"
  using assms client_socket [where s = s and eof = False and sys = "[]"] daemon_socket [where s = s and eof = False and sys = "[]"]
  by (auto simp: calm_def)

text \<open>The daemon's half: the query arrives, and the answer is on the way back.\<close>

lemma daemon_answers:
  assumes "fresh dkn []" "y_daemon s = dkn" "y_tables s = T" "y_requests s = Q" "y_answers s = []" "Q \<noteq> []"
    and q: "serves_query readcb T Q A" "length Q \<le> 4096"
  shows "\<exists>dkn' T'. system_run malloc errno readcb s (s\<lparr>y_daemon := dkn', y_tables := T', y_requests := [], y_answers := A\<rparr>)"
proof -
  from assms(1) have d: "kn_fd dkn \<noteq> None" "kn_evwrite dkn" by (auto simp: fresh_def)
  have d': "kn_evwrite (calm dkn)" using d by (auto simp: calm_def)
  from fresh_writes [OF assms(1)] obtain kn1 sk1 where w: "kcn_net_write_cb {EV_WRITE} ((calm dkn)\<lparr>kn_evwrite := False\<rparr>) = Some kn1"
    "waiting kn1" "kn_fd kn1 = Some sk1" "sk_sys sk1 = []" "sk_tx sk1 = []" "sk_rx sk1 = []" "kb_data (kn_ibuf kn1) = []" "obytes kn1 = []" by blast
  let ?kn2 = "kn1\<lparr>kn_fd := Some (sk1\<lparr>sk_rx := Q\<rparr>)\<rparr>"
  have k2: "net_in ?kn2 = Q" "net_out ?kn2 = []" "strict_prefix (kb_data (kn_ibuf ?kn2)) Q"
    using w(5-8) assms(6) by (simp_all add: net_in_def net_out_def obytes_def strict_prefix_def)
  from daemon_finishes [OF waiting_fd [OF w(2,3)] _ _ k2(1,3,2) q, where malloc = malloc and errno = errno] w(4) obtain kn3 sk3 T' where
    a: "waiting kn3" "kn_evwrite kn3" "kn_fd kn3 = Some sk3" "sk_sys sk3 = []" "net_out kn3 = A" and
    r3: "\<And>s. y_daemon s = ?kn2 \<Longrightarrow> y_tables s = T \<Longrightarrow> system_run malloc errno readcb s (s\<lparr>y_daemon := kn3, y_tables := T'\<rparr>)" by auto
  have "net_inv 4096 kn3" using a(1) by (simp add: waiting_def)
  from calm_writes [OF this a(2-4) waiting_open(2) [OF a(1)]] a(1,5) obtain kn4 sk4 where
    w4: "kcn_net_write_cb {EV_WRITE} (kn3\<lparr>kn_evwrite := False\<rparr>) = Some kn4" "kn_fd kn4 = Some sk4" "sk_tx sk4 = A" by blast
  let ?kn5 = "kn4\<lparr>kn_fd := Some (sk4\<lparr>sk_tx := []\<rparr>)\<rparr>"
  let ?s1 = "s\<lparr>y_daemon := calm dkn\<rparr>" and ?s2 = "s\<lparr>y_daemon := kn1\<rparr>" and ?s3 = "s\<lparr>y_daemon := ?kn2, y_requests := []\<rparr>"
  let ?s4 = "?s3\<lparr>y_daemon := kn3, y_tables := T'\<rparr>"
  let ?s5 = "?s4\<lparr>y_daemon := kn4\<rparr>" and ?s6 = "s\<lparr>y_daemon := ?kn5, y_tables := T', y_requests := [], y_answers := A\<rparr>"
  have "system_step malloc errno readcb s ?s1" using calm_step(2) [OF d(1) assms(2)] .
  moreover have "system_step malloc errno readcb ?s1 ?s2"
    using daemon_writes [of ?s1 "{EV_WRITE}" kn1] d' w(1) by simp
  moreover have "system_step malloc errno readcb ?s2 ?s3"
    using request_arrives [of ?s2 sk1 Q "[]"] w(3,6) assms(4) by simp
  moreover have "system_run malloc errno readcb ?s3 ?s4" using r3 [of ?s3] assms(3) by simp
  moreover have "system_step malloc errno readcb ?s4 ?s5"
    using daemon_writes [of ?s4 "{EV_WRITE}" kn4] a(2) w4(1) by simp
  moreover have "system_step malloc errno readcb ?s5 ?s6"
    using answer_leaves [of ?s5 sk4 A "[]"] w4(2,3) assms(5) by (cases s) simp
  ultimately have "system_run malloc errno readcb s ?s6" by (meson run_step run_trans)
  then show ?thesis by (intro exI [of _ ?kn5] exI [of _ T']) simp
qed

lemma exchange_finishes:
  assumes x: "exchange_ok malloc readcb T Q locs e ki" and f: "fresh ckn Q" "fresh dkn []" "Q \<noteq> []"
  shows "\<exists>s. system_run malloc errno readcb (system_start ckn ki dkn T) s \<and> \<not> kn_evread (y_client s) \<and> \<not> kn_evwrite (y_client s) \<and>
    kcr_error (y_kcr s) = e \<and> kcr_ki (y_kcr s) = fold info_push locs ki \<and> (e = 0 \<longrightarrow> \<not> closed (y_client s)) \<and>
    served_dispatch (answer locs e) (kcn_client_read malloc errno) ckn \<lparr>kcr_error = 0, kcr_ki = ki\<rparr> = Some (True, 0, y_client s, y_kcr s)"
proof -
  from x have l: "locs_ok malloc locs" "info_room ki (length locs)" "e < 256" "e \<noteq> EAGAIN"
    and q: "serves_query readcb T Q (answer locs e)" "length Q \<le> 4096" by (simp_all add: exchange_ok_def)
  let ?A = "answer locs e" and ?kcr = "\<lparr>kcr_error = 0, kcr_ki = ki\<rparr>" and ?s0 = "system_start ckn ki dkn T"
  from f(1) have c: "kn_fd ckn \<noteq> None" "kn_evwrite ckn" by (auto simp: fresh_def)
  then have c': "kn_evwrite (calm ckn)" by (auto simp: calm_def)
  from fresh_writes [OF f(1)] obtain kn1 sk1 where w: "kcn_net_write_cb {EV_WRITE} ((calm ckn)\<lparr>kn_evwrite := False\<rparr>) = Some kn1"
    "waiting kn1" "\<not> kn_evwrite kn1" "kn_fd kn1 = Some sk1" "sk_sys sk1 = []" "sk_tx sk1 = Q" "sk_rx sk1 = []" "kb_data (kn_ibuf kn1) = []" by blast
  let ?kn2 = "kn1\<lparr>kn_fd := Some (sk1\<lparr>sk_tx := []\<rparr>)\<rparr>" and ?kn3 = "kn1\<lparr>kn_fd := Some (sk1\<lparr>sk_tx := [], sk_rx := ?A\<rparr>)\<rparr>"
  have ne: "?A \<noteq> []" by (simp add: answer_def response_msg_def header_bytes_def)
  from client_finishes [OF waiting_fd [OF w(2,4)], where kcr = ?kcr and sk = "sk1\<lparr>sk_tx := [], sk_rx := ?A\<rparr>" and k = 0 and locs = locs and ki = ki
      and e = e and malloc = malloc and errno = errno and readcb = readcb] w(3,5,8) ne l
  obtain kn4 kcr4 where r4: "read_events (kcn_client_read malloc errno) ?kn3 ?kcr = Some (kn4, kcr4)" "\<not> kn_evread kn4" "\<not> kn_evwrite kn4"
    "kcr_error kcr4 = e" "kcr_ki kcr4 = fold info_push locs ki"
    "kn_state kn4 = (if e = 0 then KCN_NET_STATE_ESTABLISHED else KCN_NET_STATE_DISCONNECTED)" and
    run4: "\<And>s. y_client s = ?kn3 \<Longrightarrow> y_kcr s = ?kcr \<Longrightarrow> system_run malloc errno readcb s (s\<lparr>y_client := kn4, y_kcr := kcr4\<rparr>)" by auto
  let ?s1 = "?s0\<lparr>y_client := calm ckn\<rparr>" and ?s2 = "?s0\<lparr>y_client := kn1\<rparr>" and ?s3 = "?s0\<lparr>y_client := ?kn2, y_requests := Q\<rparr>"
  have s0: "y_client ?s0 = ckn" "y_kcr ?s0 = ?kcr" "y_requests ?s0 = []" "y_answers ?s0 = []" "y_daemon ?s0 = dkn" "y_tables ?s0 = T"
    by (simp_all add: system_start_def)
  have "system_step malloc errno readcb ?s0 ?s1" using calm_step(1) [OF c(1) s0(1)] .
  moreover have "system_step malloc errno readcb ?s1 ?s2"
    using client_writes [of ?s1 "{EV_WRITE}" kn1] c' w(1) by simp
  moreover have "system_step malloc errno readcb ?s2 ?s3"
    using request_leaves [of ?s2 sk1 Q "[]"] w(4,6) s0(3) by simp
  moreover from daemon_answers [OF f(2), of ?s3 T Q readcb ?A malloc errno] s0 f(3) q obtain dkn' T' where
    "system_run malloc errno readcb ?s3 (?s3\<lparr>y_daemon := dkn', y_tables := T', y_requests := [], y_answers := ?A\<rparr>)" by auto
  moreover let ?s4 = "?s3\<lparr>y_daemon := dkn', y_tables := T', y_requests := [], y_answers := ?A\<rparr>"
    and ?s5 = "?s3\<lparr>y_daemon := dkn', y_tables := T', y_requests := [], y_client := ?kn3, y_answers := []\<rparr>"
  have "system_step malloc errno readcb ?s4 ?s5"
    using answer_arrives [of ?s4 "sk1\<lparr>sk_tx := []\<rparr>" ?A "[]"] w(7) by simp
  moreover have "system_run malloc errno readcb ?s5 (?s5\<lparr>y_client := kn4, y_kcr := kcr4\<rparr>)" using run4 [of ?s5] s0(2) by simp
  ultimately have "system_run malloc errno readcb ?s0 (?s5\<lparr>y_client := kn4, y_kcr := kcr4\<rparr>)" by (meson run_step run_trans)
  moreover have "served_dispatch ?A (kcn_client_read malloc errno) ckn ?kcr = Some (True, 0, kn4, kcr4)"
    using w(1,4,7) r4(1) by (simp add: served_dispatch_def)
  ultimately show ?thesis using r4(2-6) by (intro exI [of _ "?s5\<lparr>y_client := kn4, y_kcr := kcr4\<rparr>"]) (simp add: closed_def)
qed

section \<open>Properties\<close>

text \<open>
  C2. A client and the daemon exchange a query and its answer over a connection, with any partial transfers, delays and
  failures.  No event of either side faults.  The client has always a beginning of the locators that the query
  selects from the table; when its event loop ends, it has all of them and the error 0, or \<open>ESRCH\<close> for none, or it
  has lost the connection.
\<close>

theorem query_end_to_end:
  fixes q :: kcn_msg_query
  defines "i \<equiv> TYPE2INDEX (ke_type (kmq_eq q))"
  assumes "alloc_total cmalloc" "alloc_total smalloc"
    and "kmq_loctype q \<le> 1" "ke_type (kmq_eq q) < 256" "1 \<le> ke_op (kmq_eq q)" "ke_op (kmq_eq q) \<le> 5"
    and "i < length bases" "i < length kd" "table_ok (bases ! i) (kd ! i) D L" "lock_free (kdb_lock (bases ! i))"
    and "\<forall>loc \<in> set (selected q D L). loc \<noteq> [] \<and> length loc \<le> 4090"
    and "info_ok ki" "kcn_info_nlocs ki = 0" "unat (kmq_maxcount q) \<le> kcn_info_maxnlocs ki"
    and "kcn_net_new True cmalloc True [] csk 4096 cname = Some (Some ckn0)" "sk_rx csk = []" "sk_tx csk = []"
    and "kcn_client_query_send cmalloc ckn0 q = Some (r, ckn)"
    and "kcn_net_new True smalloc True [] dsk 4096 dname = Some (Some dkn0)" "sk_rx dsk = []" "sk_tx dsk = []"
    and "kcn_net_read_enable dkn0 = Some (r', dkn)"
    and "system_run cmalloc errno (kcndb_server_recv smalloc now) (system_start ckn ki dkn (bases, kd)) s"
  shows "(\<exists>k. info_locs (kcr_ki (y_kcr s)) = take k (selected q D L)) \<and>
    (\<not> kn_evread (y_client s) \<and> \<not> kn_evwrite (y_client s) \<longrightarrow>
      kcr_error (y_kcr s) = selected_errno q D \<and> info_locs (kcr_ki (y_kcr s)) = selected q D L \<or>
      closed (y_client s) \<and> (kcr_error (y_kcr s) = 0 \<or> kcr_error (y_kcr s) = EAGAIN)) \<and>
    (kn_evread (y_client s) \<longrightarrow> (\<forall>events. EV_READ \<in> events \<or> EV_TIMEOUT \<in> events \<longrightarrow>
      kcn_net_read_cb (kcn_client_read cmalloc errno) events ((y_client s)\<lparr>kn_evread := False\<rparr>) (y_kcr s) \<noteq> None)) \<and>
    (kn_evwrite (y_client s) \<longrightarrow> (\<forall>events. EV_WRITE \<in> events \<or> EV_TIMEOUT \<in> events \<longrightarrow>
      kcn_net_write_cb events ((y_client s)\<lparr>kn_evwrite := False\<rparr>) \<noteq> None)) \<and>
    (kn_evread (y_daemon s) \<longrightarrow> (\<forall>events. EV_READ \<in> events \<or> EV_TIMEOUT \<in> events \<longrightarrow>
      kcn_net_read_cb (kcndb_server_recv smalloc now) events ((y_daemon s)\<lparr>kn_evread := False\<rparr>) (y_tables s) \<noteq> None)) \<and>
    (kn_evwrite (y_daemon s) \<longrightarrow> (\<forall>events. EV_WRITE \<in> events \<or> EV_TIMEOUT \<in> events \<longrightarrow>
      kcn_net_write_cb events ((y_daemon s)\<lparr>kn_evwrite := False\<rparr>) \<noteq> None))"
proof -
  from query_fresh [OF assms(2,16-18), of q] assms(19) have c: "fresh ckn (query_msg q)" by auto
  from session_fresh [OF alloc_total_ok [OF assms(3)] assms(20-23)] have d: "fresh dkn []" .
  note x = exchange_ready [OF assms(2-7) assms(8-11)[unfolded i_def] assms(12-15), of now]
  note s = query_exchanged [OF assms(2-7) assms(8-11)[unfolded i_def] assms(12-15) c d assms(24)]
  note ev = system_events [OF x s(3)]
  have il: "info_locs ki = []" using assms(14) by (simp add: kcn_info_nlocs_def info_locs_def)
  have l: "info_locs (fold info_push (take k (map (Pair 0) ls)) ki) = take k ls" for k ls
    using il by (simp add: take_map [symmetric] comp_def)
  have "\<exists>k. info_locs (kcr_ki (y_kcr s)) = take k (selected q D L)" using s(1) l by metis
  moreover have "kcr_error (y_kcr s) = selected_errno q D \<and> info_locs (kcr_ki (y_kcr s)) = selected q D L \<or>
      closed (y_client s) \<and> (kcr_error (y_kcr s) = 0 \<or> kcr_error (y_kcr s) = EAGAIN)"
    if "\<not> kn_evread (y_client s) \<and> \<not> kn_evwrite (y_client s)"
    using s(2) [OF that] l [of "length (selected q D L)" "selected q D L"] by auto
  moreover have "kcn_net_read_cb (kcn_client_read cmalloc errno) events ((y_client s)\<lparr>kn_evread := False\<rparr>) (y_kcr s) \<noteq> None"
    if "kn_evread (y_client s)" "EV_READ \<in> events \<or> EV_TIMEOUT \<in> events" for events
    using ev(1) [OF that, of errno] by auto
  moreover have "kcn_net_write_cb events ((y_client s)\<lparr>kn_evwrite := False\<rparr>) \<noteq> None"
    if "kn_evwrite (y_client s)" "EV_WRITE \<in> events \<or> EV_TIMEOUT \<in> events" for events
    using ev(2) [OF that] by auto
  moreover have "kcn_net_read_cb (kcndb_server_recv smalloc now) events ((y_daemon s)\<lparr>kn_evread := False\<rparr>) (y_tables s) \<noteq> None"
    if "kn_evread (y_daemon s)" "EV_READ \<in> events \<or> EV_TIMEOUT \<in> events" for events
    using ev(3) [OF that] by auto
  moreover have "kcn_net_write_cb events ((y_daemon s)\<lparr>kn_evwrite := False\<rparr>) \<noteq> None"
    if "kn_evwrite (y_daemon s)" "EV_WRITE \<in> events \<or> EV_TIMEOUT \<in> events" for events
    using ev(4) [OF that] by auto
  ultimately show ?thesis by blast
qed

lemma net_new_runs:
  assumes "alloc_total malloc"
  shows "\<exists>kn. kcn_net_new True malloc True [] sk 4096 name = Some (Some kn)"
proof -
  from assms obtain mem where "malloc 4096 = Some mem" unfolding alloc_total_def by blast
  then show ?thesis
    by (simp add: kcn_net_new_def kcn_buf_data_new_def kcn_buf_init_def kcn_buf_start_def kb_sp_def
        kcn_net_write_enable_def kcn_net_event_add_def)
qed

text \<open>A query and its table, for concrete executions.\<close>

abbreviation sample_query :: kcn_msg_query where
  "sample_query \<equiv> \<lparr>kmq_loctype = 0, kmq_maxcount = 10, kmq_eq = sample_eq\<rparr>"

lemma sample_table:
  "TYPE2INDEX (ke_type sample_eq) < length sample_bases" "TYPE2INDEX (ke_type sample_eq) < length sample_db"
  "table_ok (sample_bases ! TYPE2INDEX (ke_type sample_eq)) (sample_db ! TYPE2INDEX (ke_type sample_eq)) (one_record sample) sample_locs"
  "lock_free (kdb_lock (sample_bases ! TYPE2INDEX (ke_type sample_eq)))"
  "loc_of sample_locs 2048 = [97]"
  using sample_ready sample_contents by (simp_all add: index_1 add_ready_def contents_def parse_one_record)

abbreviation quiet :: sock where
  "quiet \<equiv> \<lparr>sk_rx = [], sk_eof = False, sk_tx = [], sk_sys = []\<rparr>"

text \<open>The two ends of a connection, ready for the sample query, and the sample as \<^const>\<open>exchange_ok\<close> wants it.\<close>

lemma sample_ends_on:
  assumes "sk_rx sk = []" "sk_tx sk = []"
  obtains ckn0 r ckn dkn0 r' dkn where
    "kcn_net_new True zero_malloc True [] sk 4096 [] = Some (Some ckn0)" "kcn_client_query_send zero_malloc ckn0 sample_query = Some (r, ckn)"
    "kcn_net_new True zero_malloc True [] sk 4096 [] = Some (Some dkn0)" "kcn_net_read_enable dkn0 = Some (r', dkn)"
    "fresh ckn (query_msg sample_query)" "fresh dkn []"
proof -
  from net_new_runs [OF alloc_total_zero] obtain kn where n: "kcn_net_new True zero_malloc True [] sk 4096 [] = Some (Some kn)" by blast
  from query_fresh [OF alloc_total_zero n assms] obtain ckn where
    c: "kcn_client_query_send zero_malloc kn sample_query = Some (Inr (), ckn)" "fresh ckn (query_msg sample_query)" by blast
  have "kn_state kn = KCN_NET_STATE_INIT" using net_new_ok [OF alloc_total_ok [OF alloc_total_zero] n] by simp
  then obtain dkn where d: "kcn_net_read_enable kn = Some (Inr (), dkn)" by (simp add: kcn_net_read_enable_def)
  from session_fresh [OF alloc_total_ok [OF alloc_total_zero] n assms d] have "fresh dkn []" .
  with that n c d show thesis by blast
qed

lemma sample_ends:
  obtains ckn0 r ckn dkn0 r' dkn where
    "kcn_net_new True zero_malloc True [] quiet 4096 [] = Some (Some ckn0)" "kcn_client_query_send zero_malloc ckn0 sample_query = Some (r, ckn)"
    "kcn_net_new True zero_malloc True [] quiet 4096 [] = Some (Some dkn0)" "kcn_net_read_enable dkn0 = Some (r', dkn)"
    "fresh ckn (query_msg sample_query)" "fresh dkn []"
  by (rule sample_ends_on [of quiet]) (simp_all add: that)

lemma sample_selected:
  "selected sample_query (one_record sample) sample_locs = [[97]]" "selected_errno sample_query (one_record sample) = 0"
  using sample_table(5) by (simp_all add: sample_selection)

lemma sample_valid:
  "kmq_loctype sample_query \<le> 1" "ke_type (kmq_eq sample_query) < 256" "1 \<le> ke_op (kmq_eq sample_query)" "ke_op (kmq_eq sample_query) \<le> 5"
  by (simp_all add: word_le_nat_alt word_less_nat_alt)

lemma sample_tables:
  "TYPE2INDEX (ke_type (kmq_eq sample_query)) < length sample_bases" "TYPE2INDEX (ke_type (kmq_eq sample_query)) < length sample_db"
  "table_ok (sample_bases ! TYPE2INDEX (ke_type (kmq_eq sample_query))) (sample_db ! TYPE2INDEX (ke_type (kmq_eq sample_query)))
     (one_record sample) sample_locs"
  "lock_free (kdb_lock (sample_bases ! TYPE2INDEX (ke_type (kmq_eq sample_query))))"
  using sample_table(1-4) by simp_all

lemma sample_fits:
  "\<forall>loc \<in> set (selected sample_query (one_record sample) sample_locs). loc \<noteq> [] \<and> length loc \<le> 4090"
  "info_ok client_ki" "kcn_info_nlocs client_ki = 0" "unat (kmq_maxcount sample_query) \<le> kcn_info_maxnlocs client_ki"
  unfolding sample_selected by (simp_all add: client_ki_empty)

theorem query_end_to_end_witness:
  "\<exists>ckn dkn s. system_run zero_malloc 0 (kcndb_server_recv zero_malloc (Inr 0)) (system_start ckn client_ki dkn (sample_bases, sample_db)) s \<and>
     \<not> kn_evread (y_client s) \<and> \<not> kn_evwrite (y_client s) \<and>
     (kcr_error (y_kcr s) = 0 \<and> info_locs (kcr_ki (y_kcr s)) = [[97]] \<or> closed (y_client s))"
proof -
  obtain ckn0 r ckn dkn0 r' dkn where e:
    "kcn_net_new True zero_malloc True [] quiet 4096 [] = Some (Some ckn0)" "kcn_client_query_send zero_malloc ckn0 sample_query = Some (r, ckn)"
    "kcn_net_new True zero_malloc True [] quiet 4096 [] = Some (Some dkn0)" "kcn_net_read_enable dkn0 = Some (r', dkn)"
    "fresh ckn (query_msg sample_query)" "fresh dkn []" by (rule sample_ends)
  note x = exchange_ready [OF alloc_total_zero alloc_total_zero sample_valid sample_tables sample_fits, of "Inr 0"]
  have "query_msg sample_query \<noteq> []" by (simp add: query_msg_def header_bytes_def)
  from exchange_finishes [OF x e(5,6) this, of 0] obtain s where
    s: "system_run zero_malloc 0 (kcndb_server_recv zero_malloc (Inr 0)) (system_start ckn client_ki dkn (sample_bases, sample_db)) s"
      "\<not> kn_evread (y_client s)" "\<not> kn_evwrite (y_client s)" by blast
  from query_end_to_end [OF alloc_total_zero alloc_total_zero sample_valid sample_tables sample_fits e(1) _ _ e(2,3) _ _ e(4) s(1)] s(2,3)
  have "kcr_error (y_kcr s) = 0 \<and> info_locs (kcr_ki (y_kcr s)) = [[97]] \<or> closed (y_client s)"
    unfolding sample_selected by auto
  with s show ?thesis by blast
qed

section \<open>A search from the command line\<close>














end
