(* ===== verification/Kcn_Live.thy ===== *)
theory Kcn_Live
  imports Kcn_Progress Kcn_System_Spec
begin

text \<open>
  An exchange comes to its end: while the sockets work, every run of the client and the daemon is finite, and one
  that cannot go on has the whole answer.
\<close>

section \<open>Steps while the sockets work\<close>

text \<open>
  The steps of \<^const>\<open>system_step\<close> in which something happens: a read event fires when bytes are there and a write event when
  the socket is writable, neither has timed out, and bytes on the way move.  The outcomes of the system calls are those that the
  sockets have from the start, any number of them of the kinds a socket that works has (\<open>steady\<close>).
\<close>

inductive working_step :: "allocator \<Rightarrow> errno \<Rightarrow> 't net_readcb \<Rightarrow> 't system \<Rightarrow> 't system \<Rightarrow> bool"
  for malloc :: allocator and errno :: errno and readcb :: "'t net_readcb" where
  client_receives: "kn_evread (y_client s) \<Longrightarrow> kn_fd (y_client s) = Some sk \<Longrightarrow> sk_rx sk \<noteq> [] \<Longrightarrow> EV_READ \<in> events \<Longrightarrow>
    kcn_net_read_cb (kcn_client_read malloc errno) events ((y_client s)\<lparr>kn_evread := False\<rparr>) (y_kcr s) = Some (kn, kcr) \<Longrightarrow>
    working_step malloc errno readcb s (s\<lparr>y_client := kn, y_kcr := kcr\<rparr>)"
| client_sends: "kn_evwrite (y_client s) \<Longrightarrow> EV_WRITE \<in> events \<Longrightarrow>
    kcn_net_write_cb events ((y_client s)\<lparr>kn_evwrite := False\<rparr>) = Some kn \<Longrightarrow>
    working_step malloc errno readcb s (s\<lparr>y_client := kn\<rparr>)"
| request_goes: "kn_fd (y_client s) = Some sk \<Longrightarrow> sk_tx sk = bs @ rest \<Longrightarrow> bs \<noteq> [] \<Longrightarrow>
    working_step malloc errno readcb s (s\<lparr>y_client := (y_client s)\<lparr>kn_fd := Some (sk\<lparr>sk_tx := rest\<rparr>)\<rparr>, y_requests := y_requests s @ bs\<rparr>)"
| answer_comes: "kn_fd (y_client s) = Some sk \<Longrightarrow> y_answers s = bs @ rest \<Longrightarrow> bs \<noteq> [] \<Longrightarrow>
    working_step malloc errno readcb s (s\<lparr>y_client := (y_client s)\<lparr>kn_fd := Some (sk\<lparr>sk_rx := sk_rx sk @ bs\<rparr>)\<rparr>, y_answers := rest\<rparr>)"
| daemon_receives: "kn_evread (y_daemon s) \<Longrightarrow> kn_fd (y_daemon s) = Some sk \<Longrightarrow> sk_rx sk \<noteq> [] \<Longrightarrow> EV_READ \<in> events \<Longrightarrow>
    kcn_net_read_cb readcb events ((y_daemon s)\<lparr>kn_evread := False\<rparr>) (y_tables s) = Some (kn, t) \<Longrightarrow>
    working_step malloc errno readcb s (s\<lparr>y_daemon := kn, y_tables := t\<rparr>)"
| daemon_sends: "kn_evwrite (y_daemon s) \<Longrightarrow> EV_WRITE \<in> events \<Longrightarrow>
    kcn_net_write_cb events ((y_daemon s)\<lparr>kn_evwrite := False\<rparr>) = Some kn \<Longrightarrow>
    working_step malloc errno readcb s (s\<lparr>y_daemon := kn\<rparr>)"
| answer_goes: "kn_fd (y_daemon s) = Some sk \<Longrightarrow> sk_tx sk = bs @ rest \<Longrightarrow> bs \<noteq> [] \<Longrightarrow>
    working_step malloc errno readcb s (s\<lparr>y_daemon := (y_daemon s)\<lparr>kn_fd := Some (sk\<lparr>sk_tx := rest\<rparr>)\<rparr>, y_answers := y_answers s @ bs\<rparr>)"
| request_comes: "kn_fd (y_daemon s) = Some sk \<Longrightarrow> y_requests s = bs @ rest \<Longrightarrow> bs \<noteq> [] \<Longrightarrow>
    working_step malloc errno readcb s (s\<lparr>y_daemon := (y_daemon s)\<lparr>kn_fd := Some (sk\<lparr>sk_rx := sk_rx sk @ bs\<rparr>)\<rparr>, y_requests := rest\<rparr>)"

lemma working_system_step: "working_step malloc errno readcb s s' \<Longrightarrow> system_step malloc errno readcb s s'"
  by (induction rule: working_step.induct) (auto intro: system_step.intros)

lemma working_run: "(working_step malloc errno readcb ^^ n) s0 s \<Longrightarrow> system_run malloc errno readcb s0 s"
proof (induction n arbitrary: s)
  case (Suc n)
  then obtain s1 where "(working_step malloc errno readcb ^^ n) s0 s1" "working_step malloc errno readcb s1 s" by auto
  with Suc.IH working_system_step show ?case by (blast intro: system_run.step)
qed (simp add: system_run.start)

section \<open>What a working system keeps\<close>

text \<open>The work that is left at one end: bytes to send, bytes to read, outcomes to come and a write event.\<close>

definition net_weight :: "kcn_net \<Rightarrow> nat" where
  "net_weight kn = 3 * length (net_out kn) +
     (case kn_fd kn of None \<Rightarrow> 0 | Some sk \<Rightarrow> length (sk_rx sk) + length (sk_sys sk)) + of_bool (kn_evwrite kn)"

text \<open>An end that is open and whose socket works, and whose queue is going to be written.\<close>

definition works :: "kcn_net \<Rightarrow> bool" where
  "works kn \<longleftrightarrow> net_inv 4096 kn \<and> kn_everrs kn = [] \<and> (\<exists>sk. kn_fd kn = Some sk \<and> steady sk) \<and> (obytes kn = [] \<or> kn_evwrite kn)"

lemma works_write:
  assumes "works kn" "kn_evwrite kn" "EV_WRITE \<in> events"
  obtains kn' where "kcn_net_write_cb events (kn\<lparr>kn_evwrite := False\<rparr>) = Some kn'" "works kn'" "kn_state kn' = KCN_NET_STATE_ESTABLISHED"
    "net_out kn' = net_out kn" "net_in kn' = net_in kn" "kn_ibuf kn' = kn_ibuf kn" "map_option sk_rx (kn_fd kn') = map_option sk_rx (kn_fd kn)"
    "kn_evread kn' = (kn_evread kn \<or> kn_state kn = KCN_NET_STATE_PENDING)" "net_weight kn' < net_weight kn"
proof -
  from assms(1) obtain sk where w: "net_inv 4096 kn" "kn_everrs kn = []" "kn_fd kn = Some sk" "steady sk" by (auto simp: works_def)
  from write_works [OF w(1) assms(2,3) w(3,4,2)] obtain kn' sk' where k:
    "kcn_net_write_cb events (kn\<lparr>kn_evwrite := False\<rparr>) = Some kn'" "net_inv 4096 kn'" "kn_fd kn' = Some sk'"
    "kn_state kn' = KCN_NET_STATE_ESTABLISHED" "kn_everrs kn' = []" "net_out kn' = net_out kn" "sk_rx sk' = sk_rx sk"
    "kn_ibuf kn' = kn_ibuf kn" "kn_evread kn' = (kn_evread kn \<or> kn_state kn = KCN_NET_STATE_PENDING)" "sys_used sk sk'"
    "kn_obufq kn' = [] \<and> \<not> kn_evwrite kn' \<or> kn_evwrite kn' \<and> length (sk_sys sk') < length (sk_sys sk)" by blast
  have "works kn'" using k(2,3,5,10,11) w(4) sys_used_steady by (auto simp: works_def obytes_def)
  moreover have "net_weight kn' < net_weight kn"
    using k(3,6,7,11) w(3) assms(2) sys_used_length [OF k(10)] by (auto simp: net_weight_def)
  moreover have "net_in kn' = net_in kn" using k(3,7,8) w(3) by (simp add: net_in_def)
  ultimately show thesis using k(1,3,4,6-9) w(3) by (intro that [of kn']) simp_all
qed

text \<open>Bytes leave a socket or come to it.\<close>

lemma works_goes:
  assumes "works kn" "kn_fd kn = Some sk" "sk_tx sk = bs @ rest"
  shows "works (kn\<lparr>kn_fd := Some (sk\<lparr>sk_tx := rest\<rparr>)\<rparr>)" "net_out kn = bs @ net_out (kn\<lparr>kn_fd := Some (sk\<lparr>sk_tx := rest\<rparr>)\<rparr>)"
    "net_in (kn\<lparr>kn_fd := Some (sk\<lparr>sk_tx := rest\<rparr>)\<rparr>) = net_in kn"
    "net_weight kn = 3 * length bs + net_weight (kn\<lparr>kn_fd := Some (sk\<lparr>sk_tx := rest\<rparr>)\<rparr>)"
  using assms inv_fd [of 4096 kn sk] by (auto simp: works_def net_out_def net_in_def obytes_def net_weight_def steady_def)

lemma works_comes:
  assumes "works kn" "kn_fd kn = Some sk"
  shows "works (kn\<lparr>kn_fd := Some (sk\<lparr>sk_rx := sk_rx sk @ bs\<rparr>)\<rparr>)" "net_out (kn\<lparr>kn_fd := Some (sk\<lparr>sk_rx := sk_rx sk @ bs\<rparr>)\<rparr>) = net_out kn"
    "net_in (kn\<lparr>kn_fd := Some (sk\<lparr>sk_rx := sk_rx sk @ bs\<rparr>)\<rparr>) = net_in kn @ bs"
    "net_weight (kn\<lparr>kn_fd := Some (sk\<lparr>sk_rx := sk_rx sk @ bs\<rparr>)\<rparr>) = net_weight kn + length bs"
  using assms inv_fd [of 4096 kn sk] by (auto simp: works_def net_out_def net_in_def obytes_def net_weight_def steady_def)

text \<open>The client has queued its query, or has a beginning of the answer and waits for the rest, or has all of it.\<close>

definition client_done :: "(nat \<times> byte list) list \<Rightarrow> errno \<Rightarrow> kcn_info \<Rightarrow> kcn_net \<Rightarrow> kcn_client_response \<Rightarrow> bool" where
  "client_done locs e ki kn kcr \<longleftrightarrow> \<not> kn_evread kn \<and> (closed kn \<or> works kn \<and> kn_state kn = KCN_NET_STATE_ESTABLISHED) \<and>
     kcr_error kcr = e \<and> kcr_ki kcr = fold info_push locs ki"

definition client_waits :: "(nat \<times> byte list) list \<Rightarrow> errno \<Rightarrow> kcn_info \<Rightarrow> byte list \<Rightarrow> kcn_net \<Rightarrow> kcn_client_response \<Rightarrow> bool" where
  "client_waits locs e ki rest kn kcr \<longleftrightarrow> works kn \<and> waiting kn \<and> (kcr_error kcr = 0 \<or> kcr_error kcr = EAGAIN) \<and>
     (\<exists>k \<le> length locs. kcr_ki kcr = fold info_push (take k locs) ki \<and> net_in kn @ rest = answer (drop k locs) e) \<and>
     (\<exists>sk. kn_fd kn = Some sk \<and> sk_rx sk @ rest \<noteq> [])"

definition client_asks :: "(nat \<times> byte list) list \<Rightarrow> errno \<Rightarrow> kcn_info \<Rightarrow> byte list \<Rightarrow> kcn_net \<Rightarrow> kcn_client_response \<Rightarrow> bool" where
  "client_asks locs e ki rest kn kcr \<longleftrightarrow> works kn \<and> kn_state kn = KCN_NET_STATE_PENDING \<and> kn_evwrite kn \<and> obytes kn \<noteq> [] \<and>
     net_in kn = [] \<and> kcr = \<lparr>kcr_error = 0, kcr_ki = ki\<rparr> \<and> rest = answer locs e"

definition client_part :: "(nat \<times> byte list) list \<Rightarrow> errno \<Rightarrow> kcn_info \<Rightarrow> byte list \<Rightarrow> kcn_net \<Rightarrow> kcn_client_response \<Rightarrow> bool" where
  "client_part locs e ki rest kn kcr \<longleftrightarrow>
     client_asks locs e ki rest kn kcr \<or> client_waits locs e ki rest kn kcr \<or> client_done locs e ki kn kcr"

lemma works_open: "works kn \<Longrightarrow> \<not> closed kn"
  by (auto simp: works_def closed_def)

lemma answer_nonempty: "answer locs e \<noteq> []"
  by (simp add: answer_def response_msg_def header_bytes_def)

lemma client_part_reads:
  assumes "client_part locs e ki rest kn kcr" "kn_evread kn" "kn_fd kn = Some sk" "sk_rx sk \<noteq> []" "EV_READ \<in> events" "net_out kn = []"
    and l: "locs_ok malloc locs" "info_room ki (length locs)" "e < 256" "e \<noteq> EAGAIN" "info_ok ki"
  shows "\<exists>kn' kcr'. kcn_net_read_cb (kcn_client_read malloc errno) events (kn\<lparr>kn_evread := False\<rparr>) kcr = Some (kn', kcr') \<and>
    client_part locs e ki rest kn' kcr' \<and> net_out kn' = [] \<and> net_weight kn' < net_weight kn"
proof -
  have "\<not> client_asks locs e ki rest kn kcr" using assms(2) by (auto simp: client_asks_def works_def net_inv_def net_ok_def)
  with assms(1,2) have "client_waits locs e ki rest kn kcr" by (auto simp: client_part_def client_done_def)
  then obtain k where w: "works kn" "waiting kn" "kcr_error kcr = 0 \<or> kcr_error kcr = EAGAIN" "k \<le> length locs"
    "kcr_ki kcr = fold info_push (take k locs) ki" "net_in kn @ rest = answer (drop k locs) e"
    by (auto simp: client_waits_def)
  have inv: "net_inv 4096 kn" "steady sk" using w(1) assms(3) by (auto simp: works_def)
  have d: "kb_data (kn_ibuf kn) @ sk_rx sk @ rest = answer (drop k locs) e" using w(6) assms(3) by (simp add: net_in_def)
  have ev: "EV_READ \<in> events \<or> EV_TIMEOUT \<in> events" using assms(5) by simp
  from waiting_fires [OF w(2,3) assms(3) w(4,5) d l(1-4) ev, of errno] assms(4,5) inv(2) obtain kn' kcr' where
    f: "kcn_net_read_cb (kcn_client_read malloc errno) events (kn\<lparr>kn_evread := False\<rparr>) kcr = Some (kn', kcr')"
      "collected locs e ki (rest, kn', kcr')" "advances locs e ki rest kn sk kn' kcr'" by blast
  from client_read_event [OF view_wait [OF w(2-6)] inv(1) assms(2) ev l, where errno = errno and R = "[]"] f(1) have
    v: "net_inv 4096 kn'" "net_out kn' = []" using assms(6) by (auto simp: closed_out)
  have o: "obytes kn' = []" if "kn_fd kn' \<noteq> None" using v(2) that by (auto simp: net_out_def)
  have wk: "works kn'" "net_weight kn' < net_weight kn"
    if "kn_fd kn' = Some sk'" "moved sk sk'" "kn_everrs kn' = []" "kn_evwrite kn' \<longrightarrow> kn_evwrite kn" for sk'
    using that v o assms(3,6) inv(2) sys_used_steady [of sk sk'] by (auto simp: works_def moved_def net_weight_def)
  from f(3) [unfolded advances_def] have "client_part locs e ki rest kn' kcr' \<and> net_weight kn' < net_weight kn"
  proof (elim disjE conjE exE)
    assume a: "\<not> kn_evread kn'" "kn_evwrite kn' \<longrightarrow> kn_evwrite kn" "kcr_error kcr' = e" "kcr_ki kcr' = fold info_push locs ki"
      "kn_state kn' = (if e = 0 then KCN_NET_STATE_ESTABLISHED else KCN_NET_STATE_DISCONNECTED)" "kn_everrs kn' = []"
      "\<forall>sk'. kn_fd kn' = Some sk' \<longrightarrow> moved sk sk'"
    show ?thesis
    proof (cases "kn_fd kn'")
      case None
      with inv_closed [OF v(1)] have "closed kn'" by blast
      moreover have "net_weight kn' < net_weight kn"
        using None v(2) assms(3,4) \<open>closed kn'\<close> by (cases "sk_rx sk") (auto simp: net_weight_def closed_def)
      ultimately show ?thesis using a by (simp add: client_part_def client_done_def)
    next
      case (Some sk')
      with a(7) have m: "moved sk sk'" by blast
      have "kn_state kn' = KCN_NET_STATE_ESTABLISHED" using a(5) v(1) Some by (auto simp: net_inv_def net_ok_def split: if_splits)
      with wk [OF Some m a(6,2)] a show ?thesis by (simp add: client_part_def client_done_def)
    qed
  next
    fix sk' assume a: "waiting kn'" "kn_evwrite kn' = kn_evwrite kn" "kn_fd kn' = Some sk'" "moved sk sk'" "sk_rx sk' @ rest \<noteq> []"
    from wk [OF a(3,4) waiting_open(2) [OF a(1)]] a(2) have k: "works kn'" "net_weight kn' < net_weight kn" by simp_all
    from f(2) a(1,3) obtain j where "kcr_error kcr' = 0 \<or> kcr_error kcr' = EAGAIN" "j \<le> length locs"
      "kcr_ki kcr' = fold info_push (take j locs) ki" "kb_data (kn_ibuf kn') @ sk_rx sk' @ rest = answer (drop j locs) e"
      by (auto simp: collected_def waiting_def)
    with k a(1,3,5) show ?thesis by (auto simp: client_part_def client_waits_def net_in_def)
  qed
  with f(1) v(2) show ?thesis by blast
qed

lemma client_part_writes:
  assumes "client_part locs e ki rest kn kcr" "kn_evwrite kn" "EV_WRITE \<in> events"
  shows "\<exists>kn'. kcn_net_write_cb events (kn\<lparr>kn_evwrite := False\<rparr>) = Some kn' \<and> client_part locs e ki rest kn' kcr \<and>
    net_out kn' = net_out kn \<and> net_in kn' = net_in kn \<and> net_weight kn' < net_weight kn"
proof -
  have "works kn" using assms(1,2) by (auto simp: client_part_def client_asks_def client_waits_def client_done_def closed_def)
  from works_write [OF this assms(2,3)] obtain kn' where k:
    "kcn_net_write_cb events (kn\<lparr>kn_evwrite := False\<rparr>) = Some kn'" "works kn'" "kn_state kn' = KCN_NET_STATE_ESTABLISHED"
    "net_out kn' = net_out kn" "net_in kn' = net_in kn" "map_option sk_rx (kn_fd kn') = map_option sk_rx (kn_fd kn)"
    "kn_evread kn' = (kn_evread kn \<or> kn_state kn = KCN_NET_STATE_PENDING)" "net_weight kn' < net_weight kn" by blast
  obtain sk' where sk': "kn_fd kn' = Some sk'" using k(2) by (auto simp: works_def)
  have w: "waiting kn'" if "kn_evread kn \<or> kn_state kn = KCN_NET_STATE_PENDING" using that k(2,7) by (auto simp: works_def waiting_def)
  from assms(1) have "client_part locs e ki rest kn' kcr"
    unfolding client_part_def
  proof (elim disjE)
    assume "client_asks locs e ki rest kn kcr"
    with w k(2,5) sk' have "client_waits locs e ki rest kn' kcr"
      using answer_nonempty [of locs e] by (auto simp: client_asks_def client_waits_def intro!: exI [of _ 0])
    then show "client_asks locs e ki rest kn' kcr \<or> client_waits locs e ki rest kn' kcr \<or> client_done locs e ki kn' kcr" by blast
  next
    assume c: "client_waits locs e ki rest kn kcr"
    then have "kn_evread kn" by (simp add: client_waits_def waiting_def)
    with c w k(2,5,6) sk' have "client_waits locs e ki rest kn' kcr" by (auto simp: client_waits_def)
    then show "client_asks locs e ki rest kn' kcr \<or> client_waits locs e ki rest kn' kcr \<or> client_done locs e ki kn' kcr" by blast
  next
    assume "client_done locs e ki kn kcr"
    with k(2,3,7) assms(2) have "client_done locs e ki kn' kcr" by (auto simp: client_done_def closed_def)
    then show "client_asks locs e ki rest kn' kcr \<or> client_waits locs e ki rest kn' kcr \<or> client_done locs e ki kn' kcr" by blast
  qed
  with k(1,4,5,8) show ?thesis by blast
qed

lemma client_part_fd: "client_part locs e ki rest kn kcr \<Longrightarrow> kn_fd kn \<noteq> None \<Longrightarrow> works kn"
  by (auto simp: client_part_def client_asks_def client_waits_def client_done_def closed_def)

lemma client_part_goes:
  assumes "client_part locs e ki rest kn kcr" "kn_fd kn = Some sk" "sk_tx sk = bs @ tx"
  shows "client_part locs e ki rest (kn\<lparr>kn_fd := Some (sk\<lparr>sk_tx := tx\<rparr>)\<rparr>) kcr"
proof -
  from client_part_fd [OF assms(1)] assms(2) have "works kn" by simp
  note g = works_goes [OF this assms(2,3)]
  show ?thesis
    using assms(1,2) g(1,3) waiting_fd [OF _ assms(2), of "sk\<lparr>sk_tx := tx\<rparr>"]
    by (auto simp: client_part_def client_asks_def client_waits_def client_done_def closed_def obytes_def)
qed

lemma client_part_comes:
  assumes "client_part locs e ki (bs @ rest) kn kcr" "kn_fd kn = Some sk" "net_out kn = []"
  shows "client_part locs e ki rest (kn\<lparr>kn_fd := Some (sk\<lparr>sk_rx := sk_rx sk @ bs\<rparr>)\<rparr>) kcr"
proof -
  from client_part_fd [OF assms(1)] assms(2) have "works kn" by simp
  note g = works_comes [OF this assms(2), of bs]
  have "obytes kn = []" using assms(2,3) by (simp add: net_out_def)
  then show ?thesis
    using assms(1,2) g(1,3) waiting_fd [OF _ assms(2), of "sk\<lparr>sk_rx := sk_rx sk @ bs\<rparr>"]
    by (auto simp: client_part_def client_asks_def client_waits_def client_done_def closed_def)
qed

text \<open>The daemon has a beginning of the query.\<close>

definition daemon_part :: "byte list \<Rightarrow> kcn_net \<Rightarrow> bool" where
  "daemon_part Q kn \<longleftrightarrow> works kn \<and> (kn_state kn = KCN_NET_STATE_PENDING \<and> kn_evwrite kn \<or> waiting kn) \<and>
     strict_prefix (kb_data (kn_ibuf kn)) Q"

lemma daemon_part_writes:
  assumes "daemon_part Q kn" "kn_evwrite kn" "EV_WRITE \<in> events"
  shows "\<exists>kn'. kcn_net_write_cb events (kn\<lparr>kn_evwrite := False\<rparr>) = Some kn' \<and> daemon_part Q kn' \<and>
    net_out kn' = net_out kn \<and> net_in kn' = net_in kn \<and> net_weight kn' < net_weight kn"
proof -
  from assms(1) have d: "works kn" "kn_state kn = KCN_NET_STATE_PENDING \<or> waiting kn" "strict_prefix (kb_data (kn_ibuf kn)) Q"
    by (auto simp: daemon_part_def)
  from works_write [OF d(1) assms(2,3)] obtain kn' where k:
    "kcn_net_write_cb events (kn\<lparr>kn_evwrite := False\<rparr>) = Some kn'" "works kn'" "net_out kn' = net_out kn" "net_in kn' = net_in kn"
    "kn_ibuf kn' = kn_ibuf kn" "kn_evread kn' = (kn_evread kn \<or> kn_state kn = KCN_NET_STATE_PENDING)" "net_weight kn' < net_weight kn" by blast
  have "waiting kn'" using k(2,6) d(2) by (auto simp: works_def waiting_def)
  with k d(3) show ?thesis by (auto simp: daemon_part_def)
qed

lemma daemon_part_goes: "daemon_part Q kn \<Longrightarrow> kn_fd kn = Some sk \<Longrightarrow> sk_tx sk = bs @ tx \<Longrightarrow>
    daemon_part Q (kn\<lparr>kn_fd := Some (sk\<lparr>sk_tx := tx\<rparr>)\<rparr>)"
  using works_goes(1) [of kn sk bs tx] waiting_fd [of kn sk "sk\<lparr>sk_tx := tx\<rparr>"] by (auto simp: daemon_part_def)

lemma daemon_part_comes: "daemon_part Q kn \<Longrightarrow> kn_fd kn = Some sk \<Longrightarrow> daemon_part Q (kn\<lparr>kn_fd := Some (sk\<lparr>sk_rx := sk_rx sk @ bs\<rparr>)\<rparr>)"
  using works_comes(1) [of kn sk bs] waiting_fd [of kn sk "sk\<lparr>sk_rx := sk_rx sk @ bs\<rparr>"] by (auto simp: daemon_part_def)

lemma daemon_part_reads:
  assumes "daemon_part Q kn" "kn_evread kn" "kn_fd kn = Some sk" "sk_rx sk \<noteq> []" "EV_READ \<in> events" "prefix (net_in kn) Q"
    and q: "serves_query readcb T Q A" "length Q \<le> 4096"
  shows "\<exists>kn' T'. kcn_net_read_cb readcb events (kn\<lparr>kn_evread := False\<rparr>) T = Some (kn', T') \<and> daemon_part Q kn' \<and>
    (T' = T \<and> net_in kn' = net_in kn \<and> net_out kn' = net_out kn \<and> net_weight kn' < net_weight kn \<or>
     net_in kn = Q \<and> net_in kn' = [] \<and> net_out kn' = net_out kn @ A \<and> net_weight kn' \<le> net_weight kn + 3 * length A + 1)"
proof -
  from assms(1,2) have d: "works kn" "waiting kn" "strict_prefix (kb_data (kn_ibuf kn)) Q" "steady sk"
    using assms(3) by (auto simp: daemon_part_def works_def waiting_def)
  have ne: "net_in kn \<noteq> []" "Q \<noteq> []" using assms(3,4) d(3) by (auto simp: net_in_def strict_prefix_def)
  have ev: "EV_READ \<in> events \<or> EV_TIMEOUT \<in> events" using assms(5) by simp
  from daemon_event [OF d(2) impI [OF q(1)] ev assms(6) d(3) q(2)] obtain kn' T' where
    f: "kcn_net_read_cb readcb events (kn\<lparr>kn_evread := False\<rparr>) T = Some (kn', T')" "net_inv 4096 kn'"
      "closed kn' \<or> T' = T \<and> net_in kn' = net_in kn \<and> net_out kn' = net_out kn \<and> strict_prefix (kb_data (kn_ibuf kn')) Q \<or>
         net_in kn = Q \<and> net_in kn' = [] \<and> net_out kn' = net_out kn @ A" "daemon_advances Q kn sk kn'"
    using assms(3-5) d(4) by blast
  from f(4) obtain sk' where a: "waiting kn'" "kn_fd kn' = Some sk'" "moved sk sk'"
    "net_in kn' = net_in kn \<and> obytes kn' = obytes kn \<and> kn_evwrite kn' = kn_evwrite kn \<or> net_in kn = Q \<and> net_in kn' = [] \<and> kn_evwrite kn'"
    unfolding daemon_advances_def by blast
  have st: "steady sk'" "kn_everrs kn' = []" "\<not> closed kn'"
    using a(1-3) d(4) sys_used_steady [of sk sk'] by (auto simp: moved_def waiting_def closed_def)
  have wk: "works kn'" using f(2) a(2,4) st d(1) by (auto simp: works_def)
  from f(3) st(3) show ?thesis
  proof (elim disjE conjE)
    assume c: "T' = T" "net_in kn' = net_in kn" "net_out kn' = net_out kn" "strict_prefix (kb_data (kn_ibuf kn')) Q"
    then have "kn_evwrite kn' = kn_evwrite kn" using a(4) ne(1) by auto
    with c(3) a(2,3) assms(3) have "net_weight kn' < net_weight kn" by (simp add: net_weight_def moved_def)
    with f(1) c wk a(1) show ?thesis by (auto simp: daemon_part_def)
  next
    assume c: "net_in kn = Q" "net_in kn' = []" "net_out kn' = net_out kn @ A"
    then have "kb_data (kn_ibuf kn') = []" by (simp add: net_in_def)
    with ne(2) wk a(1) have "daemon_part Q kn'" by (auto simp: daemon_part_def strict_prefix_def)
    moreover have "net_weight kn' \<le> net_weight kn + 3 * length A + 1" using c(3) a(2,3) assms(3) by (simp add: net_weight_def moved_def)
    ultimately show ?thesis using f(1) c by blast
  qed simp
qed

section \<open>The working system\<close>

definition working_inv :: "byte list \<Rightarrow> 't \<Rightarrow> (nat \<times> byte list) list \<Rightarrow> errno \<Rightarrow> kcn_info \<Rightarrow> 't system \<Rightarrow> bool" where
  "working_inv Q T locs e ki s \<longleftrightarrow> (\<exists>rest. client_part locs e ki rest (y_client s) (y_kcr s) \<and> daemon_part Q (y_daemon s) \<and>
     (rest = answer locs e \<and> y_answers s = [] \<and> net_out (y_daemon s) = [] \<and> y_tables s = T \<and> net_in (y_client s) = [] \<and>
        net_in (y_daemon s) @ y_requests s @ net_out (y_client s) = Q \<or>
      net_in (y_daemon s) = [] \<and> y_requests s = [] \<and> net_out (y_client s) = [] \<and>
        (client_done locs e ki (y_client s) (y_kcr s) \<or> rest = y_answers s @ net_out (y_daemon s))))"

lemma working_invE:
  assumes "working_inv Q T locs e ki s"
  obtains (asked) rest where "client_part locs e ki rest (y_client s) (y_kcr s)" "daemon_part Q (y_daemon s)" "rest = answer locs e" "y_answers s = []"
      "net_out (y_daemon s) = []" "y_tables s = T" "net_in (y_client s) = []" "net_in (y_daemon s) @ y_requests s @ net_out (y_client s) = Q"
  | (answered) rest where "client_part locs e ki rest (y_client s) (y_kcr s)" "daemon_part Q (y_daemon s)" "net_in (y_daemon s) = []" "y_requests s = []"
      "net_out (y_client s) = []" "client_done locs e ki (y_client s) (y_kcr s) \<or> rest = y_answers s @ net_out (y_daemon s)"
  using assms unfolding working_inv_def by blast

lemma workingI_asked:
  "client_part locs e ki (answer locs e) (y_client s) (y_kcr s) \<Longrightarrow> daemon_part Q (y_daemon s) \<Longrightarrow> y_answers s = [] \<Longrightarrow>
   net_out (y_daemon s) = [] \<Longrightarrow> y_tables s = T \<Longrightarrow> net_in (y_client s) = [] \<Longrightarrow>
   net_in (y_daemon s) @ y_requests s @ net_out (y_client s) = Q \<Longrightarrow> working_inv Q T locs e ki s"
  unfolding working_inv_def by blast

lemma workingI_answered:
  "client_part locs e ki rest (y_client s) (y_kcr s) \<Longrightarrow> daemon_part Q (y_daemon s) \<Longrightarrow> net_in (y_daemon s) = [] \<Longrightarrow> y_requests s = [] \<Longrightarrow>
   net_out (y_client s) = [] \<Longrightarrow> client_done locs e ki (y_client s) (y_kcr s) \<or> rest = y_answers s @ net_out (y_daemon s) \<Longrightarrow>
   working_inv Q T locs e ki s"
  unfolding working_inv_def by blast

text \<open>The work that is left: until the daemon has the query, the answer is still to be made.\<close>

definition system_weight :: "byte list \<Rightarrow> 't system \<Rightarrow> nat" where
  "system_weight A s = (3 * length A + 2) * length (net_in (y_daemon s) @ y_requests s @ net_out (y_client s)) +
     2 * length (y_requests s) + 2 * length (y_answers s) + net_weight (y_client s) + net_weight (y_daemon s)"

text \<open>The client's loop has come to its end, with all locators and the server's error.\<close>

definition exchange_done :: "(nat \<times> byte list) list \<Rightarrow> errno \<Rightarrow> kcn_info \<Rightarrow> 't system \<Rightarrow> bool" where
  "exchange_done locs e ki s \<longleftrightarrow> \<not> kn_evread (y_client s) \<and> \<not> kn_evwrite (y_client s) \<and>
     kcr_error (y_kcr s) = e \<and> kcr_ki (y_kcr s) = fold info_push locs ki"

text \<open>
  The client's steps change only its end, what it has sent, and what it has received.
\<close>

lemma working_client:
  assumes "working_inv Q T locs e ki s"
    and "\<And>rest. client_part locs e ki rest (y_client s) (y_kcr s) \<Longrightarrow> client_part locs e ki rest kn kcr"
    and "net_out (y_client s) = bs @ net_out kn" "net_in (y_client s) = [] \<longrightarrow> net_in kn = []"
    and "client_done locs e ki (y_client s) (y_kcr s) \<Longrightarrow> client_done locs e ki kn kcr"
  shows "working_inv Q T locs e ki (s\<lparr>y_client := kn, y_kcr := kcr, y_requests := y_requests s @ bs\<rparr>)"
  using assms(1)
proof (cases rule: working_invE)
  case (asked rest)
  with assms(2-4) show ?thesis by (intro workingI_asked) simp_all
next
  case (answered rest)
  with assms(2,3,5) show ?thesis by (intro workingI_answered [of _ _ _ rest]) auto
qed

lemma client_done_goes:
  assumes "client_done locs e ki kn kcr" "kn_fd kn = Some sk" "sk_tx sk = bs @ tx"
  shows "client_done locs e ki (kn\<lparr>kn_fd := Some (sk\<lparr>sk_tx := tx\<rparr>)\<rparr>) kcr"
  using assms works_goes(1) [of kn sk bs tx] by (auto simp: client_done_def closed_def)

lemma client_done_comes:
  assumes "client_done locs e ki kn kcr" "kn_fd kn = Some sk"
  shows "client_done locs e ki (kn\<lparr>kn_fd := Some (sk\<lparr>sk_rx := sk_rx sk @ bs\<rparr>)\<rparr>) kcr"
  using assms works_comes(1) [of kn sk bs] by (auto simp: client_done_def closed_def)

lemma client_done_writes:
  assumes "client_done locs e ki kn kcr" "kn_evwrite kn" "EV_WRITE \<in> events"
    and "kcn_net_write_cb events (kn\<lparr>kn_evwrite := False\<rparr>) = Some kn'"
  shows "client_done locs e ki kn' kcr"
proof -
  from assms(1,2) have d: "works kn" "\<not> kn_evread kn" "kn_state kn = KCN_NET_STATE_ESTABLISHED" by (auto simp: client_done_def closed_def)
  from works_write [OF d(1) assms(2,3)] assms(4) d(2,3) have "works kn'" "kn_state kn' = KCN_NET_STATE_ESTABLISHED" "\<not> kn_evread kn'" by auto
  with assms(1) show ?thesis by (simp add: client_done_def)
qed

lemma fd_in: "kn_fd kn = Some sk \<Longrightarrow> sk_rx sk \<noteq> [] \<Longrightarrow> net_in kn \<noteq> []"
  by (simp add: net_in_def)

lemma works_client_receives:
  assumes "exchange_ok malloc readcb T Q locs e ki" "working_inv Q T locs e ki s"
    and client_receives: "s' = s\<lparr>y_client := kn, y_kcr := kcr\<rparr>"
      "kn_evread (y_client s)" "kn_fd (y_client s) = Some sk" "sk_rx sk \<noteq> []" "EV_READ \<in> events"
      "kcn_net_read_cb (kcn_client_read malloc errno) events ((y_client s)\<lparr>kn_evread := False\<rparr>) (y_kcr s) = Some (kn, kcr)"
  shows "working_inv Q T locs e ki s' \<and> system_weight (answer locs e) s' < system_weight (answer locs e) s"
proof -
  from assms(1) have x: "serves_query readcb T Q (answer locs e)" "length Q \<le> 4096" "locs_ok malloc locs"
    "info_room ki (length locs)" "e < 256" "e \<noteq> EAGAIN" "info_ok ki" by (simp_all add: exchange_ok_def)
  from assms(2) show ?thesis
  proof (cases rule: working_invE)
    case (asked rest)
    with client_receives(3,4) fd_in show ?thesis by blast
  next
    case (answered rest)
    from client_part_reads [OF answered(1) client_receives(2-5) answered(5) x(3-7), of errno] client_receives(6) have
      k: "client_part locs e ki rest kn kcr" "net_out kn = []" "net_weight kn < net_weight (y_client s)" by auto
    have "\<not> client_done locs e ki (y_client s) (y_kcr s)" using client_receives(2) by (simp add: client_done_def)
    with answered k(1,2) client_receives(1) have "working_inv Q T locs e ki s'"
      by (intro workingI_answered [of _ _ _ rest]) simp_all
    with answered(5) k(2,3) client_receives(1) show ?thesis by (simp add: system_weight_def)
  qed
qed

lemma works_client_sends:
  assumes "exchange_ok malloc readcb T Q locs e ki" "working_inv Q T locs e ki s"
    and client_sends: "s' = s\<lparr>y_client := kn\<rparr>"
      "kn_evwrite (y_client s)" "EV_WRITE \<in> events"
      "kcn_net_write_cb events ((y_client s)\<lparr>kn_evwrite := False\<rparr>) = Some kn"
  shows "working_inv Q T locs e ki s' \<and> system_weight (answer locs e) s' < system_weight (answer locs e) s"
proof -
  obtain rest where "client_part locs e ki rest (y_client s) (y_kcr s)" using assms(2) unfolding working_inv_def by blast
  from client_part_writes [OF this client_sends(2,3)] client_sends(4) have
    k: "net_out kn = net_out (y_client s)" "net_in kn = net_in (y_client s)" "net_weight kn < net_weight (y_client s)" by auto
  have "working_inv Q T locs e ki (s\<lparr>y_client := kn, y_kcr := y_kcr s, y_requests := y_requests s @ []\<rparr>)"
  proof (rule working_client [OF assms(2)])
    show "client_part locs e ki rest kn (y_kcr s)" if "client_part locs e ki rest (y_client s) (y_kcr s)" for rest
      using client_part_writes [OF that client_sends(2,3)] client_sends(4) by auto
  qed (use k client_done_writes [OF _ client_sends(2-4)] in simp_all)
  with client_sends(1) k show ?thesis by (simp add: system_weight_def)
qed

lemma works_request_goes:
  assumes "exchange_ok malloc readcb T Q locs e ki" "working_inv Q T locs e ki s"
    and request_goes: "s' = s\<lparr>y_client := (y_client s)\<lparr>kn_fd := Some (sk\<lparr>sk_tx := rest\<rparr>)\<rparr>, y_requests := y_requests s @ bs\<rparr>"
      "kn_fd (y_client s) = Some sk" "sk_tx sk = bs @ rest" "bs \<noteq> []"
  shows "working_inv Q T locs e ki s' \<and> system_weight (answer locs e) s' < system_weight (answer locs e) s"
proof -
  let ?kn = "(y_client s)\<lparr>kn_fd := Some (sk\<lparr>sk_tx := rest\<rparr>)\<rparr>"
  obtain r where "client_part locs e ki r (y_client s) (y_kcr s)" using assms(2) unfolding working_inv_def by blast
  from client_part_fd [OF this] request_goes(2) have "works (y_client s)" by simp
  note g = works_goes [OF this request_goes(2,3)]
  have "working_inv Q T locs e ki (s\<lparr>y_client := ?kn, y_kcr := y_kcr s, y_requests := y_requests s @ bs\<rparr>)"
    by (rule working_client [OF assms(2)])
      (use g client_part_goes [OF _ request_goes(2,3)] client_done_goes [OF _ request_goes(2,3)] in simp_all)
  with request_goes(1,4) g(2,4) show ?thesis by (simp add: system_weight_def)
qed

lemma works_answer_comes:
  assumes "exchange_ok malloc readcb T Q locs e ki" "working_inv Q T locs e ki s"
    and answer_comes: "s' = s\<lparr>y_client := (y_client s)\<lparr>kn_fd := Some (sk\<lparr>sk_rx := sk_rx sk @ bs\<rparr>)\<rparr>, y_answers := rest\<rparr>"
      "kn_fd (y_client s) = Some sk" "y_answers s = bs @ rest" "bs \<noteq> []"
  shows "working_inv Q T locs e ki s' \<and> system_weight (answer locs e) s' < system_weight (answer locs e) s"
proof -
  let ?kn = "(y_client s)\<lparr>kn_fd := Some (sk\<lparr>sk_rx := sk_rx sk @ bs\<rparr>)\<rparr>"
  from assms(2) show ?thesis
  proof (cases rule: working_invE)
    case (asked r)
    with answer_comes(3,4) show ?thesis by simp
  next
    case (answered r)
    from client_part_fd [OF answered(1)] answer_comes(2) have "works (y_client s)" by simp
    note g = works_comes [OF this answer_comes(2), of bs]
    have "working_inv Q T locs e ki s'"
    proof (cases "client_done locs e ki (y_client s) (y_kcr s)")
      case True
      from client_done_comes [OF this answer_comes(2)] answered answer_comes(1) g show ?thesis
        by (intro workingI_answered [of _ _ _ r]) (simp_all add: client_part_def)
    next
      case False
      with answered(1,6) answer_comes(3) have "client_part locs e ki (bs @ (rest @ net_out (y_daemon s))) (y_client s) (y_kcr s)" by simp
      from client_part_comes [OF this answer_comes(2) answered(5)] answered answer_comes(1) g show ?thesis
        by (intro workingI_answered [of _ _ _ "rest @ net_out (y_daemon s)"]) simp_all
    qed
    with answer_comes(1,3,4) g show ?thesis by (simp add: system_weight_def)
  qed
qed

lemma works_daemon_receives:
  assumes "exchange_ok malloc readcb T Q locs e ki" "working_inv Q T locs e ki s"
    and daemon_receives: "s' = s\<lparr>y_daemon := kn, y_tables := t\<rparr>"
      "kn_evread (y_daemon s)" "kn_fd (y_daemon s) = Some sk" "sk_rx sk \<noteq> []" "EV_READ \<in> events"
      "kcn_net_read_cb readcb events ((y_daemon s)\<lparr>kn_evread := False\<rparr>) (y_tables s) = Some (kn, t)"
  shows "working_inv Q T locs e ki s' \<and> system_weight (answer locs e) s' < system_weight (answer locs e) s"
proof -
  from assms(1) have x: "serves_query readcb T Q (answer locs e)" "length Q \<le> 4096" "locs_ok malloc locs"
    "info_room ki (length locs)" "e < 256" "e \<noteq> EAGAIN" "info_ok ki" by (simp_all add: exchange_ok_def)
  from assms(2) show ?thesis
  proof (cases rule: working_invE)
    case (asked rest)
    have "prefix (net_in (y_daemon s)) Q" unfolding asked(8) [symmetric] by simp
    from daemon_part_reads [OF asked(2) daemon_receives(2-5) this x(1,2)] daemon_receives(6) asked(6) have
      k: "daemon_part Q kn" and c: "t = T \<and> net_in kn = net_in (y_daemon s) \<and> net_out kn = net_out (y_daemon s) \<and> net_weight kn < net_weight (y_daemon s) \<or>
        net_in (y_daemon s) = Q \<and> net_in kn = [] \<and> net_out kn = net_out (y_daemon s) @ answer locs e \<and>
        net_weight kn \<le> net_weight (y_daemon s) + 3 * length (answer locs e) + 1" by auto
    from c show ?thesis
    proof (elim disjE conjE)
      assume c: "t = T" "net_in kn = net_in (y_daemon s)" "net_out kn = net_out (y_daemon s)" "net_weight kn < net_weight (y_daemon s)"
      with asked k daemon_receives(1) have "working_inv Q T locs e ki s'" by (intro workingI_asked) simp_all
      with c daemon_receives(1) show ?thesis by (simp add: system_weight_def)
    next
      assume c: "net_in (y_daemon s) = Q" "net_in kn = []" "net_out kn = net_out (y_daemon s) @ answer locs e"
        "net_weight kn \<le> net_weight (y_daemon s) + 3 * length (answer locs e) + 1"
      with asked(8) have r: "y_requests s = []" "net_out (y_client s) = []" by simp_all
      have "Q \<noteq> []" using asked(2) by (auto simp: daemon_part_def strict_prefix_def)
      then have "3 * length (answer locs e) + 2 \<le> (3 * length (answer locs e) + 2) * length Q" by (cases Q) simp_all
      moreover from asked c k daemon_receives(1) r have "working_inv Q T locs e ki s'"
        by (intro workingI_answered [of _ _ _ rest]) simp_all
      ultimately show ?thesis using c r daemon_receives(1) by (simp add: system_weight_def)
    qed
  next
    case (answered rest)
    with daemon_receives(3,4) fd_in show ?thesis by blast
  qed
qed

lemma works_daemon_sends:
  assumes "exchange_ok malloc readcb T Q locs e ki" "working_inv Q T locs e ki s"
    and daemon_sends: "s' = s\<lparr>y_daemon := kn\<rparr>"
      "kn_evwrite (y_daemon s)" "EV_WRITE \<in> events"
      "kcn_net_write_cb events ((y_daemon s)\<lparr>kn_evwrite := False\<rparr>) = Some kn"
  shows "working_inv Q T locs e ki s' \<and> system_weight (answer locs e) s' < system_weight (answer locs e) s"
proof -
  have "daemon_part Q (y_daemon s)" using assms(2) unfolding working_inv_def by blast
  from daemon_part_writes [OF this daemon_sends(2,3)] daemon_sends(4) have
    k: "daemon_part Q kn" "net_out kn = net_out (y_daemon s)" "net_in kn = net_in (y_daemon s)" "net_weight kn < net_weight (y_daemon s)" by auto
  from assms(2) have "working_inv Q T locs e ki s'"
  proof (cases rule: working_invE)
    case (asked rest)
    with k daemon_sends(1) show ?thesis by (intro workingI_asked) simp_all
  next
    case (answered rest)
    with k daemon_sends(1) show ?thesis by (intro workingI_answered [of _ _ _ rest]) simp_all
  qed
  with daemon_sends(1) k show ?thesis by (simp add: system_weight_def)
qed

lemma works_answer_goes:
  assumes "exchange_ok malloc readcb T Q locs e ki" "working_inv Q T locs e ki s"
    and answer_goes: "s' = s\<lparr>y_daemon := (y_daemon s)\<lparr>kn_fd := Some (sk\<lparr>sk_tx := rest\<rparr>)\<rparr>, y_answers := y_answers s @ bs\<rparr>"
      "kn_fd (y_daemon s) = Some sk" "sk_tx sk = bs @ rest" "bs \<noteq> []"
  shows "working_inv Q T locs e ki s' \<and> system_weight (answer locs e) s' < system_weight (answer locs e) s"
proof -
  let ?kn = "(y_daemon s)\<lparr>kn_fd := Some (sk\<lparr>sk_tx := rest\<rparr>)\<rparr>"
  have d: "daemon_part Q (y_daemon s)" using assms(2) unfolding working_inv_def by blast
  then have "works (y_daemon s)" by (simp add: daemon_part_def)
  note g = works_goes [OF this answer_goes(2,3)]
  from assms(2) have "working_inv Q T locs e ki s'"
  proof (cases rule: working_invE)
    case (asked r)
    with g(2) answer_goes(4) show ?thesis by simp
  next
    case (answered r)
    with g daemon_part_goes [OF d answer_goes(2,3)] answer_goes(1) show ?thesis by (intro workingI_answered [of _ _ _ r]) simp_all
  qed
  with answer_goes(1,4) g(2-4) show ?thesis by (simp add: system_weight_def)
qed

lemma works_request_comes:
  assumes "exchange_ok malloc readcb T Q locs e ki" "working_inv Q T locs e ki s"
    and request_comes: "s' = s\<lparr>y_daemon := (y_daemon s)\<lparr>kn_fd := Some (sk\<lparr>sk_rx := sk_rx sk @ bs\<rparr>)\<rparr>, y_requests := rest\<rparr>"
      "kn_fd (y_daemon s) = Some sk" "y_requests s = bs @ rest" "bs \<noteq> []"
  shows "working_inv Q T locs e ki s' \<and> system_weight (answer locs e) s' < system_weight (answer locs e) s"
proof -
  let ?kn = "(y_daemon s)\<lparr>kn_fd := Some (sk\<lparr>sk_rx := sk_rx sk @ bs\<rparr>)\<rparr>"
  have d: "daemon_part Q (y_daemon s)" using assms(2) unfolding working_inv_def by blast
  then have "works (y_daemon s)" by (simp add: daemon_part_def)
  note g = works_comes [OF this request_comes(2), of bs]
  from assms(2) have "working_inv Q T locs e ki s'"
  proof (cases rule: working_invE)
    case (asked r)
    with g daemon_part_comes [OF d request_comes(2)] request_comes(1,3) show ?thesis by (intro workingI_asked) simp_all
  next
    case (answered r)
    with request_comes(3,4) show ?thesis by simp
  qed
  with request_comes(1,3,4) g(2-4) show ?thesis by (simp add: system_weight_def)
qed

lemma working_step_ok:
  assumes "working_step malloc errno readcb s s'" "exchange_ok malloc readcb T Q locs e ki" "working_inv Q T locs e ki s"
  shows "working_inv Q T locs e ki s' \<and> system_weight (answer locs e) s' < system_weight (answer locs e) s"
  using assms(1)
proof (cases rule: working_step.cases)
  case (client_receives sk events kn kcr)
  then show ?thesis by (rule works_client_receives [OF assms(2,3)])
next
  case (client_sends events kn)
  then show ?thesis by (rule works_client_sends [OF assms(2,3)])
next
  case (request_goes sk bs rest)
  then show ?thesis by (rule works_request_goes [OF assms(2,3)])
next
  case (answer_comes sk bs rest)
  then show ?thesis by (rule works_answer_comes [OF assms(2,3)])
next
  case (daemon_receives sk events kn t)
  then show ?thesis by (rule works_daemon_receives [OF assms(2,3)])
next
  case (daemon_sends events kn)
  then show ?thesis by (rule works_daemon_sends [OF assms(2,3)])
next
  case (answer_goes sk bs rest)
  then show ?thesis by (rule works_answer_goes [OF assms(2,3)])
next
  case (request_comes sk bs rest)
  then show ?thesis by (rule works_request_comes [OF assms(2,3)])
qed

text \<open>When no step is possible, nothing is on its way, and the client has everything.\<close>

lemma stuck_flow:
  assumes "working_inv Q T locs e ki s" "\<nexists>s'. working_step malloc errno readcb s s'"
  shows "\<not> kn_evwrite (y_client s)" "\<not> kn_evwrite (y_daemon s)" "net_out (y_daemon s) = []" "y_requests s = []"
    "kn_fd (y_client s) \<noteq> None \<Longrightarrow> net_out (y_client s) = [] \<and> y_answers s = []"
proof -
  from assms(1) obtain rest where p: "client_part locs e ki rest (y_client s) (y_kcr s)" "daemon_part Q (y_daemon s)"
    unfolding working_inv_def by blast
  have no: "\<not> working_step malloc errno readcb s s'" for s' using assms(2) by blast
  have ev: "EV_WRITE \<in> {EV_WRITE}" by simp
  show c: "\<not> kn_evwrite (y_client s)" using client_part_writes [OF p(1) _ ev] client_sends [OF _ ev] no by metis
  show d: "\<not> kn_evwrite (y_daemon s)" using daemon_part_writes [OF p(2) _ ev] daemon_sends [OF _ ev] no by metis
  obtain sk where sk: "kn_fd (y_daemon s) = Some sk" using p(2) by (auto simp: daemon_part_def works_def)
  have "sk_tx sk = []" using answer_goes [OF sk, of "sk_tx sk" "[]"] no by auto
  then show "net_out (y_daemon s) = []" using p(2) d sk by (auto simp: net_out_def daemon_part_def works_def)
  show "y_requests s = []" using request_comes [OF sk, of "y_requests s" "[]"] no by auto
  assume "kn_fd (y_client s) \<noteq> None"
  then obtain sk' where sk': "kn_fd (y_client s) = Some sk'" by blast
  have "sk_tx sk' = []" using request_goes [OF sk', of "sk_tx sk'" "[]"] no by auto
  moreover have "y_answers s = []" using answer_comes [OF sk', of "y_answers s" "[]"] no by auto
  moreover have "obytes (y_client s) = []" using client_part_fd [OF p(1)] sk' c by (auto simp: works_def)
  ultimately show "net_out (y_client s) = [] \<and> y_answers s = []" using sk' by (simp add: net_out_def)
qed

lemma working_stuck:
  assumes "exchange_ok malloc readcb T Q locs e ki" "working_inv Q T locs e ki s" "\<nexists>s'. working_step malloc errno readcb s s'"
  shows "exchange_done locs e ki s"
proof -
  from assms(1) have x: "serves_query readcb T Q (answer locs e)" "length Q \<le> 4096" "locs_ok malloc locs"
    "info_room ki (length locs)" "e < 256" "e \<noteq> EAGAIN" "info_ok ki" by (simp_all add: exchange_ok_def)
  note f = stuck_flow [OF assms(2,3)]
  have no: "\<not> working_step malloc errno readcb s s'" for s' using assms(3) by blast
  have ev: "EV_READ \<in> {EV_READ}" by simp
  have "client_done locs e ki (y_client s) (y_kcr s)"
  proof (rule ccontr)
    assume nd: "\<not> client_done locs e ki (y_client s) (y_kcr s)"
    obtain rest where c: "client_part locs e ki rest (y_client s) (y_kcr s)" using assms(2) unfolding working_inv_def by blast
    have w: "client_waits locs e ki rest (y_client s) (y_kcr s)" if "client_part locs e ki rest (y_client s) (y_kcr s)" for rest
      using that nd f(1) by (auto simp: client_part_def client_asks_def)
    from w [OF c] obtain sk where sk: "kn_fd (y_client s) = Some sk" "kn_evread (y_client s)" by (auto simp: client_waits_def waiting_def)
    from f(5) sk(1) have o: "net_out (y_client s) = []" "y_answers s = []" by simp_all
    from assms(2) show False
    proof (cases rule: working_invE)
      case (asked r)
      with f(4) o(1) have q: "net_in (y_daemon s) = Q" by simp
      obtain dk where dk: "kn_fd (y_daemon s) = Some dk" using asked(2) by (auto simp: daemon_part_def works_def)
      have "kn_evread (y_daemon s)" using asked(2) f(2) by (auto simp: daemon_part_def waiting_def)
      moreover have "sk_rx dk \<noteq> []" using asked(2) q dk by (auto simp: daemon_part_def net_in_def strict_prefix_def)
      moreover have "prefix (net_in (y_daemon s)) Q" using q by simp
      ultimately show False
        using daemon_part_reads [OF asked(2) _ dk _ ev _ x(1,2)] daemon_receives [OF _ dk _ ev] no asked(6) by metis
    next
      case (answered r)
      with nd f(3) o(2) have "r = []" by simp
      with w [OF answered(1)] sk(1) have "sk_rx sk \<noteq> []" by (auto simp: client_waits_def)
      with client_part_reads [OF answered(1) sk(2,1) this ev o(1) x(3-7), of errno] client_receives [OF sk(2,1) this ev] no
      show False by metis
    qed
  qed
  with f(1) show ?thesis by (simp add: client_done_def exchange_done_def)
qed

interpretation exchange: progress "working_step malloc errno readcb"
  "\<lambda>s. exchange_ok malloc readcb T Q locs e ki \<and> working_inv Q T locs e ki s" "system_weight (answer locs e)" "exchange_done locs e ki"
  for malloc errno readcb T Q locs e ki
proof
  fix s s' assume "exchange_ok malloc readcb T Q locs e ki \<and> working_inv Q T locs e ki s" "working_step malloc errno readcb s s'"
  then have "exchange_ok malloc readcb T Q locs e ki" "working_inv Q T locs e ki s'"
    "system_weight (answer locs e) s' < system_weight (answer locs e) s"
    using working_step_ok [of malloc errno readcb s s' T Q locs e ki] by simp_all
  then show "exchange_ok malloc readcb T Q locs e ki \<and> working_inv Q T locs e ki s'"
    "system_weight (answer locs e) s' < system_weight (answer locs e) s" by simp_all
next
  fix s assume "exchange_ok malloc readcb T Q locs e ki \<and> working_inv Q T locs e ki s" "\<nexists>s'. working_step malloc errno readcb s s'"
  then show "exchange_done locs e ki s" using working_stuck [of malloc readcb T Q locs e ki s errno] by simp
qed

lemma working_start:
  assumes "fresh ckn Q" "fresh dkn []" "Q \<noteq> []" "kn_fd ckn = Some csk" "steady csk" "kn_fd dkn = Some dsk" "steady dsk"
  shows "working_inv Q T locs e ki (system_start ckn ki dkn T)"
proof -
  from assms(1,3-5) have "client_asks locs e ki (answer locs e) ckn \<lparr>kcr_error = 0, kcr_ki = ki\<rparr>" "net_out ckn = Q" "net_in ckn = []"
    by (auto simp: fresh_def client_asks_def works_def net_in_def net_out_def)
  moreover from assms(2,3,6,7) have "daemon_part Q dkn" "net_out dkn = []" "net_in dkn = []"
    by (auto simp: fresh_def daemon_part_def works_def net_in_def net_out_def strict_prefix_def)
  ultimately show ?thesis by (intro workingI_asked) (simp_all add: system_start_def client_part_def)
qed

section \<open>Property\<close>

lemma session_fd:
  assumes "kcn_net_new kn_new malloc base_set [] sk 4096 name = Some (Some kn)" "alloc_ok malloc" "kcn_net_read_enable kn = Some (r, kn')"
  shows "kn_fd kn' = Some sk"
proof -
  from net_new_ok [OF assms(2,1)] have "kn_fd kn = Some sk" "kn_state kn = KCN_NET_STATE_INIT" by simp_all
  with assms(3) show ?thesis by (auto simp: kcn_net_read_enable_def)
qed

text \<open>
  C3. While the sockets work, an exchange of a query and its answer comes to its end, whatever the order of the events, the
  portions in which bytes move, and the partial, interrupted and refused calls on the way: the number of steps is bounded,
  and a run goes on until the client's loop has ended with all selected locators and the server's error, \<open>ESRCH\<close> if there
  are none.
\<close>

theorem query_completes:
  fixes q :: kcn_msg_query and errno and now
  defines "i \<equiv> TYPE2INDEX (ke_type (kmq_eq q))"
  assumes "alloc_total cmalloc" "alloc_total smalloc"
    and "kmq_loctype q \<le> 1" "ke_type (kmq_eq q) < 256" "1 \<le> ke_op (kmq_eq q)" "ke_op (kmq_eq q) \<le> 5"
    and "i < length bases" "i < length kd" "table_ok (bases ! i) (kd ! i) D L" "lock_free (kdb_lock (bases ! i))"
    and "\<forall>loc \<in> set (selected q D L). loc \<noteq> [] \<and> length loc \<le> 4090"
    and "info_ok ki" "kcn_info_nlocs ki = 0" "unat (kmq_maxcount q) \<le> kcn_info_maxnlocs ki"
    and "kcn_net_new True cmalloc True [] csk 4096 cname = Some (Some ckn0)" "sk_rx csk = []" "sk_tx csk = []" "steady csk"
    and "kcn_client_query_send cmalloc ckn0 q = Some (r, ckn)"
    and "kcn_net_new True smalloc True [] dsk 4096 dname = Some (Some dkn0)" "sk_rx dsk = []" "sk_tx dsk = []" "steady dsk"
    and "kcn_net_read_enable dkn0 = Some (r', dkn)"
  defines "step \<equiv> working_step cmalloc errno (kcndb_server_recv smalloc now)"
  shows "\<exists>N. \<forall>n s. (step ^^ n) (system_start ckn ki dkn (bases, kd)) s \<longrightarrow> n \<le> N \<and>
    ((\<exists>s'. step s s') \<or> \<not> kn_evread (y_client s) \<and> \<not> kn_evwrite (y_client s) \<and>
       kcr_error (y_kcr s) = selected_errno q D \<and> info_locs (kcr_ki (y_kcr s)) = selected q D L)"
proof -
  let ?locs = "map (Pair 0) (selected q D L)" and ?s0 = "system_start ckn ki dkn (bases, kd)"
  from query_fresh [OF assms(2,16-18), of q] assms(20) have c: "fresh ckn (query_msg q)" "kn_fd ckn = Some csk" by auto
  have m: "alloc_ok smalloc" by (rule alloc_total_ok [OF assms(3)])
  note d = session_fresh [OF m assms(21-23,25)] session_fd [OF assms(21) m assms(25)]
  note x = exchange_ready [OF assms(2-7) assms(8-11)[unfolded i_def] assms(12-15), of now]
  have ne: "query_msg q \<noteq> []" by (simp add: query_msg_def header_bytes_def)
  have inv: "exchange_ok cmalloc (kcndb_server_recv smalloc now) (bases, kd) (query_msg q) ?locs (selected_errno q D) ki \<and>
      working_inv (query_msg q) (bases, kd) ?locs (selected_errno q D) ki ?s0"
    by (rule conjI [OF x working_start [OF c(1) d(1) ne c(2) assms(19) d(2) assms(24)]])
  have il: "info_locs ki = []" using assms(14) by (simp add: kcn_info_nlocs_def info_locs_def)
  have "n \<le> system_weight (answer ?locs (selected_errno q D)) ?s0 \<and> ((\<exists>s'. step s s') \<or> \<not> kn_evread (y_client s) \<and>
      \<not> kn_evwrite (y_client s) \<and> kcr_error (y_kcr s) = selected_errno q D \<and> info_locs (kcr_ki (y_kcr s)) = selected q D L)"
    if "(step ^^ n) ?s0 s" for n s
    using exchange.run_completes [OF inv that [unfolded step_def]] il unfolding step_def exchange_done_def by (auto simp: comp_def)
  then show ?thesis by blast
qed

text \<open>The sockets refuse the first call, are interrupted, and transfer single bytes; the sample is found.\<close>

theorem query_completes_witness:
  "\<exists>ckn dkn n s. (working_step zero_malloc 0 (kcndb_server_recv zero_malloc (Inr 0)) ^^ n)
       (system_start ckn client_ki dkn (sample_bases, sample_db)) s \<and>
     \<not> kn_evread (y_client s) \<and> \<not> kn_evwrite (y_client s) \<and> kcr_error (y_kcr s) = 0 \<and> info_locs (kcr_ki (y_kcr s)) = [[97]]"
proof -
  let ?sk = "\<lparr>sk_rx = [], sk_eof = False, sk_tx = [], sk_sys = [SockFail EAGAIN, SockFail EINTR, SockPart 0]\<rparr>"
  let ?step = "working_step zero_malloc 0 (kcndb_server_recv zero_malloc (Inr 0))"
  have sk: "sk_rx ?sk = []" "sk_tx ?sk = []" "steady ?sk" by (simp_all add: steady_def)
  obtain ckn0 r ckn dkn0 r' dkn where e:
    "kcn_net_new True zero_malloc True [] ?sk 4096 [] = Some (Some ckn0)" "kcn_client_query_send zero_malloc ckn0 sample_query = Some (r, ckn)"
    "kcn_net_new True zero_malloc True [] ?sk 4096 [] = Some (Some dkn0)" "kcn_net_read_enable dkn0 = Some (r', dkn)"
    by (rule sample_ends_on [OF sk(1,2)])
  let ?s0 = "system_start ckn client_ki dkn (sample_bases, sample_db)"
  from query_completes [where q = sample_query, OF alloc_total_zero alloc_total_zero sample_valid sample_tables sample_fits e(1) sk e(2,3) sk e(4),
      where errno = 0 and now = "Inr 0"] obtain N where
    N: "\<forall>n s. (?step ^^ n) ?s0 s \<longrightarrow> n \<le> N \<and> ((\<exists>s'. ?step s s') \<or> \<not> kn_evread (y_client s) \<and> \<not> kn_evwrite (y_client s) \<and>
      kcr_error (y_kcr s) = 0 \<and> info_locs (kcr_ki (y_kcr s)) = [[97]])" unfolding sample_selected by blast
  from longest_run [of ?step ?s0 N] N obtain n s where "(?step ^^ n) ?s0 s" "\<nexists>s'. ?step s s'" by blast
  with N show ?thesis by blast
qed

end
