(* ===== verification/Kcn_Import_Live.thy ===== *)
theory Kcn_Import_Live
  imports Kcn_Import Kcn_Live
begin

text \<open>
  An import comes to its end: while the sockets work, every run of the import and both ends of the connection is finite, and
  one that cannot go on has stored all lines of the file.
\<close>

section \<open>Steps while the sockets work\<close>

text \<open>The file has bytes or is at its end, which its event sees; the link takes one of its steps.\<close>

inductive working_import :: "allocator \<Rightarrow> errno \<Rightarrow> 't net_readcb \<Rightarrow> 't import_system \<Rightarrow> 't import_system \<Rightarrow> bool"
  for malloc :: allocator and errno :: errno and readcb :: "'t net_readcb" where
  file_works: "p_pending p \<Longrightarrow> file_event malloc True p = Some (Inr p') \<Longrightarrow> working_import malloc errno readcb p p'"
| link_works: "working_step malloc errno readcb (p_sys p) s \<Longrightarrow> working_import malloc errno readcb p (p\<lparr>p_sys := s\<rparr>)"

lemma working_import_step: "working_import malloc errno readcb p p' \<Longrightarrow> import_step malloc errno readcb p p'"
  by (induction rule: working_import.induct) (auto intro: import_step.intros working_system_step)

lemma working_import_run: "(working_import malloc errno readcb ^^ n) p0 p \<Longrightarrow> import_run malloc errno readcb p0 p"
proof (induction n arbitrary: p)
  case (Suc n)
  then obtain p1 where "(working_import malloc errno readcb ^^ n) p0 p1" "working_import malloc errno readcb p1 p" by auto
  with Suc.IH working_import_step show ?case by (blast intro: import_run.step)
qed (simp add: import_run.start)

section \<open>What a working import keeps\<close>

text \<open>
  The client sends what is left of the file; the daemon has stored \<open>k\<close> lines, and what is in its buffer, in the sockets and
  on the way are the messages of the others.
\<close>

definition sender_part :: "c_enum \<Rightarrow> entry list \<Rightarrow> ofd \<Rightarrow> bool \<Rightarrow> kcn_file \<Rightarrow> kcn_net \<Rightarrow> bool" where
  "sender_part type es fd pending kf kn \<longleftrightarrow> sends_file type es fd pending kf kn \<and> works kn"

definition store_part :: "c_enum \<Rightarrow> entry list \<Rightarrow> nat \<Rightarrow> nat \<Rightarrow> byte list \<Rightarrow> kcn_net \<Rightarrow> bool" where
  "store_part type es n k way kn \<longleftrightarrow> works kn \<and> (kn_state kn = KCN_NET_STATE_PENDING \<and> kn_evwrite kn \<or> waiting kn) \<and>
     net_out kn = [] \<and> net_in kn @ way @ entry_msgs type (drop n es) = entry_msgs type (drop k es) \<and> holds_part type es k kn"

definition import_working :: "c_enum \<Rightarrow> entry list \<Rightarrow> byte list \<Rightarrow> byte list \<Rightarrow> byte list \<Rightarrow> byte list \<Rightarrow>
    (kcndb_db_base list \<times> kcndb_db_table list) import_system \<Rightarrow> bool" where
  "import_working type es D L D' L' p \<longleftrightarrow> (let s = p_sys p in
     y_answers s = [] \<and> sender_part type es (p_fd p) (p_pending p) (p_kf p) (y_client s) \<and>
     (\<exists>k. stored type es D L D' L' k (y_tables s) \<and>
        store_part type es (kcf_line (p_kf p)) k (y_requests s @ net_out (y_client s)) (y_daemon s)))"

lemma import_workingE:
  assumes "import_working type es D L D' L' p"
  obtains k where "y_answers (p_sys p) = []" "sender_part type es (p_fd p) (p_pending p) (p_kf p) (y_client (p_sys p))"
    "stored type es D L D' L' k (y_tables (p_sys p))"
    "store_part type es (kcf_line (p_kf p)) k (y_requests (p_sys p) @ net_out (y_client (p_sys p))) (y_daemon (p_sys p))"
  using assms unfolding import_working_def Let_def by blast

lemma import_workingI:
  assumes "y_answers (p_sys p) = []" "sender_part type es (p_fd p) (p_pending p) (p_kf p) (y_client (p_sys p))"
    "stored type es D L D' L' k (y_tables (p_sys p))"
    "store_part type es (kcf_line (p_kf p)) k (y_requests (p_sys p) @ net_out (y_client (p_sys p))) (y_daemon (p_sys p))"
  shows "import_working type es D L D' L' p"
  using assms unfolding import_working_def Let_def by blast

text \<open>The work that is left: bytes of the file, messages to be queued, and what the link has to do.\<close>

definition import_weight :: "c_enum \<Rightarrow> entry list \<Rightarrow> 't import_system \<Rightarrow> nat" where
  "import_weight type es p = (let s = p_sys p in
     2 * (length (fd_avail (p_fd p)) + of_bool (p_pending p)) + 3 * length (entry_msgs type (drop (kcf_line (p_kf p)) es)) +
     2 * length (y_requests s) + net_weight (y_client s) + net_weight (y_daemon s))"

section \<open>The sender's steps\<close>

lemma sender_part_reads:
  assumes "sender_part type es fd True kf kn" "alloc_total malloc"
  shows "\<exists>again fd' kf'. readfile malloc 0 True fd (kf\<lparr>kcf_kn := kn\<rparr>) = Some (Inr (again, fd', kf')) \<and>
    sender_part type es fd' again kf' (kcf_kn kf') \<and>
    net_out (kcf_kn kf') @ entry_msgs type (drop (kcf_line kf') es) = net_out kn @ entry_msgs type (drop (kcf_line kf) es) \<and>
    2 * (length (fd_avail fd') + of_bool again) + 3 * length (entry_msgs type (drop (kcf_line kf') es)) + net_weight (kcf_kn kf')
      < 2 * (length (fd_avail fd) + 1) + 3 * length (entry_msgs type (drop (kcf_line kf) es)) + net_weight kn"
proof -
  from assms(1) have w: "works kn" "sends_file type es fd True kf kn" by (simp_all add: sender_part_def)
  with works_open have o: "net_inv 4096 kn" "fd_calm fd" "\<not> kn_evread kn" "kn_state kn \<noteq> KCN_NET_STATE_PENDING"
    "importing (drop (kcf_line kf) es) fd (kf\<lparr>kcf_kn := kn\<rparr>)" "kcf_type kf = type" "kcf_line kf \<le> length es"
    "kn_obufq kn \<noteq> [] \<longrightarrow> kn_evwrite kn" unfolding sends_file_def by blast+
  from sends_file_event [OF o(5) _ o(7,2) assms(2), of type True] o(1,3,4,6,8) obtain again fd' kf' where
    r: "readfile malloc 0 True fd (kf\<lparr>kcf_kn := kn\<rparr>) = Some (Inr (again, fd', kf'))" "sends_file type es fd' again kf' (kcf_kn kf')"
      "\<not> closed (kcf_kn kf')"
      "net_out (kcf_kn kf') @ entry_msgs type (drop (kcf_line kf') es) = net_out kn @ entry_msgs type (drop (kcf_line kf) es)"
      "same_link kn (kcf_kn kf')" "length (fd_avail fd') \<le> length (fd_avail fd)" "again \<longrightarrow> length (fd_avail fd') < length (fd_avail fd)"
    by auto
  from r(2,3) have c: "net_inv 4096 (kcf_kn kf')" "kn_everrs (kcf_kn kf') = []" "kn_obufq (kcf_kn kf') \<noteq> [] \<longrightarrow> kn_evwrite (kcf_kn kf')"
    by (auto simp: sends_file_def importing_def can_send_def)
  with w(1) r(5) have "works (kcf_kn kf')" by (auto simp: works_def same_link_def obytes_def)
  with r(2) have "sender_part type es fd' again kf' (kcf_kn kf')" by (simp add: sender_part_def)
  moreover have "3 * length (net_out (kcf_kn kf')) + 3 * length (entry_msgs type (drop (kcf_line kf') es)) =
      3 * length (net_out kn) + 3 * length (entry_msgs type (drop (kcf_line kf) es))"
    using arg_cong [OF r(4), of length] by simp
  then have "3 * length (entry_msgs type (drop (kcf_line kf') es)) + net_weight (kcf_kn kf')
      \<le> 3 * length (entry_msgs type (drop (kcf_line kf) es)) + net_weight kn + 1"
    using r(5) by (simp add: net_weight_def same_link_def)
  moreover have "2 * (length (fd_avail fd') + of_bool again) + 1 < 2 * (length (fd_avail fd) + 1)" using r(6,7) by (cases again) simp_all
  ultimately show ?thesis using r(1,4) by (intro exI [of _ again] exI [of _ fd'] exI [of _ kf']) simp
qed

lemma sender_part_writes:
  assumes "sender_part type es fd pending kf kn" "kn_evwrite kn" "EV_WRITE \<in> events"
  shows "\<exists>kn'. kcn_net_write_cb events (kn\<lparr>kn_evwrite := False\<rparr>) = Some kn' \<and> sender_part type es fd pending kf kn' \<and>
    net_out kn' = net_out kn \<and> net_weight kn' < net_weight kn"
proof -
  from assms(1) have w: "works kn" "sends_file type es fd pending kf kn" by (simp_all add: sender_part_def)
  from works_write [OF w(1) assms(2,3)] obtain kn' where
    "kcn_net_write_cb events (kn\<lparr>kn_evwrite := False\<rparr>) = Some kn'" "works kn'" "net_out kn' = net_out kn" "net_weight kn' < net_weight kn" by blast
  with sends_file_writes [OF w(2) assms(2), of events] assms(3) show ?thesis by (auto simp: sender_part_def)
qed

lemma sender_part_goes:
  assumes "sender_part type es fd pending kf kn" "kn_fd kn = Some sk" "sk_tx sk = bs @ tx"
  shows "sender_part type es fd pending kf (kn\<lparr>kn_fd := Some (sk\<lparr>sk_tx := tx\<rparr>)\<rparr>)"
  using assms works_goes(1) [OF _ assms(2,3)] sends_file_fd(1) [OF _ assms(2)] by (simp add: sender_part_def)

section \<open>The daemon's steps\<close>

lemma store_part_reads:
  assumes "store_part type es n k way kn" "kn_evread kn" "kn_fd kn = Some sk" "sk_rx sk \<noteq> []" "EV_READ \<in> events"
    and "stored type es D L D' L' k T" "list_all entry_ok es" "type < 256"
  shows "\<exists>kn' T' j. kcn_net_read_cb (kcndb_server_recv malloc now) events (kn\<lparr>kn_evread := False\<rparr>) T = Some (kn', T') \<and>
    stored type es D L D' L' j T' \<and> store_part type es n j way kn' \<and> net_weight kn' < net_weight kn"
proof -
  from assms(1) have d: "works kn" "net_out kn = []" "holds_part type es k kn"
    "net_in kn @ way @ entry_msgs type (drop n es) = entry_msgs type (drop k es)" by (simp_all add: store_part_def)
  have w: "waiting kn" "steady sk" using d(1) assms(2,3) by (auto simp: works_def waiting_def)
  have ev: "EV_READ \<in> events \<or> EV_TIMEOUT \<in> events" using assms(5) by simp
  from import_daemon_reads [OF w(1) assms(6-8) d(4) ev, of malloc now] assms(3-5) w(2) d(3) obtain kn' T' j where
    r: "kcn_net_read_cb (kcndb_server_recv malloc now) events (kn\<lparr>kn_evread := False\<rparr>) T = Some (kn', T')" "net_inv 4096 kn'"
      "stored type es D L D' L' j T'"
      "closed kn' \<or> waiting kn' \<and> net_out kn' = net_out kn \<and> net_in kn' @ way @ entry_msgs type (drop n es) = entry_msgs type (drop j es)"
      "closed kn' \<or> holds_part type es j kn'" "takes_bytes kn sk kn'" by blast
  from r(6) obtain sk' where a: "waiting kn'" "kn_evwrite kn' = kn_evwrite kn" "kn_fd kn' = Some sk'" "moved sk sk'"
    unfolding takes_bytes_def by blast
  have nc: "\<not> closed kn'" using a(3) by (simp add: closed_def)
  with r(4) d(2) have o: "net_out kn' = []" "net_in kn' @ way @ entry_msgs type (drop n es) = entry_msgs type (drop j es)" by simp_all
  have "works kn'" using r(2) a o(1) w(2) sys_used_steady [of sk sk'] by (auto simp: works_def moved_def waiting_def net_out_def)
  with a(1) o r(5) nc have "store_part type es n j way kn'" by (simp add: store_part_def)
  moreover have "net_weight kn' < net_weight kn" using a(2-4) o(1) d(2) assms(3) by (simp add: net_weight_def moved_def)
  ultimately show ?thesis using r(1,3) by blast
qed

lemma store_part_writes:
  assumes "store_part type es n k way kn" "kn_evwrite kn" "EV_WRITE \<in> events"
  shows "\<exists>kn'. kcn_net_write_cb events (kn\<lparr>kn_evwrite := False\<rparr>) = Some kn' \<and> store_part type es n k way kn' \<and>
    net_weight kn' < net_weight kn"
proof -
  from assms(1) have d: "works kn" "kn_state kn = KCN_NET_STATE_PENDING \<or> waiting kn" by (auto simp: store_part_def)
  from works_write [OF d(1) assms(2,3)] obtain kn' where k:
    "kcn_net_write_cb events (kn\<lparr>kn_evwrite := False\<rparr>) = Some kn'" "works kn'" "net_out kn' = net_out kn" "net_in kn' = net_in kn"
    "kn_ibuf kn' = kn_ibuf kn" "kn_evread kn' = (kn_evread kn \<or> kn_state kn = KCN_NET_STATE_PENDING)" "net_weight kn' < net_weight kn" by blast
  have "waiting kn'" using k(2,6) d(2) by (auto simp: works_def waiting_def)
  with k assms(1) show ?thesis by (auto simp: store_part_def holds_part_def)
qed

lemma store_part_comes:
  assumes "store_part type es n k (bs @ way) kn" "kn_fd kn = Some sk"
  shows "store_part type es n k way (kn\<lparr>kn_fd := Some (sk\<lparr>sk_rx := sk_rx sk @ bs\<rparr>)\<rparr>)"
  using assms works_comes [of kn sk bs] waiting_fd [of kn sk "sk\<lparr>sk_rx := sk_rx sk @ bs\<rparr>"] by (auto simp: store_part_def holds_part_def)

text \<open>What the sender does changes what is on the way and what is still to come, not their order.\<close>

lemma store_part_way:
  assumes "store_part type es n k (q @ way) kn" "way' @ entry_msgs type (drop n' es) = way @ entry_msgs type (drop n es)"
  shows "store_part type es n' k (q @ way') kn"
  using assms by (simp add: store_part_def)

section \<open>The working import\<close>

lemma import_works_file:
  assumes "import_working type es D L D' L' p" "alloc_total malloc" "p_pending p"
  shows "\<exists>p'. file_event malloc True p = Some (Inr p') \<and> import_working type es D L D' L' p' \<and> import_weight type es p' < import_weight type es p"
proof -
  let ?s = "p_sys p"
  from assms(1) obtain k where i: "y_answers ?s = []" "sender_part type es (p_fd p) (p_pending p) (p_kf p) (y_client ?s)"
    "stored type es D L D' L' k (y_tables ?s)" "store_part type es (kcf_line (p_kf p)) k (y_requests ?s @ net_out (y_client ?s)) (y_daemon ?s)"
    by (rule import_workingE)
  have "sender_part type es (p_fd p) True (p_kf p) (y_client ?s)" using i(2) assms(3) by simp
  from sender_part_reads [OF this assms(2)] obtain again fd kf where
    r: "readfile malloc 0 True (p_fd p) ((p_kf p)\<lparr>kcf_kn := y_client ?s\<rparr>) = Some (Inr (again, fd, kf))"
      "sender_part type es fd again kf (kcf_kn kf)"
      "net_out (kcf_kn kf) @ entry_msgs type (drop (kcf_line kf) es) = net_out (y_client ?s) @ entry_msgs type (drop (kcf_line (p_kf p)) es)"
      "2 * (length (fd_avail fd) + of_bool again) + 3 * length (entry_msgs type (drop (kcf_line kf) es)) + net_weight (kcf_kn kf)
        < 2 * (length (fd_avail (p_fd p)) + 1) + 3 * length (entry_msgs type (drop (kcf_line (p_kf p)) es)) + net_weight (y_client ?s)" by blast
  let ?p = "p\<lparr>p_fd := fd, p_pending := again, p_kf := kf, p_sys := ?s\<lparr>y_client := kcf_kn kf\<rparr>\<rparr>"
  have "import_working type es D L D' L' ?p"
    by (rule import_workingI [where k = k]) (use i(1,3) r(2) store_part_way [OF i(4) r(3)] in simp_all)
  moreover have "import_weight type es ?p < import_weight type es p" using r(4) assms(3) by (simp add: import_weight_def Let_def)
  ultimately show ?thesis using r(1) by (simp add: file_event_def)
qed

text \<open>A step of the link changes neither the file nor what is read of it.\<close>

lemma import_works_link:
  assumes "working_step malloc errno (kcndb_server_recv smalloc now) (p_sys p) s'" "import_working type es D L D' L' p"
    and "list_all entry_ok es" "type < 256"
  shows "import_working type es D L D' L' (p\<lparr>p_sys := s'\<rparr>) \<and> import_weight type es (p\<lparr>p_sys := s'\<rparr>) < import_weight type es p"
proof -
  let ?s = "p_sys p" and ?n = "kcf_line (p_kf p)"
  from assms(2) obtain k where i: "y_answers ?s = []" "sender_part type es (p_fd p) (p_pending p) (p_kf p) (y_client ?s)"
    "stored type es D L D' L' k (y_tables ?s)" "store_part type es ?n k (y_requests ?s @ net_out (y_client ?s)) (y_daemon ?s)"
    by (rule import_workingE)
  have w: "works (y_client ?s)" "\<not> kn_evread (y_client ?s)" "works (y_daemon ?s)" "net_out (y_daemon ?s) = []"
    using i(2,4) by (auto simp: sender_part_def sends_file_def store_part_def closed_def)
  have keep: "import_working type es D L D' L' (p\<lparr>p_sys := s'\<rparr>) \<and> import_weight type es (p\<lparr>p_sys := s'\<rparr>) < import_weight type es p"
    if "y_answers s' = []" "sender_part type es (p_fd p) (p_pending p) (p_kf p) (y_client s')" "stored type es D L D' L' j (y_tables s')"
      "store_part type es ?n j (y_requests s' @ net_out (y_client s')) (y_daemon s')"
      "2 * length (y_requests s') + net_weight (y_client s') + net_weight (y_daemon s')
        < 2 * length (y_requests ?s) + net_weight (y_client ?s) + net_weight (y_daemon ?s)" for j
    by (intro conjI import_workingI [where k = j]) (use that in \<open>simp_all add: import_weight_def Let_def\<close>)
  from assms(1) show ?thesis
  proof (cases rule: working_step.cases)
    case (client_receives sk events kn kcr)
    with w(2) show ?thesis by simp
  next
    case (client_sends events kn)
    from sender_part_writes [OF i(2) client_sends(2,3)] client_sends(1,4) i show ?thesis by (intro keep [of k]) auto
  next
    case (request_goes sk bs rest)
    from sender_part_goes [OF i(2) request_goes(2,3)] works_goes [OF w(1) request_goes(2,3)] request_goes(1,4) i
    show ?thesis by (intro keep [of k]) simp_all
  next
    case (answer_comes sk bs rest)
    with i(1) show ?thesis by simp
  next
    case (daemon_receives sk events kn t)
    from store_part_reads [OF i(4) daemon_receives(2-5) i(3) assms(3,4), of smalloc now] daemon_receives(6) obtain j where
      "stored type es D L D' L' j t" "store_part type es ?n j (y_requests ?s @ net_out (y_client ?s)) kn"
      "net_weight kn < net_weight (y_daemon ?s)" by auto
    with daemon_receives(1) i(1,2) show ?thesis by (intro keep [of j]) simp_all
  next
    case (daemon_sends events kn)
    from store_part_writes [OF i(4) daemon_sends(2,3)] daemon_sends(1,4) i show ?thesis by (intro keep [of k]) auto
  next
    case (answer_goes sk bs rest)
    with w(4) show ?thesis by (simp add: net_out_def)
  next
    case (request_comes sk bs rest)
    have "store_part type es ?n k (rest @ net_out (y_client ?s)) ((y_daemon ?s)\<lparr>kn_fd := Some (sk\<lparr>sk_rx := sk_rx sk @ bs\<rparr>)\<rparr>)"
      by (rule store_part_comes [OF _ request_comes(2)]) (use i(4) request_comes(3) in simp)
    with works_comes(4) [OF w(3) request_comes(2), of bs] request_comes(1,3,4) i show ?thesis by (intro keep [of k]) simp_all
  qed
qed

text \<open>All is stored, and the sender's loop has ended with its connection open.\<close>

definition import_done :: "c_enum \<Rightarrow> entry list \<Rightarrow> byte list \<Rightarrow> byte list \<Rightarrow> byte list \<Rightarrow> byte list \<Rightarrow>
    (kcndb_db_base list \<times> kcndb_db_table list) import_system \<Rightarrow> bool" where
  "import_done type es D L D' L' p \<longleftrightarrow> \<not> p_pending p \<and> \<not> kn_evread (y_client (p_sys p)) \<and> \<not> kn_evwrite (y_client (p_sys p)) \<and>
     \<not> closed (y_client (p_sys p)) \<and> stored type es D L D' L' (length es) (y_tables (p_sys p))"

lemma import_stuck:
  assumes "import_working type es D L D' L' p" "alloc_total malloc" "list_all entry_ok es" "type < 256"
    and "\<nexists>p'. working_import malloc errno (kcndb_server_recv smalloc now) p p'"
  shows "import_done type es D L D' L' p"
proof -
  let ?s = "p_sys p" and ?n = "kcf_line (p_kf p)" and ?readcb = "kcndb_server_recv smalloc now"
  from assms(1) obtain k where i: "y_answers ?s = []" "sender_part type es (p_fd p) (p_pending p) (p_kf p) (y_client ?s)"
    "stored type es D L D' L' k (y_tables ?s)" "store_part type es ?n k (y_requests ?s @ net_out (y_client ?s)) (y_daemon ?s)"
    by (rule import_workingE)
  have no: "\<not> working_step malloc errno ?readcb ?s s'" for s' using assms(5) link_works [of malloc errno ?readcb p s'] by blast
  have ev: "EV_WRITE \<in> {EV_WRITE}" "EV_READ \<in> {EV_READ}" by simp_all
  have np: "\<not> p_pending p"
    using import_works_file [OF assms(1,2)] file_works [of p malloc _ errno ?readcb] assms(5) by blast
  have w: "works (y_client ?s)" "works (y_daemon ?s)" "\<not> closed (y_client ?s)"
    using i(2,4) works_open by (simp_all add: sender_part_def store_part_def)
  with i(2) np have c: "\<not> kn_evread (y_client ?s)" "?n = length es" by (auto simp: sender_part_def sends_file_def)
  have cw: "\<not> kn_evwrite (y_client ?s)" using sender_part_writes [OF i(2) _ ev(1)] client_sends [OF _ ev(1)] no by metis
  have dw: "\<not> kn_evwrite (y_daemon ?s)" using store_part_writes [OF i(4) _ ev(1)] daemon_sends [OF _ ev(1)] no by metis
  obtain csk dsk where sk: "kn_fd (y_client ?s) = Some csk" "kn_fd (y_daemon ?s) = Some dsk" using w by (auto simp: works_def)
  have "sk_tx csk = []" using request_goes [OF sk(1), of "sk_tx csk" "[]"] no by auto
  with w(1) cw sk(1) have o: "net_out (y_client ?s) = []" by (auto simp: works_def net_out_def)
  have q: "y_requests ?s = []" using request_comes [OF sk(2), of "y_requests ?s" "[]"] no by auto
  have "kn_evread (y_daemon ?s)" using i(4) dw by (auto simp: store_part_def waiting_def)
  with store_part_reads [OF i(4) _ sk(2) _ ev(2) i(3) assms(3,4), of smalloc now] daemon_receives [OF _ sk(2) _ ev(2)] no
  have r: "sk_rx dsk = []" by metis
  have "kb_data (kn_ibuf (y_daemon ?s)) = entry_msgs type (drop k es)" "holds_part type es k (y_daemon ?s)"
    using i(4) q o r c(2) sk(2) by (simp_all add: store_part_def net_in_def)
  with holds_part_all stored_le [OF i(3)] have "k = length es" by blast
  with i(3) np c(1) cw w(3) show ?thesis by (simp add: import_done_def)
qed

text \<open>What the program relies on, and the system that comes to its end.\<close>

definition import_sane :: "allocator \<Rightarrow> c_enum \<Rightarrow> entry list \<Rightarrow> bool" where
  "import_sane malloc type es \<longleftrightarrow> alloc_total malloc \<and> list_all entry_ok es \<and> type < 256"

interpretation import: progress "working_import malloc errno (kcndb_server_recv smalloc now)"
  "\<lambda>p. import_sane malloc type es \<and> import_working type es D L D' L' p" "import_weight type es" "import_done type es D L D' L'"
  for malloc errno smalloc now type es D L D' L'
proof
  fix p p' assume a: "import_sane malloc type es \<and> import_working type es D L D' L' p"
    "working_import malloc errno (kcndb_server_recv smalloc now) p p'"
  then have s: "alloc_total malloc" "list_all entry_ok es" "type < 256" "import_working type es D L D' L' p" by (simp_all add: import_sane_def)
  from a(2) have "import_working type es D L D' L' p' \<and> import_weight type es p' < import_weight type es p"
  proof cases
    case file_works
    with import_works_file [OF s(4,1)] show ?thesis by auto
  next
    case (link_works s')
    with import_works_link [OF _ s(4,2,3)] show ?thesis by blast
  qed
  with a(1) show "import_sane malloc type es \<and> import_working type es D L D' L' p'" "import_weight type es p' < import_weight type es p"
    by simp_all
next
  fix p assume "import_sane malloc type es \<and> import_working type es D L D' L' p"
    "\<nexists>p'. working_import malloc errno (kcndb_server_recv smalloc now) p p'"
  then show "import_done type es D L D' L' p" using import_stuck [of type es D L D' L' p malloc errno smalloc now] by (simp add: import_sane_def)
qed

end
