(* ===== verification/Kcn_Import_Spec.thy ===== *)
theory Kcn_Import_Spec
  imports Kcn_Import_Live
begin

text \<open>
  What an import from a file promises: whatever happens to the connection, the daemon has stored a beginning of
  the lines, in their order, and while the sockets work every run ends with all of them stored.
\<close>

section \<open>The start\<close>

text \<open>The file is opened, its event is pending, and both ends of the connection are new.\<close>

definition import_start :: "c_enum \<Rightarrow> ofd \<Rightarrow> kcn_buf \<Rightarrow> kcn_net \<Rightarrow> kcn_client_response \<Rightarrow> kcn_net \<Rightarrow> 't \<Rightarrow> 't import_system" where
  "import_start type fd kb ckn kcr dkn T =
     \<lparr>p_fd = fd, p_pending = True,
      p_kf = \<lparr>kcf_type = type, kcf_size = length (fd_data fd), kcf_line = 0, kcf_kb = kb, kcf_kn = ckn\<rparr>,
      p_sys = \<lparr>y_client = ckn, y_kcr = kcr, y_requests = [], y_answers = [], y_daemon = dkn, y_tables = T\<rparr>\<rparr>"

text \<open>What the import relies on: lines that are well formed, and a table that takes their measurements.\<close>

definition import_ready :: "allocator \<Rightarrow> c_enum \<Rightarrow> entry list \<Rightarrow> ofd \<Rightarrow> kcn_buf \<Rightarrow> kcndb_db_base list \<Rightarrow> kcndb_db_table list \<Rightarrow>
    byte list \<Rightarrow> byte list \<Rightarrow> byte list \<Rightarrow> byte list \<Rightarrow> bool" where
  "import_ready malloc type es fd kb bases kd D L D' L' \<longleftrightarrow>
     fd_calm fd \<and> fd_off fd = 0 \<and> fd_data fd = entry_lines es \<and> es \<noteq> [] \<and> list_all entry_ok es \<and> length (fd_data fd) < 2 ^ 64 \<and>
     bufalloc malloc (length (fd_data fd)) = Some (Some kb) \<and> type < 256 \<and>
     TYPE2INDEX type < length bases \<and> TYPE2INDEX type < length kd \<and> add_ready (bases ! TYPE2INDEX type) (kd ! TYPE2INDEX type) D L \<and>
     add_run D L (entry_records type es) D' L'"

lemma import_begins:
  assumes "import_ready malloc type es fd kb bases kd D L D' L'" "alloc_total malloc" "can_send ckn"
  shows "importing es fd \<lparr>kcf_type = type, kcf_size = length (fd_data fd), kcf_line = 0, kcf_kb = kb, kcf_kn = ckn\<rparr>"
    "stored type es D L D' L' 0 (bases, kd)"
proof -
  from assms(1) have r: "fd_off fd = 0" "fd_data fd = entry_lines es" "es \<noteq> []" "list_all entry_ok es" "length (fd_data fd) < 2 ^ 64"
    "bufalloc malloc (length (fd_data fd)) = Some (Some kb)" unfolding import_ready_def by blast+
  from bufalloc_ok [OF assms(2)] obtain post where
    b: "bufalloc malloc (length (fd_data fd)) = Some (Some (zbuf [] [] [] post))" "length post = min (length (fd_data fd)) (2 ^ 20)" .
  with r(6) have kb: "kb = zbuf [] [] [] post" by simp
  have "entry_lines es \<noteq> []" using r(3) by (cases es) (auto elim: entry_line.elims)
  then have "0 < length (fd_data fd)" using r(2) by simp
  then show "importing es fd \<lparr>kcf_type = type, kcf_size = length (fd_data fd), kcf_line = 0, kcf_kb = kb, kcf_kn = ckn\<rparr>"
    using r(1-5) b(2) assms(3) by (auto simp: importing_def fd_avail_def kb)
  show "stored type es D L D' L' 0 (bases, kd)" using assms(1) by (auto simp: stored_def import_ready_def intro: run_Nil)
qed

lemma new_can_send:
  assumes "alloc_ok malloc" "kcn_net_new kn_new malloc base_set [] sk 4096 name = Some (Some kn)" "sk_tx sk = []"
  shows "can_send kn" "net_out kn = []" "net_inv 4096 kn" "kn_fd kn = Some sk" "kn_state kn = KCN_NET_STATE_INIT" "kn_obufq kn = []"
    "kn_evwrite kn" "\<not> kn_evread kn" "kn_everrs kn = []"
proof -
  from net_new_ok [OF assms(1,2)] show n: "net_inv 4096 kn" "kn_fd kn = Some sk" "kn_state kn = KCN_NET_STATE_INIT" "kn_obufq kn = []"
    "kn_evwrite kn" "\<not> kn_evread kn" "kn_everrs kn = []" by simp_all
  then show "can_send kn" "net_out kn = []" using assms(3) by (simp_all add: can_send_def net_inv_def net_out_def obytes_def)
qed

lemma import_start_inv:
  assumes "import_ready malloc type es fd kb bases kd D L D' L'" "alloc_total malloc"
    and "kcn_net_new True malloc True [] csk 4096 cname = Some (Some ckn)" "sk_tx csk = []" "fresh dkn []"
  shows "import_inv type es D L D' L' (import_start type fd kb ckn kcr dkn (bases, kd))"
proof -
  note n = new_can_send [OF alloc_total_ok [OF assms(2)] assms(3,4)]
  note b = import_begins [OF assms(1,2) n(1)]
  have "fd_calm fd" using assms(1) by (simp add: import_ready_def)
  with n b(1) have s: "sends_file type es fd True \<lparr>kcf_type = type, kcf_size = length (fd_data fd), kcf_line = 0, kcf_kb = kb, kcf_kn = ckn\<rparr> ckn"
    by (simp add: sends_file_def closed_def)
  have "kn_everrs dkn = []" "kn_state dkn = KCN_NET_STATE_PENDING" "kn_fd dkn \<noteq> None" "net_inv 4096 dkn" "net_in dkn = []" "net_out dkn = []"
    using assms(5) by (auto simp: fresh_def net_in_def net_out_def)
  then have "takes_file type es 0 0 [] (closed ckn) dkn" by (simp add: takes_file_def)
  with s b(2) n(2) show ?thesis by (intro import_invI [where k = 0]) (simp_all add: import_start_def)
qed

text \<open>What the invariant says of the table.\<close>

lemma stored_contents:
  assumes "stored type es D L D' L' k T" "type < 256" "TYPE2INDEX type < length bases" "TYPE2INDEX type < length kd"
    and "add_ready (bases ! TYPE2INDEX type) (kd ! TYPE2INDEX type) D L"
  shows "\<exists>Dk Lk. add_ready (fst T ! TYPE2INDEX type) (snd T ! TYPE2INDEX type) Dk Lk \<and>
    contents Dk Lk = contents D L @ entry_measurements (take k es)"
proof -
  from assms(1) obtain Dk Lk where s: "add_ready (fst T ! TYPE2INDEX type) (snd T ! TYPE2INDEX type) Dk Lk"
    "add_run D L (entry_records type (take k es)) Dk Lk" by (cases T) (auto simp: stored_def)
  from contents_run [OF s(2) assms(3-5)] s(1) show ?thesis unfolding entry_measurements by blast
qed

section \<open>Whatever happens\<close>

text \<open>
  C5. An import over a connection, with any partial transfers, delays and failures of it.  No event faults, and the program only ends
  with a message if the connection is lost.  The table has always the measurements of a beginning of the lines behind
  those it had, and all of them once the file is read and nothing is on its way.  What is queued is going to be written, and
  the callback for answers, which has no structure to write to, is never called.
\<close>

theorem import_over_wire:
  fixes es :: "entry list" and type :: c_enum
  defines "i \<equiv> TYPE2INDEX type"
  assumes "import_ready malloc type es fd kb bases kd D L D' L'" "alloc_total malloc" "alloc_total smalloc"
    and "kcn_net_new True malloc True [] csk 4096 cname = Some (Some ckn)" "sk_tx csk = []"
    and "kcn_net_new True smalloc True [] dsk 4096 dname = Some (Some dkn0)" "sk_rx dsk = []" "sk_tx dsk = []"
    and "kcn_net_read_enable dkn0 = Some (r, dkn)"
    and "import_run malloc errno (kcndb_server_recv smalloc now) (import_start type fd kb ckn kcr dkn (bases, kd)) p"
  shows "(\<exists>k \<le> length es.
      (\<exists>Dk Lk. add_ready (fst (y_tables (p_sys p)) ! i) (snd (y_tables (p_sys p)) ! i) Dk Lk \<and>
         contents Dk Lk = contents D L @ map (\<lambda>(time, val, loc). (of_nat time, of_nat val, loc)) (take k es)) \<and>
      (\<not> p_pending p \<and> \<not> closed (y_client (p_sys p)) \<and> \<not> closed (y_daemon (p_sys p)) \<and>
         net_out (y_client (p_sys p)) = [] \<and> y_requests (p_sys p) = [] \<and> net_in (y_daemon (p_sys p)) = [] \<longrightarrow> k = length es)) \<and>
    (\<forall>readable. file_event malloc readable p \<noteq> None \<and>
       (\<forall>msg. file_event malloc readable p = Some (Inl msg) \<longrightarrow> closed (y_client (p_sys p)))) \<and>
    \<not> kn_evread (y_client (p_sys p)) \<and>
    (\<not> closed (y_client (p_sys p)) \<and> kn_obufq (y_client (p_sys p)) \<noteq> [] \<longrightarrow> kn_evwrite (y_client (p_sys p))) \<and>
    (kn_evwrite (y_client (p_sys p)) \<longrightarrow> (\<forall>events. EV_WRITE \<in> events \<or> EV_TIMEOUT \<in> events \<longrightarrow>
      kcn_net_write_cb events ((y_client (p_sys p))\<lparr>kn_evwrite := False\<rparr>) \<noteq> None)) \<and>
    (kn_evread (y_daemon (p_sys p)) \<longrightarrow> (\<forall>events. EV_READ \<in> events \<or> EV_TIMEOUT \<in> events \<longrightarrow>
      kcn_net_read_cb (kcndb_server_recv smalloc now) events ((y_daemon (p_sys p))\<lparr>kn_evread := False\<rparr>) (y_tables (p_sys p)) \<noteq> None)) \<and>
    (kn_evwrite (y_daemon (p_sys p)) \<longrightarrow> (\<forall>events. EV_WRITE \<in> events \<or> EV_TIMEOUT \<in> events \<longrightarrow>
      kcn_net_write_cb events ((y_daemon (p_sys p))\<lparr>kn_evwrite := False\<rparr>) \<noteq> None))"
proof -
  let ?s = "p_sys p"
  from session_fresh [OF alloc_total_ok [OF assms(4)] assms(7-10)] have d: "fresh dkn []" .
  from assms(2) have t: "list_all entry_ok es" "type < 256" "TYPE2INDEX type < length bases" "TYPE2INDEX type < length kd"
    "add_ready (bases ! TYPE2INDEX type) (kd ! TYPE2INDEX type) D L" unfolding import_ready_def by blast+
  from import_run_inv [OF assms(11) import_start_inv [OF assms(2,3,5,6) d] t(1,2) assms(3)]
  have inv: "import_inv type es D L D' L' p" .
  then obtain k where v: "sends_file type es (p_fd p) (p_pending p) (p_kf p) (y_client ?s)" "stored type es D L D' L' k (y_tables ?s)"
    "takes_file type es (kcf_line (p_kf p)) k (y_requests ?s @ net_out (y_client ?s)) (closed (y_client ?s)) (y_daemon ?s)"
    by (rule import_invE)
  have all: "k = length es" if "\<not> p_pending p" "\<not> closed (y_client ?s)" "\<not> closed (y_daemon ?s)" "net_out (y_client ?s) = []" "y_requests ?s = []"
    "net_in (y_daemon ?s) = []"
  proof -
    from v(1) that(1,2) have "kcf_line (p_kf p) = length es" unfolding sends_file_def by blast
    with v(3) that(2-6) have "entry_msgs type (drop k es) = []" by (simp add: takes_file_def)
    with stored_le [OF v(2)] show ?thesis by (cases "drop k es") (simp_all add: add_msg_def header_bytes_def)
  qed
  from stored_contents [OF v(2) t(2-5)] stored_le [OF v(2)] all have 1: "\<exists>k \<le> length es.
      (\<exists>Dk Lk. add_ready (fst (y_tables ?s) ! i) (snd (y_tables ?s) ! i) Dk Lk \<and>
         contents Dk Lk = contents D L @ entry_measurements (take k es)) \<and>
      (\<not> p_pending p \<and> \<not> closed (y_client ?s) \<and> \<not> closed (y_daemon ?s) \<and>
         net_out (y_client ?s) = [] \<and> y_requests ?s = [] \<and> net_in (y_daemon ?s) = [] \<longrightarrow> k = length es)"
    unfolding i_def by blast
  have 2: "file_event malloc readable p \<noteq> None \<and> (\<forall>msg. file_event malloc readable p = Some (Inl msg) \<longrightarrow> closed (y_client ?s))" for readable
    using file_event_inv [OF inv assms(3), of readable] by auto
  have 3: "\<not> kn_evread (y_client ?s)" "\<not> closed (y_client ?s) \<and> kn_obufq (y_client ?s) \<noteq> [] \<longrightarrow> kn_evwrite (y_client ?s)"
    using v(1) unfolding sends_file_def closed_def by blast+
  have 4: "kcn_net_write_cb events ((y_client ?s)\<lparr>kn_evwrite := False\<rparr>) \<noteq> None"
    if "kn_evwrite (y_client ?s)" "EV_WRITE \<in> events \<or> EV_TIMEOUT \<in> events" for events
    using sends_file_writes [OF v(1) that] by auto
  have 5: "kcn_net_read_cb (kcndb_server_recv smalloc now) events ((y_daemon ?s)\<lparr>kn_evread := False\<rparr>) (y_tables ?s) \<noteq> None"
    if "kn_evread (y_daemon ?s)" "EV_READ \<in> events \<or> EV_TIMEOUT \<in> events" for events
    using takes_file_reads [OF v(3,2) t(1,2) that, of smalloc now] by auto
  have 6: "kcn_net_write_cb events ((y_daemon ?s)\<lparr>kn_evwrite := False\<rparr>) \<noteq> None"
    if "kn_evwrite (y_daemon ?s)" "EV_WRITE \<in> events \<or> EV_TIMEOUT \<in> events" for events
    using takes_file_writes [OF v(3) that] by auto
  show ?thesis using 1 2 3 4 5 6 by blast
qed

section \<open>With sockets that work\<close>

lemma import_trans:
  assumes "import_run malloc errno readcb p0 p" "import_run malloc errno readcb p p'"
  shows "import_run malloc errno readcb p0 p'"
  using assms(2,1) by (induction rule: import_run.induct) (auto intro: import_run.step)

lemma import_links:
  assumes "system_run malloc errno readcb s s'" "p_sys p = s"
  shows "import_run malloc errno readcb p (p\<lparr>p_sys := s'\<rparr>)"
  using assms
proof (induction rule: system_run.induct)
  case start
  then have "p\<lparr>p_sys := s\<rparr> = p" by simp
  then show ?case by (simp add: import_run.start)
next
  case (step s1 s2)
  from of_link [of malloc errno readcb "p\<lparr>p_sys := s1\<rparr>" s2] step(2) have
    "import_step malloc errno readcb (p\<lparr>p_sys := s1\<rparr>) (p\<lparr>p_sys := s2\<rparr>)" by simp
  with step(3) [OF step(4)] show ?case by (rule import_run.step)
qed

text \<open>The events of the file, until its end is seen.\<close>

lemma import_reads_file:
  assumes "importing es fd kf" "fd_calm fd" "alloc_total malloc"
    and "p_fd p = fd" "p_pending p" "p_kf p = kf" "kcf_kn kf = y_client (p_sys p)"
  shows "\<exists>fd' kf'. imported kf es kf' \<and>
    import_run malloc errno readcb p (p\<lparr>p_fd := fd', p_pending := False, p_kf := kf', p_sys := (p_sys p)\<lparr>y_client := kcf_kn kf'\<rparr>\<rparr>)"
  using assms
proof (induction "length (fd_avail fd)" arbitrary: es fd kf p rule: less_induct)
  case less
  from readfile_imports [OF less.prems(3,1)] obtain again fd' kf' es1 es2 bs error n where
    r: "readfile malloc 0 True fd kf = Some (Inr (again, fd', kf'))" "es = es1 @ es2" "imported kf es1 kf'"
      "importing es2 fd' kf'" "again \<longleftrightarrow> error \<noteq> ESHUTDOWN" "error = 0 \<longleftrightarrow> bs \<noteq> []" "posix_rd_post fd n error bs fd'" "0 < n"
    by blast
  from r(7,8) less.prems(2) have q: "fd_avail fd = bs @ fd_avail fd'" "fd_calm fd'"
      "bs = [] \<longrightarrow> error = ESHUTDOWN \<and> fd_avail fd = []" unfolding posix_rd_post_def by blast+
  let ?p = "p\<lparr>p_fd := fd', p_pending := again, p_kf := kf', p_sys := (p_sys p)\<lparr>y_client := kcf_kn kf'\<rparr>\<rparr>"
  have "kf\<lparr>kcf_kn := y_client (p_sys p)\<rparr> = kf" using less.prems(7) [symmetric] by simp
  then have "file_event malloc True p = Some (Inr ?p)" using r(1) less.prems(4,6) by (simp add: file_event_def)
  with less.prems(5) have st: "import_run malloc errno readcb p ?p" by (meson of_file import_run.start import_run.step)
  show ?case
  proof (cases "bs = []")
    case True
    with q r(5) have "\<not> again" "fd_avail fd' = []" by auto
    with r(4) have "es2 = []" by (simp add: importing_def)
    with r(2,3) st \<open>\<not> again\<close> show ?thesis by auto
  next
    case False
    with r(5,6) have again by auto
    from False q(1) have "length (fd_avail fd') < length (fd_avail fd)" by simp
    from less.hyps [OF this r(4) q(2) less.prems(3), of ?p] \<open>again\<close> obtain fd2 kf2 where
      "imported kf' es2 kf2" "import_run malloc errno readcb ?p (?p\<lparr>p_fd := fd2, p_pending := False, p_kf := kf2,
        p_sys := (p_sys ?p)\<lparr>y_client := kcf_kn kf2\<rparr>\<rparr>)" by auto
    with import_trans [OF st] imported_trans [OF r(3)] r(2) show ?thesis by fastforce
  qed
qed

lemma import_working_start:
  assumes "import_ready malloc type es fd kb bases kd D L D' L'" "alloc_total malloc"
    and "kcn_net_new True malloc True [] csk 4096 cname = Some (Some ckn)" "sk_tx csk = []" "steady csk"
    and "fresh dkn []" "kn_fd dkn = Some dsk" "steady dsk"
  shows "import_sane malloc type es \<and> import_working type es D L D' L' (import_start type fd kb ckn kcr dkn (bases, kd))"
proof -
  from assms(1) have t: "list_all entry_ok es" "type < 256" "es \<noteq> []" by (simp_all add: import_ready_def)
  note n = new_can_send [OF alloc_total_ok [OF assms(2)] assms(3,4)]
  from import_start_inv [OF assms(1-4,6), of kcr] obtain k where
    i: "sends_file type es fd True \<lparr>kcf_type = type, kcf_size = length (fd_data fd), kcf_line = 0, kcf_kb = kb, kcf_kn = ckn\<rparr> ckn"
    by (auto simp: import_start_def elim!: import_invE)
  have "works ckn" using n assms(5) by (simp add: works_def)
  moreover have "store_part type es 0 0 [] dkn"
    using assms(6-8) t(3) by (cases es) (auto simp: fresh_def works_def store_part_def holds_part_def net_in_def net_out_def
      add_msg_def header_bytes_def)
  ultimately have "import_working type es D L D' L' (import_start type fd kb ckn kcr dkn (bases, kd))"
    using i n(2) import_begins(2) [OF assms(1,2) n(1)] by (intro import_workingI [where k = 0]) (simp_all add: import_start_def sender_part_def)
  with t assms(2) show ?thesis by (simp add: import_sane_def)
qed

text \<open>Every run is bounded, and goes on until all is stored.\<close>

lemma import_live:
  assumes "import_ready malloc type es fd kb bases kd D L D' L'" "alloc_total malloc"
    and "kcn_net_new True malloc True [] csk 4096 cname = Some (Some ckn)" "sk_tx csk = []" "steady csk"
    and "fresh dkn []" "kn_fd dkn = Some dsk" "steady dsk"
  shows "\<exists>N. \<forall>n p. (working_import malloc errno (kcndb_server_recv smalloc now) ^^ n) (import_start type fd kb ckn kcr dkn (bases, kd)) p \<longrightarrow>
    n \<le> N \<and> ((\<exists>p'. working_import malloc errno (kcndb_server_recv smalloc now) p p') \<or> import_done type es D L D' L' p)"
  using import.run_completes [OF import_working_start [OF assms]] by (intro exI allI impI)

text \<open>
  C6. While the sockets work, an import comes to its end, whatever the order of the events, the portions in which bytes move, the
  sizes of the file and the buffers, and the partial, interrupted and refused calls on the way: the number of steps is bounded,
  and a run goes on until the whole file is read, the sender's loop has ended with its connection open, and the measurements of all
  lines are stored, in their order.
\<close>

theorem import_completes:
  fixes es :: "entry list" and type :: c_enum and errno and now
  defines "i \<equiv> TYPE2INDEX type"
  assumes "import_ready malloc type es fd kb bases kd D L D' L'" "alloc_total malloc" "alloc_total smalloc"
    and "kcn_net_new True malloc True [] csk 4096 cname = Some (Some ckn)" "sk_tx csk = []" "steady csk"
    and "kcn_net_new True smalloc True [] dsk 4096 dname = Some (Some dkn0)" "sk_rx dsk = []" "sk_tx dsk = []" "steady dsk"
    and "kcn_net_read_enable dkn0 = Some (r, dkn)"
  defines "step \<equiv> working_import malloc errno (kcndb_server_recv smalloc now)"
  shows "\<exists>N. \<forall>n p. (step ^^ n) (import_start type fd kb ckn kcr dkn (bases, kd)) p \<longrightarrow> n \<le> N \<and>
    ((\<exists>p'. step p p') \<or>
     \<not> p_pending p \<and> \<not> kn_evread (y_client (p_sys p)) \<and> \<not> kn_evwrite (y_client (p_sys p)) \<and> \<not> closed (y_client (p_sys p)) \<and>
     (\<exists>Dk Lk. add_ready (fst (y_tables (p_sys p)) ! i) (snd (y_tables (p_sys p)) ! i) Dk Lk \<and>
        contents Dk Lk = contents D L @ map (\<lambda>(time, val, loc). (of_nat time, of_nat val, loc)) es))"
proof -
  have m: "alloc_ok smalloc" by (rule alloc_total_ok [OF assms(4)])
  note d = session_fresh [OF m assms(8-10,12)] session_fd [OF assms(8) m assms(12)]
  from assms(2) have t: "type < 256" "TYPE2INDEX type < length bases" "TYPE2INDEX type < length kd"
    "add_ready (bases ! TYPE2INDEX type) (kd ! TYPE2INDEX type) D L" unfolding import_ready_def by blast+
  have "\<exists>Dk Lk. add_ready (fst (y_tables (p_sys p)) ! i) (snd (y_tables (p_sys p)) ! i) Dk Lk \<and>
      contents Dk Lk = contents D L @ entry_measurements es" if "import_done type es D L D' L' p" for p
    using stored_contents [OF _ t, of es D' L' "length es" "y_tables (p_sys p)"] that by (simp add: import_done_def i_def)
  with import_live [OF assms(2,3,5-7) d assms(11), of errno smalloc now kcr] show ?thesis
    unfolding step_def import_done_def by meson
qed

text \<open>
  The sender does not learn of a loss: when the server does not accept in time, the write event times out and closes the
  connection; the file has been read, no event is left, and the loop ends as after a success, with nothing stored.
\<close>

lemma import_loss:
  assumes "import_ready malloc type es fd kb bases kd D L D' L'" "alloc_total malloc"
    and "kcn_net_new True malloc True [] csk 4096 cname = Some (Some ckn)" "sk_tx csk = []"
  shows "\<exists>p. import_run malloc errno readcb (import_start type fd kb ckn kcr dkn (bases, kd)) p \<and> \<not> p_pending p \<and>
    closed (y_client (p_sys p)) \<and> kcf_line (p_kf p) = length es \<and> y_requests (p_sys p) = [] \<and> y_tables (p_sys p) = (bases, kd)"
proof -
  let ?p0 = "import_start type fd kb ckn kcr dkn (bases, kd)"
  let ?kf = "\<lparr>kcf_type = type, kcf_size = length (fd_data fd), kcf_line = 0, kcf_kb = kb, kcf_kn = ckn\<rparr>"
  from assms(1) have c: "fd_calm fd" by (simp add: import_ready_def)
  note n = new_can_send [OF alloc_total_ok [OF assms(2)] assms(3,4)]
  note b = import_begins [OF assms(1,2) n(1)]
  from import_reads_file [OF b(1) c assms(2), of ?p0 errno readcb] obtain fd' kf' where
    f: "imported ?kf es kf'" "import_run malloc errno readcb ?p0
      (?p0\<lparr>p_fd := fd', p_pending := False, p_kf := kf', p_sys := (p_sys ?p0)\<lparr>y_client := kcf_kn kf'\<rparr>\<rparr>)"
    by (auto simp: import_start_def)
  let ?c = "kcf_kn kf'" and ?s1 = "(p_sys ?p0)\<lparr>y_client := kcf_kn kf'\<rparr>"
  let ?p1 = "?p0\<lparr>p_fd := fd', p_pending := False, p_kf := kf', p_sys := ?s1\<rparr>"
  from f(1) n have k: "net_ok 4096 ?c" "kn_evwrite ?c" "kn_fd ?c = Some csk" "kn_state ?c = KCN_NET_STATE_INIT" "kcf_line kf' = length es"
    by (auto simp: imported_def can_send_def same_link_def)
  then have "net_ok 4096 (?c\<lparr>kn_evwrite := False\<rparr>)" by (auto simp: net_ok_def)
  from disconnect_ok [OF this] obtain kn where d: "kcn_net_disconnect (?c\<lparr>kn_evwrite := False\<rparr>) = Some kn" "net_ok 4096 kn" "kn_fd kn = None"
    by (auto simp: net_inv_def)
  have "kcn_net_write_cb {EV_TIMEOUT} (?c\<lparr>kn_evwrite := False\<rparr>) = Some kn"
    using k(3,4) d(1) by (simp add: kcn_net_write_cb_def kcn_net_event_check_def kcn_net_timeout_def)
  then have "system_step malloc errno readcb ?s1 (?s1\<lparr>y_client := kn\<rparr>)" using client_writes [of ?s1 "{EV_TIMEOUT}" kn] k(2) by simp
  then have "import_run malloc errno readcb ?p1 (?p1\<lparr>p_sys := ?s1\<lparr>y_client := kn\<rparr>\<rparr>)" by (intro import_links run_step) simp_all
  with import_trans [OF f(2)] have "import_run malloc errno readcb ?p0 (?p1\<lparr>p_sys := ?s1\<lparr>y_client := kn\<rparr>\<rparr>)" by blast
  with closedI [OF d(2,3)] k(5) show ?thesis
    by (intro exI [of _ "?p1\<lparr>p_sys := ?s1\<lparr>y_client := kn\<rparr>\<rparr>"]) (simp add: import_start_def)
qed

section \<open>One line\<close>

definition sample_file :: ofd where
  "sample_file = \<lparr>fd_data = entry_lines [(1000, 5, [97])], fd_off = 0, fd_sys = [Part 4]\<rparr>"

lemma sample_import:
  obtains kb D' L' where "import_ready zero_malloc 1 [(1000, 5, [97])] sample_file kb [opened_base [] empty_locs] [opened_table [] empty_locs]
    [] empty_locs D' L'"
proof -
  let ?es = "[(1000, 5, [97])] :: entry list"
  let ?r = "add_record (kma_time (entry_add 1 (1000, 5, [97]))) (entry_add 1 (1000, 5, [97]))"
  have d: "dec_bytes 1000 = [49, 48, 48, 48]" "dec_bytes 5 = [53]"
    by (simp_all add: dec_bytes_def decimal.simps byte_of_char_of)
  have ok: "list_all entry_ok ?es" and len: "length (entry_lines ?es) < 2 ^ 64"
    by (simp_all add: d plain_def c_isprint_def c_isspace_def byte_char_def char_code_def)
  have "record_fits [] empty_locs ?r"
    by (simp add: record_fits_def add_record_def last_record_def kdr_uninit_def empty_locs_def)
  moreover have "loc_effect empty_locs (kdr_loc ?r) 2048 (loc_added empty_locs [97])"
    using effect_empty [of "[97]"] by (simp add: add_record_def)
  ultimately have run: "add_run [] empty_locs (entry_records 1 ?es) ([] @ record_bytes (?r\<lparr>kdr_locidx := 2048\<rparr>)) (loc_added empty_locs [97])"
    unfolding list.map by (rule run_Cons [OF _ _ run_Nil])
  obtain post where "bufalloc zero_malloc (length (fd_data sample_file)) = Some (Some (zbuf [] [] [] post))"
    by (rule bufalloc_ok [OF alloc_total_zero])
  with ok len run that opened_empty show thesis
    by (simp add: sample_file_def import_ready_def fd_calm_def TYPE2INDEX_def word_less_nat_alt del: entry_line.simps entry_add.simps)
qed

lemma sample_server:
  obtains kn r dkn where "kcn_net_new True zero_malloc True [] quiet 4096 [] = Some (Some kn)" "kcn_net_read_enable kn = Some (r, dkn)" "fresh dkn []"
  using sample_ends by blast

theorem import_over_wire_witness:
  "\<exists>kb ckn kcr dkn p. import_run zero_malloc 0 (kcndb_server_recv zero_malloc (Inr 0)) (import_start 1 sample_file kb ckn kcr dkn
      ([opened_base [] empty_locs], [opened_table [] empty_locs])) p \<and> \<not> p_pending p \<and>
    (\<exists>k \<le> 1. \<exists>Dk Lk. add_ready (fst (y_tables (p_sys p)) ! TYPE2INDEX 1) (snd (y_tables (p_sys p)) ! TYPE2INDEX 1) Dk Lk \<and>
       contents Dk Lk = contents [] empty_locs @ take k [(1000, 5, [97])])"
proof -
  obtain kb D' L' where r: "import_ready zero_malloc 1 [(1000, 5, [97])] sample_file kb [opened_base [] empty_locs] [opened_table [] empty_locs]
    [] empty_locs D' L'" by (rule sample_import)
  obtain kn er dkn where n: "kcn_net_new True zero_malloc True [] quiet 4096 [] = Some (Some kn)" "kcn_net_read_enable kn = Some (er, dkn)"
    "fresh dkn []" by (rule sample_server)
  have q: "sk_rx quiet = []" "sk_tx quiet = []" by simp_all
  have st: "steady quiet" by simp
  note fd = session_fd [OF n(1) alloc_total_ok [OF alloc_total_zero] n(2)]
  let ?step = "working_import zero_malloc 0 (kcndb_server_recv zero_malloc (Inr 0))" and ?p0 = "import_start 1 sample_file kb kn undefined dkn
      ([opened_base [] empty_locs], [opened_table [] empty_locs])"
  from import_live [OF r alloc_total_zero n(1) q(2) st n(3) fd st, of 0 zero_malloc "Inr 0" undefined] obtain N where
    N: "\<forall>n p. (?step ^^ n) ?p0 p \<longrightarrow> n \<le> N \<and> ((\<exists>p'. ?step p p') \<or> import_done 1 [(1000, 5, [97])] [] empty_locs D' L' p)" by blast
  from longest_run [of ?step ?p0 N] N obtain m p where "(?step ^^ m) ?p0 p" "\<nexists>p'. ?step p p'" by blast
  with N working_import_run [of m zero_malloc 0 _ ?p0 p] have
    p: "import_run zero_malloc 0 (kcndb_server_recv zero_malloc (Inr 0)) (import_start 1 sample_file kb kn undefined dkn
      ([opened_base [] empty_locs], [opened_table [] empty_locs])) p" "\<not> p_pending p" by (auto simp: import_done_def)
  from conjunct1 [OF import_over_wire [OF r alloc_total_zero alloc_total_zero n(1) q(2) n(1) q n(2) p(1)]] obtain k Dk Lk where
    "k \<le> 1" "add_ready (fst (y_tables (p_sys p)) ! TYPE2INDEX 1) (snd (y_tables (p_sys p)) ! TYPE2INDEX 1) Dk Lk"
    "contents Dk Lk = contents [] empty_locs @ map (\<lambda>(time, val, loc). (of_nat time, of_nat val, loc)) (take k [(1000, 5, [97])])"
    by auto
  moreover have "map (\<lambda>(time, val, loc). (of_nat time, of_nat val, loc)) (take k [(1000, 5, [97])]) = take k [(1000, 5, [97])]"
    by (simp add: take_map [symmetric])
  ultimately show ?thesis using p by metis
qed

text \<open>The sockets refuse the first call, are interrupted, and transfer single bytes; the line is stored.\<close>

theorem import_completes_witness:
  "\<exists>kb ckn kcr dkn n p Dk Lk. (working_import zero_malloc 0 (kcndb_server_recv zero_malloc (Inr 0)) ^^ n)
      (import_start 1 sample_file kb ckn kcr dkn ([opened_base [] empty_locs], [opened_table [] empty_locs])) p \<and>
    \<not> p_pending p \<and> \<not> kn_evwrite (y_client (p_sys p)) \<and>
    add_ready (fst (y_tables (p_sys p)) ! TYPE2INDEX 1) (snd (y_tables (p_sys p)) ! TYPE2INDEX 1) Dk Lk \<and> contents Dk Lk = contents [] empty_locs @ [(1000, 5, [97])]"
proof -
  let ?sk = "\<lparr>sk_rx = [], sk_eof = False, sk_tx = [], sk_sys = [SockFail EAGAIN, SockFail EINTR, SockPart 0]\<rparr>"
  have sk: "sk_rx ?sk = []" "sk_tx ?sk = []" "steady ?sk" by (simp_all add: steady_def)
  obtain kb D' L' where r: "import_ready zero_malloc 1 [(1000, 5, [97])] sample_file kb [opened_base [] empty_locs] [opened_table [] empty_locs]
    [] empty_locs D' L'" by (rule sample_import)
  obtain ckn0 er ckn dkn0 r' dkn where e: "kcn_net_new True zero_malloc True [] ?sk 4096 [] = Some (Some dkn0)"
    "kcn_net_read_enable dkn0 = Some (r', dkn)" by (rule sample_ends_on [OF sk(1,2)])
  let ?step = "working_import zero_malloc 0 (kcndb_server_recv zero_malloc (Inr 0))" and ?p0 = "import_start 1 sample_file kb dkn0 undefined dkn
      ([opened_base [] empty_locs], [opened_table [] empty_locs])"
  let ?ok = "\<lambda>p. \<not> p_pending p \<and> \<not> kn_evread (y_client (p_sys p)) \<and> \<not> kn_evwrite (y_client (p_sys p)) \<and> \<not> closed (y_client (p_sys p)) \<and>
     (\<exists>Dk Lk. add_ready (fst (y_tables (p_sys p)) ! TYPE2INDEX 1) (snd (y_tables (p_sys p)) ! TYPE2INDEX 1) Dk Lk \<and>
        contents Dk Lk = contents [] empty_locs @ map (\<lambda>(time, val, loc). (of_nat time, of_nat val, loc)) [(1000, 5, [97])])"
  from import_completes [OF r alloc_total_zero alloc_total_zero e(1) sk(2,3) e(1) sk e(2), where errno = 0 and now = "Inr 0" and kcr = undefined]
  obtain N where N: "\<forall>n p. (?step ^^ n) ?p0 p \<longrightarrow> n \<le> N \<and> ((\<exists>p'. ?step p p') \<or> ?ok p)" by blast
  from longest_run [of ?step ?p0 N] N obtain n p where "(?step ^^ n) ?p0 p" "\<nexists>p'. ?step p p'" by blast
  moreover from this N have "?ok p" by blast
  then obtain Dk Lk where "\<not> p_pending p" "\<not> kn_evwrite (y_client (p_sys p))"
    "add_ready (fst (y_tables (p_sys p)) ! TYPE2INDEX 1) (snd (y_tables (p_sys p)) ! TYPE2INDEX 1) Dk Lk"
    "contents Dk Lk = contents [] empty_locs @ [(1000, 5, [97])]" by auto
  ultimately show ?thesis by blast
qed

end
