(* ===== verification/Spec2Isabelle.thy ===== *)
theory Spec2Isabelle
  imports Kcndb_Daemon Kcn_Lib_Spec Kcn_Google Kcndbctl Kcn_Usage Kcn_Import_Spec
begin

text \<open>
  KCN is a database of network measurements and the tools around it: the daemon \<^verbatim>\<open>kcndbd\<close> keeps, per
  measurement type, a file of records (time, value, locator) and answers queries; \<^verbatim>\<open>key2loc\<close> asks the
  daemon, or a web search, for the locators that match some keys; \<^verbatim>\<open>kcndbctl\<close> adds records.  All of
  them use the library under \<^verbatim>\<open>lib/\<close>.  This development models the C code as it is compiled on
  Linux, as functions on explicit states, and proves what each part promises and where it fails to.

  \<^bold>\<open>Conventions\<close> (\<open>Kcn_Prelude\<close>).  \<^const>\<open>None\<close> is undefined behaviour: a failed \<open>assert\<close>, an access
  outside an object, a call that blocks for ever or a loop that does not return.  A reported error is
  \<^term>\<open>Inl e\<close> with the errno value \<open>e\<close>.  Fixed-width integers are words, a count of bytes in
  an object is a natural number, an enumeration is a 32-bit word because unchecked bytes of the
  network are stored in such variables.  Definitions have the names of the C functions.

  \<^bold>\<open>Library.\<close>
    \<^item> \<open>Kcn_Buf\<close>, \<open>Kcn_Buf_IO\<close> (\<^verbatim>\<open>kcn_buf.c\<close>): the byte buffer with its start, current position and end;
      integers in network order; the queue of buffers; transfer from and to descriptors, over the
      locales \<open>io_reader\<close> and \<open>io_writer\<close>, which regular files and sockets interpret; the dump.  Every
      operation is computed on the view \<open>zbuf pre h t post\<close> of a buffer as four stretches of bytes.
    \<^item> \<open>Kcn_Str\<close>, \<open>Kcn_Eq\<close>, \<open>Kcn_Msg\<close> (\<^verbatim>\<open>kcn_str.c\<close>, \<^verbatim>\<open>kcn_eq.c\<close>, \<^verbatim>\<open>kcn_msg.c\<close>): numbers, query conditions and
      the wire format, with encoders computed to byte lists and decoders inverted.
    \<^item> \<open>Kcn_Net\<close>, \<open>Kcn_Net_Props\<close> (\<^verbatim>\<open>kcn_net.c\<close>): the connection as a state machine over a socket and
      the pending events of libevent; its invariant under the relation \<open>net_step\<close>, for every read
      callback that meets the locale \<open>net_reader\<close>.  \<open>Kcn_Net_Flow\<close>: the bytes on their way in and
      out of a connection, and what an event does to one that waits, shared by clients and daemon.
    \<^item> \<open>Kcn_Socket\<close> (\<^verbatim>\<open>kcn_socket.c\<close>, \<^verbatim>\<open>kcn_sockaddr.c\<close>): sockets and addresses over a table of descriptors.
    \<^item> \<open>Kcn_Lib_Spec\<close>: the promises of the library.

  \<^bold>\<open>Daemon.\<close>
    \<^item> \<open>Kcndb_File\<close> (\<^verbatim>\<open>kcndb_file.c\<close>): a POSIX file as contents, offset and the outcomes of the next
      system calls, and the buffered file on top of it.
    \<^item> \<open>Kcndb_Db\<close> (\<^verbatim>\<open>kcndb_db.c\<close>) with \<open>Kcndb_Db_Search\<close>, \<open>Kcndb_Db_Add\<close>, \<open>Kcndb_Db_Open\<close>: tables, the
      locator file with its hash chains, the shared sizes and locks; the refinement of searching to a
      filter of the parsed records and of adding to appending, the invariant \<open>table_ok\<close>.  The callback
      of a search is the locale \<open>record_sink\<close>.
    \<^item> \<open>Kcndb_Server\<close> (\<^verbatim>\<open>kcndb_server.c\<close>): the callbacks of a connection; it interprets \<open>net_reader\<close>
      and \<open>record_sink\<close>.  \<open>Kcndb_Session\<close>: what one whole message does, and concrete states.
    \<^item> \<open>Kcndb_Db_Spec\<close>: the promises of files and database, and the defects found in them.
    \<^item> \<open>Kcndb_Threads\<close>: the tables as the threads share them, any number of handles on the same files; the
      operations of all threads in any order refine one list of measurements per type, as long as each is allowed when it is
      done (\<open>op_allowed\<close>, which leaves out the defects of \<open>Kcndb_Db_Spec\<close>).
    \<^item> \<open>Kcndb_Daemon\<close> (the rest of \<^verbatim>\<open>kcndb_server.c\<close>): the start of the server, the eight threads and their
      sessions as a step relation over the shared table of descriptors.  The locale \<open>exclusive_owner\<close>
      is the contract of a thread's step that gives every descriptor exactly one owner; late failures of
      \<open>kcn_net_new\<close>, which break it, are the steps of \<open>thread_step True\<close>.

  \<^bold>\<open>Clients.\<close>
    \<^item> \<open>Kcn_Wire\<close>: whole messages as bytes and the buffer a message is built in, shared by both sides.
    \<^item> \<open>Kcn_Keys\<close> (\<^verbatim>\<open>kcn.c\<close>, \<^verbatim>\<open>kcn_token.c\<close>): keys joined and split, \<open>strlcpy\<close> and \<open>strlcat\<close> on blocks
      of memory, the tokenizer.  \<open>Kcn_Info\<close> (\<^verbatim>\<open>kcn_info.c\<close>): the structure that collects locators,
      with the size of its block, which wraps for \<^verbatim>\<open>key2loc -n\<close> from -5 to -1.
    \<^item> \<open>Kcn_Client\<close>, \<open>Kcn_Client_Spec\<close> (\<^verbatim>\<open>kcn_client.c\<close>): a query, its answer and an addition over a
      connection; the read callback interprets \<open>net_reader\<close>.  A run of the client is the relation
      \<open>client_run\<close>, in which the answer arrives in any pieces.
    \<^item> \<open>Kcn_Search\<close> (\<^verbatim>\<open>kcn_db.c\<close>, \<^verbatim>\<open>kcn_netstat.c\<close>): the registry of databases, the choice of one for
      some keys, and the compilation of keys to a query.
    \<^item> \<open>Kcn_Uri\<close> (\<^verbatim>\<open>kcn_uri.c\<close>, \<^verbatim>\<open>kcn_httpbuf.c\<close>) and \<open>Kcn_Google\<close> (\<^verbatim>\<open>kcn_google.c\<close>, \<^verbatim>\<open>kcn_http.c\<close>): URIs
      and their encoding in reallocated blocks, and the web search.  libcurl is a sequence of writes and a
      result code, jansson a function from text to values.
    \<^item> \<open>Kcndbctl\<close> (\<^verbatim>\<open>kcndbctl_file.c\<close>, \<^verbatim>\<open>kcndbctl_msg.c\<close>): the import of a file of lines and of a single
      record.  The events of the file are \<open>file_events\<close> when nothing happens between them.

  \<^bold>\<open>Programs.\<close>
    \<^item> \<open>Kcn_Main\<close> (\<^verbatim>\<open>key2loc/main.c\<close>, \<^verbatim>\<open>kcndbctl_main.c\<close>, \<^verbatim>\<open>kcndb_main.c\<close>): \<open>getopt\<close>, the options and the main
      functions, from the words of a command line to the exit status; the daemon comes to its loop without a fault.
    \<^item> \<open>Kcn_Main_Spec\<close>: what \<^verbatim>\<open>key2loc\<close> prints, and a measurement from the command line of \<^verbatim>\<open>kcndbctl\<close> to the table.
    \<^item> \<open>Kcn_Usage\<close> (\<^verbatim>\<open>kcn_log.c\<close> and the functions \<open>usage\<close>): what is printed on the error stream.
    \<^item> \<open>Kcn_System\<close>: a client and the daemon with the bytes between them, as the step relation
      \<open>system_step\<close>: either side's event fires, bytes leave a socket or arrive in any portions, system calls to
      come have any outcome.  The invariant \<open>system_inv\<close> follows a query to the daemon and its answer back.
    \<^item> \<open>Kcn_System_Spec\<close>: no event faults, the client has always a beginning of what its query selects, and all of
      it when its loop ends, unless the connection was lost; \<open>served_dispatch\<close> is a loop that computes a whole
      exchange; and \<^verbatim>\<open>key2loc\<close> from the command line to the printed locators.
    \<^item> \<open>Kcn_Progress\<close>, \<open>Kcn_Live\<close>: the exchange comes to its end.  The locale \<open>progress\<close> is the contract of a system
      with an invariant, a weight that every step decreases and a last state; it is interpreted on \<open>working_step\<close>, the steps of
      the system while its sockets work (\<open>steady\<close>: they have any number of partial transfers, interruptions and
      \<open>EAGAIN\<close> to come, but no failure), with events that fire because there is something to do.  Every run of them is
      bounded by the weight of the start, and where no step is possible the client has everything.
    \<^item> \<open>Kcn_Import\<close>: an import over a connection, as \<open>import_step\<close>: an event of the file, or a step of the
      system.  Its invariant relates the lines that are left, the bytes on the way and what the tables have stored.
    \<^item> \<open>Kcn_Import_Live\<close>: the import comes to its end, a second interpretation of \<open>progress\<close>, on \<open>working_import\<close>.
    \<^item> \<open>Kcn_Import_Spec\<close>: the table has always a beginning of the lines, and no event faults; while the sockets work
      every run ends with all lines stored; a sender that loses its connection after the file is read ends as after a success.

  The properties below are those of the composed programs that need no wire: sessions of the daemon and messages
  that follow each other.

  \<^bold>\<open>Loops.\<close>  Loops over input and output are \<open>partial_function (option)\<close>, so that not returning is
  \<^const>\<open>None\<close>; the lemmas about them show that they return a value.  No fuel is used; the number of steps of an
  exchange and of an import is bounded by \<open>system_weight\<close> and \<open>import_weight\<close> of their start.

  \<^bold>\<open>Not modelled.\<close>  Libraries and services the sources only call (libcurl, jansson, libevent's
  dispatch loop, name resolution) are parameters; the places where a message is logged, which change nothing
  (\<open>log_keeps_errno\<close>); what a signal does to a process (\<open>kcn_signal_init\<close> is the result of \<open>signal\<close>); the
  functions that only release memory.
  Threads interleave in steps: an operation on a table, which holds its lock from beginning to end, is one
  step in \<open>Kcndb_Threads\<close>, and what a thread does between two system calls that may wait is one step in
  \<open>Kcndb_Daemon\<close>; a wait for a lock is \<^const>\<open>None\<close>.
\<close>

section \<open>Connections\<close>

text \<open>
  C13. Whatever order the events of a session come in, and whatever the peer sends, every state
  the connection of a new session can reach satisfies the invariant of connections: a descriptor that
  is closed has no pending event, a connection waits for data only when it is established and then
  its buffer has room, and the queue holds only well-formed, non-empty messages.
\<close>

theorem session_invariant:
  assumes "alloc_ok malloc" "kcn_net_new kn_new malloc base_set everrs sk KCN_MSG_MAXSIZ name = Some (Some kn0)"
    "kcn_net_read_enable kn0 = Some (r, kn1)" "net_reachable (kcndb_server_recv malloc now) (kn1, kt) (kn, kt')"
  shows "net_inv KCN_MSG_MAXSIZ kn"
proof -
  from net_new_ok [OF assms(1,2)] have n: "net_inv 4096 kn0" "kn_fd kn0 = Some sk" "kn_state kn0 = KCN_NET_STATE_INIT"
    by simp_all
  then have "net_ok 4096 kn0" "ibuf_room 4096 kn0" by (simp_all add: net_inv_def)
  from read_enable_ok [OF this(1) _ this(2)] n(2) assms(3) have "net_inv 4096 kn1" by auto
  with server_reader.reachable_inv [of malloc now "(kn1, kt)" "(kn, kt')"] assms(1,4) show ?thesis by simp
qed

theorem session_invariant_witness:
  "\<exists>kn0 r kn1. kcn_net_new True zero_malloc True [] \<lparr>sk_rx = [], sk_eof = False, sk_tx = [], sk_sys = []\<rparr> 4096 ''peer'' = Some (Some kn0) \<and>
    kcn_net_read_enable kn0 = Some (r, kn1) \<and> net_inv 4096 kn1"
proof -
  let ?sk = "\<lparr>sk_rx = [], sk_eof = False, sk_tx = [], sk_sys = []\<rparr>"
  have a: "alloc_ok zero_malloc" by (simp add: alloc_ok_def zero_malloc_def)
  obtain kn0 where n: "kcn_net_new True zero_malloc True [] ?sk 4096 ''peer'' = Some (Some kn0)"
    by (simp add: kcn_net_new_def kcn_buf_data_new_def zero_malloc_def kcn_buf_init_def kcn_buf_start_def kb_sp_def
        kcn_net_write_enable_def kcn_net_event_add_def)
  moreover obtain r kn1 where "kcn_net_read_enable kn0 = Some (r, kn1)"
    using n by (auto simp: kcn_net_new_def kcn_buf_data_new_def zero_malloc_def kcn_buf_init_def kcn_buf_start_def kb_sp_def
        kcn_net_write_enable_def kcn_net_event_add_def kcn_net_read_enable_def)
  moreover from session_invariant [OF a n this net_reachable.start] have "net_inv 4096 kn1" .
  ultimately show ?thesis by blast
qed

text \<open>
  C19. When the socket is ready, the write callback returns with the invariant, whatever the
  writes do: unless it disconnects, the bytes that were sent and those still queued are together
  what was queued before, in order, and if bytes are left it waits for the socket again.
\<close>

theorem write_cb_conserves:
  assumes "net_inv cap kn" "kn_evwrite kn" "kn_fd kn = Some sk"
  shows "\<exists>kn'. kcn_net_write_cb events (kn\<lparr>kn_evwrite := False\<rparr>) = Some kn' \<and> net_inv cap kn' \<and>
    (kn_state kn' = KCN_NET_STATE_DISCONNECTED \<or>
     (\<exists>sk'. kn_fd kn' = Some sk' \<and> sk_tx sk' @ obytes kn' = sk_tx sk @ obytes kn \<and>
        (EV_WRITE \<in> events \<and> kn_everrs kn = [] \<longrightarrow> kn_obufq kn' = [] \<or> kn_evwrite kn')))"
  using write_cb_ok [OF assms(1,2), of events] assms(3) by auto

theorem write_cb_conserves_witness:
  "\<exists>kn'. kcn_net_write_cb {EV_WRITE} ((received [])
      \<lparr>kn_obufq := [\<lparr>kbd_size = 2, kbd_sp = 0, kbd_ep = 2, kbd_buf = [1, 2]\<rparr>], kn_evwrite := False\<rparr>) = Some kn' \<and>
    (kn_state kn' = KCN_NET_STATE_DISCONNECTED \<or> (\<exists>sk'. kn_fd kn' = Some sk' \<and> sk_tx sk' @ obytes kn' = [1, 2]))"
proof -
  let ?kn = "(received []) \<lparr>kn_obufq := [\<lparr>kbd_size = 2, kbd_sp = 0, kbd_ep = 2, kbd_buf = [1, 2]\<rparr>], kn_evwrite := True\<rparr>"
  have ok: "net_inv 4096 ?kn" by (simp add: net_inv_def net_ok_def received_def kbd_wf_def kbd_bytes_def)
  have s: "?kn\<lparr>kn_evwrite := False\<rparr> = (received [])
      \<lparr>kn_obufq := [\<lparr>kbd_size = 2, kbd_sp = 0, kbd_ep = 2, kbd_buf = [1, 2]\<rparr>], kn_evwrite := False\<rparr>" by simp
  have f: "kn_fd ?kn = Some \<lparr>sk_rx = [], sk_eof = False, sk_tx = [], sk_sys = []\<rparr>" "kn_evwrite ?kn" "obytes ?kn = [1, 2]"
    by (simp_all add: received_def obytes_def kbd_bytes_def)
  from write_cb_conserves [OF ok f(2,1), of "{EV_WRITE}"] f(3) show ?thesis unfolding s by auto
qed

section \<open>The daemon\<close>

text \<open>
  C12. A query that arrives whole is answered with one response for each of the first
  \<open>maxcount\<close> matching measurements, in their order, that carries its locator, and a final response
  with the error number: 0, or \<open>ESRCH\<close> when there was none.  The message is consumed.
\<close>

theorem query_is_answered:
  fixes q :: kcn_msg_query
  defines "i \<equiv> TYPE2INDEX (ke_type (kmq_eq q))" and "sel \<equiv> selection (kmq_eq q) (unat (kmq_maxcount q))"
  assumes "sending malloc kn" "kn_ibuf kn = zbuf pre [] (query_msg q) post"
    and "kmq_loctype q \<le> 1" "ke_type (kmq_eq q) < 256" "1 \<le> ke_op (kmq_eq q)" "ke_op (kmq_eq q) \<le> 5"
    and "i < length bases" "i < length kd" "table_ok (bases ! i) (kd ! i) D L" "lock_free (kdb_lock (bases ! i))"
  shows "\<exists>kn' kt'. kcndb_server_recv malloc now kn (bases, kd) = Some (EAGAIN, kn', kt') \<and>
    kb_data (kn_ibuf kn') = [] \<and> kn_fd kn' = kn_fd kn \<and>
    obytes kn' = obytes kn @ concat (map (\<lambda>r. response_msg (loc_response 0 (loc_of L (unat (kdr_locidx r))))) (sel D)) @
      response_msg (end_response (if sel D = [] then ESRCH else 0))"
proof -
  have ib: "kn_ibuf kn = zbuf pre [] (query_msg q @ []) post" using assms(4) by simp
  from recv_query [OF assms(3) ib assms(5-8) assms(9-12)[unfolded i_def], of now] show ?thesis
    unfolding sel_def by (auto simp: recv_empty)
qed

theorem query_is_answered_witness:
  "\<exists>kn' kt'. kcndb_server_recv zero_malloc (Inr 0) (received (query_msg sample_query)) (sample_bases, sample_db) =
      Some (EAGAIN, kn', kt') \<and>
    obytes kn' = response_msg (loc_response 0 [97]) @ response_msg (end_response 0)"
proof -
  let ?q = sample_query
  have s: "sending zero_malloc (received (query_msg ?q))"
    by (rule received_sending) (simp add: query_msg_def)
  from query_is_answered [where q = ?q, OF s received_simps(1), where now = "Inr 0" and bases = sample_bases and kd = sample_db
      and D = "one_record sample" and L = sample_locs] sample_table
  show ?thesis by (auto simp: sample_selection word_le_nat_alt word_less_nat_alt)
qed

lemma add_query_runs:
  fixes a :: kcn_msg_add and q :: kcn_msg_query and now :: "time_t result"
  defines "i \<equiv> TYPE2INDEX (kma_type a)" and "sel \<equiv> selection (kmq_eq q) (unat (kmq_maxcount q))"
  assumes "sending malloc kn" "kn_ibuf kn = zbuf pre [] (add_msg a @ query_msg q) post"
    and "kma_type a < 256" "kma_loclen a = length (kma_loc a)"
      "(if kma_time a \<noteq> KCN_TIME_NOW then Inr (kma_time a) else now) = Inr tm"
    and "i < length bases" "i < length kd" "add_ready (bases ! i) (kd ! i) D L"
    and "record_fits D L (add_record tm a)" "loc_effect L (kma_loc a) idx L'"
    and "kmq_loctype q \<le> 1" "ke_type (kmq_eq q) = kma_type a" "1 \<le> ke_op (kmq_eq q)" "ke_op (kmq_eq q) \<le> 5"
  defines "D' \<equiv> D @ record_bytes ((add_record tm a)\<lparr>kdr_locidx := idx\<rparr>)"
  shows "\<exists>kn' kt'. kcndb_server_recv malloc now kn (bases, kd) = Some (EAGAIN, kn', kt') \<and>
    kb_data (kn_ibuf kn') = [] \<and>
    obytes kn' = obytes kn @ concat (map (\<lambda>r. response_msg (loc_response 0 (loc_of L' (unat (kdr_locidx r))))) (sel D')) @
      response_msg (end_response (if sel D' = [] then ESRCH else 0)) \<and>
    contents D' L' = contents D L @ [(tm, kma_val a, kma_loc a)]"
proof -
  from recv_add [OF assms(4-7) assms(8-10)[unfolded i_def] assms(11,12)] obtain kdb kdt where
    r: "kcndb_server_recv malloc now kn (bases, kd) = kcndb_server_recv malloc now
      (kn\<lparr>kn_ibuf := zbuf (pre @ add_msg a) [] (query_msg q) post\<rparr>) (bases[i := kdb], kd[i := kdt])"
    and ok: "add_ready kdb kdt D' L'" unfolding i_def D'_def by blast
  let ?kn = "kn\<lparr>kn_ibuf := zbuf (pre @ add_msg a) [] (query_msg q @ []) post\<rparr>"
  from assms(3,4) have s: "sending malloc ?kn" by (auto simp: sending_def serving_def net_ok_def)
  have t: "TYPE2INDEX (ke_type (kmq_eq q)) < length (bases[i := kdb])" "TYPE2INDEX (ke_type (kmq_eq q)) < length (kd[i := kdt])"
    "table_ok (bases[i := kdb] ! TYPE2INDEX (ke_type (kmq_eq q))) (kd[i := kdt] ! TYPE2INDEX (ke_type (kmq_eq q))) D' L'"
    "lock_free (kdb_lock (bases[i := kdb] ! TYPE2INDEX (ke_type (kmq_eq q))))"
    using ok assms(8,9) by (simp_all add: assms(14) add_ready_def flip: i_def)
  have ty: "ke_type (kmq_eq q) < 256" using assms(5,14) by simp
  from recv_query [OF s _ assms(13) ty assms(15,16) t, of "pre @ add_msg a" "[]" post now] obtain kn' kt' where
    q: "kcndb_server_recv malloc now ?kn (bases[i := kdb], kd[i := kdt]) = Some (EAGAIN, kn', kt')"
    "kb_data (kn_ibuf kn') = []" "obytes kn' = obytes ?kn @
      concat (map (\<lambda>r. response_msg (loc_response 0 (loc_of L' (unat (kdr_locidx r))))) (sel D')) @
      response_msg (end_response (if sel D' = [] then ESRCH else 0))"
    unfolding sel_def by (auto simp: recv_empty)
  have "contents D' L' = contents D L @ [measurement (add_record tm a)]"
    unfolding D'_def using assms(10-12) by (intro contents_add) (auto simp: add_ready_def record_fits_def add_record_def)
  then have "contents D' L' = contents D L @ [(tm, kma_val a, kma_loc a)]" by (simp add: measurement_def add_record_def)
  moreover have "obytes ?kn = obytes kn" by (simp add: obytes_def)
  ultimately show ?thesis using r q by simp
qed

text \<open>
  C7. A record that is sent for a table that takes it, followed by a query for its type, is stored
  before the query is answered: the answers are those of the table with the new record at its end.
  The record itself is not acknowledged.
\<close>

theorem add_then_query:
  fixes a :: kcn_msg_add and q :: kcn_msg_query and now :: "time_t result"
  defines "i \<equiv> TYPE2INDEX (kma_type a)" and "sel \<equiv> selection (kmq_eq q) (unat (kmq_maxcount q))"
  assumes "sending malloc kn" "kn_ibuf kn = zbuf pre [] (add_msg a @ query_msg q) post"
    and "kma_type a < 256" "kma_loclen a = length (kma_loc a)"
      "(if kma_time a \<noteq> KCN_TIME_NOW then Inr (kma_time a) else now) = Inr tm"
    and "i < length bases" "i < length kd" "add_ready (bases ! i) (kd ! i) D L"
    and "record_fits D L (add_record tm a)" "loc_effect L (kma_loc a) idx L'"
    and "kmq_loctype q \<le> 1" "ke_type (kmq_eq q) = kma_type a" "1 \<le> ke_op (kmq_eq q)" "ke_op (kmq_eq q) \<le> 5"
  defines "D' \<equiv> D @ record_bytes ((add_record tm a)\<lparr>kdr_locidx := idx\<rparr>)"
  shows "\<exists>kn' kt'. kcndb_server_recv malloc now kn (bases, kd) = Some (EAGAIN, kn', kt') \<and>
    kb_data (kn_ibuf kn') = [] \<and>
    obytes kn' = obytes kn @ concat (map (\<lambda>r. response_msg (loc_response 0 (loc_of L' (unat (kdr_locidx r))))) (sel D')) @
      response_msg (end_response (if sel D' = [] then ESRCH else 0)) \<and>
    contents D' L' = contents D L @ [(tm, kma_val a, kma_loc a)]"
  using assms unfolding i_def sel_def D'_def by (intro add_query_runs)

abbreviation sample_add :: kcn_msg_add where
  "sample_add \<equiv> \<lparr>kma_type = 1, kma_time = 1001, kma_val = 6, kma_loc = [97], kma_loclen = 1\<rparr>"

theorem add_then_query_witness:
  "\<exists>kn' kt' D'. kcndb_server_recv zero_malloc (Inr 0) (received (add_msg sample_add @ query_msg sample_query)) (sample_bases, sample_db) =
      Some (EAGAIN, kn', kt') \<and> contents D' sample_locs = [(1000, 5, [97]), (1001, 6, [97])]"
proof -
  let ?a = sample_add and ?q = sample_query
  have s: "sending zero_malloc (received (add_msg ?a @ query_msg ?q))"
    by (rule received_sending) (simp add: query_msg_def add_msg_def length_add_body)
  have f: "record_fits (one_record sample) sample_locs (add_record 1001 ?a)"
    by (simp add: record_fits_def sample_last length_sample_locs add_record_def)
  have e: "loc_effect sample_locs (kma_loc ?a) 2048 sample_locs" using sample_effect by simp
  have ty: "TYPE2INDEX (kma_type ?a) = 0" by (simp add: index_1)
  have r: "add_ready (sample_bases ! TYPE2INDEX (kma_type ?a)) (sample_db ! TYPE2INDEX (kma_type ?a)) (one_record sample) sample_locs"
    using sample_ready by simp
  from add_then_query [where a = ?a and q = ?q, OF s received_simps(1) _ _ _ _ _ r f e, where now = "Inr 0"] show ?thesis
    by (auto simp: sample_contents index_1 word_less_nat_alt word_le_nat_alt)
qed

text \<open>
  A message that is not a query or an addition, a deletion included, is refused with
  \<open>EOPNOTSUPP\<close>, with its header taken off; so is a message of another version, and one that is longer
  than the protocol allows is refused with \<open>E2BIG\<close>.  Nothing is sent and the database is untouched.
\<close>

lemma bad_header_refused:
  assumes "kn_ibuf kn = zbuf pre [] ([v, ty] @ be16 len @ t) post"
    and "unat len \<le> length t \<or> v \<noteq> 1 \<or> 4092 < unat len" "v \<noteq> 1 \<or> 4092 < unat len \<or> ty \<notin> {1, 3}"
  shows "\<exists>kn'. kcndb_server_recv malloc now kn kt =
      Some (if v = 1 \<and> 4092 < unat len then E2BIG else EOPNOTSUPP, kn', kt) \<and>
    obytes kn' = obytes kn \<and> kn_fd kn' = kn_fd kn \<and> kb_trailing (kn_ibuf kn') = t"
proof -
  let ?t = "[v, ty] @ be16 len @ t"
  have h: "kcn_msg_header_decode (zbuf pre [] ?t post) =
      (if v \<noteq> 1 then Some (Inl EOPNOTSUPP, zbuf pre (take 4 ?t) t post)
       else if unat len > 4092 then Some (Inl E2BIG, zbuf pre (take 4 ?t) t post)
       else if length t < unat len then Some (Inl EAGAIN, zbuf pre [] ?t post)
       else Some (Inr \<lparr>kmh_version = v, kmh_type = ucast ty, kmh_len = unat len\<rparr>, zbuf (pre @ take 4 ?t) [] t post))"
    by (subst header_decode_zbuf) (simp add: Let_def)
  have ty: "ucast ty = (k :: c_enum) \<longleftrightarrow> ty = ucast k" if "k < 256" for k
    using that by (metis ucast_enum_byte ucast_byte_enum)
  show ?thesis
    using assms h by (subst kcndb_server_recv.simps) (auto simp: zbuf_len obytes_def ty word_less_nat_alt)
qed

text \<open>
  C36. A query whose length field is not 28 is answered with \<open>EINVAL\<close>, but its body is not taken off
  the buffer: the bytes of the body are then parsed as the next message.
\<close>

theorem bad_query_length_desyncs:
  assumes "sending malloc kn" "kn_ibuf kn = zbuf pre [] (header_bytes 1 body @ body @ rest) post"
    and "length body \<le> 4092" "length body \<noteq> 28"
  shows "\<exists>kn'. kcndb_server_recv malloc now kn kt = kcndb_server_recv malloc now kn' kt \<and>
    kn_ibuf kn' = zbuf (pre @ header_bytes 1 body) [] (body @ rest) post \<and> kn_fd kn' = kn_fd kn \<and>
    obytes kn' = obytes kn @ response_msg (end_response EINVAL)"
proof -
  let ?kmh = "\<lparr>kmh_version = 1, kmh_type = 1, kmh_len = length body\<rparr>"
  let ?kn = "kn\<lparr>kn_ibuf := zbuf (pre @ header_bytes 1 body) [] (body @ rest) post\<rparr>"
  from assms(1,2) have s: "sending malloc ?kn" by (auto simp: sending_def serving_def net_ok_def)
  then have s': "serving ?kn" "alloc_ok malloc" "kn_everrs ?kn = []" "alloc_total malloc"
    by (simp_all add: sending_def alloc_total_ok)
  have m: "malloc n \<noteq> None" for n using s'(4) by (auto simp: alloc_total_def)
  have le: "4 + length (response_body (end_response EINVAL)) \<le> 4096"
    by (simp add: length_response_body end_response_def)
  from response_send_ok [OF s'(1,2) m s'(3) le, where kdr = None and score = EINVAL] obtain kn' where
    f: "kcndb_server_response_send malloc None EINVAL ?kn = Some (Inr (), kn')" "kn_ibuf kn' = kn_ibuf ?kn"
      "kn_fd kn' = kn_fd ?kn" "obytes kn' = obytes ?kn @ response_msg (end_response EINVAL)"
    by (auto simp: end_response_def)
  have "kcndb_server_query_process malloc ?kmh ?kn kt = Some (Inr (), kn', kt)"
    using assms(4) f(1) by (simp add: kcndb_server_query_process_def kcn_msg_query_decode_def)
  then have "kcndb_server_recv malloc now kn kt = kcndb_server_recv malloc now kn' kt"
    by (intro recv_msg [OF assms(2,3)]) simp_all
  with f(2-4) show ?thesis by (intro exI [of _ kn']) (simp add: obytes_def)
qed

theorem bad_query_length_desyncs_witness:
  "\<exists>kn'. kcndb_server_recv zero_malloc (Inr 0) (received (header_bytes 1 [1, 4, 0, 0] @ [1, 4, 0, 0])) (sample_bases, sample_db) =
      kcndb_server_recv zero_malloc (Inr 0) kn' (sample_bases, sample_db) \<and>
    kb_trailing (kn_ibuf kn') = [1, 4, 0, 0] \<and> obytes kn' = response_msg (end_response EINVAL)"
proof -
  let ?t = "header_bytes 1 [1, 4, 0, 0] @ [1, 4, 0, 0]"
  have s: "sending zero_malloc (received ?t)" by (rule received_sending) simp
  have "kn_ibuf (received ?t) = zbuf [] [] (header_bytes 1 [1, 4, 0, 0] @ [1, 4, 0, 0] @ []) (replicate (4096 - length ?t) 0)"
    by simp
  from bad_query_length_desyncs [OF s this, of "Inr 0" "(sample_bases, sample_db)"] show ?thesis
    by auto
qed

text \<open>
  C23. A query for a type that does not exist takes the daemon down: the type of the message is the
  index of a table that is read outside the array, before anything is answered.
\<close>

theorem bad_query_type_faults:
  assumes "kn_ibuf kn = zbuf pre [] (query_msg q @ rest) post" "kmq_loctype q \<le> 1" "ke_op (kmq_eq q) < 256"
    and "ke_type (kmq_eq q) = 0 \<or> 8 \<le> ke_type (kmq_eq q) \<and> ke_type (kmq_eq q) < 256" "length bases = 7" "length kd = 7"
  shows "kcndb_server_recv malloc now kn (bases, kd) = None"
proof -
  let ?body = "query_body q"
  from assms(4) have ty: "ke_type (kmq_eq q) < 256" "\<not> (1 \<le> ke_type (kmq_eq q) \<and> ke_type (kmq_eq q) \<le> 7)"
    by (auto simp: word_le_nat_alt)
  then have "\<not> TYPE2INDEX (ke_type (kmq_eq q)) < 7" by (simp add: type_index_range)
  then have "kcndb_db_search cb (kmq_eq q) n (bases, kd) arg = None" for cb n and arg :: kcn_net
    using assms(5,6) by (simp add: kcndb_db_search_def with_table_def Let_def)
  moreover have "kcn_msg_query_decode (zbuf (pre @ header_bytes 1 ?body) [] (?body @ rest) post)
      \<lparr>kmh_version = 1, kmh_type = 1, kmh_len = 28\<rparr> = Some (Inr q, zbuf ((pre @ header_bytes 1 ?body) @ ?body) [] rest post)"
    using assms(2,3) ty(1) by (intro query_decode_body) simp_all
  ultimately show ?thesis
    using assms(1) header_decode_msg [of ?body pre 1 rest post]
    by (subst kcndb_server_recv.simps) (simp add: query_msg_def zbuf_simps kcndb_server_query_process_def)
qed

theorem bad_query_type_faults_witness:
  "kcndb_server_recv zero_malloc (Inr 0) (received (query_msg (sample_query\<lparr>kmq_eq := sample_eq\<lparr>ke_type := 0\<rparr>\<rparr>)))
    (replicate 7 (opened_base [] empty_locs), replicate 7 (opened_table [] empty_locs)) = None"
proof -
  let ?q = "sample_query\<lparr>kmq_eq := sample_eq\<lparr>ke_type := 0\<rparr>\<rparr>"
  have "kn_ibuf (received (query_msg ?q)) = zbuf [] [] (query_msg ?q @ []) (replicate (4096 - length (query_msg ?q)) 0)" by simp
  from bad_query_type_faults [OF this] show ?thesis by (simp add: word_less_nat_alt)
qed

text \<open>
  C4. A daemon that starts in an empty directory serves: after a whole addition to any type, whose
  time is not negative, a query for it that the measurement satisfies is answered with its locator,
  and nothing else is.
\<close>

theorem new_daemon_serves:
  fixes a :: kcn_msg_add and q :: kcn_msg_query
  assumes "empty_dir env" "sending malloc kn" "kn_ibuf kn = zbuf pre [] (add_msg a @ query_msg q) post"
    and "1 \<le> kma_type a" "kma_type a \<le> 7" "0 \<le> sint (kma_time a)"
      "kma_loclen a = length (kma_loc a)" "length (kma_loc a) \<le> 4075" "0 \<notin> set (kma_loc a)"
    and "kmq_loctype q \<le> 1" "ke_type (kmq_eq q) = kma_type a" "1 \<le> ke_op (kmq_eq q)" "ke_op (kmq_eq q) \<le> 5"
      "kmq_maxcount q \<noteq> 0" "matching (kmq_eq q) (add_record (kma_time a) a)"
  shows "\<exists>kd bases kn' kt'. kcndb_db_new env path kcndb_db_base = Some (Inr kd, bases) \<and>
    kcndb_server_recv malloc now kn (bases, kd) = Some (EAGAIN, kn', kt') \<and>
    obytes kn' = obytes kn @ response_msg (loc_response 0 (kma_loc a)) @ response_msg (end_response 0)"
proof -
  let ?i = "TYPE2INDEX (kma_type a)" and ?r = "add_record (kma_time a) a"
  let ?D = "record_bytes (?r\<lparr>kdr_locidx := 2048\<rparr>)" and ?L = "loc_added empty_locs (kma_loc a)"
  from assms(4,5) have i7: "?i < 7" by (simp add: type_index_range)
  from db_new_empty [OF assms(1), of path] obtain kd bases where
    n: "kcndb_db_new env path kcndb_db_base = Some (Inr kd, bases)" "length kd = 7" "length bases = 7"
    "fresh_table (bases ! ?i) (kd ! ?i)" using i7 by blast
  then have ok: "add_ready (bases ! ?i) (kd ! ?i) [] empty_locs"
    by (auto simp: fresh_table_def add_ready_def empty_locs_def)
  from assms(6) have "kma_time a \<noteq> - 1" by auto
  then have tm: "(if kma_time a \<noteq> KCN_TIME_NOW then Inr (kma_time a) else now) = Inr (kma_time a)" by simp
  have f: "record_fits [] empty_locs ?r"
    using assms(6-9) by (simp add: record_fits_def add_record_def last_record_def kdr_uninit_def empty_locs_def)
  have ty: "kma_type a < 256" using assms(5) by (simp add: word_le_nat_alt word_less_nat_alt)
  from add_query_runs [OF assms(2,3) ty assms(7) tm _ _ ok f effect_empty assms(10-13)] i7 n(2,3)
  obtain kn' kt' where r: "kcndb_server_recv malloc now kn (bases, kd) = Some (EAGAIN, kn', kt')"
    "obytes kn' = obytes kn @ concat (map (\<lambda>r. response_msg (loc_response 0 (loc_of ?L (unat (kdr_locidx r)))))
        (selection (kmq_eq q) (unat (kmq_maxcount q)) ([] @ ?D))) @
      response_msg (end_response (if selection (kmq_eq q) (unat (kmq_maxcount q)) ([] @ ?D) = [] then ESRCH else 0))"
    by auto
  have p: "parse_records ([] @ ?D) = [kdr_uninit\<lparr>kdr_time := kma_time a, kdr_val := kma_val a, kdr_locidx := 2048\<rparr>]"
    using parse_records_append [of "[]" "?r\<lparr>kdr_locidx := 2048\<rparr>"] by (simp add: parse_records.simps add_record_def)
  have "0 < unat (kmq_maxcount q)" using assms(14) by (simp add: unat_gt_0)
  then obtain m where "unat (kmq_maxcount q) = Suc m" by (cases "unat (kmq_maxcount q)") auto
  with assms(15) have "selection (kmq_eq q) (unat (kmq_maxcount q)) ([] @ ?D) =
      [kdr_uninit\<lparr>kdr_time := kma_time a, kdr_val := kma_val a, kdr_locidx := 2048\<rparr>]"
    unfolding selection_def p by (simp add: matching_def add_record_def)
  moreover have "loc_of ?L 2048 = kma_loc a"
    using node_at_new [of empty_locs "kma_loc a"] assms(8) by (intro node_at_loc_of) (simp add: empty_locs_def)
  ultimately show ?thesis using n(1) r by simp
qed

theorem new_daemon_serves_witness:
  "\<exists>kd bases kn' kt'. kcndb_db_new \<lparr>env_new = True, env_malloc = zero_malloc,
      env_open = \<lambda>_. Inr \<lparr>fd_data = [], fd_off = 0, fd_sys = []\<rparr>\<rparr> ''/db'' kcndb_db_base = Some (Inr kd, bases) \<and>
    kcndb_server_recv zero_malloc (Inr 0) (received (add_msg sample_add @ query_msg sample_query)) (bases, kd) =
      Some (EAGAIN, kn', kt') \<and> obytes kn' = response_msg (loc_response 0 [97]) @ response_msg (end_response 0)"
proof -
  have e: "empty_dir \<lparr>env_new = True, env_malloc = zero_malloc,
      env_open = \<lambda>_. Inr \<lparr>fd_data = [], fd_off = 0, fd_sys = []\<rparr>\<rparr>"
    by (simp add: empty_dir_def alloc_total_def zero_malloc_def)
  have s: "sending zero_malloc (received (add_msg sample_add @ query_msg sample_query))"
    by (rule received_sending) (simp add: query_msg_def add_msg_def length_add_body)
  have m: "matching (kmq_eq sample_query) (add_record (kma_time sample_add) sample_add)"
    by (simp add: matching_def op_holds_def add_record_def)
  from new_daemon_serves [OF e s received_simps(1) _ _ _ _ _ _ _ _ _ _ _ m, of "''/db''" "Inr 0"] show ?thesis
    by (auto simp: word_le_nat_alt)
qed

section \<open>The client and the daemon\<close>

text \<open>
  A search without the wire: the answer of the daemon to a query, delivered to the client that
  waits for it in whatever portions, leaves in the client's structure the locators of the first
  \<open>maxcount\<close> matching measurements of the table, in their order, and the error 0, or \<open>ESRCH\<close> when there
  are none.  Until then, and if the connection is lost, it has a beginning of them.
\<close>

lemma search_end_to_end:
  fixes q :: kcn_msg_query
  defines "i \<equiv> TYPE2INDEX (ke_type (kmq_eq q))" and "sel \<equiv> selection (kmq_eq q) (unat (kmq_maxcount q))"
  assumes "sending malloc kn" "kn_ibuf kn = zbuf pre [] (query_msg q) post" "obytes kn = []"
    and "kmq_loctype q \<le> 1" "ke_type (kmq_eq q) < 256" "1 \<le> ke_op (kmq_eq q)" "ke_op (kmq_eq q) \<le> 5"
    and "i < length bases" "i < length kd" "table_ok (bases ! i) (kd ! i) D L" "lock_free (kdb_lock (bases ! i))"
    and "waiting ckn" "kn_fd ckn = Some csk" "sk_rx csk = []" "kb_data (kn_ibuf ckn) = []"
    and "kcn_info_nlocs ki = 0" "info_room ki (unat (kmq_maxcount q))"
    and "\<forall>r \<in> set (sel D). loc_of L (unat (kdr_locidx r)) \<noteq> [] \<and> length (loc_of L (unat (kdr_locidx r))) \<le> 4090"
  shows "\<exists>kn' kt'. kcndb_server_recv malloc now kn (bases, kd) = Some (EAGAIN, kn', kt') \<and>
    (\<forall>rest ckn' kcr. client_run malloc errno (obytes kn', ckn, \<lparr>kcr_error = 0, kcr_ki = ki\<rparr>) (rest, ckn', kcr) \<longrightarrow>
       (\<exists>k. info_locs (kcr_ki kcr) = take k (map (\<lambda>r. loc_of L (unat (kdr_locidx r))) (sel D))) \<and>
       (\<not> kn_evread ckn' \<longrightarrow>
          kcr_error kcr = (if sel D = [] then ESRCH else 0) \<and>
          info_locs (kcr_ki kcr) = map (\<lambda>r. loc_of L (unat (kdr_locidx r))) (sel D) \<or>
          kn_state ckn' = KCN_NET_STATE_DISCONNECTED \<and> (kcr_error kcr = 0 \<or> kcr_error kcr = EAGAIN)))"
proof -
  let ?loc = "\<lambda>r. loc_of L (unat (kdr_locidx r))" and ?e = "if sel D = [] then ESRCH else 0"
  let ?locs = "map (\<lambda>r. (0 :: nat, ?loc r)) (sel D)"
  have ib: "kn_ibuf kn = zbuf pre [] (query_msg q @ []) post" using assms(4) by simp
  from recv_query [OF assms(3) ib assms(6-9) assms(10-13)[unfolded i_def], of now] obtain kn' kt' where
    s: "kcndb_server_recv malloc now kn (bases, kd) = Some (EAGAIN, kn', kt')"
      "obytes kn' = obytes kn @ concat (map (\<lambda>r. response_msg (loc_response 0 (?loc r))) (sel D)) @ response_msg (end_response ?e)"
    unfolding sel_def by (auto simp: recv_empty)
  have a: "obytes kn' = answer ?locs ?e" using s(2) assms(5) by (simp add: answer_def o_def split_def)
  from assms(3) have m: "alloc_ok malloc" "alloc_total malloc" by (simp_all add: sending_def alloc_total_ok)
  have l: "locs_ok malloc ?locs"
    using assms(20) m by (auto simp: locs_ok_def alloc_total_def)
  have "length (sel D) \<le> unat (kmq_maxcount q)" by (simp add: sel_def selection_def)
  then have n: "info_room ki (length ?locs)" using assms(18,19) by simp
  have il: "info_locs ki = []" using assms(18) by (simp add: kcn_info_nlocs_def info_locs_def)
  have e: "?e < 256" "?e \<noteq> EAGAIN" by simp_all
  have ms: "map snd ?locs = map ?loc (sel D)" by simp
  show ?thesis
  proof (intro exI [of _ kn'] exI [of _ kt'] conjI s(1) allI impI)
    fix rest ckn' kcr assume r: "client_run malloc errno (obytes kn', ckn, \<lparr>kcr_error = 0, kcr_ki = ki\<rparr>) (rest, ckn', kcr)"
    note c = run_collects [OF assms(14-17) l n e r [unfolded a], unfolded il append_Nil ms]
    from conjunct1 [OF c] obtain k where "info_locs (kcr_ki kcr) = map snd (take k ?locs)" by blast
    also have "\<dots> = take k (map ?loc (sel D))" by (simp only: take_map [symmetric] ms)
    finally show "\<exists>k. info_locs (kcr_ki kcr) = take k (map ?loc (sel D))" by blast
    assume "\<not> kn_evread ckn'"
    with conjunct2 [OF conjunct2 [OF c]] show "kcr_error kcr = ?e \<and> info_locs (kcr_ki kcr) = map ?loc (sel D) \<or>
        kn_state ckn' = KCN_NET_STATE_DISCONNECTED \<and> (kcr_error kcr = 0 \<or> kcr_error kcr = EAGAIN)" by (rule mp)
  qed
qed

text \<open>Whole additions to one type, one after the other.\<close>

lemma recv_adds:
  fixes adds :: "kcn_msg_add list" and type :: c_enum
  assumes "add_run D L rs D' L'" "rs = map (\<lambda>a. add_record (kma_time a) a) adds"
    and "kn_ibuf kn = zbuf pre [] (concat (map add_msg adds) @ rest) post"
    and "\<forall>a \<in> set adds. kma_type a = type \<and> kma_loclen a = length (kma_loc a) \<and> kma_time a \<noteq> KCN_TIME_NOW" "type < 256"
    and "TYPE2INDEX type < length bases" "TYPE2INDEX type < length kd"
      "add_ready (bases ! TYPE2INDEX type) (kd ! TYPE2INDEX type) D L"
  shows "\<exists>kdb kdt. kcndb_server_recv malloc now kn (bases, kd) = kcndb_server_recv malloc now
      (kn\<lparr>kn_ibuf := zbuf (pre @ concat (map add_msg adds)) [] rest post\<rparr>)
      (bases[TYPE2INDEX type := kdb], kd[TYPE2INDEX type := kdt]) \<and> add_ready kdb kdt D' L'"
  using assms
proof (induction arbitrary: adds kn pre bases kd rule: add_run.induct)
  case (run_Nil D L)
  then have "adds = []" by simp
  moreover from this run_Nil(2) have kn: "kn\<lparr>kn_ibuf := zbuf pre [] rest post\<rparr> = kn" by simp
  ultimately show ?case
    using run_Nil(7) by (intro exI [of _ "bases ! TYPE2INDEX type"] exI [of _ "kd ! TYPE2INDEX type"]) (simp add: kn)
next
  case (run_Cons D L r idx L' rs D'' L'')
  from run_Cons.prems(1) obtain a as where a: "adds = a # as" "r = add_record (kma_time a) a" "rs = map (\<lambda>a. add_record (kma_time a) a) as"
    by (cases adds) auto
  have f: "kma_type a = type" "kma_loclen a = length (kma_loc a)" "kma_time a \<noteq> KCN_TIME_NOW"
    using run_Cons.prems(3) a(1) by simp_all
  have e: "loc_effect L (kma_loc a) idx L'" using run_Cons.hyps(2) by (simp add: a(2) add_record_def)
  let ?i = "TYPE2INDEX type" and ?rest = "concat (map add_msg as) @ rest"
  let ?kn = "kn\<lparr>kn_ibuf := zbuf (pre @ add_msg a) [] ?rest post\<rparr>"
  have ib: "kn_ibuf kn = zbuf pre [] (add_msg a @ ?rest) post" using run_Cons.prems(2) a(1) by simp
  from recv_add [OF ib _ f(2) _ _ _ _ run_Cons.hyps(1)[unfolded a(2)] e, where malloc = malloc and now = now and bases = bases and kd = kd]
    f run_Cons.prems(4-7)
  obtain kdb kdt where
    r: "kcndb_server_recv malloc now kn (bases, kd) = kcndb_server_recv malloc now ?kn (bases[?i := kdb], kd[?i := kdt])"
      "add_ready kdb kdt (D @ record_bytes (r\<lparr>kdr_locidx := idx\<rparr>)) L'" by (auto simp: a(2))
  have "kn_ibuf ?kn = zbuf (pre @ add_msg a) [] ?rest post" by simp
  moreover have "\<forall>a \<in> set as. kma_type a = type \<and> kma_loclen a = length (kma_loc a) \<and> kma_time a \<noteq> KCN_TIME_NOW"
    using run_Cons.prems(3) a(1) by simp
  moreover have "?i < length (bases[?i := kdb])" "?i < length (kd[?i := kdt])"
    "add_ready (bases[?i := kdb] ! ?i) (kd[?i := kdt] ! ?i) (D @ record_bytes (r\<lparr>kdr_locidx := idx\<rparr>)) L'"
    using run_Cons.prems(5,6) r(2) by simp_all
  ultimately obtain kdb' kdt' where
    "kcndb_server_recv malloc now ?kn (bases[?i := kdb], kd[?i := kdt]) = kcndb_server_recv malloc now
        (?kn\<lparr>kn_ibuf := zbuf ((pre @ add_msg a) @ concat (map add_msg as)) [] rest post\<rparr>)
        (bases[?i := kdb, ?i := kdb'], kd[?i := kdt, ?i := kdt'])" "add_ready kdb' kdt' D'' L''"
    using run_Cons.IH [OF a(3)] run_Cons.prems(4) by blast
  with r(1) show ?case by (intro exI [of _ kdb'] exI [of _ kdt']) (simp add: a(1))
qed

text \<open>
  An import without the wire: the messages that \<open>kcndbctl\<close> sends for the lines of a file, received by
  the daemon, append the times, values and locators of the lines, in the order of the file, to the
  measurements of a table that takes them.
\<close>

lemma import_end_to_end:
  fixes es :: "entry list" and type :: c_enum
  defines "i \<equiv> TYPE2INDEX type"
  assumes "alloc_total malloc" "can_send ckn" "obytes ckn = []" "fd_calm fd" "fd_off fd = 0" "fd_data fd = entry_lines es" "es \<noteq> []"
    "list_all entry_ok es" "length (fd_data fd) < 2 ^ 64"
    and "type < 256" "i < length bases" "i < length kd" "add_ready (bases ! i) (kd ! i) D L"
    and "add_run D L (map (\<lambda>e. add_record (kma_time (entry_add type e)) (entry_add type e)) es) D' L'"
  shows "\<exists>kb kf. bufalloc malloc (length (fd_data fd)) = Some (Some kb) \<and>
    file_events malloc fd \<lparr>kcf_type = type, kcf_size = length (fd_data fd), kcf_line = 0, kcf_kb = kb, kcf_kn = ckn\<rparr> =
      Some (Inr kf) \<and>
    (\<forall>kn pre post. kn_ibuf kn = zbuf pre [] (obytes (kcf_kn kf)) post \<longrightarrow>
      (\<exists>kn' kdb kdt. kcndb_server_recv malloc now kn (bases, kd) = Some (EAGAIN, kn', bases[i := kdb], kd[i := kdt]) \<and>
         add_ready kdb kdt D' L')) \<and>
    contents D' L' = contents D L @ map (\<lambda>(time, val, loc). (of_nat time, of_nat val, loc)) es"
proof -
  let ?as = "map (entry_add type) es" and ?m = "concat (map (add_msg \<circ> entry_add type) es)"
  note run = assms(15) and tab = assms(11-14)[unfolded i_def]
  from import_runs [OF assms(2,3,5-10), of type] assms(4) obtain kb kf where
    c: "bufalloc malloc (length (fd_data fd)) = Some (Some kb)"
      "file_events malloc fd \<lparr>kcf_type = type, kcf_size = length (fd_data fd), kcf_line = 0, kcf_kb = kb, kcf_kn = ckn\<rparr> = Some (Inr kf)"
      "obytes (kcf_kn kf) = ?m" by auto
  have m: "map (\<lambda>e. add_record (kma_time (entry_add type e)) (entry_add type e)) es = map (\<lambda>a. add_record (kma_time a) a) ?as"
    by simp
  have f: "\<forall>a \<in> set ?as. kma_type a = type \<and> kma_loclen a = length (kma_loc a) \<and> kma_time a \<noteq> KCN_TIME_NOW"
    using assms(9) by (simp add: list_all_iff entry_add_fields)
  have serve: "\<exists>kn' kdb kdt. kcndb_server_recv malloc now kn (bases, kd) = Some (EAGAIN, kn', bases[i := kdb], kd[i := kdt]) \<and>
      add_ready kdb kdt D' L'" if "kn_ibuf kn = zbuf pre [] ?m post" for kn pre post
  proof -
    from that have "kn_ibuf kn = zbuf pre [] (concat (map add_msg ?as) @ []) post" by (simp add: comp_def)
    from recv_adds [OF run m this f tab, where malloc = malloc and now = now] obtain kdb kdt where
      "kcndb_server_recv malloc now kn (bases, kd) = kcndb_server_recv malloc now
        (kn\<lparr>kn_ibuf := zbuf (pre @ concat (map add_msg ?as)) [] [] post\<rparr>) (bases[i := kdb], kd[i := kdt])"
      "add_ready kdb kdt D' L'" unfolding i_def by blast
    then show ?thesis by (auto simp: recv_empty)
  qed
  have "contents D' L' = contents D L @ map measurement (entry_records type es)"
    by (rule contents_run [OF run tab(2-4)])
  then have t: "contents D' L' = contents D L @ map (\<lambda>(time, val, loc). (of_nat time, of_nat val, loc)) es"
    unfolding entry_measurements .
  show ?thesis
  proof (intro exI [of _ kb] exI [of _ kf] conjI c(1,2) t allI impI)
    fix kn :: kcn_net and pre post assume "kn_ibuf kn = zbuf pre [] (obytes (kcf_kn kf)) post"
    then show "\<exists>kn' kdb kdt. kcndb_server_recv malloc now kn (bases, kd) = Some (EAGAIN, kn', bases[i := kdb], kd[i := kdt]) \<and>
        add_ready kdb kdt D' L'" unfolding c(3) by (rule serve)
  qed
qed

end
